(* ===== verification/Prelude.thy ===== *)
theory Prelude
  imports Main "HOL-Library.Word" "HOL-Library.Mapping" "HOL-Library.AList"
    "HOL-Library.AList_Mapping" "HOL-Library.Sublist" "HOL-Library.Multiset"
begin

text \<open>
  Shared vocabulary of the development: machine integers, the first and last element of a
  list as options, the bounded pointer walk that every child, sibling and ancestor loop of
  \<open>crates/obscura-dom\<close> is written as, and two-way linked segments.
  The collections \<open>dom_acc\<close> (how an operation changes the pointer fields) and \<open>str_eval\<close>
  (evaluation of Rust string functions) are filled by the component theories.
\<close>

named_theorems dom_acc \<open>effect of an arena update on the pointer fields\<close>
named_theorems str_eval \<open>evaluation rules for the Rust string functions\<close>

type_synonym u8 = "8 word"
type_synonym u16 = "16 word"
type_synonym u64 = "64 word"

section \<open>Bounds of the machine integers\<close>

text \<open>\<open>usize\<close> is 64 bits wide. \<open>checked_add m a b\<close> is Rust's checked addition for a type
  with maximum \<open>m\<close>, \<open>saturating_add\<close> the one that stops there; on naturals the subtraction
  \<open>-\<close> is already \<open>saturating_sub\<close>.\<close>

definition u64_max :: nat where "u64_max = 2 ^ 64 - 1"
definition u32_max :: nat where "u32_max = 2 ^ 32 - 1"
definition usize_max :: nat where "usize_max = 2 ^ 64 - 1"

definition checked_add :: "nat \<Rightarrow> nat \<Rightarrow> nat \<Rightarrow> nat option" where
  "checked_add m a b = (if a + b \<le> m then Some (a + b) else None)"

definition saturating_add :: "nat \<Rightarrow> nat \<Rightarrow> nat \<Rightarrow> nat" where
  "saturating_add m a b = min m (a + b)"

section \<open>Slots of a vector\<close>

text \<open>Rust's \<open>vec.get(i)\<close> on a vector of options, flattened: out of range is \<open>None\<close>.\<close>

definition slot :: "'a option list \<Rightarrow> nat \<Rightarrow> 'a option" where
  "slot xs i = (if i < length xs then xs ! i else None)"

lemma slot_update: "slot (xs[i := v]) j = (if j = i \<and> i < length xs then v else slot xs j)"
  by (simp add: slot_def)

lemma slot_append: "slot (xs @ [v]) j = (if j = length xs then v else slot xs j)"
  by (simp add: slot_def nth_append)

lemma slot_Some_less: "slot xs i = Some v \<Longrightarrow> i < length xs"
  by (simp add: slot_def split: if_splits)

lemma finite_slots: "finite {i. slot xs i \<noteq> None}"
proof (rule finite_subset)
  show "{i. slot xs i \<noteq> None} \<subseteq> {..<length xs}" by (auto simp: slot_def split: if_splits)
qed simp

lemma card_slots: "card {i. slot xs i \<noteq> None} \<le> length xs"
proof -
  have "{i. slot xs i \<noteq> None} \<subseteq> {..<length xs}" by (auto simp: slot_def split: if_splits)
  then have "card {i. slot xs i \<noteq> None} \<le> card {..<length xs}" by (rule card_mono [rotated]) simp
  then show ?thesis by simp
qed

section \<open>Ends of a list\<close>

definition first_opt :: "'a list \<Rightarrow> 'a option \<Rightarrow> 'a option" where
  "first_opt xs d = (case xs of [] \<Rightarrow> d | x # _ \<Rightarrow> Some x)"

definition last_opt :: "'a list \<Rightarrow> 'a option \<Rightarrow> 'a option" where
  "last_opt xs d = (if xs = [] then d else Some (last xs))"

lemma first_opt_simps [simp]:
  "first_opt [] d = d" "first_opt (x # xs) d = Some x"
  by (simp_all add: first_opt_def)

lemma last_opt_simps [simp]:
  "last_opt [] d = d" "last_opt (xs @ [x]) d = Some x"
  by (simp_all add: last_opt_def)

lemma last_opt_Cons: "last_opt (x # xs) d = last_opt xs (Some x)"
  by (simp add: last_opt_def)

lemma last_opt_append: "last_opt (xs @ ys) d = last_opt ys (last_opt xs d)"
  by (simp add: last_opt_def)

lemma first_opt_append: "first_opt (xs @ ys) d = first_opt xs (first_opt ys d)"
  by (cases xs) simp_all

lemma first_opt_in: "first_opt xs None = Some x \<Longrightarrow> x \<in> set xs"
  by (cases xs) simp_all

lemma last_opt_in: "last_opt xs None = Some x \<Longrightarrow> x \<in> set xs"
  by (cases xs rule: rev_cases) simp_all

lemma first_opt_None [simp]: "first_opt xs None = None \<longleftrightarrow> xs = []"
  by (cases xs) simp_all

lemma last_opt_None [simp]: "last_opt xs None = None \<longleftrightarrow> xs = []"
  by (simp add: last_opt_def)

section \<open>Two-way linked segments\<close>

text \<open>
  \<open>dll nx pv b xs a\<close>: the nodes \<open>xs\<close> are chained by \<open>nx\<close> and \<open>pv\<close>, the first one's
  predecessor is \<open>b\<close> and the last one's successor is \<open>a\<close>.
\<close>

fun dll :: "('a \<Rightarrow> 'a option) \<Rightarrow> ('a \<Rightarrow> 'a option) \<Rightarrow> 'a option \<Rightarrow> 'a list \<Rightarrow> 'a option \<Rightarrow> bool" where
  "dll nx pv b [] a = True"
| "dll nx pv b (x # xs) a = (pv x = b \<and> nx x = first_opt xs a \<and> dll nx pv (Some x) xs a)"

lemma dll_append:
  "dll nx pv b (xs @ ys) a \<longleftrightarrow> dll nx pv b xs (first_opt ys a) \<and> dll nx pv (last_opt xs b) ys a"
  by (induction xs arbitrary: b) (auto simp: first_opt_append last_opt_Cons)

lemma dll_cong:
  assumes "\<And>x. x \<in> set xs \<Longrightarrow> nx x = nx' x" and "\<And>x. x \<in> set xs \<Longrightarrow> pv x = pv' x"
  shows "dll nx pv b xs a = dll nx' pv' b xs a"
  using assms by (induction xs arbitrary: b) auto

lemma dll_snoc:
  "dll nx pv b (xs @ [x]) a \<longleftrightarrow>
     dll nx pv b xs (Some x) \<and> pv x = last_opt xs b \<and> nx x = a"
  by (simp add: dll_append)

lemma dll_next: "dll nx pv b (xs @ x # ys) a \<Longrightarrow> nx x = first_opt ys a"
  by (simp add: dll_append)

lemma dll_prev: "dll nx pv b (xs @ x # ys) a \<Longrightarrow> pv x = last_opt xs b"
  by (simp add: dll_append)

section \<open>The bounded pointer walk\<close>

text \<open>
  \<open>while let Some(x) = cur { out.push(x); if out.len() > cap { break } cur = next(x) }\<close>,
  the loop of \<open>children\<close>, \<open>ancestors\<close> and the other walks: at most \<open>cap + 1\<close> elements.
\<close>

fun walk :: "nat \<Rightarrow> ('a \<Rightarrow> 'a option) \<Rightarrow> 'a option \<Rightarrow> 'a list" where
  "walk cap nx None = []"
| "walk 0 nx (Some x) = [x]"
| "walk (Suc cap) nx (Some x) = x # walk cap nx (nx x)"

lemma walk_length: "length (walk cap nx c) \<le> Suc cap"
  by (induction cap nx c rule: walk.induct) auto

lemma walk_complete:
  assumes "dll nx pv b xs None" and "length xs \<le> Suc cap"
  shows "walk cap nx (first_opt xs None) = xs"
  using assms
proof (induction xs arbitrary: cap b)
  case Nil
  then show ?case by simp
next
  case (Cons x xs)
  show ?case
  proof (cases cap)
    case 0
    with Cons.prems show ?thesis by simp
  next
    case (Suc k)
    with Cons.prems Cons.IH [of "Some x" k] show ?thesis by simp
  qed
qed

lemma distinct_length_le:
  assumes "distinct xs" and "\<And>x. x \<in> set xs \<Longrightarrow> x < n"
  shows "length xs \<le> n"
proof -
  have "card (set xs) \<le> card {..<n}" using assms(2) by (intro card_mono) auto
  with assms(1) show ?thesis by (simp add: distinct_card)
qed

section \<open>Small list facts\<close>

lemma split_list_distinct:
  assumes "distinct zs" and "x \<in> set zs"
  obtains xs ys where "zs = xs @ x # ys" and "x \<notin> set xs" and "x \<notin> set ys"
  using assms by (auto dest!: split_list)

lemma removeAll_middle:
  "x \<notin> set xs \<Longrightarrow> x \<notin> set ys \<Longrightarrow> removeAll x (xs @ x # ys) = xs @ ys"
  by (simp add: removeAll_id)

section \<open>Lookups in a mapping\<close>

lemma lookup_delete_if: "Mapping.lookup (Mapping.delete k m) j = (if j = k then None else Mapping.lookup m j)"
  by (cases "j = k") (auto simp: lookup_delete_neq)

lemma lookup_update_if: "Mapping.lookup (Mapping.update k v m) j = (if j = k then Some v else Mapping.lookup m j)"
  by (cases "j = k") (auto simp: lookup_update_neq)

lemma in_keys: "k \<in> Mapping.keys m \<longleftrightarrow> Mapping.lookup m k \<noteq> None"
  by (auto simp: Mapping.keys_dom_lookup)

end
