(* ===== verification/RustStr.thy ===== *)
theory RustStr
  imports Prelude
begin

text \<open>
  The operations of Rust's \<open>str\<close> and integer parsing that the modelled crates call. A
  \<open>string\<close> is the list of the bytes of its UTF-8 encoding, so \<open>length\<close> is \<open>str::len\<close> and
  taking and dropping is slicing at byte offsets. \<open>str::to_lowercase\<close> needs the Unicode
  tables for text that is not ASCII: the parameter \<open>lc\<close> of \<open>to_lowercase\<close> stands for them.
\<close>

type_synonym unicode_case = "string \<Rightarrow> string"

section \<open>ASCII case\<close>

definition ascii_upper :: "char \<Rightarrow> bool" where
  "ascii_upper c \<longleftrightarrow> (65::nat) \<le> of_char c \<and> (of_char c :: nat) \<le> 90"

definition ascii_lower_char :: "char \<Rightarrow> char" where
  "ascii_lower_char c = (if ascii_upper c then char_of (of_char c + 32 :: nat) else c)"

definition to_ascii_lowercase :: "string \<Rightarrow> string" where
  "to_ascii_lowercase s = map ascii_lower_char s"

definition eq_ignore_ascii_case :: "string \<Rightarrow> string \<Rightarrow> bool" where
  "eq_ignore_ascii_case a b \<longleftrightarrow> to_ascii_lowercase a = to_ascii_lowercase b"

definition is_ascii :: "string \<Rightarrow> bool" where
  "is_ascii s = list_all (\<lambda>c. (of_char c :: nat) < 128) s"

definition to_lowercase :: "unicode_case \<Rightarrow> string \<Rightarrow> string" where
  "to_lowercase lc s = (if is_ascii s then to_ascii_lowercase s else lc s)"

definition ascii_digit :: "char \<Rightarrow> bool" where
  "ascii_digit c \<longleftrightarrow> (48::nat) \<le> of_char c \<and> (of_char c :: nat) \<le> 57"

lemma ascii_lower_char_code:
  "(of_char (ascii_lower_char c) :: nat) = (if ascii_upper c then of_char c + 32 else of_char c)"
  by (simp add: ascii_lower_char_def ascii_upper_def)

lemma ascii_lower_char_idem [simp]: "ascii_lower_char (ascii_lower_char c) = ascii_lower_char c"
proof (cases "ascii_upper c")
  case True
  then have "\<not> ascii_upper (ascii_lower_char c)"
    by (simp add: ascii_upper_def ascii_lower_char_code)
  then show ?thesis by (simp add: ascii_lower_char_def [of "ascii_lower_char c"])
next
  case False
  then show ?thesis by (simp add: ascii_lower_char_def)
qed

lemma ascii_lower_char_fix: "\<not> ascii_upper c \<Longrightarrow> ascii_lower_char c = c"
  by (simp add: ascii_lower_char_def)

lemma ascii_lower_char_eq_fix:
  assumes "\<not> ascii_upper d" and "(of_char d :: nat) < 97 \<or> 122 < (of_char d :: nat)"
  shows "ascii_lower_char c = d \<longleftrightarrow> c = d"
proof (cases "ascii_upper c")
  case True
  then have "97 \<le> (of_char (ascii_lower_char c) :: nat)" "(of_char (ascii_lower_char c) :: nat) \<le> 122"
    by (auto simp: ascii_lower_char_code ascii_upper_def)
  with assms True show ?thesis by auto
next
  case False
  then show ?thesis by (simp add: ascii_lower_char_fix)
qed

lemma to_ascii_lowercase_idem [simp]: "to_ascii_lowercase (to_ascii_lowercase s) = to_ascii_lowercase s"
  by (simp add: to_ascii_lowercase_def)

lemma length_to_ascii_lowercase [simp]: "length (to_ascii_lowercase s) = length s"
  by (simp add: to_ascii_lowercase_def)

lemma to_ascii_lowercase_append [simp]:
  "to_ascii_lowercase (a @ b) = to_ascii_lowercase a @ to_ascii_lowercase b"
  by (simp add: to_ascii_lowercase_def)

lemma eq_ignore_ascii_case_refl [simp]: "eq_ignore_ascii_case a a"
  by (simp add: eq_ignore_ascii_case_def)

lemma eq_ignore_ascii_case_sym: "eq_ignore_ascii_case a b \<Longrightarrow> eq_ignore_ascii_case b a"
  by (simp add: eq_ignore_ascii_case_def)

lemma eq_ignore_ascii_case_trans:
  "eq_ignore_ascii_case a b \<Longrightarrow> eq_ignore_ascii_case b c \<Longrightarrow> eq_ignore_ascii_case a c"
  by (simp add: eq_ignore_ascii_case_def)

lemma eq_ignore_ascii_case_length: "eq_ignore_ascii_case a b \<Longrightarrow> length a = length b"
  unfolding eq_ignore_ascii_case_def by (metis length_to_ascii_lowercase)

section \<open>White space and trimming\<close>

text \<open>
  \<open>ws_len s\<close> is the number of bytes of the white-space character (Unicode property
  \<open>White_Space\<close>, UTF-8 encoded) that \<open>s\<close> starts with, 0 when it starts with another one.
\<close>

definition ascii_ws :: "char \<Rightarrow> bool" where
  "ascii_ws c \<longleftrightarrow> c = CHR '' '' \<or> ((9::nat) \<le> of_char c \<and> (of_char c :: nat) \<le> 13)"

definition ws2 :: "char \<Rightarrow> char \<Rightarrow> bool" where
  "ws2 a b \<longleftrightarrow> a = CHR 0xC2 \<and> (b = CHR 0x85 \<or> b = CHR 0xA0)"

definition ws3 :: "char \<Rightarrow> char \<Rightarrow> char \<Rightarrow> bool" where
  "ws3 a b c \<longleftrightarrow>
     (a = CHR 0xE1 \<and> b = CHR 0x9A \<and> c = CHR 0x80) \<or>
     (a = CHR 0xE2 \<and> b = CHR 0x80 \<and>
       (((128::nat) \<le> of_char c \<and> (of_char c :: nat) \<le> 138) \<or> c = CHR 0xA8 \<or> c = CHR 0xA9 \<or> c = CHR 0xAF)) \<or>
     (a = CHR 0xE2 \<and> b = CHR 0x81 \<and> c = CHR 0x9F) \<or>
     (a = CHR 0xE3 \<and> b = CHR 0x80 \<and> c = CHR 0x80)"

fun ws_len :: "string \<Rightarrow> nat" where
  "ws_len [] = 0"
| "ws_len (a # s) =
     (if ascii_ws a then 1
      else case s of [] \<Rightarrow> 0
           | b # s' \<Rightarrow> (if ws2 a b then 2
                       else case s' of [] \<Rightarrow> 0 | c # _ \<Rightarrow> (if ws3 a b c then 3 else 0)))"

text \<open>The same at the other end, read from a reversed string.\<close>

fun rws_len :: "string \<Rightarrow> nat" where
  "rws_len [] = 0"
| "rws_len (a # s) =
     (if ascii_ws a then 1
      else case s of [] \<Rightarrow> 0
           | b # s' \<Rightarrow> (if ws2 b a then 2
                       else case s' of [] \<Rightarrow> 0 | c # _ \<Rightarrow> (if ws3 c b a then 3 else 0)))"

function trim_start :: "string \<Rightarrow> string" where
  "trim_start s = (if ws_len s = 0 then s else trim_start (drop (ws_len s) s))"
  by pat_completeness auto
termination
proof (relation "measure length")
  fix s :: string
  assume "ws_len s \<noteq> 0"
  then show "(drop (ws_len s) s, s) \<in> measure length" by (cases s) auto
qed simp

function rtrim :: "string \<Rightarrow> string" where
  "rtrim s = (if rws_len s = 0 then s else rtrim (drop (rws_len s) s))"
  by pat_completeness auto
termination
proof (relation "measure length")
  fix s :: string
  assume "rws_len s \<noteq> 0"
  then show "(drop (rws_len s) s, s) \<in> measure length" by (cases s) auto
qed simp

declare trim_start.simps [simp del] rtrim.simps [simp del]

definition trim_end :: "string \<Rightarrow> string" where
  "trim_end s = rev (rtrim (rev s))"

definition trim :: "string \<Rightarrow> string" where
  "trim s = trim_end (trim_start s)"

text \<open>A string of bytes none of which can belong to a white-space character is untouched.\<close>

definition no_ws_byte :: "char \<Rightarrow> bool" where
  "no_ws_byte c \<longleftrightarrow> \<not> ascii_ws c \<and> (of_char c :: nat) < 128"

lemma no_ws_byte_plain:
  assumes "no_ws_byte c"
  shows "\<not> ascii_ws c" "c \<noteq> CHR 0xC2" "c \<noteq> CHR 0xE1" "c \<noteq> CHR 0xE2" "c \<noteq> CHR 0xE3"
    "c \<noteq> CHR 0x85" "c \<noteq> CHR 0xA0" "c \<noteq> CHR 0x80" "c \<noteq> CHR 0x9F"
    "c \<noteq> CHR 0xA8" "c \<noteq> CHR 0xA9" "c \<noteq> CHR 0xAF"
  using assms by (auto simp: no_ws_byte_def)

lemma ws_len_plain: "no_ws_byte c \<Longrightarrow> ws_len (c # s) = 0"
  by (auto simp: ws2_def ws3_def no_ws_byte_plain split: list.split)

lemma rws_len_plain: "no_ws_byte c \<Longrightarrow> rws_len (c # s) = 0"
proof -
  assume c: "no_ws_byte c"
  then have "(of_char c :: nat) < 128" by (simp add: no_ws_byte_def)
  with c show ?thesis
    by (auto simp: ws2_def ws3_def no_ws_byte_plain split: list.split)
qed

lemma trim_start_plain: "s = [] \<or> no_ws_byte (hd s) \<Longrightarrow> trim_start s = s"
  by (cases s) (simp_all add: trim_start.simps ws_len_plain del: ws_len.simps(2))

lemma trim_end_plain: "s = [] \<or> no_ws_byte (last s) \<Longrightarrow> trim_end s = s"
proof (cases s rule: rev_cases)
  case Nil
  then show ?thesis by (simp add: trim_end_def rtrim.simps)
next
  case (snoc ys y)
  moreover assume "s = [] \<or> no_ws_byte (last s)"
  ultimately show ?thesis
    by (simp add: trim_end_def rtrim.simps rws_len_plain del: rws_len.simps(2))
qed

lemma trim_plain: "list_all no_ws_byte s \<Longrightarrow> trim s = s"
  by (cases s rule: rev_cases)
     (auto simp: trim_def trim_start_plain trim_end_plain list_all_iff hd_append)

section \<open>Prefixes, suffixes and splitting\<close>

definition starts_with :: "string \<Rightarrow> string \<Rightarrow> bool" where
  "starts_with s p = prefix p s"

definition ends_with :: "string \<Rightarrow> string \<Rightarrow> bool" where
  "ends_with s p = suffix p s"

definition str_contains :: "string \<Rightarrow> string \<Rightarrow> bool" where
  "str_contains s p = sublist p s"

definition trim_start_matches :: "char \<Rightarrow> string \<Rightarrow> string" where
  "trim_start_matches c s = dropWhile (\<lambda>d. d = c) s"

definition trim_end_matches :: "char \<Rightarrow> string \<Rightarrow> string" where
  "trim_end_matches c s = rev (dropWhile (\<lambda>d. d = c) (rev s))"

text \<open>\<open>s.split(c)\<close>: always at least one piece.\<close>

fun split_char :: "char \<Rightarrow> string \<Rightarrow> string list" where
  "split_char c [] = [[]]"
| "split_char c (d # s) =
     (if d = c then [] # split_char c s
      else case split_char c s of [] \<Rightarrow> [[d]] | p # ps \<Rightarrow> (d # p) # ps)"

text \<open>\<open>s.split_once(c)\<close>.\<close>

fun split_once :: "char \<Rightarrow> string \<Rightarrow> (string \<times> string) option" where
  "split_once c [] = None"
| "split_once c (d # s) =
     (if d = c then Some ([], s)
      else case split_once c s of None \<Rightarrow> None | Some (a, b) \<Rightarrow> Some (d # a, b))"

text \<open>\<open>s.splitn(2, c)\<close>.\<close>

definition splitn2 :: "char \<Rightarrow> string \<Rightarrow> string list" where
  "splitn2 c s = (case split_once c s of None \<Rightarrow> [s] | Some (a, b) \<Rightarrow> [a, b])"

fun str_find :: "char \<Rightarrow> string \<Rightarrow> nat option" where
  "str_find c [] = None"
| "str_find c (d # s) = (if d = c then Some 0 else map_option Suc (str_find c s))"

definition str_rfind :: "char \<Rightarrow> string \<Rightarrow> nat option" where
  "str_rfind c s = map_option (\<lambda>i. length s - Suc i) (str_find c (rev s))"

fun join :: "string \<Rightarrow> string list \<Rightarrow> string" where
  "join sep [] = []"
| "join sep [s] = s"
| "join sep (s # ss) = s @ sep @ join sep ss"

text \<open>\<open>str::lines\<close>: pieces end at a line feed, a carriage return before it is dropped and
  an empty last piece does not count.\<close>

definition strip_cr :: "string \<Rightarrow> string" where
  "strip_cr s = (if s \<noteq> [] \<and> last s = CHR 0x0D then butlast s else s)"

definition lines :: "string \<Rightarrow> string list" where
  "lines s =
     (let ps = split_char (CHR 0x0A) s in
      map strip_cr (butlast ps) @ (if last ps = [] then [] else [last ps]))"

text \<open>\<open>str::split_whitespace\<close>: the non-empty pieces between white space.\<close>

function take_word :: "string \<Rightarrow> string \<times> string" where
  "take_word s =
     (case s of [] \<Rightarrow> ([], [])
      | c # s' \<Rightarrow> (if ws_len s \<noteq> 0 then ([], s)
                  else (let (w, r) = take_word s' in (c # w, r))))"
  by pat_completeness auto
termination by (relation "measure length") auto

declare take_word.simps [simp del]

lemma take_word_shorter: "length (snd (take_word s)) \<le> length s"
proof (induction s rule: take_word.induct)
  case (1 s)
  then show ?case
    by (subst take_word.simps) (auto simp: case_prod_unfold Let_def split: list.splits)
qed

lemma trim_start_shorter: "length (trim_start s) \<le> length s"
proof (induction s rule: trim_start.induct)
  case (1 s)
  show ?case
  proof (cases "ws_len s = 0")
    case True
    then show ?thesis by (simp add: trim_start.simps)
  next
    case False
    with 1 have "length (trim_start (drop (ws_len s) s)) \<le> length s" by fastforce
    with False show ?thesis by (subst trim_start.simps) simp
  qed
qed

lemma trim_start_not_ws: "ws_len (trim_start s) = 0"
proof (induction s rule: trim_start.induct)
  case (1 s)
  then show ?case by (subst trim_start.simps) simp
qed

function split_whitespace :: "string \<Rightarrow> string list" where
  "split_whitespace s =
     (case trim_start s of [] \<Rightarrow> []
      | c # s' \<Rightarrow> (c # fst (take_word s')) # split_whitespace (snd (take_word s')))"
  by pat_completeness auto
termination
proof (relation "measure length")
  fix s c s'
  assume "trim_start s = c # s'"
  then have "length s' < length s" using trim_start_shorter [of s] by simp
  then show "(snd (take_word s'), s) \<in> measure length"
    using take_word_shorter [of s'] by simp
qed simp

declare split_whitespace.simps [simp del]

section \<open>Integers in decimal\<close>

definition digit_val :: "char \<Rightarrow> nat" where
  "digit_val c = of_char c - 48"

definition digits_val :: "string \<Rightarrow> nat" where
  "digits_val s = foldl (\<lambda>n c. 10 * n + digit_val c) 0 s"

text \<open>\<open>str::parse\<close> for an unsigned type of maximum \<open>hi\<close>: an optional \<open>+\<close>, then digits.\<close>

definition parse_unsigned :: "nat \<Rightarrow> string \<Rightarrow> nat option" where
  "parse_unsigned hi s =
     (let ds = (case s of c # r \<Rightarrow> (if c = CHR ''+'' then r else s) | [] \<Rightarrow> s) in
      if ds = [] \<or> \<not> list_all ascii_digit ds then None
      else if hi < digits_val ds then None else Some (digits_val ds))"

definition parse_u64 :: "string \<Rightarrow> nat option" where
  "parse_u64 = parse_unsigned (2 ^ 64 - 1)"

text \<open>\<open>str::parse::<i64>\<close>: an optional sign.\<close>

definition parse_i64 :: "string \<Rightarrow> int option" where
  "parse_i64 s =
     (let neg = (case s of c # _ \<Rightarrow> c = CHR ''-'' | [] \<Rightarrow> False);
          ds = (case s of c # r \<Rightarrow> (if c = CHR ''+'' \<or> c = CHR ''-'' then r else s) | [] \<Rightarrow> s) in
      if ds = [] \<or> \<not> list_all ascii_digit ds then None
      else if neg then (if digits_val ds \<le> 2 ^ 63 then Some (- int (digits_val ds)) else None)
      else (if digits_val ds < 2 ^ 63 then Some (int (digits_val ds)) else None))"

text \<open>\<open>format!("{}", n)\<close>.\<close>

fun show_nat :: "nat \<Rightarrow> string" where
  "show_nat n =
     (if n < 10 then [char_of (48 + n)] else show_nat (n div 10) @ [char_of (48 + n mod 10)])"

declare show_nat.simps [simp del]

section \<open>Facts about splitting and joining\<close>

lemma split_char_not_Nil [simp]: "split_char c s \<noteq> []"
  by (induction s) (auto split: list.splits)

lemma split_once_Some: "split_once c s = Some (a, b) \<Longrightarrow> s = a @ c # b \<and> c \<notin> set a"
  by (induction s arbitrary: a) (auto split: if_splits option.splits)

lemma split_once_None: "split_once c s = None \<longleftrightarrow> c \<notin> set s"
  by (induction s) (auto split: option.splits)

lemma split_once_append: "c \<notin> set a \<Longrightarrow> split_once c (a @ c # b) = Some (a, b)"
  by (induction a) auto

lemma split_char_free: "c \<notin> set s \<Longrightarrow> split_char c s = [s]"
  by (induction s) auto

lemma split_char_append: "c \<notin> set a \<Longrightarrow> split_char c (a @ c # b) = a # split_char c b"
  by (induction a) auto

lemma trim_start_matches_hd: "trim_start_matches c s = [] \<or> hd (trim_start_matches c s) \<noteq> c"
  using hd_dropWhile [of "\<lambda>d. d = c" s]
  by (auto simp: trim_start_matches_def simp flip: dropWhile_eq_Nil_conv)

lemma trim_start_matches_suffix: "suffix (trim_start_matches c s) s"
  by (simp add: trim_start_matches_def suffix_dropWhile)

lemma trim_start_matches_id: "s = [] \<or> hd s \<noteq> c \<Longrightarrow> trim_start_matches c s = s"
  by (cases s) (auto simp: trim_start_matches_def)

lemma str_find_Some: "str_find c s = Some i \<Longrightarrow> i < length s \<and> s ! i = c \<and> c \<notin> set (take i s)"
  by (induction s arbitrary: i) (auto split: if_splits)

lemma str_find_None: "str_find c s = None \<longleftrightarrow> c \<notin> set s"
  by (induction s) auto

lemma show_nat_not_Nil [simp]: "show_nat n \<noteq> []"
  by (subst show_nat.simps) simp

lemma digits_val_snoc: "digits_val (s @ [c]) = 10 * digits_val s + digit_val c"
  by (simp add: digits_val_def)

lemma show_nat_small: "n < 10 \<Longrightarrow> show_nat n = [char_of (48 + n)]"
  by (subst show_nat.simps) simp

lemma show_nat_big: "\<not> n < 10 \<Longrightarrow> show_nat n = show_nat (n div 10) @ [char_of (48 + n mod 10)]"
  by (subst show_nat.simps) simp

lemma digit_char:
  assumes "d < 10"
  shows "ascii_digit (char_of (48 + d))" and "digit_val (char_of (48 + d)) = d"
  using assms by (simp_all add: ascii_digit_def digit_val_def)

lemma show_nat_digits: "list_all ascii_digit (show_nat n) \<and> digits_val (show_nat n) = n"
proof (induction n rule: show_nat.induct)
  case (1 n)
  show ?case
  proof (cases "n < 10")
    case True
    then show ?thesis by (simp add: show_nat_small digit_char digits_val_def)
  next
    case False
    with 1 have IH: "list_all ascii_digit (show_nat (n div 10))" "digits_val (show_nat (n div 10)) = n div 10"
      by simp_all
    have m: "n mod 10 < 10" by simp
    have "list_all ascii_digit (show_nat n)"
      unfolding show_nat_big [OF False] using IH(1) digit_char(1) [OF m] by simp
    moreover have "digits_val (show_nat n) = 10 * (n div 10) + n mod 10"
      unfolding show_nat_big [OF False] digits_val_snoc IH(2) digit_char(2) [OF m] ..
    ultimately show ?thesis by simp
  qed
qed

lemma show_nat_inject: "show_nat m = show_nat n \<Longrightarrow> m = n"
  by (metis show_nat_digits)

section \<open>Trimming twice\<close>

lemma ws_len_prefix: "ws_len (p @ q) = 0 \<Longrightarrow> ws_len p = 0"
proof (cases p)
  case (Cons a p1)
  moreover assume z: "ws_len (p @ q) = 0"
  ultimately show ?thesis
  proof (cases p1)
    case p1: (Cons b p2)
    then show ?thesis using z Cons by (cases p2) (auto split: if_splits)
  qed (auto split: if_splits)
qed simp

lemma rtrim_suffix: "suffix (rtrim s) s"
proof (induction s rule: rtrim.induct)
  case (1 s)
  show ?case
  proof (cases "rws_len s = 0")
    case False
    with 1 have "suffix (rtrim (drop (rws_len s) s)) s"
      using suffix_drop suffix_order.trans by blast
    with False show ?thesis by (subst rtrim.simps) simp
  qed (simp add: rtrim.simps)
qed

lemma rtrim_done: "rws_len (rtrim s) = 0"
proof (induction s rule: rtrim.induct)
  case (1 s)
  then show ?case by (subst rtrim.simps) simp
qed
lemma trim_idem: "trim (trim s) = trim s"
proof -
  obtain zs where "rev (trim_start s) = zs @ rtrim (rev (trim_start s))"
    using rtrim_suffix [of "rev (trim_start s)"] by (auto simp: suffix_def)
  then have "rev (rev (trim_start s)) = rev (zs @ rtrim (rev (trim_start s)))" by (rule arg_cong)
  then obtain q where "trim_start s = trim s @ q" by (simp add: trim_def trim_end_def)
  then have "ws_len (trim s) = 0" using ws_len_prefix [of "trim s" q] trim_start_not_ws [of s] by simp
  then have "trim_start (trim s) = trim s" by (simp add: trim_start.simps)
  moreover have "trim_end (trim s) = trim s"
    unfolding trim_def trim_end_def by (simp add: rtrim.simps [of "rtrim _"] rtrim_done)
  ultimately show ?thesis by (simp add: trim_def)
qed

end
