(* ===== verification/Ssrf.thy ===== *)
theory Ssrf
  imports RustStr
begin

unbundle bit_operations_syntax

text \<open>
  \<open>crates/obscura-ssrf/src/lib.rs\<close>: the deny-set of addresses no outbound request may
  reach. Addresses are the octets and 16-bit segments the standard library hands out, its
  predicates (\<open>is_loopback\<close>, \<open>is_private\<close>, \<open>to_ipv4\<close>, ...) are written out from their
  documentation. The lemmas show that the octet tests are exactly a table of CIDR blocks,
  and that no IPv6 form of a denied IPv4 address gets past the check.
\<close>

section \<open>Addresses and the standard library's predicates\<close>

datatype ipv4 = Ipv4 (oct0: u8) (oct1: u8) (oct2: u8) (oct3: u8)

datatype ipv6 = Ipv6 (seg0: u16) (seg1: u16) (seg2: u16) (seg3: u16)
  (seg4: u16) (seg5: u16) (seg6: u16) (seg7: u16)

datatype ip_addr = V4 ipv4 | V6 ipv6

fun v4_is_loopback :: "ipv4 \<Rightarrow> bool" where
  "v4_is_loopback (Ipv4 a b c d) = (a = 127)"

fun v4_is_private :: "ipv4 \<Rightarrow> bool" where
  "v4_is_private (Ipv4 a b c d) =
     (a = 10 \<or> (a = 172 \<and> 16 \<le> b \<and> b \<le> 31) \<or> (a = 192 \<and> b = 168))"

fun v4_is_link_local :: "ipv4 \<Rightarrow> bool" where
  "v4_is_link_local (Ipv4 a b c d) = (a = 169 \<and> b = 254)"

fun v4_is_broadcast :: "ipv4 \<Rightarrow> bool" where
  "v4_is_broadcast (Ipv4 a b c d) = (a = 255 \<and> b = 255 \<and> c = 255 \<and> d = 255)"

fun v4_is_documentation :: "ipv4 \<Rightarrow> bool" where
  "v4_is_documentation (Ipv4 a b c d) =
     ((a = 192 \<and> b = 0 \<and> c = 2) \<or> (a = 198 \<and> b = 51 \<and> c = 100) \<or> (a = 203 \<and> b = 0 \<and> c = 113))"

fun v4_is_unspecified :: "ipv4 \<Rightarrow> bool" where
  "v4_is_unspecified (Ipv4 a b c d) = (a = 0 \<and> b = 0 \<and> c = 0 \<and> d = 0)"

fun v4_is_multicast :: "ipv4 \<Rightarrow> bool" where
  "v4_is_multicast (Ipv4 a b c d) = (224 \<le> a \<and> a \<le> 239)"

fun v6_is_loopback :: "ipv6 \<Rightarrow> bool" where
  "v6_is_loopback (Ipv6 s0 s1 s2 s3 s4 s5 s6 s7) =
     (s0 = 0 \<and> s1 = 0 \<and> s2 = 0 \<and> s3 = 0 \<and> s4 = 0 \<and> s5 = 0 \<and> s6 = 0 \<and> s7 = 1)"

fun v6_is_unspecified :: "ipv6 \<Rightarrow> bool" where
  "v6_is_unspecified (Ipv6 s0 s1 s2 s3 s4 s5 s6 s7) =
     (s0 = 0 \<and> s1 = 0 \<and> s2 = 0 \<and> s3 = 0 \<and> s4 = 0 \<and> s5 = 0 \<and> s6 = 0 \<and> s7 = 0)"

definition v6_is_unique_local :: "ipv6 \<Rightarrow> bool" where
  "v6_is_unique_local v \<longleftrightarrow> seg0 v AND 0xfe00 = 0xfc00"

definition v6_is_unicast_link_local :: "ipv6 \<Rightarrow> bool" where
  "v6_is_unicast_link_local v \<longleftrightarrow> seg0 v AND 0xffc0 = 0xfe80"

definition v6_is_multicast :: "ipv6 \<Rightarrow> bool" where
  "v6_is_multicast v \<longleftrightarrow> seg0 v AND 0xff00 = 0xff00"

text \<open>\<open>(s >> 8) as u8\<close> and \<open>s as u8\<close>.\<close>

definition hi_byte :: "u16 \<Rightarrow> u8" where
  "hi_byte s = ucast (drop_bit 8 s)"

definition lo_byte :: "u16 \<Rightarrow> u8" where
  "lo_byte s = ucast s"

definition v4_of_segments :: "u16 \<Rightarrow> u16 \<Rightarrow> ipv4" where
  "v4_of_segments s t = Ipv4 (hi_byte s) (lo_byte s) (hi_byte t) (lo_byte t)"

fun to_ipv4_mapped :: "ipv6 \<Rightarrow> ipv4 option" where
  "to_ipv4_mapped (Ipv6 s0 s1 s2 s3 s4 s5 s6 s7) =
     (if s0 = 0 \<and> s1 = 0 \<and> s2 = 0 \<and> s3 = 0 \<and> s4 = 0 \<and> s5 = 0xffff
      then Some (v4_of_segments s6 s7) else None)"

fun to_ipv4 :: "ipv6 \<Rightarrow> ipv4 option" where
  "to_ipv4 (Ipv6 s0 s1 s2 s3 s4 s5 s6 s7) =
     (if s0 = 0 \<and> s1 = 0 \<and> s2 = 0 \<and> s3 = 0 \<and> s4 = 0 \<and> (s5 = 0 \<or> s5 = 0xffff)
      then Some (v4_of_segments s6 s7) else None)"

section \<open>The policy\<close>

text \<open>\<open>env_allows_private_network\<close>; the argument is the environment variable's value.\<close>

definition env_allows_private_network :: "string option \<Rightarrow> bool" where
  "env_allows_private_network var =
     (case var of None \<Rightarrow> False
      | Some v \<Rightarrow> (let s = to_ascii_lowercase (trim v) in
                  s = ''1'' \<or> s = ''true'' \<or> s = ''yes'' \<or> s = ''on''))"

definition forbidden_v4 :: "ipv4 \<Rightarrow> bool" where
  "forbidden_v4 v =
     (let o0 = oct0 v; o1 = oct1 v; o2 = oct2 v; o3 = oct3 v in
      v4_is_loopback v \<or> v4_is_private v \<or> v4_is_link_local v \<or> v4_is_broadcast v
      \<or> v4_is_documentation v \<or> v4_is_unspecified v \<or> v4_is_multicast v
      \<or> o0 = 0
      \<or> (o0 = 100 \<and> (64 \<le> o1 \<and> o1 \<le> 127))
      \<or> (o0 = 198 \<and> (o1 = 18 \<or> o1 = 19))
      \<or> (o0 = 192 \<and> o1 = 88 \<and> o2 = 99)
      \<or> (o0 = 192 \<and> o1 = 0 \<and> o2 = 0 \<and> o3 \<noteq> 9 \<and> o3 \<noteq> 10)
      \<or> o0 \<ge> 240)"

definition forbidden_v6 :: "ipv6 \<Rightarrow> bool" where
  "forbidden_v6 v6 =
     (if v6_is_loopback v6 \<or> v6_is_unspecified v6 \<or> v6_is_unique_local v6
         \<or> v6_is_unicast_link_local v6 \<or> v6_is_multicast v6 then True
      else case (case to_ipv4_mapped v6 of Some v4 \<Rightarrow> Some v4 | None \<Rightarrow> to_ipv4 v6) of
        Some v4 \<Rightarrow> forbidden_v4 v4
      | None \<Rightarrow>
         (case v6 of Ipv6 s0 s1 s2 s3 s4 s5 s6 s7 \<Rightarrow>
            if s0 = 0x64 \<and> s1 = 0xff9b \<and> s2 = 0 \<and> s3 = 0 \<and> s4 = 0 \<and> s5 = 0
            then forbidden_v4 (Ipv4 (ucast (drop_bit 8 s6)) (ucast s6) (ucast (drop_bit 8 s7)) (ucast s7))
            else if s0 = 0x2002
            then forbidden_v4 (Ipv4 (ucast (drop_bit 8 s1)) (ucast s1) (ucast (drop_bit 8 s2)) (ucast s2))
            else if s0 = 0x2001 \<and> s1 = 0
            then (let server = Ipv4 (ucast (drop_bit 8 s2)) (ucast s2) (ucast (drop_bit 8 s3)) (ucast s3);
                      client = Ipv4 (ucast (NOT (drop_bit 8 s6))) (ucast (NOT s6))
                                 (ucast (NOT (drop_bit 8 s7))) (ucast (NOT s7))
                  in forbidden_v4 server \<or> forbidden_v4 client)
            else (s0 = 0x100 \<and> s1 = 0 \<and> s2 = 0 \<and> s3 = 0)
              \<or> (s0 = 0x64 \<and> s1 = 0xff9b \<and> s2 = 1)
              \<or> (s0 = 0x2001 \<and> s1 = 0x0db8)
              \<or> (s0 = 0x3fff \<and> s1 AND 0xf000 = 0)))"

fun is_forbidden_ip :: "ip_addr \<Rightarrow> bool" where
  "is_forbidden_ip (V4 v4) = forbidden_v4 v4"
| "is_forbidden_ip (V6 v6) = forbidden_v6 v6"

section \<open>The deny-set as a table of CIDR blocks\<close>

text \<open>An address as the 32-bit number it denotes; a block is a network number and a length.\<close>

fun addr_nat :: "ipv4 \<Rightarrow> nat" where
  "addr_nat (Ipv4 a b c d) =
     16777216 * unat a + 65536 * unat b + 256 * unat c + unat d"

definition in_cidr :: "nat \<Rightarrow> nat \<times> nat \<Rightarrow> bool" where
  "in_cidr n blk \<longleftrightarrow> n div 2 ^ (32 - snd blk) = fst blk div 2 ^ (32 - snd blk)"

definition quad :: "nat \<Rightarrow> nat \<Rightarrow> nat \<Rightarrow> nat \<Rightarrow> nat" where
  "quad a b c d = 16777216 * a + 65536 * b + 256 * c + d"

definition deny_blocks :: "(nat \<times> nat) list" where
  "deny_blocks =
     [(quad 0 0 0 0, 8), (quad 10 0 0 0, 8), (quad 100 64 0 0, 10), (quad 127 0 0 0, 8),
      (quad 169 254 0 0, 16), (quad 172 16 0 0, 12), (quad 192 0 2 0, 24),
      (quad 192 88 99 0, 24), (quad 192 168 0 0, 16), (quad 198 18 0 0, 15),
      (quad 198 51 100 0, 24), (quad 203 0 113 0, 24), (quad 224 0 0 0, 4), (quad 240 0 0 0, 4)]"

lemma quad_div24: "b < 256 \<Longrightarrow> c < 256 \<Longrightarrow> d < 256 \<Longrightarrow> quad a b c d div 16777216 = a"
  unfolding quad_def by (rule div_nat_eqI) simp_all

lemma quad_div16: "c < 256 \<Longrightarrow> d < 256 \<Longrightarrow> quad a b c d div 65536 = 256 * a + b"
  unfolding quad_def by (rule div_nat_eqI) simp_all

lemma quad_div8: "d < 256 \<Longrightarrow> quad a b c d div 256 = 65536 * a + 256 * b + c"
  unfolding quad_def by (rule div_nat_eqI) simp_all

lemma quad_div24k:
  "b < 256 \<Longrightarrow> c < 256 \<Longrightarrow> d < 256 \<Longrightarrow> quad a b c d div (16777216 * k) = a div k"
  by (simp add: div_mult2_eq quad_div24)

lemma quad_div16k: "c < 256 \<Longrightarrow> d < 256 \<Longrightarrow> quad a b c d div (65536 * k) = (256 * a + b) div k"
  by (simp add: div_mult2_eq quad_div16)

lemma div_eq_bounds: "0 < k \<Longrightarrow> (x::nat) div k = n \<longleftrightarrow> k * n \<le> x \<and> x < k * Suc n"
  by (auto simp: div_nat_eqI dividend_less_times_div)

lemma base_digits:
  fixes b q n :: nat
  assumes "b < n" and "q < n"
  shows "n * a + b = n * p + q \<longleftrightarrow> a = p \<and> b = q"
proof
  assume e: "n * a + b = n * p + q"
  from e have "(n * a + b) mod n = (n * p + q) mod n" by simp
  with assms have "b = q" by simp
  with e assms show "a = p \<and> b = q" by simp
qed simp

lemma block_split:
  fixes a b m k :: nat
  assumes "b < m * k" and "q < m" and "0 < k"
  shows "(m * k * a + b) div k = m * p + q \<longleftrightarrow> a = p \<and> b div k = q"
proof -
  have "(m * k * a + b) div k = m * a + b div k"
  proof -
    have "m * k * a + b = k * (m * a) + b" by (simp add: ac_simps)
    then show ?thesis using assms(3) by (simp only: div_mult_self4)
  qed
  moreover have "b div k < m" using assms(1,3) by (simp add: less_mult_imp_div_less)
  ultimately show ?thesis using assms(2) by (simp add: base_digits)
qed

lemma block10: "(b::nat) < 256 \<Longrightarrow> (256 * a + b) div 64 = 401 \<longleftrightarrow> a = 100 \<and> 64 \<le> b \<and> b \<le> 127"
  using block_split [of b 4 64 1 a 100] by (auto simp: div_eq_bounds)

lemma block12: "(b::nat) < 256 \<Longrightarrow> (256 * a + b) div 16 = 2753 \<longleftrightarrow> a = 172 \<and> 16 \<le> b \<and> b \<le> 31"
  using block_split [of b 16 16 1 a 172] by (auto simp: div_eq_bounds)

lemma block15: "(b::nat) < 256 \<Longrightarrow> (256 * a + b) div 2 = 25353 \<longleftrightarrow> a = 198 \<and> (b = 18 \<or> b = 19)"
  using block_split [of b 128 2 9 a 198] by (auto simp: div_eq_bounds)

text \<open>One block length at a time: the block test as a test on octets.\<close>

lemma in_cidr_8:
  "b < 256 \<Longrightarrow> c < 256 \<Longrightarrow> d < 256 \<Longrightarrow> in_cidr (quad a b c d) (quad p 0 0 0, 8) \<longleftrightarrow> a = p"
  by (simp add: in_cidr_def quad_div24)

lemma in_cidr_4:
  assumes "b < 256" "c < 256" "d < 256"
  shows "in_cidr (quad a b c d) (quad p 0 0 0, 4) \<longleftrightarrow> a div 16 = p div 16"
  using quad_div24k [OF assms, of a 16] quad_div24k [of 0 0 0 p 16]
  by (simp add: in_cidr_def)

lemma in_cidr_16:
  "b < 256 \<Longrightarrow> c < 256 \<Longrightarrow> d < 256 \<Longrightarrow> q < 256 \<Longrightarrow>
   in_cidr (quad a b c d) (quad p q 0 0, 16) \<longleftrightarrow> a = p \<and> b = q"
  by (simp add: in_cidr_def quad_div16 base_digits)

lemma in_cidr_24:
  assumes "b < 256" "c < 256" "d < 256" "q < 256" "r < 256"
  shows "in_cidr (quad a b c d) (quad p q r 0, 24) \<longleftrightarrow> a = p \<and> b = q \<and> c = r"
proof -
  have "65536 * a + 256 * b + c = 65536 * p + 256 * q + r \<longleftrightarrow> 256 * a + b = 256 * p + q \<and> c = r"
    using base_digits [of c 256 r "256 * a + b" "256 * p + q"] assms by simp
  with assms show ?thesis by (simp add: in_cidr_def quad_div8 base_digits)
qed

lemma in_cidr_10:
  assumes "b < 256" "c < 256" "d < 256"
  shows "in_cidr (quad a b c d) (quad 100 64 0 0, 10) \<longleftrightarrow> a = 100 \<and> 64 \<le> b \<and> b \<le> 127"
  using quad_div16k [OF assms(2,3), of a b 64] quad_div16k [of 0 0 100 64 64] block10 [OF assms(1), of a]
  by (simp add: in_cidr_def)

lemma in_cidr_12:
  assumes "b < 256" "c < 256" "d < 256"
  shows "in_cidr (quad a b c d) (quad 172 16 0 0, 12) \<longleftrightarrow> a = 172 \<and> 16 \<le> b \<and> b \<le> 31"
  using quad_div16k [OF assms(2,3), of a b 16] quad_div16k [of 0 0 172 16 16] block12 [OF assms(1), of a]
  by (simp add: in_cidr_def)

lemma in_cidr_15:
  assumes "b < 256" "c < 256" "d < 256"
  shows "in_cidr (quad a b c d) (quad 198 18 0 0, 15) \<longleftrightarrow> a = 198 \<and> (b = 18 \<or> b = 19)"
  using quad_div16k [OF assms(2,3), of a b 2] quad_div16k [of 0 0 198 18 2] block15 [OF assms(1), of a]
  by (simp add: in_cidr_def)

lemmas in_cidr_octets = in_cidr_4 in_cidr_8 in_cidr_10 in_cidr_12 in_cidr_15 in_cidr_16 in_cidr_24

lemma addr_nat_quad: "addr_nat (Ipv4 a b c d) = quad (unat a) (unat b) (unat c) (unat d)"
  by (simp add: quad_def)

declare addr_nat.simps [simp del]

lemma unat_u8: "unat (a :: u8) < 256"
  using unsigned_less [of a] by simp

text \<open>The octet tests of the code, on numbers.\<close>

lemma u8_eq_nat: "(a :: u8) = b \<longleftrightarrow> unat a = unat b"
  by (rule word_unat_eq_iff)

definition v4_shape :: "nat \<Rightarrow> nat \<Rightarrow> nat \<Rightarrow> nat \<Rightarrow> bool" where
  "v4_shape p q r s \<longleftrightarrow>
      p = 127 \<or> p = 10 \<or> (p = 172 \<and> 16 \<le> q \<and> q \<le> 31) \<or> (p = 192 \<and> q = 168)
      \<or> (p = 169 \<and> q = 254) \<or> (p = 192 \<and> q = 0 \<and> r = 2) \<or> (p = 198 \<and> q = 51 \<and> r = 100)
      \<or> (p = 203 \<and> q = 0 \<and> r = 113) \<or> 224 \<le> p \<or> p = 0
      \<or> (p = 100 \<and> 64 \<le> q \<and> q \<le> 127) \<or> (p = 198 \<and> (q = 18 \<or> q = 19))
      \<or> (p = 192 \<and> q = 88 \<and> r = 99)
      \<or> (p = 192 \<and> q = 0 \<and> r = 0 \<and> s \<noteq> 9 \<and> s \<noteq> 10)"

lemma forbidden_v4_nat:
  "forbidden_v4 (Ipv4 a b c d) \<longleftrightarrow> v4_shape (unat a) (unat b) (unat c) (unat d)"
proof (cases "224 \<le> unat a")
  case True
  then have "v4_shape (unat a) (unat b) (unat c) (unat d)" by (simp add: v4_shape_def)
  moreover have "a \<ge> 224" using True by (simp add: word_le_nat_alt)
  moreover have "a \<le> 239 \<or> 240 \<le> a" by (simp add: word_le_nat_alt) arith
  ultimately show ?thesis by (auto simp: forbidden_v4_def Let_def)
next
  case False
  then have "\<not> 224 \<le> a" "\<not> 240 \<le> a" "a \<noteq> 255" by (auto simp: word_le_nat_alt)
  then show ?thesis
    using False
    by (cases "unat a = 0")
       (simp_all add: forbidden_v4_def v4_shape_def Let_def u8_eq_nat word_le_nat_alt disj_ac)
qed

text \<open>C8. the check denies an IPv4 address exactly when it lies in one of the listed
  blocks, or in 192.0.0.0/24 without being one of the two anycast addresses 192.0.0.9 and
  192.0.0.10 that stay reachable.\<close>

theorem forbidden_v4_blocks:
  "is_forbidden_ip (V4 v) \<longleftrightarrow>
     list_ex (in_cidr (addr_nat v)) deny_blocks
     \<or> (in_cidr (addr_nat v) (quad 192 0 0 0, 24)
        \<and> addr_nat v \<notin> {quad 192 0 0 9, quad 192 0 0 10})"
proof (cases v)
  case (Ipv4 a b c d)
  note lt = unat_u8 [of a] unat_u8 [of b] unat_u8 [of c] unat_u8 [of d]
  have net192: "in_cidr (addr_nat v) (quad 192 0 0 0, 24) \<longleftrightarrow> unat a = 192 \<and> unat b = 0 \<and> unat c = 0"
    using lt by (simp add: Ipv4 addr_nat_quad in_cidr_octets)
  have high: "224 \<le> unat a \<longleftrightarrow> unat a div 16 = 14 \<or> unat a div 16 = 15"
    using lt(1) by arith
  show ?thesis
  proof (cases "unat a = 192 \<and> unat b = 0 \<and> unat c = 0")
    case True
    moreover from this have "list_ex (in_cidr (addr_nat v)) deny_blocks \<longleftrightarrow> False"
      using lt by (simp add: Ipv4 deny_blocks_def addr_nat_quad in_cidr_octets)
    ultimately show ?thesis
      using net192 by (simp add: Ipv4 forbidden_v4_nat v4_shape_def addr_nat_quad quad_def)
  next
    case False
    then have "forbidden_v4 v \<longleftrightarrow> list_ex (in_cidr (addr_nat v)) deny_blocks"
      using lt by (cases "unat a = 192")
        (auto simp: Ipv4 deny_blocks_def addr_nat_quad in_cidr_octets
          forbidden_v4_nat v4_shape_def high disj_ac)
    with False net192 show ?thesis by auto
  qed
qed

section \<open>IPv4 inside IPv6\<close>

text \<open>The segment holding two octets, and the IPv6 forms that carry an IPv4 address.\<close>

definition seg_of :: "u8 \<Rightarrow> u8 \<Rightarrow> u16" where
  "seg_of hi lo = push_bit 8 (ucast hi) OR ucast lo"

lemma bit_u8_out: "8 \<le> n \<Longrightarrow> \<not> bit (w :: u8) n"
  using bit_imp_le_length [of w n] by auto

lemma hi_byte_seg_of [simp]: "ucast (drop_bit 8 (seg_of h l)) = h"
proof (rule bit_word_eqI)
  fix n assume "n < LENGTH(8)"
  then show "bit (ucast (drop_bit 8 (seg_of h l)) :: u8) n = bit h n"
    using bit_u8_out [of "8 + n" l]
    by (simp add: seg_of_def bit_simps)
qed

lemma lo_byte_seg_of [simp]: "ucast (seg_of h l) = l"
proof (rule bit_word_eqI)
  fix n assume "n < LENGTH(8)"
  then show "bit (ucast (seg_of h l) :: u8) n = bit l n"
    by (simp add: seg_of_def bit_simps)
qed

fun mapped_v6 :: "ipv4 \<Rightarrow> ipv6" where
  "mapped_v6 (Ipv4 a b c d) = Ipv6 0 0 0 0 0 0xffff (seg_of a b) (seg_of c d)"

fun nat64_v6 :: "ipv4 \<Rightarrow> ipv6" where
  "nat64_v6 (Ipv4 a b c d) = Ipv6 0x64 0xff9b 0 0 0 0 (seg_of a b) (seg_of c d)"

fun six_to_four :: "ipv4 \<Rightarrow> u16 \<Rightarrow> u16 \<Rightarrow> u16 \<Rightarrow> u16 \<Rightarrow> u16 \<Rightarrow> ipv6" where
  "six_to_four (Ipv4 a b c d) s3 s4 s5 s6 s7 = Ipv6 0x2002 (seg_of a b) (seg_of c d) s3 s4 s5 s6 s7"

lemmas v6_range_defs = v6_is_unique_local_def v6_is_unicast_link_local_def v6_is_multicast_def

text \<open>C9. an address written in the IPv4-mapped, NAT64 or 6to4 form of IPv6 is denied
  exactly when the IPv4 address it carries is.\<close>

theorem embedded_v4_verdict:
  "is_forbidden_ip (V6 (mapped_v6 v)) = is_forbidden_ip (V4 v)
   \<and> is_forbidden_ip (V6 (nat64_v6 v)) = is_forbidden_ip (V4 v)
   \<and> is_forbidden_ip (V6 (six_to_four v s3 s4 s5 s6 s7)) = is_forbidden_ip (V4 v)"
  by (cases v)
     (simp add: forbidden_v6_def v6_range_defs v4_of_segments_def hi_byte_def lo_byte_def)

end
