(* ===== verification/IdSource.thy ===== *)
theory IdSource
  imports Prelude
begin

text \<open>
  The interface of every component that hands out identifiers from a counter: the stream
  store, the host-action queue, the browser state and the command watchdog. A step may
  issue one identifier; the laws say that it is the counter's value, that the counter then
  moves past it, and that no step moves the counter back, in the states that the component's
  invariant \<open>ok\<close> allows and every step keeps. The client's facts: the
  identifiers of a run come in increasing order, so none is ever issued twice.
\<close>

text \<open>The identifiers issued by a run of steps.\<close>

fun issued :: "('s \<Rightarrow> 'e \<Rightarrow> 's \<times> nat option) \<Rightarrow> 's \<Rightarrow> 'e list \<Rightarrow> nat list" where
  "issued step s [] = []"
| "issued step s (e # es) =
     (case step s e of (s', r) \<Rightarrow>
       (case r of None \<Rightarrow> issued step s' es | Some i \<Rightarrow> i # issued step s' es))"

fun final :: "('s \<Rightarrow> 'e \<Rightarrow> 's \<times> nat option) \<Rightarrow> 's \<Rightarrow> 'e list \<Rightarrow> 's" where
  "final step s [] = s"
| "final step s (e # es) = final step (fst (step s e)) es"

locale id_source =
  fixes step :: "'s \<Rightarrow> 'e \<Rightarrow> 's \<times> nat option"
    and ctr :: "'s \<Rightarrow> nat"
    and ok :: "'s \<Rightarrow> bool"
  assumes ok_step: "ok s \<Longrightarrow> step s e = (s', r) \<Longrightarrow> ok s'"
    and ctr_mono: "ok s \<Longrightarrow> step s e = (s', r) \<Longrightarrow> ctr s \<le> ctr s'"
    and issue: "ok s \<Longrightarrow> step s e = (s', Some i) \<Longrightarrow> i = ctr s \<and> ctr s < ctr s'"
begin

lemma issued_ge: "ok s \<Longrightarrow> i \<in> set (issued step s es) \<Longrightarrow> ctr s \<le> i"
proof (induction es arbitrary: s)
  case Nil
  then show ?case by simp
next
  case (Cons e es)
  obtain s' r where st: "step s e = (s', r)" by (cases "step s e")
  note ok' = ok_step [OF Cons.prems(1) st]
  from ctr_mono [OF Cons.prems(1) st] have le: "ctr s \<le> ctr s'" .
  show ?case
  proof (cases r)
    case None
    with Cons.prems st have "ctr s' \<le> i" by (auto intro: Cons.IH [OF ok'])
    with le show ?thesis by simp
  next
    case (Some j)
    with Cons.prems st have "i = j \<or> i \<in> set (issued step s' es)" by simp
    then show ?thesis
      using issue [of s e s' j] Cons.prems(1) st Some le Cons.IH [OF ok'] by auto
  qed
qed

lemma issued_sorted: "ok s \<Longrightarrow> sorted_wrt (<) (issued step s es)"
proof (induction es arbitrary: s)
  case Nil
  then show ?case by simp
next
  case (Cons e es)
  obtain s' r where st: "step s e = (s', r)" by (cases "step s e")
  note ok' = ok_step [OF Cons.prems st]
  show ?case
  proof (cases r)
    case None
    with st Cons.IH [OF ok'] show ?thesis by simp
  next
    case (Some j)
    with st have "j < ctr s'" using issue Cons.prems by blast
    then have "\<forall>i \<in> set (issued step s' es). j < i" using issued_ge [OF ok', of _ es] by fastforce
    with st Some Cons.IH [OF ok'] show ?thesis by simp
  qed
qed

lemma issued_distinct: "ok s \<Longrightarrow> distinct (issued step s es)"
  using issued_sorted [of s es] strict_sorted_iff [of "issued step s es"] by simp

lemma final_ok: "ok s \<Longrightarrow> ok (final step s es)"
proof (induction es arbitrary: s)
  case (Cons e es)
  obtain t r where st: "step s e = (t, r)" by (cases "step s e")
  with Cons.IH [OF ok_step [OF Cons.prems st]] show ?case by simp
qed simp

lemma final_ctr: "ok s \<Longrightarrow> ctr s \<le> ctr (final step s es)"
proof (induction es arbitrary: s)
  case (Cons e es)
  obtain t r where st: "step s e = (t, r)" by (cases "step s e")
  with ctr_mono [OF Cons.prems st] Cons.IH [OF ok_step [OF Cons.prems st]] show ?case by simp
qed simp

lemma issued_fresh:
  assumes "ok s" and "i \<in> set (issued step s es)" and "j \<in> set (issued step (final step s es) fs)"
  shows "i < j"
  using assms
proof (induction es arbitrary: s)
  case Nil
  then show ?case by simp
next
  case (Cons e es)
  obtain s' r where st: "step s e = (s', r)" by (cases "step s e")
  note ok' = ok_step [OF Cons.prems(1) st]
  have later: "j \<in> set (issued step (final step s' es) fs)" using Cons.prems st by simp
  show ?case
  proof (cases "i \<in> set (issued step s' es)")
    case True
    from Cons.IH [OF ok' this later] show ?thesis .
  next
    case False
    with Cons.prems st have "r = Some i" by (auto split: option.splits)
    with st have "i < ctr s'" using issue Cons.prems(1) by blast
    also have "ctr s' \<le> ctr (final step s' es)" by (rule final_ctr [OF ok'])
    also have "\<dots> \<le> j" using later by (rule issued_ge [OF final_ok [OF ok']])
    finally show ?thesis .
  qed
qed

end

end
