(* ===== verification/IoStream.thy ===== *)
theory IoStream
  imports IdSource RustStr
begin

text \<open>
  \<open>crates/obscura-cdp/src/io.rs\<close>: the bounded store of response bodies behind the CDP
  IO domain. The HashMap of bodies is a mapping, the eviction order a list with the oldest
  handle first. The base64 encoder is the crate \<open>base64\<close>: the parameter \<open>b64\<close>. A limit read
  from the environment is the parsed value, when there is one.
\<close>

type_synonym bytes = "u8 list"

definition DEFAULT_CHUNK :: nat where "DEFAULT_CHUNK = 2 ^ 20"

definition MAX_READ_CHUNK :: nat where "MAX_READ_CHUNK = 4 * 2 ^ 20"

definition io_stream_max_entries :: "string option \<Rightarrow> nat" where
  "io_stream_max_entries var =
     (case Option.bind var (parse_unsigned usize_max) of Some n \<Rightarrow> n | None \<Rightarrow> 32)"

definition io_stream_max_bytes :: "string option \<Rightarrow> nat" where
  "io_stream_max_bytes var =
     (case Option.bind var (parse_unsigned usize_max) of Some n \<Rightarrow> n | None \<Rightarrow> 256 * 1024 * 1024)"

record io_store =
  io_streams :: "(string, bytes \<times> nat) mapping"
  io_order :: "string list"
  io_total :: nat
  io_counter :: nat
  io_max_entries :: nat
  io_max_bytes :: nat

definition with_limits :: "nat \<Rightarrow> nat \<Rightarrow> io_store" where
  "with_limits entries n =
     \<lparr>io_streams = Mapping.empty, io_order = [], io_total = 0, io_counter = 0,
      io_max_entries = max entries 1, io_max_bytes = n\<rparr>"

definition io_default :: "string option \<Rightarrow> string option \<Rightarrow> io_store" where
  "io_default entries_var bytes_var =
     with_limits (io_stream_max_entries entries_var) (io_stream_max_bytes bytes_var)"

definition io_len :: "io_store \<Rightarrow> nat" where
  "io_len s = Mapping.size (io_streams s)"

definition io_is_empty :: "io_store \<Rightarrow> bool" where
  "io_is_empty s = Mapping.is_empty (io_streams s)"

definition byte_len :: "io_store \<Rightarrow> string \<Rightarrow> nat option" where
  "byte_len s h = map_option (\<lambda>(bs, _). length bs) (Mapping.lookup (io_streams s) h)"

definition io_contains :: "io_store \<Rightarrow> string \<Rightarrow> bool" where
  "io_contains s h \<longleftrightarrow> Mapping.lookup (io_streams s) h \<noteq> None"

text \<open>The eviction loop of \<open>insert\<close>; it pops one handle per round.\<close>

definition must_evict :: "io_store \<Rightarrow> nat \<Rightarrow> bool" where
  "must_evict s n \<longleftrightarrow>
     io_order s \<noteq> [] \<and>
     (io_max_entries s \<le> length (io_order s) \<or> usize_max < io_total s + n \<or> io_max_bytes s < io_total s + n)"

definition evict_one :: "io_store \<Rightarrow> io_store" where
  "evict_one s =
     (case io_order s of [] \<Rightarrow> s
      | oldest # rest \<Rightarrow>
          (case Mapping.lookup (io_streams s) oldest of
             None \<Rightarrow> s\<lparr>io_order := rest\<rparr>
           | Some (body, _) \<Rightarrow>
               s\<lparr>io_order := rest, io_streams := Mapping.delete oldest (io_streams s),
                 io_total := io_total s - length body\<rparr>))"

lemma evict_one_order: "io_order (evict_one s) = tl (io_order s)"
  by (auto simp: evict_one_def split: list.splits option.splits prod.splits)

function io_evict :: "io_store \<Rightarrow> nat \<Rightarrow> io_store" where
  "io_evict s n = (if must_evict s n then io_evict (evict_one s) n else s)"
  by pat_completeness auto
termination
  by (relation "measure (\<lambda>(s, _). length (io_order s))") (auto simp: must_evict_def evict_one_order)

declare io_evict.simps [simp del]

definition handle_name :: "nat \<Rightarrow> string" where
  "handle_name n = ''stream-'' @ show_nat n"

definition io_insert :: "io_store \<Rightarrow> bytes \<Rightarrow> (string + string) \<times> io_store" where
  "io_insert s0 bs =
     (if io_max_bytes s0 < length bs
      then (Inl (''IO stream body is '' @ show_nat (length bs) @ '' bytes, exceeding the ''
                  @ show_nat (io_max_bytes s0) @ ''-byte per-context limit''), s0)
      else
        (let s = io_evict s0 (length bs); h = handle_name (io_counter s) in
         if usize_max < io_counter s + 1 then (Inl ''IO stream handle space exhausted'', s)
         else
           (let s1 = s\<lparr>io_counter := io_counter s + 1\<rparr> in
            if usize_max < io_total s1 + length bs
            then (Inl ''IO stream byte accounting overflow'', s1)
            else (Inr h, s1\<lparr>io_total := io_total s1 + length bs,
                            io_streams := Mapping.update h (bs, 0) (io_streams s1),
                            io_order := io_order s1 @ [h]\<rparr>))))"

definition io_read :: "(bytes \<Rightarrow> string) \<Rightarrow> io_store \<Rightarrow> string \<Rightarrow> nat option \<Rightarrow> nat
    \<Rightarrow> (string \<times> bool) option \<times> io_store" where
  "io_read b64 s h offset want =
     (case Mapping.lookup (io_streams s) h of
        None \<Rightarrow> (None, s)
      | Some (bs, cursor0) \<Rightarrow>
          (let cursor = (case offset of Some off \<Rightarrow> min off (length bs) | None \<Rightarrow> cursor0);
               n = min want MAX_READ_CHUNK;
               start = min cursor (length bs);
               stop = min (min (start + n) usize_max) (length bs);
               chunk = b64 (take (stop - start) (drop start bs))
           in (Some (chunk, length bs \<le> stop),
               s\<lparr>io_streams := Mapping.update h (bs, stop) (io_streams s)\<rparr>)))"

definition io_remove :: "io_store \<Rightarrow> string \<Rightarrow> io_store" where
  "io_remove s h =
     (case Mapping.lookup (io_streams s) h of
        None \<Rightarrow> s
      | Some (bs, _) \<Rightarrow>
          s\<lparr>io_streams := Mapping.delete h (io_streams s), io_total := io_total s - length bs,
            io_order := filter (\<lambda>c. c \<noteq> h) (io_order s)\<rparr>)"


section \<open>The store's invariant\<close>

definition body_len :: "(string, bytes \<times> nat) mapping \<Rightarrow> string \<Rightarrow> nat" where
  "body_len m h = (case Mapping.lookup m h of Some (bs, _) \<Rightarrow> length bs | None \<Rightarrow> 0)"

definition io_ok :: "io_store \<Rightarrow> bool" where
  "io_ok s \<longleftrightarrow>
     distinct (io_order s) \<and> set (io_order s) = Mapping.keys (io_streams s)
     \<and> io_total s = (\<Sum>h \<leftarrow> io_order s. body_len (io_streams s) h)
     \<and> length (io_order s) \<le> io_max_entries s \<and> 0 < io_max_entries s
     \<and> io_total s \<le> io_max_bytes s \<and> io_max_bytes s \<le> usize_max \<and> io_counter s \<le> usize_max
     \<and> (\<forall>h bs c. Mapping.lookup (io_streams s) h = Some (bs, c) \<longrightarrow> c \<le> length bs)
     \<and> (\<forall>h \<in> Mapping.keys (io_streams s). \<exists>n < io_counter s. h = handle_name n)"

lemma handle_name_inject: "handle_name m = handle_name n \<longleftrightarrow> m = n"
  unfolding handle_name_def using show_nat_inject by blast

lemma with_limits_ok:
  "n \<le> usize_max \<Longrightarrow> io_ok (with_limits entries n)"
  by (simp add: io_ok_def with_limits_def lookup_empty)

lemma body_len_cong:
  "(\<And>h. h \<in> set hs \<Longrightarrow> Mapping.lookup m h = Mapping.lookup m' h) \<Longrightarrow>
     (\<Sum>h \<leftarrow> hs. body_len m h) = (\<Sum>h \<leftarrow> hs. body_len m' h)"
  by (induction hs) (simp_all add: body_len_def)

lemma evict_one_Cons:
  assumes "io_ok s" and "io_order s = h # hs"
  shows "evict_one s = s\<lparr>io_order := hs, io_streams := Mapping.delete h (io_streams s),
           io_total := io_total s - body_len (io_streams s) h\<rparr>"
proof -
  have "h \<in> Mapping.keys (io_streams s)" using assms by (auto simp: io_ok_def)
  then obtain v where "Mapping.lookup (io_streams s) h = Some v" by (auto simp: in_keys)
  with assms(2) show ?thesis by (simp add: evict_one_def body_len_def split: prod.splits)
qed

lemma evict_one_ok:
  assumes "io_ok s" and "io_order s \<noteq> []"
  shows "io_ok (evict_one s)"
proof -
  obtain h hs where o: "io_order s = h # hs" using assms(2) by (cases "io_order s") auto
  have nin: "h \<notin> set hs" using assms(1) o by (simp add: io_ok_def)
  have keys: "Mapping.keys (io_streams s) = insert h (set hs)" using assms(1) o by (simp add: io_ok_def)
  have sum: "(\<Sum>k \<leftarrow> hs. body_len (Mapping.delete h (io_streams s)) k) = (\<Sum>k \<leftarrow> hs. body_len (io_streams s) k)"
    using nin by (intro body_len_cong) (auto simp: lookup_delete_if)
  have tot: "io_total s - body_len (io_streams s) h = (\<Sum>k \<leftarrow> hs. body_len (io_streams s) k)"
    using assms(1) o by (simp add: io_ok_def)
  have cur: "c \<le> length bs" if "Mapping.lookup (Mapping.delete h (io_streams s)) k = Some (bs, c)" for k bs c
    using that assms(1) by (cases "k = h") (auto simp: io_ok_def lookup_delete_if)
  show ?thesis
    unfolding evict_one_Cons [OF assms(1) o]
    using assms(1) o nin keys cur by (auto simp: io_ok_def sum tot)
qed

lemma evict_ok: "io_ok s \<Longrightarrow> io_ok (io_evict s n)"
proof (induction s n rule: io_evict.induct)
  case (1 s n)
  show ?case
    by (subst io_evict.simps) (use 1 evict_one_ok in \<open>auto simp: must_evict_def\<close>)
qed

lemma evict_frame:
  "io_counter (io_evict s n) = io_counter s \<and> io_max_entries (io_evict s n) = io_max_entries s
     \<and> io_max_bytes (io_evict s n) = io_max_bytes s"
proof (induction s n rule: io_evict.induct)
  case (1 s n)
  have "io_counter (evict_one s) = io_counter s \<and> io_max_entries (evict_one s) = io_max_entries s
     \<and> io_max_bytes (evict_one s) = io_max_bytes s"
    by (simp add: evict_one_def split: list.splits option.splits prod.splits)
  with 1 show ?case by (subst (1 2 3) io_evict.simps) simp
qed

lemma evict_fits: "\<not> must_evict (io_evict s n) n"
proof (induction s n rule: io_evict.induct)
  case (1 s n)
  then show ?case by (subst io_evict.simps) simp
qed

lemma must_evict_ok:
  "io_ok s \<Longrightarrow> must_evict s n \<longleftrightarrow>
     io_order s \<noteq> [] \<and> (io_max_entries s \<le> length (io_order s) \<or> io_max_bytes s < io_total s + n)"
  by (auto simp: must_evict_def io_ok_def)

lemma evict_survivors:
  assumes "io_ok s"
  shows "\<exists>k. io_order (io_evict s n) = drop k (io_order s)
           \<and> (\<forall>h \<in> set (drop k (io_order s)).
                 Mapping.lookup (io_streams (io_evict s n)) h = Mapping.lookup (io_streams s) h)
           \<and> (\<forall>j < k. io_max_entries s \<le> length (drop j (io_order s))
                 \<or> io_max_bytes s < (\<Sum>h \<leftarrow> drop j (io_order s). body_len (io_streams s) h) + n)"
  using assms
proof (induction s n rule: io_evict.induct)
  case (1 s n)
  show ?case
  proof (cases "must_evict s n")
    case False
    then show ?thesis by (subst (1 2) io_evict.simps) (auto intro!: exI [of _ 0])
  next
    case True
    then obtain h hs where o: "io_order s = h # hs" by (cases "io_order s") (auto simp: must_evict_def)
    note e1 = evict_one_Cons [OF 1(2) o]
    have ok1: "io_ok (evict_one s)" using 1(2) o by (auto intro: evict_one_ok)
    have nin: "h \<notin> set hs" using 1(2) o by (simp add: io_ok_def)
    have same: "Mapping.lookup (io_streams (evict_one s)) k = Mapping.lookup (io_streams s) k" if "k \<in> set hs" for k
      using that nin by (auto simp: e1 lookup_delete_if)
    have sums: "(\<Sum>k \<leftarrow> drop j hs. body_len (io_streams (evict_one s)) k) = (\<Sum>k \<leftarrow> drop j hs. body_len (io_streams s) k)" for j
      by (rule body_len_cong) (auto dest: in_set_dropD simp: same)
    from 1(1) [OF True ok1] obtain k where k:
      "io_order (io_evict (evict_one s) n) = drop k hs"
      "\<forall>x \<in> set (drop k hs). Mapping.lookup (io_streams (io_evict (evict_one s) n)) x = Mapping.lookup (io_streams (evict_one s)) x"
      "\<forall>j < k. io_max_entries s \<le> length (drop j hs)
          \<or> io_max_bytes s < (\<Sum>x \<leftarrow> drop j hs. body_len (io_streams s) x) + n"
      by (auto simp: e1 sums [unfolded e1, simplified])
    have first: "io_max_entries s \<le> length (io_order s)
        \<or> io_max_bytes s < (\<Sum>x \<leftarrow> io_order s. body_len (io_streams s) x) + n"
      using must_evict_ok [OF 1(2)] True 1(2) by (auto simp: io_ok_def)
    have ev: "io_evict s n = io_evict (evict_one s) n"
      using True by (subst io_evict.simps) simp
    show ?thesis
    proof (intro exI [of _ "Suc k"] conjI allI impI)
      show "io_order (io_evict s n) = drop (Suc k) (io_order s)" using k(1) ev o by simp
      show "\<forall>x \<in> set (drop (Suc k) (io_order s)). Mapping.lookup (io_streams (io_evict s n)) x = Mapping.lookup (io_streams s) x"
        using k(2) ev o same by (auto dest: in_set_dropD)
      fix j assume "j < Suc k"
      then show "io_max_entries s \<le> length (drop j (io_order s))
          \<or> io_max_bytes s < (\<Sum>x \<leftarrow> drop j (io_order s). body_len (io_streams s) x) + n"
        using k(3) first o by (cases j) auto
    qed
  qed
qed

section \<open>Operations on a well-formed store\<close>

lemma insert_too_large:
  "io_max_bytes s < length bs \<Longrightarrow> \<exists>msg. io_insert s bs = (Inl msg, s)"
  by (simp add: io_insert_def)

text \<open>What an accepted body leaves behind, after the evictions.\<close>

definition io_push :: "io_store \<Rightarrow> bytes \<Rightarrow> io_store" where
  "io_push s bs =
     s\<lparr>io_counter := io_counter s + 1, io_total := io_total s + length bs,
       io_streams := Mapping.update (handle_name (io_counter s)) (bs, 0) (io_streams s),
       io_order := io_order s @ [handle_name (io_counter s)]\<rparr>"

lemma evict_room:
  assumes "io_ok s" and "length bs \<le> io_max_bytes s"
  shows "io_total (io_evict s (length bs)) + length bs \<le> io_max_bytes s"
    and "length (io_order (io_evict s (length bs))) < io_max_entries s"
proof -
  note ok = evict_ok [OF assms(1), of "length bs"]
  note fits = evict_fits [of s "length bs", unfolded must_evict_ok [OF ok]]
  show "io_total (io_evict s (length bs)) + length bs \<le> io_max_bytes s"
    using fits assms ok evict_frame [of s "length bs"] by (auto simp: io_ok_def)
  show "length (io_order (io_evict s (length bs))) < io_max_entries s"
    using fits assms ok evict_frame [of s "length bs"] by (auto simp: io_ok_def)
qed

lemma insert_accepts:
  assumes "io_ok s" and "length bs \<le> io_max_bytes s" and "io_counter s < usize_max"
  shows "io_insert s bs = (Inr (handle_name (io_counter s)), io_push (io_evict s (length bs)) bs)"
proof -
  have "io_max_bytes s \<le> usize_max" using assms(1) by (simp add: io_ok_def)
  then show ?thesis
    using assms evict_room [OF assms(1,2)] evict_frame [of s "length bs"]
    by (simp add: io_insert_def Let_def io_push_def)
qed

lemma insert_exhausted:
  assumes "length bs \<le> io_max_bytes s" and "usize_max \<le> io_counter s"
  shows "io_insert s bs = (Inl ''IO stream handle space exhausted'', io_evict s (length bs))"
  using assms evict_frame [of s "length bs"] by (simp add: io_insert_def Let_def)

lemma fresh_handle: "io_ok s \<Longrightarrow> handle_name (io_counter s) \<notin> Mapping.keys (io_streams s)"
  by (auto simp: io_ok_def handle_name_inject)

lemma push_ok:
  assumes "io_ok s" and "io_total s + length bs \<le> io_max_bytes s"
    and "length (io_order s) < io_max_entries s" and "io_counter s < usize_max"
  shows "io_ok (io_push s bs)"
proof -
  define h where "h = handle_name (io_counter s)"
  have nin: "h \<notin> set (io_order s)" using fresh_handle [OF assms(1)] assms(1) by (simp add: io_ok_def h_def)
  have sum: "(\<Sum>k \<leftarrow> io_order s. body_len (Mapping.update h (bs, 0) (io_streams s)) k)
       = (\<Sum>k \<leftarrow> io_order s. body_len (io_streams s) k)"
    using nin by (intro body_len_cong) (auto simp: lookup_update_if)
  have new: "body_len (Mapping.update h (bs, 0) (io_streams s)) h = length bs"
    by (simp add: body_len_def lookup_update)
  have cur: "c \<le> length b"
    if "Mapping.lookup (Mapping.update h (bs, 0) (io_streams s)) k = Some (b, c)" for k b c
    using that assms(1) by (cases "k = h") (auto simp: io_ok_def lookup_update_if)
  have names: "\<exists>n < Suc (io_counter s). k = handle_name n" if "k = h \<or> k \<in> Mapping.keys (io_streams s)" for k
    using that assms(1) unfolding h_def io_ok_def by (blast intro: less_SucI lessI)
  show ?thesis
    using assms nin cur names
    unfolding io_ok_def io_push_def h_def [symmetric]
    by (auto simp: sum new)
qed

lemma insert_ok: "io_ok s \<Longrightarrow> io_ok (snd (io_insert s bs))"
proof -
  assume ok: "io_ok s"
  note e = evict_ok [OF ok, of "length bs"] and f = evict_frame [of s "length bs"]
  consider "io_max_bytes s < length bs" | "length bs \<le> io_max_bytes s" "usize_max \<le> io_counter s"
    | "length bs \<le> io_max_bytes s" "io_counter s < usize_max"
    by linarith
  then show ?thesis
  proof cases
    case 1
    with insert_too_large [of s bs] ok show ?thesis by auto
  next
    case 2
    with e show ?thesis by (simp add: insert_exhausted)
  next
    case 3
    with evict_room [OF ok 3(1)] e f show ?thesis
      by (simp add: insert_accepts [OF ok] push_ok)
  qed
qed

lemma reposition_ok:
  assumes "io_ok s" and "Mapping.lookup (io_streams s) h = Some (bs, c)" and "c' \<le> length bs"
  shows "io_ok (s\<lparr>io_streams := Mapping.update h (bs, c') (io_streams s)\<rparr>)"
proof -
  have key: "h \<in> Mapping.keys (io_streams s)" using assms(2) by (simp add: in_keys)
  have len: "body_len (Mapping.update h (bs, c') (io_streams s)) = body_len (io_streams s)"
    using assms(2) by (auto simp: body_len_def lookup_update_if fun_eq_iff)
  have cur: "d \<le> length b"
    if "Mapping.lookup (Mapping.update h (bs, c') (io_streams s)) k = Some (b, d)" for k b d
    using that assms by (cases "k = h") (auto simp: io_ok_def lookup_update_if)
  show ?thesis
    using assms(1) key cur by (auto simp: io_ok_def len insert_absorb)
qed

lemma read_ok: "io_ok s \<Longrightarrow> io_ok (snd (io_read b64 s h offset want))"
  by (auto simp: io_read_def Let_def split: option.splits prod.splits intro!: reposition_ok)

lemma remove_ok:
  assumes "io_ok s"
  shows "io_ok (io_remove s h)"
proof (cases "Mapping.lookup (io_streams s) h")
  case None
  with assms show ?thesis by (simp add: io_remove_def)
next
  case (Some v)
  then obtain bs c where v: "Mapping.lookup (io_streams s) h = Some (bs, c)" by (cases v) auto
  have mem: "h \<in> set (io_order s)" and dist: "distinct (io_order s)"
    using assms v by (auto simp: io_ok_def in_keys)
  from split_list_distinct [OF dist mem] obtain xs ys where o: "io_order s = xs @ h # ys"
    and nin: "h \<notin> set xs" "h \<notin> set ys" by metis
  have fil: "filter (\<lambda>c. c \<noteq> h) (io_order s) = xs @ ys" 
  proof -
    have "filter (\<lambda>c. c \<noteq> h) xs = xs" and "filter (\<lambda>c. c \<noteq> h) ys = ys"
      using nin by (auto simp: filter_id_conv)
    then show ?thesis by (simp add: o)
  qed
  have same: "(\<Sum>k \<leftarrow> zs. body_len (Mapping.delete h (io_streams s)) k) = (\<Sum>k \<leftarrow> zs. body_len (io_streams s) k)"
    if "h \<notin> set zs" for zs
    using that by (intro body_len_cong) (auto simp: lookup_delete_if)
  have len: "body_len (io_streams s) h = length bs" using v by (simp add: body_len_def)
  have tot: "io_total s = (\<Sum>k \<leftarrow> xs. body_len (io_streams s) k) + length bs + (\<Sum>k \<leftarrow> ys. body_len (io_streams s) k)"
    using assms o len by (simp add: io_ok_def)
  have keys: "Mapping.keys (io_streams s) - {h} = set (xs @ ys)"
    using assms o nin by (auto simp: io_ok_def)
  have cur: "d \<le> length b" if "Mapping.lookup (Mapping.delete h (io_streams s)) k = Some (b, d)" for k b d
    using that assms by (cases "k = h") (auto simp: io_ok_def lookup_delete_if)
  have dist': "distinct (xs @ ys)" using dist o by auto
  have names: "\<exists>n < io_counter s. k = handle_name n" if "k \<in> Mapping.keys (io_streams s) - {h}" for k
    using that assms by (auto simp: io_ok_def)
  have lim: "length (xs @ ys) \<le> io_max_entries s" "0 < io_max_entries s" "io_total s \<le> io_max_bytes s"
      "io_max_bytes s \<le> usize_max" "io_counter s \<le> usize_max"
    using assms o by (simp_all add: io_ok_def)
  have rm: "io_remove s h = s\<lparr>io_streams := Mapping.delete h (io_streams s), io_total := io_total s - length bs,
      io_order := xs @ ys\<rparr>"
    by (simp add: io_remove_def v fil)
  show ?thesis
    unfolding rm io_ok_def using same nin keys cur dist' names lim tot by simp
qed

section \<open>Runs of the store\<close>

datatype io_op = Insert bytes | Read string "nat option" nat | Remove string

definition io_step :: "(bytes \<Rightarrow> string) \<Rightarrow> io_store \<Rightarrow> io_op \<Rightarrow> io_store" where
  "io_step b64 s e =
     (case e of Insert bs \<Rightarrow> snd (io_insert s bs)
      | Read h off n \<Rightarrow> snd (io_read b64 s h off n)
      | Remove h \<Rightarrow> io_remove s h)"

definition io_run :: "(bytes \<Rightarrow> string) \<Rightarrow> io_store \<Rightarrow> io_op list \<Rightarrow> io_store" where
  "io_run b64 s es = foldl (io_step b64) s es"

lemma io_step_ok: "io_ok s \<Longrightarrow> io_ok (io_step b64 s e)"
  by (cases e) (simp_all add: io_step_def insert_ok read_ok remove_ok)

lemma io_run_ok: "io_ok s \<Longrightarrow> io_ok (io_run b64 s es)"
  unfolding io_run_def by (induction es arbitrary: s) (simp_all add: io_step_ok)

lemma io_run_frame: "io_max_entries (io_run b64 s es) = io_max_entries s \<and> io_max_bytes (io_run b64 s es) = io_max_bytes s"
proof -
  have one: "io_max_entries (io_step b64 s e) = io_max_entries s \<and> io_max_bytes (io_step b64 s e) = io_max_bytes s" for s e
    using evict_frame [of s]
    by (cases e) (simp_all add: io_step_def io_insert_def io_read_def io_remove_def Let_def
        split: option.splits prod.splits)
  show ?thesis unfolding io_run_def by (induction es arbitrary: s) (simp_all add: one)
qed

text \<open>The step with the number behind the handle it hands out.\<close>

definition io_issue :: "(bytes \<Rightarrow> string) \<Rightarrow> io_store \<Rightarrow> io_op \<Rightarrow> io_store \<times> nat option" where
  "io_issue b64 s e =
     (io_step b64 s e,
      (case e of Insert bs \<Rightarrow>
         (case fst (io_insert s bs) of Inl _ \<Rightarrow> None | Inr _ \<Rightarrow> Some (io_counter s))
       | _ \<Rightarrow> None))"

lemma insert_counter_ok: "fst (io_insert s bs) = Inr h \<Longrightarrow> io_counter (snd (io_insert s bs)) = io_counter s + 1"
  using evict_frame [of s "length bs"] by (auto simp: io_insert_def Let_def split: if_splits)

lemma insert_counter_mono: "io_counter s \<le> io_counter (snd (io_insert s bs))"
  using evict_frame [of s "length bs"] by (auto simp: io_insert_def Let_def)

lemma io_issue_mono: "io_counter s \<le> io_counter (io_step b64 s e)"
proof (cases e)
  case (Insert bs)
  then show ?thesis by (simp add: io_step_def insert_counter_mono)
next
  case (Read h off n)
  then show ?thesis by (simp add: io_step_def io_read_def Let_def split: option.split prod.split)
next
  case (Remove h)
  then show ?thesis by (simp add: io_step_def io_remove_def split: option.split prod.split)
qed

lemma io_issue_Some:
  assumes "io_issue b64 s e = (s', Some i)"
  shows "i = io_counter s \<and> io_counter s' = io_counter s + 1"
proof -
  obtain bs where e: "e = Insert bs" using assms by (cases e) (simp_all add: io_issue_def)
  with assms obtain h where "fst (io_insert s bs) = Inr h"
    by (auto simp: io_issue_def split: sum.splits)
  with insert_counter_ok [OF this] assms e show ?thesis by (auto simp: io_issue_def io_step_def)
qed

interpretation io_ids: id_source "io_issue b64" io_counter "\<lambda>_. True"
proof (unfold_locales, goal_cases)
  case (2 s e s' r)
  then show ?case using io_issue_mono [of s b64 e] by (simp add: io_issue_def)
next
  case (3 s e s' i)
  then show ?case using io_issue_Some [of b64 s e s' i] by simp
qed simp

text \<open>The handles a run returns, in order.\<close>

fun io_handles :: "(bytes \<Rightarrow> string) \<Rightarrow> io_store \<Rightarrow> io_op list \<Rightarrow> string list" where
  "io_handles b64 s [] = []"
| "io_handles b64 s (e # es) =
     (case e of Insert bs \<Rightarrow> (case fst (io_insert s bs) of Inr h \<Rightarrow> [h] | Inl _ \<Rightarrow> []) | _ \<Rightarrow> [])
     @ io_handles b64 (io_step b64 s e) es"

lemma insert_handle: "fst (io_insert s bs) = Inr h \<Longrightarrow> h = handle_name (io_counter s)"
  using evict_frame [of s "length bs"] by (auto simp: io_insert_def Let_def split: if_splits)

lemma io_handles_issued: "io_handles b64 s es = map handle_name (issued (io_issue b64) s es)"
  by (induction es arbitrary: s)
    (auto simp: io_issue_def split: io_op.splits sum.splits dest: insert_handle)

text \<open>Consecutive reads at the cursor.\<close>

fun io_reads :: "(bytes \<Rightarrow> string) \<Rightarrow> io_store \<Rightarrow> string \<Rightarrow> nat list \<Rightarrow> (string \<times> bool) list \<times> io_store" where
  "io_reads b64 s h [] = ([], s)"
| "io_reads b64 s h (n # ns) =
     (case io_read b64 s h None n of
        (None, s') \<Rightarrow> ([], s')
      | (Some r, s') \<Rightarrow> (case io_reads b64 s' h ns of (rs, s'') \<Rightarrow> (r # rs, s'')))"

fun chunks :: "nat list \<Rightarrow> 'a list \<Rightarrow> 'a list list" where
  "chunks [] xs = []"
| "chunks (n # ns) xs = take n xs # chunks ns (drop n xs)"

lemma chunks_concat: "concat (chunks ns xs) = take (sum_list ns) xs"
  by (induction ns arbitrary: xs) (simp_all add: take_add)

lemma read_at_cursor:
  assumes "Mapping.lookup (io_streams s) h = Some (bs, c)" and "c \<le> length bs" and "length bs \<le> usize_max"
    and "k = min n MAX_READ_CHUNK"
  shows "io_read b64 s h None n =
     (Some (b64 (take k (drop c bs)), length (drop c bs) \<le> k),
      s\<lparr>io_streams := Mapping.update h (bs, min (c + k) (length bs)) (io_streams s)\<rparr>)"
proof -
  have m: "min (min (c + k) usize_max) (length bs) = min (c + k) (length bs)" using assms(3) by simp
  have t: "take (min (c + k) (length bs) - c) (drop c bs) = take k (drop c bs)"
  proof (cases "c + k \<le> length bs")
    case True
    then show ?thesis by simp
  next
    case False
    then show ?thesis using assms(2) by simp
  qed
  show ?thesis
    using assms(1,2,3) by (auto simp: io_read_def Let_def assms(4) [symmetric] m t)
qed

lemma reads_Cons:
  assumes "Mapping.lookup (io_streams s) h = Some (bs, c)" and "c \<le> length bs" and "length bs \<le> usize_max"
    and "k = min n MAX_READ_CHUNK"
  obtains s' where "Mapping.lookup (io_streams s') h = Some (bs, min (c + k) (length bs))"
    and "fst (io_reads b64 s h (n # ns)) =
      (b64 (take k (drop c bs)), length bs \<le> c + k) # fst (io_reads b64 s' h ns)"
proof
  let ?s = "s\<lparr>io_streams := Mapping.update h (bs, min (c + k) (length bs)) (io_streams s)\<rparr>"
  show "Mapping.lookup (io_streams ?s) h = Some (bs, min (c + k) (length bs))"
    by (simp add: lookup_update)
  show "fst (io_reads b64 s h (n # ns)) =
      (b64 (take k (drop c bs)), length bs \<le> c + k) # fst (io_reads b64 ?s h ns)"
    using read_at_cursor [OF assms, of b64] by (auto split: prod.split)
qed

lemma reads_data:
  assumes "Mapping.lookup (io_streams s) h = Some (bs, c)" and "c \<le> length bs" and "length bs \<le> usize_max"
  shows "map fst (fst (io_reads b64 s h ns)) = map b64 (chunks (map (\<lambda>n. min n MAX_READ_CHUNK) ns) (drop c bs))"
  using assms
proof (induction ns arbitrary: s c)
  case Nil
  then show ?case by simp
next
  case (Cons n ns)
  define k where "k = min n MAX_READ_CHUNK"
  from reads_Cons [OF Cons.prems k_def, of b64 ns] obtain s'
    where look: "Mapping.lookup (io_streams s') h = Some (bs, min (c + k) (length bs))"
      and hd: "fst (io_reads b64 s h (n # ns)) =
        (b64 (take k (drop c bs)), length bs \<le> c + k) # fst (io_reads b64 s' h ns)" .
  have dr: "drop (min (c + k) (length bs)) bs = drop k (drop c bs)" by (simp add: min_def add.commute)
  show ?case
    using Cons.IH [OF look _ Cons.prems(3)]
    by (simp only: hd) (simp add: k_def [symmetric] dr)
qed

lemma reads_eof:
  assumes "Mapping.lookup (io_streams s) h = Some (bs, c)" and "c \<le> length bs" and "length bs \<le> usize_max"
  shows "map snd (fst (io_reads b64 s h ns)) =
           map (\<lambda>i. length bs \<le> c + (\<Sum>n \<leftarrow> take (Suc i) ns. min n MAX_READ_CHUNK)) [0..<length ns]"
  using assms
proof (induction ns arbitrary: s c)
  case Nil
  then show ?case by simp
next
  case (Cons n ns)
  define k where "k = min n MAX_READ_CHUNK"
  from reads_Cons [OF Cons.prems k_def, of b64 ns] obtain s'
    where look: "Mapping.lookup (io_streams s') h = Some (bs, min (c + k) (length bs))"
      and hd: "fst (io_reads b64 s h (n # ns)) =
        (b64 (take k (drop c bs)), length bs \<le> c + k) # fst (io_reads b64 s' h ns)" .
  have shift: "length bs \<le> min (c + k) (length bs) + m \<longleftrightarrow> length bs \<le> c + (k + m)" for m by auto
  show ?case
    using Cons.IH [OF look _ Cons.prems(3)]
    by (simp only: hd)
      (simp add: k_def [symmetric] shift map_upt_Suc del: upt_Suc)
qed

section \<open>Properties\<close>

text \<open>
  C24. Every store reached from fresh limits by any sequence of inserts, reads and removals is
  well formed: the accounted bytes are the bytes stored and stay within the limit, the
  eviction order lists exactly the stored handles once each, there are at most
  \<open>max_entries\<close> of them and every cursor lies within its body.
\<close>

theorem io_store_invariant:
  assumes "n \<le> usize_max"
  shows "io_ok (io_run b64 (with_limits entries n) es)"
  by (rule io_run_ok [OF with_limits_ok [OF assms]])

theorem io_store_invariant_witness:
  "io_ok (io_run (\<lambda>bs. map (\<lambda>b. char_of (unat b)) bs) (with_limits 2 10)
     [Insert (replicate 8 0), Insert (replicate 8 1), Read ''stream-1'' None 3])"
  by (rule io_store_invariant) (simp add: usize_max_def)

text \<open>
  C25. A body within the limit is stored under a handle never used before, whole and at
  cursor 0, and the store makes room first-in first-out: a prefix of the eviction order
  goes, no longer than the two limits require, and every other body is untouched.
\<close>

theorem io_insert_fifo:
  assumes "io_ok s" and "length bs \<le> io_max_bytes s" and "io_counter s < usize_max"
  shows "\<exists>s' h k. io_insert s bs = (Inr h, s') \<and> io_ok s' \<and> h \<notin> Mapping.keys (io_streams s)
    \<and> Mapping.lookup (io_streams s') h = Some (bs, 0)
    \<and> io_order s' = drop k (io_order s) @ [h]
    \<and> (\<forall>g \<in> set (drop k (io_order s)). Mapping.lookup (io_streams s') g = Mapping.lookup (io_streams s) g)
    \<and> (\<forall>j < k. io_max_entries s \<le> length (drop j (io_order s))
          \<or> io_max_bytes s < (\<Sum>g \<leftarrow> drop j (io_order s). body_len (io_streams s) g) + length bs)"
proof -
  let ?h = "handle_name (io_counter s)"
  have fresh: "?h \<notin> Mapping.keys (io_streams s)" by (rule fresh_handle [OF assms(1)])
  then have nin: "?h \<notin> set (io_order s)" using assms(1) by (simp add: io_ok_def)
  have ok: "io_ok (snd (io_insert s bs))" by (rule insert_ok [OF assms(1)])
  obtain k where k: "io_order (io_evict s (length bs)) = drop k (io_order s)"
    "\<forall>g \<in> set (drop k (io_order s)). Mapping.lookup (io_streams (io_evict s (length bs))) g = Mapping.lookup (io_streams s) g"
    "\<forall>j < k. io_max_entries s \<le> length (drop j (io_order s))
        \<or> io_max_bytes s < (\<Sum>g \<leftarrow> drop j (io_order s). body_len (io_streams s) g) + length bs"
    using evict_survivors [OF assms(1), of "length bs"] by blast
  have other: "g \<noteq> ?h" if "g \<in> set (drop k (io_order s))" for g
    using that nin by (auto dest: in_set_dropD)
  show ?thesis
    using ok k fresh other evict_frame [of s "length bs"]
    unfolding insert_accepts [OF assms]
    by (intro exI [of _ "io_push (io_evict s (length bs)) bs"] exI [of _ ?h] exI [of _ k])
      (simp add: io_push_def lookup_update_if)
qed

definition two_bodies :: io_store where
  "two_bodies = io_push (io_push (with_limits 2 10) [1, 2]) [3]"

lemma two_bodies_ok: "io_ok two_bodies"
  unfolding two_bodies_def
  by (intro push_ok with_limits_ok) (simp_all add: with_limits_def io_push_def usize_max_def)

theorem io_insert_fifo_witness:
  "\<exists>s' h k. io_insert two_bodies [7, 8] = (Inr h, s') \<and> io_order s' = drop k (io_order two_bodies) @ [h]"
  using io_insert_fifo [OF two_bodies_ok, of "[7, 8]"]
  by (fastforce simp: two_bodies_def with_limits_def io_push_def usize_max_def)

text \<open>
  C26. Reads without an offset hand out the stored body in order: the chunks returned by
  consecutive reads are the encodings of consecutive pieces of the body from the cursor on,
  each at most \<open>MAX_READ_CHUNK\<close> long, which together are its next bytes; and a read reports
  the end of the stream exactly when the body is exhausted.
\<close>

theorem io_reads_body:
  assumes "Mapping.lookup (io_streams s) h = Some (bs, c)" and "io_ok s"
  shows "\<exists>parts. map fst (fst (io_reads b64 s h ns)) = map b64 parts
      \<and> list_all (\<lambda>p. length p \<le> MAX_READ_CHUNK) parts
      \<and> concat parts = take (\<Sum>n \<leftarrow> ns. min n MAX_READ_CHUNK) (drop c bs)
      \<and> map snd (fst (io_reads b64 s h ns)) =
          map (\<lambda>i. length bs \<le> c + (\<Sum>n \<leftarrow> take (Suc i) ns. min n MAX_READ_CHUNK)) [0..<length ns]"
proof -
  have c: "c \<le> length bs" using assms by (simp add: io_ok_def)
  have "h \<in> set (io_order s)" using assms by (simp add: io_ok_def in_keys)
  then have "body_len (io_streams s) h \<le> (\<Sum>g \<leftarrow> io_order s. body_len (io_streams s) g)"
    by (intro member_le_sum_list) auto
  with assms have len: "length bs \<le> usize_max" by (auto simp: io_ok_def body_len_def)
  have short: "list_all (\<lambda>p. length p \<le> MAX_READ_CHUNK) (chunks (map (\<lambda>n. min n MAX_READ_CHUNK) ns) xs)" for xs :: bytes
    by (induction ns arbitrary: xs) auto
  show ?thesis
    using reads_data [OF assms(1) c len] reads_eof [OF assms(1) c len] short
    by (intro exI [of _ "chunks (map (\<lambda>n. min n MAX_READ_CHUNK) ns) (drop c bs)"])
      (simp add: chunks_concat)
qed

theorem io_reads_body_witness:
  "\<exists>parts. map fst (fst (io_reads (map (\<lambda>b. char_of (unat b))) two_bodies ''stream-0'' [1, 5]))
       = map (map (\<lambda>b. char_of (unat b))) parts
     \<and> concat parts = [1, 2 :: u8]"
proof -
  have look: "Mapping.lookup (io_streams two_bodies) ''stream-0'' = Some ([1, 2], 0)"
    by code_simp
  let ?E = "map (\<lambda>b :: u8. char_of (unat b)) :: bytes \<Rightarrow> string"
  have "\<exists>parts. map fst (fst (io_reads ?E two_bodies ''stream-0'' [1, 5])) = map ?E parts
      \<and> concat parts = take (\<Sum>n \<leftarrow> [1, 5]. min n MAX_READ_CHUNK) (drop 0 [1, 2])"
    by (rule exE [OF io_reads_body [OF look two_bodies_ok, of ?E "[1, 5]"]], elim conjE,
        rule exI, rule conjI, assumption, assumption)
  moreover have "take (\<Sum>n \<leftarrow> [1, 5]. min n MAX_READ_CHUNK) (drop 0 [1, 2 :: u8]) = [1, 2]"
    by (simp add: MAX_READ_CHUNK_def)
  ultimately show ?thesis by (simp only:)
qed

text \<open>
  A handle is never handed out twice, whatever is inserted, read, evicted or removed in between.
\<close>

lemma io_handles_distinct: "distinct (io_handles b64 s es)"
proof -
  have "inj handle_name" by (simp add: inj_on_def handle_name_inject)
  then show ?thesis
    using io_ids.issued_distinct [OF TrueI, of b64 s es] by (simp add: io_handles_issued distinct_map inj_on_def)
qed

end
