(* ===== verification/BTree.thy ===== *)
theory BTree
  imports Prelude "HOL-Library.List_Lexorder" "HOL-Library.Char_ord" "HOL-Library.Product_Lexorder"
begin

text \<open>
  Rust's \<open>BTreeMap\<close> and \<open>BTreeSet\<close> as the browser state uses them: association lists in
  increasing key order, so that iteration order is part of the model. Strings compare by
  bytes, tuples lexicographically. The locale \<open>entry_store\<close> is what the clients rely on: what a
  lookup returns after a write, a removal or a filter; inside it a batch of writes and removals is
  shown to act key by key, the last one winning.
\<close>

type_synonym ('k, 'v) bmap = "('k \<times> 'v) list"
type_synonym 'k bset = "('k, unit) bmap"

definition bm_get :: "('k, 'v) bmap \<Rightarrow> 'k \<Rightarrow> 'v option" where
  "bm_get m k = map_of m k"

fun bm_insert :: "'k::linorder \<Rightarrow> 'v \<Rightarrow> ('k, 'v) bmap \<Rightarrow> ('k, 'v) bmap" where
  "bm_insert k v [] = [(k, v)]"
| "bm_insert k v ((k', v') # m) =
     (if k < k' then (k, v) # (k', v') # m
      else if k = k' then (k, v) # m
      else (k', v') # bm_insert k v m)"

definition bm_retain :: "('k \<Rightarrow> 'v \<Rightarrow> bool) \<Rightarrow> ('k, 'v) bmap \<Rightarrow> ('k, 'v) bmap" where
  "bm_retain P m = filter (\<lambda>(k, v). P k v) m"

definition bm_remove :: "'k \<Rightarrow> ('k, 'v) bmap \<Rightarrow> ('k, 'v) bmap" where
  "bm_remove k m = bm_retain (\<lambda>k' _. k' \<noteq> k) m"

definition bm_has :: "('k, 'v) bmap \<Rightarrow> 'k \<Rightarrow> bool" where
  "bm_has m k \<longleftrightarrow> bm_get m k \<noteq> None"

definition bm_keys :: "('k, 'v) bmap \<Rightarrow> 'k list" where
  "bm_keys m = map fst m"

definition bm_values :: "('k, 'v) bmap \<Rightarrow> 'v list" where
  "bm_values m = map snd m"

definition bm_ok :: "('k::linorder, 'v) bmap \<Rightarrow> bool" where
  "bm_ok m \<longleftrightarrow> sorted_wrt (<) (map fst m)"

section \<open>Lookups\<close>

lemma bm_get_Nil [simp]: "bm_get [] k = None"
  by (simp add: bm_get_def)

lemma bm_get_insert: "bm_get (bm_insert k v m) j = (if j = k then Some v else bm_get m j)"
  by (induction k v m rule: bm_insert.induct) (auto simp: bm_get_def)

lemma bm_ok_distinct: "bm_ok m \<Longrightarrow> distinct (map fst m)"
  by (simp add: bm_ok_def strict_sorted_iff)

lemma bm_get_in: "bm_get m k = Some v \<Longrightarrow> (k, v) \<in> set m"
  by (simp add: bm_get_def map_of_SomeD)

lemma bm_get_iff: "bm_ok m \<Longrightarrow> bm_get m k = Some v \<longleftrightarrow> (k, v) \<in> set m"
  by (simp add: bm_get_def bm_ok_distinct)

lemma bm_get_None: "bm_get m k = None \<longleftrightarrow> k \<notin> fst ` set m"
  by (simp add: bm_get_def map_of_eq_None_iff)

lemma bm_get_retain:
  assumes "bm_ok m"
  shows "bm_get (bm_retain P m) k =
    (case bm_get m k of Some v \<Rightarrow> if P k v then Some v else None | None \<Rightarrow> None)"
  using bm_ok_distinct [OF assms] unfolding bm_get_def bm_retain_def
  by (induction m) (auto split: option.splits simp: map_of_eq_None_iff dest: map_of_SomeD)

lemma bm_get_retain_key:
  "bm_get (bm_retain (\<lambda>k _. P k) m) k = (if P k then bm_get m k else None)"
  unfolding bm_get_def bm_retain_def by (induction m) auto

lemma bm_get_remove: "bm_get (bm_remove k m) j = (if j = k then None else bm_get m j)"
  unfolding bm_remove_def bm_get_retain_key by simp

lemma bm_has_insert: "bm_has (bm_insert k v m) j \<longleftrightarrow> j = k \<or> bm_has m j"
  by (simp add: bm_has_def bm_get_insert)

lemma bm_has_remove: "bm_has (bm_remove k m) j \<longleftrightarrow> j \<noteq> k \<and> bm_has m j"
  by (simp add: bm_has_def bm_get_remove)

lemma bm_has_keys: "bm_has m k \<longleftrightarrow> k \<in> set (bm_keys m)"
  unfolding bm_has_def bm_keys_def using bm_get_None [of m k] by auto

lemma bm_remove_Nil [simp]: "bm_remove k [] = []"
  by (simp add: bm_remove_def bm_retain_def)

lemma bm_has_Some: "bm_has m k \<longleftrightarrow> (\<exists>v. bm_get m k = Some v)"
  unfolding bm_has_def by (cases "bm_get m k") simp_all

section \<open>The key order\<close>

lemma bm_insert_keys: "fst ` set (bm_insert k v m) = insert k (fst ` set m)"
  by (induction k v m rule: bm_insert.induct) auto

lemma bm_ok_Nil [simp]: "bm_ok []"
  by (simp add: bm_ok_def)

lemma bm_ok_insert: "bm_ok m \<Longrightarrow> bm_ok (bm_insert k v m)"
proof (induction k v m rule: bm_insert.induct)
  case (2 k v k' v' m)
  then have ok: "bm_ok m" and lt: "\<forall>j \<in> fst ` set m. k' < j" by (auto simp: bm_ok_def)
  show ?case
  proof (cases "k < k' \<or> k = k'")
    case True
    with 2(2) show ?thesis by (auto simp: bm_ok_def)
  next
    case False
    with 2(1) ok have "bm_ok (bm_insert k v m)" by auto
    moreover have "\<forall>j \<in> fst ` set (bm_insert k v m). k' < j"
      using False lt by (auto simp: bm_insert_keys)
    ultimately show ?thesis using False by (auto simp: bm_ok_def)
  qed
qed (simp add: bm_ok_def)

lemma bm_ok_retain: "bm_ok m \<Longrightarrow> bm_ok (bm_retain P m)"
  unfolding bm_ok_def bm_retain_def by (induction m) auto

lemma bm_ok_remove: "bm_ok m \<Longrightarrow> bm_ok (bm_remove k m)"
  by (simp add: bm_remove_def bm_ok_retain)

lemmas bm_oks [simp, intro] = bm_ok_insert bm_ok_retain bm_ok_remove

lemma bm_ok_ext:
  assumes "bm_ok m" and "bm_ok n" and "\<And>k. bm_get m k = bm_get n k"
  shows "m = n"
proof -
  have "set m = set n" using assms by (auto simp flip: bm_get_iff)
  moreover have "sorted (map fst m)" "sorted (map fst n)" "distinct (map fst m)" "distinct (map fst n)"
    using assms(1,2) by (simp_all add: bm_ok_def strict_sorted_iff)
  moreover have "inj_on fst (set m \<union> set n)"
    using bm_ok_distinct [OF assms(1)] \<open>set m = set n\<close> by (simp add: distinct_map)
  ultimately show ?thesis by (metis map_sorted_distinct_set_unique)
qed

lemma bm_keys_insert:
  assumes "bm_ok m" and "bm_has m k"
  shows "bm_keys (bm_insert k v m) = bm_keys m"
proof (rule sorted_distinct_set_unique)
  have "bm_ok (bm_insert k v m)" using assms(1) by (rule bm_ok_insert)
  then show "sorted (bm_keys (bm_insert k v m))" "distinct (bm_keys (bm_insert k v m))"
    by (simp_all add: bm_ok_def bm_keys_def strict_sorted_iff)
  show "sorted (bm_keys m)" "distinct (bm_keys m)"
    using assms(1) by (simp_all add: bm_ok_def bm_keys_def strict_sorted_iff)
  show "set (bm_keys (bm_insert k v m)) = set (bm_keys m)"
    using assms(2) by (auto simp: bm_has_keys [symmetric] bm_has_insert)
qed

section \<open>Sizes\<close>

lemma bm_length_insert: "bm_ok m \<Longrightarrow> length (bm_insert k v m) = (if bm_has m k then length m else Suc (length m))"
proof (induction k v m rule: bm_insert.induct)
  case (2 k v k' v' m)
  then have ok: "bm_ok m" and lt: "\<forall>j \<in> fst ` set m. k' < j" by (auto simp: bm_ok_def)
  consider "k < k'" | "k = k'" | "k' < k" by fastforce
  then show ?case
  proof cases
    case 1
    with lt have "\<not> bm_has ((k', v') # m) k" by (auto simp: bm_has_def bm_get_None)
    with 1 show ?thesis by simp
  next
    case 2
    then have "bm_has ((k', v') # m) k" by (simp add: bm_has_def bm_get_def)
    with 2 show ?thesis by simp
  next
    case 3
    then have "bm_has ((k', v') # m) k = bm_has m k" by (auto simp: bm_has_def bm_get_def)
    with 3 2(1) ok show ?thesis by auto
  qed
qed (simp add: bm_has_def)

lemma bm_length_retain: "length (bm_retain P m) \<le> length m"
  by (simp add: bm_retain_def)

lemma bm_length_remove: "length (bm_remove k m) \<le> length m"
  by (simp add: bm_remove_def bm_length_retain)

lemma bm_insert_same: "bm_ok m \<Longrightarrow> bm_get m k = Some v \<Longrightarrow> bm_insert k v m = m"
  by (rule bm_ok_ext) (auto simp: bm_get_insert)

lemma bm_remove_absent: "bm_get m k = None \<Longrightarrow> bm_remove k m = m"
  unfolding bm_remove_def bm_retain_def bm_get_None by (rule filter_True) force

lemma bm_has_retain: "bm_has (bm_retain P m) k \<Longrightarrow> bm_has m k"
  unfolding bm_has_def bm_retain_def using bm_get_None [of m k] bm_get_None [of "filter (\<lambda>(k, v). P k v) m" k] by auto

lemma bm_retain_keep:
  assumes "\<And>k v. (k, v) \<in> set m \<Longrightarrow> P k v"
  shows "bm_retain P m = m"
  unfolding bm_retain_def using assms by (intro filter_True) auto

lemma bm_values_iff: "bm_ok m \<Longrightarrow> v \<in> set (bm_values m) \<longleftrightarrow> (\<exists>k. bm_get m k = Some v)"
  by (force simp: bm_values_def bm_get_iff)

text \<open>The sum of a weight over the entries.\<close>

definition bm_sum :: "('v \<Rightarrow> nat) \<Rightarrow> ('k, 'v) bmap \<Rightarrow> nat" where
  "bm_sum f m = sum_list (map f (bm_values m))"

lemma bm_sum_Nil [simp]: "bm_sum f [] = 0"
  by (simp add: bm_sum_def bm_values_def)

lemma bm_sum_insert_new:
  "bm_get m k = None \<Longrightarrow> bm_sum f (bm_insert k v m) = f v + bm_sum f m"
  by (induction k v m rule: bm_insert.induct)
    (auto simp: bm_sum_def bm_values_def bm_get_def split: if_splits)

lemma bm_sum_remove:
  "bm_ok m \<Longrightarrow> bm_get m k = Some v \<Longrightarrow> bm_sum f (bm_remove k m) + f v = bm_sum f m"
proof (induction m)
  case (Cons p m)
  obtain j w where p: "p = (j, w)" by (cases p)
  have ok: "bm_ok m" using Cons.prems(1) by (simp add: bm_ok_def)
  show ?case
  proof (cases "j = k")
    case True
    then have "bm_get m k = None"
      using Cons.prems(1) p by (auto simp: bm_ok_def bm_get_None)
    then have "bm_remove k m = m" by (rule bm_remove_absent)
    with True Cons.prems p show ?thesis
      by (simp add: bm_remove_def bm_retain_def bm_sum_def bm_values_def bm_get_def)
  next
    case False
    with Cons.IH [OF ok] Cons.prems p show ?thesis
      by (simp add: bm_remove_def bm_retain_def bm_sum_def bm_values_def bm_get_def)
  qed
qed simp

lemma bm_sum_remove_le:
  assumes "bm_ok m"
  shows "bm_sum f (bm_remove k m) \<le> bm_sum f m"
proof (cases "bm_get m k")
  case None
  then show ?thesis by (simp add: bm_remove_absent)
next
  case (Some v)
  from bm_sum_remove [OF assms this, of f] show ?thesis by simp
qed

lemma bm_length_remove_Suc:
  fixes m :: "('k::linorder, 'v) bmap"
  shows "bm_ok m \<Longrightarrow> bm_has m k \<Longrightarrow> Suc (length (bm_remove k m)) = length m"
proof -
  assume m: "bm_ok m" and "bm_has m k"
  then obtain v where "bm_get m k = Some v" by (auto simp: bm_has_def)
  moreover have "bm_sum (\<lambda>_. 1) n = length n" for n :: "('k, 'v) bmap"
    by (induction n) (simp_all add: bm_sum_def bm_values_def)
  ultimately show "Suc (length (bm_remove k m)) = length m"
    using bm_sum_remove [OF m, of k v "\<lambda>_. 1"] by simp
qed

section \<open>The interface\<close>

text \<open>A batch of writes (\<open>Some\<close>) and removals (\<open>None\<close>), in order.\<close>

fun last_write :: "('k \<times> 'v option) list \<Rightarrow> 'k \<Rightarrow> 'v option option" where
  "last_write [] k = None"
| "last_write ((j, w) # ws) k =
     (case last_write ws k of Some r \<Rightarrow> Some r | None \<Rightarrow> if j = k then Some w else None)"

fun apply_writes :: "('k \<Rightarrow> 'v \<Rightarrow> 'm \<Rightarrow> 'm) \<Rightarrow> ('k \<Rightarrow> 'm \<Rightarrow> 'm) \<Rightarrow> ('k \<times> 'v option) list \<Rightarrow> 'm \<Rightarrow> 'm" where
  "apply_writes ins rem [] m = m"
| "apply_writes ins rem ((k, w) # ws) m =
     apply_writes ins rem ws (case w of Some v \<Rightarrow> ins k v m | None \<Rightarrow> rem k m)"

locale entry_store =
  fixes get :: "'m \<Rightarrow> 'k \<Rightarrow> 'v option"
    and ins :: "'k \<Rightarrow> 'v \<Rightarrow> 'm \<Rightarrow> 'm"
    and rem :: "'k \<Rightarrow> 'm \<Rightarrow> 'm"
    and inv :: "'m \<Rightarrow> bool"
  assumes get_ins: "get (ins k v m) j = (if j = k then Some v else get m j)"
    and get_rem: "get (rem k m) j = (if j = k then None else get m j)"
    and inv_ins: "inv m \<Longrightarrow> inv (ins k v m)"
    and inv_rem: "inv m \<Longrightarrow> inv (rem k m)"
begin

lemma get_writes:
  "get (apply_writes ins rem ws m) k = (case last_write ws k of Some w \<Rightarrow> w | None \<Rightarrow> get m k)"
  by (induction ws arbitrary: m)
    (auto simp: get_ins get_rem split: option.splits)

lemma inv_writes: "inv m \<Longrightarrow> inv (apply_writes ins rem ws m)"
  by (induction ws arbitrary: m) (auto simp: inv_ins inv_rem split: option.splits)

lemma writes_frame:
  "k \<notin> fst ` set ws \<Longrightarrow> get (apply_writes ins rem ws m) k = get m k"
proof -
  have "k \<notin> fst ` set ws \<Longrightarrow> last_write ws k = None"
    by (induction ws k rule: last_write.induct) auto
  then show "k \<notin> fst ` set ws \<Longrightarrow> ?thesis" by (simp add: get_writes)
qed

end

interpretation bm: entry_store bm_get bm_insert bm_remove bm_ok
  by unfold_locales (simp_all add: bm_get_insert bm_get_remove)

end
