(* ===== verification/Engine.thy ===== *)
theory Engine
  imports Complex_Main BTree RustStr
begin

text \<open>
  \<open>crates/obscura-cdp/src/engine.rs\<close> and \<open>protocol.rs\<close>: the identities, failures, actions and
  results that the transport-free browser engine exchanges with its host, and the bounded wire
  envelope. JSON is \<open>serde_json::Value\<close> as a datatype, with objects in key order; reading and
  writing JSON text is \<open>serde_json\<close> itself, the parameter \<open>codec\<close>. A 64-bit float is a
  rational number, an infinity or not a number, which is all the engine distinguishes.
\<close>

section \<open>JSON values and floats\<close>

datatype f64 = Finite rat | PosInf | NegInf | NaN

fun f64_is_finite :: "f64 \<Rightarrow> bool" where
  "f64_is_finite (Finite _) = True"
| "f64_is_finite _ = False"

fun f64_lt :: "f64 \<Rightarrow> f64 \<Rightarrow> bool" where
  "f64_lt NaN _ = False"
| "f64_lt _ NaN = False"
| "f64_lt NegInf b = (b \<noteq> NegInf)"
| "f64_lt PosInf _ = False"
| "f64_lt (Finite a) (Finite b) = (a < b)"
| "f64_lt (Finite a) PosInf = True"
| "f64_lt (Finite a) NegInf = False"

definition f64_eq :: "f64 \<Rightarrow> f64 \<Rightarrow> bool" where
  "f64_eq a b \<longleftrightarrow> a = b \<and> a \<noteq> NaN"

definition f64_le :: "f64 \<Rightarrow> f64 \<Rightarrow> bool" where
  "f64_le a b \<longleftrightarrow> f64_lt a b \<or> f64_eq a b"

text \<open>\<open>f64::max\<close> ignores a NaN operand.\<close>

definition f64_max :: "f64 \<Rightarrow> f64 \<Rightarrow> f64" where
  "f64_max a b = (if a = NaN then b else if b = NaN then a else if f64_lt a b then b else a)"

definition f64_of_nat :: "nat \<Rightarrow> f64" where
  "f64_of_nat n = Finite (of_nat n)"

datatype json =
  JNull | JBool bool | JInt int | JFloat f64 | JStr string
| JArr "json list" | JObj "(string \<times> json) list"

fun as_object :: "json \<Rightarrow> (string \<times> json) list option" where
  "as_object (JObj m) = Some m"
| "as_object _ = None"

fun as_str :: "json \<Rightarrow> string option" where
  "as_str (JStr s) = Some s"
| "as_str _ = None"

text \<open>\<open>Value::get\<close> with a string key.\<close>

definition json_get :: "json \<Rightarrow> string \<Rightarrow> json option" where
  "json_get v k = Option.bind (as_object v) (\<lambda>m. bm_get m k)"

section \<open>Identities\<close>

datatype context_id = ContextId (context_num: nat)
datatype page_id = PageId (page_num: nat)
datatype action_id = ActionId (action_num: nat)
datatype connection_id = ConnectionId (connection_num: nat)
datatype session_id = SessionId (session_num: nat)

text \<open>The derived orders compare the numbers.\<close>

instantiation context_id :: linorder
begin

definition less_eq_context_id :: "context_id \<Rightarrow> context_id \<Rightarrow> bool" where
  "a \<le> b \<longleftrightarrow> context_num a \<le> context_num b"

definition less_context_id :: "context_id \<Rightarrow> context_id \<Rightarrow> bool" where
  "a < b \<longleftrightarrow> context_num a < context_num b"

instance
  by standard (auto simp: less_eq_context_id_def less_context_id_def intro: context_id.expand)

end

instantiation page_id :: linorder
begin

definition less_eq_page_id :: "page_id \<Rightarrow> page_id \<Rightarrow> bool" where
  "a \<le> b \<longleftrightarrow> page_num a \<le> page_num b"

definition less_page_id :: "page_id \<Rightarrow> page_id \<Rightarrow> bool" where
  "a < b \<longleftrightarrow> page_num a < page_num b"

instance
  by standard (auto simp: less_eq_page_id_def less_page_id_def intro: page_id.expand)

end

instantiation action_id :: linorder
begin

definition less_eq_action_id :: "action_id \<Rightarrow> action_id \<Rightarrow> bool" where
  "a \<le> b \<longleftrightarrow> action_num a \<le> action_num b"

definition less_action_id :: "action_id \<Rightarrow> action_id \<Rightarrow> bool" where
  "a < b \<longleftrightarrow> action_num a < action_num b"

instance
  by standard (auto simp: less_eq_action_id_def less_action_id_def intro: action_id.expand)

end

instantiation connection_id :: linorder
begin

definition less_eq_connection_id :: "connection_id \<Rightarrow> connection_id \<Rightarrow> bool" where
  "a \<le> b \<longleftrightarrow> connection_num a \<le> connection_num b"

definition less_connection_id :: "connection_id \<Rightarrow> connection_id \<Rightarrow> bool" where
  "a < b \<longleftrightarrow> connection_num a < connection_num b"

instance
  by standard (auto simp: less_eq_connection_id_def less_connection_id_def intro: connection_id.expand)

end

instantiation session_id :: linorder
begin

definition less_eq_session_id :: "session_id \<Rightarrow> session_id \<Rightarrow> bool" where
  "a \<le> b \<longleftrightarrow> session_num a \<le> session_num b"

definition less_session_id :: "session_id \<Rightarrow> session_id \<Rightarrow> bool" where
  "a < b \<longleftrightarrow> session_num a < session_num b"

instance
  by standard (auto simp: less_eq_session_id_def less_session_id_def intro: session_id.expand)

end

definition context_is_unassigned :: "context_id \<Rightarrow> bool" where
  "context_is_unassigned c \<longleftrightarrow> context_num c = 0"

definition page_is_unassigned :: "page_id \<Rightarrow> bool" where
  "page_is_unassigned p \<longleftrightarrow> page_num p = 0"

definition action_is_unassigned :: "action_id \<Rightarrow> bool" where
  "action_is_unassigned a \<longleftrightarrow> action_num a = 0"

section \<open>Failures\<close>

datatype cdp_failure =
  InvalidArgument string
| UnknownContext context_id
| UnknownPage page_id
| UnknownAction action_id
| StaleAction action_id
| ActionQueueFull
| IdExhausted
| Closed
| Unsupported string
| Host string

definition invalid_argument :: "string \<Rightarrow> cdp_failure" where
  "invalid_argument message = InvalidArgument message"

definition host_failure :: "string \<Rightarrow> cdp_failure" where
  "host_failure message = Host message"

fun show_failure :: "cdp_failure \<Rightarrow> string" where
  "show_failure (InvalidArgument message) = ''invalid argument: '' @ message"
| "show_failure (UnknownContext i) = ''unknown browser context '' @ show_nat (context_num i)"
| "show_failure (UnknownPage i) = ''unknown page '' @ show_nat (page_num i)"
| "show_failure (UnknownAction i) = ''unknown action '' @ show_nat (action_num i)"
| "show_failure (StaleAction i) = ''stale action '' @ show_nat (action_num i)"
| "show_failure ActionQueueFull = ''host-action queue is full''"
| "show_failure IdExhausted = ''engine ID space is exhausted''"
| "show_failure Closed = ''engine is closed''"
| "show_failure (Unsupported message) = ''unsupported operation: '' @ message"
| "show_failure (Host message) = ''host action failed: '' @ message"

section \<open>Options, actions, results\<close>

record context_options =
  opt_user_agent :: "string option"
  opt_locale :: "string option"
  opt_timezone_id :: "string option"
  opt_storage_state :: "string option"

definition context_options_default :: context_options where
  "context_options_default =
     \<lparr>opt_user_agent = None, opt_locale = None, opt_timezone_id = None, opt_storage_state = None\<rparr>"

record page_snapshot =
  sn_page_id :: page_id
  sn_context_id :: context_id
  sn_url :: string
  sn_title :: string
  sn_frame_id :: string
  sn_loader_id :: string
  sn_document_generation :: nat

datatype engine_action =
  Navigate page_id string
| FetchResource page_id string
| Evaluate page_id string
| CallFunctionOn page_id string
| GetProperties page_id string
| ReleaseObject page_id string
| FetchScript page_id string bool
| ResolveModule page_id string string
| DeliverInput page_id json
| CaptureScreenshot page_id string
| PrintToPdf page_id json
| LoadContext context_id string
| StoreContext context_id
| Wake nat

datatype action_result =
  ResultUnit | ResultValue json | ResultBytes string | ResultFailed cdp_failure

fun is_success :: "action_result \<Rightarrow> bool" where
  "is_success (ResultFailed _) = False"
| "is_success _ = True"

text \<open>The match on the variants that carry a page, written out twice in the code.\<close>

fun action_page :: "engine_action \<Rightarrow> page_id option" where
  "action_page (Navigate page _) = Some page"
| "action_page (FetchResource page _) = Some page"
| "action_page (Evaluate page _) = Some page"
| "action_page (CallFunctionOn page _) = Some page"
| "action_page (GetProperties page _) = Some page"
| "action_page (ReleaseObject page _) = Some page"
| "action_page (FetchScript page _ _) = Some page"
| "action_page (ResolveModule page _ _) = Some page"
| "action_page (DeliverInput page _) = Some page"
| "action_page (CaptureScreenshot page _) = Some page"
| "action_page (PrintToPdf page _) = Some page"
| "action_page (LoadContext _ _) = None"
| "action_page (StoreContext _) = None"
| "action_page (Wake _) = None"

fun action_context :: "engine_action \<Rightarrow> context_id option" where
  "action_context (LoadContext c _) = Some c"
| "action_context (StoreContext c) = Some c"
| "action_context _ = None"

fun is_navigation :: "engine_action \<Rightarrow> bool" where
  "is_navigation (Navigate _ _) = True"
| "is_navigation _ = False"

section \<open>The wire envelope\<close>

definition MAX_MESSAGE_BYTES :: nat where "MAX_MESSAGE_BYTES = 8 * 1024 * 1024"
definition MAX_METHOD_BYTES :: nat where "MAX_METHOD_BYTES = 256"
definition MAX_SESSION_BYTES :: nat where "MAX_SESSION_BYTES = 256"
definition MAX_OUTPUT_FRAMES :: nat where "MAX_OUTPUT_FRAMES = 512"
definition MAX_OUTPUT_BYTES :: nat where "MAX_OUTPUT_BYTES = 8 * 1024 * 1024"

record cdp_request =
  rq_id :: nat
  rq_method :: string
  rq_params :: json
  rq_session_id :: "string option"

record cdp_error =
  er_code :: int
  er_message :: string

record cdp_response =
  rs_id :: nat
  rs_result :: "json option"
  rs_error :: "cdp_error option"
  rs_session_id :: "string option"

record cdp_event =
  ev_method :: string
  ev_params :: json
  ev_session_id :: "string option"

record protocol_error =
  pe_code :: int
  pe_message :: string

definition response_success :: "nat \<Rightarrow> json \<Rightarrow> string option \<Rightarrow> cdp_response" where
  "response_success i result session =
     \<lparr>rs_id = i, rs_result = Some result, rs_error = None, rs_session_id = session\<rparr>"

definition response_error :: "nat \<Rightarrow> int \<Rightarrow> string \<Rightarrow> string option \<Rightarrow> cdp_response" where
  "response_error i code message session =
     \<lparr>rs_id = i, rs_result = None, rs_error = Some \<lparr>er_code = code, er_message = message\<rparr>,
      rs_session_id = session\<rparr>"

definition event_new :: "string \<Rightarrow> json \<Rightarrow> cdp_event" where
  "event_new method params = \<lparr>ev_method = method, ev_params = params, ev_session_id = None\<rparr>"

definition event_with_session :: "string \<Rightarrow> json \<Rightarrow> string \<Rightarrow> cdp_event" where
  "event_with_session method params session =
     \<lparr>ev_method = method, ev_params = params, ev_session_id = Some session\<rparr>"

text \<open>
  \<open>parse_request\<close>: \<open>from_slice\<close> reads the JSON text and \<open>from_value\<close> the request object; both
  are \<open>serde_json\<close>, and fail with a message.
\<close>

definition parse_request ::
    "(string \<Rightarrow> string + json) \<Rightarrow> (json \<Rightarrow> string + cdp_request) \<Rightarrow> string \<Rightarrow> protocol_error + cdp_request" where
  "parse_request from_slice from_value bs =
     (if MAX_MESSAGE_BYTES < length bs
      then Inl \<lparr>pe_code = -32000, pe_message = ''CDP command exceeds '' @ show_nat MAX_MESSAGE_BYTES @ '' bytes''\<rparr>
      else case from_slice bs of
        Inl e \<Rightarrow> Inl \<lparr>pe_code = -32700, pe_message = ''Invalid CDP JSON: '' @ e\<rparr>
      | Inr v \<Rightarrow>
         (case from_value v of
            Inl e \<Rightarrow> Inl \<lparr>pe_code = -32600, pe_message = ''Invalid CDP request: '' @ e\<rparr>
          | Inr r \<Rightarrow>
             (if rq_method r = [] \<or> MAX_METHOD_BYTES < length (rq_method r)
              then Inl \<lparr>pe_code = -32600, pe_message = ''CDP command method must be a bounded string''\<rparr>
              else case rq_session_id r of
                None \<Rightarrow> Inr r
              | Some s \<Rightarrow>
                 (if s = [] \<or> MAX_SESSION_BYTES < length s
                  then Inl \<lparr>pe_code = -32600, pe_message = ''CDP sessionId must be a bounded string''\<rparr>
                  else Inr r))))"

definition encode_response :: "(cdp_response \<Rightarrow> string + string) \<Rightarrow> cdp_response \<Rightarrow> protocol_error + string" where
  "encode_response to_vec r =
     (case to_vec r of
        Inl e \<Rightarrow> Inl \<lparr>pe_code = -32603, pe_message = ''CDP response serialization failed: '' @ e\<rparr>
      | Inr bs \<Rightarrow>
         (if MAX_OUTPUT_BYTES < length bs
          then Inl \<lparr>pe_code = -32000, pe_message = ''CDP response exceeds '' @ show_nat MAX_OUTPUT_BYTES @ '' bytes''\<rparr>
          else Inr bs))"

definition output_batch :: "string list \<Rightarrow> protocol_error + string list" where
  "output_batch frames =
     (if MAX_OUTPUT_FRAMES < length frames
      then Inl \<lparr>pe_code = -32000, pe_message = ''CDP output exceeds '' @ show_nat MAX_OUTPUT_FRAMES @ '' frames''\<rparr>
      else if MAX_OUTPUT_BYTES < sum_list (map length frames)
      then Inl \<lparr>pe_code = -32000, pe_message = ''CDP output exceeds '' @ show_nat MAX_OUTPUT_BYTES @ '' bytes''\<rparr>
      else Inr frames)"

text \<open>
  A request that gets past \<open>parse_request\<close> came from a message within the size limit and
  names a non-empty method and, when it has one, a non-empty session id, each at most 256 bytes;
  a message within the limit that decodes to such a request is never refused.
\<close>

theorem parse_request_bounded:
  "parse_request from_slice from_value bs = Inr r \<longleftrightarrow>
     length bs \<le> 8388608
     \<and> (\<exists>v. from_slice bs = Inr v \<and> from_value v = Inr r)
     \<and> 0 < length (rq_method r) \<and> length (rq_method r) \<le> 256
     \<and> list_all (\<lambda>s. 0 < length s \<and> length s \<le> 256)
         (case rq_session_id r of None \<Rightarrow> [] | Some s \<Rightarrow> [s])"
  unfolding parse_request_def MAX_MESSAGE_BYTES_def MAX_METHOD_BYTES_def MAX_SESSION_BYTES_def
  by (auto split: sum.splits option.splits if_splits)

end
