(* ===== verification/CdpState.thy ===== *)
theory CdpState
  imports Engine
begin

text \<open>
  \<open>crates/obscura-cdp/src/state.rs\<close>, the data: the browser state with its contexts, pages,
  connections, sessions, per-connection event queues and outstanding actions, the per-page
  network, display and history state, and the operations that touch one of these alone.
  Counters and sizes are natural numbers with the checked and saturating operations of the code
  written out. A method on \<open>&mut self\<close> returns its result with the new state.
\<close>

section \<open>Limits\<close>

definition MAX_CONTEXTS :: nat where "MAX_CONTEXTS = 256"
definition CONTEXT_SNAPSHOT_VERSION :: nat where "CONTEXT_SNAPSHOT_VERSION = 1"
definition MAX_STORAGE_STATE_BYTES :: nat where "MAX_STORAGE_STATE_BYTES = 16 * 1024 * 1024"
definition MAX_CONTEXT_SNAPSHOT_BYTES :: nat where "MAX_CONTEXT_SNAPSHOT_BYTES = MAX_STORAGE_STATE_BYTES"
definition MAX_PAGES :: nat where "MAX_PAGES = 4096"
definition MAX_CONNECTIONS :: nat where "MAX_CONNECTIONS = 512"
definition MAX_SESSIONS :: nat where "MAX_SESSIONS = 8192"
definition MAX_ACTIONS :: nat where "MAX_ACTIONS = 512"
definition MAX_ACTION_BYTES :: nat where "MAX_ACTION_BYTES = 8 * 1024 * 1024"
definition MAX_ACTION_RESULT_BYTES :: nat where "MAX_ACTION_RESULT_BYTES = 16 * 1024 * 1024"
definition MAX_URL_BYTES :: nat where "MAX_URL_BYTES = 8 * 1024 * 1024"
definition MAX_NETWORK_RESPONSE_BODIES :: nat where "MAX_NETWORK_RESPONSE_BODIES = 128"
definition MAX_NETWORK_RESPONSE_BODY_BYTES :: nat where "MAX_NETWORK_RESPONSE_BODY_BYTES = 4 * 1024 * 1024"
definition MAX_NETWORK_RESPONSE_WIRE_BYTES :: nat where
  "MAX_NETWORK_RESPONSE_WIRE_BYTES = MAX_NETWORK_RESPONSE_BODY_BYTES * 2"
definition MAX_NETWORK_REQUEST_ID_BYTES :: nat where "MAX_NETWORK_REQUEST_ID_BYTES = 256"
definition MAX_NETWORK_HEADERS :: nat where "MAX_NETWORK_HEADERS = 256"
definition MAX_NETWORK_HEADER_BYTES :: nat where "MAX_NETWORK_HEADER_BYTES = 64 * 1024"
definition MAX_FETCH_PATTERNS :: nat where "MAX_FETCH_PATTERNS = 64"
definition MAX_FETCH_PATTERN_BYTES :: nat where "MAX_FETCH_PATTERN_BYTES = 2048"
definition MAX_FETCH_REQUESTS :: nat where "MAX_FETCH_REQUESTS = 256"
definition MAX_FETCH_RESOLUTIONS :: nat where "MAX_FETCH_RESOLUTIONS = 256"
definition MAX_COOKIE_COUNT :: nat where "MAX_COOKIE_COUNT = 4096"
definition MAX_COOKIE_BYTES :: nat where "MAX_COOKIE_BYTES = 64 * 1024"
definition MAX_HISTORY_ENTRIES :: nat where "MAX_HISTORY_ENTRIES = 128"
definition MAX_EVENTS_PER_CONNECTION :: nat where "MAX_EVENTS_PER_CONNECTION = 512"
definition MAX_EVENT_BYTES_PER_CONNECTION :: nat where "MAX_EVENT_BYTES_PER_CONNECTION = 4 * 1024 * 1024"
definition DEFAULT_VIEWPORT_WIDTH :: nat where "DEFAULT_VIEWPORT_WIDTH = 800"
definition DEFAULT_VIEWPORT_HEIGHT :: nat where "DEFAULT_VIEWPORT_HEIGHT = 600"
definition MAX_VIEWPORT_DIMENSION :: nat where "MAX_VIEWPORT_DIMENSION = 4096"

section \<open>Records\<close>

record context_state =
  cx_id :: context_id
  cx_options :: context_options
  cx_generation :: nat

record context_cookie =
  ck_name :: string
  ck_value :: string
  ck_domain :: string
  ck_path :: string
  ck_secure :: bool
  ck_http_only :: bool
  ck_same_site :: string
  ck_expires :: "int option"
  ck_host_only :: bool

record context_snapshot =
  cs_schema_version :: nat
  cs_options :: context_options
  cs_cookies :: "context_cookie list"

record snapshot_options =
  so_user_agent :: "string option"
  so_locale :: "string option"
  so_timezone_id :: "string option"
  so_storage_state :: "string option"

record validated_snapshot =
  vs_schema_version :: nat
  vs_options :: snapshot_options
  vs_cookies :: "context_cookie list"

definition options_of_snapshot :: "snapshot_options \<Rightarrow> context_options" where
  "options_of_snapshot o' =
     \<lparr>opt_user_agent = so_user_agent o', opt_locale = so_locale o',
      opt_timezone_id = so_timezone_id o', opt_storage_state = so_storage_state o'\<rparr>"

record response_body =
  rb_body :: string
  rb_base64 :: bool

record fetch_pattern =
  fp_url_pattern :: string
  fp_request_stage :: string

record page_network =
  nw_enabled_sessions :: "session_id bset"
  nw_cache_disabled :: bool
  nw_extra_headers :: "(string, string) bmap"
  nw_response_bodies :: "(string, response_body) bmap"
  nw_fetch_patterns :: "(session_id, fetch_pattern list) bmap"
  nw_paused_requests :: "string bset"
  nw_body_order :: "(nat, string) bmap"
  nw_body_bytes :: nat
  nw_next_order :: nat

definition network_default :: page_network where
  "network_default =
     \<lparr>nw_enabled_sessions = [], nw_cache_disabled = False, nw_extra_headers = [],
      nw_response_bodies = [], nw_fetch_patterns = [], nw_paused_requests = [],
      nw_body_order = [], nw_body_bytes = 0, nw_next_order = 0\<rparr>"

record page_state =
  pg_id :: page_id
  pg_context_id :: context_id
  pg_url :: string
  pg_title :: string
  pg_frame_id :: string
  pg_loader_id :: string
  pg_document_generation :: nat
  pg_network :: page_network

record history_entry =
  he_id :: nat
  he_url :: string
  he_user_typed_url :: string
  he_title :: string
  he_transition_type :: string

record page_history =
  hi_current_index :: nat
  hi_entries :: "history_entry list"

record page_display =
  dp_width :: nat
  dp_height :: nat
  dp_device_scale_factor :: f64
  dp_mobile :: bool
  dp_emulated_media :: string
  dp_focus_emulation :: bool
  dp_page_x :: f64
  dp_page_y :: f64
  dp_content_width :: f64
  dp_content_height :: f64

definition display_default :: page_display where
  "display_default =
     \<lparr>dp_width = DEFAULT_VIEWPORT_WIDTH, dp_height = DEFAULT_VIEWPORT_HEIGHT,
      dp_device_scale_factor = Finite 1, dp_mobile = False, dp_emulated_media = [],
      dp_focus_emulation = False, dp_page_x = Finite 0, dp_page_y = Finite 0,
      dp_content_width = f64_of_nat DEFAULT_VIEWPORT_WIDTH,
      dp_content_height = f64_of_nat DEFAULT_VIEWPORT_HEIGHT\<rparr>"

text \<open>The derived equality compares floats as floats.\<close>

definition display_is_default :: "page_display \<Rightarrow> bool" where
  "display_is_default d \<longleftrightarrow>
     dp_width d = dp_width display_default \<and> dp_height d = dp_height display_default
     \<and> f64_eq (dp_device_scale_factor d) (dp_device_scale_factor display_default)
     \<and> dp_mobile d = dp_mobile display_default
     \<and> dp_emulated_media d = dp_emulated_media display_default
     \<and> dp_focus_emulation d = dp_focus_emulation display_default
     \<and> f64_eq (dp_page_x d) (dp_page_x display_default)
     \<and> f64_eq (dp_page_y d) (dp_page_y display_default)
     \<and> f64_eq (dp_content_width d) (dp_content_width display_default)
     \<and> f64_eq (dp_content_height d) (dp_content_height display_default)"

record wire_metadata =
  wi_connection_id :: connection_id
  wi_target_page :: page_id
  wi_request :: json
  wi_session_id :: "string option"

record host_payload =
  ho_kind :: string
  ho_payload :: json
  ho_wire :: "wire_metadata option"

record pending_action =
  pa_action :: engine_action
  pa_page :: "page_id option"
  pa_context :: "context_id option"
  pa_generation :: nat
  pa_document_generation :: "nat option"
  pa_host :: "host_payload option"

record host_action =
  ac_action_id :: nat
  ac_generation :: nat
  ac_kind :: string
  ac_payload :: json

record event_queue =
  eq_entries :: "(cdp_event \<times> nat) list"
  eq_bytes :: nat

type_synonym cookie_key = "string \<times> string \<times> string"
type_synonym cookie_map = "(cookie_key, context_cookie) bmap"

record browser =
  bs_contexts :: "(context_id, context_state) bmap"
  bs_pages :: "(page_id, page_state) bmap"
  bs_display :: "(page_id, page_display) bmap"
  bs_fetch_resolutions :: "(page_id, json list) bmap"
  bs_cookies :: "(context_id, cookie_map) bmap"
  bs_history :: "(page_id, page_history) bmap"
  bs_connections :: "connection_id bset"
  bs_sessions :: "(session_id, page_id) bmap"
  bs_session_connections :: "(session_id, connection_id) bmap"
  bs_events :: "(connection_id, event_queue) bmap"
  bs_actions :: "(action_id, pending_action) bmap"
  bs_ready :: "action_id list option"
  bs_next_context :: nat
  bs_next_page :: nat
  bs_next_connection :: nat
  bs_next_session :: nat
  bs_next_action :: nat
  bs_generation :: nat
  bs_closed :: bool

type_synonym 'a cdp_result = "cdp_failure + 'a"

text \<open>\<open>serde_json\<close>: writing fails with a message, or with the failure ignored by the caller.\<close>

record codec =
  enc_value :: "json \<Rightarrow> string option"
  enc_event :: "cdp_event \<Rightarrow> string + string"
  enc_snapshot :: "context_snapshot \<Rightarrow> string + string"
  dec_snapshot :: "string \<Rightarrow> string + validated_snapshot"
  enc_cookies :: "context_cookie list \<Rightarrow> string + string"
  enc_result :: "action_result \<Rightarrow> string option"

definition browser_new :: browser where
  "browser_new =
     \<lparr>bs_contexts = [(ContextId 1, \<lparr>cx_id = ContextId 1, cx_options = context_options_default, cx_generation = 1\<rparr>)],
      bs_pages = [], bs_display = [], bs_fetch_resolutions = [],
      bs_cookies = [(ContextId 1, [])], bs_history = [], bs_connections = [],
      bs_sessions = [], bs_session_connections = [], bs_events = [], bs_actions = [],
      bs_ready = None, bs_next_context = 1, bs_next_page = 0, bs_next_connection = 0,
      bs_next_session = 0, bs_next_action = 0, bs_generation = 1, bs_closed = False\<rparr>"

section \<open>Queries and guards\<close>

definition default_context :: context_id where
  "default_context = ContextId 1"

definition context_for_page :: "browser \<Rightarrow> page_id \<Rightarrow> context_id cdp_result" where
  "context_for_page s p =
     (case bm_get (bs_pages s) p of Some pg \<Rightarrow> Inr (pg_context_id pg) | None \<Rightarrow> Inl (UnknownPage p))"

definition contexts_list :: "browser \<Rightarrow> context_state list" where
  "contexts_list s = bm_values (bs_contexts s)"

definition pages_list :: "browser \<Rightarrow> page_state list" where
  "pages_list s = bm_values (bs_pages s)"

definition find_context :: "browser \<Rightarrow> context_id \<Rightarrow> context_state option" where
  "find_context s c = bm_get (bs_contexts s) c"

definition find_page :: "browser \<Rightarrow> page_id \<Rightarrow> page_state option" where
  "find_page s p = bm_get (bs_pages s) p"

definition network_state :: "browser \<Rightarrow> page_id \<Rightarrow> page_network option" where
  "network_state s p = map_option pg_network (bm_get (bs_pages s) p)"

definition display_state :: "browser \<Rightarrow> page_id \<Rightarrow> page_display option" where
  "display_state s p = bm_get (bs_display s) p"

definition find_history :: "browser \<Rightarrow> page_id \<Rightarrow> page_history option" where
  "find_history s p = bm_get (bs_history s) p"

definition connection_count :: "browser \<Rightarrow> nat" where
  "connection_count s = length (bs_connections s)"

definition session_count :: "browser \<Rightarrow> nat" where
  "session_count s = length (bs_sessions s)"

definition pending_action_count :: "browser \<Rightarrow> nat" where
  "pending_action_count s = length (bs_actions s)"

definition pending_host_action_count :: "browser \<Rightarrow> nat" where
  "pending_host_action_count s = length (filter (\<lambda>p. pa_host p \<noteq> None) (bm_values (bs_actions s)))"

definition has_ready_host_actions :: "browser \<Rightarrow> bool" where
  "has_ready_host_actions s \<longleftrightarrow> (case bs_ready s of Some q \<Rightarrow> q \<noteq> [] | None \<Rightarrow> False)"

definition attached_page :: "browser \<Rightarrow> session_id \<Rightarrow> page_id option" where
  "attached_page s i = bm_get (bs_sessions s) i"

definition session_connection :: "browser \<Rightarrow> session_id \<Rightarrow> connection_id option" where
  "session_connection s i = bm_get (bs_session_connections s) i"

definition sessions_for_connection :: "browser \<Rightarrow> connection_id \<Rightarrow> (session_id \<times> page_id) list" where
  "sessions_for_connection s c =
     List.map_filter (\<lambda>(session, owner).
        if owner = c then map_option (\<lambda>page. (session, page)) (bm_get (bs_sessions s) session) else None)
       (bs_session_connections s)"

definition sessions_for_page :: "browser \<Rightarrow> page_id \<Rightarrow> (session_id \<times> connection_id) list" where
  "sessions_for_page s p =
     List.map_filter (\<lambda>(session, target).
        if target = p then map_option (\<lambda>c. (session, c)) (bm_get (bs_session_connections s) session) else None)
       (bs_sessions s)"

definition page_is_attached :: "browser \<Rightarrow> page_id \<Rightarrow> bool" where
  "page_is_attached s p \<longleftrightarrow> list_ex (\<lambda>page. page = p) (bm_values (bs_sessions s))"

definition ensure_open :: "browser \<Rightarrow> unit cdp_result" where
  "ensure_open s = (if bs_closed s then Inl Closed else Inr ())"

definition next_id :: "nat \<Rightarrow> nat cdp_result" where
  "next_id counter = (case checked_add u64_max counter 1 of Some n \<Rightarrow> Inr n | None \<Rightarrow> Inl IdExhausted)"

definition validate_url :: "string \<Rightarrow> unit cdp_result" where
  "validate_url url =
     (if MAX_URL_BYTES < length url then Inl (invalid_argument ''page URL exceeds the byte limit'') else Inr ())"

definition validate_options :: "context_options \<Rightarrow> unit cdp_result" where
  "validate_options o' =
     (case opt_storage_state o' of
        Some st \<Rightarrow> (if MAX_STORAGE_STATE_BYTES < length st
                    then Inl (invalid_argument ''context storage state exceeds the byte limit'') else Inr ())
      | None \<Rightarrow> Inr ())"

definition validate_cookie :: "context_cookie \<Rightarrow> unit cdp_result" where
  "validate_cookie c =
     (if ck_name c = [] \<or> MAX_METHOD_BYTES < length (ck_name c)
         \<or> ck_domain c = [] \<or> MAX_METHOD_BYTES < length (ck_domain c)
         \<or> ck_path c = [] \<or> MAX_METHOD_BYTES < length (ck_path c)
         \<or> \<not> starts_with (ck_path c) ''/''
         \<or> MAX_COOKIE_BYTES < length (ck_value c)
         \<or> MAX_METHOD_BYTES < length (ck_same_site c)
      then Inl (invalid_argument ''cookie is invalid'') else Inr ())"

definition cookie_expired :: "context_cookie \<Rightarrow> nat \<Rightarrow> bool" where
  "cookie_expired c now_secs =
     (case ck_expires c of Some e \<Rightarrow> e < 0 \<or> nat e \<le> now_secs | None \<Rightarrow> False)"

section \<open>Propagating failures\<close>

text \<open>The \<open>?\<close> operator, for a method on \<open>&self\<close> and for one on \<open>&mut self\<close>.\<close>

definition and_then :: "'a cdp_result \<Rightarrow> ('a \<Rightarrow> 'b cdp_result) \<Rightarrow> 'b cdp_result" where
  "and_then r f = (case r of Inl e \<Rightarrow> Inl e | Inr v \<Rightarrow> f v)"

definition attempt :: "'a cdp_result \<Rightarrow> browser \<Rightarrow> ('a \<Rightarrow> 'b cdp_result \<times> browser) \<Rightarrow> 'b cdp_result \<times> browser" where
  "attempt r s f = (case r of Inl e \<Rightarrow> (Inl e, s) | Inr v \<Rightarrow> f v)"

lemma and_then_simps [simp]: "and_then (Inl e) f = Inl e" "and_then (Inr v) f = f v"
  by (simp_all add: and_then_def)

lemma attempt_simps [simp]: "attempt (Inl e) s f = (Inl e, s)" "attempt (Inr v) s f = f v"
  by (simp_all add: attempt_def)

definition need :: "cdp_failure \<Rightarrow> 'a option \<Rightarrow> 'a cdp_result" where
  "need e r = (case r of None \<Rightarrow> Inl e | Some v \<Rightarrow> Inr v)"

lemma need_simps [simp]: "need e None = Inl e" "need e (Some v) = Inr v"
  by (simp_all add: need_def)

section \<open>Event queues\<close>

definition event_count :: "browser \<Rightarrow> connection_id \<Rightarrow> nat" where
  "event_count s c = (case bm_get (bs_events s) c of Some q \<Rightarrow> length (eq_entries q) | None \<Rightarrow> 0)"

definition queue_default :: event_queue where
  "queue_default = \<lparr>eq_entries = [], eq_bytes = 0\<rparr>"

text \<open>The eviction loop of \<open>queue_event\<close>.\<close>

fun trim_events :: "(cdp_event \<times> nat) list \<Rightarrow> nat \<Rightarrow> event_queue" where
  "trim_events [] n = \<lparr>eq_entries = [], eq_bytes = n\<rparr>"
| "trim_events ((e, k) # es) n =
     (if MAX_EVENTS_PER_CONNECTION < length ((e, k) # es) \<or> MAX_EVENT_BYTES_PER_CONNECTION < n
      then trim_events es (n - k)
      else \<lparr>eq_entries = (e, k) # es, eq_bytes = n\<rparr>)"

definition queue_event :: "codec \<Rightarrow> browser \<Rightarrow> connection_id \<Rightarrow> cdp_event \<Rightarrow> unit cdp_result \<times> browser" where
  "queue_event cd s c ev =
     (if \<not> bm_has (bs_connections s) c
      then (Inl (InvalidArgument ''connection is not open''), s)
      else case enc_event cd ev of
        Inl e \<Rightarrow> (Inl (host_failure (''event serialization failed: '' @ e)), s)
      | Inr bs \<Rightarrow>
         (if MAX_EVENT_BYTES_PER_CONNECTION < length bs
          then (Inl (invalid_argument ''CDP event exceeds the byte limit''), s)
          else
            (let q = (case bm_get (bs_events s) c of Some q \<Rightarrow> q | None \<Rightarrow> queue_default);
                 q' = trim_events (eq_entries q @ [(ev, length bs)])
                        (saturating_add usize_max (eq_bytes q) (length bs))
             in (Inr (), s\<lparr>bs_events := bm_insert c q' (bs_events s)\<rparr>))))"

text \<open>The loop of \<open>drain_events_with_overhead\<close>: \<open>room\<close> items may still be taken, \<open>used\<close> bytes are
  already counted. It returns the drained events and the queue left.\<close>

fun take_events :: "nat \<Rightarrow> nat \<Rightarrow> nat \<Rightarrow> nat \<Rightarrow> (cdp_event \<times> nat) list \<Rightarrow> nat \<Rightarrow> cdp_event list \<times> event_queue" where
  "take_events room used max_bytes overhead [] n = ([], \<lparr>eq_entries = [], eq_bytes = n\<rparr>)"
| "take_events 0 used max_bytes overhead es n = ([], \<lparr>eq_entries = es, eq_bytes = n\<rparr>)"
| "take_events (Suc room) used max_bytes overhead ((e, k) # es) n =
     (let size = (case checked_add usize_max k overhead of Some v \<Rightarrow> v | None \<Rightarrow> usize_max) in
      if max_bytes < size \<or> max_bytes < saturating_add usize_max used size
      then ([], \<lparr>eq_entries = (e, k) # es, eq_bytes = n\<rparr>)
      else (case take_events room (saturating_add usize_max used size) max_bytes overhead es (n - k) of
              (drained, q) \<Rightarrow> (e # drained, q)))"

definition drain_framed_events ::
    "browser \<Rightarrow> connection_id \<Rightarrow> nat \<Rightarrow> nat \<Rightarrow> nat \<Rightarrow> cdp_event list \<times> browser" where
  "drain_framed_events s c max_items max_bytes overhead =
     (case bm_get (bs_events s) c of
        None \<Rightarrow> ([], s)
      | Some q \<Rightarrow>
         (case take_events (min max_items MAX_EVENTS_PER_CONNECTION) 0 max_bytes overhead
                 (eq_entries q) (eq_bytes q) of
            (drained, q') \<Rightarrow>
              (drained,
               s\<lparr>bs_events := (if eq_entries q' = [] then bm_remove c (bs_events s)
                               else bm_insert c q' (bs_events s))\<rparr>)))"

definition drain_events :: "browser \<Rightarrow> connection_id \<Rightarrow> nat \<Rightarrow> nat \<Rightarrow> cdp_event list \<times> browser" where
  "drain_events s c max_items max_bytes = drain_framed_events s c max_items max_bytes 0"

definition discard_session_events :: "browser \<Rightarrow> connection_id \<Rightarrow> string \<Rightarrow> browser" where
  "discard_session_events s c session =
     (case bm_get (bs_events s) c of
        None \<Rightarrow> s
      | Some q \<Rightarrow>
         (let es = filter (\<lambda>(e, _). ev_session_id e \<noteq> Some session) (eq_entries q);
              q' = \<lparr>eq_entries = es, eq_bytes = sum_list (map snd es)\<rparr>
          in s\<lparr>bs_events := (if es = [] then bm_remove c (bs_events s)
                             else bm_insert c q' (bs_events s))\<rparr>))"

section \<open>Response bodies of a page\<close>

definition clear_bodies :: "page_network \<Rightarrow> page_network" where
  "clear_bodies w = w\<lparr>nw_response_bodies := [], nw_body_order := [], nw_body_bytes := 0\<rparr>"

definition remove_body :: "string \<Rightarrow> page_network \<Rightarrow> page_network" where
  "remove_body r w =
     (let w1 = (case bm_get (nw_response_bodies w) r of
                  Some b \<Rightarrow> w\<lparr>nw_response_bodies := bm_remove r (nw_response_bodies w),
                             nw_body_bytes := nw_body_bytes w - length (rb_body b)\<rparr>
                | None \<Rightarrow> w)
      in w1\<lparr>nw_body_order := bm_retain (\<lambda>_ v. v \<noteq> r) (nw_body_order w1)\<rparr>)"

definition evict_oldest_body :: "page_network \<Rightarrow> page_network" where
  "evict_oldest_body w =
     (case nw_body_order w of
        [] \<Rightarrow> w
      | (ord, r) # _ \<Rightarrow>
         (let w1 = w\<lparr>nw_body_order := bm_remove ord (nw_body_order w)\<rparr> in
          case bm_get (nw_response_bodies w1) r of
            Some b \<Rightarrow> w1\<lparr>nw_response_bodies := bm_remove r (nw_response_bodies w1),
                        nw_body_bytes := nw_body_bytes w1 - length (rb_body b)\<rparr>
          | None \<Rightarrow> w1))"

definition body_pressure :: "page_network \<Rightarrow> nat \<Rightarrow> bool" where
  "body_pressure w n \<longleftrightarrow>
     (MAX_NETWORK_RESPONSE_BODIES \<le> length (nw_response_bodies w)
      \<or> MAX_NETWORK_RESPONSE_WIRE_BYTES < saturating_add usize_max (nw_body_bytes w) n)
     \<and> nw_response_bodies w \<noteq> []"

text \<open>
  The eviction loop of \<open>store_response_body\<close>. Each round takes an entry off the order, but the code
  does not stop on an empty order, so the loop is bounded here by the entries of the order: with bodies
  that have no order entry the code would not return, which the invariant excludes.
\<close>

fun evict_bodies :: "nat \<Rightarrow> page_network \<Rightarrow> nat \<Rightarrow> page_network option" where
  "evict_bodies 0 w n = (if body_pressure w n then None else Some w)"
| "evict_bodies (Suc fuel) w n =
     (if body_pressure w n then evict_bodies fuel (evict_oldest_body w) n else Some w)"

end
