(* ===== verification/CdpPages.thy ===== *)
theory CdpPages
  imports CdpState
begin

text \<open>
  \<open>crates/obscura-cdp/src/state.rs\<close>, the operations on one page: history, display metrics, network
  policy and response bodies, paused fetches and their resolutions, and the update after a
  navigation.
\<close>

definition set_page :: "page_id \<Rightarrow> page_state \<Rightarrow> browser \<Rightarrow> browser" where
  "set_page p pg s = s\<lparr>bs_pages := bm_insert p pg (bs_pages s)\<rparr>"

definition set_network :: "page_id \<Rightarrow> page_state \<Rightarrow> page_network \<Rightarrow> browser \<Rightarrow> browser" where
  "set_network p pg w s = set_page p (pg\<lparr>pg_network := w\<rparr>) s"

definition page_of :: "browser \<Rightarrow> page_id \<Rightarrow> page_state cdp_result" where
  "page_of s p = need (UnknownPage p) (bm_get (bs_pages s) p)"

definition reset_navigation_history :: "browser \<Rightarrow> page_id \<Rightarrow> unit cdp_result \<times> browser" where
  "reset_navigation_history s p =
     (if \<not> bm_has (bs_pages s) p then (Inl (UnknownPage p), s)
      else case bm_get (bs_history s) p of
        None \<Rightarrow> (Inr (), s)
      | Some h \<Rightarrow>
         (if hi_current_index h < length (hi_entries h)
          then (Inr (), s\<lparr>bs_history := bm_insert p
                  \<lparr>hi_current_index = 0, hi_entries = [hi_entries h ! hi_current_index h]\<rparr> (bs_history s)\<rparr>)
          else (Inr (), s)))"

section \<open>Display\<close>

definition display_of :: "browser \<Rightarrow> page_id \<Rightarrow> page_display" where
  "display_of s p = (case bm_get (bs_display s) p of Some d \<Rightarrow> d | None \<Rightarrow> display_default)"

definition set_display :: "page_id \<Rightarrow> page_display \<Rightarrow> browser \<Rightarrow> browser" where
  "set_display p d s = s\<lparr>bs_display := bm_insert p d (bs_display s)\<rparr>"

text \<open>Write the display back, dropping it when it is the default.\<close>

definition put_display :: "page_id \<Rightarrow> page_display \<Rightarrow> browser \<Rightarrow> browser" where
  "put_display p d s =
     (if display_is_default d then s\<lparr>bs_display := bm_remove p (bm_insert p d (bs_display s))\<rparr>
      else set_display p d s)"

definition set_device_metrics ::
    "browser \<Rightarrow> page_id \<Rightarrow> nat \<Rightarrow> nat \<Rightarrow> f64 \<Rightarrow> bool \<Rightarrow> unit cdp_result \<times> browser" where
  "set_device_metrics s p width height scale mobile =
     (if width = 0 \<or> height = 0 \<or> MAX_VIEWPORT_DIMENSION < width \<or> MAX_VIEWPORT_DIMENSION < height
         \<or> \<not> f64_is_finite scale
         \<or> \<not> (f64_le (Finite 0) scale \<and> f64_le scale (Finite 8))
      then (Inl (invalid_argument ''device metrics are outside portable limits''), s)
      else if \<not> bm_has (bs_pages s) p then (Inl (UnknownPage p), s)
      else (Inr (), set_display p ((display_of s p)
              \<lparr>dp_width := width, dp_height := height, dp_device_scale_factor := scale, dp_mobile := mobile\<rparr>) s))"

definition clear_device_metrics :: "browser \<Rightarrow> page_id \<Rightarrow> unit cdp_result \<times> browser" where
  "clear_device_metrics s p =
     (if \<not> bm_has (bs_pages s) p then (Inl (UnknownPage p), s)
      else case bm_get (bs_display s) p of
        None \<Rightarrow> (Inr (), s)
      | Some d \<Rightarrow>
          (Inr (), put_display p (d\<lparr>dp_width := DEFAULT_VIEWPORT_WIDTH, dp_height := DEFAULT_VIEWPORT_HEIGHT,
                                    dp_device_scale_factor := Finite 1, dp_mobile := False\<rparr>) s))"

definition set_layout_metrics ::
    "browser \<Rightarrow> page_id \<Rightarrow> f64 \<Rightarrow> f64 \<Rightarrow> f64 \<Rightarrow> f64 \<Rightarrow> unit cdp_result \<times> browser" where
  "set_layout_metrics s p page_x page_y content_width content_height =
     (if \<not> bm_has (bs_pages s) p then (Inl (UnknownPage p), s)
      else if \<not> f64_is_finite page_x \<or> \<not> f64_is_finite page_y
         \<or> \<not> f64_is_finite content_width \<or> \<not> f64_is_finite content_height
         \<or> f64_lt page_x (Finite 0) \<or> f64_lt page_y (Finite 0)
         \<or> f64_le content_width (Finite 0) \<or> f64_le content_height (Finite 0)
      then (Inl (invalid_argument ''layout metrics are outside portable limits''), s)
      else (let d = display_of s p in
        (Inr (), set_display p (d\<lparr>dp_page_x := page_x, dp_page_y := page_y,
                   dp_content_width := f64_max content_width (f64_of_nat (dp_width d)),
                   dp_content_height := f64_max content_height (f64_of_nat (dp_height d))\<rparr>) s)))"

definition set_emulated_media :: "browser \<Rightarrow> page_id \<Rightarrow> string \<Rightarrow> unit cdp_result \<times> browser" where
  "set_emulated_media s p media =
     (if MAX_METHOD_BYTES < length media then (Inl (invalid_argument ''emulated media exceeds the byte limit''), s)
      else if \<not> bm_has (bs_pages s) p then (Inl (UnknownPage p), s)
      else (Inr (), put_display p ((display_of s p)\<lparr>dp_emulated_media := media\<rparr>) s))"

definition set_focus_emulation :: "browser \<Rightarrow> page_id \<Rightarrow> bool \<Rightarrow> unit cdp_result \<times> browser" where
  "set_focus_emulation s p enabled =
     (if \<not> bm_has (bs_pages s) p then (Inl (UnknownPage p), s)
      else (Inr (), put_display p ((display_of s p)\<lparr>dp_focus_emulation := enabled\<rparr>) s))"

section \<open>Network policy\<close>

definition network_enable :: "browser \<Rightarrow> page_id \<Rightarrow> session_id \<Rightarrow> unit cdp_result \<times> browser" where
  "network_enable s p session =
     attempt (page_of s p) s (\<lambda>pg.
       (let w = pg_network pg in
        if MAX_SESSIONS \<le> length (nw_enabled_sessions w) \<and> \<not> bm_has (nw_enabled_sessions w) session
        then (Inl ActionQueueFull, s)
        else (Inr (), set_network p pg
                (w\<lparr>nw_enabled_sessions := bm_insert session () (nw_enabled_sessions w)\<rparr>) s)))"

definition network_disable :: "browser \<Rightarrow> page_id \<Rightarrow> session_id option \<Rightarrow> unit cdp_result \<times> browser" where
  "network_disable s p session =
     attempt (page_of s p) s (\<lambda>pg.
       (let w = pg_network pg;
            w1 = (case session of Some i \<Rightarrow> w\<lparr>nw_enabled_sessions := bm_remove i (nw_enabled_sessions w)\<rparr>
                  | None \<Rightarrow> w\<lparr>nw_enabled_sessions := []\<rparr>)
        in (Inr (), set_network p pg (clear_bodies w1) s)))"

definition set_cache_disabled :: "browser \<Rightarrow> page_id \<Rightarrow> bool \<Rightarrow> unit cdp_result \<times> browser" where
  "set_cache_disabled s p disabled =
     attempt (page_of s p) s (\<lambda>pg.
       (Inr (), set_network p pg ((pg_network pg)\<lparr>nw_cache_disabled := disabled\<rparr>) s))"

definition cache_disabled :: "browser \<Rightarrow> page_id \<Rightarrow> bool cdp_result" where
  "cache_disabled s p = and_then (page_of s p) (\<lambda>pg. Inr (nw_cache_disabled (pg_network pg)))"

definition set_extra_headers :: "browser \<Rightarrow> page_id \<Rightarrow> (string, string) bmap \<Rightarrow> unit cdp_result \<times> browser" where
  "set_extra_headers s p headers =
     (if MAX_NETWORK_HEADERS < length headers
      then (Inl (invalid_argument ''Network headers exceed the entry limit''), s)
      else if MAX_NETWORK_HEADER_BYTES
           < sum_list (map (\<lambda>(name, val). saturating_add usize_max (length name) (length val)) headers)
      then (Inl (invalid_argument ''Network headers exceed the byte limit''), s)
      else if list_ex (\<lambda>name. name = [] \<or> MAX_METHOD_BYTES < length name) (bm_keys headers)
           \<or> list_ex (\<lambda>val. MAX_NETWORK_HEADER_BYTES < length val) (bm_values headers)
      then (Inl (invalid_argument ''Network header name or value is invalid''), s)
      else attempt (page_of s p) s (\<lambda>pg.
        (Inr (), set_network p pg ((pg_network pg)\<lparr>nw_extra_headers := headers\<rparr>) s)))"

definition extra_headers :: "browser \<Rightarrow> page_id \<Rightarrow> (string, string) bmap cdp_result" where
  "extra_headers s p = and_then (page_of s p) (\<lambda>pg. Inr (nw_extra_headers (pg_network pg)))"

text \<open>The value is \<open>None\<close> when the eviction loop does not end.\<close>

definition store_response_body ::
    "browser \<Rightarrow> page_id \<Rightarrow> string \<Rightarrow> string \<Rightarrow> bool \<Rightarrow> (unit cdp_result \<times> browser) option" where
  "store_response_body s p r body base64 =
     (if r = [] \<or> MAX_NETWORK_REQUEST_ID_BYTES < length r
      then Some (Inl (invalid_argument ''Network requestId is invalid''), s)
      else if MAX_NETWORK_RESPONSE_WIRE_BYTES < length body
      then Some (Inl (invalid_argument ''Network response body exceeds the byte limit''), s)
      else case bm_get (bs_pages s) p of
        None \<Rightarrow> Some (Inl (UnknownPage p), s)
      | Some pg \<Rightarrow>
         (let w = remove_body r (pg_network pg) in
          case evict_bodies (length (nw_body_order w)) w (length body) of
            None \<Rightarrow> None
          | Some w1 \<Rightarrow>
             (let ord = nw_next_order w1 in
              case checked_add u64_max ord 1 of
                None \<Rightarrow> Some (Inl IdExhausted, set_network p pg w1 s)
              | Some nxt \<Rightarrow>
                  Some (Inr (), set_network p pg
                    (w1\<lparr>nw_next_order := nxt,
                        nw_body_order := bm_insert ord r (nw_body_order w1),
                        nw_body_bytes := saturating_add usize_max (nw_body_bytes w1) (length body),
                        nw_response_bodies := bm_insert r \<lparr>rb_body = body, rb_base64 = base64\<rparr>
                          (nw_response_bodies w1)\<rparr>) s))))"

definition get_response_body :: "browser \<Rightarrow> page_id \<Rightarrow> string \<Rightarrow> response_body cdp_result" where
  "get_response_body s p r =
     need (UnknownPage p)
       (Option.bind (bm_get (bs_pages s) p) (\<lambda>pg. bm_get (nw_response_bodies (pg_network pg)) r))"

definition clear_response_bodies :: "browser \<Rightarrow> page_id \<Rightarrow> unit cdp_result \<times> browser" where
  "clear_response_bodies s p =
     attempt (page_of s p) s (\<lambda>pg. (Inr (), set_network p pg (clear_bodies (pg_network pg)) s))"

section \<open>Fetch interception\<close>

definition set_fetch_patterns ::
    "browser \<Rightarrow> page_id \<Rightarrow> session_id \<Rightarrow> fetch_pattern list \<Rightarrow> unit cdp_result \<times> browser" where
  "set_fetch_patterns s p session patterns =
     (if patterns = [] \<or> MAX_FETCH_PATTERNS < length patterns
      then (Inl (invalid_argument ''Fetch patterns exceed the item limit''), s)
      else if list_ex (\<lambda>f. MAX_FETCH_PATTERN_BYTES < length (fp_url_pattern f)
                \<or> \<not> (fp_request_stage f = ''Request'' \<or> fp_request_stage f = ''Response'')) patterns
      then (Inl (invalid_argument ''Fetch pattern is invalid''), s)
      else attempt (page_of s p) s (\<lambda>pg.
        (Inr (), set_network p pg ((pg_network pg)
           \<lparr>nw_fetch_patterns := bm_insert session patterns (nw_fetch_patterns (pg_network pg))\<rparr>) s)))"

definition fetch_patterns :: "browser \<Rightarrow> page_id \<Rightarrow> session_id \<Rightarrow> fetch_pattern list option" where
  "fetch_patterns s p session =
     Option.bind (bm_get (bs_pages s) p) (\<lambda>pg. bm_get (nw_fetch_patterns (pg_network pg)) session)"

definition register_paused_request :: "browser \<Rightarrow> page_id \<Rightarrow> string \<Rightarrow> unit cdp_result \<times> browser" where
  "register_paused_request s p r =
     (if r = [] \<or> MAX_NETWORK_REQUEST_ID_BYTES < length r
      then (Inl (invalid_argument ''Fetch requestId is invalid''), s)
      else attempt (page_of s p) s (\<lambda>pg.
        (let w = pg_network pg in
         if MAX_FETCH_REQUESTS \<le> length (nw_paused_requests w) \<and> \<not> bm_has (nw_paused_requests w) r
         then (Inl ActionQueueFull, s)
         else (Inr (), set_network p pg (w\<lparr>nw_paused_requests := bm_insert r () (nw_paused_requests w)\<rparr>) s))))"

definition cancel_paused_request :: "browser \<Rightarrow> page_id \<Rightarrow> string \<Rightarrow> unit cdp_result \<times> browser" where
  "cancel_paused_request s p r =
     attempt (page_of s p) s (\<lambda>pg.
       (Inr (), set_network p pg ((pg_network pg)
          \<lparr>nw_paused_requests := bm_remove r (nw_paused_requests (pg_network pg))\<rparr>) s))"

definition queue_fetch_resolution :: "browser \<Rightarrow> page_id \<Rightarrow> string \<Rightarrow> json \<Rightarrow> bool cdp_result \<times> browser" where
  "queue_fetch_resolution s p r resolution =
     attempt (page_of s p) s (\<lambda>pg.
       (let w = pg_network pg; was_paused = bm_has (nw_paused_requests w) r;
            pg1 = pg\<lparr>pg_network := w\<lparr>nw_paused_requests := bm_remove r (nw_paused_requests w)\<rparr>\<rparr>;
            s1 = set_page p pg1 s
        in if \<not> was_paused then (Inr False, s1)
           else
             (let queue = (case bm_get (bs_fetch_resolutions s1) p of Some q \<Rightarrow> q | None \<Rightarrow> []) in
              if MAX_FETCH_RESOLUTIONS \<le> length queue
              then (Inl ActionQueueFull,
                    set_network p pg1 ((pg_network pg1)
                       \<lparr>nw_paused_requests := bm_insert r () (nw_paused_requests (pg_network pg1))\<rparr>)
                     (s1\<lparr>bs_fetch_resolutions := bm_insert p queue (bs_fetch_resolutions s1)\<rparr>))
              else (Inr True, s1\<lparr>bs_fetch_resolutions := bm_insert p (queue @ [resolution]) (bs_fetch_resolutions s1)\<rparr>))))"

definition continue_resolution :: "string \<Rightarrow> json" where
  "continue_resolution r = JObj [(''action'', JStr ''continue''), (''requestId'', JStr r)]"

text \<open>The loop of \<open>clear_fetch_patterns\<close> over the paused requests; it stops at the first failure.\<close>

fun continue_all :: "browser \<Rightarrow> page_id \<Rightarrow> string list \<Rightarrow> unit cdp_result \<times> browser" where
  "continue_all s p [] = (Inr (), s)"
| "continue_all s p (r # rs) =
     (case queue_fetch_resolution s p r (continue_resolution r) of
        (Inl e, s') \<Rightarrow> (Inl e, s')
      | (Inr _, s') \<Rightarrow> continue_all s' p rs)"

definition clear_fetch_patterns :: "browser \<Rightarrow> page_id \<Rightarrow> session_id \<Rightarrow> unit cdp_result \<times> browser" where
  "clear_fetch_patterns s p session =
     attempt (page_of s p) s (\<lambda>pg.
       (let w = pg_network pg; patterns = bm_remove session (nw_fetch_patterns w);
            s1 = set_network p pg (w\<lparr>nw_fetch_patterns := patterns\<rparr>) s
        in if patterns \<noteq> [] then (Inr (), s1)
           else continue_all s1 p (bm_keys (nw_paused_requests w))))"

definition drain_fetch_resolutions :: "browser \<Rightarrow> page_id \<Rightarrow> nat \<Rightarrow> json list \<times> browser" where
  "drain_fetch_resolutions s p max_items =
     (case bm_get (bs_fetch_resolutions s) p of
        None \<Rightarrow> ([], s)
      | Some q \<Rightarrow>
         (let count = min max_items (length q); rest = drop count q in
          (take count q,
           s\<lparr>bs_fetch_resolutions := (if rest = [] then bm_remove p (bs_fetch_resolutions s)
                                      else bm_insert p rest (bs_fetch_resolutions s))\<rparr>)))"

definition fetch_resolution_count :: "browser \<Rightarrow> nat" where
  "fetch_resolution_count s = sum_list (map length (bm_values (bs_fetch_resolutions s)))"

section \<open>The update after a navigation\<close>

definition page_update ::
    "page_state \<Rightarrow> string option \<Rightarrow> string option \<Rightarrow> string option \<Rightarrow> nat option \<Rightarrow> page_state" where
  "page_update pg url title loader_id generation =
     pg\<lparr>pg_url := (case url of Some u \<Rightarrow> u | None \<Rightarrow> pg_url pg),
        pg_title := (case title of Some t \<Rightarrow> t | None \<Rightarrow> pg_title pg),
        pg_loader_id := (case loader_id of Some l \<Rightarrow> l | None \<Rightarrow> pg_loader_id pg),
        pg_document_generation := (case generation of Some g \<Rightarrow> g | None \<Rightarrow> pg_document_generation pg)\<rparr>"

definition typed_entry :: "nat \<Rightarrow> string \<Rightarrow> string \<Rightarrow> history_entry" where
  "typed_entry i url title =
     \<lparr>he_id = i, he_url = url, he_user_typed_url = url, he_title = title, he_transition_type = ''typed''\<rparr>"

definition truncated :: "page_history \<Rightarrow> history_entry list" where
  "truncated h = take (saturating_add usize_max (hi_current_index h) 1) (hi_entries h)"

text \<open>A new entry after the current one: the identifier is one past the largest kept.\<close>

definition push_history :: "page_history \<Rightarrow> string \<Rightarrow> string \<Rightarrow> page_history cdp_result" where
  "push_history h url title =
     (let kept = truncated h in
      case checked_add u64_max (foldr max (map he_id kept) 0) 1 of
        None \<Rightarrow> Inl IdExhausted
      | Some i \<Rightarrow>
         (let entries = kept @ [typed_entry i url title]; index = length entries - 1 in
          if MAX_HISTORY_ENTRIES < length entries
          then Inr \<lparr>hi_current_index = index - 1, hi_entries = tl entries\<rparr>
          else Inr \<lparr>hi_current_index = index, hi_entries = entries\<rparr>))"

definition retitle :: "page_history \<Rightarrow> string option \<Rightarrow> page_history" where
  "retitle h title =
     (case title of
        Some t \<Rightarrow>
         (if hi_current_index h < length (hi_entries h)
          then h\<lparr>hi_entries := (hi_entries h)[hi_current_index h :=
                   (hi_entries h ! hi_current_index h)\<lparr>he_title := t\<rparr>]\<rparr>
          else h)
      | None \<Rightarrow> h)"

definition update_page ::
    "browser \<Rightarrow> page_id \<Rightarrow> string option \<Rightarrow> string option \<Rightarrow> string option \<Rightarrow> nat option
     \<Rightarrow> unit cdp_result \<times> browser" where
  "update_page s p url title loader_id generation =
     attempt (case url of Some u \<Rightarrow> validate_url u | None \<Rightarrow> Inr ()) s (\<lambda>_.
       attempt (page_of s p) s (\<lambda>pg.
         (let previous_url = pg_url pg;
              pg1 = page_update pg url title loader_id generation;
              s1 = set_page p pg1 s
          in case bm_get (bs_history s) p of
            Some h \<Rightarrow>
              (case url of
                 Some u \<Rightarrow>
                  (if u \<noteq> previous_url
                   then (case push_history h u (pg_title pg1) of
                      Inl e \<Rightarrow>
                        (Inl e, s1\<lparr>bs_history := bm_insert p (h\<lparr>hi_entries := truncated h\<rparr>) (bs_history s1)\<rparr>)
                    | Inr h1 \<Rightarrow> (Inr (), s1\<lparr>bs_history := bm_insert p (retitle h1 title) (bs_history s1)\<rparr>))
                   else (Inr (), s1\<lparr>bs_history := bm_insert p (retitle h title) (bs_history s1)\<rparr>))
               | None \<Rightarrow> (Inr (), s1\<lparr>bs_history := bm_insert p (retitle h title) (bs_history s1)\<rparr>))
          | None \<Rightarrow>
              (case url of
                 Some u \<Rightarrow>
                  (if u \<noteq> previous_url
                   then (Inr (), s1\<lparr>bs_history := bm_insert p
                          \<lparr>hi_current_index = 1,
                           hi_entries = [typed_entry 1 previous_url (pg_title pg),
                                         typed_entry 2 (pg_url pg1) (pg_title pg1)]\<rparr> (bs_history s1)\<rparr>)
                   else (Inr (), s1))
               | None \<Rightarrow> (Inr (), s1)))))"

section \<open>The network state's invariant\<close>

definition body_size :: "response_body \<Rightarrow> nat" where
  "body_size b = length (rb_body b)"

definition bodies_ok :: "page_network \<Rightarrow> bool" where
  "bodies_ok w \<longleftrightarrow>
     bm_ok (nw_response_bodies w) \<and> bm_ok (nw_body_order w)
     \<and> (\<forall>n r. bm_get (nw_body_order w) n = Some r \<longrightarrow> n < nw_next_order w \<and> bm_has (nw_response_bodies w) r)
     \<and> (\<forall>r. bm_has (nw_response_bodies w) r \<longrightarrow> (\<exists>n. bm_get (nw_body_order w) n = Some r))
     \<and> (\<forall>n n' r. bm_get (nw_body_order w) n = Some r \<longrightarrow> bm_get (nw_body_order w) n' = Some r \<longrightarrow> n = n')
     \<and> nw_body_bytes w = bm_sum body_size (nw_response_bodies w)
     \<and> length (nw_response_bodies w) \<le> MAX_NETWORK_RESPONSE_BODIES
     \<and> nw_body_bytes w \<le> MAX_NETWORK_RESPONSE_WIRE_BYTES
     \<and> nw_next_order w \<le> u64_max"

text \<open>The headers and patterns that the checks of \<open>set_extra_headers\<close> and \<open>set_fetch_patterns\<close> let pass.\<close>

definition headers_ok :: "(string, string) bmap \<Rightarrow> bool" where
  "headers_ok hs \<longleftrightarrow>
     length hs \<le> MAX_NETWORK_HEADERS
     \<and> sum_list (map (\<lambda>(name, val). length name + length val) hs) \<le> MAX_NETWORK_HEADER_BYTES
     \<and> (\<forall>(name, val) \<in> set hs. name \<noteq> [] \<and> length name \<le> MAX_METHOD_BYTES)"

definition patterns_ok :: "fetch_pattern list \<Rightarrow> bool" where
  "patterns_ok ps \<longleftrightarrow>
     ps \<noteq> [] \<and> length ps \<le> MAX_FETCH_PATTERNS
     \<and> (\<forall>f \<in> set ps. length (fp_url_pattern f) \<le> MAX_FETCH_PATTERN_BYTES
          \<and> fp_request_stage f \<in> {''Request'', ''Response''})"

definition network_ok :: "page_network \<Rightarrow> bool" where
  "network_ok w \<longleftrightarrow>
     bodies_ok w \<and> bm_ok (nw_enabled_sessions w) \<and> bm_ok (nw_fetch_patterns w)
     \<and> bm_ok (nw_paused_requests w)
     \<and> length (nw_enabled_sessions w) \<le> MAX_SESSIONS
     \<and> length (nw_paused_requests w) \<le> MAX_FETCH_REQUESTS
     \<and> headers_ok (nw_extra_headers w)
     \<and> (\<forall>i ps. bm_get (nw_fetch_patterns w) i = Some ps \<longrightarrow> patterns_ok ps)"

lemma bodies_ok_order: "bodies_ok w \<Longrightarrow> bm_get (nw_body_order w) n = Some r \<Longrightarrow> bm_has (nw_response_bodies w) r"
  by (simp add: bodies_ok_def)

lemma bodies_ok_ordered: "bodies_ok w \<Longrightarrow> bm_has (nw_response_bodies w) r \<Longrightarrow> \<exists>n. bm_get (nw_body_order w) n = Some r"
  by (simp add: bodies_ok_def)

lemma bodies_ok_cong:
  "nw_response_bodies w' = nw_response_bodies w \<Longrightarrow> nw_body_order w' = nw_body_order w \<Longrightarrow>
   nw_body_bytes w' = nw_body_bytes w \<Longrightarrow> nw_next_order w' = nw_next_order w \<Longrightarrow>
   bodies_ok w' = bodies_ok w"
  by (simp add: bodies_ok_def)

lemma network_default_ok: "network_ok network_default"
  by (simp add: network_ok_def bodies_ok_def network_default_def bm_has_def headers_ok_def)

lemma clear_bodies_ok: "bodies_ok w \<Longrightarrow> bodies_ok (clear_bodies w)"
  by (simp add: bodies_ok_def clear_bodies_def bm_has_def)

text \<open>Dropping one body with its order entry.\<close>

definition drop_body :: "string \<Rightarrow> page_network \<Rightarrow> page_network" where
  "drop_body r w =
     w\<lparr>nw_response_bodies := bm_remove r (nw_response_bodies w),
       nw_body_order := bm_retain (\<lambda>_ v. v \<noteq> r) (nw_body_order w),
       nw_body_bytes := bm_sum body_size (bm_remove r (nw_response_bodies w))\<rparr>"

lemma order_without:
  assumes "bodies_ok w"
  shows "bm_get (bm_retain (\<lambda>_ v. v \<noteq> r) (nw_body_order w)) n = Some r' \<longleftrightarrow>
    bm_get (nw_body_order w) n = Some r' \<and> r' \<noteq> r"
  using assms by (auto simp: bodies_ok_def bm_get_retain split: option.splits)

lemma drop_body_ok: "bodies_ok w \<Longrightarrow> bodies_ok (drop_body r w)"
proof -
  assume ok: "bodies_ok w"
  then have m: "bm_ok (nw_response_bodies w)" "bm_ok (nw_body_order w)" by (simp_all add: bodies_ok_def)
  note ord = order_without [OF ok, of r]
  show ?thesis
    unfolding bodies_ok_def drop_body_def
  proof (simp add: m, intro conjI allI impI)
    show "n < nw_next_order w" if "bm_get (bm_retain (\<lambda>_ v. v \<noteq> r) (nw_body_order w)) n = Some r'" for n r'
      using that ok unfolding ord by (auto simp: bodies_ok_def)
    show "bm_has (bm_remove r (nw_response_bodies w)) r'"
      if "bm_get (bm_retain (\<lambda>_ v. v \<noteq> r) (nw_body_order w)) n = Some r'" for n r'
      using that ok unfolding ord by (auto simp: bodies_ok_def bm_has_remove)
    show "\<exists>n. bm_get (bm_retain (\<lambda>_ v. v \<noteq> r) (nw_body_order w)) n = Some r'"
      if "bm_has (bm_remove r (nw_response_bodies w)) r'" for r'
      using that ok unfolding ord by (auto simp: bodies_ok_def bm_has_remove)
    show "n = n'" if "bm_get (bm_retain (\<lambda>_ v. v \<noteq> r) (nw_body_order w)) n = Some r'"
        "bm_get (bm_retain (\<lambda>_ v. v \<noteq> r) (nw_body_order w)) n' = Some r'" for n n' r'
      using that ok unfolding ord by (auto simp: bodies_ok_def)
    show "length (bm_remove r (nw_response_bodies w)) \<le> MAX_NETWORK_RESPONSE_BODIES"
      using ok bm_length_remove [of r "nw_response_bodies w"] by (simp add: bodies_ok_def)
    show "bm_sum body_size (bm_remove r (nw_response_bodies w)) \<le> MAX_NETWORK_RESPONSE_WIRE_BYTES"
      using ok bm_sum_remove_le [OF m(1), of body_size r] by (simp add: bodies_ok_def)
    show "nw_next_order w \<le> u64_max" using ok by (simp add: bodies_ok_def)
  qed
qed

lemma bytes_without:
  assumes "bodies_ok w" and "bm_get (nw_response_bodies w) r = Some b"
  shows "nw_body_bytes w - length (rb_body b) = bm_sum body_size (bm_remove r (nw_response_bodies w))"
  using assms bm_sum_remove [of "nw_response_bodies w" r b body_size]
  by (simp add: bodies_ok_def body_size_def)

lemma remove_body_drop: "bodies_ok w \<Longrightarrow> remove_body r w = drop_body r w"
proof -
  assume ok: "bodies_ok w"
  show ?thesis
  proof (cases "bm_get (nw_response_bodies w) r")
    case None
    with ok show ?thesis
      by (simp add: remove_body_def drop_body_def bm_remove_absent bodies_ok_def)
  next
    case (Some b)
    with bytes_without [OF ok Some] show ?thesis by (simp add: remove_body_def drop_body_def)
  qed
qed

lemma evict_oldest_drop:
  assumes ok: "bodies_ok w" and ord: "nw_body_order w = (n, r) # rest"
  shows "evict_oldest_body w = drop_body r w"
    and "nw_body_order (drop_body r w) = rest"
proof -
  have get: "bm_get (nw_body_order w) n = Some r" by (simp add: ord bm_get_def)
  with bodies_ok_order [OF ok] obtain b where b: "bm_get (nw_response_bodies w) r = Some b"
    by (auto simp: bm_has_def)
  have other: "j \<noteq> n \<and> v \<noteq> r" if "(j, v) \<in> set rest" for j v
  proof -
    have m: "bm_ok (nw_body_order w)" using ok by (simp add: bodies_ok_def)
    have "j \<noteq> n" using that m unfolding ord by (force simp: bm_ok_def)
    moreover have "bm_get (nw_body_order w) j = Some v" using that m by (simp add: bm_get_iff ord)
    ultimately show ?thesis using get ok by (auto simp: bodies_ok_def)
  qed
  have 1: "bm_retain (\<lambda>_ v. v \<noteq> r) (nw_body_order w) = rest"
    unfolding ord bm_retain_def using other by (auto intro!: filter_True)
  have 2: "bm_remove n (nw_body_order w) = rest"
    unfolding ord bm_remove_def bm_retain_def using other by (auto intro!: filter_True)
  show "nw_body_order (drop_body r w) = rest" by (simp add: drop_body_def 1)
  show "evict_oldest_body w = drop_body r w"
    using b bytes_without [OF ok b] 1 2
    by (simp add: evict_oldest_body_def drop_body_def ord)
qed

lemma no_order_no_bodies: "bodies_ok w \<Longrightarrow> nw_body_order w = [] \<Longrightarrow> nw_response_bodies w = []"
  using bodies_ok_ordered [of w "fst (hd (nw_response_bodies w))"]
  by (cases "nw_response_bodies w") (auto simp: bm_has_def bm_get_def)

text \<open>The eviction loop ends, in a state with room for the body.\<close>

lemma evict_bodies_ends:
  assumes "bodies_ok w"
  shows "\<exists>w'. evict_bodies (length (nw_body_order w)) w n = Some w' \<and> bodies_ok w' \<and> \<not> body_pressure w' n
    \<and> nw_next_order w' = nw_next_order w
    \<and> nw_enabled_sessions w' = nw_enabled_sessions w \<and> nw_fetch_patterns w' = nw_fetch_patterns w
    \<and> nw_paused_requests w' = nw_paused_requests w \<and> nw_extra_headers w' = nw_extra_headers w
    \<and> (\<forall>r. bm_has (nw_response_bodies w') r \<longrightarrow> bm_get (nw_response_bodies w') r = bm_get (nw_response_bodies w) r)"
  using assms
proof (induction "length (nw_body_order w)" arbitrary: w)
  case 0
  then have "nw_response_bodies w = []" by (simp add: no_order_no_bodies)
  with 0 show ?case by (auto simp: body_pressure_def)
next
  case (Suc k)
  obtain m r rest where ord: "nw_body_order w = (m, r) # rest"
    using Suc(2) by (cases "nw_body_order w") auto
  show ?case
  proof (cases "body_pressure w n")
    case False
    then show ?thesis using Suc.prems by (auto simp: ord)
  next
    case True
    let ?w = "drop_body r w"
    have ok: "bodies_ok ?w" by (rule drop_body_ok [OF Suc.prems])
    note e = evict_oldest_drop [OF Suc.prems ord]
    have len: "k = length (nw_body_order ?w)" using Suc(2) e(2) by (simp add: ord)
    have "evict_bodies (length (nw_body_order w)) w n = evict_bodies (length (nw_body_order ?w)) ?w n"
      using True e by (simp add: ord)
    then obtain w' where w': "evict_bodies (length (nw_body_order w)) w n = Some w'" "bodies_ok w'"
        "\<not> body_pressure w' n" "nw_next_order w' = nw_next_order ?w"
        "nw_enabled_sessions w' = nw_enabled_sessions ?w" "nw_fetch_patterns w' = nw_fetch_patterns ?w"
        "nw_paused_requests w' = nw_paused_requests ?w \<and> nw_extra_headers w' = nw_extra_headers ?w"
        "\<forall>r. bm_has (nw_response_bodies w') r \<longrightarrow> bm_get (nw_response_bodies w') r = bm_get (nw_response_bodies ?w) r"
      using Suc(1) [OF len ok] by auto
    have "bm_get (nw_response_bodies w') q = bm_get (nw_response_bodies w) q"
      if "bm_has (nw_response_bodies w') q" for q
    proof -
      have "bm_get (nw_response_bodies w') q = bm_get (bm_remove r (nw_response_bodies w)) q"
        using w'(8) that by (simp add: drop_body_def)
      with that show ?thesis by (auto simp: bm_has_def bm_get_remove split: if_splits)
    qed
    with w' show ?thesis by (simp add: drop_body_def)
  qed
qed

section \<open>Steps local to the pages\<close>

definition history_ok :: "page_history \<Rightarrow> bool" where
  "history_ok h \<longleftrightarrow>
     hi_current_index h < length (hi_entries h) \<and> length (hi_entries h) \<le> MAX_HISTORY_ENTRIES
     \<and> sorted_wrt (<) (map he_id (hi_entries h))"

definition content_ok :: "browser \<Rightarrow> bool" where
  "content_ok s \<longleftrightarrow>
     bm_ok (bs_pages s) \<and> bm_ok (bs_display s) \<and> bm_ok (bs_fetch_resolutions s) \<and> bm_ok (bs_history s)
     \<and> (\<forall>p pg. bm_get (bs_pages s) p = Some pg \<longrightarrow> network_ok (pg_network pg))
     \<and> (\<forall>p h. bm_get (bs_history s) p = Some h \<longrightarrow> history_ok h)
     \<and> (\<forall>p q. bm_get (bs_fetch_resolutions s) p = Some q \<longrightarrow> q \<noteq> [] \<and> length q \<le> MAX_FETCH_RESOLUTIONS)"

text \<open>The step touches nothing but page contents: the pages keep their keys, identities and contexts,
  and the side tables gain entries for pages only.\<close>

definition identity_of :: "browser \<Rightarrow> page_id \<Rightarrow> (page_id \<times> context_id) option" where
  "identity_of s p = map_option (\<lambda>pg. (pg_id pg, pg_context_id pg)) (bm_get (bs_pages s) p)"

definition page_free :: "browser \<Rightarrow> browser" where
  "page_free s = s\<lparr>bs_pages := [], bs_display := [], bs_fetch_resolutions := [], bs_history := []\<rparr>"

lemma page_free_fields:
  assumes "page_free s' = page_free s"
  shows "bs_contexts s' = bs_contexts s" "bs_cookies s' = bs_cookies s"
    "bs_connections s' = bs_connections s" "bs_sessions s' = bs_sessions s"
    "bs_session_connections s' = bs_session_connections s" "bs_events s' = bs_events s"
    "bs_actions s' = bs_actions s" "bs_ready s' = bs_ready s" "bs_next_context s' = bs_next_context s"
    "bs_next_page s' = bs_next_page s" "bs_next_connection s' = bs_next_connection s"
    "bs_next_session s' = bs_next_session s" "bs_next_action s' = bs_next_action s"
    "bs_generation s' = bs_generation s" "bs_closed s' = bs_closed s"
  using assms by (cases s; cases s'; simp add: page_free_def)+

definition page_local :: "browser \<Rightarrow> browser \<Rightarrow> bool" where
  "page_local s s' \<longleftrightarrow>
     page_free s' = page_free s
     \<and> bm_keys (bs_pages s') = bm_keys (bs_pages s)
     \<and> identity_of s' = identity_of s
     \<and> (\<forall>p. bm_has (bs_display s') p \<longrightarrow> bm_has (bs_display s) p \<or> bm_has (bs_pages s) p)
     \<and> (\<forall>p. bm_has (bs_fetch_resolutions s') p \<longrightarrow> bm_has (bs_fetch_resolutions s) p \<or> bm_has (bs_pages s) p)
     \<and> (\<forall>p. bm_has (bs_history s') p \<longrightarrow> bm_has (bs_history s) p \<or> bm_has (bs_pages s) p)"

definition local_step :: "browser \<Rightarrow> browser \<Rightarrow> bool" where
  "local_step s s' \<longleftrightarrow> (content_ok s \<longrightarrow> page_local s s' \<and> content_ok s')"

lemma page_local_refl [simp]: "page_local s s"
  by (simp add: page_local_def)

lemma local_refl [simp, intro]: "local_step s s"
  by (simp add: local_step_def)

lemma page_local_has: "page_local s s' \<Longrightarrow> bm_has (bs_pages s') p = bm_has (bs_pages s) p"
  by (simp add: page_local_def bm_has_keys)

lemma page_local_trans:
  assumes "page_local s t" and "page_local t u"
  shows "page_local s u"
  using assms page_local_has [OF assms(1)] unfolding page_local_def by metis

lemma local_trans: "local_step s t \<Longrightarrow> local_step t u \<Longrightarrow> local_step s u"
  unfolding local_step_def using page_local_trans by blast

lemma local_set_page:
  assumes "bm_get (bs_pages s) p = Some pg" and "pg_id pg' = pg_id pg" and "pg_context_id pg' = pg_context_id pg"
    and "network_ok (pg_network pg) \<Longrightarrow> network_ok (pg_network pg')"
  shows "local_step s (set_page p pg' s)"
  unfolding local_step_def
proof
  assume ok: "content_ok s"
  have "bm_keys (bm_insert p pg' (bs_pages s)) = bm_keys (bs_pages s)"
    using ok assms(1) by (intro bm_keys_insert) (auto simp: content_ok_def bm_has_def)
  moreover have "identity_of (set_page p pg' s) = identity_of s"
    using assms(1-3) by (auto simp: identity_of_def set_page_def bm_get_insert fun_eq_iff)
  moreover have "network_ok (pg_network pg')" using ok assms(1,4) by (auto simp: content_ok_def)
  ultimately show "page_local s (set_page p pg' s) \<and> content_ok (set_page p pg' s)"
    using ok by (auto simp: page_local_def page_free_def content_ok_def set_page_def bm_get_insert)
qed

lemma local_set_network:
  assumes "bm_get (bs_pages s) p = Some pg" and "network_ok (pg_network pg) \<Longrightarrow> network_ok w"
  shows "local_step s (set_network p pg w s)"
  unfolding set_network_def using assms by (intro local_set_page [OF assms(1)]) auto

lemma local_set_display:
  assumes "bm_has (bs_pages s) p"
  shows "local_step s (set_display p d s)" and "local_step s (put_display p d s)"
  using assms
  by (auto simp: local_step_def page_local_def page_free_def content_ok_def set_display_def put_display_def
      identity_of_def bm_has_insert bm_has_remove)

lemma local_set_history:
  assumes "bm_has (bs_pages s) p" and "history_ok h"
  shows "local_step s (s\<lparr>bs_history := bm_insert p h (bs_history s)\<rparr>)"
  using assms
  by (auto simp: local_step_def page_local_def page_free_def content_ok_def identity_of_def bm_has_insert bm_get_insert)

lemma local_set_fetch:
  assumes "bm_has (bs_pages s) p" and "q \<noteq> []" and "length q \<le> MAX_FETCH_RESOLUTIONS"
  shows "local_step s (s\<lparr>bs_fetch_resolutions := bm_insert p q (bs_fetch_resolutions s)\<rparr>)"
  using assms
  by (auto simp: local_step_def page_local_def page_free_def content_ok_def identity_of_def bm_has_insert bm_get_insert)

lemma page_of_Inr [simp]: "page_of s p = Inr pg \<longleftrightarrow> bm_get (bs_pages s) p = Some pg"
  by (simp add: page_of_def need_def split: option.split)

lemma attempt_page_local:
  assumes "\<And>pg. bm_get (bs_pages s) p = Some pg \<Longrightarrow> local_step s (snd (f pg))"
  shows "local_step s (snd (attempt (page_of s p) s f))"
  using assms by (auto simp: attempt_def split: sum.split)

lemma network_ok_bodies: "network_ok w \<Longrightarrow> bodies_ok w"
  by (simp add: network_ok_def)

lemmas network_oks = network_ok_def bodies_ok_def clear_bodies_def

lemma display_steps_local:
  "local_step s (snd (set_device_metrics s p width height scale mobile))"
  "local_step s (snd (clear_device_metrics s p))"
  "local_step s (snd (set_layout_metrics s p x y cw ch))"
  "local_step s (snd (set_emulated_media s p media))"
  "local_step s (snd (set_focus_emulation s p enabled))"
  by (auto simp: set_device_metrics_def clear_device_metrics_def set_layout_metrics_def
      set_emulated_media_def set_focus_emulation_def Let_def local_set_display split: option.split)

lemma reset_history_local: "local_step s (snd (reset_navigation_history s p))"
  by (auto simp: reset_navigation_history_def history_ok_def MAX_HISTORY_ENTRIES_def
      intro!: local_set_history split: option.split)

lemma network_ok_update:
  assumes "network_ok w"
  shows "network_ok (w\<lparr>nw_cache_disabled := b\<rparr>)"
    and "headers_ok headers \<Longrightarrow> network_ok (w\<lparr>nw_extra_headers := headers\<rparr>)"
    and "patterns_ok patterns \<Longrightarrow> network_ok (w\<lparr>nw_fetch_patterns := bm_insert i patterns (nw_fetch_patterns w)\<rparr>)"
    and "network_ok (w\<lparr>nw_fetch_patterns := bm_remove i (nw_fetch_patterns w)\<rparr>)"
    and "network_ok (w\<lparr>nw_paused_requests := bm_remove r (nw_paused_requests w)\<rparr>)"
    and "network_ok (w\<lparr>nw_enabled_sessions := bm_remove i (nw_enabled_sessions w)\<rparr>)"
    and "network_ok (w\<lparr>nw_enabled_sessions := []\<rparr>)"
    and "network_ok (clear_bodies w)"
proof -
  have "network_ok (clear_bodies w)"
    using assms clear_bodies_ok [of w] by (simp add: network_ok_def) (simp add: clear_bodies_def)
  then show "network_ok (clear_bodies w)" .
  have cong: "bodies_ok (w\<lparr>nw_cache_disabled := b\<rparr>)" "bodies_ok (w\<lparr>nw_extra_headers := headers\<rparr>)"
    "bodies_ok (w\<lparr>nw_fetch_patterns := fp\<rparr>)" "bodies_ok (w\<lparr>nw_paused_requests := pr\<rparr>)"
    "bodies_ok (w\<lparr>nw_enabled_sessions := es\<rparr>)" for fp pr es
    using assms by (simp_all add: network_ok_def bodies_ok_def)
  show "network_ok (w\<lparr>nw_cache_disabled := b\<rparr>)"
    and "headers_ok headers \<Longrightarrow> network_ok (w\<lparr>nw_extra_headers := headers\<rparr>)"
    and "patterns_ok patterns \<Longrightarrow> network_ok (w\<lparr>nw_fetch_patterns := bm_insert i patterns (nw_fetch_patterns w)\<rparr>)"
    and "network_ok (w\<lparr>nw_fetch_patterns := bm_remove i (nw_fetch_patterns w)\<rparr>)"
    and "network_ok (w\<lparr>nw_paused_requests := bm_remove r (nw_paused_requests w)\<rparr>)"
    and "network_ok (w\<lparr>nw_enabled_sessions := bm_remove i (nw_enabled_sessions w)\<rparr>)"
    and "network_ok (w\<lparr>nw_enabled_sessions := []\<rparr>)"
    using assms cong by (auto simp: network_ok_def bm_get_insert bm_get_remove intro: le_trans [OF bm_length_remove] split: if_splits)
qed

lemma network_ok_enable:
  assumes "network_ok w" and "length (nw_enabled_sessions w) < MAX_SESSIONS \<or> bm_has (nw_enabled_sessions w) i"
  shows "network_ok (w\<lparr>nw_enabled_sessions := bm_insert i () (nw_enabled_sessions w)\<rparr>)"
proof -
  have "bodies_ok (w\<lparr>nw_enabled_sessions := es\<rparr>)" for es
    using assms(1) by (simp add: network_ok_def bodies_ok_def)
  with assms show ?thesis by (auto simp: network_ok_def bm_length_insert)
qed

lemma network_ok_pause:
  assumes "network_ok w" and "length (nw_paused_requests w) < MAX_FETCH_REQUESTS \<or> bm_has (nw_paused_requests w) r"
  shows "network_ok (w\<lparr>nw_paused_requests := bm_insert r () (nw_paused_requests w)\<rparr>)"
proof -
  have "bodies_ok (w\<lparr>nw_paused_requests := es\<rparr>)" for es
    using assms(1) by (simp add: network_ok_def bodies_ok_def)
  with assms show ?thesis by (auto simp: network_ok_def bm_length_insert)
qed

lemma headers_checked:
  assumes "\<not> MAX_NETWORK_HEADERS < length hs"
    and "\<not> MAX_NETWORK_HEADER_BYTES < sum_list (map (\<lambda>(name, val). saturating_add usize_max (length name) (length val)) hs)"
    and "\<not> list_ex (\<lambda>name. name = [] \<or> MAX_METHOD_BYTES < length name) (bm_keys hs)"
  shows "headers_ok hs"
proof -
  have "sum_list (map (\<lambda>(name, val). saturating_add usize_max (length name) (length val)) hs) \<le> MAX_NETWORK_HEADER_BYTES \<Longrightarrow>
      sum_list (map (\<lambda>(name, val). length name + length val) hs)
        = sum_list (map (\<lambda>(name, val). saturating_add usize_max (length name) (length val)) hs)" for hs :: "(string, string) bmap"
    by (induction hs) (auto simp: saturating_add_def MAX_NETWORK_HEADER_BYTES_def usize_max_def min_def split: if_splits)
  with assms show ?thesis by (force simp: headers_ok_def list_ex_iff bm_keys_def not_less)
qed

lemma patterns_checked:
  "\<not> (ps = [] \<or> MAX_FETCH_PATTERNS < length ps) \<Longrightarrow>
   \<not> list_ex (\<lambda>f. MAX_FETCH_PATTERN_BYTES < length (fp_url_pattern f)
       \<or> \<not> (fp_request_stage f = ''Request'' \<or> fp_request_stage f = ''Response'')) ps \<Longrightarrow> patterns_ok ps"
  by (force simp: patterns_ok_def list_ex_iff not_less)

lemma set_extra_headers_local: "local_step s (snd (set_extra_headers s p headers))"
proof (cases "headers_ok headers")
  case True
  then show ?thesis
    by (auto simp: set_extra_headers_def intro!: attempt_page_local local_set_network network_ok_update)
next
  case False
  then show ?thesis using headers_checked [of headers] by (auto simp: set_extra_headers_def)
qed

lemma set_fetch_patterns_local: "local_step s (snd (set_fetch_patterns s p i patterns))"
proof (cases "patterns_ok patterns")
  case True
  then show ?thesis
    by (auto simp: set_fetch_patterns_def intro!: attempt_page_local local_set_network network_ok_update)
next
  case False
  then show ?thesis using patterns_checked [of patterns] by (auto simp: set_fetch_patterns_def)
qed

lemma network_steps_local:
  "local_step s (snd (network_enable s p i))"
  "local_step s (snd (network_disable s p session))"
  "local_step s (snd (set_cache_disabled s p b))"
  "local_step s (snd (set_extra_headers s p headers))"
  "local_step s (snd (clear_response_bodies s p))"
  "local_step s (snd (set_fetch_patterns s p i patterns))"
  "local_step s (snd (register_paused_request s p r))"
  "local_step s (snd (cancel_paused_request s p r))"
  unfolding network_enable_def network_disable_def set_cache_disabled_def
    clear_response_bodies_def register_paused_request_def cancel_paused_request_def
  by (auto simp: Let_def not_le set_extra_headers_local set_fetch_patterns_local
      intro!: attempt_page_local local_set_network network_ok_update
      network_ok_enable network_ok_pause split: option.split)

lemma store_body_ok:
  assumes "bodies_ok w" and "\<not> body_pressure w (length body)" and "\<not> bm_has (nw_response_bodies w) r"
    and "length body \<le> MAX_NETWORK_RESPONSE_WIRE_BYTES" and "Suc (nw_next_order w) \<le> u64_max"
  shows "bodies_ok (w\<lparr>nw_next_order := Suc (nw_next_order w),
     nw_body_order := bm_insert (nw_next_order w) r (nw_body_order w),
     nw_body_bytes := nw_body_bytes w + length body,
     nw_response_bodies := bm_insert r \<lparr>rb_body = body, rb_base64 = base64\<rparr> (nw_response_bodies w)\<rparr>)"
    and "nw_body_bytes w + length body \<le> MAX_NETWORK_RESPONSE_WIRE_BYTES"
proof -
  have empty: "nw_response_bodies w = [] \<Longrightarrow> nw_body_bytes w = 0"
    using assms(1) by (simp add: bodies_ok_def)
  have wire: "MAX_NETWORK_RESPONSE_WIRE_BYTES < usize_max"
    by (simp add: MAX_NETWORK_RESPONSE_WIRE_BYTES_def MAX_NETWORK_RESPONSE_BODY_BYTES_def usize_max_def)
  show bytes: "nw_body_bytes w + length body \<le> MAX_NETWORK_RESPONSE_WIRE_BYTES"
    using assms(2,4) empty wire by (auto simp: body_pressure_def saturating_add_def)
  have count: "length (nw_response_bodies w) < MAX_NETWORK_RESPONSE_BODIES"
    using assms(2) by (auto simp: body_pressure_def MAX_NETWORK_RESPONSE_BODIES_def)
  have new: "bm_get (nw_response_bodies w) r = None" using assms(3) by (simp add: bm_has_def)
  have fresh: "bm_get (nw_body_order w) n \<noteq> Some r" for n
    using bodies_ok_order [OF assms(1)] assms(3) by blast
  have less: "bm_get (nw_body_order w) n = Some q \<Longrightarrow> n < nw_next_order w" for n q
    using assms(1) by (simp add: bodies_ok_def)
  have ordered: "\<exists>n. bm_get (bm_insert (nw_next_order w) r (nw_body_order w)) n = Some q"
    if "q = r \<or> bm_has (nw_response_bodies w) q" for q
  proof (cases "q = r")
    case True
    then show ?thesis by (auto simp: bm_get_insert)
  next
    case False
    with that obtain n where n: "bm_get (nw_body_order w) n = Some q"
      using bodies_ok_ordered [OF assms(1)] by blast
    with less have "n \<noteq> nw_next_order w" by blast
    with n show ?thesis by (auto simp: bm_get_insert intro!: exI [of _ n])
  qed
  have inj: "n = n'" if "bm_get (nw_body_order w) n = Some q" "bm_get (nw_body_order w) n' = Some q" for n n' q
    using that assms(1) by (auto simp: bodies_ok_def)
  have bms: "bm_ok (nw_response_bodies w)" "bm_ok (nw_body_order w)"
    "nw_body_bytes w = bm_sum body_size (nw_response_bodies w)"
    using assms(1) by (simp_all add: bodies_ok_def)
  show "bodies_ok (w\<lparr>nw_next_order := Suc (nw_next_order w),
     nw_body_order := bm_insert (nw_next_order w) r (nw_body_order w),
     nw_body_bytes := nw_body_bytes w + length body,
     nw_response_bodies := bm_insert r \<lparr>rb_body = body, rb_base64 = base64\<rparr> (nw_response_bodies w)\<rparr>)"
    unfolding bodies_ok_def
    using bms bytes count ordered fresh assms(3,5)
    by (auto simp: bm_sum_insert_new [OF new] body_size_def bm_length_insert bm_has_insert
        bm_get_insert less_Suc_eq dest: less inj bodies_ok_order [OF assms(1)] split: if_splits)
qed

section \<open>Storing a response body\<close>

lemma store_response_body_result:
  assumes page: "bm_get (bs_pages s) p = Some pg" and ok: "network_ok (pg_network pg)"
    and r: "r \<noteq> []" "length r \<le> MAX_NETWORK_REQUEST_ID_BYTES"
    and len: "length body \<le> MAX_NETWORK_RESPONSE_WIRE_BYTES"
  obtains w where "network_ok w"
    and "\<And>q. q \<noteq> r \<Longrightarrow> bm_has (nw_response_bodies w) q \<Longrightarrow>
           bm_get (nw_response_bodies w) q = bm_get (nw_response_bodies (pg_network pg)) q"
    and "nw_next_order (pg_network pg) = u64_max
      \<Longrightarrow> store_response_body s p r body base64 = Some (Inl IdExhausted, set_network p pg w s)"
    and "nw_next_order (pg_network pg) < u64_max
      \<Longrightarrow> store_response_body s p r body base64 = Some (Inr (), set_network p pg w s)
          \<and> bm_get (nw_response_bodies w) r = Some \<lparr>rb_body = body, rb_base64 = base64\<rparr>"
proof -
  let ?w0 = "remove_body r (pg_network pg)"
  have w0: "?w0 = drop_body r (pg_network pg)" "bodies_ok ?w0"
    using remove_body_drop [of "pg_network pg" r] drop_body_ok [of "pg_network pg" r] ok
    by (simp_all add: network_ok_def)
  obtain w1 where ev: "evict_bodies (length (nw_body_order ?w0)) ?w0 (length body) = Some w1"
    and w1: "bodies_ok w1" "\<not> body_pressure w1 (length body)" "nw_next_order w1 = nw_next_order ?w0"
      "nw_enabled_sessions w1 = nw_enabled_sessions ?w0" "nw_fetch_patterns w1 = nw_fetch_patterns ?w0"
      "nw_paused_requests w1 = nw_paused_requests ?w0 \<and> nw_extra_headers w1 = nw_extra_headers ?w0"
      "\<forall>q. bm_has (nw_response_bodies w1) q \<longrightarrow> bm_get (nw_response_bodies w1) q = bm_get (nw_response_bodies ?w0) q"
    using evict_bodies_ends [OF w0(2), of "length body"] by blast
  have keep: "bm_get (nw_response_bodies w1) q = bm_get (nw_response_bodies (pg_network pg)) q"
    if "bm_has (nw_response_bodies w1) q" for q
  proof -
    have "bm_get (nw_response_bodies w1) q = bm_get (bm_remove r (nw_response_bodies (pg_network pg))) q"
      using that w1(7) by (simp add: w0(1) drop_body_def)
    with that show ?thesis by (auto simp: bm_has_def bm_get_remove split: if_splits)
  qed
  have absent: "\<not> bm_has (nw_response_bodies w1) r"
    using w1(7) by (auto simp: w0(1) drop_body_def bm_has_def bm_get_remove)
  have net1: "network_ok w1"
    using ok w1 by (simp add: network_ok_def w0(1) drop_body_def)
  let ?w2 = "w1\<lparr>nw_next_order := Suc (nw_next_order w1),
     nw_body_order := bm_insert (nw_next_order w1) r (nw_body_order w1),
     nw_body_bytes := nw_body_bytes w1 + length body,
     nw_response_bodies := bm_insert r \<lparr>rb_body = body, rb_base64 = base64\<rparr> (nw_response_bodies w1)\<rparr>"
  have next1: "nw_next_order w1 = nw_next_order (pg_network pg)" by (simp add: w1 w0(1) drop_body_def)
  show thesis
  proof (cases "nw_next_order (pg_network pg) < u64_max")
    case False
    then have full: "nw_next_order (pg_network pg) = u64_max"
      using ok by (simp add: network_ok_def bodies_ok_def)
    show thesis
    proof (rule that [OF net1 keep])
      show "store_response_body s p r body base64 = Some (Inl IdExhausted, set_network p pg w1 s)"
        using r len full by (simp add: store_response_body_def page ev Let_def next1 checked_add_def)
    qed (use False in auto)
  next
    case True
    have room: "Suc (nw_next_order w1) \<le> u64_max" using True next1 by simp
    note bytes = store_body_ok(2) [OF w1(1,2) absent len room]
    have "network_ok ?w2"
      using store_body_ok(1) [OF w1(1,2) absent len room, of base64] net1 by (simp add: network_ok_def)
    moreover have "saturating_add usize_max (nw_body_bytes w1) (length body) = nw_body_bytes w1 + length body"
      using bytes by (simp add: saturating_add_def MAX_NETWORK_RESPONSE_WIRE_BYTES_def
          MAX_NETWORK_RESPONSE_BODY_BYTES_def usize_max_def)
    ultimately show thesis
      using r len room by (intro that [of ?w2])
        (auto simp: store_response_body_def page ev Let_def checked_add_def bm_get_insert bm_has_insert keep next1)
  qed
qed

lemma store_response_body_local:
  assumes "content_ok s" and "store_response_body s p r body base64 = Some (res, s')"
  shows "local_step s s'"
proof (cases "bm_get (bs_pages s) p")
  case None
  with assms show ?thesis by (auto simp: store_response_body_def split: if_splits)
next
  case (Some pg)
  have ok: "network_ok (pg_network pg)" using assms(1) Some by (simp add: content_ok_def)
  consider "s' = s" | "r \<noteq> []" "length r \<le> MAX_NETWORK_REQUEST_ID_BYTES"
      "length body \<le> MAX_NETWORK_RESPONSE_WIRE_BYTES"
  proof (cases "r = [] \<or> MAX_NETWORK_REQUEST_ID_BYTES < length r")
    case True
    with assms(2) have "s' = s" by (simp add: store_response_body_def)
    then show ?thesis by (rule that(1))
  next
    case False
    then show ?thesis
      using assms(2) that by (cases "MAX_NETWORK_RESPONSE_WIRE_BYTES < length body")
        (auto simp: store_response_body_def simp del: that)
  qed
  then show ?thesis
  proof cases
    case 2
    obtain w where "network_ok w"
      and "nw_next_order (pg_network pg) = u64_max
        \<Longrightarrow> store_response_body s p r body base64 = Some (Inl IdExhausted, set_network p pg w s)"
      and "nw_next_order (pg_network pg) < u64_max
        \<Longrightarrow> store_response_body s p r body base64 = Some (Inr (), set_network p pg w s)"
      using store_response_body_result [OF Some ok 2, of base64] by metis
    moreover have "nw_next_order (pg_network pg) \<le> u64_max"
      using ok by (simp add: network_ok_def bodies_ok_def)
    ultimately have "s' = set_network p pg w s" using assms(2) by (auto simp: le_less)
    then show ?thesis using local_set_network [OF Some] \<open>network_ok w\<close> by simp
  qed simp
qed

section \<open>Fetch resolutions and navigation\<close>

lemma set_page_get: "bm_get (bs_pages (set_page p pg s)) q = (if q = p then Some pg else bm_get (bs_pages s) q)"
  by (simp add: set_page_def bm_get_insert)

lemma set_page_fields [simp]:
  "bs_fetch_resolutions (set_page p pg s) = bs_fetch_resolutions s"
  "bs_history (set_page p pg s) = bs_history s"
  "bs_display (set_page p pg s) = bs_display s"
  by (simp_all add: set_page_def)

lemma queue_fetch_local: "local_step s (snd (queue_fetch_resolution s p r v))"
proof (cases "bm_get (bs_pages s) p")
  case None
  then show ?thesis by (simp add: queue_fetch_resolution_def page_of_def need_def)
next
  case (Some pg)
  define w where "w = (pg_network pg)\<lparr>nw_paused_requests := bm_remove r (nw_paused_requests (pg_network pg))\<rparr>"
  define s1 where "s1 = set_page p (pg\<lparr>pg_network := w\<rparr>) s"
  define q where "q = (case bm_get (bs_fetch_resolutions s1) p of Some q \<Rightarrow> q | None \<Rightarrow> [])"
  have l1: "local_step s s1"
    unfolding s1_def by (rule local_set_page [OF Some]) (simp_all add: w_def network_ok_update)
  have has1: "bm_has (bs_pages s1) p" by (simp add: s1_def bm_has_def set_page_get)
  have op: "snd (queue_fetch_resolution s p r v) =
     (if \<not> bm_has (nw_paused_requests (pg_network pg)) r then s1
      else if MAX_FETCH_RESOLUTIONS \<le> length q
      then set_network p (pg\<lparr>pg_network := w\<rparr>)
             (w\<lparr>nw_paused_requests := bm_insert r () (nw_paused_requests w)\<rparr>)
             (s1\<lparr>bs_fetch_resolutions := bm_insert p q (bs_fetch_resolutions s1)\<rparr>)
      else s1\<lparr>bs_fetch_resolutions := bm_insert p (q @ [v]) (bs_fetch_resolutions s1)\<rparr>)"
    by (simp add: queue_fetch_resolution_def page_of_def Some Let_def w_def [symmetric] s1_def [symmetric] q_def [symmetric])
  show ?thesis
  proof (cases "bm_has (nw_paused_requests (pg_network pg)) r")
    case False
    with l1 show ?thesis unfolding op by simp
  next
    case True
    show ?thesis
    proof (cases "MAX_FETCH_RESOLUTIONS \<le> length q")
      case False
      have "local_step s1 (s1\<lparr>bs_fetch_resolutions := bm_insert p (q @ [v]) (bs_fetch_resolutions s1)\<rparr>)"
        using False by (intro local_set_fetch [OF has1]) auto
      with l1 True False show ?thesis unfolding op by (auto intro: local_trans)
    next
      case full: True
      let ?s2 = "s1\<lparr>bs_fetch_resolutions := bm_insert p q (bs_fetch_resolutions s1)\<rparr>"
      have qn: "q \<noteq> []" using full by (auto simp: MAX_FETCH_RESOLUTIONS_def)
      then have q: "bm_get (bs_fetch_resolutions s1) p = Some q" by (auto simp: q_def split: option.splits)
      have l2: "local_step s1 ?s2"
        unfolding local_step_def
      proof
        assume c: "content_ok s1"
        then have "length q \<le> MAX_FETCH_RESOLUTIONS" using q by (simp add: content_ok_def)
        with local_set_fetch [OF has1 qn] c show "page_local s1 ?s2 \<and> content_ok ?s2"
          by (simp add: local_step_def)
      qed
      have get2: "bm_get (bs_pages ?s2) p = Some (pg\<lparr>pg_network := w\<rparr>)" by (simp add: s1_def set_page_get)
      have "network_ok (w\<lparr>nw_paused_requests := bm_insert r () (nw_paused_requests w)\<rparr>)"
        if "network_ok w" "bm_ok (nw_paused_requests (pg_network pg))"
          "length (nw_paused_requests (pg_network pg)) \<le> MAX_FETCH_REQUESTS"
        using that bm_length_remove_Suc [OF that(2) True] by (intro network_ok_pause) (simp_all add: w_def)
      then have l3: "local_step ?s2 (set_network p (pg\<lparr>pg_network := w\<rparr>)
          (w\<lparr>nw_paused_requests := bm_insert r () (nw_paused_requests w)\<rparr>) ?s2)" if "content_ok s"
        using that Some
        by (intro local_set_network [OF get2]) (auto simp: content_ok_def network_ok_def)
      have "local_step s (set_network p (pg\<lparr>pg_network := w\<rparr>)
          (w\<lparr>nw_paused_requests := bm_insert r () (nw_paused_requests w)\<rparr>) ?s2)"
        using local_trans [OF local_trans [OF l1 l2] l3] by (simp add: local_step_def)
      then show ?thesis unfolding op using True full by simp
    qed
  qed
qed

lemma continue_all_local: "local_step s (snd (continue_all s p rs))"
proof (induction rs arbitrary: s)
  case (Cons r rs)
  obtain res s' where e: "queue_fetch_resolution s p r (continue_resolution r) = (res, s')" by fastforce
  with queue_fetch_local [of s p r "continue_resolution r"] have l: "local_step s s'" by simp
  show ?case
    using l Cons.IH [of s'] by (auto simp: e split: sum.split intro: local_trans)
qed simp

lemma clear_fetch_patterns_local: "local_step s (snd (clear_fetch_patterns s p i))"
  unfolding clear_fetch_patterns_def
proof (rule attempt_page_local)
  fix pg assume pg: "bm_get (bs_pages s) p = Some pg"
  let ?s1 = "set_network p pg ((pg_network pg)\<lparr>nw_fetch_patterns :=
      bm_remove i (nw_fetch_patterns (pg_network pg))\<rparr>) s"
  have "local_step s ?s1" by (intro local_set_network [OF pg] network_ok_update)
  then show "local_step s (snd
      (let w = pg_network pg; patterns = bm_remove i (nw_fetch_patterns w);
           s1 = set_network p pg (w\<lparr>nw_fetch_patterns := patterns\<rparr>) s
       in if patterns \<noteq> [] then (Inr (), s1) else continue_all s1 p (bm_keys (nw_paused_requests w))))"
    using continue_all_local [of ?s1 p "bm_keys (nw_paused_requests (pg_network pg))"]
    by (auto simp: Let_def intro: local_trans)
qed

lemma drain_fetch_local:
  "local_step s (snd (drain_fetch_resolutions s p n))"
proof (cases "bm_get (bs_fetch_resolutions s) p")
  case (Some q)
  show ?thesis
    unfolding local_step_def
  proof
    assume c: "content_ok s"
    with Some have "length q \<le> MAX_FETCH_RESOLUTIONS" by (simp add: content_ok_def)
    moreover have "bm_has (bs_fetch_resolutions s) p" using Some by (simp add: bm_has_def)
    ultimately show "page_local s (snd (drain_fetch_resolutions s p n)) \<and> content_ok (snd (drain_fetch_resolutions s p n))"
      using c by (auto simp: drain_fetch_resolutions_def Some Let_def page_local_def page_free_def content_ok_def
          identity_of_def bm_has_insert bm_has_remove bm_get_insert bm_get_remove fun_eq_iff)
  qed
qed (simp add: drain_fetch_resolutions_def)

lemma foldr_max_le: "x \<in> set xs \<Longrightarrow> x \<le> foldr max xs (0::nat)"
  by (induction xs) auto

lemma sorted_wrt_take: "sorted_wrt P xs \<Longrightarrow> sorted_wrt P (take n xs)"
  by (metis append_take_drop_id sorted_wrt_append)

lemma push_history_ok:
  assumes "history_ok h" and "push_history h url title = Inr h'"
  shows "history_ok h'"
    and "hi_entries h' ! hi_current_index h' = typed_entry (Suc (foldr max (map he_id (truncated h)) 0)) url title"
proof -
  have small: "hi_current_index h < usize_max"
    using assms(1) by (simp add: history_ok_def MAX_HISTORY_ENTRIES_def usize_max_def)
  define kept where "kept = truncated h"
  have kept: "kept = take (Suc (hi_current_index h)) (hi_entries h)"
    using small by (simp add: kept_def truncated_def saturating_add_def)
  let ?i = "Suc (foldr max (map he_id kept) 0)"
  let ?es = "kept @ [typed_entry ?i url title]"
  have sorted: "sorted_wrt (<) (map he_id kept)"
    using assms(1) by (simp add: kept take_map [symmetric] history_ok_def sorted_wrt_take)
  have big: "\<forall>n \<in> set (map he_id kept). n < ?i"
    using foldr_max_le [of _ "map he_id kept"] by (auto simp: less_Suc_eq_le)
  have all: "sorted_wrt (<) (map he_id ?es)"
    using sorted big by (simp add: sorted_wrt_append typed_entry_def)
  have kl: "length kept \<le> MAX_HISTORY_ENTRIES" "kept \<noteq> []"
    using assms(1) by (auto simp: kept history_ok_def)
  have h': "h' = (if MAX_HISTORY_ENTRIES < length ?es
      then \<lparr>hi_current_index = length ?es - 1 - 1, hi_entries = tl ?es\<rparr>
      else \<lparr>hi_current_index = length ?es - 1, hi_entries = ?es\<rparr>)"
    using assms(2) by (simp add: push_history_def Let_def kept_def [symmetric] checked_add_def split: if_splits)
  have tl: "sorted_wrt (<) (map he_id (tl ?es))"
    using all by (cases ?es) auto
  show "history_ok h'" using all tl kl by (auto simp: h' history_ok_def)
  show "hi_entries h' ! hi_current_index h' = typed_entry (Suc (foldr max (map he_id (truncated h)) 0)) url title"
    using kl by (auto simp: h' kept_def [symmetric] nth_append nth_tl)
qed

lemma retitle_ok: "history_ok h \<Longrightarrow> history_ok (retitle h title)"
proof (cases title)
  case (Some t)
  assume h: "history_ok h"
  then have "map he_id ((hi_entries h)[hi_current_index h := (hi_entries h ! hi_current_index h)\<lparr>he_title := t\<rparr>])
      = map he_id (hi_entries h)"
    by (intro nth_equalityI) (auto simp: history_ok_def nth_list_update)
  with h Some show ?thesis by (simp add: history_ok_def retitle_def)
qed (simp add: retitle_def)

lemma truncated_ok: "history_ok h \<Longrightarrow> history_ok (h\<lparr>hi_entries := truncated h\<rparr>)"
  by (auto simp: history_ok_def truncated_def saturating_add_def MAX_HISTORY_ENTRIES_def usize_max_def
      take_map [symmetric] sorted_wrt_take)

lemma first_history_ok:
  "history_ok \<lparr>hi_current_index = 1, hi_entries = [typed_entry 1 u t, typed_entry 2 u' t']\<rparr>"
  by (simp add: history_ok_def typed_entry_def MAX_HISTORY_ENTRIES_def)

lemma page_update_fields [simp]:
  "pg_id (page_update pg u t l g) = pg_id pg" "pg_context_id (page_update pg u t l g) = pg_context_id pg"
  "pg_network (page_update pg u t l g) = pg_network pg"
  by (simp_all add: page_update_def)

lemma update_page_local: "local_step s (snd (update_page s p url title loader_id generation))"
proof (cases "bm_get (bs_pages s) p")
  case None
  then show ?thesis by (auto simp: update_page_def page_of_def need_def attempt_def split: option.splits sum.splits)
next
  case (Some pg)
  have l1: "local_step s (set_page p (page_update pg u title loader_id generation) s)" for u
    by (rule local_set_page [OF Some]) simp_all
  have hist: "local_step s (set_page p (page_update pg u title loader_id generation) s
      \<lparr>bs_history := bm_insert p h (bs_history s)\<rparr>)"
    if "content_ok s \<Longrightarrow> history_ok h" for h u
  proof -
    let ?s1 = "set_page p (page_update pg u title loader_id generation) s"
    have "bm_has (bs_pages ?s1) p" by (simp add: bm_has_def set_page_get)
    from local_set_history [OF this, of h] show ?thesis
      using l1 [of u] that unfolding local_step_def by simp (metis page_local_trans)
  qed
  have old: "history_ok h" if "content_ok s" "bm_get (bs_history s) p = Some h" for h
    using that by (simp add: content_ok_def)
  have pushed: "history_ok (retitle h' title)"
    if "push_history h u t = Inr h'" "bm_get (bs_history s) p = Some h" "content_ok s" for h h' u t
    using that old push_history_ok(1) retitle_ok by blast
  show ?thesis
    unfolding update_page_def
    using l1 first_history_ok
    by (auto simp: attempt_def page_of_def Some Let_def split: option.split sum.split
        intro!: hist intro: pushed old retitle_ok truncated_ok)
qed

end
