(* ===== verification/CdpCookies.thy ===== *)
theory CdpCookies
  imports CdpState
begin

text \<open>
  \<open>crates/obscura-cdp/src/state.rs\<close>, the cookie store of a browser context and the versioned
  snapshot in which its durable state is exported, imported and restored. URL parsing is the crate
  \<open>url\<close>: the parameter \<open>host_of\<close> yields \<open>None\<close> for text that is not a URL and otherwise its
  host, when it has one.
\<close>

definition cookie_key_of :: "context_cookie \<Rightarrow> cookie_key" where
  "cookie_key_of c = (ck_domain c, ck_name c, ck_path c)"

definition cookies_of :: "browser \<Rightarrow> context_id \<Rightarrow> cookie_map" where
  "cookies_of s c = (case bm_get (bs_cookies s) c of Some m \<Rightarrow> m | None \<Rightarrow> [])"

definition set_cookies :: "context_id \<Rightarrow> cookie_map \<Rightarrow> browser \<Rightarrow> browser" where
  "set_cookies c m s = s\<lparr>bs_cookies := bm_insert c m (bs_cookies s)\<rparr>"

section \<open>Reading\<close>

definition context_cookies_for_context :: "browser \<Rightarrow> context_id \<Rightarrow> nat \<Rightarrow> context_cookie list cdp_result" where
  "context_cookies_for_context s c now_secs =
     (if \<not> bm_has (bs_contexts s) c then Inl (UnknownContext c)
      else Inr (filter (\<lambda>k. \<not> cookie_expired k now_secs) (bm_values (cookies_of s c))))"

definition context_cookies :: "browser \<Rightarrow> page_id \<Rightarrow> nat \<Rightarrow> context_cookie list cdp_result" where
  "context_cookies s p now_secs =
     and_then (context_for_page s p) (\<lambda>c. context_cookies_for_context s c now_secs)"

definition context_cookies_for_context_json :: "codec \<Rightarrow> browser \<Rightarrow> context_id \<Rightarrow> nat \<Rightarrow> string cdp_result" where
  "context_cookies_for_context_json cd s c now_secs =
     and_then (context_cookies_for_context s c now_secs) (\<lambda>cookies.
       case enc_cookies cd cookies of
         Inl e \<Rightarrow> Inl (host_failure (''cookie serialization failed: '' @ e))
       | Inr text \<Rightarrow>
          (if MAX_COOKIE_BYTES < length text
           then Inl (invalid_argument ''cookie state exceeds the byte limit'') else Inr text))"

definition context_cookies_json :: "codec \<Rightarrow> browser \<Rightarrow> page_id \<Rightarrow> nat \<Rightarrow> string cdp_result" where
  "context_cookies_json cd s p now_secs =
     and_then (context_for_page s p) (\<lambda>c. context_cookies_for_context_json cd s c now_secs)"

section \<open>Writing\<close>

text \<open>The loop of \<open>replace_context_cookies\<close>.\<close>

fun collect_cookies :: "nat \<Rightarrow> context_cookie list \<Rightarrow> cookie_map \<Rightarrow> cookie_map cdp_result" where
  "collect_cookies now_secs [] nxt = Inr nxt"
| "collect_cookies now_secs (k # ks) nxt =
     and_then (validate_cookie k) (\<lambda>_.
       if cookie_expired k now_secs then collect_cookies now_secs ks nxt
       else if MAX_COOKIE_COUNT \<le> length nxt
       then Inl (invalid_argument ''cookies exceed the 4096-cookie limit'')
       else collect_cookies now_secs ks (bm_insert (cookie_key_of k) k nxt))"

definition replace_context_cookies ::
    "browser \<Rightarrow> page_id \<Rightarrow> context_cookie list \<Rightarrow> nat \<Rightarrow> unit cdp_result \<times> browser" where
  "replace_context_cookies s p cookies now_secs =
     (if MAX_COOKIE_COUNT < length cookies
      then (Inl (invalid_argument ''cookies exceed the 4096-cookie limit''), s)
      else attempt (context_for_page s p) s (\<lambda>c.
        attempt (collect_cookies now_secs cookies []) s (\<lambda>nxt. (Inr (), set_cookies c nxt s))))"

text \<open>The loop of \<open>merge_context_cookies_for_context\<close>: an expired cookie removes the stored one.\<close>

fun merge_cookies :: "nat \<Rightarrow> context_cookie list \<Rightarrow> cookie_map \<Rightarrow> cookie_map cdp_result" where
  "merge_cookies now_secs [] nxt = Inr nxt"
| "merge_cookies now_secs (k # ks) nxt =
     and_then (validate_cookie k) (\<lambda>_.
       merge_cookies now_secs ks
         (if cookie_expired k now_secs then bm_remove (cookie_key_of k) nxt
          else bm_insert (cookie_key_of k) k nxt))"

definition merge_context_cookies_for_context ::
    "browser \<Rightarrow> context_id \<Rightarrow> context_cookie list \<Rightarrow> nat \<Rightarrow> unit cdp_result \<times> browser" where
  "merge_context_cookies_for_context s c cookies now_secs =
     (if \<not> bm_has (bs_contexts s) c then (Inl (UnknownContext c), s)
      else
        (let current = cookies_of s c; s1 = set_cookies c current s in
         attempt (merge_cookies now_secs cookies current) s1 (\<lambda>nxt.
           if MAX_COOKIE_COUNT < length nxt
           then (Inl (invalid_argument ''cookies exceed the 4096-cookie limit''), s1)
           else (Inr (), set_cookies c nxt s1))))"

definition merge_context_cookies ::
    "browser \<Rightarrow> page_id \<Rightarrow> context_cookie list \<Rightarrow> nat \<Rightarrow> unit cdp_result \<times> browser" where
  "merge_context_cookies s p cookies now_secs =
     attempt (context_for_page s p) s (\<lambda>c. merge_context_cookies_for_context s c cookies now_secs)"

definition delete_matches :: "string \<Rightarrow> string \<Rightarrow> string option \<Rightarrow> cookie_key \<Rightarrow> bool" where
  "delete_matches name domain path k =
     (case k of (cookie_domain, cookie_name, cookie_path) \<Rightarrow>
        cookie_name = name \<and> (domain = [] \<or> cookie_domain = domain)
        \<and> (case path of None \<Rightarrow> True | Some expected \<Rightarrow> expected = cookie_path))"

definition delete_context_cookies_for_context ::
    "browser \<Rightarrow> context_id \<Rightarrow> string \<Rightarrow> string \<Rightarrow> string option \<Rightarrow> unit cdp_result \<times> browser" where
  "delete_context_cookies_for_context s c name domain path =
     (if \<not> bm_has (bs_contexts s) c then (Inl (UnknownContext c), s)
      else case bm_get (bs_cookies s) c of
        None \<Rightarrow> (Inr (), s)
      | Some m \<Rightarrow>
         (let d = to_ascii_lowercase (trim_start_matches (CHR ''.'') domain) in
          (Inr (), set_cookies c (bm_retain (\<lambda>k _. \<not> delete_matches name d path k) m) s)))"

definition delete_context_cookies ::
    "browser \<Rightarrow> page_id \<Rightarrow> string \<Rightarrow> string \<Rightarrow> string option \<Rightarrow> unit cdp_result \<times> browser" where
  "delete_context_cookies s p name domain path =
     (if name = [] \<or> MAX_METHOD_BYTES < length name \<or> MAX_METHOD_BYTES < length domain
      then (Inl (invalid_argument ''cookie name or domain is invalid''), s)
      else attempt (context_for_page s p) s (\<lambda>c.
        delete_context_cookies_for_context s c name domain path))"

definition clear_context_cookies_for_context :: "browser \<Rightarrow> context_id \<Rightarrow> unit cdp_result \<times> browser" where
  "clear_context_cookies_for_context s c =
     (if \<not> bm_has (bs_contexts s) c then (Inl (UnknownContext c), s) else (Inr (), set_cookies c [] s))"

definition clear_context_cookies :: "browser \<Rightarrow> page_id \<Rightarrow> unit cdp_result \<times> browser" where
  "clear_context_cookies s p = attempt (context_for_page s p) s (clear_context_cookies_for_context s)"

text \<open>Whether a cookie is sent to a host: exactly, or below a dot unless it is host-only.\<close>

definition strip_suffix :: "string \<Rightarrow> string \<Rightarrow> string option" where
  "strip_suffix s suf = (if suffix suf s then Some (take (length s - length suf) s) else None)"

definition applies_to_host :: "string \<Rightarrow> context_cookie \<Rightarrow> bool" where
  "applies_to_host host k =
     (let domain = trim_start_matches (CHR ''.'') (ck_domain k) in
      if ck_host_only k then eq_ignore_ascii_case host domain
      else eq_ignore_ascii_case host domain
        \<or> (case strip_suffix host domain of Some pre \<Rightarrow> ends_with pre ''.'' | None \<Rightarrow> False))"

definition clear_context_cookies_for_origin ::
    "(string \<Rightarrow> string option option) \<Rightarrow> browser \<Rightarrow> page_id \<Rightarrow> string \<Rightarrow> unit cdp_result \<times> browser" where
  "clear_context_cookies_for_origin host_of s p origin =
     attempt (context_for_page s p) s (\<lambda>c.
       case host_of origin of
         None \<Rightarrow> (Inl (invalid_argument ''origin must be an absolute URL''), s)
       | Some None \<Rightarrow> (Inl (invalid_argument ''origin must include a host''), s)
       | Some (Some h) \<Rightarrow>
          (case bm_get (bs_cookies s) c of
             None \<Rightarrow> (Inr (), s)
           | Some m \<Rightarrow>
               (Inr (), set_cookies c (bm_retain (\<lambda>_ k. \<not> applies_to_host (to_ascii_lowercase h) k) m) s)))"

section \<open>Snapshots\<close>

definition export_context :: "codec \<Rightarrow> browser \<Rightarrow> context_id \<Rightarrow> string cdp_result" where
  "export_context cd s c =
     and_then (need (UnknownContext c) (bm_get (bs_contexts s) c)) (\<lambda>cx.
       case enc_snapshot cd \<lparr>cs_schema_version = CONTEXT_SNAPSHOT_VERSION, cs_options = cx_options cx,
                             cs_cookies = bm_values (cookies_of s c)\<rparr> of
         Inl e \<Rightarrow> Inl (host_failure (''context snapshot serialization failed: '' @ e))
       | Inr bs \<Rightarrow>
          (if MAX_CONTEXT_SNAPSHOT_BYTES < length bs
           then Inl (invalid_argument ''context snapshot exceeds the byte limit'') else Inr bs))"

text \<open>The last loop of \<open>validate_context_snapshot\<close>.\<close>

fun snapshot_cookies :: "context_cookie list \<Rightarrow> cookie_map \<Rightarrow> cookie_map cdp_result" where
  "snapshot_cookies [] m = Inr m"
| "snapshot_cookies (k # ks) m =
     and_then (validate_cookie k) (\<lambda>_.
       if bm_has m (cookie_key_of k)
       then Inl (invalid_argument ''context snapshot contains duplicate cookies'')
       else snapshot_cookies ks (bm_insert (cookie_key_of k) k m))"

definition validate_context_snapshot :: "codec \<Rightarrow> string \<Rightarrow> (context_options \<times> cookie_map) cdp_result" where
  "validate_context_snapshot cd bs =
     (if MAX_CONTEXT_SNAPSHOT_BYTES < length bs
      then Inl (invalid_argument ''context snapshot exceeds the byte limit'')
      else case dec_snapshot cd bs of
        Inl e \<Rightarrow> Inl (invalid_argument (''invalid context snapshot: '' @ e))
      | Inr snap \<Rightarrow>
         (if vs_schema_version snap \<noteq> CONTEXT_SNAPSHOT_VERSION
          then Inl (invalid_argument ''unsupported context snapshot schema'')
          else
            (let opts = options_of_snapshot (vs_options snap) in
             and_then (validate_options opts) (\<lambda>_.
               if MAX_COOKIE_COUNT < length (vs_cookies snap)
               then Inl (invalid_argument ''context snapshot has too many cookies'')
               else case enc_cookies cd (vs_cookies snap) of
                 Inl e \<Rightarrow> Inl (host_failure (''cookie serialization failed: '' @ e))
               | Inr text \<Rightarrow>
                  (if MAX_COOKIE_BYTES < length text
                   then Inl (invalid_argument ''context snapshot cookie state exceeds the byte limit'')
                   else and_then (snapshot_cookies (vs_cookies snap) []) (\<lambda>m. Inr (opts, m)))))))"

definition create_context :: "browser \<Rightarrow> context_options \<Rightarrow> context_id cdp_result \<times> browser" where
  "create_context s opts =
     attempt (ensure_open s) s (\<lambda>_.
       attempt (validate_options opts) s (\<lambda>_.
         if MAX_CONTEXTS \<le> length (bs_contexts s) then (Inl ActionQueueFull, s)
         else attempt (next_id (bs_next_context s)) s (\<lambda>n.
           (let c = ContextId n in
            (Inr c, s\<lparr>bs_next_context := n,
               bs_contexts := bm_insert c \<lparr>cx_id = c, cx_options = opts, cx_generation = bs_generation s\<rparr>
                 (bs_contexts s),
               bs_cookies := bm_insert c [] (bs_cookies s)\<rparr>)))))"

definition import_context :: "codec \<Rightarrow> browser \<Rightarrow> string \<Rightarrow> context_id cdp_result \<times> browser" where
  "import_context cd s bs =
     attempt (validate_context_snapshot cd bs) s (\<lambda>(opts, m).
       case create_context s opts of
         (Inl e, s') \<Rightarrow> (Inl e, s')
       | (Inr c, s') \<Rightarrow> (Inr c, set_cookies c m s'))"

text \<open>The next document generations of the context's pages, in page order; none when one is exhausted.\<close>

fun page_generations :: "context_id \<Rightarrow> page_state list \<Rightarrow> (page_id \<times> nat) list cdp_result" where
  "page_generations c [] = Inr []"
| "page_generations c (pg # pgs) =
     (if pg_context_id pg \<noteq> c then page_generations c pgs
      else case checked_add u64_max (pg_document_generation pg) 1 of
        None \<Rightarrow> Inl IdExhausted
      | Some g \<Rightarrow> and_then (page_generations c pgs) (\<lambda>gs. Inr ((pg_id pg, g) # gs)))"

definition set_generation :: "(page_id \<times> nat) \<Rightarrow> (page_id, page_state) bmap \<Rightarrow> (page_id, page_state) bmap" where
  "set_generation pgen pages =
     (case bm_get pages (fst pgen) of
        Some pg \<Rightarrow> bm_insert (fst pgen) (pg\<lparr>pg_document_generation := snd pgen\<rparr>) pages
      | None \<Rightarrow> pages)"

definition restore_context :: "codec \<Rightarrow> browser \<Rightarrow> context_id \<Rightarrow> string \<Rightarrow> nat cdp_result \<times> browser" where
  "restore_context cd s c bs =
     attempt (ensure_open s) s (\<lambda>_.
       attempt (need (UnknownContext c) (bm_get (bs_contexts s) c)) s (\<lambda>cx.
         attempt (need IdExhausted (checked_add u64_max (cx_generation cx) 1)) s (\<lambda>generation.
           attempt (validate_context_snapshot cd bs) s (\<lambda>(opts, m).
             attempt (page_generations c (bm_values (bs_pages s))) s (\<lambda>gs.
               (Inr generation,
                s\<lparr>bs_contexts := bm_insert c (cx\<lparr>cx_options := opts, cx_generation := generation\<rparr>) (bs_contexts s),
                  bs_cookies := bm_insert c m (bs_cookies s),
                  bs_pages := fold set_generation gs (bs_pages s)\<rparr>))))))"

end
