(* ===== verification/CdpActions.thy ===== *)
theory CdpActions
  imports CdpPages CdpCookies
begin

text \<open>
  \<open>crates/obscura-cdp/src/state.rs\<close>, the life cycles: connections, sessions, pages and contexts
  come and go, and host actions are started, queued, drained, completed and canceled. A page's
  document generation and a context's generation stamp every action, so that a completion is accepted
  only by the document that asked for it.
\<close>

section \<open>The ready queue\<close>

text \<open>An empty queue is deallocated.\<close>

definition settle_ready :: "action_id list option \<Rightarrow> action_id list option" where
  "settle_ready q = (if q = Some [] then None else q)"

definition remove_action :: "browser \<Rightarrow> action_id \<Rightarrow> bool \<times> browser" where
  "remove_action s i =
     (bm_has (bs_actions s) i,
      s\<lparr>bs_actions := bm_remove i (bs_actions s),
        bs_ready := settle_ready (map_option (filter (\<lambda>queued. queued \<noteq> i)) (bs_ready s))\<rparr>)"

definition cancel_action :: "browser \<Rightarrow> action_id \<Rightarrow> bool \<times> browser" where
  "cancel_action s i = remove_action s i"

definition cancel_host_action_ids :: "browser \<Rightarrow> action_id list \<Rightarrow> nat \<times> browser" where
  "cancel_host_action_ids s ids =
     (if ids = [] then (0, s)
      else (length ids,
        s\<lparr>bs_actions := bm_retain (\<lambda>i _. i \<notin> set ids) (bs_actions s),
          bs_ready := settle_ready (map_option (filter (\<lambda>queued. queued \<notin> set ids)) (bs_ready s))\<rparr>))"

definition wire_of :: "pending_action \<Rightarrow> wire_metadata option" where
  "wire_of pa = Option.bind (pa_host pa) ho_wire"

definition ids_where :: "(pending_action \<Rightarrow> bool) \<Rightarrow> browser \<Rightarrow> action_id list" where
  "ids_where P s = map fst (filter (\<lambda>(_, pa). P pa) (bs_actions s))"

definition cancel_host_actions_where :: "(wire_metadata \<Rightarrow> bool) \<Rightarrow> browser \<Rightarrow> nat \<times> browser" where
  "cancel_host_actions_where predicate s =
     cancel_host_action_ids s
       (ids_where (\<lambda>pa. case wire_of pa of Some w \<Rightarrow> predicate w | None \<Rightarrow> False) s)"

definition cancel_host_actions_for_connection :: "browser \<Rightarrow> connection_id \<Rightarrow> nat \<times> browser" where
  "cancel_host_actions_for_connection s c = cancel_host_actions_where (\<lambda>w. wi_connection_id w = c) s"

definition cancel_host_actions_for_session :: "browser \<Rightarrow> connection_id \<Rightarrow> string \<Rightarrow> nat \<times> browser" where
  "cancel_host_actions_for_session s c session =
     cancel_host_actions_where (\<lambda>w. wi_connection_id w = c \<and> wi_session_id w = Some session) s"

definition targets_page :: "page_id \<Rightarrow> pending_action \<Rightarrow> bool" where
  "targets_page p pa \<longleftrightarrow>
     pa_page pa = Some p \<or> (case wire_of pa of Some w \<Rightarrow> wi_target_page w = p | None \<Rightarrow> False)"

definition cancel_host_actions_for_page :: "browser \<Rightarrow> page_id \<Rightarrow> nat \<times> browser" where
  "cancel_host_actions_for_page s p =
     cancel_host_action_ids s (ids_where (\<lambda>pa. pa_host pa \<noteq> None \<and> targets_page p pa) s)"

section \<open>Host actions\<close>

definition stamp :: "pending_action \<Rightarrow> nat" where
  "stamp pa = (case pa_document_generation pa of Some g \<Rightarrow> g | None \<Rightarrow> pa_generation pa)"

definition get_host_action :: "browser \<Rightarrow> action_id \<Rightarrow> host_action cdp_result" where
  "get_host_action s i =
     and_then (need (UnknownAction i) (bm_get (bs_actions s) i)) (\<lambda>pa.
       and_then (need (UnknownAction i) (pa_host pa)) (\<lambda>h.
         if u32_max < action_num i then Inl IdExhausted
         else Inr \<lparr>ac_action_id = action_num i, ac_generation = stamp pa,
                   ac_kind = ho_kind h, ac_payload = ho_payload h\<rparr>))"

definition host_action_wire_view :: "browser \<Rightarrow> action_id \<Rightarrow> (host_action \<times> wire_metadata) cdp_result" where
  "host_action_wire_view s i =
     and_then (need (UnknownAction i) (bm_get (bs_actions s) i)) (\<lambda>pa.
       and_then (need (UnknownAction i) (pa_host pa)) (\<lambda>h.
         and_then (need (UnknownAction i) (ho_wire h)) (\<lambda>w.
           if u32_max < action_num i then Inl IdExhausted
           else Inr (\<lparr>ac_action_id = action_num i, ac_generation = stamp pa,
                      ac_kind = ho_kind h, ac_payload = ho_payload h\<rparr>, w))))"

definition host_action_metadata :: "browser \<Rightarrow> action_id \<Rightarrow> wire_metadata cdp_result" where
  "host_action_metadata s i = and_then (host_action_wire_view s i) (\<lambda>(_, w). Inr w)"

definition ready_front :: "browser \<Rightarrow> action_id option" where
  "ready_front s = (case bs_ready s of Some (i # _) \<Rightarrow> Some i | _ \<Rightarrow> None)"

definition peek_host_action :: "browser \<Rightarrow> host_action option" where
  "peek_host_action s =
     (case ready_front s of
        None \<Rightarrow> None
      | Some i \<Rightarrow> (case get_host_action s i of Inr a \<Rightarrow> Some a | Inl _ \<Rightarrow> None))"

definition peek_host_action_with_metadata :: "browser \<Rightarrow> (host_action \<times> wire_metadata) option cdp_result" where
  "peek_host_action_with_metadata s =
     (case ready_front s of
        None \<Rightarrow> Inr None
      | Some i \<Rightarrow> and_then (host_action_wire_view s i) (\<lambda>v. Inr (Some v)))"

definition claim_host_action :: "browser \<Rightarrow> action_id \<Rightarrow> unit cdp_result \<times> browser" where
  "claim_host_action s i =
     (case bs_ready s of
        None \<Rightarrow> (Inl (UnknownAction i), s)
      | Some q \<Rightarrow>
         (if i \<notin> set q then (Inl (UnknownAction i), s)
          else (Inr (), s\<lparr>bs_ready := settle_ready (Some (remove1 i q))\<rparr>)))"

text \<open>The loop of \<open>drain_host_actions\<close>: at most \<open>room\<close> more actions; an identifier that no longer
  names a host action is dropped without counting.\<close>

fun drain_loop :: "browser \<Rightarrow> nat \<Rightarrow> action_id list \<Rightarrow> host_action list \<times> action_id list" where
  "drain_loop s room [] = ([], [])"
| "drain_loop s 0 q = ([], q)"
| "drain_loop s (Suc room) (i # q) =
     (case get_host_action s i of
        Inr a \<Rightarrow> (case drain_loop s room q of (as, rest) \<Rightarrow> (a # as, rest))
      | Inl _ \<Rightarrow> drain_loop s (Suc room) q)"

definition drain_host_actions :: "browser \<Rightarrow> nat \<Rightarrow> host_action list \<times> browser" where
  "drain_host_actions s limit =
     (let room = min limit MAX_ACTIONS in
      if room = 0 then ([], s)
      else case bs_ready s of
        None \<Rightarrow> ([], s)
      | Some q \<Rightarrow>
         (case drain_loop s room q of
            (drained, rest) \<Rightarrow> (drained, s\<lparr>bs_ready := settle_ready (Some rest)\<rparr>)))"

section \<open>Starting an action\<close>

definition check_target :: "browser \<Rightarrow> engine_action \<Rightarrow> unit cdp_result" where
  "check_target s a =
     (case action_page a of
        Some p \<Rightarrow> (if bm_has (bs_pages s) p then Inr () else Inl (UnknownPage p))
      | None \<Rightarrow>
         (case action_context a of
            Some c \<Rightarrow> (if bm_has (bs_contexts s) c then Inr () else Inl (UnknownContext c))
          | None \<Rightarrow> Inr ()))"

text \<open>The document generation of the action; a navigation claims the next one. A page that runs out
  of generations keeps the state it had, less the action number.\<close>

definition claim_document :: "browser \<Rightarrow> engine_action \<Rightarrow> (nat option) cdp_result \<times> browser" where
  "claim_document s a =
     (case action_page a of
        None \<Rightarrow> (Inr None, s)
      | Some p \<Rightarrow>
         attempt (page_of s p) s (\<lambda>pg.
           if is_navigation a
           then (case checked_add u64_max (pg_document_generation pg) 1 of
                   None \<Rightarrow> (Inl IdExhausted, s)
                 | Some g \<Rightarrow> (Inr (Some g), set_page p (pg\<lparr>pg_document_generation := g\<rparr>) s))
           else (Inr (Some (pg_document_generation pg)), s)))"

definition start_action_record ::
    "browser \<Rightarrow> engine_action \<Rightarrow> host_payload option \<Rightarrow> action_id cdp_result \<times> browser" where
  "start_action_record s a host =
     attempt (ensure_open s) s (\<lambda>_.
       if MAX_ACTIONS \<le> length (bs_actions s) then (Inl ActionQueueFull, s)
       else attempt (check_target s a) s (\<lambda>_.
         attempt (next_id (bs_next_action s)) s (\<lambda>n.
           (let i = ActionId n; s1 = s\<lparr>bs_next_action := n\<rparr> in
            if host \<noteq> None \<and> u32_max < n then (Inl IdExhausted, s1)
            else case claim_document s1 a of
              (Inl e, s2) \<Rightarrow> (Inl e, s2)
            | (Inr document_generation, s2) \<Rightarrow>
               (let generation = (case Option.bind (action_context a) (bm_get (bs_contexts s2)) of
                                    Some cx \<Rightarrow> cx_generation cx | None \<Rightarrow> bs_generation s2);
                    pa = \<lparr>pa_action = a, pa_page = action_page a, pa_context = action_context a,
                          pa_generation = generation, pa_document_generation = document_generation,
                          pa_host = host\<rparr>;
                    s3 = s2\<lparr>bs_actions := bm_insert i pa (bs_actions s2)\<rparr>
                in (Inr i,
                    if host \<noteq> None
                    then s3\<lparr>bs_ready := Some ((case bs_ready s3 of Some q \<Rightarrow> q | None \<Rightarrow> []) @ [i])\<rparr>
                    else s3))))))"

definition start_action :: "browser \<Rightarrow> engine_action \<Rightarrow> action_id cdp_result \<times> browser" where
  "start_action s a = start_action_record s a None"

definition payload_error :: "codec \<Rightarrow> string \<Rightarrow> json \<Rightarrow> unit cdp_result" where
  "payload_error cd kind payload =
     (case enc_value cd payload of
        None \<Rightarrow> Inl (invalid_argument ''host action payload is not serializable'')
      | Some bs \<Rightarrow>
         (if kind = [] \<or> MAX_ACTION_BYTES < saturating_add usize_max (length kind) (length bs)
          then Inl (invalid_argument ''host action payload exceeds the byte limit'') else Inr ()))"

definition start_host_action ::
    "codec \<Rightarrow> browser \<Rightarrow> engine_action \<Rightarrow> string \<Rightarrow> json \<Rightarrow> action_id cdp_result \<times> browser" where
  "start_host_action cd s a kind payload =
     attempt (payload_error cd kind payload) s (\<lambda>_.
       start_action_record s a (Some \<lparr>ho_kind = kind, ho_payload = payload, ho_wire = None\<rparr>))"

definition request_id_wire_len :: "codec \<Rightarrow> json \<Rightarrow> nat cdp_result" where
  "request_id_wire_len cd v =
     (case enc_value cd v of
        None \<Rightarrow> Inl (invalid_argument ''host action request is not serializable'')
      | Some bs \<Rightarrow>
         (if usize_max < length bs then Inl (invalid_argument ''host action request is not serializable'')
          else Inr (length bs)))"

definition start_host_action_with_metadata ::
    "codec \<Rightarrow> browser \<Rightarrow> engine_action \<Rightarrow> string \<Rightarrow> json \<Rightarrow> connection_id \<Rightarrow> page_id \<Rightarrow> json \<Rightarrow> string option
     \<Rightarrow> action_id cdp_result \<times> browser" where
  "start_host_action_with_metadata cd s a kind payload connection target request session =
     attempt (ensure_open s) s (\<lambda>_.
       if \<not> bm_has (bs_pages s) target then (Inl (UnknownPage target), s)
       else if (case action_page a of Some p \<Rightarrow> p \<noteq> target | None \<Rightarrow> False)
       then (Inl (invalid_argument ''host action target page does not match action page''), s)
       else attempt (payload_error cd kind payload) s (\<lambda>_.
         attempt (request_id_wire_len cd request) s (\<lambda>n.
           if MAX_MESSAGE_BYTES < n
           then (Inl (invalid_argument ''host action request exceeds the byte limit''), s)
           else if (case session of Some i \<Rightarrow> MAX_SESSION_BYTES < length i | None \<Rightarrow> False)
           then (Inl (invalid_argument ''host action session ID exceeds the byte limit''), s)
           else start_action_record s a
             (Some \<lparr>ho_kind = kind, ho_payload = payload,
                    ho_wire = Some \<lparr>wi_connection_id = connection, wi_target_page = target,
                                    wi_request = request, wi_session_id = session\<rparr>\<rparr>))))"

section \<open>Completing an action\<close>

definition validate_pending_action :: "browser \<Rightarrow> action_id \<Rightarrow> pending_action \<Rightarrow> unit cdp_result" where
  "validate_pending_action s i pa =
     and_then
       (case pa_context pa of
          Some c \<Rightarrow> (case bm_get (bs_contexts s) c of Some cx \<Rightarrow> Inr (cx_generation cx) | None \<Rightarrow> Inl (StaleAction i))
        | None \<Rightarrow> Inr (bs_generation s))
       (\<lambda>current.
          if pa_generation pa \<noteq> current then Inl (StaleAction i)
          else case pa_page pa of
            None \<Rightarrow> Inr ()
          | Some p \<Rightarrow>
             (case bm_get (bs_pages s) p of
                None \<Rightarrow> Inl (StaleAction i)
              | Some pg \<Rightarrow>
                 (if pa_document_generation pa \<noteq> Some (pg_document_generation pg)
                  then Inl (StaleAction i) else Inr ())))"

definition validate_action_result :: "codec \<Rightarrow> action_result \<Rightarrow> unit cdp_result" where
  "validate_action_result cd r =
     (case enc_result cd r of
        None \<Rightarrow> Inl (invalid_argument ''host action result is not serializable'')
      | Some bs \<Rightarrow>
         (if MAX_ACTION_RESULT_BYTES < length bs
          then Inl (invalid_argument ''host action result exceeds the byte limit'') else Inr ()))"

text \<open>A text field of the completion, in \<open>__obscuraState\<close> first and at the top level otherwise.\<close>

definition nav_field :: "(string, json) bmap option \<Rightarrow> (string, json) bmap \<Rightarrow> string \<Rightarrow> string option" where
  "nav_field st obj key =
     Option.bind
       (case Option.bind st (\<lambda>m. bm_get m key) of Some v \<Rightarrow> Some v | None \<Rightarrow> bm_get obj key)
       as_str"

definition navigation_metadata ::
    "browser \<Rightarrow> page_id \<Rightarrow> json \<Rightarrow> (string option \<times> string option \<times> string option) cdp_result" where
  "navigation_metadata s p v =
     (if \<not> bm_has (bs_pages s) p then Inl (UnknownPage p)
      else and_then (need (invalid_argument ''navigation completion must be an object'') (as_object v)) (\<lambda>obj.
        (let st = Option.bind (json_get v ''__obscuraState'') as_object;
             url = nav_field st obj ''url''; title = nav_field st obj ''title'';
             loader_id = nav_field st obj ''loaderId''
         in and_then (case url of Some u \<Rightarrow> validate_url u | None \<Rightarrow> Inr ()) (\<lambda>_.
           if (case title of Some t \<Rightarrow> MAX_METHOD_BYTES < length t | None \<Rightarrow> False)
              \<or> (case loader_id of Some l \<Rightarrow> MAX_METHOD_BYTES < length l | None \<Rightarrow> False)
           then Inl (invalid_argument ''navigation metadata exceeds the byte limit'')
           else Inr (url, title, loader_id)))))"

definition apply_navigation_metadata :: "browser \<Rightarrow> page_id \<Rightarrow> json \<Rightarrow> unit cdp_result \<times> browser" where
  "apply_navigation_metadata s p v =
     attempt (navigation_metadata s p v) s (\<lambda>(url, title, loader_id).
       update_page s p url title loader_id None)"

fun navigation_page :: "engine_action \<Rightarrow> page_id option" where
  "navigation_page (Navigate p _) = Some p"
| "navigation_page _ = None"

definition complete_action :: "codec \<Rightarrow> browser \<Rightarrow> action_id \<Rightarrow> action_result \<Rightarrow> unit cdp_result \<times> browser" where
  "complete_action cd s i r =
     (case bm_get (bs_actions s) i of
        None \<Rightarrow> (Inl (UnknownAction i), s)
      | Some pa \<Rightarrow>
         attempt (validate_action_result cd r) s (\<lambda>_.
           case validate_pending_action s i pa of
             Inl e \<Rightarrow> (Inl e, snd (remove_action s i))
           | Inr _ \<Rightarrow>
              (case r of
                 ResultFailed failure \<Rightarrow> (Inl failure, snd (remove_action s i))
               | ResultValue v \<Rightarrow>
                  (case navigation_page (pa_action pa) of
                     Some p \<Rightarrow>
                      (case apply_navigation_metadata s p v of
                         (Inl e, s') \<Rightarrow> (Inl e, s')
                       | (Inr _, s') \<Rightarrow> (Inr (), snd (remove_action s' i)))
                   | None \<Rightarrow> (Inr (), snd (remove_action s i)))
               | _ \<Rightarrow> (Inr (), snd (remove_action s i)))))"

definition validate_action_completion :: "codec \<Rightarrow> browser \<Rightarrow> action_id \<Rightarrow> action_result \<Rightarrow> unit cdp_result" where
  "validate_action_completion cd s i r =
     and_then (need (UnknownAction i) (bm_get (bs_actions s) i)) (\<lambda>pa.
       and_then (validate_action_result cd r) (\<lambda>_.
         and_then (validate_pending_action s i pa) (\<lambda>_.
           case (pa_page pa, r) of
             (Some p, ResultValue v) \<Rightarrow>
               (if is_navigation (pa_action pa)
                then and_then (navigation_metadata s p v) (\<lambda>_. Inr ()) else Inr ())
           | _ \<Rightarrow> Inr ())))"

section \<open>Connections and sessions\<close>

definition open_connection :: "browser \<Rightarrow> connection_id cdp_result \<times> browser" where
  "open_connection s =
     attempt (ensure_open s) s (\<lambda>_.
       if MAX_CONNECTIONS \<le> length (bs_connections s) then (Inl ActionQueueFull, s)
       else attempt (next_id (bs_next_connection s)) s (\<lambda>n.
         (Inr (ConnectionId n),
          s\<lparr>bs_next_connection := n, bs_connections := bm_insert (ConnectionId n) () (bs_connections s)\<rparr>)))"

definition attach :: "browser \<Rightarrow> connection_id \<Rightarrow> page_id \<Rightarrow> session_id cdp_result \<times> browser" where
  "attach s c p =
     attempt (ensure_open s) s (\<lambda>_.
       if \<not> bm_has (bs_connections s) c then (Inl (InvalidArgument ''connection is not open''), s)
       else if \<not> bm_has (bs_pages s) p then (Inl (UnknownPage p), s)
       else if MAX_SESSIONS \<le> length (bs_sessions s) then (Inl ActionQueueFull, s)
       else attempt (next_id (bs_next_session s)) s (\<lambda>n.
         (Inr (SessionId n),
          s\<lparr>bs_next_session := n,
            bs_sessions := bm_insert (SessionId n) p (bs_sessions s),
            bs_session_connections := bm_insert (SessionId n) c (bs_session_connections s)\<rparr>)))"

definition detach :: "browser \<Rightarrow> session_id \<Rightarrow> page_id option \<times> browser" where
  "detach s i =
     (let s1 = s\<lparr>bs_session_connections := bm_remove i (bs_session_connections s),
                 bs_sessions := bm_remove i (bs_sessions s)\<rparr> in
      case bm_get (bs_sessions s) i of
        None \<Rightarrow> (None, s1)
      | Some p \<Rightarrow>
         (let s2 = (case bm_get (bs_pages s1) p of
                      Some pg \<Rightarrow> set_network p pg ((pg_network pg)
                        \<lparr>nw_enabled_sessions := bm_remove i (nw_enabled_sessions (pg_network pg))\<rparr>) s1
                    | None \<Rightarrow> s1)
          in (Some p, snd (clear_fetch_patterns s2 p i))))"

definition close_connection :: "browser \<Rightarrow> connection_id \<Rightarrow> bool \<times> browser" where
  "close_connection s c =
     (let s1 = s\<lparr>bs_connections := bm_remove c (bs_connections s)\<rparr> in
      if \<not> bm_has (bs_connections s) c then (False, s1)
      else
        (let s2 = s1\<lparr>bs_events := bm_remove c (bs_events s1)\<rparr>;
             doomed = map fst (filter (\<lambda>(_, connection). connection = c) (bs_session_connections s2))
         in (True, fold (\<lambda>session st. snd (detach st session)) doomed s2)))"

section \<open>Pages and contexts\<close>

definition create_page :: "browser \<Rightarrow> context_id \<Rightarrow> string \<Rightarrow> page_id cdp_result \<times> browser" where
  "create_page s c url =
     attempt (ensure_open s) s (\<lambda>_.
       attempt (validate_url url) s (\<lambda>_.
         if \<not> bm_has (bs_contexts s) c then (Inl (UnknownContext c), s)
         else if MAX_PAGES \<le> length (bs_pages s) then (Inl ActionQueueFull, s)
         else attempt (next_id (bs_next_page s)) s (\<lambda>n.
           (Inr (PageId n),
            s\<lparr>bs_next_page := n,
              bs_pages := bm_insert (PageId n)
                \<lparr>pg_id = PageId n, pg_context_id = c, pg_url = url, pg_title = [],
                 pg_frame_id = ''page-'' @ show_nat n,
                 pg_loader_id = ''loader-'' @ show_nat n @ ''-1'',
                 pg_document_generation = bs_generation s, pg_network = network_default\<rparr>
                (bs_pages s)\<rparr>))))"

definition remove_page_state :: "browser \<Rightarrow> page_id \<Rightarrow> unit cdp_result \<times> browser" where
  "remove_page_state s p =
     (if \<not> bm_has (bs_pages s) p then (Inl (UnknownPage p), s)
      else
        (let sessions = bm_retain (\<lambda>_ page. page \<noteq> p) (bs_sessions s);
             s1 = s\<lparr>bs_pages := bm_remove p (bs_pages s),
                    bs_display := bm_remove p (bs_display s),
                    bs_fetch_resolutions := bm_remove p (bs_fetch_resolutions s),
                    bs_history := bm_remove p (bs_history s),
                    bs_sessions := sessions,
                    bs_session_connections :=
                      bm_retain (\<lambda>i _. i \<in> set (bm_keys sessions)) (bs_session_connections s)\<rparr>
         in (Inr (), snd (cancel_host_action_ids s1 (ids_where (targets_page p) s1)))))"

definition close_page :: "browser \<Rightarrow> page_id \<Rightarrow> unit cdp_result \<times> browser" where
  "close_page s p = attempt (ensure_open s) s (\<lambda>_. remove_page_state s p)"

definition dispose_context :: "browser \<Rightarrow> context_id \<Rightarrow> unit cdp_result \<times> browser" where
  "dispose_context s c =
     attempt (ensure_open s) s (\<lambda>_.
       if c = default_context then (Inl (invalid_argument ''default context cannot be disposed''), s)
       else if \<not> bm_has (bs_contexts s) c then (Inl (UnknownContext c), s)
       else
         (let s1 = s\<lparr>bs_contexts := bm_remove c (bs_contexts s), bs_cookies := bm_remove c (bs_cookies s)\<rparr>;
              s2 = snd (cancel_host_action_ids s1 (ids_where (\<lambda>pa. pa_context pa = Some c) s1));
              pages = map pg_id (filter (\<lambda>pg. pg_context_id pg = c) (bm_values (bs_pages s2)))
          in (Inr (), fold (\<lambda>p st. snd (remove_page_state st p)) pages s2)))"

definition take_page_snapshot :: "browser \<Rightarrow> page_id \<Rightarrow> page_snapshot cdp_result" where
  "take_page_snapshot s p =
     and_then (page_of s p) (\<lambda>pg.
       Inr \<lparr>sn_page_id = pg_id pg, sn_context_id = pg_context_id pg, sn_url = pg_url pg,
            sn_title = pg_title pg, sn_frame_id = pg_frame_id pg, sn_loader_id = pg_loader_id pg,
            sn_document_generation = pg_document_generation pg\<rparr>)"

definition close_browser :: "browser \<Rightarrow> browser" where
  "close_browser s =
     s\<lparr>bs_closed := True, bs_contexts := [], bs_pages := [], bs_display := [],
       bs_fetch_resolutions := [], bs_cookies := [], bs_history := [], bs_connections := [],
       bs_sessions := [], bs_session_connections := [], bs_events := [], bs_actions := [],
       bs_ready := None, bs_generation := saturating_add u64_max (bs_generation s) 1\<rparr>"

end
