(* ===== verification/CdpInv.thy ===== *)
theory CdpInv
  imports CdpActions
begin

text \<open>
  The invariant of the browser state: every identity that one table mentions is a key of the
  table it refers to, every queue and table stays within its limit, identities never exceed their
  counter, and a closed browser holds nothing. It is kept by every operation; the page-local
  operations keep it by one lemma.
\<close>

definition cookies_ok :: "cookie_map \<Rightarrow> bool" where
  "cookies_ok m \<longleftrightarrow>
     bm_ok m \<and> length m \<le> MAX_COOKIE_COUNT
     \<and> (\<forall>k c. bm_get m k = Some c \<longrightarrow> k = cookie_key_of c \<and> validate_cookie c = Inr ())"

definition queue_ok :: "event_queue \<Rightarrow> bool" where
  "queue_ok q \<longleftrightarrow>
     eq_entries q \<noteq> [] \<and> length (eq_entries q) \<le> MAX_EVENTS_PER_CONNECTION
     \<and> eq_bytes q = sum_list (map snd (eq_entries q)) \<and> eq_bytes q \<le> MAX_EVENT_BYTES_PER_CONNECTION"

definition action_ok :: "(context_id, context_state) bmap \<Rightarrow> (page_id, page_state) bmap \<Rightarrow> pending_action \<Rightarrow> bool" where
  "action_ok contexts pages pa \<longleftrightarrow>
     pa_page pa = action_page (pa_action pa) \<and> pa_context pa = action_context (pa_action pa)
     \<and> (pa_document_generation pa = None \<longleftrightarrow> pa_page pa = None)
     \<and> (\<forall>p. pa_page pa = Some p \<longrightarrow> bm_has pages p)
     \<and> (\<forall>c. pa_context pa = Some c \<longrightarrow> bm_has contexts c)
     \<and> (\<forall>w. wire_of pa = Some w \<longrightarrow> bm_has pages (wi_target_page w))"

text \<open>Each part is a relation between tables, so that an operation has to account for the tables it
  writes and for no others.\<close>

definition context_rel :: "(context_id, context_state) bmap \<Rightarrow> (context_id, cookie_map) bmap \<Rightarrow> bool" where
  "context_rel contexts cookies \<longleftrightarrow>
     bm_ok contexts \<and> bm_ok cookies
     \<and> (\<forall>c cx. bm_get contexts c = Some cx \<longrightarrow> cx_id cx = c \<and> validate_options (cx_options cx) = Inr ())
     \<and> (\<forall>c. bm_has cookies c = bm_has contexts c)
     \<and> (\<forall>c m. bm_get cookies c = Some m \<longrightarrow> cookies_ok m)
     \<and> length contexts \<le> MAX_CONTEXTS"

definition page_rel :: "(context_id, context_state) bmap \<Rightarrow> (page_id, page_state) bmap
    \<Rightarrow> (page_id, page_display) bmap \<Rightarrow> (page_id, json list) bmap \<Rightarrow> (page_id, page_history) bmap \<Rightarrow> bool" where
  "page_rel contexts pages display fetch history \<longleftrightarrow>
     (\<forall>p pg. bm_get pages p = Some pg \<longrightarrow> pg_id pg = p \<and> bm_has contexts (pg_context_id pg))
     \<and> (\<forall>p. bm_has display p \<longrightarrow> bm_has pages p)
     \<and> (\<forall>p. bm_has fetch p \<longrightarrow> bm_has pages p)
     \<and> (\<forall>p. bm_has history p \<longrightarrow> bm_has pages p)
     \<and> length pages \<le> MAX_PAGES"

definition session_rel :: "(page_id, page_state) bmap \<Rightarrow> connection_id bset \<Rightarrow> (session_id, page_id) bmap
    \<Rightarrow> (session_id, connection_id) bmap \<Rightarrow> bool" where
  "session_rel pages connections sessions owners \<longleftrightarrow>
     bm_ok connections \<and> bm_ok sessions \<and> bm_ok owners
     \<and> (\<forall>i p. bm_get sessions i = Some p \<longrightarrow> bm_has pages p)
     \<and> (\<forall>i. bm_has owners i = bm_has sessions i)
     \<and> (\<forall>i c. bm_get owners i = Some c \<longrightarrow> bm_has connections c)
     \<and> length sessions \<le> MAX_SESSIONS \<and> length connections \<le> MAX_CONNECTIONS"

definition event_rel :: "connection_id bset \<Rightarrow> (connection_id, event_queue) bmap \<Rightarrow> bool" where
  "event_rel connections events \<longleftrightarrow>
     bm_ok events \<and> (\<forall>c q. bm_get events c = Some q \<longrightarrow> bm_has connections c \<and> queue_ok q)"

definition action_rel :: "(context_id, context_state) bmap \<Rightarrow> (page_id, page_state) bmap
    \<Rightarrow> (action_id, pending_action) bmap \<Rightarrow> bool" where
  "action_rel contexts pages actions \<longleftrightarrow>
     bm_ok actions \<and> (\<forall>i pa. bm_get actions i = Some pa \<longrightarrow> action_ok contexts pages pa)
     \<and> length actions \<le> MAX_ACTIONS"

definition ready_rel :: "(action_id, pending_action) bmap \<Rightarrow> action_id list option \<Rightarrow> bool" where
  "ready_rel actions ready \<longleftrightarrow>
     (\<forall>i pa. bm_get actions i = Some pa \<longrightarrow> pa_host pa \<noteq> None \<longrightarrow> action_num i \<le> u32_max)
     \<and> (\<forall>q. ready = Some q \<longrightarrow>
        q \<noteq> [] \<and> distinct q
        \<and> (\<forall>i \<in> set q. \<exists>pa. bm_get actions i = Some pa \<and> pa_host pa \<noteq> None))"

definition below :: "('k \<Rightarrow> nat) \<Rightarrow> ('k, 'v) bmap \<Rightarrow> nat \<Rightarrow> bool" where
  "below num m n \<longleftrightarrow> (\<forall>k. bm_has m k \<longrightarrow> num k \<le> n)"

definition closed_rel :: "bool \<Rightarrow> (context_id, context_state) bmap \<Rightarrow> (page_id, page_state) bmap
    \<Rightarrow> connection_id bset \<Rightarrow> (action_id, pending_action) bmap \<Rightarrow> nat \<Rightarrow> bool" where
  "closed_rel is_closed contexts pages connections actions next_context \<longleftrightarrow>
     (if is_closed then contexts = [] \<and> pages = [] \<and> connections = [] \<and> actions = []
      else bm_has contexts default_context \<and> 0 < next_context)"

definition bs_inv :: "browser \<Rightarrow> bool" where
  "bs_inv s \<longleftrightarrow>
     context_rel (bs_contexts s) (bs_cookies s)
     \<and> page_rel (bs_contexts s) (bs_pages s) (bs_display s) (bs_fetch_resolutions s) (bs_history s)
     \<and> session_rel (bs_pages s) (bs_connections s) (bs_sessions s) (bs_session_connections s)
     \<and> event_rel (bs_connections s) (bs_events s)
     \<and> action_rel (bs_contexts s) (bs_pages s) (bs_actions s)
     \<and> ready_rel (bs_actions s) (bs_ready s)
     \<and> below context_num (bs_contexts s) (bs_next_context s)
     \<and> below page_num (bs_pages s) (bs_next_page s)
     \<and> below connection_num (bs_connections s) (bs_next_connection s)
     \<and> below session_num (bs_sessions s) (bs_next_session s)
     \<and> below action_num (bs_actions s) (bs_next_action s)
     \<and> closed_rel (bs_closed s) (bs_contexts s) (bs_pages s) (bs_connections s) (bs_actions s) (bs_next_context s)
     \<and> content_ok s"

lemma browser_new_inv: "bs_inv browser_new"
  by (auto simp: bs_inv_def context_rel_def page_rel_def session_rel_def event_rel_def action_rel_def ready_rel_def
      below_def closed_rel_def content_ok_def browser_new_def bm_ok_def bm_has_def bm_get_def
      cookies_ok_def default_context_def MAX_CONTEXTS_def validate_options_def context_options_default_def split: if_splits)

text \<open>Steps on the pages alone.\<close>

lemma page_local_inv:
  assumes i: "bs_inv s" and l: "page_local s s'" and c: "content_ok s'"
  shows "bs_inv s'"
proof -
  have ids: "identity_of s' = identity_of s" and keys: "bm_keys (bs_pages s') = bm_keys (bs_pages s)"
    and free: "page_free s' = page_free s"
    using l by (simp_all add: page_local_def)
  note has = page_local_has [OF l] and same = page_free_fields [OF free]
  have len: "length (bs_pages s') = length (bs_pages s)"
    using keys unfolding bm_keys_def by (metis length_map)
  then have empty: "bs_pages s' = [] \<longleftrightarrow> bs_pages s = []" by auto
  have get: "bm_get (bs_pages s') p = Some pg' \<Longrightarrow>
      \<exists>pg. bm_get (bs_pages s) p = Some pg \<and> pg_id pg = pg_id pg' \<and> pg_context_id pg = pg_context_id pg'" for p pg'
    using fun_cong [OF ids, of p] by (cases "bm_get (bs_pages s) p") (auto simp: identity_of_def)
  have "page_rel (bs_contexts s) (bs_pages s') (bs_display s') (bs_fetch_resolutions s') (bs_history s')"
  proof -
    have old: "page_rel (bs_contexts s) (bs_pages s) (bs_display s) (bs_fetch_resolutions s) (bs_history s)"
      using i by (simp add: bs_inv_def)
    have side: "bm_has (bs_display s') p \<Longrightarrow> bm_has (bs_pages s) p"
      "bm_has (bs_fetch_resolutions s') p \<Longrightarrow> bm_has (bs_pages s) p"
      "bm_has (bs_history s') p \<Longrightarrow> bm_has (bs_pages s) p" for p
      using old l by (auto simp: page_rel_def page_local_def)
    have "pg_id pg' = p \<and> bm_has (bs_contexts s) (pg_context_id pg')"
      if "bm_get (bs_pages s') p = Some pg'" for p pg'
      using get [OF that] old unfolding page_rel_def by metis
    moreover have "length (bs_pages s) \<le> MAX_PAGES" using old by (simp add: page_rel_def)
    ultimately show ?thesis using side by (simp add: page_rel_def has len)
  qed
  moreover have "session_rel (bs_pages s') = session_rel (bs_pages s)"
    by (simp add: fun_eq_iff session_rel_def has)
  moreover have "action_rel cs (bs_pages s') = action_rel cs (bs_pages s)" for cs
    by (simp add: fun_eq_iff action_rel_def action_ok_def has)
  moreover have "below page_num (bs_pages s') = below page_num (bs_pages s)"
    by (simp add: fun_eq_iff below_def has)
  moreover have "closed_rel b cs (bs_pages s') = closed_rel b cs (bs_pages s)" for b cs
    by (simp add: fun_eq_iff closed_rel_def empty)
  ultimately show ?thesis using i c by (simp add: bs_inv_def same)
qed

lemma inv_facts:
  assumes "bs_inv s"
  shows "context_rel (bs_contexts s) (bs_cookies s)"
    and "page_rel (bs_contexts s) (bs_pages s) (bs_display s) (bs_fetch_resolutions s) (bs_history s)"
    and "session_rel (bs_pages s) (bs_connections s) (bs_sessions s) (bs_session_connections s)"
    and "event_rel (bs_connections s) (bs_events s)"
    and "action_rel (bs_contexts s) (bs_pages s) (bs_actions s)"
    and "ready_rel (bs_actions s) (bs_ready s)"
    and "below context_num (bs_contexts s) (bs_next_context s)"
    and "below page_num (bs_pages s) (bs_next_page s)"
    and "below connection_num (bs_connections s) (bs_next_connection s)"
    and "below session_num (bs_sessions s) (bs_next_session s)"
    and "below action_num (bs_actions s) (bs_next_action s)"
    and "closed_rel (bs_closed s) (bs_contexts s) (bs_pages s) (bs_connections s) (bs_actions s) (bs_next_context s)"
  using assms by (simp_all add: bs_inv_def)

lemma inv_content: "bs_inv s \<Longrightarrow> content_ok s"
  by (simp add: bs_inv_def)

lemma local_step_inv: "bs_inv s \<Longrightarrow> local_step s s' \<Longrightarrow> bs_inv s'"
  unfolding local_step_def using page_local_inv inv_content by blast

section \<open>Cookies\<close>

lemma cookies_ok_Nil [simp]: "cookies_ok []"
  by (simp add: cookies_ok_def)

lemma inv_set_cookies:
  assumes "bs_inv s" and "bm_has (bs_contexts s) c" and "cookies_ok m"
  shows "bs_inv (set_cookies c m s)"
proof -
  have "context_rel (bs_contexts s) (bm_insert c m (bs_cookies s))"
    using assms by (auto simp: bs_inv_def context_rel_def bm_has_insert bm_get_insert)
  moreover have "content_ok (set_cookies c m s) = content_ok s"
    by (simp add: content_ok_def set_cookies_def)
  ultimately show ?thesis using assms(1) by (simp add: bs_inv_def set_cookies_def)
qed

lemma cookies_of_ok: "bs_inv s \<Longrightarrow> cookies_ok (cookies_of s c)"
  by (auto simp: cookies_of_def bs_inv_def context_rel_def split: option.split)

lemma cookies_ok_retain: "cookies_ok m \<Longrightarrow> cookies_ok (bm_retain P m)"
  using bm_length_retain [of P m]
  by (auto simp: cookies_ok_def bm_get_retain split: option.splits if_splits)

lemma cookies_ok_remove: "cookies_ok m \<Longrightarrow> cookies_ok (bm_remove k m)"
  unfolding bm_remove_def by (rule cookies_ok_retain)

lemma validate_cookie_unit: "validate_cookie k = Inr u \<Longrightarrow> validate_cookie k = Inr ()"
  by simp

lemma collect_cookies_ok: "collect_cookies now ks m = Inr m' \<Longrightarrow> cookies_ok m \<Longrightarrow> cookies_ok m'"
proof (induction ks arbitrary: m)
  case (Cons k ks)
  from Cons.prems(1) have v: "validate_cookie k = Inr ()" by (cases "validate_cookie k") auto
  have new: "cookies_ok (bm_insert (cookie_key_of k) k m)" if "\<not> MAX_COOKIE_COUNT \<le> length m"
    using Cons.prems(2) that v by (auto simp: cookies_ok_def bm_get_insert bm_length_insert)
  show ?case
    using Cons.prems v by (auto split: if_splits intro: Cons.IH new)
qed simp

definition keyed :: "cookie_map \<Rightarrow> bool" where
  "keyed m \<longleftrightarrow> bm_ok m \<and> (\<forall>k c. bm_get m k = Some c \<longrightarrow> k = cookie_key_of c \<and> validate_cookie c = Inr ())"

lemma cookies_ok_keyed: "cookies_ok m \<longleftrightarrow> keyed m \<and> length m \<le> MAX_COOKIE_COUNT"
  by (auto simp: cookies_ok_def keyed_def)

lemma keyed_insert: "keyed m \<Longrightarrow> validate_cookie k = Inr () \<Longrightarrow> keyed (bm_insert (cookie_key_of k) k m)"
  by (auto simp: keyed_def bm_get_insert)

lemma keyed_remove: "keyed m \<Longrightarrow> keyed (bm_remove k m)"
  by (auto simp: keyed_def bm_get_remove split: if_splits)

lemma merge_cookies_keyed: "merge_cookies now ks m = Inr m' \<Longrightarrow> keyed m \<Longrightarrow> keyed m'"
proof (induction ks arbitrary: m)
  case (Cons k ks)
  from Cons.prems(1) have "validate_cookie k = Inr ()" by (cases "validate_cookie k") auto
  with Cons show ?case by (auto split: if_splits intro: keyed_insert keyed_remove)
qed simp

lemma snapshot_cookies_keyed:
  "snapshot_cookies ks m = Inr m' \<Longrightarrow> keyed m \<Longrightarrow> keyed m' \<and> length m' = length m + length ks"
proof (induction ks arbitrary: m)
  case (Cons k ks)
  from Cons.prems(1) have v: "validate_cookie k = Inr ()" by (cases "validate_cookie k") auto
  with Cons.prems have new: "\<not> bm_has m (cookie_key_of k)"
    and rest: "snapshot_cookies ks (bm_insert (cookie_key_of k) k m) = Inr m'"
    by (auto split: if_splits)
  have "bm_ok m" using Cons.prems(2) by (simp add: keyed_def)
  with Cons.IH [OF rest keyed_insert [OF Cons.prems(2) v]] new show ?case
    by (simp add: bm_length_insert)
qed simp

lemma validate_snapshot_ok:
  "validate_context_snapshot cd bs = Inr (opts, m) \<Longrightarrow> cookies_ok m"
  "validate_context_snapshot cd bs = Inr (opts, m) \<Longrightarrow> validate_options opts = Inr ()"
  by (auto simp: validate_context_snapshot_def and_then_def Let_def cookies_ok_keyed keyed_def
      dest!: snapshot_cookies_keyed split: if_splits sum.splits)

lemma context_for_page_has:
  "bs_inv s \<Longrightarrow> context_for_page s p = Inr c \<Longrightarrow> bm_has (bs_contexts s) c"
  by (auto simp: context_for_page_def bs_inv_def page_rel_def split: option.splits)

lemma cookie_ops_inv:
  assumes "bs_inv s"
  shows "bs_inv (snd (replace_context_cookies s p ks now))"
    and "bs_inv (snd (merge_context_cookies_for_context s c ks now))"
    and "bs_inv (snd (merge_context_cookies s p ks now))"
    and "bs_inv (snd (delete_context_cookies_for_context s c name domain path))"
    and "bs_inv (snd (delete_context_cookies s p name domain path))"
    and "bs_inv (snd (clear_context_cookies_for_context s c))"
    and "bs_inv (snd (clear_context_cookies s p))"
    and "bs_inv (snd (clear_context_cookies_for_origin host_of s p origin))"
proof -
  note cfp = context_for_page_has [OF assms]
  show "bs_inv (snd (replace_context_cookies s p ks now))"
    using assms by (auto simp: replace_context_cookies_def attempt_def split: sum.split
        intro!: inv_set_cookies dest: cfp collect_cookies_ok)
  have merge: "bs_inv (snd (merge_context_cookies_for_context s c ks now))" for c
  proof (cases "bm_has (bs_contexts s) c")
    case False
    with assms show ?thesis by (simp add: merge_context_cookies_for_context_def)
  next
    case True
    let ?s1 = "set_cookies c (cookies_of s c) s"
    have i1: "bs_inv ?s1" by (rule inv_set_cookies [OF assms True cookies_of_ok [OF assms]])
    have has1: "bm_has (bs_contexts ?s1) c" using True by (simp add: set_cookies_def)
    have ok: "cookies_ok m" if "merge_cookies now ks (cookies_of s c) = Inr m" "length m \<le> MAX_COOKIE_COUNT" for m
      using merge_cookies_keyed [OF that(1)] cookies_of_ok [OF assms, of c] that(2)
      by (simp add: cookies_ok_keyed)
    show ?thesis
      using i1 inv_set_cookies [OF i1 has1] ok True
      by (auto simp: merge_context_cookies_for_context_def Let_def attempt_def not_less split: sum.split)
  qed
  show "bs_inv (snd (merge_context_cookies_for_context s c ks now))" by (rule merge)
  show "bs_inv (snd (merge_context_cookies s p ks now))"
    using assms merge by (auto simp: merge_context_cookies_def attempt_def split: sum.split)
  have stored: "cookies_ok m" if "bm_get (bs_cookies s) c = Some m" for c m
    using assms that by (auto simp: bs_inv_def context_rel_def)
  have delete: "bs_inv (snd (delete_context_cookies_for_context s c name domain path))" for c
    using assms by (auto simp: delete_context_cookies_for_context_def Let_def split: option.split
        intro!: inv_set_cookies cookies_ok_retain dest: stored)
  show "bs_inv (snd (delete_context_cookies_for_context s c name domain path))" by (rule delete)
  show "bs_inv (snd (delete_context_cookies s p name domain path))"
    using assms delete by (auto simp: delete_context_cookies_def attempt_def split: sum.split)
  have clear: "bs_inv (snd (clear_context_cookies_for_context s c))" for c
    using assms by (auto simp: clear_context_cookies_for_context_def intro!: inv_set_cookies)
  show "bs_inv (snd (clear_context_cookies_for_context s c))" by (rule clear)
  show "bs_inv (snd (clear_context_cookies s p))"
    using assms clear by (auto simp: clear_context_cookies_def attempt_def split: sum.split)
  show "bs_inv (snd (clear_context_cookies_for_origin host_of s p origin))"
    using assms by (auto simp: clear_context_cookies_for_origin_def attempt_def split: sum.split option.split
        intro!: inv_set_cookies cookies_ok_retain dest: stored cfp)
qed

section \<open>Contexts\<close>

lemma next_id_Inr: "next_id n = Inr m \<longleftrightarrow> m = Suc n \<and> Suc n \<le> u64_max"
  by (auto simp: next_id_def checked_add_def)

lemma below_fresh: "below num m n \<Longrightarrow> n < num k \<Longrightarrow> \<not> bm_has m k"
  by (auto simp: below_def)

lemma below_insert: "below num m n \<Longrightarrow> n \<le> n' \<Longrightarrow> num k \<le> n' \<Longrightarrow> below num (bm_insert k v m) n'"
  by (auto simp: below_def bm_has_insert)

lemma below_mono: "below num m n \<Longrightarrow> n \<le> n' \<Longrightarrow> below num m n'"
  by (auto simp: below_def)

lemma below_retain: "below num m n \<Longrightarrow> below num (bm_retain P m) n"
  by (auto simp: below_def dest: bm_has_retain)

lemma below_remove: "below num m n \<Longrightarrow> below num (bm_remove k m) n"
  by (auto simp: below_def bm_has_remove)

lemma page_rel_contexts:
  "page_rel cs pages d f h \<Longrightarrow> (\<And>c. bm_has cs c \<Longrightarrow> bm_has cs' c) \<Longrightarrow> page_rel cs' pages d f h"
  by (auto simp: page_rel_def)

lemma action_rel_contexts:
  "action_rel cs pages actions \<Longrightarrow> (\<And>c. bm_has cs c \<Longrightarrow> bm_has cs' c) \<Longrightarrow> action_rel cs' pages actions"
  by (auto simp: action_rel_def action_ok_def)

lemma create_context_cases:
  assumes "create_context s opts = (r, s')"
  obtains e where "r = Inl e" "s' = s"
  | "r = Inr (ContextId (Suc (bs_next_context s)))" "\<not> bs_closed s" "Suc (bs_next_context s) \<le> u64_max"
    "length (bs_contexts s) < MAX_CONTEXTS"
    "s' = s\<lparr>bs_next_context := Suc (bs_next_context s),
       bs_contexts := bm_insert (ContextId (Suc (bs_next_context s)))
         \<lparr>cx_id = ContextId (Suc (bs_next_context s)), cx_options = opts, cx_generation = bs_generation s\<rparr> (bs_contexts s),
       bs_cookies := bm_insert (ContextId (Suc (bs_next_context s))) [] (bs_cookies s)\<rparr>"
    "validate_options opts = Inr ()"
proof (cases "bs_closed s")
  case True
  with assms show thesis by (intro that(1)) (auto simp: create_context_def ensure_open_def)
next
  case open': False
  show thesis
  proof (cases "validate_options opts")
    case (Inl e)
    with assms open' show thesis by (intro that(1)) (auto simp: create_context_def ensure_open_def)
  next
    case ok: (Inr u)
    show thesis
    proof (cases "MAX_CONTEXTS \<le> length (bs_contexts s) \<or> u64_max < Suc (bs_next_context s)")
      case True
      with assms open' ok show thesis
        by (cases "MAX_CONTEXTS \<le> length (bs_contexts s)"; intro that(1))
          (auto simp: create_context_def ensure_open_def next_id_def checked_add_def)
    next
      case False
      then have "next_id (bs_next_context s) = Inr (Suc (bs_next_context s))" by (simp add: next_id_Inr)
      with assms open' ok False show thesis
        by (intro that(2)) (simp_all add: create_context_def ensure_open_def Let_def)
    qed
  qed
qed

lemma create_context_inv:
  assumes "bs_inv s"
  shows "bs_inv (snd (create_context s opts))"
proof -
  obtain r s' where c: "create_context s opts = (r, s')" by fastforce
  have "bs_inv s'"
    using c
  proof (cases rule: create_context_cases)
    case 1
    with assms show ?thesis by simp
  next
    case 2
    let ?c = "ContextId (Suc (bs_next_context s))"
    let ?cx = "\<lparr>cx_id = ?c, cx_options = opts, cx_generation = bs_generation s\<rparr>"
    have new: "\<not> bm_has (bs_contexts s) ?c"
      using assms by (intro below_fresh [of context_num]) (auto simp: bs_inv_def)
    have rel: "context_rel (bm_insert ?c ?cx (bs_contexts s)) (bm_insert ?c [] (bs_cookies s))"
      using assms 2(4,6) new
      by (auto simp: bs_inv_def context_rel_def bm_has_insert bm_get_insert bm_length_insert)
    have more: "bm_has (bm_insert ?c ?cx (bs_contexts s)) k" if "bm_has (bs_contexts s) k" for k
      using that by (simp add: bm_has_insert)
    have closed: "closed_rel False (bm_insert ?c ?cx (bs_contexts s)) (bs_pages s) (bs_connections s)
        (bs_actions s) (Suc (bs_next_context s))"
      using assms 2(2) by (auto simp: bs_inv_def closed_rel_def bm_has_insert)
    have "content_ok s'" using assms by (simp add: bs_inv_def content_ok_def 2)
    moreover have "below context_num (bm_insert ?c ?cx (bs_contexts s)) (Suc (bs_next_context s))"
      by (rule below_insert [OF inv_facts(7) [OF assms]]) simp_all
    ultimately show ?thesis
      using rel closed inv_facts(3,4,6-12) [OF assms] 2(2) more
        page_rel_contexts [OF inv_facts(2) [OF assms] more] action_rel_contexts [OF inv_facts(5) [OF assms] more]
      by (simp add: bs_inv_def 2(5))
  qed
  with c show ?thesis by simp
qed

lemma import_context_inv:
  assumes "bs_inv s"
  shows "bs_inv (snd (import_context cd s bs))"
proof (cases "validate_context_snapshot cd bs")
  case (Inl e)
  with assms show ?thesis by (simp add: import_context_def)
next
  case (Inr v)
  obtain opts m where v: "v = (opts, m)" by fastforce
  obtain r s' where c: "create_context s opts = (r, s')" by fastforce
  have i: "bs_inv s'" using create_context_inv [OF assms, of opts] c by simp
  have "bs_inv (snd (import_context cd s bs)) \<longleftrightarrow> bs_inv (case r of Inl _ \<Rightarrow> s' | Inr k \<Rightarrow> set_cookies k m s')"
    by (simp add: import_context_def Inr v c split: sum.split)
  also have "bs_inv (case r of Inl _ \<Rightarrow> s' | Inr k \<Rightarrow> set_cookies k m s')"
  proof (cases r)
    case Inl': (Inr k)
    have "bm_has (bs_contexts s') k" using c by (cases rule: create_context_cases) (auto simp: Inl' bm_has_insert)
    with i validate_snapshot_ok(1) [of cd bs opts m] Inr v Inl' show ?thesis by (simp add: inv_set_cookies)
  qed (simp add: i)
  finally show ?thesis .
qed

lemma fold_generation_local:
  "local_step s (s\<lparr>bs_pages := fold set_generation gs (bs_pages s)\<rparr>)"
proof (induction gs arbitrary: s)
  case (Cons g gs)
  let ?s1 = "s\<lparr>bs_pages := set_generation g (bs_pages s)\<rparr>"
  have "local_step s ?s1"
  proof (cases "bm_get (bs_pages s) (fst g)")
    case (Some pg)
    then show ?thesis
      using local_set_page [OF Some, of "pg\<lparr>pg_document_generation := snd g\<rparr>"]
      by (simp add: set_generation_def set_page_def)
  qed (simp add: set_generation_def)
  moreover have "local_step ?s1 (?s1\<lparr>bs_pages := fold set_generation gs (bs_pages ?s1)\<rparr>)" by (rule Cons.IH)
  ultimately show ?case by (auto intro: local_trans)
qed simp

lemma restore_context_cases:
  assumes "restore_context cd s c bs = (r, s')"
  obtains e where "r = Inl e" "s' = s"
  | cx opts m gs where "r = Inr (Suc (cx_generation cx))" "\<not> bs_closed s" "bm_get (bs_contexts s) c = Some cx"
    "Suc (cx_generation cx) \<le> u64_max"
    "validate_context_snapshot cd bs = Inr (opts, m)" "page_generations c (bm_values (bs_pages s)) = Inr gs"
    "s' = (s\<lparr>bs_contexts := bm_insert c (cx\<lparr>cx_options := opts, cx_generation := Suc (cx_generation cx)\<rparr>) (bs_contexts s),
             bs_cookies := bm_insert c m (bs_cookies s)\<rparr>)\<lparr>bs_pages := fold set_generation gs (bs_pages s)\<rparr>"
proof (cases "bs_closed s")
  case True
  with assms show thesis by (intro that(1)) (auto simp: restore_context_def ensure_open_def)
next
  case open': False
  show thesis
  proof (cases "bm_get (bs_contexts s) c")
    case None
    with assms open' show thesis by (intro that(1)) (auto simp: restore_context_def ensure_open_def)
  next
    case cx: (Some cx)
    show thesis
    proof (cases "checked_add u64_max (cx_generation cx) 1")
      case None
      with assms open' cx show thesis by (intro that(1)) (auto simp: restore_context_def ensure_open_def)
    next
      case g: (Some g)
      show thesis
      proof (cases "validate_context_snapshot cd bs")
        case (Inl e)
        with assms open' cx g show thesis by (intro that(1)) (auto simp: restore_context_def ensure_open_def)
      next
        case v: (Inr v)
        obtain opts m where om: "v = (opts, m)" by fastforce
        show thesis
        proof (cases "page_generations c (bm_values (bs_pages s))")
          case (Inl e)
          with assms open' cx g v om show thesis by (intro that(1)) (auto simp: restore_context_def ensure_open_def)
        next
          case (Inr gs)
          with assms open' cx g v om show thesis
            by (intro that(2) [of cx opts m gs]) (simp_all add: restore_context_def ensure_open_def checked_add_def split: if_splits)
        qed
      qed
    qed
  qed
qed

lemma restore_context_inv:
  assumes "bs_inv s"
  shows "bs_inv (snd (restore_context cd s c bs))"
proof -
  obtain r s' where e: "restore_context cd s c bs = (r, s')" by fastforce
  have "bs_inv s'"
    using e
  proof (cases rule: restore_context_cases)
    case 1
    with assms show ?thesis by simp
  next
    case (2 cx opts m gs)
    let ?cs = "bm_insert c (cx\<lparr>cx_options := opts, cx_generation := Suc (cx_generation cx)\<rparr>) (bs_contexts s)"
    let ?s1 = "s\<lparr>bs_contexts := ?cs, bs_cookies := bm_insert c m (bs_cookies s)\<rparr>"
    have has: "bm_has (bs_contexts s) c" and id: "cx_id cx = c"
      using 2(3) assms by (auto simp: bm_has_def bs_inv_def context_rel_def)
    have ok: "cookies_ok m" "validate_options opts = Inr ()" by (rule validate_snapshot_ok [OF 2(5)])+
    have same: "bm_has ?cs k = bm_has (bs_contexts s) k" for k using has by (auto simp: bm_has_insert)
    have "context_rel ?cs (bm_insert c m (bs_cookies s))"
      using assms has id ok
      by (auto simp: bs_inv_def context_rel_def bm_has_insert bm_get_insert bm_length_insert)
    moreover have "content_ok ?s1" using assms by (simp add: bs_inv_def content_ok_def)
    moreover have "closed_rel (bs_closed s) ?cs (bs_pages s) (bs_connections s) (bs_actions s) (bs_next_context s)"
      using assms 2(2) same by (simp add: bs_inv_def closed_rel_def)
    moreover have "below context_num ?cs (bs_next_context s)" using assms same by (simp add: bs_inv_def below_def)
    moreover have "page_rel ?cs (bs_pages s) (bs_display s) (bs_fetch_resolutions s) (bs_history s)"
      using page_rel_contexts [OF inv_facts(2) [OF assms]] same by simp
    moreover have "action_rel ?cs (bs_pages s) (bs_actions s)"
      using action_rel_contexts [OF inv_facts(5) [OF assms]] same by simp
    ultimately have "bs_inv ?s1" using inv_facts(3,4,6-12) [OF assms] by (simp add: bs_inv_def)
    from local_step_inv [OF this fold_generation_local [of ?s1 gs]] show ?thesis by (simp add: 2(7))
  qed
  with e show ?thesis by simp
qed

section \<open>Events\<close>

lemma trim_events_facts:
  assumes "n = sum_list (map snd es)"
  shows "\<exists>k. eq_entries (trim_events es n) = drop k es
      \<and> (\<forall>j < k. MAX_EVENTS_PER_CONNECTION < length (drop j es)
            \<or> MAX_EVENT_BYTES_PER_CONNECTION < sum_list (map snd (drop j es)))"
    and "eq_bytes (trim_events es n) = sum_list (map snd (eq_entries (trim_events es n)))"
    and "length (eq_entries (trim_events es n)) \<le> MAX_EVENTS_PER_CONNECTION"
    and "eq_bytes (trim_events es n) \<le> MAX_EVENT_BYTES_PER_CONNECTION"
  using assms
proof (induction es arbitrary: n)
  case Nil
  case 1 then show ?case by auto
  case 2 then show ?case by simp
  case 3 then show ?case by simp
  case 4 then show ?case by simp
next
  case (Cons e es)
  obtain ev k where e: "e = (ev, k)" by fastforce
  have n': "n - k = sum_list (map snd es)" if "n = sum_list (map snd (e # es))" for n using that e by simp
  {
    case 1
    show ?case
    proof (cases "MAX_EVENTS_PER_CONNECTION < length (e # es) \<or> MAX_EVENT_BYTES_PER_CONNECTION < n")
      case True
      obtain j where j: "eq_entries (trim_events es (n - k)) = drop j es"
        "\<forall>i < j. MAX_EVENTS_PER_CONNECTION < length (drop i es)
            \<or> MAX_EVENT_BYTES_PER_CONNECTION < sum_list (map snd (drop i es))"
        using Cons.IH(1) [OF n' [OF 1]] by blast
      have "MAX_EVENTS_PER_CONNECTION < length (drop i (e # es))
            \<or> MAX_EVENT_BYTES_PER_CONNECTION < sum_list (map snd (drop i (e # es)))" if "i < Suc j" for i
        using that j(2) True 1 by (cases i) auto
      with True j(1) show ?thesis by (auto simp: e intro!: exI [of _ "Suc j"])
    next
      case False
      then show ?thesis by (auto simp: e intro!: exI [of _ 0])
    qed
  next
    case 2 then show ?case using Cons.IH(2) [OF n' [OF 2]] by (auto simp: e)
  next
    case 3 then show ?case using Cons.IH(3) [OF n' [OF 3]] by (auto simp: e)
  next
    case 4 then show ?case using Cons.IH(4) [OF n' [OF 4]] by (auto simp: e)
  }
qed

lemma inv_set_events:
  assumes "bs_inv s" and "event_rel (bs_connections s) events"
  shows "bs_inv (s\<lparr>bs_events := events\<rparr>)"
proof -
  have "content_ok (s\<lparr>bs_events := events\<rparr>)" using assms(1) by (simp add: bs_inv_def content_ok_def)
  with assms show ?thesis by (simp add: bs_inv_def)
qed

lemma event_rel_insert:
  "event_rel cs es \<Longrightarrow> bm_has cs c \<Longrightarrow> queue_ok q \<Longrightarrow> event_rel cs (bm_insert c q es)"
  by (auto simp: event_rel_def bm_get_insert)

lemma event_rel_remove: "event_rel cs es \<Longrightarrow> event_rel cs (bm_remove c es)"
  by (auto simp: event_rel_def bm_get_remove split: if_splits)

lemma queue_of_ok:
  assumes "bs_inv s" and "bm_get (bs_events s) c = Some q"
  shows "queue_ok q" and "bm_has (bs_connections s) c"
  using assms by (auto simp: bs_inv_def event_rel_def)

lemma trim_queue_ok:
  assumes "n = sum_list (map snd es)" and "es \<noteq> []" and "snd (last es) \<le> MAX_EVENT_BYTES_PER_CONNECTION"
  shows "queue_ok (trim_events es n)"
proof -
  obtain k where k: "eq_entries (trim_events es n) = drop k es"
      "\<forall>j < k. MAX_EVENTS_PER_CONNECTION < length (drop j es)
            \<or> MAX_EVENT_BYTES_PER_CONNECTION < sum_list (map snd (drop j es))"
    using trim_events_facts(1) [OF assms(1)] by blast
  have "k < length es"
  proof (rule ccontr)
    assume "\<not> k < length es"
    with assms(2) have "length es - 1 < k" by (cases es) auto
    with k(2) have "MAX_EVENTS_PER_CONNECTION < length (drop (length es - 1) es)
        \<or> MAX_EVENT_BYTES_PER_CONNECTION < sum_list (map snd (drop (length es - 1) es))" by blast
    moreover have "drop (length es - 1) es = [last es]"
      using assms(2) by (cases es rule: rev_cases) auto
    ultimately show False using assms(3) by (simp add: MAX_EVENTS_PER_CONNECTION_def)
  qed
  with k(1) have "eq_entries (trim_events es n) \<noteq> []" by simp
  with trim_events_facts(2-4) [OF assms(1)] show ?thesis by (simp add: queue_ok_def)
qed

lemma no_saturation:
  assumes "queue_ok q" and "k \<le> MAX_EVENT_BYTES_PER_CONNECTION"
  shows "saturating_add usize_max (eq_bytes q) k = eq_bytes q + k"
proof -
  have "MAX_EVENT_BYTES_PER_CONNECTION + MAX_EVENT_BYTES_PER_CONNECTION \<le> usize_max"
    by (simp add: MAX_EVENT_BYTES_PER_CONNECTION_def usize_max_def)
  with assms show ?thesis by (simp add: saturating_add_def queue_ok_def)
qed

lemma queue_event_inv:
  assumes "bs_inv s"
  shows "bs_inv (snd (queue_event cd s c ev))"
proof (cases "bm_has (bs_connections s) c \<and> (\<exists>bs. enc_event cd ev = Inr bs \<and> length bs \<le> MAX_EVENT_BYTES_PER_CONNECTION)")
  case False
  with assms show ?thesis by (auto simp: queue_event_def split: sum.split)
next
  case True
  then obtain bs where bs: "enc_event cd ev = Inr bs" "length bs \<le> MAX_EVENT_BYTES_PER_CONNECTION" by blast
  define q where "q = (case bm_get (bs_events s) c of Some q \<Rightarrow> q | None \<Rightarrow> queue_default)"
  have q: "eq_bytes q = sum_list (map snd (eq_entries q))"
    and sat: "saturating_add usize_max (eq_bytes q) (length bs) = eq_bytes q + length bs"
  proof -
    show "eq_bytes q = sum_list (map snd (eq_entries q))"
      using queue_of_ok(1) [OF assms] by (auto simp: q_def queue_default_def queue_ok_def split: option.split)
    show "saturating_add usize_max (eq_bytes q) (length bs) = eq_bytes q + length bs"
    proof (cases "bm_get (bs_events s) c")
      case None
      then show ?thesis using bs(2)
        by (simp add: q_def queue_default_def saturating_add_def MAX_EVENT_BYTES_PER_CONNECTION_def usize_max_def)
    next
      case (Some q')
      then show ?thesis using no_saturation [OF queue_of_ok(1) [OF assms Some] bs(2)] by (simp add: q_def)
    qed
  qed
  have "queue_ok (trim_events (eq_entries q @ [(ev, length bs)]) (eq_bytes q + length bs))"
    using bs(2) q by (intro trim_queue_ok) simp_all
  then show ?thesis
    using assms True bs
    by (auto simp: queue_event_def Let_def q_def [symmetric] sat bs_inv_def [of s]
        intro!: inv_set_events event_rel_insert)
qed

lemma take_events_facts:
  assumes "take_events room used budget overhead es n = (drained, q)" and "n = sum_list (map snd es)"
  shows "\<exists>k. drained = map fst (take k es) \<and> eq_entries q = drop k es \<and> k \<le> room \<and> k \<le> length es"
    and "eq_bytes q = sum_list (map snd (eq_entries q))"
  using assms
proof (induction room used budget overhead es n arbitrary: drained q rule: take_events.induct)
  case (1 room used budget overhead n)
  case 1 then show ?case by auto
  case 2 then show ?case by auto
next
  case (2 used budget overhead e es n)
  case 1 then show ?case by auto
  case 2 then show ?case by auto
next
  case (3 room used budget overhead e k es n)
  define size where "size = (case checked_add usize_max k overhead of Some v \<Rightarrow> v | None \<Rightarrow> usize_max)"
  obtain ds q0 where rec: "take_events room (saturating_add usize_max used size) budget overhead es (n - k) = (ds, q0)"
    by fastforce
  have step: "take_events (Suc room) used budget overhead ((e, k) # es) n =
      (if budget < size \<or> budget < saturating_add usize_max used size
       then ([], \<lparr>eq_entries = (e, k) # es, eq_bytes = n\<rparr>) else (e # ds, q0))"
    by (simp add: size_def [symmetric] rec)
  {
    case 1
    note IH = "3.IH"(1) [OF size_def _ rec]
    show ?case
    proof (cases "budget < size \<or> budget < saturating_add usize_max used size")
      case True
      with 1 show ?thesis unfolding step by (auto intro!: exI [of _ 0])
    next
      case False
      from IH [OF False] 1(2) obtain j where "ds = map fst (take j es)" "eq_entries q0 = drop j es" "j \<le> room" "j \<le> length es"
        by auto
      with 1 False show ?thesis unfolding step by (auto intro!: exI [of _ "Suc j"])
    qed
  next
    case 2
    then show ?case
      using "3.IH"(2) [OF size_def _ rec] unfolding step by (auto split: if_splits)
  }
qed

lemma drain_events_inv:
  assumes "bs_inv s"
  shows "bs_inv (snd (drain_framed_events s c items budget overhead))"
proof (cases "bm_get (bs_events s) c")
  case None
  with assms show ?thesis by (simp add: drain_framed_events_def)
next
  case (Some q)
  have ok: "queue_ok q" and has: "bm_has (bs_connections s) c" using queue_of_ok [OF assms Some] by auto
  obtain ds q' where t: "take_events (min items MAX_EVENTS_PER_CONNECTION) 0 budget overhead (eq_entries q) (eq_bytes q) = (ds, q')"
    by fastforce
  have sum: "eq_bytes q = sum_list (map snd (eq_entries q))" using ok by (simp add: queue_ok_def)
  obtain k where k: "eq_entries q' = drop k (eq_entries q)" using take_events_facts(1) [OF t sum] by blast
  have "sum_list (map snd (drop k (eq_entries q))) \<le> sum_list (map snd (eq_entries q))"
    using sum_list_append [of "map snd (take k (eq_entries q))" "map snd (drop k (eq_entries q))"]
    by (simp flip: map_append)
  then have "queue_ok q'" if "eq_entries q' \<noteq> []"
    using that ok k take_events_facts(2) [OF t sum] by (auto simp: queue_ok_def)
  then show ?thesis
    using assms has
    by (auto simp: drain_framed_events_def Some t bs_inv_def [of s]
        intro!: inv_set_events event_rel_insert event_rel_remove)
qed

lemma discard_events_inv:
  assumes "bs_inv s"
  shows "bs_inv (discard_session_events s c session)"
proof (cases "bm_get (bs_events s) c")
  case None
  with assms show ?thesis by (simp add: discard_session_events_def)
next
  case (Some q)
  have ok: "queue_ok q" and has: "bm_has (bs_connections s) c" using queue_of_ok [OF assms Some] by auto
  define es where "es = filter (\<lambda>(e, _). ev_session_id e \<noteq> Some session) (eq_entries q)"
  have "sum_list (map snd (filter P xs)) \<le> sum_list (map snd xs)" for P and xs :: "(cdp_event \<times> nat) list"
    by (induction xs) auto
  then have "sum_list (map snd es) \<le> sum_list (map snd (eq_entries q))" by (simp add: es_def)
  moreover have "length es \<le> length (eq_entries q)" by (simp add: es_def)
  ultimately have "queue_ok \<lparr>eq_entries = es, eq_bytes = sum_list (map snd es)\<rparr>" if "es \<noteq> []"
    using that ok by (simp add: queue_ok_def)
  then show ?thesis
    using assms has
    by (auto simp: discard_session_events_def Some Let_def es_def [symmetric] bs_inv_def [of s]
        intro!: inv_set_events event_rel_insert event_rel_remove)
qed

section \<open>Connections and sessions\<close>

lemma content_frame:
  "bs_pages s' = bs_pages s \<Longrightarrow> bs_display s' = bs_display s \<Longrightarrow>
   bs_fetch_resolutions s' = bs_fetch_resolutions s \<Longrightarrow> bs_history s' = bs_history s \<Longrightarrow>
   content_ok s' = content_ok s"
  by (simp add: content_ok_def)

lemma session_rel_connections:
  "session_rel pages cs ss os \<Longrightarrow> bm_ok cs' \<Longrightarrow> length cs' \<le> MAX_CONNECTIONS \<Longrightarrow>
   (\<And>i c. bm_get os i = Some c \<Longrightarrow> bm_has cs' c) \<Longrightarrow> session_rel pages cs' ss os"
  by (auto simp: session_rel_def)

lemma open_connection_inv:
  assumes "bs_inv s"
  shows "bs_inv (snd (open_connection s))"
proof (cases "bs_closed s \<or> MAX_CONNECTIONS \<le> length (bs_connections s) \<or> u64_max < Suc (bs_next_connection s)")
  case True
  with assms show ?thesis
    by (auto simp: open_connection_def ensure_open_def next_id_def checked_add_def)
next
  case False
  let ?c = "ConnectionId (Suc (bs_next_connection s))"
  let ?cs = "bm_insert ?c () (bs_connections s)"
  note f = inv_facts [OF assms]
  have new: "\<not> bm_has (bs_connections s) ?c" by (rule below_fresh [OF f(9)]) simp
  have "session_rel (bs_pages s) ?cs (bs_sessions s) (bs_session_connections s)"
    using f(3) False new by (auto simp: session_rel_def bm_length_insert bm_has_insert)
  moreover have "event_rel ?cs (bs_events s)" using f(4) by (auto simp: event_rel_def bm_has_insert)
  moreover have "below connection_num ?cs (Suc (bs_next_connection s))" by (rule below_insert [OF f(9)]) simp_all
  moreover have "closed_rel (bs_closed s) (bs_contexts s) (bs_pages s) ?cs (bs_actions s) (bs_next_context s)"
    using f(12) False by (simp add: closed_rel_def)
  moreover have "content_ok (s\<lparr>bs_next_connection := Suc (bs_next_connection s), bs_connections := ?cs\<rparr>)"
    using inv_content [OF assms] by (simp add: content_ok_def)
  ultimately have "bs_inv (s\<lparr>bs_next_connection := Suc (bs_next_connection s), bs_connections := ?cs\<rparr>)"
    using f by (simp add: bs_inv_def)
  with False show ?thesis
    by (simp add: open_connection_def ensure_open_def next_id_def checked_add_def)
qed

lemma attach_inv:
  assumes "bs_inv s"
  shows "bs_inv (snd (attach s c p))"
proof (cases "bs_closed s \<or> \<not> bm_has (bs_connections s) c \<or> \<not> bm_has (bs_pages s) p
    \<or> MAX_SESSIONS \<le> length (bs_sessions s) \<or> u64_max < Suc (bs_next_session s)")
  case True
  with assms show ?thesis
    by (auto simp: attach_def ensure_open_def next_id_def checked_add_def)
next
  case False
  let ?i = "SessionId (Suc (bs_next_session s))"
  let ?s = "s\<lparr>bs_next_session := Suc (bs_next_session s), bs_sessions := bm_insert ?i p (bs_sessions s),
     bs_session_connections := bm_insert ?i c (bs_session_connections s)\<rparr>"
  note f = inv_facts [OF assms]
  have new: "\<not> bm_has (bs_sessions s) ?i" by (rule below_fresh [OF f(10)]) simp
  have "session_rel (bs_pages s) (bs_connections s) (bm_insert ?i p (bs_sessions s))
      (bm_insert ?i c (bs_session_connections s))"
    using f(3) False new by (auto simp: session_rel_def bm_length_insert bm_has_insert bm_get_insert)
  moreover have "below session_num (bm_insert ?i p (bs_sessions s)) (Suc (bs_next_session s))"
    by (rule below_insert [OF f(10)]) simp_all
  moreover have "content_ok ?s" using inv_content [OF assms] by (simp add: content_ok_def)
  ultimately have "bs_inv ?s" using f by (simp add: bs_inv_def)
  with False show ?thesis by (simp add: attach_def ensure_open_def next_id_def checked_add_def)
qed

lemma session_rel_remove:
  assumes "session_rel pages cs ss os"
  shows "session_rel pages cs (bm_remove i ss) (bm_remove i os)"
  using assms le_trans [OF bm_length_remove [of i ss]]
  by (auto simp: session_rel_def bm_has_remove bm_get_remove split: if_splits)

lemma detach_inv:
  assumes "bs_inv s"
  shows "bs_inv (snd (detach s i))"
proof -
  let ?s1 = "s\<lparr>bs_session_connections := bm_remove i (bs_session_connections s),
    bs_sessions := bm_remove i (bs_sessions s)\<rparr>"
  note f = inv_facts [OF assms]
  have "content_ok ?s1" using inv_content [OF assms] by (simp add: content_ok_def)
  then have i1: "bs_inv ?s1"
    using f session_rel_remove [OF f(3), of i] below_remove [OF f(10), of i] by (simp add: bs_inv_def)
  show ?thesis
  proof (cases "bm_get (bs_sessions s) i")
    case None
    with i1 show ?thesis by (simp add: detach_def)
  next
    case (Some p)
    then have "bm_has (bs_pages s) p" using f(3) by (simp add: session_rel_def)
    then obtain pg where pg: "bm_get (bs_pages s) p = Some pg" by (auto simp: bm_has_def)
    let ?s2 = "set_network p pg ((pg_network pg)\<lparr>nw_enabled_sessions :=
        bm_remove i (nw_enabled_sessions (pg_network pg))\<rparr>) ?s1"
    have "local_step ?s1 ?s2" by (rule local_set_network) (simp_all add: pg network_ok_update)
    then have "bs_inv ?s2" by (rule local_step_inv [OF i1])
    from local_step_inv [OF this clear_fetch_patterns_local [of ?s2 p i]]
    show ?thesis by (simp add: detach_def Let_def Some pg)
  qed
qed

text \<open>Detaching does not look at the connections, so closing one may be read as detaching its sessions
  first.\<close>

definition unlink :: "connection_id bset \<Rightarrow> (connection_id, event_queue) bmap \<Rightarrow> browser \<Rightarrow> browser" where
  "unlink cs es s = s\<lparr>bs_connections := cs, bs_events := es\<rparr>"

lemma unlink_fields [simp]:
  "bs_pages (unlink cs es s) = bs_pages s" "bs_sessions (unlink cs es s) = bs_sessions s"
  "bs_session_connections (unlink cs es s) = bs_session_connections s"
  "bs_fetch_resolutions (unlink cs es s) = bs_fetch_resolutions s"
  by (simp_all add: unlink_def)

lemma unlink_updates:
  "set_page p pg (unlink cs es s) = unlink cs es (set_page p pg s)"
  "(unlink cs es s)\<lparr>bs_fetch_resolutions := q\<rparr> = unlink cs es (s\<lparr>bs_fetch_resolutions := q\<rparr>)"
  "(unlink cs es s)\<lparr>bs_session_connections := os, bs_sessions := ss\<rparr>
     = unlink cs es (s\<lparr>bs_session_connections := os, bs_sessions := ss\<rparr>)"
  by (simp_all add: unlink_def set_page_def)

lemma queue_fetch_unlink:
  "queue_fetch_resolution (unlink cs es s) p r v =
     (fst (queue_fetch_resolution s p r v), unlink cs es (snd (queue_fetch_resolution s p r v)))"
  by (simp add: queue_fetch_resolution_def page_of_def attempt_def need_def Let_def unlink_updates
      set_network_def split: option.split sum.split)

lemma continue_all_unlink:
  "continue_all (unlink cs es s) p rs =
     (fst (continue_all s p rs), unlink cs es (snd (continue_all s p rs)))"
  by (induction rs arbitrary: s) (simp_all add: queue_fetch_unlink split: prod.split sum.split)

lemma detach_unlink: "detach (unlink cs es s) i = (fst (detach s i), unlink cs es (snd (detach s i)))"
  by (simp add: detach_def clear_fetch_patterns_def page_of_def attempt_def need_def Let_def unlink_updates
      set_network_def continue_all_unlink split: option.split sum.split)

lemma fold_detach_unlink:
  "fold (\<lambda>i st. snd (detach st i)) is (unlink cs es s) = unlink cs es (fold (\<lambda>i st. snd (detach st i)) is s)"
  by (induction "is" arbitrary: s) (simp_all add: detach_unlink)

lemma fold_detach_inv: "bs_inv s \<Longrightarrow> bs_inv (fold (\<lambda>i st. snd (detach st i)) is s)"
  by (induction "is" arbitrary: s) (simp_all add: detach_inv)

lemma detach_frame:
  "bs_session_connections (snd (detach s i)) = bm_remove i (bs_session_connections s)"
  "bs_sessions (snd (detach s i)) = bm_remove i (bs_sessions s)"
  "bs_connections (snd (detach s i)) = bs_connections s"
  "bs_events (snd (detach s i)) = bs_events s"
proof -
  have q: "bs_session_connections (snd (queue_fetch_resolution s p r v)) = bs_session_connections s"
    "bs_sessions (snd (queue_fetch_resolution s p r v)) = bs_sessions s"
    "bs_connections (snd (queue_fetch_resolution s p r v)) = bs_connections s"
    "bs_events (snd (queue_fetch_resolution s p r v)) = bs_events s" for s p r v
    by (simp_all add: queue_fetch_resolution_def page_of_def attempt_def need_def Let_def
        set_network_def set_page_def split: option.split sum.split)
  have c: "bs_session_connections (snd (continue_all s p rs)) = bs_session_connections s
    \<and> bs_sessions (snd (continue_all s p rs)) = bs_sessions s
    \<and> bs_connections (snd (continue_all s p rs)) = bs_connections s
    \<and> bs_events (snd (continue_all s p rs)) = bs_events s" for s p rs
  proof (induction rs arbitrary: s)
    case (Cons r rs)
    obtain x s' where e: "queue_fetch_resolution s p r (continue_resolution r) = (x, s')" by fastforce
    with q [of s p r "continue_resolution r"] Cons.IH [of s'] show ?case by (simp split: sum.split)
  qed simp
  show "bs_session_connections (snd (detach s i)) = bm_remove i (bs_session_connections s)"
    "bs_sessions (snd (detach s i)) = bm_remove i (bs_sessions s)"
    "bs_connections (snd (detach s i)) = bs_connections s"
    "bs_events (snd (detach s i)) = bs_events s"
    by (simp_all add: detach_def clear_fetch_patterns_def page_of_def attempt_def need_def Let_def c
        set_network_def set_page_def split: option.split sum.split)
qed

lemma fold_detach_frame:
  "bm_get (bs_session_connections (fold (\<lambda>i st. snd (detach st i)) is s)) k =
     (if k \<in> set is then None else bm_get (bs_session_connections s) k)"
  "bs_connections (fold (\<lambda>i st. snd (detach st i)) is s) = bs_connections s"
  "bs_events (fold (\<lambda>i st. snd (detach st i)) is s) = bs_events s"
  by (induction "is" arbitrary: s) (auto simp: detach_frame bm_get_remove)

lemma inv_unlink:
  assumes "bs_inv s" and "\<And>i. bm_get (bs_session_connections s) i \<noteq> Some c"
  shows "bs_inv (unlink (bm_remove c (bs_connections s)) (bm_remove c (bs_events s)) s)"
proof -
  note f = inv_facts [OF assms(1)]
  let ?cs = "bm_remove c (bs_connections s)"
  have "session_rel (bs_pages s) ?cs (bs_sessions s) (bs_session_connections s)"
    using f(3) assms(2) le_trans [OF bm_length_remove [of c "bs_connections s"]]
    by (auto simp: session_rel_def bm_has_remove)
  moreover have "event_rel ?cs (bm_remove c (bs_events s))"
    using f(4) by (auto simp: event_rel_def bm_get_remove bm_has_remove split: if_splits)
  moreover have "closed_rel (bs_closed s) (bs_contexts s) (bs_pages s) ?cs (bs_actions s) (bs_next_context s)"
    using f(12) by (simp add: closed_rel_def bm_remove_def bm_retain_def split: if_splits)
  moreover have "content_ok (unlink ?cs (bm_remove c (bs_events s)) s)"
    using inv_content [OF assms(1)] by (simp add: content_ok_def unlink_def)
  ultimately show ?thesis using f below_remove [OF f(9), of c] by (simp add: bs_inv_def unlink_def)
qed

lemma close_connection_eq:
  assumes "bs_inv s" and "bm_has (bs_connections s) c"
  defines "doomed \<equiv> map fst (filter (\<lambda>(_, connection). connection = c) (bs_session_connections s))"
  shows "snd (close_connection s c) =
    unlink (bm_remove c (bs_connections s)) (bm_remove c (bs_events s)) (fold (\<lambda>i st. snd (detach st i)) doomed s)"
  using assms(2) by (simp add: close_connection_def Let_def doomed_def unlink_def [symmetric] fold_detach_unlink [symmetric])

lemma close_connection_inv:
  assumes "bs_inv s"
  shows "bs_inv (snd (close_connection s c))"
proof (cases "bm_has (bs_connections s) c")
  case False
  have "s\<lparr>bs_connections := bm_remove c (bs_connections s)\<rparr> = s"
  proof -
    have "bm_get (bs_connections s) c = None" using False unfolding bm_has_def by blast
    then show ?thesis by (simp add: bm_remove_absent)
  qed
  with False assms show ?thesis by (simp add: close_connection_def)
next
  case True
  define doomed where "doomed = map fst (filter (\<lambda>(_, connection). connection = c) (bs_session_connections s))"
  define s' where "s' = fold (\<lambda>i st. snd (detach st i)) doomed s"
  have i: "bs_inv s'" unfolding s'_def by (rule fold_detach_inv [OF assms])
  have "bm_get (bs_session_connections s') k \<noteq> Some c" for k
  proof
    assume "bm_get (bs_session_connections s') k = Some c"
    then have "k \<notin> set doomed" and "bm_get (bs_session_connections s) k = Some c"
      by (auto simp: s'_def fold_detach_frame split: if_splits)
    then show False by (force simp: doomed_def dest: bm_get_in)
  qed
  from inv_unlink [OF i this] show ?thesis
    unfolding close_connection_eq [OF assms True] by (simp add: s'_def doomed_def fold_detach_frame)
qed

end
