(* ===== verification/CdpLife.thy ===== *)
theory CdpLife
  imports CdpInv
begin

text \<open>
  The invariant is kept when actions start, complete and are canceled and when pages and contexts
  come and go; then the browser as a transition system, whose reachable states all satisfy it.
\<close>

section \<open>Removing actions\<close>

lemma settle_ready_Some: "settle_ready q = Some xs \<longleftrightarrow> q = Some xs \<and> xs \<noteq> []"
  by (auto simp: settle_ready_def)

lemma ready_rel_shrink:
  assumes "ready_rel actions ready" and "bm_ok actions"
    and "\<And>i. P i \<Longrightarrow> Q i"
    and "\<And>i pa. bm_get actions i = Some pa \<Longrightarrow> Q i \<Longrightarrow> bm_get actions' i = Some pa"
    and "\<And>i pa. bm_get actions' i = Some pa \<Longrightarrow> bm_get actions i = Some pa"
  shows "ready_rel actions' (settle_ready (map_option (filter P) ready))"
  unfolding ready_rel_def
proof (intro conjI allI impI)
  show "action_num i \<le> u32_max" if "bm_get actions' i = Some pa" "pa_host pa \<noteq> None" for i pa
    using assms(1) assms(5) [OF that(1)] that(2) unfolding ready_rel_def by blast
next
  fix q assume q: "settle_ready (map_option (filter P) ready) = Some q"
  then obtain xs where xs: "ready = Some xs" "q = filter P xs" "q \<noteq> []"
    by (auto simp: settle_ready_Some)
  then have x: "distinct xs" "\<forall>i \<in> set xs. \<exists>pa. bm_get actions i = Some pa \<and> pa_host pa \<noteq> None"
    using assms(1) unfolding ready_rel_def by auto
  show "q \<noteq> []" by (rule xs(3))
  show "distinct q" using x(1) by (simp add: xs(2))
  show "\<forall>i \<in> set q. \<exists>pa. bm_get actions' i = Some pa \<and> pa_host pa \<noteq> None"
    using x(2) assms(3,4) unfolding xs(2) by (metis mem_Collect_eq set_filter)
qed

lemma action_rel_retain:
  "action_rel cs ps actions \<Longrightarrow> action_rel cs ps (bm_retain P actions)"
  using le_trans [OF bm_length_retain [of P actions]]
  by (auto simp: action_rel_def bm_get_retain split: option.splits if_splits)

lemma closed_rel_retain:
  "closed_rel b cs ps ns actions n \<Longrightarrow> closed_rel b cs ps ns (bm_retain P actions) n"
  by (auto simp: closed_rel_def bm_retain_def split: if_splits)

definition drop_actions :: "(action_id \<Rightarrow> bool) \<Rightarrow> browser \<Rightarrow> browser" where
  "drop_actions P s =
     s\<lparr>bs_actions := bm_retain (\<lambda>i _. \<not> P i) (bs_actions s),
       bs_ready := settle_ready (map_option (filter (\<lambda>i. \<not> P i)) (bs_ready s))\<rparr>"

lemma drop_actions_inv:
  assumes "bs_inv s"
  shows "bs_inv (drop_actions P s)"
proof -
  note f = inv_facts [OF assms]
  have ok: "bm_ok (bs_actions s)" using f(5) by (simp add: action_rel_def)
  have "ready_rel (bm_retain (\<lambda>i _. \<not> P i) (bs_actions s)) (settle_ready (map_option (filter (\<lambda>i. \<not> P i)) (bs_ready s)))"
    by (rule ready_rel_shrink [OF f(6) ok, of "\<lambda>i. \<not> P i" "\<lambda>i. \<not> P i"])
      (auto simp: bm_get_retain_key split: if_splits)
  moreover have "content_ok (drop_actions P s)"
    using inv_content [OF assms] by (simp add: content_ok_def drop_actions_def)
  ultimately show ?thesis
    using f below_retain [OF f(11)] action_rel_retain [OF f(5)] closed_rel_retain [OF f(12)]
    by (simp add: bs_inv_def drop_actions_def)
qed

lemma remove_action_drop: "snd (remove_action s i) = drop_actions (\<lambda>j. j = i) s"
  by (simp add: remove_action_def drop_actions_def bm_remove_def)

lemma ready_never_empty: "bs_inv s \<Longrightarrow> settle_ready (bs_ready s) = bs_ready s"
  by (auto simp: bs_inv_def ready_rel_def settle_ready_def)

lemma cancel_ids_drop:
  assumes "bs_inv s"
  shows "snd (cancel_host_action_ids s ids) = drop_actions (\<lambda>j. j \<in> set ids) s"
proof (cases "ids = []")
  case True
  have "bm_retain (\<lambda>_ _. True) (bs_actions s) = bs_actions s" by (rule bm_retain_keep) simp
  moreover have "map_option (filter (\<lambda>_. True)) (bs_ready s) = bs_ready s"
    by (cases "bs_ready s") auto
  ultimately show ?thesis
    using True ready_never_empty [OF assms] by (simp add: cancel_host_action_ids_def drop_actions_def)
qed (simp add: cancel_host_action_ids_def drop_actions_def)

lemma cancel_inv:
  assumes "bs_inv s"
  shows "bs_inv (snd (cancel_action s i))" "bs_inv (snd (remove_action s i))"
    "bs_inv (snd (cancel_host_action_ids s ids))" "bs_inv (snd (cancel_host_actions_where pred s))"
    "bs_inv (snd (cancel_host_actions_for_connection s c))"
    "bs_inv (snd (cancel_host_actions_for_session s c session))"
    "bs_inv (snd (cancel_host_actions_for_page s p))"
  by (simp_all add: cancel_action_def remove_action_drop cancel_ids_drop assms drop_actions_inv
      cancel_host_actions_where_def cancel_host_actions_for_connection_def
      cancel_host_actions_for_session_def cancel_host_actions_for_page_def)

section \<open>The ready queue\<close>

lemma inv_set_ready:
  assumes "bs_inv s" and "ready_rel (bs_actions s) r"
  shows "bs_inv (s\<lparr>bs_ready := r\<rparr>)"
proof -
  have "content_ok (s\<lparr>bs_ready := r\<rparr>)" using assms(1) by (simp add: bs_inv_def content_ok_def)
  with assms show ?thesis by (simp add: bs_inv_def)
qed

lemma ready_rel_sub:
  assumes "ready_rel actions (Some q)" and "set q' \<subseteq> set q" and "distinct q'"
  shows "ready_rel actions (settle_ready (Some q'))"
  using assms by (auto simp: ready_rel_def settle_ready_def)

lemma claim_inv:
  assumes "bs_inv s"
  shows "bs_inv (snd (claim_host_action s i))"
proof (cases "bs_ready s")
  case None
  with assms show ?thesis by (simp add: claim_host_action_def)
next
  case (Some q)
  have r: "ready_rel (bs_actions s) (Some q)" using inv_facts(6) [OF assms] Some by simp
  then have d: "distinct q" by (simp add: ready_rel_def)
  have "ready_rel (bs_actions s) (settle_ready (Some (remove1 i q)))"
    using ready_rel_sub [OF r, of "remove1 i q"] d by (simp add: set_remove1_subset)
  with assms Some show ?thesis by (simp add: claim_host_action_def inv_set_ready)
qed

lemma drain_loop_rest:
  "drain_loop s room q = (as, rest) \<Longrightarrow> \<exists>k. rest = drop k q"
proof (induction s room q arbitrary: as rest rule: drain_loop.induct)
  case (3 s room i q)
  show ?case
  proof (cases "get_host_action s i")
    case (Inl e)
    with "3.prems" have "drain_loop s (Suc room) q = (as, rest)" by simp
    from "3.IH"(1) [OF Inl this] obtain k where "rest = drop k q" ..
    then show ?thesis by (intro exI [of _ "Suc k"]) simp
  next
    case (Inr a)
    obtain bs r where e: "drain_loop s room q = (bs, r)" by fastforce
    from "3.IH"(2) [OF Inr e] obtain k where "r = drop k q" ..
    with "3.prems" Inr e show ?thesis by (intro exI [of _ "Suc k"]) simp
  qed
qed (auto intro: exI [of _ 0])

lemma drain_inv:
  assumes "bs_inv s"
  shows "bs_inv (snd (drain_host_actions s limit))"
proof (cases "min limit MAX_ACTIONS = 0 \<or> bs_ready s = None")
  case True
  with assms show ?thesis by (auto simp: drain_host_actions_def Let_def split: option.split)
next
  case False
  then obtain q where q: "bs_ready s = Some q" by auto
  have r: "ready_rel (bs_actions s) (Some q)" using inv_facts(6) [OF assms] q by simp
  then have d: "distinct q" by (simp add: ready_rel_def)
  obtain as rest where e: "drain_loop s (min limit MAX_ACTIONS) q = (as, rest)" by fastforce
  obtain k where k: "rest = drop k q" using drain_loop_rest [OF e] ..
  have "ready_rel (bs_actions s) (settle_ready (Some rest))"
    using ready_rel_sub [OF r, of rest] d by (simp add: k set_drop_subset)
  with assms False e q show ?thesis by (auto simp: drain_host_actions_def Let_def intro: inv_set_ready)
qed

section \<open>Starting actions\<close>

lemma claim_document_local: "local_step s (snd (claim_document s a))"
proof (cases "action_page a")
  case None
  then show ?thesis by (simp add: claim_document_def)
next
  case (Some p)
  show ?thesis
    unfolding claim_document_def Some
    by (auto intro!: attempt_page_local local_set_page split: option.split)
qed

lemma claim_document_fields:
  assumes "claim_document s a = (Inr g, s')"
  shows "g = None \<longleftrightarrow> action_page a = None"
    and "\<And>p. action_page a = Some p \<Longrightarrow>
      \<exists>pg. bm_get (bs_pages s') p = Some pg \<and> g = Some (pg_document_generation pg)"
proof -
  have "(\<exists>p pg. action_page a = Some p \<and> bm_get (bs_pages s') p = Some pg \<and> g = Some (pg_document_generation pg))
      \<or> (action_page a = None \<and> g = None)"
  proof (cases "action_page a")
    case None
    with assms show ?thesis by (simp add: claim_document_def)
  next
    case (Some p)
    obtain pg where pg: "bm_get (bs_pages s) p = Some pg"
      using assms Some by (cases "bm_get (bs_pages s) p") (auto simp: claim_document_def page_of_def)
    show ?thesis
    proof (cases "is_navigation a")
      case True
      with assms Some pg show ?thesis
        by (cases "checked_add u64_max (pg_document_generation pg) 1")
          (auto simp: claim_document_def page_of_def set_page_get)
    next
      case False
      with assms Some pg show ?thesis by (auto simp: claim_document_def page_of_def)
    qed
  qed
  then show "g = None \<longleftrightarrow> action_page a = None"
    and "\<And>p. action_page a = Some p \<Longrightarrow>
      \<exists>pg. bm_get (bs_pages s') p = Some pg \<and> g = Some (pg_document_generation pg)"
    by auto
qed

lemma start_action_record_cases:
  assumes "start_action_record s a host = (r, s')"
  obtains (refused) e where "r = Inl e" "s' = s"
  | (late) e n s1 where "r = Inl e" "n = Suc (bs_next_action s)" "s1 = s\<lparr>bs_next_action := n\<rparr>"
      "s' = s1 \<or> (s' = snd (claim_document s1 a) \<and> fst (claim_document s1 a) = Inl e)"
  | (started) n s1 g s2 generation where
      "r = Inr (ActionId n)" "n = Suc (bs_next_action s)" "s1 = s\<lparr>bs_next_action := n\<rparr>"
      "\<not> bs_closed s" "length (bs_actions s) < MAX_ACTIONS" "check_target s a = Inr ()"
      "host \<noteq> None \<Longrightarrow> n \<le> u32_max"
      "claim_document s1 a = (Inr g, s2)"
      "generation = (case Option.bind (action_context a) (bm_get (bs_contexts s2)) of
                       Some cx \<Rightarrow> cx_generation cx | None \<Rightarrow> bs_generation s2)"
      "s' = s2\<lparr>bs_actions := bm_insert (ActionId n)
          \<lparr>pa_action = a, pa_page = action_page a, pa_context = action_context a,
           pa_generation = generation, pa_document_generation = g, pa_host = host\<rparr> (bs_actions s2),
         bs_ready := (if host \<noteq> None
           then Some ((case bs_ready s2 of Some q \<Rightarrow> q | None \<Rightarrow> []) @ [ActionId n]) else bs_ready s2)\<rparr>"
proof (cases "bs_closed s")
  case True
  with assms show thesis by (intro refused) (auto simp: start_action_record_def ensure_open_def)
next
  case open': False
  show thesis
  proof (cases "MAX_ACTIONS \<le> length (bs_actions s)")
    case True
    with assms open' show thesis by (intro refused) (auto simp: start_action_record_def ensure_open_def)
  next
    case room: False
    show thesis
    proof (cases "check_target s a")
      case (Inl e)
      with assms open' room show thesis by (intro refused) (auto simp: start_action_record_def ensure_open_def)
    next
      case target: (Inr u)
      show thesis
      proof (cases "u64_max < Suc (bs_next_action s)")
        case True
        with assms open' room target show thesis
          by (intro refused) (auto simp: start_action_record_def ensure_open_def next_id_def checked_add_def)
      next
        case False
        then have nid: "next_id (bs_next_action s) = Inr (Suc (bs_next_action s))" by (simp add: next_id_Inr)
        let ?s1 = "s\<lparr>bs_next_action := Suc (bs_next_action s)\<rparr>"
        show thesis
        proof (cases "host \<noteq> None \<and> u32_max < Suc (bs_next_action s)")
          case True
          with assms open' room target nid show thesis
            by (intro late [OF _ refl refl]) (auto simp: start_action_record_def ensure_open_def Let_def)
        next
          case small: False
          obtain x s2 where c: "claim_document ?s1 a = (x, s2)" by fastforce
          show thesis
          proof (cases x)
            case (Inl e)
            with assms open' room target nid small c show thesis
              by (intro late [OF _ refl refl]) (auto simp: start_action_record_def ensure_open_def Let_def)
          next
            case (Inr g)
            have e: "start_action_record s a host = (Inr (ActionId (Suc (bs_next_action s))),
               s2\<lparr>bs_actions := bm_insert (ActionId (Suc (bs_next_action s)))
                \<lparr>pa_action = a, pa_page = action_page a, pa_context = action_context a,
                 pa_generation = (case Option.bind (action_context a) (bm_get (bs_contexts s2)) of
                       Some cx \<Rightarrow> cx_generation cx | None \<Rightarrow> bs_generation s2),
                 pa_document_generation = g, pa_host = host\<rparr> (bs_actions s2),
               bs_ready := (if host \<noteq> None
                 then Some ((case bs_ready s2 of Some q \<Rightarrow> q | None \<Rightarrow> []) @ [ActionId (Suc (bs_next_action s))]) else bs_ready s2)\<rparr>)"
              using open' room target nid small c Inr
              by (simp add: start_action_record_def ensure_open_def Let_def)
            show thesis
              by (rule started [OF _ refl refl open' _ _ _ c [unfolded Inr] refl])
                (use assms e room target small in auto)
          qed
        qed
      qed
    qed
  qed
qed

lemma start_action_record_inv:
  assumes "bs_inv s" and "\<And>h w. host = Some h \<Longrightarrow> ho_wire h = Some w \<Longrightarrow> bm_has (bs_pages s) (wi_target_page w)"
  shows "bs_inv (snd (start_action_record s a host))"
proof -
  obtain r s' where e: "start_action_record s a host = (r, s')" by fastforce
  have later: "bs_inv (s\<lparr>bs_next_action := Suc (bs_next_action s)\<rparr>)"
    using inv_facts [OF assms(1)] inv_content [OF assms(1)] below_mono [OF inv_facts(11) [OF assms(1)]]
    by (simp add: bs_inv_def content_ok_def)
  have "bs_inv s'"
    using e
  proof (cases rule: start_action_record_cases)
    case refused
    with assms(1) show ?thesis by simp
  next
    case (late e n s1)
    with later local_step_inv [OF _ claim_document_local [of s1 a]] show ?thesis by auto
  next
    case (started n s1 g s2 generation)
    have i1: "bs_inv s1" using later started(2,3) by simp
    have l: "local_step s1 s2" using claim_document_local [of s1 a] started(8) by simp
    then have pl: "page_local s1 s2" using inv_content [OF i1] by (simp add: local_step_def)
    have i2: "bs_inv s2" by (rule local_step_inv [OF i1 l])
    note f = inv_facts [OF i2]
    have same: "bs_contexts s2 = bs_contexts s" "bs_actions s2 = bs_actions s" "bs_next_action s2 = n"
      "bs_closed s2 = bs_closed s" "bs_ready s2 = bs_ready s"
      using page_free_fields [of s2 s1] pl started(3) by (simp_all add: page_local_def)
    have pages: "bm_has (bs_pages s2) p = bm_has (bs_pages s) p" for p
      using page_local_has [OF pl] started(3) by simp
    let ?i = "ActionId n"
    let ?pa = "\<lparr>pa_action = a, pa_page = action_page a, pa_context = action_context a,
           pa_generation = generation, pa_document_generation = g, pa_host = host\<rparr>"
    have new: "bm_get (bs_actions s2) ?i = None"
      using below_fresh [OF inv_facts(11) [OF assms(1)], of ?i] started(2) by (simp add: same bm_has_def)
    have ctx: "bm_has (bs_contexts s) c" if "action_context a = Some c" for c
      using that started(6) by (cases a) (auto simp: check_target_def split: if_splits)
    have pg: "bm_has (bs_pages s2) p" if "action_page a = Some p" for p
      using claim_document_fields(2) [OF started(8) that] by (auto simp: bm_has_def)
    have "action_ok (bs_contexts s2) (bs_pages s2) ?pa"
      using ctx pg claim_document_fields(1) [OF started(8)] assms(2)
      by (auto simp: action_ok_def same pages wire_of_def bind_eq_Some_conv)
    then have rel: "action_rel (bs_contexts s2) (bs_pages s2) (bm_insert ?i ?pa (bs_actions s2))"
      using f(5) new started(5) by (auto simp: action_rel_def bm_get_insert bm_length_insert same bm_has_def)
    have u32: "action_num i \<le> u32_max"
      if "bm_get (bm_insert ?i ?pa (bs_actions s2)) i = Some pa" "pa_host pa \<noteq> None" for i pa
    proof (cases "i = ?i")
      case True
      with that started(7) show ?thesis by (auto simp: bm_get_insert)
    next
      case False
      with that f(6) show ?thesis unfolding ready_rel_def by (metis bm_get_insert)
    qed
    have ready: "ready_rel (bm_insert ?i ?pa (bs_actions s2)) (bs_ready s')"
      unfolding ready_rel_def
    proof (intro conjI allI impI u32)
      fix q assume q: "bs_ready s' = Some q"
      define q0 where "q0 = (case bs_ready s2 of Some q \<Rightarrow> q | None \<Rightarrow> [])"
      have old: "distinct q0" "\<forall>i \<in> set q0. \<exists>pa. bm_get (bs_actions s2) i = Some pa \<and> pa_host pa \<noteq> None"
        using f(6) by (cases "bs_ready s2"; simp add: q0_def ready_rel_def)+
      have fresh: "?i \<notin> set q0" using old(2) new by auto
      have cases: "(host \<noteq> None \<and> q = q0 @ [?i]) \<or> (host = None \<and> q = q0 \<and> q0 \<noteq> [])"
        using q f(6) by (cases "bs_ready s2") (auto simp: started(10) q0_def ready_rel_def split: if_splits)
      show "q \<noteq> []" using cases by auto
      show "distinct q" using cases old(1) fresh by auto
      show "\<forall>i \<in> set q. \<exists>pa. bm_get (bm_insert ?i ?pa (bs_actions s2)) i = Some pa \<and> pa_host pa \<noteq> None"
        using cases old(2) fresh by (auto simp: bm_get_insert)
    qed
    have bel: "below action_num (bm_insert ?i ?pa (bs_actions s2)) n"
      using below_insert [OF f(11), of n ?i ?pa] by (simp add: same)
    have closed: "closed_rel (bs_closed s2) (bs_contexts s2) (bs_pages s2) (bs_connections s2)
        (bm_insert ?i ?pa (bs_actions s2)) (bs_next_context s2)"
      using f(12) started(4) by (simp add: closed_rel_def same)
    have "content_ok s'" using inv_content [OF i2] by (simp add: content_ok_def started(10))
    with rel ready bel closed f show ?thesis by (simp add: bs_inv_def started(10) same(3))
  qed
  with e show ?thesis by simp
qed

lemma start_ops_inv:
  assumes "bs_inv s"
  shows "bs_inv (snd (start_action s a))"
    and "bs_inv (snd (start_host_action cd s a kind payload))"
    and "bs_inv (snd (start_host_action_with_metadata cd s a kind payload c p request session))"
proof -
  show "bs_inv (snd (start_action s a))" 
    unfolding start_action_def by (rule start_action_record_inv [OF assms]) simp
  show "bs_inv (snd (start_host_action cd s a kind payload))"
    using assms by (auto simp: start_host_action_def attempt_def split: sum.split
        intro!: start_action_record_inv)
  show "bs_inv (snd (start_host_action_with_metadata cd s a kind payload c p request session))"
  proof (cases "bm_has (bs_pages s) p")
    case True
    then have "bs_inv (snd (start_action_record s a (Some \<lparr>ho_kind = kind, ho_payload = payload,
        ho_wire = Some \<lparr>wi_connection_id = c, wi_target_page = p, wi_request = request, wi_session_id = session\<rparr>\<rparr>)))"
      by (intro start_action_record_inv [OF assms]) auto
    with assms True show ?thesis
      by (auto simp: start_host_action_with_metadata_def attempt_def split: sum.split)
  next
    case False
    with assms show ?thesis
      by (auto simp: start_host_action_with_metadata_def attempt_def split: sum.split)
  qed
qed

section \<open>Completing actions\<close>

lemma apply_navigation_local: "local_step s (snd (apply_navigation_metadata s p v))"
  by (auto simp: apply_navigation_metadata_def attempt_def update_page_local split: sum.split prod.split)

lemma complete_action_inv:
  assumes "bs_inv s"
  shows "bs_inv (snd (complete_action cd s i r))"
proof (cases "bm_get (bs_actions s) i")
  case None
  with assms show ?thesis by (simp add: complete_action_def)
next
  case (Some pa)
  have nav: "bs_inv (snd (apply_navigation_metadata s p v))" for p v
    by (rule local_step_inv [OF assms apply_navigation_local])
  have nav2: "bs_inv (snd (remove_action s' i))" if "apply_navigation_metadata s p v = (x, s')" for p v x s'
    using nav [of p v] that cancel_inv(2) by simp
  have nav1: "bs_inv s'" if "apply_navigation_metadata s p v = (x, s')" for p v x s'
    using nav [of p v] that by simp
  show ?thesis
    using assms cancel_inv(2) [OF assms, of i]
    by (auto simp: complete_action_def Some attempt_def intro: nav1 nav2
        split: sum.split action_result.split option.split prod.split)
qed

section \<open>Pages\<close>

lemma create_page_inv:
  assumes "bs_inv s"
  shows "bs_inv (snd (create_page s c url))"
proof (cases "bs_closed s \<or> validate_url url \<noteq> Inr () \<or> \<not> bm_has (bs_contexts s) c
    \<or> MAX_PAGES \<le> length (bs_pages s) \<or> u64_max < Suc (bs_next_page s)")
  case True
  with assms show ?thesis
    by (auto simp: create_page_def ensure_open_def next_id_def checked_add_def attempt_def split: sum.split)
next
  case False
  let ?n = "Suc (bs_next_page s)"
  let ?pg = "\<lparr>pg_id = PageId ?n, pg_context_id = c, pg_url = url, pg_title = [],
     pg_frame_id = ''page-'' @ show_nat ?n, pg_loader_id = ''loader-'' @ show_nat ?n @ ''-1'',
     pg_document_generation = bs_generation s, pg_network = network_default\<rparr>"
  let ?ps = "bm_insert (PageId ?n) ?pg (bs_pages s)"
  let ?s = "s\<lparr>bs_next_page := ?n, bs_pages := ?ps\<rparr>"
  note f = inv_facts [OF assms]
  have new: "\<not> bm_has (bs_pages s) (PageId ?n)" by (rule below_fresh [OF f(8)]) simp
  have okp: "bm_ok (bs_pages s)" using inv_content [OF assms] by (simp add: content_ok_def)
  have "page_rel (bs_contexts s) ?ps (bs_display s) (bs_fetch_resolutions s) (bs_history s)"
    using f(2) False new okp by (auto simp: page_rel_def bm_get_insert bm_has_insert bm_length_insert)
  moreover have "session_rel ?ps (bs_connections s) (bs_sessions s) (bs_session_connections s)"
    using f(3) by (auto simp: session_rel_def bm_has_insert)
  moreover have "action_rel (bs_contexts s) ?ps (bs_actions s)"
    using f(5) by (auto simp: action_rel_def action_ok_def bm_has_insert)
  moreover have "below page_num ?ps ?n" by (rule below_insert [OF f(8)]) simp_all
  moreover have "closed_rel (bs_closed s) (bs_contexts s) ?ps (bs_connections s) (bs_actions s) (bs_next_context s)"
    using f(12) False by (simp add: closed_rel_def)
  moreover have "content_ok ?s"
    using inv_content [OF assms] by (auto simp: content_ok_def bm_get_insert network_default_ok)
  ultimately have "bs_inv ?s" using f by (simp add: bs_inv_def)
  moreover have "snd (create_page s c url) = ?s"
    using False by (simp add: create_page_def ensure_open_def next_id_def checked_add_def)
  ultimately show ?thesis by simp
qed

lemma ids_where_iff:
  "bm_ok (bs_actions s) \<Longrightarrow> i \<in> set (ids_where P s) \<longleftrightarrow> (\<exists>pa. bm_get (bs_actions s) i = Some pa \<and> P pa)"
  by (force simp: ids_where_def bm_get_iff)

lemma cancel_ids_drop':
  "settle_ready (bs_ready s) = bs_ready s \<Longrightarrow>
   snd (cancel_host_action_ids s ids) = drop_actions (\<lambda>j. j \<in> set ids) s"
proof (cases "ids = []")
  case True
  assume r: "settle_ready (bs_ready s) = bs_ready s"
  have "bm_retain (\<lambda>_ _. True) (bs_actions s) = bs_actions s" by (rule bm_retain_keep) simp
  moreover have "map_option (filter (\<lambda>_. True)) (bs_ready s) = bs_ready s"
    by (cases "bs_ready s") auto
  ultimately show ?thesis using True r by (simp add: cancel_host_action_ids_def drop_actions_def)
qed (simp add: cancel_host_action_ids_def drop_actions_def)

lemma action_rel_shrink:
  assumes "action_rel cs ps actions"
    and "\<And>i pa p. bm_get actions i = Some pa \<Longrightarrow> pa_page pa = Some p \<Longrightarrow> bm_has ps p \<Longrightarrow> bm_has ps' p"
    and "\<And>i pa c. bm_get actions i = Some pa \<Longrightarrow> pa_context pa = Some c \<Longrightarrow> bm_has cs c \<Longrightarrow> bm_has cs' c"
    and "\<And>i pa w. bm_get actions i = Some pa \<Longrightarrow> wire_of pa = Some w \<Longrightarrow> bm_has ps (wi_target_page w) \<Longrightarrow>
           bm_has ps' (wi_target_page w)"
  shows "action_rel cs' ps' actions"
  unfolding action_rel_def
proof (intro conjI allI impI)
  show "bm_ok actions" "length actions \<le> MAX_ACTIONS" using assms(1) by (simp_all add: action_rel_def)
  fix i pa assume pa: "bm_get actions i = Some pa"
  then have "action_ok cs ps pa" using assms(1) by (simp add: action_rel_def)
  then show "action_ok cs' ps' pa"
    unfolding action_ok_def using assms(2-4) [OF pa] by blast
qed

text \<open>The tables of one page.\<close>

definition drop_page :: "page_id \<Rightarrow> browser \<Rightarrow> browser" where
  "drop_page p s =
     (let sessions = bm_retain (\<lambda>_ page. page \<noteq> p) (bs_sessions s) in
      s\<lparr>bs_pages := bm_remove p (bs_pages s),
        bs_display := bm_remove p (bs_display s),
        bs_fetch_resolutions := bm_remove p (bs_fetch_resolutions s),
        bs_history := bm_remove p (bs_history s),
        bs_sessions := sessions,
        bs_session_connections := bm_retain (\<lambda>i _. i \<in> set (bm_keys sessions)) (bs_session_connections s)\<rparr>)"

lemma remove_page_state_eq:
  assumes "bs_inv s" and "bm_has (bs_pages s) p"
  shows "snd (remove_page_state s p) = drop_page p (drop_actions (\<lambda>i. i \<in> set (ids_where (targets_page p) s)) s)"
proof -
  have "snd (remove_page_state s p) =
      snd (cancel_host_action_ids (drop_page p s) (ids_where (targets_page p) (drop_page p s)))"
    using assms(2) by (simp add: remove_page_state_def drop_page_def Let_def)
  also have "\<dots> = drop_actions (\<lambda>i. i \<in> set (ids_where (targets_page p) (drop_page p s))) (drop_page p s)"
    by (rule cancel_ids_drop') (simp add: drop_page_def Let_def ready_never_empty [OF assms(1)])
  finally show ?thesis by (simp add: drop_page_def drop_actions_def ids_where_def Let_def)
qed

lemma session_rel_drop_page:
  assumes rel: "session_rel pages cs ss os" and ss'_def: "ss' = bm_retain (\<lambda>_ page. page \<noteq> p) ss"
  shows "session_rel (bm_remove p pages) cs ss' (bm_retain (\<lambda>i _. i \<in> set (bm_keys ss')) os)"
proof -
  have ok: "bm_ok ss" "bm_ok os" using rel by (simp_all add: session_rel_def)
  have get: "bm_get ss' i = Some q \<longleftrightarrow> bm_get ss i = Some q \<and> q \<noteq> p" for i q
    using ok by (auto simp: ss'_def bm_get_retain split: option.split)
  have has: "bm_has ss' i \<Longrightarrow> bm_has ss i" for i by (auto simp: ss'_def dest: bm_has_retain)
  have "length ss' \<le> length ss" by (simp add: ss'_def bm_length_retain)
  then show ?thesis
    using rel ok has
    by (auto simp: session_rel_def get bm_has_remove bm_get_retain_key bm_has_keys [symmetric]
        ss'_def [symmetric] bm_has_def [of "bm_retain _ os"] split: if_splits)
      (auto simp: ss'_def bm_has_def)
qed

lemma drop_page_inv:
  assumes "bs_inv s" and "\<And>i pa. bm_get (bs_actions s) i = Some pa \<Longrightarrow> \<not> targets_page p pa"
  shows "bs_inv (drop_page p s)"
proof -
  note f = inv_facts [OF assms(1)]
  have c: "content_ok s" by (rule inv_content [OF assms(1)])
  have "page_rel (bs_contexts s) (bm_remove p (bs_pages s)) (bm_remove p (bs_display s))
      (bm_remove p (bs_fetch_resolutions s)) (bm_remove p (bs_history s))"
    using f(2) le_trans [OF bm_length_remove [of p "bs_pages s"]]
    by (auto simp: page_rel_def bm_has_remove bm_get_remove split: if_splits)
  moreover have "action_rel (bs_contexts s) (bm_remove p (bs_pages s)) (bs_actions s)"
    by (rule action_rel_shrink [OF f(5)])
      (auto simp: bm_has_remove targets_page_def dest: assms(2))
  moreover have "closed_rel (bs_closed s) (bs_contexts s) (bm_remove p (bs_pages s)) (bs_connections s)
      (bs_actions s) (bs_next_context s)"
    using f(12) by (simp add: closed_rel_def bm_remove_def bm_retain_def split: if_splits)
  moreover have "content_ok (drop_page p s)"
    using c by (auto simp: content_ok_def drop_page_def Let_def bm_get_remove split: if_splits)
  ultimately show ?thesis
    using f session_rel_drop_page [OF f(3) refl, of p] below_remove [OF f(8), of p]
      below_retain [OF f(10), of "\<lambda>_ page. page \<noteq> p"]
    by (simp add: bs_inv_def drop_page_def Let_def)
qed

lemma remove_page_state_inv:
  assumes "bs_inv s"
  shows "bs_inv (snd (remove_page_state s p))"
proof (cases "bm_has (bs_pages s) p")
  case False
  with assms show ?thesis by (simp add: remove_page_state_def)
next
  case True
  let ?t = "drop_actions (\<lambda>i. i \<in> set (ids_where (targets_page p) s)) s"
  have ok: "bm_ok (bs_actions s)" using inv_facts(5) [OF assms] by (simp add: action_rel_def)
  have "\<not> targets_page p pa" if "bm_get (bs_actions ?t) i = Some pa" for i pa
    using that by (auto simp: drop_actions_def bm_get_retain_key ids_where_iff [OF ok] split: if_splits)
  then show ?thesis
    unfolding remove_page_state_eq [OF assms True] by (rule drop_page_inv [OF drop_actions_inv [OF assms]])
qed

section \<open>Contexts\<close>

text \<open>Removing pages does not look at the contexts, so a context may be dropped last.\<close>

definition recontext :: "(context_id, context_state) bmap \<Rightarrow> (context_id, cookie_map) bmap \<Rightarrow> browser \<Rightarrow> browser" where
  "recontext cs ck s = s\<lparr>bs_contexts := cs, bs_cookies := ck\<rparr>"

lemma remove_page_recontext:
  "snd (remove_page_state (recontext cs ck s) p) = recontext cs ck (snd (remove_page_state s p))"
  by (simp add: remove_page_state_def recontext_def cancel_host_action_ids_def ids_where_def Let_def)

lemma fold_remove_recontext:
  "fold (\<lambda>p st. snd (remove_page_state st p)) ps (recontext cs ck s) =
     recontext cs ck (fold (\<lambda>p st. snd (remove_page_state st p)) ps s)"
  by (induction ps arbitrary: s) (simp_all add: remove_page_recontext)

lemma fold_remove_inv: "bs_inv s \<Longrightarrow> bs_inv (fold (\<lambda>p st. snd (remove_page_state st p)) ps s)"
  by (induction ps arbitrary: s) (simp_all add: remove_page_state_inv)

lemma remove_page_frame:
  "bm_get (bs_pages (snd (remove_page_state s p))) q = (if q = p then None else bm_get (bs_pages s) q)"
  "bs_contexts (snd (remove_page_state s p)) = bs_contexts s"
  "bs_cookies (snd (remove_page_state s p)) = bs_cookies s"
  "bm_get (bs_actions (snd (remove_page_state s p))) i = Some pa \<Longrightarrow> bm_get (bs_actions s) i = Some pa"
  by (auto simp: remove_page_state_def cancel_host_action_ids_def Let_def bm_get_remove bm_has_def
      bm_get_retain_key split: if_splits)

lemma fold_remove_frame:
  "bm_get (bs_pages (fold (\<lambda>p st. snd (remove_page_state st p)) ps s)) q =
     (if q \<in> set ps then None else bm_get (bs_pages s) q)"
  "bs_contexts (fold (\<lambda>p st. snd (remove_page_state st p)) ps s) = bs_contexts s"
  "bs_cookies (fold (\<lambda>p st. snd (remove_page_state st p)) ps s) = bs_cookies s"
  "bm_get (bs_actions (fold (\<lambda>p st. snd (remove_page_state st p)) ps s)) i = Some pa \<Longrightarrow>
     bm_get (bs_actions s) i = Some pa"
proof -
  show "bm_get (bs_pages (fold (\<lambda>p st. snd (remove_page_state st p)) ps s)) q =
     (if q \<in> set ps then None else bm_get (bs_pages s) q)"
    by (induction ps arbitrary: s) (simp_all add: remove_page_frame(1))
  show "bs_contexts (fold (\<lambda>p st. snd (remove_page_state st p)) ps s) = bs_contexts s"
    "bs_cookies (fold (\<lambda>p st. snd (remove_page_state st p)) ps s) = bs_cookies s"
    by (induction ps arbitrary: s) (simp_all add: remove_page_frame(2,3))
  show "bm_get (bs_actions (fold (\<lambda>p st. snd (remove_page_state st p)) ps s)) i = Some pa \<Longrightarrow>
     bm_get (bs_actions s) i = Some pa"
  proof (induction ps arbitrary: s)
    case (Cons p ps)
    then have "bm_get (bs_actions (snd (remove_page_state s p))) i = Some pa" by simp
    then show ?case by (rule remove_page_frame(4))
  qed simp
qed

definition context_pages :: "browser \<Rightarrow> context_id \<Rightarrow> page_id list" where
  "context_pages s c = map pg_id (filter (\<lambda>pg. pg_context_id pg = c) (bm_values (bs_pages s)))"

lemma context_pages_iff:
  assumes "bs_inv s"
  shows "p \<in> set (context_pages s c) \<longleftrightarrow> (\<exists>pg. bm_get (bs_pages s) p = Some pg \<and> pg_context_id pg = c)"
proof -
  have ok: "bm_ok (bs_pages s)" using inv_content [OF assms] by (simp add: content_ok_def)
  have "bm_get (bs_pages s) q = Some pg \<Longrightarrow> pg_id pg = q" for q pg
    using inv_facts(2) [OF assms] by (simp add: page_rel_def)
  then show ?thesis by (auto simp: context_pages_def bm_values_iff [OF ok] image_iff)
qed

text \<open>\<open>dispose_context\<close> as its three effects.\<close>

definition disposed :: "context_id \<Rightarrow> browser \<Rightarrow> browser" where
  "disposed c s =
     (let s1 = drop_actions (\<lambda>i. i \<in> set (ids_where (\<lambda>pa. pa_context pa = Some c) s)) s
      in fold (\<lambda>p st. snd (remove_page_state st p)) (context_pages s c) s1)"

lemma dispose_context_eq:
  assumes "bs_inv s" and "\<not> bs_closed s" and "c \<noteq> default_context" and "bm_has (bs_contexts s) c"
  shows "dispose_context s c =
    (Inr (), recontext (bm_remove c (bs_contexts s)) (bm_remove c (bs_cookies s)) (disposed c s))"
proof -
  let ?cs = "bm_remove c (bs_contexts s)" and ?ck = "bm_remove c (bs_cookies s)"
  have "snd (cancel_host_action_ids (recontext ?cs ?ck s)
        (ids_where (\<lambda>pa. pa_context pa = Some c) (recontext ?cs ?ck s)))
      = recontext ?cs ?ck (drop_actions (\<lambda>i. i \<in> set (ids_where (\<lambda>pa. pa_context pa = Some c) s)) s)"
    by (subst cancel_ids_drop')
      (simp_all add: recontext_def ready_never_empty [OF assms(1)] drop_actions_def ids_where_def)
  moreover have "context_pages (recontext ?cs ?ck (drop_actions (\<lambda>i. i \<in> set (ids_where (\<lambda>pa. pa_context pa = Some c) s)) s)) c
      = context_pages s c"
    by (simp add: context_pages_def recontext_def drop_actions_def)
  ultimately show ?thesis
    using assms(2-4)
    by (simp add: dispose_context_def ensure_open_def Let_def recontext_def [symmetric]
        fold_remove_recontext disposed_def context_pages_def [symmetric])
qed

lemma disposed_inv: "bs_inv s \<Longrightarrow> bs_inv (disposed c s)"
  by (simp add: disposed_def Let_def fold_remove_inv drop_actions_inv)

lemma disposed_pages:
  assumes "bs_inv s"
  shows "bm_get (bs_pages (disposed c s)) p =
    (case bm_get (bs_pages s) p of Some pg \<Rightarrow> if pg_context_id pg = c then None else Some pg | None \<Rightarrow> None)"
  using context_pages_iff [OF assms, of p c]
  by (auto simp: disposed_def Let_def fold_remove_frame drop_actions_def split: option.split)

lemma disposed_actions:
  assumes "bs_inv s" and "bm_get (bs_actions (disposed c s)) i = Some pa"
  shows "bm_get (bs_actions s) i = Some pa" and "pa_context pa \<noteq> Some c"
proof -
  have ok: "bm_ok (bs_actions s)" using inv_facts(5) [OF assms(1)] by (simp add: action_rel_def)
  have "bm_get (bs_actions (drop_actions (\<lambda>i. i \<in> set (ids_where (\<lambda>pa. pa_context pa = Some c) s)) s)) i = Some pa"
    using assms(2) by (auto simp: disposed_def Let_def dest: fold_remove_frame(4))
  then show "bm_get (bs_actions s) i = Some pa" and "pa_context pa \<noteq> Some c"
    by (auto simp: drop_actions_def bm_get_retain_key ids_where_iff [OF ok] split: if_splits)
qed

lemma dispose_context_inv:
  assumes "bs_inv s"
  shows "bs_inv (snd (dispose_context s c))"
proof (cases "bs_closed s \<or> c = default_context \<or> \<not> bm_has (bs_contexts s) c")
  case True
  with assms show ?thesis by (auto simp: dispose_context_def ensure_open_def)
next
  case False
  let ?t = "disposed c s"
  have i: "bs_inv ?t" by (rule disposed_inv [OF assms])
  note f = inv_facts [OF i]
  have same: "bs_contexts ?t = bs_contexts s" "bs_cookies ?t = bs_cookies s"
    by (simp_all add: disposed_def Let_def fold_remove_frame drop_actions_def)
  have nopage: "pg_context_id pg \<noteq> c" if "bm_get (bs_pages ?t) p = Some pg" for p pg
    using that by (auto simp: disposed_pages [OF assms] split: option.splits if_splits)
  let ?cs = "bm_remove c (bs_contexts ?t)" and ?ck = "bm_remove c (bs_cookies ?t)"
  have "context_rel ?cs ?ck"
    using f(1) le_trans [OF bm_length_remove [of c "bs_contexts ?t"]]
    by (auto simp: context_rel_def bm_has_remove bm_get_remove split: if_splits)
  moreover have "page_rel ?cs (bs_pages ?t) (bs_display ?t) (bs_fetch_resolutions ?t) (bs_history ?t)"
    using f(2) nopage by (auto simp: page_rel_def bm_has_remove)
  moreover have "action_rel ?cs (bs_pages ?t) (bs_actions ?t)"
    by (rule action_rel_shrink [OF f(5)]) (auto simp: bm_has_remove dest: disposed_actions(2) [OF assms])
  moreover have "closed_rel (bs_closed ?t) ?cs (bs_pages ?t) (bs_connections ?t) (bs_actions ?t) (bs_next_context ?t)"
    using f(12) False by (auto simp: closed_rel_def bm_has_remove split: if_splits)
  moreover have "content_ok (recontext ?cs ?ck ?t)"
    using inv_content [OF i] by (simp add: content_ok_def recontext_def)
  ultimately have "bs_inv (recontext ?cs ?ck ?t)"
    using f below_remove [OF f(7), of c] by (simp add: bs_inv_def recontext_def)
  then show ?thesis using False by (simp add: dispose_context_eq [OF assms] same)
qed

lemma close_page_inv: "bs_inv s \<Longrightarrow> bs_inv (snd (close_page s p))"
  by (simp add: close_page_def attempt_def ensure_open_def remove_page_state_inv split: sum.split)

lemma close_browser_inv: "bs_inv s \<Longrightarrow> bs_inv (close_browser s)"
  by (auto simp: bs_inv_def close_browser_def context_rel_def page_rel_def session_rel_def event_rel_def
      action_rel_def ready_rel_def below_def closed_rel_def content_ok_def bm_has_def)

end
