(* ===== verification/CdpSteps.thy ===== *)
theory CdpSteps
  imports CdpLife IdSource
begin

text \<open>
  The browser state as a transition system: one label per method that changes it, executed by the
  method, and the states reachable from a new browser. The invariant holds in all of them, the
  eviction loop of the response bodies always ends, and no identity is ever issued twice.
\<close>

datatype bs_op =
  CreateContext context_options | DisposeContext context_id
| ImportContext string | RestoreContext context_id string
| CreatePage context_id string | ClosePage page_id
| OpenConnection | CloseConnection connection_id
| Attach connection_id page_id | Detach session_id
| StartAction engine_action | StartHostAction engine_action string json
| StartWireAction engine_action string json connection_id page_id json "string option"
| CompleteAction action_id action_result | CancelAction action_id
| CancelForConnection connection_id | CancelForSession connection_id string | CancelForPage page_id
| ClaimAction action_id | DrainActions nat
| QueueEvent connection_id cdp_event | DrainEvents connection_id nat nat nat
| DiscardEvents connection_id string
| ReplaceCookies page_id "context_cookie list" nat | MergeCookies context_id "context_cookie list" nat
| DeleteCookies context_id string string "string option" | ClearCookies context_id
| ClearOrigin page_id string
| SetDeviceMetrics page_id nat nat f64 bool | ClearDeviceMetrics page_id
| SetLayoutMetrics page_id f64 f64 f64 f64 | SetEmulatedMedia page_id string
| SetFocusEmulation page_id bool | ResetHistory page_id
| NetworkEnable page_id session_id | NetworkDisable page_id "session_id option"
| SetCacheDisabled page_id bool | SetExtraHeaders page_id "(string, string) bmap"
| StoreBody page_id string string bool | ClearBodies page_id
| SetFetchPatterns page_id session_id "fetch_pattern list" | ClearFetchPatterns page_id session_id
| PauseRequest page_id string | UnpauseRequest page_id string
| ResolveFetch page_id string json | DrainFetch page_id nat
| UpdatePage page_id "string option" "string option" "string option" "nat option"
| CloseBrowser

text \<open>\<open>None\<close>: the method does not return.\<close>

fun bs_exec :: "codec \<Rightarrow> (string \<Rightarrow> string option option) \<Rightarrow> browser \<Rightarrow> bs_op \<Rightarrow> browser option" where
  "bs_exec cd host_of s (CreateContext opts) = Some (snd (create_context s opts))"
| "bs_exec cd host_of s (DisposeContext c) = Some (snd (dispose_context s c))"
| "bs_exec cd host_of s (ImportContext bs) = Some (snd (import_context cd s bs))"
| "bs_exec cd host_of s (RestoreContext c bs) = Some (snd (restore_context cd s c bs))"
| "bs_exec cd host_of s (CreatePage c url) = Some (snd (create_page s c url))"
| "bs_exec cd host_of s (ClosePage p) = Some (snd (close_page s p))"
| "bs_exec cd host_of s OpenConnection = Some (snd (open_connection s))"
| "bs_exec cd host_of s (CloseConnection c) = Some (snd (close_connection s c))"
| "bs_exec cd host_of s (Attach c p) = Some (snd (attach s c p))"
| "bs_exec cd host_of s (Detach i) = Some (snd (detach s i))"
| "bs_exec cd host_of s (StartAction a) = Some (snd (start_action s a))"
| "bs_exec cd host_of s (StartHostAction a kind v) = Some (snd (start_host_action cd s a kind v))"
| "bs_exec cd host_of s (StartWireAction a kind v c p r session) =
     Some (snd (start_host_action_with_metadata cd s a kind v c p r session))"
| "bs_exec cd host_of s (CompleteAction i r) = Some (snd (complete_action cd s i r))"
| "bs_exec cd host_of s (CancelAction i) = Some (snd (cancel_action s i))"
| "bs_exec cd host_of s (CancelForConnection c) = Some (snd (cancel_host_actions_for_connection s c))"
| "bs_exec cd host_of s (CancelForSession c i) = Some (snd (cancel_host_actions_for_session s c i))"
| "bs_exec cd host_of s (CancelForPage p) = Some (snd (cancel_host_actions_for_page s p))"
| "bs_exec cd host_of s (ClaimAction i) = Some (snd (claim_host_action s i))"
| "bs_exec cd host_of s (DrainActions n) = Some (snd (drain_host_actions s n))"
| "bs_exec cd host_of s (QueueEvent c ev) = Some (snd (queue_event cd s c ev))"
| "bs_exec cd host_of s (DrainEvents c items budget overhead) =
     Some (snd (drain_framed_events s c items budget overhead))"
| "bs_exec cd host_of s (DiscardEvents c i) = Some (discard_session_events s c i)"
| "bs_exec cd host_of s (ReplaceCookies p ks now) = Some (snd (replace_context_cookies s p ks now))"
| "bs_exec cd host_of s (MergeCookies c ks now) = Some (snd (merge_context_cookies_for_context s c ks now))"
| "bs_exec cd host_of s (DeleteCookies c name domain path) =
     Some (snd (delete_context_cookies_for_context s c name domain path))"
| "bs_exec cd host_of s (ClearCookies c) = Some (snd (clear_context_cookies_for_context s c))"
| "bs_exec cd host_of s (ClearOrigin p origin) = Some (snd (clear_context_cookies_for_origin host_of s p origin))"
| "bs_exec cd host_of s (SetDeviceMetrics p w h scale mobile) = Some (snd (set_device_metrics s p w h scale mobile))"
| "bs_exec cd host_of s (ClearDeviceMetrics p) = Some (snd (clear_device_metrics s p))"
| "bs_exec cd host_of s (SetLayoutMetrics p x y w h) = Some (snd (set_layout_metrics s p x y w h))"
| "bs_exec cd host_of s (SetEmulatedMedia p m) = Some (snd (set_emulated_media s p m))"
| "bs_exec cd host_of s (SetFocusEmulation p b) = Some (snd (set_focus_emulation s p b))"
| "bs_exec cd host_of s (ResetHistory p) = Some (snd (reset_navigation_history s p))"
| "bs_exec cd host_of s (NetworkEnable p i) = Some (snd (network_enable s p i))"
| "bs_exec cd host_of s (NetworkDisable p i) = Some (snd (network_disable s p i))"
| "bs_exec cd host_of s (SetCacheDisabled p b) = Some (snd (set_cache_disabled s p b))"
| "bs_exec cd host_of s (SetExtraHeaders p h) = Some (snd (set_extra_headers s p h))"
| "bs_exec cd host_of s (StoreBody p r body base64) = map_option snd (store_response_body s p r body base64)"
| "bs_exec cd host_of s (ClearBodies p) = Some (snd (clear_response_bodies s p))"
| "bs_exec cd host_of s (SetFetchPatterns p i ps) = Some (snd (set_fetch_patterns s p i ps))"
| "bs_exec cd host_of s (ClearFetchPatterns p i) = Some (snd (clear_fetch_patterns s p i))"
| "bs_exec cd host_of s (PauseRequest p r) = Some (snd (register_paused_request s p r))"
| "bs_exec cd host_of s (UnpauseRequest p r) = Some (snd (cancel_paused_request s p r))"
| "bs_exec cd host_of s (ResolveFetch p r v) = Some (snd (queue_fetch_resolution s p r v))"
| "bs_exec cd host_of s (DrainFetch p n) = Some (snd (drain_fetch_resolutions s p n))"
| "bs_exec cd host_of s (UpdatePage p u t l g) = Some (snd (update_page s p u t l g))"
| "bs_exec cd host_of s CloseBrowser = Some (close_browser s)"

inductive reachable :: "codec \<Rightarrow> (string \<Rightarrow> string option option) \<Rightarrow> browser \<Rightarrow> bool"
  for cd host_of where
  start: "reachable cd host_of browser_new"
| step: "reachable cd host_of s \<Longrightarrow> bs_exec cd host_of s e = Some s' \<Longrightarrow> reachable cd host_of s'"

lemma store_returns: "content_ok s \<Longrightarrow> store_response_body s p r body base64 \<noteq> None"
proof (cases "bm_get (bs_pages s) p")
  case (Some pg)
  assume c: "content_ok s"
  with Some have ok: "bodies_ok (pg_network pg)" by (simp add: content_ok_def network_ok_def)
  then have "bodies_ok (remove_body r (pg_network pg))" by (simp add: remove_body_drop drop_body_ok)
  from evict_bodies_ends [OF this, of "length body"] show ?thesis
    by (auto simp: store_response_body_def Some Let_def split: option.split)
qed (simp add: store_response_body_def)

lemma bs_exec_returns: "bs_inv s \<Longrightarrow> \<exists>s'. bs_exec cd host_of s e = Some s'"
  using store_returns [OF inv_content] by (cases e) fastforce+

lemma store_inv: "bs_inv s \<Longrightarrow> store_response_body s p r body base64 = Some (x, s') \<Longrightarrow> bs_inv s'"
  by (rule local_step_inv [OF _ store_response_body_local [OF inv_content]])

lemmas page_steps_local = display_steps_local reset_history_local network_steps_local
  queue_fetch_local clear_fetch_patterns_local drain_fetch_local update_page_local

lemmas table_steps_inv = create_context_inv dispose_context_inv import_context_inv restore_context_inv
  create_page_inv close_page_inv open_connection_inv close_connection_inv attach_inv detach_inv
  start_ops_inv complete_action_inv cancel_inv claim_inv drain_inv queue_event_inv drain_events_inv
  discard_events_inv cookie_ops_inv close_browser_inv

lemma bs_exec_inv:
  assumes "bs_inv s" and "bs_exec cd host_of s e = Some s'"
  shows "bs_inv s'"
proof (cases "\<exists>p r body base64. e = StoreBody p r body base64")
  case True
  with assms show ?thesis by (auto dest: store_inv)
next
  case False
  from assms(2) False show ?thesis
    by (cases e) (auto simp: table_steps_inv [OF assms(1)] intro: local_step_inv [OF assms(1)] page_steps_local)
qed

lemma reachable_inv: "reachable cd host_of s \<Longrightarrow> bs_inv s"
  by (induction rule: reachable.induct) (auto intro: browser_new_inv bs_exec_inv)

section \<open>Identities\<close>

datatype id_kind = ContextIds | PageIds | ConnectionIds | SessionIds | ActionIds

fun counter_of :: "id_kind \<Rightarrow> browser \<Rightarrow> nat" where
  "counter_of ContextIds s = bs_next_context s"
| "counter_of PageIds s = bs_next_page s"
| "counter_of ConnectionIds s = bs_next_connection s"
| "counter_of SessionIds s = bs_next_session s"
| "counter_of ActionIds s = bs_next_action s"

definition got :: "('a \<Rightarrow> nat) \<Rightarrow> 'a cdp_result \<Rightarrow> nat option" where
  "got num r = (case r of Inr i \<Rightarrow> Some (num i) | Inl _ \<Rightarrow> None)"

text \<open>The number of the identity that a method returns, if it is of the given kind.\<close>

definition returned_id :: "codec \<Rightarrow> id_kind \<Rightarrow> browser \<Rightarrow> bs_op \<Rightarrow> nat option" where
  "returned_id cd k s e =
     (case k of
        ContextIds \<Rightarrow>
         (case e of CreateContext opts \<Rightarrow> got context_num (fst (create_context s opts))
          | ImportContext bs \<Rightarrow> got context_num (fst (import_context cd s bs))
          | _ \<Rightarrow> None)
      | PageIds \<Rightarrow> (case e of CreatePage c url \<Rightarrow> got page_num (fst (create_page s c url)) | _ \<Rightarrow> None)
      | ConnectionIds \<Rightarrow> (case e of OpenConnection \<Rightarrow> got connection_num (fst (open_connection s)) | _ \<Rightarrow> None)
      | SessionIds \<Rightarrow> (case e of Attach c p \<Rightarrow> got session_num (fst (attach s c p)) | _ \<Rightarrow> None)
      | ActionIds \<Rightarrow>
         (case e of StartAction a \<Rightarrow> got action_num (fst (start_action s a))
          | StartHostAction a kind v \<Rightarrow> got action_num (fst (start_host_action cd s a kind v))
          | StartWireAction a kind v c p r session \<Rightarrow>
              got action_num (fst (start_host_action_with_metadata cd s a kind v c p r session))
          | _ \<Rightarrow> None))"

definition bs_issue ::
    "codec \<Rightarrow> (string \<Rightarrow> string option option) \<Rightarrow> id_kind \<Rightarrow> browser \<Rightarrow> bs_op \<Rightarrow> browser \<times> nat option" where
  "bs_issue cd host_of k s e =
     ((case bs_exec cd host_of s e of Some s' \<Rightarrow> s' | None \<Rightarrow> s), returned_id cd k s e)"

text \<open>The numbers a run of methods returns, in order.\<close>

definition issued_ids ::
    "codec \<Rightarrow> (string \<Rightarrow> string option option) \<Rightarrow> id_kind \<Rightarrow> browser \<Rightarrow> bs_op list \<Rightarrow> nat list" where
  "issued_ids cd host_of k s es = issued (bs_issue cd host_of k) s es"

definition counters :: "browser \<Rightarrow> nat list" where
  "counters s = [bs_next_context s, bs_next_page s, bs_next_connection s, bs_next_session s, bs_next_action s]"

lemma counter_of_counters: "counters s = counters s' \<Longrightarrow> counter_of k s = counter_of k s'"
  by (cases k) (simp_all add: counters_def)

lemma page_free_counters:
  assumes "page_free s' = page_free s"
  shows "counters s' = counters s"
  by (simp add: counters_def page_free_fields [OF assms])

lemma local_counters: "bs_inv s \<Longrightarrow> local_step s s' \<Longrightarrow> counters s' = counters s"
  by (rule page_free_counters) (auto simp: local_step_def page_local_def dest: inv_content)

lemma set_cookies_counters: "counters (set_cookies c m s) = counters s"
  by (simp add: counters_def set_cookies_def)

lemma drop_actions_counters: "counters (drop_actions P s) = counters s"
  by (simp add: counters_def drop_actions_def)

lemma cancel_counters: "counters (snd (cancel_host_action_ids s ids)) = counters s"
  by (simp add: counters_def cancel_host_action_ids_def)

lemma cookie_ops_counters:
  "counters (snd (replace_context_cookies s p ks now)) = counters s"
  "counters (snd (merge_context_cookies_for_context s c ks now)) = counters s"
  "counters (snd (delete_context_cookies_for_context s c name domain path)) = counters s"
  "counters (snd (clear_context_cookies_for_context s c)) = counters s"
  "counters (snd (clear_context_cookies_for_origin host_of s p origin)) = counters s"
  by (simp_all add: replace_context_cookies_def merge_context_cookies_for_context_def
      delete_context_cookies_for_context_def clear_context_cookies_for_context_def
      clear_context_cookies_for_origin_def attempt_def Let_def set_cookies_counters
      split: sum.split option.split)

lemma remove_action_counters: "counters (snd (remove_action s i)) = counters s"
  by (simp add: remove_action_drop drop_actions_counters)

lemma remove_page_counters: "counters (snd (remove_page_state s p)) = counters s"
  by (simp add: remove_page_state_def Let_def cancel_counters) (simp add: counters_def)

lemma dispose_counters: "counters (snd (dispose_context s c)) = counters s"
proof -
  have "counters (fold (\<lambda>p st. snd (remove_page_state st p)) ps s) = counters s" for ps s
    by (induction ps arbitrary: s) (simp_all add: remove_page_counters)
  then show ?thesis
    by (simp add: dispose_context_def ensure_open_def Let_def cancel_counters) (simp add: counters_def)
qed

lemma detach_counters: "bs_inv s \<Longrightarrow> counters (snd (detach s i)) = counters s"
proof -
  have q: "counters (snd (queue_fetch_resolution s p r v)) = counters s" for s p r v
    by (simp add: counters_def queue_fetch_resolution_def page_of_def attempt_def need_def Let_def
        set_network_def set_page_def split: option.split sum.split)
  have c: "counters (snd (continue_all s p rs)) = counters s" for s p rs
  proof (induction rs arbitrary: s)
    case (Cons r rs)
    obtain x s' where e: "queue_fetch_resolution s p r (continue_resolution r) = (x, s')" by fastforce
    with q [of s p r "continue_resolution r"] Cons.IH [of s'] show ?case by (simp split: sum.split)
  qed simp
  show ?thesis
    by (simp add: detach_def clear_fetch_patterns_def page_of_def attempt_def need_def Let_def c
        split: option.split sum.split) (simp add: counters_def set_network_def set_page_def)
qed

lemma close_connection_counters: "bs_inv s \<Longrightarrow> counters (snd (close_connection s c)) = counters s"
proof -
  assume i: "bs_inv s"
  have f: "bs_inv s \<Longrightarrow> counters (fold (\<lambda>i st. snd (detach st i)) is s) = counters s" for "is" s
    by (induction "is" arbitrary: s) (simp_all add: detach_counters detach_inv)
  show ?thesis
  proof (cases "bm_has (bs_connections s) c")
    case True
    from f [OF i] show ?thesis
      unfolding close_connection_eq [OF i True] by (simp add: unlink_def counters_def)
  qed (simp add: close_connection_def counters_def)
qed

lemma complete_counters: "bs_inv s \<Longrightarrow> counters (snd (complete_action cd s i r)) = counters s"
proof -
  assume inv: "bs_inv s"
  have nav: "counters s' = counters s" if "apply_navigation_metadata s p v = (x, s')" for p v x s'
    using local_counters [OF inv apply_navigation_local [of s p v]] that by simp
  show ?thesis
    by (auto simp: complete_action_def attempt_def remove_action_counters nav
        split: option.split sum.split action_result.split prod.split)
qed

lemma event_counters:
  "counters (snd (queue_event cd s c ev)) = counters s"
  "counters (snd (drain_framed_events s c items budget overhead)) = counters s"
  "counters (discard_session_events s c session) = counters s"
  by (simp_all add: counters_def queue_event_def drain_framed_events_def discard_session_events_def Let_def
      split: sum.split option.split prod.split)

lemma queue_counters:
  "counters (snd (claim_host_action s i)) = counters s"
  "counters (snd (drain_host_actions s n)) = counters s"
  by (simp_all add: counters_def claim_host_action_def drain_host_actions_def Let_def
      split: option.split prod.split)

lemma start_record_counter:
  assumes "bs_inv s" and "start_action_record s a host = (r, s')"
  shows "bs_next_action s \<le> bs_next_action s'"
    and "got action_num r = Some n \<Longrightarrow> n = Suc (bs_next_action s) \<and> bs_next_action s' = n"
    and "counters s' = (counters s)[4 := bs_next_action s']"
proof -
  let ?s1 = "s\<lparr>bs_next_action := Suc (bs_next_action s)\<rparr>"
  have "bs_inv ?s1"
    using inv_facts [OF assms(1)] inv_content [OF assms(1)] below_mono [OF inv_facts(11) [OF assms(1)]]
    by (simp add: bs_inv_def content_ok_def)
  then have claim: "counters (snd (claim_document ?s1 a)) = counters ?s1"
    by (rule local_counters) (rule claim_document_local)
  have "bs_next_action s \<le> bs_next_action s'
      \<and> (\<forall>n. got action_num r = Some n \<longrightarrow> n = Suc (bs_next_action s) \<and> bs_next_action s' = n)
      \<and> counters s' = (counters s)[4 := bs_next_action s']"
    using assms(2)
  proof (cases rule: start_action_record_cases)
    case refused
    then show ?thesis by (simp add: got_def counters_def)
  next
    case (late e n s1)
    then show ?thesis using claim by (auto simp: got_def counters_def)
  next
    case (started n s1 g s2 generation)
    then show ?thesis using claim by (simp add: got_def counters_def)
  qed
  then show "bs_next_action s \<le> bs_next_action s'"
    and "got action_num r = Some n \<Longrightarrow> n = Suc (bs_next_action s) \<and> bs_next_action s' = n"
    and "counters s' = (counters s)[4 := bs_next_action s']"
    by auto
qed

definition grows :: "id_kind \<Rightarrow> browser \<Rightarrow> browser \<Rightarrow> nat option \<Rightarrow> bool" where
  "grows k s s' r \<longleftrightarrow>
     counter_of k s \<le> counter_of k s'
     \<and> (\<forall>n. r = Some n \<longrightarrow> n = Suc (counter_of k s) \<and> counter_of k s' = n)"

lemma grows_same: "counters s' = counters s \<Longrightarrow> grows k s s' None"
  by (simp add: grows_def counter_of_counters [of s' s k])

lemma create_context_grows:
  "create_context s opts = (r, s') \<Longrightarrow>
     grows k s s' (if k = ContextIds then got context_num r else None)"
  by (erule create_context_cases; cases k) (simp_all add: grows_def got_def)

lemma import_context_grows:
  "import_context cd s bs = (r, s') \<Longrightarrow>
     grows k s s' (if k = ContextIds then got context_num r else None)"
proof (cases "validate_context_snapshot cd bs")
  case (Inl e)
  assume "import_context cd s bs = (r, s')"
  with Inl show ?thesis by (auto simp: import_context_def grows_def got_def)
next
  case (Inr v)
  obtain opts m where v: "v = (opts, m)" by fastforce
  obtain x t where c: "create_context s opts = (x, t)" by fastforce
  assume i: "import_context cd s bs = (r, s')"
  have "counters s' = counters t \<and> r = x"
    using i by (cases x) (auto simp: import_context_def Inr v c set_cookies_counters)
  with create_context_grows [OF c, of k] show ?thesis
    using counter_of_counters [of s' t k] by (cases "k = ContextIds") (simp_all add: grows_def)
qed

lemma create_page_grows:
  "create_page s c url = (r, s') \<Longrightarrow> grows k s s' (if k = PageIds then got page_num r else None)"
  by (cases k) (auto simp: create_page_def attempt_def ensure_open_def next_id_def checked_add_def grows_def got_def
      split: sum.splits if_splits option.splits)

lemma open_connection_grows:
  "open_connection s = (r, s') \<Longrightarrow> grows k s s' (if k = ConnectionIds then got connection_num r else None)"
  by (cases k) (auto simp: open_connection_def attempt_def ensure_open_def next_id_def checked_add_def grows_def got_def
      split: sum.splits if_splits option.splits)

lemma attach_grows:
  "attach s c p = (r, s') \<Longrightarrow> grows k s s' (if k = SessionIds then got session_num r else None)"
  by (cases k) (auto simp: attach_def attempt_def ensure_open_def next_id_def checked_add_def grows_def got_def
      split: sum.splits if_splits option.splits)

lemma start_record_grows:
  assumes "bs_inv s" and "start_action_record s a host = (r, s')"
  shows "grows k s s' (if k = ActionIds then got action_num r else None)"
proof (cases "k = ActionIds")
  case True
  with start_record_counter [OF assms] show ?thesis by (auto simp: grows_def)
next
  case False
  have "counter_of k s' = counter_of k s"
    using start_record_counter(3) [OF assms] False by (cases k) (simp_all add: counters_def)
  with False show ?thesis by (simp add: grows_def)
qed

lemma start_ops_grow:
  assumes "bs_inv s"
  shows "start_action s a = (r, s') \<Longrightarrow> grows k s s' (if k = ActionIds then got action_num r else None)"
    and "start_host_action cd s a kind v = (r, s') \<Longrightarrow>
      grows k s s' (if k = ActionIds then got action_num r else None)"
    and "start_host_action_with_metadata cd s a kind v c p q session = (r, s') \<Longrightarrow>
      grows k s s' (if k = ActionIds then got action_num r else None)"
proof -
  have same: "grows k t t (if k = ActionIds then got action_num (Inl e) else None)" for e t
    by (simp add: grows_def got_def)
  note rec = start_record_grows [OF assms]
  show "start_action s a = (r, s') \<Longrightarrow> grows k s s' (if k = ActionIds then got action_num r else None)"
    unfolding start_action_def by (rule rec)
  show "start_host_action cd s a kind v = (r, s') \<Longrightarrow>
      grows k s s' (if k = ActionIds then got action_num r else None)"
    by (auto simp: start_host_action_def attempt_def intro: same rec
        split: sum.splits split del: if_split)
  show "start_host_action_with_metadata cd s a kind v c p q session = (r, s') \<Longrightarrow>
      grows k s s' (if k = ActionIds then got action_num r else None)"
    by (auto simp: start_host_action_with_metadata_def attempt_def intro: same rec
        split: sum.splits if_split_asm split del: if_split)
qed

lemma cancel_ops_counters:
  "counters (snd (cancel_action s i)) = counters s"
  "counters (snd (cancel_host_actions_for_connection s c)) = counters s"
  "counters (snd (cancel_host_actions_for_session s c session)) = counters s"
  "counters (snd (cancel_host_actions_for_page s p)) = counters s"
  by (simp_all add: cancel_action_def remove_action_counters cancel_host_actions_for_connection_def
      cancel_host_actions_for_session_def cancel_host_actions_for_page_def cancel_host_actions_where_def
      cancel_counters)

lemma close_page_counters: "counters (snd (close_page s p)) = counters s"
  by (simp add: close_page_def attempt_def remove_page_counters split: sum.split)

lemma close_browser_counters: "counters (close_browser s) = counters s"
  by (simp add: counters_def close_browser_def)

lemma restore_counters: "counters (snd (restore_context cd s c bs)) = counters s"
proof -
  obtain r s' where e: "restore_context cd s c bs = (r, s')" by fastforce
  then have "counters s' = counters s" by (rule restore_context_cases) (simp_all add: counters_def)
  with e show ?thesis by simp
qed

lemmas table_counters = restore_counters close_page_counters close_browser_counters cancel_ops_counters
  dispose_counters cookie_ops_counters event_counters queue_counters

definition creating :: "bs_op \<Rightarrow> bool" where
  "creating e =
     (case e of CreateContext _ \<Rightarrow> True | ImportContext _ \<Rightarrow> True | CreatePage _ _ \<Rightarrow> True
      | OpenConnection \<Rightarrow> True | Attach _ _ \<Rightarrow> True | StartAction _ \<Rightarrow> True
      | StartHostAction _ _ _ \<Rightarrow> True | StartWireAction _ _ _ _ _ _ _ \<Rightarrow> True | _ \<Rightarrow> False)"

lemma quiet_returns_none: "\<not> creating e \<Longrightarrow> returned_id cd k s e = None"
  by (cases e) (simp_all add: creating_def returned_id_def split: id_kind.split)

lemma quiet_counters:
  assumes i: "bs_inv s" and q: "\<not> creating e" and x: "bs_exec cd host_of s e = Some s'"
  shows "counters s' = counters s"
proof (cases "\<exists>p r body base64. e = StoreBody p r body base64")
  case True
  then obtain p r body base64 y where "store_response_body s p r body base64 = Some (y, s')" using x by auto
  then show ?thesis by (rule local_counters [OF i store_response_body_local [OF inv_content [OF i]]])
next
  case False
  show ?thesis
    using x q False
    by (cases e) (auto simp: creating_def table_counters detach_counters [OF i] close_connection_counters [OF i]
        complete_counters [OF i] intro: local_counters [OF i] page_steps_local)
qed

lemma bs_exec_grows:
  assumes i: "bs_inv s" and e: "bs_exec cd host_of s op = Some s'"
  shows "grows k s s' (returned_id cd k s op)"
proof (cases "creating op")
  case False
  with grows_same [OF quiet_counters [OF i this e]] show ?thesis by (simp add: quiet_returns_none)
next
  case True
  show ?thesis
  proof (cases op)
    case (CreateContext opts)
    obtain r t where "create_context s opts = (r, t)" by fastforce
    with create_context_grows [OF this, of k] e CreateContext show ?thesis
      by (cases k) (simp_all add: returned_id_def)
  next
    case (ImportContext bs)
    obtain r t where "import_context cd s bs = (r, t)" by fastforce
    with import_context_grows [OF this, of k] e ImportContext show ?thesis
      by (cases k) (simp_all add: returned_id_def)
  next
    case (CreatePage c url)
    obtain r t where "create_page s c url = (r, t)" by fastforce
    with create_page_grows [OF this, of k] e CreatePage show ?thesis
      by (cases k) (simp_all add: returned_id_def)
  next
    case OpenConnection
    obtain r t where "open_connection s = (r, t)" by fastforce
    with open_connection_grows [OF this, of k] e OpenConnection show ?thesis
      by (cases k) (simp_all add: returned_id_def)
  next
    case (Attach c p)
    obtain r t where "attach s c p = (r, t)" by fastforce
    with attach_grows [OF this, of k] e Attach show ?thesis
      by (cases k) (simp_all add: returned_id_def)
  next
    case (StartAction a)
    obtain r t where "start_action s a = (r, t)" by fastforce
    with start_ops_grow(1) [OF i this, of k] e StartAction show ?thesis
      by (cases k) (simp_all add: returned_id_def)
  next
    case (StartHostAction a kind v)
    obtain r t where "start_host_action cd s a kind v = (r, t)" by fastforce
    with start_ops_grow(2) [OF i this, of k] e StartHostAction show ?thesis
      by (cases k) (simp_all add: returned_id_def)
  next
    case (StartWireAction a kind v c p q session)
    obtain r t where "start_host_action_with_metadata cd s a kind v c p q session = (r, t)" by fastforce
    with start_ops_grow(3) [OF i this, of k] e StartWireAction show ?thesis
      by (cases k) (simp_all add: returned_id_def)
  qed (use True in \<open>simp_all add: creating_def\<close>)
qed

interpretation bs_ids: id_source "bs_issue cd host_of k" "\<lambda>s. Suc (counter_of k s)" bs_inv
proof (unfold_locales, goal_cases)
  case (1 s e s' r)
  then show ?case using bs_exec_returns [OF 1(1), of cd host_of e] bs_exec_inv [OF 1(1)] by (auto simp: bs_issue_def)
next
  case (2 s e s' r)
  then show ?case
    using bs_exec_returns [OF 2(1), of cd host_of e] bs_exec_grows [OF 2(1)]
    by (force simp: bs_issue_def grows_def)
next
  case (3 s e s' i)
  then show ?case
    using bs_exec_returns [OF 3(1), of cd host_of e] bs_exec_grows [OF 3(1), of cd host_of e _ k]
    by (auto simp: bs_issue_def grows_def)
qed

end
