(* ===== verification/CdpProps.thy ===== *)
theory CdpProps
  imports CdpSteps
begin

text \<open>
  What the browser state promises its adapters: consistent references and bounded queues in every
  reachable state, identities that are never reused, completions accepted once and only by the
  document that asked, ordered and bounded delivery of events and actions, and snapshots that
  restore what they saved or change nothing.
\<close>

section \<open>A concrete browser\<close>

text \<open>A codec that writes nothing and reads nothing, and a browser with a page, a connection, a session
  and a ready host action.\<close>

definition null_codec :: codec where
  "null_codec =
     \<lparr>enc_value = (\<lambda>_. Some []), enc_event = (\<lambda>_. Inr ''{}''), enc_snapshot = (\<lambda>_. Inr []),
      dec_snapshot = (\<lambda>_. Inl ''unsupported''), enc_cookies = (\<lambda>_. Inr []), enc_result = (\<lambda>_. Some [])\<rparr>"

definition no_hosts :: "string \<Rightarrow> string option option" where
  "no_hosts _ = None"

definition run_ops :: "browser \<Rightarrow> bs_op list \<Rightarrow> browser option" where
  "run_ops s es = fold (\<lambda>e r. Option.bind r (\<lambda>s. bs_exec null_codec no_hosts s e)) es (Some s)"

definition demo_ops :: "bs_op list" where
  "demo_ops =
     [CreatePage (ContextId 1) ''about:blank'', OpenConnection, Attach (ConnectionId 1) (PageId 1),
      StartHostAction (Evaluate (PageId 1) ''1'') ''evaluate'' JNull]"

definition demo :: browser where
  "demo = the (run_ops browser_new demo_ops)"

lemma run_ops_reachable:
  "run_ops s es = Some s' \<Longrightarrow> reachable null_codec no_hosts s \<Longrightarrow> reachable null_codec no_hosts s'"
proof (induction es arbitrary: s)
  case (Cons e es)
  have none: "fold (\<lambda>e r. Option.bind r (\<lambda>s. bs_exec null_codec no_hosts s e)) es None = None" for es
    by (induction es) simp_all
  obtain t where t: "bs_exec null_codec no_hosts s e = Some t"
    using Cons.prems(1) by (cases "bs_exec null_codec no_hosts s e") (simp_all add: run_ops_def none)
  with Cons show ?case by (auto simp: run_ops_def intro: reachable.step)
qed (simp add: run_ops_def)

lemma demo_run: "run_ops browser_new demo_ops = Some demo"
proof -
  have "run_ops browser_new demo_ops \<noteq> None" by (simp add: run_ops_def demo_ops_def)
  then show ?thesis by (auto simp: demo_def)
qed

lemma demo_reachable: "reachable null_codec no_hosts demo"
  by (rule run_ops_reachable [OF demo_run reachable.start])

lemma demo_inv: "bs_inv demo"
  by (rule reachable_inv [OF demo_reachable])

text \<open>Evaluation of the operations on concrete states.\<close>

lemmas bs_eval = bm_get_def bm_has_def bm_retain_def bm_remove_def bm_keys_def bm_values_def
  attempt_def need_def ensure_open_def validate_url_def next_id_def checked_add_def page_of_def
  set_page_def set_network_def Let_def less_page_id_def less_context_id_def less_connection_id_def
  less_session_id_def less_action_id_def MAX_URL_BYTES_def MAX_PAGES_def MAX_CONTEXTS_def
  MAX_CONNECTIONS_def MAX_SESSIONS_def MAX_ACTIONS_def MAX_ACTION_BYTES_def u64_max_def u32_max_def
  usize_max_def saturating_add_def browser_new_def create_page_def open_connection_def attach_def
  start_host_action_def payload_error_def start_action_record_def check_target_def claim_document_def
  null_codec_def show_nat.simps network_default_def context_options_default_def

lemma demo_tables:
  "bs_sessions demo = [(SessionId 1, PageId 1)]" "bs_ready demo = Some [ActionId 1]"
  "bm_keys (bs_pages demo) = [PageId 1]" "bm_keys (bs_connections demo) = [ConnectionId 1]"
  "bs_closed demo = False" "bs_events demo = []" "bs_history demo = []"
  "map pg_document_generation (bm_values (bs_pages demo)) = [1]"
  "map pg_url (bm_values (bs_pages demo)) = [''about:blank'']"
  "map pg_network (bm_values (bs_pages demo)) = [network_default]"
  "bs_actions demo = [(ActionId 1, \<lparr>pa_action = Evaluate (PageId 1) ''1'', pa_page = Some (PageId 1),
     pa_context = None, pa_generation = 1, pa_document_generation = Some 1,
     pa_host = Some \<lparr>ho_kind = ''evaluate'', ho_payload = JNull, ho_wire = None\<rparr>\<rparr>)]"
  by (simp_all add: demo_def run_ops_def demo_ops_def bs_eval)

section \<open>Consistency of the reachable states\<close>

text \<open>
  C1. In every reachable state the references agree: a page belongs to an existing context, a
  session has a live page and a live connection, display, history and fetch entries belong to live
  pages, cookie jars to live contexts, event queues to open connections, and a pending action names
  a live page, context and wire target.
\<close>

theorem reachable_references:
  assumes "reachable cd host_of s"
  shows "(\<forall>p pg. bm_get (bs_pages s) p = Some pg \<longrightarrow> pg_id pg = p \<and> bm_has (bs_contexts s) (pg_context_id pg))
    \<and> (\<forall>i p. attached_page s i = Some p \<longrightarrow>
        bm_has (bs_pages s) p \<and> (\<exists>c. session_connection s i = Some c \<and> bm_has (bs_connections s) c))
    \<and> (\<forall>p. bm_has (bs_display s) p \<or> bm_has (bs_history s) p \<or> bm_has (bs_fetch_resolutions s) p \<longrightarrow>
        bm_has (bs_pages s) p)
    \<and> (\<forall>k. bm_has (bs_cookies s) k \<longleftrightarrow> bm_has (bs_contexts s) k)
    \<and> (\<forall>c. bm_has (bs_events s) c \<longrightarrow> bm_has (bs_connections s) c)
    \<and> (\<forall>a pa. bm_get (bs_actions s) a = Some pa \<longrightarrow>
        (\<forall>q. pa_page pa = Some q \<or> (\<exists>w. wire_of pa = Some w \<and> wi_target_page w = q) \<longrightarrow> bm_has (bs_pages s) q)
        \<and> (\<forall>k. pa_context pa = Some k \<longrightarrow> bm_has (bs_contexts s) k))"
    (is "?pages \<and> ?sessions \<and> ?side \<and> ?jars \<and> ?queues \<and> ?actions")
proof (intro conjI)
  note f = inv_facts [OF reachable_inv [OF assms]]
  show ?pages using f(2) by (simp add: page_rel_def)
  show ?sessions
  proof (intro allI impI)
    fix i p assume a: "attached_page s i = Some p"
    then have "bm_has (bs_session_connections s) i"
      using f(3) by (simp add: session_rel_def attached_page_def bm_has_Some)
    then obtain c where "bm_get (bs_session_connections s) i = Some c" unfolding bm_has_Some by blast
    with f(3) a show "bm_has (bs_pages s) p \<and> (\<exists>c. session_connection s i = Some c \<and> bm_has (bs_connections s) c)"
      by (simp add: session_rel_def attached_page_def session_connection_def)
  qed
  show ?side using f(2) by (simp add: page_rel_def)
  show ?jars using f(1) by (simp add: context_rel_def)
  show ?queues using f(4) by (auto simp: event_rel_def bm_has_Some [of "bs_events s"])
  show ?actions
  proof (intro allI impI)
    fix a pa assume "bm_get (bs_actions s) a = Some pa"
    then have "action_ok (bs_contexts s) (bs_pages s) pa" using f(5) by (simp add: action_rel_def)
    then show "(\<forall>q. pa_page pa = Some q \<or> (\<exists>w. wire_of pa = Some w \<and> wi_target_page w = q) \<longrightarrow> bm_has (bs_pages s) q)
        \<and> (\<forall>k. pa_context pa = Some k \<longrightarrow> bm_has (bs_contexts s) k)"
      by (auto simp: action_ok_def)
  qed
qed

theorem reachable_references_witness:
  "attached_page demo (SessionId 1) = Some (PageId 1)
   \<and> bm_has (bs_pages demo) (PageId 1)
   \<and> (\<exists>c. session_connection demo (SessionId 1) = Some c \<and> bm_has (bs_connections demo) c)"
proof -
  have "attached_page demo (SessionId 1) = Some (PageId 1)"
    by (simp add: attached_page_def demo_tables bm_get_def)
  with reachable_references [OF demo_reachable] show ?thesis by blast
qed


lemma network_bounds:
  assumes "network_ok w"
  shows "length (nw_response_bodies w) \<le> 128 \<and> bm_sum body_size (nw_response_bodies w) \<le> 8388608
    \<and> length (nw_paused_requests w) \<le> 256 \<and> length (nw_enabled_sessions w) \<le> 8192
    \<and> length (nw_extra_headers w) \<le> 256
    \<and> sum_list (map (\<lambda>(name, val). length name + length val) (nw_extra_headers w)) \<le> 65536
    \<and> (\<forall>i ps. bm_get (nw_fetch_patterns w) i = Some ps \<longrightarrow>
        0 < length ps \<and> length ps \<le> 64 \<and> (\<forall>f \<in> set ps. length (fp_url_pattern f) \<le> 2048))"
  using assms
  by (simp add: network_ok_def bodies_ok_def headers_ok_def patterns_ok_def MAX_NETWORK_RESPONSE_BODIES_def
      MAX_NETWORK_RESPONSE_WIRE_BYTES_def MAX_NETWORK_RESPONSE_BODY_BYTES_def MAX_FETCH_REQUESTS_def MAX_SESSIONS_def
      MAX_NETWORK_HEADERS_def MAX_NETWORK_HEADER_BYTES_def MAX_FETCH_PATTERNS_def MAX_FETCH_PATTERN_BYTES_def)

lemma ready_bound:
  assumes "bs_inv s" and "bs_ready s = Some q"
  shows "length q \<le> 512"
proof -
  note f = inv_facts [OF assms(1)]
  have "distinct q" and "\<forall>i \<in> set q. \<exists>pa. bm_get (bs_actions s) i = Some pa"
    using f(6) assms(2) by (auto simp: ready_rel_def)
  then have sub: "set q \<subseteq> fst ` set (bs_actions s)" by (force dest: bm_get_in)
  have "length q = card (set q)" using \<open>distinct q\<close> by (simp add: distinct_card)
  also have "\<dots> \<le> card (fst ` set (bs_actions s))" using sub by (intro card_mono) simp_all
  also have "\<dots> \<le> length (bs_actions s)" using card_image_le [of "set (bs_actions s)" fst] card_length [of "bs_actions s"] by simp
  also have "\<dots> \<le> 512" using f(5) by (simp add: action_rel_def MAX_ACTIONS_def)
  finally show ?thesis .
qed

text \<open>
  C2. The tables and queues of a reachable state stay within their limits: contexts and their stored
  state, pages, connections, sessions, actions, ready host actions, cookies per context, events and
  event bytes per connection, queued fetch resolutions and history entries per page, and in the
  network state of a page stored bodies and their bytes, paused requests, sessions with the domain
  enabled, extra headers and their bytes, and the fetch patterns of a session and their bytes.
\<close>

theorem reachable_bounds:
  assumes "reachable cd host_of s"
  shows "length (bs_contexts s) \<le> 256 \<and> length (bs_pages s) \<le> 4096 \<and> length (bs_connections s) \<le> 512
    \<and> length (bs_sessions s) \<le> 8192 \<and> length (bs_actions s) \<le> 512
    \<and> (\<forall>q. bs_ready s = Some q \<longrightarrow> length q \<le> 512)
    \<and> (\<forall>c cx st. bm_get (bs_contexts s) c = Some cx \<longrightarrow> opt_storage_state (cx_options cx) = Some st \<longrightarrow>
        length st \<le> 16777216)
    \<and> (\<forall>c m. bm_get (bs_cookies s) c = Some m \<longrightarrow> length m \<le> 4096)
    \<and> (\<forall>c q. bm_get (bs_events s) c = Some q \<longrightarrow>
        length (eq_entries q) \<le> 512 \<and> sum_list (map snd (eq_entries q)) \<le> 4194304)
    \<and> (\<forall>p pg w. bm_get (bs_pages s) p = Some pg \<longrightarrow> w = pg_network pg \<longrightarrow>
        length (nw_response_bodies w) \<le> 128 \<and> bm_sum body_size (nw_response_bodies w) \<le> 8388608
        \<and> length (nw_paused_requests w) \<le> 256 \<and> length (nw_enabled_sessions w) \<le> 8192
        \<and> length (nw_extra_headers w) \<le> 256
        \<and> sum_list (map (\<lambda>(name, val). length name + length val) (nw_extra_headers w)) \<le> 65536
        \<and> (\<forall>i ps. bm_get (nw_fetch_patterns w) i = Some ps \<longrightarrow>
            0 < length ps \<and> length ps \<le> 64 \<and> (\<forall>f \<in> set ps. length (fp_url_pattern f) \<le> 2048)))
    \<and> (\<forall>p q. bm_get (bs_fetch_resolutions s) p = Some q \<longrightarrow> 0 < length q \<and> length q \<le> 256)
    \<and> (\<forall>p h. bm_get (bs_history s) p = Some h \<longrightarrow>
        hi_current_index h < length (hi_entries h) \<and> length (hi_entries h) \<le> 128)"
    (is "?contexts \<and> ?pages \<and> ?connections \<and> ?sessions \<and> ?actions \<and> ?ready \<and> ?storage \<and> ?cookies \<and> ?events
      \<and> ?network \<and> ?fetch \<and> ?history")
proof (intro conjI)
  note i = reachable_inv [OF assms]
  note f = inv_facts [OF i] and c = inv_content [OF i]
  show ?contexts using f(1) by (simp add: context_rel_def MAX_CONTEXTS_def)
  show ?pages using f(2) by (simp add: page_rel_def MAX_PAGES_def)
  show ?connections ?sessions using f(3) by (simp_all add: session_rel_def MAX_CONNECTIONS_def MAX_SESSIONS_def)
  show ?actions using f(5) by (simp add: action_rel_def MAX_ACTIONS_def)
  show ?ready using ready_bound [OF i] by blast
  show ?storage
  proof (intro allI impI)
    fix c cx st assume "bm_get (bs_contexts s) c = Some cx" and st: "opt_storage_state (cx_options cx) = Some st"
    then have "validate_options (cx_options cx) = Inr ()" using f(1) by (simp add: context_rel_def)
    with st show "length st \<le> 16777216" by (simp add: validate_options_def MAX_STORAGE_STATE_BYTES_def split: if_splits)
  qed
  show ?cookies using f(1) by (auto simp: context_rel_def cookies_ok_def MAX_COOKIE_COUNT_def)
  show ?events
  proof (intro allI impI)
    fix c q assume "bm_get (bs_events s) c = Some q"
    then have "queue_ok q" using f(4) by (simp add: event_rel_def)
    then show "length (eq_entries q) \<le> 512 \<and> sum_list (map snd (eq_entries q)) \<le> 4194304"
      by (simp add: queue_ok_def MAX_EVENTS_PER_CONNECTION_def MAX_EVENT_BYTES_PER_CONNECTION_def)
  qed
  have "network_ok (pg_network pg)" if "bm_get (bs_pages s) p = Some pg" for p pg
    using c that by (simp add: content_ok_def)
  then show ?network using network_bounds by blast
  show ?fetch using c by (simp add: content_ok_def MAX_FETCH_RESOLUTIONS_def)
  show ?history using c by (simp add: content_ok_def history_ok_def MAX_HISTORY_ENTRIES_def)
qed

theorem reachable_bounds_witness: "length (bs_actions demo) = 1 \<and> length (bs_actions demo) \<le> 512"
  using reachable_bounds [OF demo_reachable] by (simp add: demo_tables)

text \<open>
  C7. In a reachable state every method returns: the only loop that could spin, the eviction of
  response bodies, always ends.
\<close>

theorem reachable_returns:
  assumes "reachable cd host_of s"
  shows "\<exists>s'. bs_exec cd host_of s e = Some s' \<and> reachable cd host_of s'"
  using bs_exec_returns [OF reachable_inv [OF assms], of cd host_of e] reachable.step [OF assms] by blast

theorem reachable_returns_witness:
  "\<exists>s'. bs_exec null_codec no_hosts demo (StoreBody (PageId 1) ''r'' ''body'' False) = Some s'"
  using reachable_returns [OF demo_reachable, of "StoreBody (PageId 1) ''r'' ''body'' False"] by blast

text \<open>
  C6. The methods never hand out the same identity twice: in any run from a new browser the context
  identities returned are distinct, and so are those of pages, connections, sessions and actions.
\<close>

theorem identities_fresh: "distinct (issued_ids cd host_of k browser_new es)"
  unfolding issued_ids_def by (rule bs_ids.issued_distinct [OF browser_new_inv])

end
