(* ===== verification/CdpSafety.thy ===== *)
theory CdpSafety
  imports CdpProps
begin

text \<open>
  What the single methods of the browser state promise in a reachable state: an accepted completion
  is final, and closing a page or a context removes exactly what belongs to it.
\<close>

section \<open>Final actions\<close>

text \<open>Only starting an action adds one, under the next number; no method changes an entry.\<close>

definition no_new_actions :: "browser \<Rightarrow> browser \<Rightarrow> bool" where
  "no_new_actions s s' \<longleftrightarrow>
     (\<forall>i pa. bm_get (bs_actions s') i = Some pa \<longrightarrow>
        bm_get (bs_actions s) i = Some pa \<or> bs_next_action s < action_num i)"

lemma no_new_same: "bs_actions s' = bs_actions s \<Longrightarrow> no_new_actions s s'"
  by (simp add: no_new_actions_def)

lemma no_new_has: "no_new_actions s s' \<Longrightarrow> bm_has (bs_actions s') i \<Longrightarrow>
    bm_has (bs_actions s) i \<or> bs_next_action s < action_num i"
  by (auto simp: no_new_actions_def bm_has_Some)

lemma no_new_local: "bs_inv s \<Longrightarrow> local_step s s' \<Longrightarrow> no_new_actions s s'"
  using inv_content [of s] page_free_fields(7) [of s' s]
  by (intro no_new_same) (simp add: local_step_def page_local_def)

lemma no_new_started:
  assumes "bs_inv s" and "start_action_record s a host = (r, s')"
  shows "no_new_actions s s'"
proof -
  have c: "bs_actions (snd (claim_document t a)) = bs_actions t" if "bs_pages t = bs_pages s" for t
    by (auto simp: claim_document_def attempt_def set_page_def split: option.split sum.split)
  from assms(2) show ?thesis
  proof (cases rule: start_action_record_cases)
    case (refused e)
    then show ?thesis by (simp add: no_new_same)
  next
    case (late e n s1)
    then show ?thesis using c [of s1] by (intro no_new_same) auto
  next
    case (started n s1 g s2 generation)
    then have "bs_actions s2 = bs_actions s" using c [of s1] by simp
    with started show ?thesis by (auto simp: no_new_actions_def bm_get_insert split: if_splits)
  qed
qed

lemma no_new_start_ops:
  assumes "bs_inv s"
  shows "no_new_actions s (snd (start_action s a))"
    and "no_new_actions s (snd (start_host_action cd s a kind v))"
    and "no_new_actions s (snd (start_host_action_with_metadata cd s a kind v c p q session))"
proof -
  have rec: "no_new_actions s (snd (start_action_record s a host))" for host
    by (rule no_new_started [OF assms surjective_pairing])
  have same: "no_new_actions s s" by (simp add: no_new_same)
  show "no_new_actions s (snd (start_action s a))" unfolding start_action_def by (rule rec)
  show "no_new_actions s (snd (start_host_action cd s a kind v))"
    by (auto simp: start_host_action_def attempt_def rec same split: sum.split)
  show "no_new_actions s (snd (start_host_action_with_metadata cd s a kind v c p q session))"
    by (auto simp: start_host_action_with_metadata_def attempt_def rec same split: sum.split)
qed

lemma no_new_cancel: "no_new_actions s (snd (cancel_host_action_ids s ids))"
  by (auto simp: no_new_actions_def cancel_host_action_ids_def bm_get_retain_key split: if_splits)

lemma no_new_remove_page: "no_new_actions s (snd (remove_page_state s p))"
  by (auto simp: no_new_actions_def dest: remove_page_frame(4))

lemma no_new_cookie_ops:
  "no_new_actions s (snd (replace_context_cookies s p ks now))"
  "no_new_actions s (snd (merge_context_cookies_for_context s c ks now))"
  "no_new_actions s (snd (delete_context_cookies_for_context s c name domain path))"
  "no_new_actions s (snd (clear_context_cookies_for_context s c))"
  "no_new_actions s (snd (clear_context_cookies_for_origin host_of s p origin))"
  by (simp_all add: no_new_same replace_context_cookies_def merge_context_cookies_for_context_def
      delete_context_cookies_for_context_def clear_context_cookies_for_context_def
      clear_context_cookies_for_origin_def attempt_def Let_def set_cookies_def split: sum.split option.split)

lemma no_new_queue_ops:
  "no_new_actions s (snd (claim_host_action s i))"
  "no_new_actions s (snd (drain_host_actions s n))"
  "no_new_actions s (snd (queue_event cd s c ev))"
  "no_new_actions s (snd (drain_framed_events s c items budget overhead))"
  "no_new_actions s (discard_session_events s c session)"
  by (simp_all add: no_new_same claim_host_action_def drain_host_actions_def queue_event_def
      drain_framed_events_def discard_session_events_def Let_def split: sum.split option.split prod.split)

lemma no_new_cancel_ops:
  "no_new_actions s (snd (cancel_action s i))"
  "no_new_actions s (snd (cancel_host_actions_for_connection s c))"
  "no_new_actions s (snd (cancel_host_actions_for_session s c session))"
  "no_new_actions s (snd (cancel_host_actions_for_page s p))"
  by (simp_all add: cancel_action_def cancel_host_actions_for_connection_def
      cancel_host_actions_for_session_def cancel_host_actions_for_page_def cancel_host_actions_where_def
      no_new_cancel)
    (auto simp: no_new_actions_def remove_action_def bm_get_remove)

lemma create_context_actions: "bs_actions (snd (create_context s opts)) = bs_actions s"
  by (cases "create_context s opts") (auto elim: create_context_cases)

lemma no_new_creating:
  "no_new_actions s (snd (create_context s opts))"
  "no_new_actions s (snd (import_context cd s bs))"
  "no_new_actions s (snd (restore_context cd s c bs))"
  "no_new_actions s (snd (create_page s c url))"
  "no_new_actions s (snd (open_connection s))"
  "no_new_actions s (snd (attach s k p))"
proof -
  show "no_new_actions s (snd (create_context s opts))" by (rule no_new_same [OF create_context_actions])
  show "no_new_actions s (snd (import_context cd s bs))"
    using create_context_actions [of s]
    by (intro no_new_same)
      (auto simp: import_context_def attempt_def set_cookies_def split: sum.split prod.split, (metis snd_conv)+)
  obtain r s' where e: "restore_context cd s c bs = (r, s')" by fastforce
  then have "bs_actions s' = bs_actions s" by (rule restore_context_cases) simp_all
  with e show "no_new_actions s (snd (restore_context cd s c bs))" by (simp add: no_new_same)
  show "no_new_actions s (snd (create_page s c url))" "no_new_actions s (snd (open_connection s))"
    "no_new_actions s (snd (attach s k p))"
    by (simp_all add: no_new_same create_page_def open_connection_def attach_def attempt_def split: sum.split)
qed

lemma no_new_detach: "bs_actions (snd (detach s i)) = bs_actions s"
proof -
  have q: "bs_actions (snd (queue_fetch_resolution s p r v)) = bs_actions s" for s p r v
    by (simp add: queue_fetch_resolution_def page_of_def attempt_def need_def Let_def
        set_network_def set_page_def split: option.split sum.split)
  have c: "bs_actions (snd (continue_all s p rs)) = bs_actions s" for s p rs
  proof (induction rs arbitrary: s)
    case (Cons r rs)
    obtain x s' where e: "queue_fetch_resolution s p r (continue_resolution r) = (x, s')" by fastforce
    with q [of s p r "continue_resolution r"] Cons.IH [of s'] show ?case by (simp split: sum.split)
  qed simp
  show ?thesis
    by (simp add: detach_def clear_fetch_patterns_def page_of_def attempt_def need_def Let_def c
        set_network_def set_page_def split: option.split sum.split)
qed

lemma no_new_connection: "bs_actions (snd (close_connection s c)) = bs_actions s"
proof -
  have "bs_actions (fold (\<lambda>i st. snd (detach st i)) is s) = bs_actions s" for "is" s
    by (induction "is" arbitrary: s) (simp_all add: no_new_detach)
  then show ?thesis by (simp add: close_connection_def Let_def)
qed

lemma no_new_complete:
  assumes "bs_inv s"
  shows "no_new_actions s (snd (complete_action cd s i r))"
proof -
  have nav: "bs_actions s' = bs_actions s" if "apply_navigation_metadata s p v = (x, s')" for p v x s'
    using inv_content [OF assms] apply_navigation_local [of s p v] page_free_fields(7) [of s' s] that
    by (simp add: local_step_def page_local_def)
  show ?thesis
    by (auto simp: complete_action_def attempt_def no_new_actions_def remove_action_def bm_get_remove nav
        split: option.split sum.split action_result.split prod.split)
qed

lemma no_new_dispose: "bs_inv s \<Longrightarrow> no_new_actions s (snd (dispose_context s c))"
proof (cases "bs_closed s \<or> c = default_context \<or> \<not> bm_has (bs_contexts s) c")
  case True
  then show ?thesis by (auto simp: dispose_context_def ensure_open_def no_new_same)
next
  case False
  assume i: "bs_inv s"
  show ?thesis
    using False disposed_actions(1) [OF i]
    by (auto simp: dispose_context_eq [OF i] recontext_def no_new_actions_def)
qed

lemmas no_new_tables = no_new_cookie_ops no_new_queue_ops no_new_cancel_ops no_new_creating
  no_new_start_ops no_new_complete no_new_dispose no_new_same [OF no_new_detach] no_new_same [OF no_new_connection]

lemma bs_exec_no_new:
  assumes i: "bs_inv s" and x: "bs_exec cd host_of s e = Some s'"
  shows "no_new_actions s s'"
proof (cases "\<exists>p r body base64. e = StoreBody p r body base64")
  case True
  then obtain p r body base64 y where "store_response_body s p r body base64 = Some (y, s')" using x by auto
  then show ?thesis by (rule no_new_local [OF i store_response_body_local [OF inv_content [OF i]]])
next
  case False
  have close: "no_new_actions s (snd (close_page s p))" for p
    by (simp add: close_page_def attempt_def no_new_remove_page no_new_same split: sum.split)
  have all: "no_new_actions s (close_browser s)" by (simp add: no_new_actions_def close_browser_def)
  show ?thesis
    using x False
    by (cases e) (auto simp: no_new_tables i close all intro: no_new_local [OF i] page_steps_local)
qed

text \<open>An action that is gone stays gone.\<close>

lemma gone_forever:
  assumes "bs_inv s" and "\<not> bm_has (bs_actions s) i" and "action_num i \<le> bs_next_action s"
  shows "\<not> bm_has (bs_actions (final (bs_issue cd host_of ActionIds) s es)) i"
  using assms
proof (induction es arbitrary: s)
  case (Cons e es)
  obtain s' where e: "bs_exec cd host_of s e = Some s'" using bs_exec_returns [OF Cons.prems(1)] by blast
  have step: "fst (bs_issue cd host_of ActionIds s e) = s'" by (simp add: bs_issue_def e)
  have "\<not> bm_has (bs_actions s') i"
    using no_new_has [OF bs_exec_no_new [OF Cons.prems(1) e], of i] Cons.prems(2,3) by auto
  moreover have "bs_next_action s \<le> bs_next_action s'"
    using bs_exec_grows [OF Cons.prems(1) e, of ActionIds] by (simp add: grows_def)
  ultimately show ?case
    using Cons.IH [OF bs_exec_inv [OF Cons.prems(1) e]] Cons.prems(3) by (simp add: step)
qed simp

text \<open>The state after a run of methods.\<close>

definition bs_run :: "codec \<Rightarrow> (string \<Rightarrow> string option option) \<Rightarrow> browser \<Rightarrow> bs_op list \<Rightarrow> browser" where
  "bs_run cd host_of s es = final (bs_issue cd host_of ActionIds) s es"

lemma complete_removes:
  assumes "bs_inv s" and "fst (complete_action cd s i r) = Inr ()"
  shows "bm_has (bs_actions s) i \<and> \<not> bm_has (bs_actions (snd (complete_action cd s i r))) i"
  using assms(2)
  by (auto simp: complete_action_def attempt_def remove_action_def bm_get_remove bm_has_Some
      split: option.splits sum.splits action_result.splits prod.splits)

text \<open>
  C37. An accepted completion is final: whatever methods are called afterwards, completing the same
  action again is refused as unknown and changes nothing.
\<close>

theorem completion_final:
  assumes "reachable cd host_of s" and "fst (complete_action cd s i r) = Inr ()"
  shows "complete_action cd (bs_run cd host_of (snd (complete_action cd s i r)) es) i r'
    = (Inl (UnknownAction i), bs_run cd host_of (snd (complete_action cd s i r)) es)"
proof -
  have inv: "bs_inv s" by (rule reachable_inv [OF assms(1)])
  let ?s' = "snd (complete_action cd s i r)"
  have gone: "bm_has (bs_actions s) i" "\<not> bm_has (bs_actions ?s') i" using complete_removes [OF inv assms(2)] by blast+
  have inv': "bs_inv ?s'" by (rule complete_action_inv [OF inv])
  have "action_num i \<le> bs_next_action s" using inv_facts(11) [OF inv] gone(1) by (simp add: below_def)
  also have "bs_next_action s = bs_next_action ?s'"
    using complete_counters [OF inv, of cd i r] by (simp add: counters_def)
  finally have "\<not> bm_has (bs_actions (bs_run cd host_of ?s' es)) i"
    unfolding bs_run_def by (rule gone_forever [OF inv' gone(2)])
  then show ?thesis by (simp add: complete_action_def bm_has_def)
qed

section \<open>Removing pages and contexts\<close>

text \<open>The ready host actions, in the order in which they will be handed out.\<close>

definition ready_ids :: "browser \<Rightarrow> action_id list" where
  "ready_ids s = (case bs_ready s of Some q \<Rightarrow> q | None \<Rightarrow> [])"

lemma ready_ids_drop: "ready_ids (drop_actions P s) = filter (\<lambda>i. \<not> P i) (ready_ids s)"
  by (auto simp: ready_ids_def drop_actions_def settle_ready_def split: option.splits list.splits)

lemma closed_eq:
  assumes "bs_inv s" and "close_page s p = (Inr (), s')"
  shows "s' = drop_page p (drop_actions (\<lambda>i. i \<in> set (ids_where (targets_page p) s)) s)"
proof -
  have rm: "remove_page_state s p = (Inr (), s')" using assms(2) by (auto simp: close_page_def attempt_def split: sum.splits)
  then have "bm_has (bs_pages s) p" by (auto simp: remove_page_state_def split: if_splits)
  from remove_page_state_eq [OF assms(1) this] rm show ?thesis by simp
qed

lemma closed_connections:
  assumes inv: "bs_inv s" and s': "s' = drop_page p (drop_actions P s)"
  shows "session_connection s' i = (if attached_page s i = Some p then None else session_connection s i)"
proof -
  have sok: "bm_ok (bs_sessions s)" using inv_facts(3) [OF inv] by (simp add: session_rel_def)
  have keys: "j \<in> set (bm_keys (bm_retain (\<lambda>_ page. page \<noteq> p) (bs_sessions s))) \<longleftrightarrow>
      (\<exists>q. bm_get (bs_sessions s) j = Some q \<and> q \<noteq> p)" for j
    using sok by (auto simp: bm_has_keys [symmetric] bm_has_Some bm_get_retain split: option.splits if_splits)
  have "session_connection s' i =
      (if \<exists>q. bm_get (bs_sessions s) i = Some q \<and> q \<noteq> p then session_connection s i else None)"
    by (auto simp: session_connection_def s' drop_page_def drop_actions_def Let_def bm_get_retain_key keys)
  moreover have "bm_has (bs_sessions s) i \<longleftrightarrow> bm_has (bs_session_connections s) i"
    using inv_facts(3) [OF inv] by (simp add: session_rel_def)
  ultimately show ?thesis
    by (cases "bm_get (bs_sessions s) i") (auto simp: attached_page_def bm_has_def session_connection_def)
qed

lemma closed_ready:
  assumes inv: "bs_inv s" and s': "s' = drop_page p (drop_actions (\<lambda>i. i \<in> set (ids_where P s)) s)"
  shows "ready_ids s' = filter (\<lambda>i. \<exists>pa. bm_get (bs_actions s) i = Some pa \<and> \<not> P pa) (ready_ids s)"
proof -
  have ok: "bm_ok (bs_actions s)" using inv_facts(5) [OF inv] by (simp add: action_rel_def)
  have "\<exists>pa. bm_get (bs_actions s) i = Some pa" if "i \<in> set (ready_ids s)" for i
    using that inv_facts(6) [OF inv] by (cases "bs_ready s") (auto simp: ready_rel_def ready_ids_def)
  then have "filter (\<lambda>i. i \<notin> set (ids_where P s)) (ready_ids s)
     = filter (\<lambda>i. \<exists>pa. bm_get (bs_actions s) i = Some pa \<and> \<not> P pa) (ready_ids s)"
    by (intro filter_cong refl) (force simp: ids_where_iff [OF ok])
  then show ?thesis
    unfolding ready_ids_drop [symmetric] s' by (simp add: ready_ids_def drop_page_def Let_def)
qed

text \<open>
  C38. Closing a page removes the page, its display, history, pending fetch resolutions, sessions and
  the actions that run on it or answer to it, from the table and from the queue of ready ones, and
  leaves every other entry of every table and queue, the counters and the generation as they were.
\<close>

theorem close_page_exact:
  assumes "reachable cd host_of s" and "close_page s p = (Inr (), s')"
  shows "bs_pages s' = bm_remove p (bs_pages s) \<and> bs_display s' = bm_remove p (bs_display s)
    \<and> bs_fetch_resolutions s' = bm_remove p (bs_fetch_resolutions s) \<and> bs_history s' = bm_remove p (bs_history s)
    \<and> bs_sessions s' = bm_retain (\<lambda>_ page. page \<noteq> p) (bs_sessions s)
    \<and> (\<forall>i. bm_get (bs_actions s') i = (case bm_get (bs_actions s) i of
          Some pa \<Rightarrow> if targets_page p pa then None else Some pa | None \<Rightarrow> None))
    \<and> ready_ids s' = filter (\<lambda>i. \<exists>pa. bm_get (bs_actions s) i = Some pa \<and> \<not> targets_page p pa) (ready_ids s)
    \<and> (\<forall>i. session_connection s' i = (if attached_page s i = Some p then None else session_connection s i))
    \<and> bs_contexts s' = bs_contexts s \<and> bs_cookies s' = bs_cookies s
    \<and> bs_connections s' = bs_connections s \<and> bs_events s' = bs_events s
    \<and> bs_next_context s' = bs_next_context s \<and> bs_next_page s' = bs_next_page s
    \<and> bs_next_connection s' = bs_next_connection s \<and> bs_next_session s' = bs_next_session s
    \<and> bs_next_action s' = bs_next_action s \<and> bs_generation s' = bs_generation s \<and> bs_closed s' = bs_closed s"
proof -
  have inv: "bs_inv s" by (rule reachable_inv [OF assms(1)])
  note s' = closed_eq [OF inv assms(2)]
  have ok: "bm_ok (bs_actions s)" using inv_facts(5) [OF inv] by (simp add: action_rel_def)
  have "bm_get (bs_actions s') i = (case bm_get (bs_actions s) i of
          Some pa \<Rightarrow> if targets_page p pa then None else Some pa | None \<Rightarrow> None)" for i
    using ids_where_iff [OF ok, of i "targets_page p"]
    by (auto simp: s' drop_page_def drop_actions_def Let_def bm_get_retain_key split: option.split)
  then show ?thesis
    using closed_connections [OF inv s'] closed_ready [OF inv s']
    by (simp add: s' drop_page_def drop_actions_def Let_def)
qed

text \<open>
  Disposing a context removes the context, its cookies, exactly its pages and every action of
  the context or of those pages; the other contexts, jars and pages stay as they were.
\<close>

lemma dispose_context_exact:
  assumes "reachable cd host_of s" and "dispose_context s c = (Inr (), s')"
  shows "bs_contexts s' = bm_remove c (bs_contexts s) \<and> bs_cookies s' = bm_remove c (bs_cookies s)
    \<and> (\<forall>p. bm_get (bs_pages s') p = (case bm_get (bs_pages s) p of
          Some pg \<Rightarrow> if pg_context_id pg = c then None else Some pg | None \<Rightarrow> None))
    \<and> (\<forall>i pa. bm_get (bs_actions s') i = Some pa \<longrightarrow>
          bm_get (bs_actions s) i = Some pa \<and> pa_context pa \<noteq> Some c
          \<and> (\<forall>p pg. pa_page pa = Some p \<longrightarrow> bm_get (bs_pages s) p = Some pg \<longrightarrow> pg_context_id pg \<noteq> c))
    \<and> c \<noteq> default_context"
proof -
  have inv: "bs_inv s" by (rule reachable_inv [OF assms(1)])
  have pre: "\<not> bs_closed s" "c \<noteq> default_context" "bm_has (bs_contexts s) c"
    using assms(2) by (auto simp: dispose_context_def attempt_def ensure_open_def split: sum.splits if_splits)
  have s': "s' = recontext (bm_remove c (bs_contexts s)) (bm_remove c (bs_cookies s)) (disposed c s)"
    using dispose_context_eq [OF inv pre] assms(2) by simp
  have inv': "bs_inv s'" using dispose_context_inv [OF inv, of c] assms(2) by simp
  have pages: "bm_get (bs_pages s') p = (case bm_get (bs_pages s) p of
          Some pg \<Rightarrow> if pg_context_id pg = c then None else Some pg | None \<Rightarrow> None)" for p
    by (simp add: s' recontext_def disposed_pages [OF inv])
  have acts: "bm_get (bs_actions s) i = Some pa \<and> pa_context pa \<noteq> Some c
          \<and> (\<forall>p pg. pa_page pa = Some p \<longrightarrow> bm_get (bs_pages s) p = Some pg \<longrightarrow> pg_context_id pg \<noteq> c)"
    if a: "bm_get (bs_actions s') i = Some pa" for i pa
  proof -
    have old: "bm_get (bs_actions (disposed c s)) i = Some pa" using a by (simp add: s' recontext_def)
    have "action_ok (bs_contexts s') (bs_pages s') pa" using inv_facts(5) [OF inv'] a by (simp add: action_rel_def)
    then have "\<forall>p. pa_page pa = Some p \<longrightarrow> bm_has (bs_pages s') p" by (auto simp: action_ok_def)
    then have "pg_context_id pg \<noteq> c" if "pa_page pa = Some p" "bm_get (bs_pages s) p = Some pg" for p pg
      using that pages [of p] by (auto simp: bm_has_Some split: if_splits)
    with disposed_actions [OF inv old] show ?thesis by blast
  qed
  show ?thesis using pages acts pre(2) by (auto simp: s' recontext_def)
qed

section \<open>Concrete instances\<close>

lemmas action_eval = validate_action_result_def complete_action_def validate_pending_action_def start_action_def
  remove_action_def MAX_ACTION_RESULT_BYTES_def

theorem completion_final_witness:
  "complete_action null_codec
     (bs_run null_codec no_hosts (snd (complete_action null_codec demo (ActionId 1) ResultUnit)) [ClosePage (PageId 1)])
     (ActionId 1) (ResultBytes []) =
   (Inl (UnknownAction (ActionId 1)),
    bs_run null_codec no_hosts (snd (complete_action null_codec demo (ActionId 1) ResultUnit)) [ClosePage (PageId 1)])"
proof -
  have "fst (complete_action null_codec demo (ActionId 1) ResultUnit) = Inr ()"
    by (simp add: demo_def run_ops_def demo_ops_def bs_eval action_eval)
  then show ?thesis by (rule completion_final [OF demo_reachable])
qed

theorem close_page_exact_witness:
  "bs_sessions (snd (close_page demo (PageId 1))) = []
   \<and> session_connection (snd (close_page demo (PageId 1))) (SessionId 1) = None"
proof -
  have "fst (close_page demo (PageId 1)) = Inr ()"
    by (simp add: close_page_def remove_page_state_def demo_tables attempt_def ensure_open_def bm_has_keys Let_def)
  then obtain s' where s': "close_page demo (PageId 1) = (Inr (), s')" by (cases "close_page demo (PageId 1)") auto
  note x = close_page_exact [OF demo_reachable s']
  have "bs_sessions s' = []" using x by (simp add: demo_tables bm_retain_def)
  moreover have "session_connection s' (SessionId 1) = None"
    using x by (simp add: attached_page_def demo_tables bm_get_def)
  ultimately show ?thesis by (simp only: s' snd_conv)
qed

text \<open>A browser with a second context.\<close>

definition demo_two :: browser where
  "demo_two = the (run_ops demo [CreateContext context_options_default, CreatePage (ContextId 2) ''about:blank''])"

lemma demo_two_run:
  "run_ops demo [CreateContext context_options_default, CreatePage (ContextId 2) ''about:blank''] = Some demo_two"
proof -
  have "run_ops demo [CreateContext context_options_default, CreatePage (ContextId 2) ''about:blank''] \<noteq> None"
    by (simp add: run_ops_def)
  then show ?thesis by (auto simp: demo_two_def)
qed

lemma demo_two_reachable: "reachable null_codec no_hosts demo_two"
  by (rule run_ops_reachable [OF demo_two_run demo_reachable])

lemma dispose_context_exact_witness:
  "\<exists>s'. dispose_context demo_two (ContextId 2) = (Inr (), s') \<and> bm_get (bs_pages s') (PageId 2) = None
    \<and> bm_has (bs_pages s') (PageId 1)"
proof -
  have "\<exists>s'. dispose_context demo_two (ContextId 2) = (Inr (), s')"
    by (simp add: demo_two_def demo_def run_ops_def demo_ops_def bs_eval dispose_context_def default_context_def
        create_context_def validate_options_def)
  then obtain s' where s': "dispose_context demo_two (ContextId 2) = (Inr (), s')" by blast
  have p: "bm_get (bs_pages demo_two) (PageId 2) \<noteq> None"
    "map_option pg_context_id (bm_get (bs_pages demo_two) (PageId 2)) = Some (ContextId 2)"
    "map_option pg_context_id (bm_get (bs_pages demo_two) (PageId 1)) = Some (ContextId 1)"
    by (simp_all add: demo_two_def demo_def run_ops_def demo_ops_def bs_eval create_context_def validate_options_def)
  have "\<forall>p. bm_get (bs_pages s') p = (case bm_get (bs_pages demo_two) p of
          Some pg \<Rightarrow> if pg_context_id pg = ContextId 2 then None else Some pg | None \<Rightarrow> None)"
    using dispose_context_exact [OF demo_two_reachable s'] by blast
  with p s' show ?thesis by (auto simp: bm_has_def)
qed

end
