(* ===== verification/CdpSnap.thy ===== *)
theory CdpSnap
  imports CdpSafety
begin

text \<open>
  Delivery and storage in the browser state of \<open>crates/obscura-cdp/src/state.rs\<close>: the event queue of a
  connection is a bounded queue that loses its oldest events only, draining it returns the longest prefix
  that fits, ready host actions are handed out once and in order, a stored response body is the one
  that is read, merging cookies acts key by key with the last cookie winning, and snapshots restore what
  they saved or change nothing.
\<close>

section \<open>Event queues\<close>

definition queued :: "browser \<Rightarrow> connection_id \<Rightarrow> (cdp_event \<times> nat) list" where
  "queued s c = (case bm_get (bs_events s) c of Some q \<Rightarrow> eq_entries q | None \<Rightarrow> [])"

definition over_limit :: "(cdp_event \<times> nat) list \<Rightarrow> bool" where
  "over_limit es \<longleftrightarrow>
     MAX_EVENTS_PER_CONNECTION < length es \<or> MAX_EVENT_BYTES_PER_CONNECTION < sum_list (map snd es)"

lemma queue_ok_at:
  assumes "bs_inv s" and "bm_get (bs_events s) c = Some q"
  shows "queue_ok q"
  using inv_facts(4) [OF assms(1)] assms(2) by (simp add: event_rel_def)

lemma queued_bytes:
  assumes "bs_inv s" and "bm_get (bs_events s) c = Some q"
  shows "eq_bytes q = sum_list (map snd (queued s c))"
  using queue_ok_at [OF assms] assms(2) by (simp add: queue_ok_def queued_def)

text \<open>
  Queueing an event appends it and drops the shortest prefix of older events that brings the queue
  within its limits; the other connections keep their queues.
\<close>

lemma queue_event_fifo:
  assumes "reachable cd host_of s" and "queue_event cd s c ev = (Inr (), s')"
  shows "\<exists>bs k. enc_event cd ev = Inr bs
    \<and> queued s' c = drop k (queued s c @ [(ev, length bs)])
    \<and> (\<forall>j < k. over_limit (drop j (queued s c @ [(ev, length bs)])))
    \<and> \<not> over_limit (queued s' c)
    \<and> (\<forall>d. d \<noteq> c \<longrightarrow> queued s' d = queued s d)"
proof -
  have inv: "bs_inv s" by (rule reachable_inv [OF assms(1)])
  define q where "q = (case bm_get (bs_events s) c of Some q \<Rightarrow> q | None \<Rightarrow> queue_default)"
  have qe: "eq_entries q = queued s c"
    by (simp add: q_def queued_def queue_default_def split: option.split)
  have qb: "eq_bytes q = sum_list (map snd (queued s c))"
    using queued_bytes [OF inv, of c]
    by (cases "bm_get (bs_events s) c") (simp_all add: q_def queue_default_def queued_def)
  have qs: "eq_bytes q \<le> MAX_EVENT_BYTES_PER_CONNECTION"
    using queue_ok_at [OF inv, of c]
    by (cases "bm_get (bs_events s) c") (simp_all add: q_def queue_default_def queue_ok_def)
  obtain bs where bs: "enc_event cd ev = Inr bs" "length bs \<le> MAX_EVENT_BYTES_PER_CONNECTION"
    and s': "s' = s\<lparr>bs_events := bm_insert c (trim_events (eq_entries q @ [(ev, length bs)])
        (saturating_add usize_max (eq_bytes q) (length bs))) (bs_events s)\<rparr>"
    using assms(2) by (auto simp: queue_event_def q_def Let_def split: if_splits sum.splits)
  have sat: "saturating_add usize_max (eq_bytes q) (length bs) = sum_list (map snd (queued s c @ [(ev, length bs)]))"
    using qs bs(2) qb
    by (simp add: saturating_add_def MAX_EVENT_BYTES_PER_CONNECTION_def usize_max_def)
  have new: "queued s' c = eq_entries (trim_events (queued s c @ [(ev, length bs)])
      (sum_list (map snd (queued s c @ [(ev, length bs)]))))"
    unfolding s' sat by (simp add: queued_def [of "s\<lparr>bs_events := _\<rparr>"] bm_get_insert qe)
  note t = trim_events_facts [OF refl, of "queued s c @ [(ev, length bs)]"]
  have fits: "\<not> over_limit (queued s' c)"
    using t(2-4) by (simp only: over_limit_def new not_less de_Morgan_disj)
  have other: "\<forall>d. d \<noteq> c \<longrightarrow> queued s' d = queued s d" by (simp add: queued_def s' bm_get_insert)
  from t(1) obtain k where "queued s' c = drop k (queued s c @ [(ev, length bs)])"
    "\<forall>j < k. over_limit (drop j (queued s c @ [(ev, length bs)]))"
    by (auto simp only: new over_limit_def)
  with bs(1) fits other show ?thesis by blast
qed

text \<open>The browser with an event queued.\<close>

definition hello :: cdp_event where
  "hello = event_new ''Page.loadEventFired'' JNull"

definition demo_event :: browser where
  "demo_event = snd (queue_event null_codec demo (ConnectionId 1) hello)"

lemma demo_event_run: "queue_event null_codec demo (ConnectionId 1) hello = (Inr (), demo_event)"
proof -
  have "fst (queue_event null_codec demo (ConnectionId 1) hello) = Inr ()"
    by (simp add: queue_event_def demo_tables bm_has_keys null_codec_def MAX_EVENT_BYTES_PER_CONNECTION_def Let_def)
  then show ?thesis unfolding demo_event_def by (metis prod.collapse)
qed

lemma demo_event_reachable: "reachable null_codec no_hosts demo_event"
proof -
  have "bs_exec null_codec no_hosts demo (QueueEvent (ConnectionId 1) hello) = Some demo_event"
    by (simp only: bs_exec.simps demo_event_run snd_conv)
  then show ?thesis by (rule reachable.step [OF demo_reachable])
qed

lemma demo_event_queue: "queued demo_event (ConnectionId 1) = [(hello, 2)]"
  by (simp add: demo_event_def queued_def queue_event_def demo_tables bm_has_keys null_codec_def Let_def queue_default_def bm_get_def
      MAX_EVENT_BYTES_PER_CONNECTION_def MAX_EVENTS_PER_CONNECTION_def bm_get_insert saturating_add_def usize_max_def)

lemma queue_event_fifo_witness: "\<not> over_limit (queued demo_event (ConnectionId 1)) \<and> queued demo (ConnectionId 2) = []"
proof -
  have "queued demo_event (ConnectionId 2) = []"
    by (simp add: demo_event_def queued_def queue_event_def demo_tables null_codec_def Let_def
        MAX_EVENT_BYTES_PER_CONNECTION_def bm_get_def bm_has_keys)
  with queue_event_fifo [OF demo_reachable demo_event_run] show ?thesis by auto
qed

section \<open>Draining\<close>

text \<open>The bytes an event counts for when it is drained, and the longest prefix that fits.\<close>

definition framed :: "nat \<Rightarrow> (cdp_event \<times> nat) list \<Rightarrow> nat" where
  "framed overhead es = sum_list (map (\<lambda>(_, k). k + overhead) es)"

lemma framed_simps [simp]:
  "framed overhead [] = 0" "framed overhead ((e, k) # es) = k + overhead + framed overhead es"
  by (simp_all add: framed_def)

lemma take_events_prefix:
  assumes "take_events room used budget overhead es n = (drained, q)"
    and "used + framed overhead es \<le> usize_max"
    and "used \<le> budget"
  shows "\<exists>k. drained = map fst (take k es) \<and> eq_entries q = drop k es \<and> k \<le> room \<and> k \<le> length es
    \<and> used + framed overhead (take k es) \<le> budget
    \<and> (k = room \<or> k = length es \<or> budget < used + framed overhead (take (Suc k) es))"
  using assms
proof (induction room used budget overhead es n arbitrary: drained q rule: take_events.induct)
  case (3 room used budget overhead e k es n)
  have size: "(case checked_add usize_max k overhead of Some v \<Rightarrow> v | None \<Rightarrow> usize_max) = k + overhead"
    "saturating_add usize_max used (k + overhead) = used + (k + overhead)"
    using "3.prems"(2) by (simp_all add: checked_add_def saturating_add_def)
  show ?case
  proof (cases "budget < used + (k + overhead)")
    case True
    with "3.prems" show ?thesis by (intro exI [of _ 0]) (auto simp: Let_def size)
  next
    case False
    obtain ds q0 where rec: "take_events room (used + (k + overhead)) budget overhead es (n - k) = (ds, q0)"
      by fastforce
    have out: "drained = e # ds" "q = q0" using "3.prems"(1) False rec by (simp_all add: Let_def size)
    have "\<exists>j. ds = map fst (take j es) \<and> eq_entries q0 = drop j es \<and> j \<le> room \<and> j \<le> length es
      \<and> used + (k + overhead) + framed overhead (take j es) \<le> budget
      \<and> (j = room \<or> j = length es \<or> budget < used + (k + overhead) + framed overhead (take (Suc j) es))"
      using "3.IH" [OF refl, of ds q0] "3.prems"(2) False rec by (simp add: size add.assoc)
    then obtain j where j: "ds = map fst (take j es)" "eq_entries q0 = drop j es" "j \<le> room" "j \<le> length es"
      "used + (k + overhead) + framed overhead (take j es) \<le> budget"
      "j = room \<or> j = length es \<or> budget < used + (k + overhead) + framed overhead (take (Suc j) es)"
      by blast
    from j show ?thesis by (intro exI [of _ "Suc j"]) (auto simp: out add.assoc)
  qed
qed (auto intro: exI [of _ 0])

text \<open>
  Draining returns, in order, the longest prefix of the queue within the item limit and the byte
  budget with the framing overhead counted for each event; exactly the rest stays queued.
\<close>

lemma drain_events_prefix:
  assumes "reachable cd host_of s" and "overhead \<le> 65536"
    and "drain_framed_events s c items budget overhead = (es, s')"
  shows "\<exists>k. es = map fst (take k (queued s c)) \<and> queued s' c = drop k (queued s c)
    \<and> k \<le> min items 512 \<and> k \<le> length (queued s c)
    \<and> framed overhead (take k (queued s c)) \<le> budget
    \<and> (k = min items 512 \<or> k = length (queued s c) \<or> budget < framed overhead (take (Suc k) (queued s c)))
    \<and> (\<forall>d. d \<noteq> c \<longrightarrow> queued s' d = queued s d)"
proof (cases "bm_get (bs_events s) c")
  case None
  with assms(3) show ?thesis by (auto simp: drain_framed_events_def queued_def)
next
  case (Some q)
  have ok: "queue_ok q" by (rule queue_ok_at [OF reachable_inv [OF assms(1)] Some])
  have qs: "queued s c = eq_entries q" by (simp add: queued_def Some)
  obtain ds q' where t: "take_events (min items MAX_EVENTS_PER_CONNECTION) 0 budget overhead (eq_entries q) (eq_bytes q) = (ds, q')"
    by fastforce
  have total: "framed overhead xs = sum_list (map snd xs) + length xs * overhead" for xs
    by (induction xs) (auto simp: algebra_simps)
  have "length (eq_entries q) * overhead \<le> 512 * 65536"
    using ok assms(2) by (intro mult_le_mono) (auto simp: queue_ok_def MAX_EVENTS_PER_CONNECTION_def)
  then have room: "0 + framed overhead (eq_entries q) \<le> usize_max"
    using ok by (simp add: total queue_ok_def usize_max_def MAX_EVENT_BYTES_PER_CONNECTION_def)
  have s': "es = ds" "s' = s\<lparr>bs_events := (if eq_entries q' = [] then bm_remove c (bs_events s)
                               else bm_insert c q' (bs_events s))\<rparr>"
    using assms(3) by (simp_all add: drain_framed_events_def Some t)
  have "queued s' c = eq_entries q'" "\<forall>d. d \<noteq> c \<longrightarrow> queued s' d = queued s d"
    by (simp_all add: s' queued_def bm_get_insert bm_get_remove)
  with take_events_prefix [OF t room] show ?thesis
    by (simp add: qs s'(1) MAX_EVENTS_PER_CONNECTION_def)
qed

section \<open>Host actions\<close>

lemma drain_loop_some:
  assumes "\<And>i. i \<in> set q \<Longrightarrow> \<exists>a. get_host_action s i = Inr a"
  shows "drain_loop s room q =
    (map (\<lambda>i. projr (get_host_action s i)) (take room q), drop room q)"
  using assms
proof (induction s room q rule: drain_loop.induct)
  case (3 s room i q)
  have "\<exists>a. get_host_action s i = Inr a" by (rule "3.prems") simp
  then obtain a where a: "get_host_action s i = Inr a" by blast
  have "drain_loop s room q = (map (\<lambda>i. projr (get_host_action s i)) (take room q), drop room q)"
    by (rule "3.IH"(2) [OF a]) (use "3.prems" in simp)
  with a show ?case by simp
qed simp_all

text \<open>
  Draining host actions hands out the oldest ready actions in the order they were started, at most
  the limit and 512, each with the kind and payload it was started with; they are not ready any more, so
  none is handed out twice, and they stay pending until they are completed.
\<close>

lemma host_actions_drained:
  assumes "reachable cd host_of s" and "drain_host_actions s limit = (as, s')"
  shows "map (\<lambda>a. ActionId (ac_action_id a)) as = take (min limit 512) (ready_ids s)
    \<and> ready_ids s' = drop (min limit 512) (ready_ids s)
    \<and> distinct (ready_ids s)
    \<and> (\<forall>a \<in> set as. \<exists>pa h. bm_get (bs_actions s) (ActionId (ac_action_id a)) = Some pa \<and> pa_host pa = Some h
          \<and> ac_kind a = ho_kind h \<and> ac_payload a = ho_payload h)
    \<and> bs_actions s' = bs_actions s"
proof -
  have rel: "ready_rel (bs_actions s) (bs_ready s)" by (rule inv_facts(6) [OF reachable_inv [OF assms(1)]])
  have act: "\<exists>pa h. bm_get (bs_actions s) i = Some pa \<and> pa_host pa = Some h
      \<and> get_host_action s i = Inr \<lparr>ac_action_id = action_num i, ac_generation = stamp pa,
                   ac_kind = ho_kind h, ac_payload = ho_payload h\<rparr>" if "i \<in> set (ready_ids s)" for i
  proof -
    from that obtain q where q: "bs_ready s = Some q" "i \<in> set q" by (cases "bs_ready s") (simp_all add: ready_ids_def)
    with rel obtain pa h where pa: "bm_get (bs_actions s) i = Some pa" "pa_host pa = Some h"
      unfolding ready_rel_def by blast
    moreover have "action_num i \<le> u32_max" using rel pa unfolding ready_rel_def by blast
    ultimately show ?thesis by (simp add: get_host_action_def)
  qed
  have some: "\<exists>a. get_host_action s i = Inr a" if "i \<in> set (ready_ids s)" for i
    using act [OF that] by blast
  have loop: "drain_loop s room (ready_ids s) =
      (map (\<lambda>i. projr (get_host_action s i)) (take room (ready_ids s)), drop room (ready_ids s))" for room
    by (rule drain_loop_some [OF some])
  have drain: "drain_host_actions s limit =
      (map (\<lambda>i. projr (get_host_action s i)) (take (min limit 512) (ready_ids s)),
       if min limit 512 = 0 \<or> bs_ready s = None then s
       else s\<lparr>bs_ready := settle_ready (Some (drop (min limit 512) (ready_ids s)))\<rparr>)"
    using loop [of "min limit 512"]
    by (cases "bs_ready s") (simp_all add: drain_host_actions_def Let_def ready_ids_def MAX_ACTIONS_def)
  then have as: "as = map (\<lambda>i. projr (get_host_action s i)) (take (min limit 512) (ready_ids s))"
    and s': "s' = (if min limit 512 = 0 \<or> bs_ready s = None then s
       else s\<lparr>bs_ready := settle_ready (Some (drop (min limit 512) (ready_ids s)))\<rparr>)"
    using assms(2) by simp_all
  have rest: "ready_ids s' = drop (min limit 512) (ready_ids s)"
    unfolding s' by (cases "bs_ready s") (simp_all add: ready_ids_def settle_ready_def)
  have same: "bs_actions s' = bs_actions s" unfolding s' by simp
  have "map (\<lambda>a. ActionId (ac_action_id a)) as = map (\<lambda>i. i) (take (min limit 512) (ready_ids s))"
    unfolding as map_map
  proof (rule map_cong [OF refl])
    fix i assume "i \<in> set (take (min limit 512) (ready_ids s))"
    then have "i \<in> set (ready_ids s)" by (rule in_set_takeD)
    from act [OF this] show "((\<lambda>a. ActionId (ac_action_id a)) \<circ> (\<lambda>i. projr (get_host_action s i))) i = i"
      by (cases i) auto
  qed
  moreover have "\<exists>pa h. bm_get (bs_actions s) (ActionId (ac_action_id a)) = Some pa \<and> pa_host pa = Some h
          \<and> ac_kind a = ho_kind h \<and> ac_payload a = ho_payload h" if "a \<in> set as" for a
  proof -
    obtain i where i: "i \<in> set (take (min limit 512) (ready_ids s))" "a = projr (get_host_action s i)"
      using \<open>a \<in> set as\<close> by (auto simp: as)
    from act [OF in_set_takeD [OF i(1)]] i(2) show ?thesis by (cases i) auto
  qed
  moreover have "distinct (ready_ids s)"
    using rel by (auto simp: ready_rel_def ready_ids_def split: option.split)
  ultimately show ?thesis using rest same by simp
qed

section \<open>Response bodies\<close>

text \<open>
  A response body that was stored is the one that is read back, whatever was evicted for it; every
  other body is either unchanged or gone, and the other pages keep all of theirs.
\<close>

lemma stored_body_read:
  assumes "reachable cd host_of s" and "store_response_body s p r body base64 = Some (Inr (), s')"
  shows "get_response_body s' p r = Inr \<lparr>rb_body = body, rb_base64 = base64\<rparr>
    \<and> (\<forall>q. q \<noteq> r \<longrightarrow> get_response_body s' p q = get_response_body s p q \<or> get_response_body s' p q = Inl (UnknownPage p))
    \<and> (\<forall>d q. d \<noteq> p \<longrightarrow> get_response_body s' d q = get_response_body s d q)"
proof -
  have c: "content_ok s" by (rule inv_content [OF reachable_inv [OF assms(1)]])
  have r: "r \<noteq> []" "length r \<le> MAX_NETWORK_REQUEST_ID_BYTES" "length body \<le> MAX_NETWORK_RESPONSE_WIRE_BYTES"
    using assms(2) by (auto simp: store_response_body_def split: if_splits)
  with assms(2) obtain pg where pg: "bm_get (bs_pages s) p = Some pg"
    by (cases "bm_get (bs_pages s) p") (auto simp: store_response_body_def)
  have ok: "network_ok (pg_network pg)" using c pg by (simp add: content_ok_def)
  have le: "nw_next_order (pg_network pg) \<le> u64_max" using ok by (simp add: network_ok_def bodies_ok_def)
  show ?thesis
  proof (rule store_response_body_result [OF pg ok r, of base64])
    fix w
    assume keep: "\<And>q. q \<noteq> r \<Longrightarrow> bm_has (nw_response_bodies w) q \<Longrightarrow>
           bm_get (nw_response_bodies w) q = bm_get (nw_response_bodies (pg_network pg)) q"
      and full: "nw_next_order (pg_network pg) = u64_max
      \<Longrightarrow> store_response_body s p r body base64 = Some (Inl IdExhausted, set_network p pg w s)"
      and done': "nw_next_order (pg_network pg) < u64_max
      \<Longrightarrow> store_response_body s p r body base64 = Some (Inr (), set_network p pg w s)
          \<and> bm_get (nw_response_bodies w) r = Some \<lparr>rb_body = body, rb_base64 = base64\<rparr>"
    have lt: "nw_next_order (pg_network pg) < u64_max" using full assms(2) le by (cases "nw_next_order (pg_network pg) = u64_max") auto
    have s': "s' = set_network p pg w s" and new: "bm_get (nw_response_bodies w) r = Some \<lparr>rb_body = body, rb_base64 = base64\<rparr>"
      using done' [OF lt] assms(2) by auto
    have get: "get_response_body s' d q = (if d = p then need (UnknownPage p) (bm_get (nw_response_bodies w) q)
        else get_response_body s d q)" for d q
      by (simp add: get_response_body_def s' set_network_def set_page_def bm_get_insert)
    have old: "bm_get (nw_response_bodies w) q = None \<or>
        bm_get (nw_response_bodies w) q = bm_get (nw_response_bodies (pg_network pg)) q" if "q \<noteq> r" for q
      using keep [OF that] by (cases "bm_get (nw_response_bodies w) q") (auto simp: bm_has_def)
    have "get_response_body s p q = need (UnknownPage p) (bm_get (nw_response_bodies (pg_network pg)) q)" for q
      by (simp add: get_response_body_def pg)
    with get new old show ?thesis by (auto dest: old)
  qed
qed

section \<open>Merging cookies\<close>

definition cookie_writes :: "nat \<Rightarrow> context_cookie list \<Rightarrow> (cookie_key \<times> context_cookie option) list" where
  "cookie_writes now ks = map (\<lambda>k. (cookie_key_of k, if cookie_expired k now then None else Some k)) ks"

lemma merge_cookies_writes:
  "merge_cookies now ks m = Inr m' \<Longrightarrow> m' = apply_writes bm_insert bm_remove (cookie_writes now ks) m"
proof (induction ks arbitrary: m)
  case (Cons k ks)
  then have "validate_cookie k = Inr ()" by (cases "validate_cookie k") auto
  with Cons show ?case by (cases "cookie_expired k now") (simp_all add: cookie_writes_def)
qed (simp add: cookie_writes_def)

text \<open>
  Merging cookies into a context acts key by key (domain, name and path): the last cookie given
  for a key decides, an expired one removes the stored cookie, and every other key and context keeps what
  it had. A refused batch changes no cookie.
\<close>

lemma merge_last_wins:
  assumes "reachable cd host_of s" and "merge_context_cookies_for_context s c ks now = (r, s')"
  shows "(case r of
      Inr _ \<Rightarrow> \<forall>k. bm_get (cookies_of s' c) k =
        (case last_write (cookie_writes now ks) k of Some w \<Rightarrow> w | None \<Rightarrow> bm_get (cookies_of s c) k)
    | Inl _ \<Rightarrow> cookies_of s' c = cookies_of s c)
    \<and> (\<forall>d. d \<noteq> c \<longrightarrow> cookies_of s' d = cookies_of s d)"
proof (cases "bm_has (bs_contexts s) c")
  case False
  with assms(2) show ?thesis by (auto simp: merge_context_cookies_for_context_def)
next
  case True
  have at: "cookies_of (set_cookies c m t) d = (if d = c then m else cookies_of t d)" for m t d
    by (simp add: cookies_of_def set_cookies_def bm_get_insert)
  show ?thesis
  proof (cases "merge_cookies now ks (cookies_of s c)")
    case (Inl e)
    with True assms(2) show ?thesis by (auto simp: merge_context_cookies_for_context_def Let_def at)
  next
    case (Inr m)
    have "bm_get m k = (case last_write (cookie_writes now ks) k of Some w \<Rightarrow> w | None \<Rightarrow> bm_get (cookies_of s c) k)" for k
      unfolding merge_cookies_writes [OF Inr] by (rule bm.get_writes)
    with True assms(2) Inr show ?thesis
      by (cases "MAX_COOKIE_COUNT < length m") (auto simp: merge_context_cookies_for_context_def Let_def at)
  qed
qed

section \<open>Snapshots\<close>

text \<open>The stored cookies of a context, when written, fit the limit that reading a snapshot enforces.\<close>

definition cookies_fit :: "codec \<Rightarrow> browser \<Rightarrow> context_id \<Rightarrow> bool" where
  "cookies_fit cd s c \<longleftrightarrow>
     (case enc_cookies cd (bm_values (cookies_of s c)) of
        Inl _ \<Rightarrow> False | Inr text \<Rightarrow> length text \<le> MAX_COOKIE_BYTES)"

text \<open>What \<open>serde_json\<close> promises: reading the text of a snapshot gives its fields back.\<close>

definition view_of :: "context_snapshot \<Rightarrow> validated_snapshot" where
  "view_of snap =
     \<lparr>vs_schema_version = cs_schema_version snap,
      vs_options = \<lparr>so_user_agent = opt_user_agent (cs_options snap), so_locale = opt_locale (cs_options snap),
        so_timezone_id = opt_timezone_id (cs_options snap), so_storage_state = opt_storage_state (cs_options snap)\<rparr>,
      vs_cookies = cs_cookies snap\<rparr>"

definition snapshot_law :: "codec \<Rightarrow> bool" where
  "snapshot_law cd \<longleftrightarrow> (\<forall>snap text. enc_snapshot cd snap = Inr text \<longrightarrow> dec_snapshot cd text = Inr (view_of snap))"

lemma bm_insert_last: "\<forall>j \<in> fst ` set m. j < k \<Longrightarrow> bm_insert k v m = m @ [(k, v)]"
  by (induction k v m rule: bm_insert.induct) auto

lemma snapshot_cookies_values:
  "keyed (xs @ ys) \<Longrightarrow> snapshot_cookies (map snd ys) xs = Inr (xs @ ys)"
proof (induction ys arbitrary: xs)
  case (Cons y ys)
  obtain k v where y: "y = (k, v)" by fastforce
  have ok: "bm_ok (xs @ (k, v) # ys)" using Cons.prems by (simp add: keyed_def y)
  have "bm_get (xs @ (k, v) # ys) k = Some v" using ok by (simp add: bm_get_iff)
  then have v: "k = cookie_key_of v" "validate_cookie v = Inr ()" using Cons.prems unfolding keyed_def y by blast+
  have below: "\<forall>j \<in> fst ` set xs. j < k" using ok by (auto simp: bm_ok_def sorted_wrt_append)
  have "\<not> bm_has xs k" using below unfolding bm_has_def bm_get_None by auto
  moreover have "bm_insert k v xs = xs @ [(k, v)]" by (rule bm_insert_last) (use below in blast)
  ultimately show ?case using Cons.IH [of "xs @ [(k, v)]"] Cons.prems v by (simp add: y)
qed simp

lemma exported_snapshot:
  assumes inv: "bs_inv s" and "snapshot_law cd" and "export_context cd s c = Inr bs"
    and "bm_get (bs_contexts s) c = Some cx"
  shows "cookies_fit cd s c \<Longrightarrow> validate_context_snapshot cd bs = Inr (cx_options cx, cookies_of s c)"
    and "\<not> cookies_fit cd s c \<Longrightarrow> \<exists>e. validate_context_snapshot cd bs = Inl e"
proof -
  let ?snap = "\<lparr>cs_schema_version = CONTEXT_SNAPSHOT_VERSION, cs_options = cx_options cx,
                             cs_cookies = bm_values (cookies_of s c)\<rparr>"
  have enc: "enc_snapshot cd ?snap = Inr bs" and len: "\<not> MAX_CONTEXT_SNAPSHOT_BYTES < length bs"
    using assms(3,4) by (auto simp: export_context_def split: sum.splits if_splits)
  from enc assms(2) have dec: "dec_snapshot cd bs = Inr (view_of ?snap)" by (simp add: snapshot_law_def)
  have opts: "options_of_snapshot (vs_options (view_of ?snap)) = cx_options cx"
    by (simp add: options_of_snapshot_def view_of_def)
  have valid: "validate_options (cx_options cx) = Inr ()"
    using inv_facts(1) [OF inv] assms(4) by (simp add: context_rel_def)
  have ck: "keyed (cookies_of s c)" "length (cookies_of s c) \<le> MAX_COOKIE_COUNT"
    using cookies_of_ok [OF inv, of c] by (simp_all add: cookies_ok_keyed)
  have vs: "vs_schema_version (view_of ?snap) = CONTEXT_SNAPSHOT_VERSION"
    "vs_cookies (view_of ?snap) = bm_values (cookies_of s c)" by (simp_all add: view_of_def)
  have "snapshot_cookies (bm_values (cookies_of s c)) [] = Inr (cookies_of s c)"
    using snapshot_cookies_values [of "[]" "cookies_of s c"] ck(1) by (simp add: bm_values_def)
  moreover have "length (bm_values (cookies_of s c)) \<le> MAX_COOKIE_COUNT" using ck(2) by (simp add: bm_values_def)
  ultimately show "cookies_fit cd s c \<Longrightarrow> validate_context_snapshot cd bs = Inr (cx_options cx, cookies_of s c)"
    and "\<not> cookies_fit cd s c \<Longrightarrow> \<exists>e. validate_context_snapshot cd bs = Inl e"
    using len valid
    by (auto simp: validate_context_snapshot_def dec vs opts Let_def cookies_fit_def split: sum.splits)
qed

text \<open>Importing a snapshot that reads as a context's own options and cookies.\<close>

lemma import_exported:
  assumes inv: "bs_inv s" and cx: "bm_get (bs_contexts s) c = Some cx"
    and v: "validate_context_snapshot cd bs = Inr (cx_options cx, cookies_of s c)"
    and i: "import_context cd s bs = (r, s')"
  shows "(case r of
      Inr k \<Rightarrow> \<not> bm_has (bs_contexts s) k \<and> cookies_of s' k = cookies_of s c
        \<and> map_option cx_options (bm_get (bs_contexts s') k) = map_option cx_options (bm_get (bs_contexts s) c)
        \<and> (\<forall>d. d \<noteq> k \<longrightarrow> bm_get (bs_contexts s') d = bm_get (bs_contexts s) d \<and> cookies_of s' d = cookies_of s d)
    | Inl e \<Rightarrow> s' = s)
    \<and> ((\<exists>e. r = Inl e) \<longleftrightarrow> bs_closed s \<or> 256 \<le> length (bs_contexts s) \<or> u64_max \<le> bs_next_context s)"
proof -
  obtain q t where t: "create_context s (cx_options cx) = (q, t)" by fastforce
  have import': "import_context cd s bs = (case q of Inl e \<Rightarrow> (Inl e, t) | Inr k \<Rightarrow> (Inr k, set_cookies k (cookies_of s c) t))"
    by (simp add: import_context_def v t split: sum.split)
  have at: "cookies_of (set_cookies k m u) d = (if d = k then m else cookies_of u d)" for k m u d
    by (simp add: cookies_of_def set_cookies_def bm_get_insert)
  have "validate_options (cx_options cx) = Inr ()"
    using inv_facts(1) [OF inv] cx by (simp add: context_rel_def)
  then have why: "(\<exists>e. q = Inl e) \<longleftrightarrow> bs_closed s \<or> 256 \<le> length (bs_contexts s) \<or> u64_max \<le> bs_next_context s"
    using t by (auto simp: create_context_def ensure_open_def MAX_CONTEXTS_def next_id_def checked_add_def Let_def
        split: if_splits)
  from t show ?thesis
  proof (cases rule: create_context_cases)
    case (1 e)
    with i import' why show ?thesis by auto
  next
    case 2
    let ?k = "ContextId (Suc (bs_next_context s))"
    have fresh: "\<not> bm_has (bs_contexts s) ?k"
      by (rule below_fresh [OF inv_facts(7) [OF inv]]) simp
    have r: "r = Inr ?k" and s': "s' = set_cookies ?k (cookies_of s c) t"
      using i import' by (simp_all add: 2(1))
    have new: "map_option cx_options (bm_get (bs_contexts s') ?k) = Some (cx_options cx)"
      by (simp add: s' set_cookies_def 2(5) bm_get_insert)
    have rest: "bm_get (bs_contexts s') d = bm_get (bs_contexts s) d \<and> cookies_of s' d = cookies_of s d"
      if "d \<noteq> ?k" for d
      using that by (simp add: s' at) (simp add: set_cookies_def cookies_of_def 2(5) bm_get_insert)
    have "cookies_of s' ?k = cookies_of s c" by (simp add: s' at)
    with fresh new rest cx why show ?thesis by (simp add: r 2(1))
  qed
qed

text \<open>
  C39. Importing an exported context creates a new context with the same options and exactly the same
  cookies and leaves the other contexts as they were. It fails, changing nothing, exactly when the
  browser is closed, full or out of context numbers, or when the context's cookies cannot be written
  or take more than 64 KiB, which exporting does not check and importing refuses.
\<close>

theorem export_import_context:
  assumes "reachable cd host_of s" and "snapshot_law cd" and "export_context cd s c = Inr bs"
    and "import_context cd s bs = (r, s')"
  shows "(case r of
      Inr k \<Rightarrow> \<not> bm_has (bs_contexts s) k \<and> cookies_of s' k = cookies_of s c
        \<and> map_option cx_options (bm_get (bs_contexts s') k) = map_option cx_options (bm_get (bs_contexts s) c)
        \<and> (\<forall>d. d \<noteq> k \<longrightarrow> bm_get (bs_contexts s') d = bm_get (bs_contexts s) d \<and> cookies_of s' d = cookies_of s d)
    | Inl e \<Rightarrow> s' = s)
    \<and> ((\<exists>e. r = Inl e) \<longleftrightarrow>
         bs_closed s \<or> 256 \<le> length (bs_contexts s) \<or> u64_max \<le> bs_next_context s
         \<or> (\<forall>text. enc_cookies cd (bm_values (cookies_of s c)) = Inr text \<longrightarrow> 64 * 1024 < length text))"
proof -
  have inv: "bs_inv s" by (rule reachable_inv [OF assms(1)])
  obtain cx where cx: "bm_get (bs_contexts s) c = Some cx"
    using assms(3) by (cases "bm_get (bs_contexts s) c") (auto simp: export_context_def)
  note v = exported_snapshot [OF inv assms(2,3) cx]
  have fit: "cookies_fit cd s c \<longleftrightarrow>
      \<not> (\<forall>text. enc_cookies cd (bm_values (cookies_of s c)) = Inr text \<longrightarrow> 64 * 1024 < length text)"
    by (simp add: cookies_fit_def MAX_COOKIE_BYTES_def not_less split: sum.split)
  show ?thesis
  proof (cases "cookies_fit cd s c")
    case False
    with v(2) obtain e where "validate_context_snapshot cd bs = Inl e" by blast
    then have "import_context cd s bs = (Inl e, s)" by (simp add: import_context_def)
    with False fit assms(4) show ?thesis by auto
  next
    case True
    note imp = import_exported [OF inv cx v(1) [OF True] assms(4)]
    show ?thesis using imp True fit by blast
  qed
qed

text \<open>Restoring raises the document generation of every page of the context.\<close>

lemma page_generations_map:
  "page_generations c pgs = Inr gs \<Longrightarrow>
     gs = map (\<lambda>pg. (pg_id pg, Suc (pg_document_generation pg))) (filter (\<lambda>pg. pg_context_id pg = c) pgs)"
proof (induction pgs arbitrary: gs)
  case (Cons pg pgs)
  then show ?case
    by (cases "page_generations c pgs")
      (auto simp: checked_add_def split: if_splits)
qed simp

lemma fold_set_generation:
  assumes "distinct (map fst gs)"
  shows "bm_get (fold set_generation gs pages) p =
    (case bm_get pages p of None \<Rightarrow> None
     | Some pg \<Rightarrow> Some (case map_of gs p of None \<Rightarrow> pg | Some g \<Rightarrow> pg\<lparr>pg_document_generation := g\<rparr>))"
  using assms
proof (induction gs arbitrary: pages)
  case Nil
  show ?case by (simp split: option.split)
next
  case (Cons g gs)
  obtain q n where g: "g = (q, n)" by fastforce
  have step: "bm_get (set_generation g pages) p =
      (if p = q then map_option (\<lambda>pg. pg\<lparr>pg_document_generation := n\<rparr>) (bm_get pages p) else bm_get pages p)"
    by (cases "bm_get pages q") (auto simp: set_generation_def g bm_get_insert)
  have "map_of gs q = None" using Cons.prems by (simp add: g map_of_eq_None_iff)
  then show ?case
    using Cons.IH [of "set_generation g pages"] Cons.prems
    by (cases "bm_get pages p") (auto simp: step [unfolded g] g)
qed

text \<open>Restoring a context moves exactly its pages to a new document.\<close>

lemma restored_pages:
  assumes inv: "bs_inv s" and gs: "page_generations c (bm_values (bs_pages s)) = Inr gs"
  shows "bm_get (fold set_generation gs (bs_pages s)) p = map_option (\<lambda>pg. if pg_context_id pg = c
      then pg\<lparr>pg_document_generation := Suc (pg_document_generation pg)\<rparr> else pg) (bm_get (bs_pages s) p)"
proof -
  have rel: "bm_ok (bs_pages s)" "\<And>p pg. bm_get (bs_pages s) p = Some pg \<Longrightarrow> pg_id pg = p"
    using inv_facts(2) [OF inv] inv_content [OF inv] by (simp_all add: page_rel_def content_ok_def)
  let ?in = "\<lambda>pg. pg_context_id pg = c"
  have gs': "gs = map (\<lambda>pg. (pg_id pg, Suc (pg_document_generation pg))) (filter ?in (bm_values (bs_pages s)))"
    by (rule page_generations_map [OF assms(2)])
  have ids: "map pg_id (bm_values (bs_pages s)) = bm_keys (bs_pages s)"
    unfolding bm_values_def bm_keys_def map_map using rel by (intro map_cong) (auto simp: bm_get_iff [symmetric])
  then have d: "distinct (map pg_id (bm_values (bs_pages s)))" using rel(1) by (simp add: bm_keys_def bm_ok_distinct)
  have "map fst gs = map pg_id (filter ?in (bm_values (bs_pages s)))" by (simp add: gs')
  moreover have "distinct (map pg_id (filter ?in (bm_values (bs_pages s))))" by (rule distinct_map_filter [OF d])
  ultimately have dist: "distinct (map fst gs)" by simp
  have at: "map_of gs p = (if ?in pg then Some (Suc (pg_document_generation pg)) else None)"
    if p: "bm_get (bs_pages s) p = Some pg" for p pg
  proof (cases "?in pg")
    case True
    then have "(p, Suc (pg_document_generation pg)) \<in> set gs"
      using p rel by (force simp: gs' bm_values_iff)
    with dist True show ?thesis by simp
  next
    case False
    have "(p, n) \<notin> set gs" for n
      using p rel False by (auto simp: gs' bm_values_iff)
    then have "map_of gs p = None" by (auto simp: map_of_eq_None_iff)
    with False show ?thesis by simp
  qed
  show ?thesis
    using at by (cases "bm_get (bs_pages s) p") (simp_all add: fold_set_generation [OF dist])
qed

text \<open>
  C40. Restoring a context replaces its options and cookies by the snapshot's, moves every page of
  the context to a new document, so that work started on the old ones is stale, and touches no other
  context or page; a refused snapshot changes nothing.
\<close>

theorem restore_context_effect:
  assumes "reachable cd host_of s" and "restore_context cd s c bs = (r, s')"
  shows "(case r of
      Inl e \<Rightarrow> s' = s
    | Inr g \<Rightarrow> (\<exists>opts m. validate_context_snapshot cd bs = Inr (opts, m) \<and> cookies_of s' c = m
          \<and> bm_get (bs_contexts s') c = Some \<lparr>cx_id = c, cx_options = opts, cx_generation = g\<rparr>)
        \<and> (\<forall>d. d \<noteq> c \<longrightarrow> bm_get (bs_contexts s') d = bm_get (bs_contexts s) d \<and> cookies_of s' d = cookies_of s d)
        \<and> (\<forall>p. bm_get (bs_pages s') p = map_option (\<lambda>pg. if pg_context_id pg = c
              then pg\<lparr>pg_document_generation := Suc (pg_document_generation pg)\<rparr> else pg) (bm_get (bs_pages s) p)))"
  using assms(2)
proof (cases rule: restore_context_cases)
  case (1 e)
  then show ?thesis by simp
next
  case (2 cx opts m gs)
  have inv: "bs_inv s" by (rule reachable_inv [OF assms(1)])
  have pages: "bm_get (bs_pages s') p = map_option (\<lambda>pg. if pg_context_id pg = c
      then pg\<lparr>pg_document_generation := Suc (pg_document_generation pg)\<rparr> else pg) (bm_get (bs_pages s) p)" for p
    using restored_pages [OF inv 2(6)] by (simp add: 2(7))
  have id: "cx_id cx = c" using inv_facts(1) [OF inv] 2(3) by (simp add: context_rel_def)
  have new: "bm_get (bs_contexts s') c = Some \<lparr>cx_id = c, cx_options = opts, cx_generation = Suc (cx_generation cx)\<rparr>"
    "cookies_of s' c = m"
    using id by (simp_all add: 2(7) bm_get_insert cookies_of_def)
  have rest: "bm_get (bs_contexts s') d = bm_get (bs_contexts s) d \<and> cookies_of s' d = cookies_of s d" if "d \<noteq> c" for d
    using that by (simp add: 2(7) bm_get_insert cookies_of_def)
  show ?thesis unfolding 2(1) using new rest pages 2(5) by auto
qed

section \<open>Concrete instances\<close>

theorem drain_events_prefix_witness:
  "fst (drain_framed_events demo_event (ConnectionId 1) 8 2 0) = [hello]
   \<and> queued (snd (drain_framed_events demo_event (ConnectionId 1) 8 2 0)) (ConnectionId 1) = []"
proof -
  obtain es s' where d: "drain_framed_events demo_event (ConnectionId 1) 8 2 0 = (es, s')" by fastforce
  have f: "framed 0 [(hello, 2)] = 2" by simp
  note x = drain_events_prefix [OF demo_event_reachable le0 d, unfolded demo_event_queue]
  from x obtain k where k: "es = map fst (take k [(hello, 2::nat)])" "queued s' (ConnectionId 1) = drop k [(hello, 2)]"
    "k = min 8 512 \<or> k = length [(hello, 2::nat)] \<or> 2 < framed 0 (take (Suc k) [(hello, 2)])" by blast
  from f k(3) have "k \<noteq> 0" by (cases k) auto
  then have "take k [(hello, 2::nat)] = [(hello, 2)]" "drop k [(hello, 2::nat)] = []" by (cases k; simp)+
  with k(1,2) show ?thesis by (simp only: d fst_conv snd_conv list.map)
qed

theorem host_actions_drained_witness:
  "map (\<lambda>a. ActionId (ac_action_id a)) (fst (drain_host_actions demo 5)) = [ActionId 1]"
proof -
  obtain as s' where d: "drain_host_actions demo 5 = (as, s')" by fastforce
  have "ready_ids demo = [ActionId 1]" by (simp add: ready_ids_def demo_tables)
  with host_actions_drained [OF demo_reachable d] show ?thesis unfolding d by simp
qed

theorem stored_body_read_witness:
  "\<exists>s'. store_response_body demo (PageId 1) ''r'' ''body'' False = Some (Inr (), s')
    \<and> get_response_body s' (PageId 1) ''r'' = Inr \<lparr>rb_body = ''body'', rb_base64 = False\<rparr>"
proof -
  have net: "\<exists>pg. bm_get (bs_pages demo) (PageId 1) = Some pg \<and> pg_network pg = network_default"
    by (simp add: demo_def run_ops_def demo_ops_def bs_eval)
  have "\<exists>s'. store_response_body demo (PageId 1) ''r'' ''body'' False = Some (Inr (), s')"
    using net by (auto simp: store_response_body_def MAX_NETWORK_REQUEST_ID_BYTES_def MAX_NETWORK_RESPONSE_WIRE_BYTES_def
        MAX_NETWORK_RESPONSE_BODY_BYTES_def network_default_def remove_body_def body_pressure_def checked_add_def u64_max_def
        bm_get_def bm_retain_def Let_def)
  then obtain s' where s': "store_response_body demo (PageId 1) ''r'' ''body'' False = Some (Inr (), s')" by blast
  with stored_body_read [OF demo_reachable s'] show ?thesis by blast
qed

definition sample_cookie :: context_cookie where
  "sample_cookie = \<lparr>ck_name = ''a'', ck_value = ''1'', ck_domain = ''x.org'', ck_path = ''/'', ck_secure = False,
     ck_http_only = False, ck_same_site = ''Lax'', ck_expires = None, ck_host_only = True\<rparr>"

theorem merge_last_wins_witness:
  "bm_get (cookies_of (snd (merge_context_cookies_for_context demo (ContextId 1)
      [sample_cookie, sample_cookie\<lparr>ck_value := ''2''\<rparr>] 0)) (ContextId 1)) (''x.org'', ''a'', ''/'')
    = Some (sample_cookie\<lparr>ck_value := ''2''\<rparr>)"
proof -
  let ?ks = "[sample_cookie, sample_cookie\<lparr>ck_value := ''2''\<rparr>]"
  obtain r s' where m: "merge_context_cookies_for_context demo (ContextId 1) ?ks 0 = (r, s')" by fastforce
  have "fst (merge_context_cookies_for_context demo (ContextId 1) ?ks 0) = Inr ()"
    by (simp add: demo_def run_ops_def demo_ops_def bs_eval merge_context_cookies_for_context_def cookies_of_def
        sample_cookie_def validate_cookie_def MAX_METHOD_BYTES_def MAX_COOKIE_BYTES_def starts_with_def
        cookie_expired_def cookie_key_of_def MAX_COOKIE_COUNT_def)
  then have r: "r = Inr ()" by (simp only: m fst_conv)
  have w: "last_write (cookie_writes 0 ?ks) (''x.org'', ''a'', ''/'') = Some (Some (sample_cookie\<lparr>ck_value := ''2''\<rparr>))"
    by (simp add: cookie_writes_def cookie_key_of_def sample_cookie_def cookie_expired_def)
  from merge_last_wins [OF demo_reachable m] show ?thesis
    unfolding r m snd_conv using w by simp
qed

text \<open>A browser whose default context holds a cookie, and a codec that can write its snapshot.\<close>

definition cookie_browser :: browser where
  "cookie_browser = snd (merge_context_cookies_for_context browser_new (ContextId 1) [sample_cookie] 0)"

definition cookie_snapshot :: context_snapshot where
  "cookie_snapshot = \<lparr>cs_schema_version = 1, cs_options = context_options_default, cs_cookies = [sample_cookie]\<rparr>"

definition one_codec :: codec where
  "one_codec = null_codec
     \<lparr>enc_snapshot := (\<lambda>snap. if snap = cookie_snapshot then Inr ''{}'' else Inl ''unsupported''),
      dec_snapshot := (\<lambda>text. if text = ''{}'' then Inr (view_of cookie_snapshot) else Inl ''unsupported'')\<rparr>"

lemma one_codec_law: "snapshot_law one_codec"
  by (simp add: snapshot_law_def one_codec_def)

lemma cookie_browser_reachable: "reachable one_codec no_hosts cookie_browser"
  unfolding cookie_browser_def
  by (rule reachable.step [OF reachable.start, where e = "MergeCookies (ContextId 1) [sample_cookie] 0"]) simp

lemma cookie_browser_tables:
  "cookies_of cookie_browser (ContextId 1) = [((''x.org'', ''a'', ''/''), sample_cookie)]"
  "bs_contexts cookie_browser = bs_contexts browser_new" "bs_closed cookie_browser = False"
  "bs_next_context cookie_browser = bs_next_context browser_new"
  by (simp_all add: cookie_browser_def merge_context_cookies_for_context_def browser_new_def set_cookies_def bm_get_def
      cookies_of_def sample_cookie_def validate_cookie_def MAX_METHOD_BYTES_def MAX_COOKIE_BYTES_def starts_with_def
      cookie_expired_def cookie_key_of_def MAX_COOKIE_COUNT_def bm_has_def)

theorem export_import_context_witness:
  "\<exists>k. k \<noteq> ContextId 1
    \<and> cookies_of (snd (import_context one_codec cookie_browser ''{}'')) k = [((''x.org'', ''a'', ''/''), sample_cookie)]"
proof -
  have e: "export_context one_codec cookie_browser (ContextId 1) = Inr ''{}''"
    by (simp del: One_nat_def add: export_context_def cookie_browser_tables browser_new_def one_codec_def cookie_snapshot_def bm_get_def
        bm_values_def CONTEXT_SNAPSHOT_VERSION_def MAX_CONTEXT_SNAPSHOT_BYTES_def MAX_STORAGE_STATE_BYTES_def)
  obtain r s' where i: "import_context one_codec cookie_browser ''{}'' = (r, s')" by fastforce
  note x = export_import_context [OF cookie_browser_reachable one_codec_law e i]
  have "\<nexists>e. r = Inl e"
    using x by (simp add: cookie_browser_tables one_codec_def null_codec_def) (simp add: browser_new_def u64_max_def)
  then obtain k where r: "r = Inr k" by (cases r) auto
  have "bm_has (bs_contexts cookie_browser) (ContextId 1)"
    by (simp add: cookie_browser_tables browser_new_def bm_has_def bm_get_def)
  with x have "k \<noteq> ContextId 1" "cookies_of s' k = [((''x.org'', ''a'', ''/''), sample_cookie)]"
    by (auto simp del: One_nat_def simp: r cookie_browser_tables)
  then show ?thesis by (auto simp: i)
qed

theorem restore_context_effect_witness:
  "snd (restore_context null_codec demo (ContextId 1) ''{}'') = demo"
proof -
  obtain r s' where x: "restore_context null_codec demo (ContextId 1) ''{}'' = (r, s')" by fastforce
  have "\<exists>e. fst (restore_context null_codec demo (ContextId 1) ''{}'') = Inl e"
    by (simp add: demo_def run_ops_def demo_ops_def bs_eval restore_context_def validate_context_snapshot_def
        MAX_CONTEXT_SNAPSHOT_BYTES_def MAX_STORAGE_STATE_BYTES_def)
  then obtain e where "r = Inl e" by (simp only: x fst_conv) blast
  with restore_context_effect [OF demo_reachable x] x show ?thesis by simp
qed

end
