(* ===== verification/CdpStale.thy ===== *)
theory CdpStale
  imports CdpSnap
begin

text \<open>
  A navigation makes the older work of its page stale for good. The document generation of a page
  only grows under the methods of the browser state, with one exception: the caller of
  \<open>update_page\<close> may write any generation. A page that is gone does not come back under its
  number, and an entry of the action table never changes.
\<close>

section \<open>The generation of a page's document\<close>

definition doc_generation :: "browser \<Rightarrow> page_id \<Rightarrow> nat option" where
  "doc_generation s p = map_option pg_document_generation (bm_get (bs_pages s) p)"

definition doc_forward :: "page_id \<Rightarrow> browser \<Rightarrow> browser \<Rightarrow> bool" where
  "doc_forward p s s' \<longleftrightarrow>
     (\<forall>g'. doc_generation s' p = Some g' \<longrightarrow>
        (\<exists>g. doc_generation s p = Some g \<and> g \<le> g') \<or> bs_next_page s < page_num p)"

lemma forward_same: "doc_generation s' p = doc_generation s p \<Longrightarrow> doc_forward p s s'"
  by (simp add: doc_forward_def)

lemma doc_same: "bs_pages s' = bs_pages s \<Longrightarrow> doc_generation s' p = doc_generation s p"
  by (simp add: doc_generation_def)

lemma doc_set_page:
  "doc_generation (set_page q pg s) p = (if p = q then Some (pg_document_generation pg) else doc_generation s p)"
  by (simp add: doc_generation_def set_page_def bm_get_insert)

lemma doc_set_network:
  "bm_get (bs_pages s) q = Some pg \<Longrightarrow> doc_generation (set_network q pg w s) p = doc_generation s p"
  by (simp add: set_network_def doc_set_page) (simp add: doc_generation_def)

lemma attempt_page_doc:
  assumes "\<And>pg. bm_get (bs_pages s) q = Some pg \<Longrightarrow> doc_generation (snd (f pg)) p = doc_generation s p"
  shows "doc_generation (snd (attempt (page_of s q) s f)) p = doc_generation s p"
  using assms by (auto simp: attempt_def split: sum.split)

lemma network_steps_doc:
  "doc_generation (snd (network_enable s q i)) p = doc_generation s p"
  "doc_generation (snd (network_disable s q session)) p = doc_generation s p"
  "doc_generation (snd (set_cache_disabled s q b)) p = doc_generation s p"
  "doc_generation (snd (set_extra_headers s q headers)) p = doc_generation s p"
  "doc_generation (snd (clear_response_bodies s q)) p = doc_generation s p"
  "doc_generation (snd (set_fetch_patterns s q i patterns)) p = doc_generation s p"
  "doc_generation (snd (register_paused_request s q r)) p = doc_generation s p"
  "doc_generation (snd (cancel_paused_request s q r)) p = doc_generation s p"
  by (simp_all add: network_enable_def network_disable_def set_cache_disabled_def set_extra_headers_def
      clear_response_bodies_def set_fetch_patterns_def register_paused_request_def cancel_paused_request_def)
    (auto simp: Let_def doc_set_network intro!: attempt_page_doc)

lemma store_body_doc:
  "store_response_body s q r body base64 = Some (x, s') \<Longrightarrow> doc_generation s' p = doc_generation s p"
  by (cases "bm_get (bs_pages s) q")
    (auto simp: store_response_body_def Let_def doc_set_network split: if_splits option.splits)

lemma queue_fetch_doc: "doc_generation (snd (queue_fetch_resolution s q r v)) p = doc_generation s p"
  unfolding queue_fetch_resolution_def
  by (rule attempt_page_doc)
    (auto simp: Let_def set_network_def set_page_def doc_generation_def bm_get_insert)

lemma continue_all_doc: "doc_generation (snd (continue_all s q rs)) p = doc_generation s p"
proof (induction rs arbitrary: s)
  case (Cons r rs)
  obtain x s' where e: "queue_fetch_resolution s q r (continue_resolution r) = (x, s')" by fastforce
  with queue_fetch_doc [of s q r "continue_resolution r"] Cons.IH [of s'] show ?case by (simp split: sum.split)
qed simp

lemma fetch_steps_doc:
  "doc_generation (snd (clear_fetch_patterns s q i)) p = doc_generation s p"
  "doc_generation (snd (drain_fetch_resolutions s q n)) p = doc_generation s p"
proof -
  show "doc_generation (snd (clear_fetch_patterns s q i)) p = doc_generation s p"
    unfolding clear_fetch_patterns_def
    by (rule attempt_page_doc) (simp add: Let_def continue_all_doc doc_set_network)
  show "doc_generation (snd (drain_fetch_resolutions s q n)) p = doc_generation s p"
    by (simp add: drain_fetch_resolutions_def Let_def doc_generation_def split: option.split)
qed

lemma update_page_doc:
  assumes "q \<noteq> p \<or> generation = None"
  shows "doc_generation (snd (update_page s q url title loader_id generation)) p = doc_generation s p"
proof -
  have set: "doc_generation (set_page q (page_update pg u title loader_id generation) s) p = doc_generation s p"
    if "bm_get (bs_pages s) q = Some pg" for pg u
    using assms that by (auto simp: doc_set_page page_update_def) (auto simp: doc_generation_def)
  have hist: "doc_generation (t\<lparr>bs_history := h\<rparr>) p = doc_generation t p" for t h by (simp add: doc_generation_def)
  show ?thesis
    by (auto simp: update_page_def attempt_def Let_def hist set split: sum.splits option.splits)
qed

lemma display_steps_doc:
  "doc_generation (snd (set_device_metrics s q width height scale mobile)) p = doc_generation s p"
  "doc_generation (snd (clear_device_metrics s q)) p = doc_generation s p"
  "doc_generation (snd (set_layout_metrics s q x y cw ch)) p = doc_generation s p"
  "doc_generation (snd (set_emulated_media s q media)) p = doc_generation s p"
  "doc_generation (snd (set_focus_emulation s q enabled)) p = doc_generation s p"
  "doc_generation (snd (reset_navigation_history s q)) p = doc_generation s p"
  by (rule doc_same, simp add: set_device_metrics_def clear_device_metrics_def set_layout_metrics_def
      set_emulated_media_def set_focus_emulation_def reset_navigation_history_def set_display_def put_display_def
      Let_def split: option.split)+

section \<open>The methods on the other tables\<close>

lemma cookie_ops_doc:
  "doc_generation (snd (replace_context_cookies s q ks now)) p = doc_generation s p"
  "doc_generation (snd (merge_context_cookies_for_context s c ks now)) p = doc_generation s p"
  "doc_generation (snd (delete_context_cookies_for_context s c name domain path)) p = doc_generation s p"
  "doc_generation (snd (clear_context_cookies_for_context s c)) p = doc_generation s p"
  "doc_generation (snd (clear_context_cookies_for_origin host_of s q origin)) p = doc_generation s p"
  by (rule doc_same, simp add: replace_context_cookies_def merge_context_cookies_for_context_def
      delete_context_cookies_for_context_def clear_context_cookies_for_context_def
      clear_context_cookies_for_origin_def attempt_def Let_def set_cookies_def split: sum.split option.split)+

lemma queue_ops_doc:
  "doc_generation (snd (claim_host_action s i)) p = doc_generation s p"
  "doc_generation (snd (drain_host_actions s n)) p = doc_generation s p"
  "doc_generation (snd (queue_event cd s c ev)) p = doc_generation s p"
  "doc_generation (snd (drain_framed_events s c items budget overhead)) p = doc_generation s p"
  "doc_generation (discard_session_events s c session) p = doc_generation s p"
  by (rule doc_same, simp add: claim_host_action_def drain_host_actions_def queue_event_def
      drain_framed_events_def discard_session_events_def Let_def split: sum.split option.split prod.split)+

lemma cancel_ops_doc:
  "doc_generation (snd (cancel_action s i)) p = doc_generation s p"
  "doc_generation (snd (cancel_host_actions_for_connection s c)) p = doc_generation s p"
  "doc_generation (snd (cancel_host_actions_for_session s c session)) p = doc_generation s p"
  "doc_generation (snd (cancel_host_actions_for_page s q)) p = doc_generation s p"
  by (rule doc_same, simp add: cancel_action_def cancel_host_actions_for_connection_def
      cancel_host_actions_for_session_def cancel_host_actions_for_page_def cancel_host_actions_where_def
      cancel_host_action_ids_def remove_action_def)+

lemma create_context_pages: "bs_pages (snd (create_context s opts)) = bs_pages s"
  by (cases "create_context s opts") (auto elim: create_context_cases)

lemma creating_doc:
  "doc_generation (snd (create_context s opts)) p = doc_generation s p"
  "doc_generation (snd (import_context cd s bs)) p = doc_generation s p"
  "doc_generation (snd (open_connection s)) p = doc_generation s p"
  "doc_generation (snd (attach s k q)) p = doc_generation s p"
proof -
  show "doc_generation (snd (create_context s opts)) p = doc_generation s p"
    by (rule doc_same [OF create_context_pages])
  show "doc_generation (snd (import_context cd s bs)) p = doc_generation s p"
    using create_context_pages [of s]
    by (intro doc_same)
      (auto simp: import_context_def attempt_def set_cookies_def split: sum.split prod.split, (metis snd_conv)+)
  show "doc_generation (snd (open_connection s)) p = doc_generation s p"
    "doc_generation (snd (attach s k q)) p = doc_generation s p"
    by (rule doc_same, simp add: open_connection_def attach_def attempt_def split: sum.split)+
qed

lemma detach_doc: "doc_generation (snd (detach s i)) p = doc_generation s p"
proof -
  have "doc_generation (case bm_get (bs_pages t) q of Some pg \<Rightarrow> set_network q pg (w pg) t | None \<Rightarrow> t) p
      = doc_generation t p" for t q w
    by (simp add: doc_set_network split: option.split)
  then show ?thesis
    by (simp add: detach_def Let_def fetch_steps_doc split: option.split_asm option.split)
      (simp add: doc_generation_def set_network_def set_page_def bm_get_insert)
qed

lemma close_connection_doc: "doc_generation (snd (close_connection s c)) p = doc_generation s p"
proof -
  have "doc_generation (fold (\<lambda>i st. snd (detach st i)) is t) p = doc_generation t p" for "is" t
    by (induction "is" arbitrary: t) (simp_all add: detach_doc)
  then show ?thesis by (simp add: close_connection_def Let_def) (simp add: doc_generation_def)
qed

lemma complete_doc: "doc_generation (snd (complete_action cd s i r)) p = doc_generation s p"
proof -
  have rm: "doc_generation (snd (remove_action t i)) p = doc_generation t p" for t
    by (simp add: remove_action_def doc_generation_def)
  have nav: "doc_generation s' p = doc_generation s p" if "apply_navigation_metadata s q v = (x, s')" for q v x s'
    using that update_page_doc [of q p None s]
    by (auto simp: apply_navigation_metadata_def attempt_def split: sum.splits prod.splits) (metis snd_conv)
  show ?thesis
    by (auto simp: complete_action_def attempt_def rm nav split: option.split sum.split action_result.split prod.split)
qed

text \<open>These methods leave every generation; the others move it forward or remove pages.\<close>

lemmas doc_steps = network_steps_doc queue_fetch_doc fetch_steps_doc display_steps_doc cookie_ops_doc queue_ops_doc
  cancel_ops_doc creating_doc detach_doc close_connection_doc complete_doc

lemma claim_doc: "doc_forward p s (snd (claim_document s a))"
  by (auto simp: claim_document_def attempt_def doc_forward_def doc_set_page checked_add_def
      split: option.split sum.split) (auto simp: doc_generation_def)

lemma start_record_doc: "doc_forward p s (snd (start_action_record s a host))"
proof -
  obtain r s' where e: "start_action_record s a host = (r, s')" by fastforce
  have c: "doc_forward p s (snd (claim_document (s\<lparr>bs_next_action := n\<rparr>) a))" for n
    using claim_doc [of p "s\<lparr>bs_next_action := n\<rparr>" a] by (simp add: doc_forward_def doc_generation_def)
  from e have "doc_forward p s s'"
  proof (cases rule: start_action_record_cases)
    case (late e n s1)
    then show ?thesis using c [of n] by (auto simp: doc_forward_def doc_generation_def)
  next
    case (started n s1 g s2 generation)
    then show ?thesis using c [of n] by (simp add: doc_forward_def doc_generation_def)
  qed (simp add: forward_same)
  with e show ?thesis by simp
qed

lemma start_ops_doc:
  "doc_forward p s (snd (start_action s a))"
  "doc_forward p s (snd (start_host_action cd s a kind v))"
  "doc_forward p s (snd (start_host_action_with_metadata cd s a kind v c q request session))"
  by (auto simp: start_action_def start_host_action_def start_host_action_with_metadata_def attempt_def
      start_record_doc forward_same split: sum.split)

lemma page_ops_doc:
  assumes "bs_inv s"
  shows "doc_forward p s (snd (create_page s c url))"
    and "doc_forward p s (snd (close_page s q))"
    and "doc_forward p s (snd (dispose_context s c))"
    and "doc_forward p s (snd (restore_context cd s c bs))"
    and "doc_forward p s (close_browser s)"
proof -
  show "doc_forward p s (snd (create_page s c url))"
    by (auto simp: create_page_def attempt_def doc_forward_def doc_generation_def bm_get_insert next_id_Inr
        split: sum.split)
  show "doc_forward p s (snd (close_page s q))"
    by (auto simp: close_page_def attempt_def doc_forward_def doc_generation_def remove_page_frame(1)
        split: sum.split if_splits)
  show "doc_forward p s (snd (dispose_context s c))"
  proof (cases "bs_closed s \<or> c = default_context \<or> \<not> bm_has (bs_contexts s) c")
    case True
    then show ?thesis by (auto simp: dispose_context_def ensure_open_def forward_same)
  next
    case False
    then show ?thesis
      by (auto simp: dispose_context_eq [OF assms] recontext_def doc_forward_def doc_generation_def
          disposed_pages [OF assms] split: option.splits if_splits)
  qed
  obtain r s' where e: "restore_context cd s c bs = (r, s')" by fastforce
  then have "doc_forward p s s'"
  proof (cases rule: restore_context_cases)
    case (2 cx opts m gs)
    show ?thesis
      using restored_pages [OF assms 2(6), of p] by (auto simp: 2(7) doc_forward_def doc_generation_def)
  qed (simp add: forward_same)
  with e show "doc_forward p s (snd (restore_context cd s c bs))" by simp
  show "doc_forward p s (close_browser s)" by (simp add: close_browser_def doc_forward_def doc_generation_def)
qed

section \<open>Runs\<close>

text \<open>The caller writes a generation of its own into the page.\<close>

definition writes_generation :: "page_id \<Rightarrow> bs_op \<Rightarrow> bool" where
  "writes_generation p e = (case e of UpdatePage q _ _ _ g \<Rightarrow> q = p \<and> g \<noteq> None | _ \<Rightarrow> False)"

lemma bs_exec_doc:
  assumes i: "bs_inv s" and x: "bs_exec cd host_of s e = Some s'" and w: "\<not> writes_generation p e"
  shows "doc_forward p s s'"
proof (cases "\<exists>q r body base64. e = StoreBody q r body base64")
  case True
  then obtain q r body base64 y where "store_response_body s q r body base64 = Some (y, s')" using x by auto
  then show ?thesis by (rule forward_same [OF store_body_doc])
next
  case False
  show ?thesis
    using x w False
    by (cases e) (auto simp: doc_steps [THEN forward_same] start_ops_doc page_ops_doc [OF i] writes_generation_def
        intro: forward_same [OF update_page_doc])
qed

lemma no_new_get:
  "no_new_actions s s' \<Longrightarrow> bm_get (bs_actions s') i = Some pa \<Longrightarrow> action_num i \<le> bs_next_action s \<Longrightarrow>
     bm_get (bs_actions s) i = Some pa"
  unfolding no_new_actions_def by (meson not_le)

lemma bs_run_Cons: "bs_exec cd host_of s e = Some s' \<Longrightarrow> bs_run cd host_of s (e # es) = bs_run cd host_of s' es"
  by (simp add: bs_run_def bs_issue_def)

lemma run_doc:
  assumes "bs_inv s" and "page_num p \<le> bs_next_page s" and "\<forall>e \<in> set es. \<not> writes_generation p e"
    and "doc_generation (bs_run cd host_of s es) p = Some g'"
  shows "\<exists>g. doc_generation s p = Some g \<and> g \<le> g'"
  using assms
proof (induction es arbitrary: s)
  case (Cons e es)
  obtain s' where e: "bs_exec cd host_of s e = Some s'" using bs_exec_returns [OF Cons.prems(1)] by blast
  have n: "bs_next_page s \<le> bs_next_page s'"
    using bs_exec_grows [OF Cons.prems(1) e, of PageIds] by (simp add: grows_def)
  have "\<exists>g. doc_generation s' p = Some g \<and> g \<le> g'"
    using Cons.IH [OF bs_exec_inv [OF Cons.prems(1) e]] Cons.prems(2-4) n by (simp add: bs_run_Cons [OF e])
  moreover have "doc_forward p s s'" using bs_exec_doc [OF Cons.prems(1) e] Cons.prems(3) by simp
  ultimately show ?case using Cons.prems(2) unfolding doc_forward_def by (meson le_trans not_le)
qed (simp add: bs_run_def)

lemma run_actions:
  assumes "bs_inv s" and "action_num i \<le> bs_next_action s"
    and "bm_get (bs_actions (bs_run cd host_of s es)) i = Some pa"
  shows "bm_get (bs_actions s) i = Some pa"
  using assms
proof (induction es arbitrary: s)
  case (Cons e es)
  obtain s' where e: "bs_exec cd host_of s e = Some s'" using bs_exec_returns [OF Cons.prems(1)] by blast
  have "bs_next_action s \<le> bs_next_action s'"
    using bs_exec_grows [OF Cons.prems(1) e, of ActionIds] by (simp add: grows_def)
  then have "bm_get (bs_actions s') i = Some pa"
    using Cons.IH [OF bs_exec_inv [OF Cons.prems(1) e]] Cons.prems(2,3) by (simp add: bs_run_Cons [OF e])
  then show ?case
    by (rule no_new_get [OF bs_exec_no_new [OF Cons.prems(1) e] _ Cons.prems(2)])
qed (simp add: bs_run_def)

section \<open>Stale actions\<close>

text \<open>The three methods that start an action.\<close>

definition started_by :: "codec \<Rightarrow> browser \<Rightarrow> engine_action \<Rightarrow> action_id cdp_result \<times> browser \<Rightarrow> bool" where
  "started_by cd s a r \<longleftrightarrow>
     start_action s a = r \<or> (\<exists>kind v. start_host_action cd s a kind v = r)
     \<or> (\<exists>kind v c q request session. start_host_action_with_metadata cd s a kind v c q request session = r)"

lemma attempt_Inr: "attempt x s f = (Inr y, s') \<Longrightarrow> \<exists>v. f v = (Inr y, s')"
  by (cases x) (auto simp: attempt_def)

lemma started_record: "started_by cd s a (Inr n, s') \<Longrightarrow> \<exists>host. start_action_record s a host = (Inr n, s')"
  unfolding started_by_def start_action_def start_host_action_def start_host_action_with_metadata_def
  by (elim disjE exE) (auto dest!: attempt_Inr split: if_splits)

lemma started_inv: "bs_inv s \<Longrightarrow> started_by cd s a (r, s') \<Longrightarrow> bs_inv s'"
  unfolding started_by_def using start_ops_inv [of s] by (metis snd_conv)

lemma started_counters:
  "bs_inv s \<Longrightarrow> started_by cd s a (Inr n, s') \<Longrightarrow>
     bs_next_action s \<le> bs_next_action s' \<and> bs_next_page s' = bs_next_page s"
  using started_record [of cd s a n s'] start_record_counter(1,3) [of s a _ "Inr n" s']
  by (fastforce simp: counters_def)

lemma claim_navigate:
  assumes "claim_document s (Navigate p u) = (Inr g, s')"
  shows "\<exists>pg. bm_get (bs_pages s) p = Some pg
    \<and> s' = set_page p (pg\<lparr>pg_document_generation := Suc (pg_document_generation pg)\<rparr>) s"
  using assms
  by (cases "bm_get (bs_pages s) p")
    (auto simp: claim_document_def page_of_def checked_add_def split: if_splits)

text \<open>Starting an action changes no older entry.\<close>

lemma started_old:
  "bs_inv s \<Longrightarrow> started_by cd s a (Inr n, s') \<Longrightarrow> no_new_actions s s'"
  using started_record [of cd s a n s'] no_new_started [of s a _ "Inr n" s'] by blast

text \<open>A started navigation has moved its page to the next document.\<close>

lemma started_navigation:
  assumes "started_by cd s (Navigate p u) (Inr n, s')"
  shows "\<exists>g. doc_generation s p = Some g \<and> doc_generation s' p = Some (Suc g)"
proof -
  obtain host where "start_action_record s (Navigate p u) host = (Inr n, s')" using started_record [OF assms] ..
  then show ?thesis
  proof (cases rule: start_action_record_cases)
    case (started m s1 g s2 generation)
    from claim_navigate [OF started(8)] show ?thesis
      using started(3,10) by (auto simp: doc_generation_def set_page_def bm_get_insert)
  qed simp_all
qed

text \<open>An entry that waits for an older document of its page is refused as stale.\<close>

lemma older_document_stale:
  assumes "pa_page pa = Some p" and "pa_context pa = None" and "pa_document_generation pa = Some g"
    and "\<And>g'. doc_generation s p = Some g' \<Longrightarrow> g < g'"
  shows "validate_pending_action s i pa = Inl (StaleAction i)"
  using assms by (auto simp: validate_pending_action_def and_then_def doc_generation_def split: option.split)

text \<open>
  C36. Once a navigation of a page has started, by any of the three methods that start actions, no
  action that was valid on the page's old document is ever accepted: after any further calls,
  completing it is refused as stale and drops it, unless it has been removed in the meantime (then it is
  unknown) or its result is itself refused (then that error is given and nothing changes). The one
  call excepted is an \<open>update_page\<close> that writes a document generation of the caller's choice into
  this page.
\<close>

theorem navigation_stales:
  assumes "reachable cd host_of s" and "started_by cd s (Navigate p u) (Inr n, s')"
    and "bm_get (bs_actions s) i = Some pa" and "pa_page pa = Some p"
    and "validate_pending_action s i pa = Inr ()"
    and "\<forall>e \<in> set es. \<not> writes_generation p e" and "t = bs_run cd host_of s' es"
  shows "complete_action cd t i r =
      (if \<not> bm_has (bs_actions t) i then (Inl (UnknownAction i), t)
       else case validate_action_result cd r of
         Inl e \<Rightarrow> (Inl e, t)
       | Inr _ \<Rightarrow> (Inl (StaleAction i), snd (remove_action t i)))
    \<and> \<not> bm_has (bs_actions (snd (remove_action t i))) i"
proof -
  have inv: "bs_inv s" by (rule reachable_inv [OF assms(1)])
  have inv': "bs_inv s'" by (rule started_inv [OF inv assms(2)])
  have old_num: "action_num i \<le> bs_next_action s"
    using inv_facts(11) [OF inv] assms(3) by (auto simp: below_def bm_has_def)
  have num: "action_num i \<le> bs_next_action s'" "page_num p \<le> bs_next_page s'"
  proof -
    obtain g where "doc_generation s p = Some g" using started_navigation [OF assms(2)] by blast
    then have "page_num p \<le> bs_next_page s"
      using inv_facts(8) [OF inv] by (auto simp: below_def bm_has_def doc_generation_def)
    then show "action_num i \<le> bs_next_action s'" "page_num p \<le> bs_next_page s'"
      using started_counters [OF inv assms(2)] old_num by auto
  qed
  have none: "pa_context pa = None"
    using inv_facts(5) [OF inv] assms(3,4) by (cases "pa_action pa") (auto simp: action_rel_def action_ok_def)
  have "validate_pending_action t i pb = Inl (StaleAction i)" if b: "bm_get (bs_actions t) i = Some pb" for pb
  proof -
    have "bm_get (bs_actions s') i = Some pb" by (rule run_actions [OF inv' num(1) b [unfolded assms(7)]])
    from no_new_get [OF started_old [OF inv assms(2)] this old_num] have pb: "pb = pa" using assms(3) by simp
    obtain g where g: "doc_generation s p = Some g" "doc_generation s' p = Some (Suc g)"
      using started_navigation [OF assms(2)] by blast
    have old: "pa_document_generation pa = Some g"
      using assms(4,5) g(1) none
      by (auto simp: validate_pending_action_def and_then_def doc_generation_def split: if_splits)
    have "g < g'" if "doc_generation t p = Some g'" for g'
      using run_doc [OF inv' num(2) assms(6) that [unfolded assms(7)]] g(2) by auto
    then show ?thesis unfolding pb by (rule older_document_stale [OF assms(4) none old])
  qed
  then show ?thesis
    by (auto simp: complete_action_def attempt_def remove_action_def bm_has_def bm_get_remove
        split: option.split sum.split)
qed

lemma started_witness: "started_by null_codec s a (start_action s a)"
  by (simp add: started_by_def)

text \<open>The pending evaluation of the example browser, after a navigation and two further calls.\<close>

theorem navigation_stales_witness:
  "fst (complete_action null_codec
      (bs_run null_codec no_hosts (snd (start_action demo (Navigate (PageId 1) ''u'')))
        [NetworkEnable (PageId 1) (SessionId 1), OpenConnection])
      (ActionId 1) ResultUnit)
    = Inl (StaleAction (ActionId 1))"
proof -
  let ?es = "[NetworkEnable (PageId 1) (SessionId 1), OpenConnection]"
  have "\<exists>n s'. start_action demo (Navigate (PageId 1) ''u'') = (Inr n, s')"
    by (simp add: demo_def run_ops_def demo_ops_def bs_eval action_eval)
  then obtain n s' where a: "start_action demo (Navigate (PageId 1) ''u'') = (Inr n, s')" by blast
  obtain pa where pa: "bm_get (bs_actions demo) (ActionId 1) = Some pa" "pa_page pa = Some (PageId 1)"
    "validate_pending_action demo (ActionId 1) pa = Inr ()"
    by (simp add: demo_def run_ops_def demo_ops_def bs_eval action_eval)
  have es: "\<forall>e \<in> set ?es. \<not> writes_generation (PageId 1) e" by (simp add: writes_generation_def)
  have r: "validate_action_result null_codec ResultUnit = Inr ()" by (simp add: action_eval null_codec_def)
  have "bm_has (bs_actions (bs_run null_codec no_hosts (snd (start_action demo (Navigate (PageId 1) ''u''))) ?es)) (ActionId 1)"
    by (simp add: demo_def run_ops_def demo_ops_def bs_eval action_eval bs_run_def bs_issue_def network_enable_def
        open_connection_def)
  then have "bm_has (bs_actions (bs_run null_codec no_hosts s' ?es)) (ActionId 1)" by (simp only: a snd_conv)
  with navigation_stales [OF demo_reachable started_witness [of demo "Navigate (PageId 1) ''u''", unfolded a] pa es refl, of ResultUnit] r
  show ?thesis unfolding a snd_conv by (simp del: One_nat_def)
qed

end
