(* ===== verification/ActionQueue.thy ===== *)
theory ActionQueue
  imports IdSource CdpState
begin

text \<open>
  \<open>crates/obscura-cdp/src/action.rs\<close>: the queue of host actions of the portable dispatcher.
  The HashMap of outstanding actions is a mapping from the action number to the generation it
  was queued in, the ready queue a list with the oldest action first. \<open>enc\<close> is
  \<open>serde_json::to_vec\<close>, of which only the length and the failure matter.
\<close>

record host_action_result =
  ar_action_id :: nat
  ar_generation :: nat
  ar_ok :: bool
  ar_value :: json

datatype action_error =
  QueueFull | PayloadTooLarge | UnknownQueued | StaleGeneration | QueueIdExhausted

record action_queue =
  aq_next_id :: nat
  aq_generation :: nat
  aq_pending :: "(nat, nat) mapping"
  aq_ready :: "host_action list"

definition aq_new :: "nat \<Rightarrow> action_queue" where
  "aq_new g = \<lparr>aq_next_id = 1, aq_generation = g, aq_pending = Mapping.empty, aq_ready = []\<rparr>"

definition aq_default :: action_queue where
  "aq_default = \<lparr>aq_next_id = 0, aq_generation = 0, aq_pending = Mapping.empty, aq_ready = []\<rparr>"

definition aq_reset :: "action_queue \<Rightarrow> nat \<Rightarrow> action_queue" where
  "aq_reset q g = q\<lparr>aq_generation := g, aq_pending := Mapping.empty, aq_ready := []\<rparr>"

definition aq_pending_len :: "action_queue \<Rightarrow> nat" where
  "aq_pending_len q = Mapping.size (aq_pending q)"

definition aq_ready_len :: "action_queue \<Rightarrow> nat" where
  "aq_ready_len q = length (aq_ready q)"

definition aq_enqueue ::
    "(json \<Rightarrow> string option) \<Rightarrow> action_queue \<Rightarrow> string \<Rightarrow> json \<Rightarrow> (action_error + nat) \<times> action_queue" where
  "aq_enqueue enc q kind payload =
     (if MAX_ACTIONS \<le> aq_ready_len q + aq_pending_len q then (Inl QueueFull, q)
      else case enc payload of
        None \<Rightarrow> (Inl PayloadTooLarge, q)
      | Some bs \<Rightarrow>
         (if MAX_ACTION_BYTES < saturating_add usize_max (length kind) (length bs) then (Inl PayloadTooLarge, q)
          else
            (let i = aq_next_id q in
             case checked_add u32_max i 1 of
               None \<Rightarrow> (Inl QueueIdExhausted, q)
             | Some n \<Rightarrow>
                (Inr i,
                 q\<lparr>aq_next_id := n,
                   aq_pending := Mapping.update i (aq_generation q) (aq_pending q),
                   aq_ready := aq_ready q @ [\<lparr>ac_action_id = i, ac_generation = aq_generation q,
                                               ac_kind = kind, ac_payload = payload\<rparr>]\<rparr>))))"

definition aq_drain :: "action_queue \<Rightarrow> nat \<Rightarrow> host_action list \<times> action_queue" where
  "aq_drain q limit =
     (let n = min (length (aq_ready q)) (min limit MAX_ACTIONS) in
      (take n (aq_ready q), q\<lparr>aq_ready := drop n (aq_ready q)\<rparr>))"

definition aq_complete :: "action_queue \<Rightarrow> host_action_result \<Rightarrow> (action_error + unit) \<times> action_queue" where
  "aq_complete q r =
     (case Mapping.lookup (aq_pending q) (ar_action_id r) of
        None \<Rightarrow> (Inl UnknownQueued, q)
      | Some g \<Rightarrow>
         (let q' = q\<lparr>aq_pending := Mapping.delete (ar_action_id r) (aq_pending q)\<rparr> in
          if g \<noteq> aq_generation q' \<or> ar_generation r \<noteq> aq_generation q' then (Inl StaleGeneration, q')
          else (Inr (), q')))"

definition aq_cancel :: "action_queue \<Rightarrow> nat \<Rightarrow> (action_error + unit) \<times> action_queue" where
  "aq_cancel q i =
     (case Mapping.lookup (aq_pending q) i of
        None \<Rightarrow> (Inl UnknownQueued, q)
      | Some _ \<Rightarrow>
         (Inr (), q\<lparr>aq_pending := Mapping.delete i (aq_pending q),
                    aq_ready := filter (\<lambda>a. ac_action_id a \<noteq> i) (aq_ready q)\<rparr>))"

section \<open>Runs and the invariant\<close>

datatype aq_op =
  Enqueue string json | Drain nat | Complete host_action_result | CancelQueued nat | Reset nat

definition aq_step :: "(json \<Rightarrow> string option) \<Rightarrow> action_queue \<Rightarrow> aq_op \<Rightarrow> action_queue" where
  "aq_step enc q e =
     (case e of Enqueue kind payload \<Rightarrow> snd (aq_enqueue enc q kind payload)
      | Drain n \<Rightarrow> snd (aq_drain q n)
      | Complete r \<Rightarrow> snd (aq_complete q r)
      | CancelQueued i \<Rightarrow> snd (aq_cancel q i)
      | Reset g \<Rightarrow> aq_reset q g)"

definition aq_issue :: "(json \<Rightarrow> string option) \<Rightarrow> action_queue \<Rightarrow> aq_op \<Rightarrow> action_queue \<times> nat option" where
  "aq_issue enc q e =
     (aq_step enc q e,
      (case e of Enqueue kind payload \<Rightarrow>
         (case fst (aq_enqueue enc q kind payload) of Inl _ \<Rightarrow> None | Inr i \<Rightarrow> Some i)
       | _ \<Rightarrow> None))"

text \<open>The numbers of the completions that a run accepts, in order.\<close>

fun aq_accepted :: "(json \<Rightarrow> string option) \<Rightarrow> action_queue \<Rightarrow> aq_op list \<Rightarrow> nat list" where
  "aq_accepted enc q [] = []"
| "aq_accepted enc q (e # es) =
     (case e of Complete r \<Rightarrow> (if fst (aq_complete q r) = Inr () then [ar_action_id r] else []) | _ \<Rightarrow> [])
     @ aq_accepted enc (aq_step enc q e) es"

definition aq_ok :: "action_queue \<Rightarrow> bool" where
  "aq_ok q \<longleftrightarrow>
     finite (Mapping.keys (aq_pending q)) \<and> aq_next_id q \<le> u32_max
     \<and> sorted_wrt (<) (map ac_action_id (aq_ready q))
     \<and> (\<forall>a \<in> set (aq_ready q). ac_action_id a < aq_next_id q \<and> ac_generation a = aq_generation q)
     \<and> (\<forall>i g. Mapping.lookup (aq_pending q) i = Some g \<longrightarrow> i < aq_next_id q \<and> g = aq_generation q)
     \<and> aq_ready_len q + aq_pending_len q \<le> MAX_ACTIONS + 1"

lemma size_card: "finite (Mapping.keys m) \<Longrightarrow> Mapping.size m = card (Mapping.keys m)"
  by (simp add: Mapping.size_def)

lemma size_delete_le: "finite (Mapping.keys m) \<Longrightarrow> Mapping.size (Mapping.delete k m) \<le> Mapping.size m"
  by (simp add: size_card card_Diff1_le)

lemma size_update_le: "finite (Mapping.keys m) \<Longrightarrow> Mapping.size (Mapping.update k v m) \<le> Suc (Mapping.size m)"
  by (simp add: size_card card_insert_if)

lemma aq_pending_ok:
  "aq_ok q \<Longrightarrow> Mapping.lookup (aq_pending q) i = Some g \<Longrightarrow> i < aq_next_id q \<and> g = aq_generation q"
  by (simp add: aq_ok_def)

lemma aq_new_ok: "aq_ok (aq_new g)"
  by (simp add: aq_ok_def aq_new_def lookup_empty aq_ready_len_def aq_pending_len_def u32_max_def)

lemma aq_enqueue_Inr:
  assumes "aq_enqueue enc q kind payload = (Inr i, q')"
  shows "i = aq_next_id q" "i + 1 \<le> u32_max" "aq_ready_len q + aq_pending_len q < MAX_ACTIONS"
    "q' = q\<lparr>aq_next_id := i + 1, aq_pending := Mapping.update i (aq_generation q) (aq_pending q),
       aq_ready := aq_ready q @ [\<lparr>ac_action_id = i, ac_generation = aq_generation q, ac_kind = kind, ac_payload = payload\<rparr>]\<rparr>"
  using assms
  by (auto simp: aq_enqueue_def Let_def checked_add_def not_le split: if_splits option.splits)

lemma aq_enqueue_Inl: "aq_enqueue enc q kind payload = (Inl e, q') \<Longrightarrow> q' = q"
  by (auto simp: aq_enqueue_def Let_def split: if_splits option.splits)

lemma aq_enqueue_ok:
  assumes "aq_ok q" and "aq_enqueue enc q kind payload = (r, q')"
  shows "aq_ok q'"
proof (cases r)
  case (Inl e)
  with aq_enqueue_Inl assms show ?thesis by metis
next
  case (Inr i)
  note f = aq_enqueue_Inr [OF assms(2) [unfolded Inr]]
  have "aq_pending_len q' \<le> Suc (aq_pending_len q)"
    using assms(1) by (simp add: f(4) aq_pending_len_def aq_ok_def size_update_le)
  moreover have "aq_ready_len q' = Suc (aq_ready_len q)" by (simp add: f(4) aq_ready_len_def)
  ultimately have "aq_ready_len q' + aq_pending_len q' \<le> MAX_ACTIONS + 1" using f(3) by linarith
  moreover have "sorted_wrt (<) (map ac_action_id (aq_ready q'))"
    using assms(1) by (simp add: f(1,4) aq_ok_def sorted_wrt_append)
  moreover have "\<forall>a \<in> set (aq_ready q'). ac_action_id a < aq_next_id q' \<and> ac_generation a = aq_generation q'"
  proof
    fix a assume "a \<in> set (aq_ready q')"
    then have "a \<in> set (aq_ready q) \<or> ac_action_id a = i \<and> ac_generation a = aq_generation q"
      by (simp add: f(4)) (elim disjE, simp_all)
    then consider "a \<in> set (aq_ready q)" | "ac_action_id a = i" "ac_generation a = aq_generation q" by blast
    then show "ac_action_id a < aq_next_id q' \<and> ac_generation a = aq_generation q'"
    proof cases
      case 1
      then have "ac_action_id a < aq_next_id q \<and> ac_generation a = aq_generation q"
        using assms(1) by (simp add: aq_ok_def)
      then show ?thesis by (simp add: f(1,4))
    qed (simp add: f(4))
  qed
  moreover have "\<forall>j g. Mapping.lookup (aq_pending q') j = Some g \<longrightarrow> j < aq_next_id q' \<and> g = aq_generation q'"
  proof (intro allI impI)
    fix j g assume "Mapping.lookup (aq_pending q') j = Some g"
    then have "j = i \<and> g = aq_generation q \<or> Mapping.lookup (aq_pending q) j = Some g"
      by (simp add: f(4) lookup_update_if split: if_splits)
    then consider "j = i" "g = aq_generation q" | "Mapping.lookup (aq_pending q) j = Some g" by blast
    then show "j < aq_next_id q' \<and> g = aq_generation q'"
    proof cases
      case 2
      with aq_pending_ok [OF assms(1)] have "j < aq_next_id q \<and> g = aq_generation q" by blast
      then show ?thesis by (simp add: f(1,4))
    qed (simp add: f(4))
  qed
  moreover have "finite (Mapping.keys (aq_pending q'))" "aq_next_id q' \<le> u32_max"
    using assms(1) f(2) by (simp_all add: f(4) aq_ok_def)
  ultimately show ?thesis by (simp add: aq_ok_def)
qed

lemma aq_shrink_ok:
  assumes "aq_ok q" and "aq_pending q' = aq_pending q \<or> (\<exists>i. aq_pending q' = Mapping.delete i (aq_pending q))"
    and "sorted_wrt (<) (map ac_action_id (aq_ready q'))" and "set (aq_ready q') \<subseteq> set (aq_ready q)"
    and "length (aq_ready q') \<le> length (aq_ready q)"
    and "aq_next_id q' = aq_next_id q" and "aq_generation q' = aq_generation q"
  shows "aq_ok q'"
proof -
  have fin: "finite (Mapping.keys (aq_pending q))" using assms(1) by (simp add: aq_ok_def)
  have "aq_pending_len q' \<le> aq_pending_len q"
    using assms(2) size_delete_le [OF fin] by (auto simp: aq_pending_len_def)
  then have "aq_ready_len q' + aq_pending_len q' \<le> MAX_ACTIONS + 1"
    using assms(1,5) by (simp add: aq_ok_def aq_ready_len_def)
  moreover have "\<forall>i g. Mapping.lookup (aq_pending q') i = Some g \<longrightarrow> Mapping.lookup (aq_pending q) i = Some g"
    using assms(2) by (auto simp: lookup_delete_if split: if_splits)
  moreover have "finite (Mapping.keys (aq_pending q'))" using assms(2) fin by auto
  moreover have "\<forall>i g. Mapping.lookup (aq_pending q') i = Some g \<longrightarrow> i < aq_next_id q' \<and> g = aq_generation q'"
    using calculation(2) aq_pending_ok [OF assms(1)] assms(6,7) by metis
  ultimately show ?thesis using assms(1,3-7) by (auto simp: aq_ok_def)
qed

lemma aq_drain_ok: "aq_ok q \<Longrightarrow> aq_ok (snd (aq_drain q n))"
  by (rule aq_shrink_ok [of q])
    (auto simp: aq_drain_def Let_def aq_ok_def drop_map [symmetric] sorted_wrt_drop dest: in_set_dropD)

lemma aq_complete_ok: "aq_ok q \<Longrightarrow> aq_ok (snd (aq_complete q r))"
  by (rule aq_shrink_ok [of q]) (auto simp: aq_complete_def Let_def aq_ok_def split: option.splits)

lemma sorted_wrt_map_filter: "sorted_wrt P (map f xs) \<Longrightarrow> sorted_wrt P (map f (filter Q xs))"
  by (induction xs) auto

lemma aq_cancel_ok: "aq_ok q \<Longrightarrow> aq_ok (snd (aq_cancel q i))"
  by (rule aq_shrink_ok [of q])
    (auto simp: aq_cancel_def aq_ok_def sorted_wrt_map_filter split: option.splits)

lemma aq_reset_ok: "aq_ok q \<Longrightarrow> aq_ok (aq_reset q g)"
  by (simp add: aq_ok_def aq_reset_def lookup_empty aq_ready_len_def aq_pending_len_def)

lemma aq_step_ok: "aq_ok q \<Longrightarrow> aq_ok (aq_step enc q e)"
  by (cases e)
    (auto simp: aq_step_def aq_drain_ok aq_complete_ok aq_cancel_ok aq_reset_ok
      intro: aq_enqueue_ok [OF _ surjective_pairing])

text \<open>What a step can do to the outstanding actions and the counter.\<close>

lemma aq_step_next: "aq_next_id q \<le> aq_next_id (aq_step enc q e)"
  by (cases e)
    (auto simp: aq_step_def aq_enqueue_def aq_drain_def aq_complete_def aq_cancel_def aq_reset_def
      Let_def checked_add_def split: option.splits)

lemma aq_step_pending:
  "i \<in> Mapping.keys (aq_pending (aq_step enc q e)) \<Longrightarrow> i \<in> Mapping.keys (aq_pending q) \<or> i = aq_next_id q"
  by (cases e)
    (auto simp: aq_step_def aq_enqueue_def aq_drain_def aq_complete_def aq_cancel_def aq_reset_def
      Let_def checked_add_def split: option.splits if_splits)

interpretation aq_ids: id_source "aq_issue enc" aq_next_id aq_ok
proof (unfold_locales, goal_cases)
  case (1 q e q' r)
  then show ?case using aq_step_ok [of q enc e] by (simp add: aq_issue_def)
next
  case (2 q e q' r)
  then show ?case using aq_step_next [of q enc e] by (simp add: aq_issue_def)
next
  case (3 q e q' i)
  then obtain kind payload where e: "e = Enqueue kind payload" by (cases e) (simp_all add: aq_issue_def)
  obtain r t where en: "aq_enqueue enc q kind payload = (r, t)" by (cases "aq_enqueue enc q kind payload")
  with 3 e have "r = Inr i" "q' = t" by (auto simp: aq_issue_def aq_step_def split: sum.splits)
  with aq_enqueue_Inr [of enc q kind payload i t] en show ?case by simp
qed

section \<open>Properties\<close>

definition aq_run :: "(json \<Rightarrow> string option) \<Rightarrow> action_queue \<Rightarrow> aq_op list \<Rightarrow> action_queue" where
  "aq_run enc q es = foldl (aq_step enc) q es"

lemma aq_run_ok: "aq_ok q \<Longrightarrow> aq_ok (aq_run enc q es)"
  unfolding aq_run_def by (induction es arbitrary: q) (simp_all add: aq_step_ok)

text \<open>
  C28. In every state of the host-action queue reached from a new one, the ready actions are in
  the order of their numbers and of the current generation, so is every outstanding action, all
  numbers are below the next one, and the two queues together hold at most 513 actions.
\<close>

theorem aq_invariant:
  "sorted_wrt (<) (map ac_action_id (aq_ready (aq_run enc (aq_new g) es)))
   \<and> list_all (\<lambda>a. ac_action_id a < aq_next_id (aq_run enc (aq_new g) es)
        \<and> ac_generation a = aq_generation (aq_run enc (aq_new g) es)) (aq_ready (aq_run enc (aq_new g) es))
   \<and> Mapping.keys (aq_pending (aq_run enc (aq_new g) es)) \<subseteq> {..<aq_next_id (aq_run enc (aq_new g) es)}
   \<and> ran (Mapping.lookup (aq_pending (aq_run enc (aq_new g) es))) \<subseteq> {aq_generation (aq_run enc (aq_new g) es)}
   \<and> aq_ready_len (aq_run enc (aq_new g) es) + aq_pending_len (aq_run enc (aq_new g) es) \<le> 513"
proof -
  have "aq_ok (aq_run enc (aq_new g) es)" by (rule aq_run_ok [OF aq_new_ok])
  then show ?thesis
    by (auto simp: aq_ok_def list_all_iff in_keys ran_def MAX_ACTIONS_def)
qed

lemma aq_complete_accepts:
  assumes "aq_ok q"
  shows "fst (aq_complete q r) = Inr () \<longleftrightarrow>
     ar_action_id r \<in> Mapping.keys (aq_pending q) \<and> ar_generation r = aq_generation q"
  using assms by (auto simp: aq_complete_def aq_ok_def in_keys Let_def split: option.splits)

lemma aq_complete_consumes:
  "ar_action_id r \<notin> Mapping.keys (aq_pending (snd (aq_complete q r)))"
  by (auto simp: aq_complete_def Let_def in_keys lookup_delete_if split: option.splits)

lemma aq_accepted_fresh:
  assumes "aq_ok q" and "i < aq_next_id q" and "i \<notin> Mapping.keys (aq_pending q)"
  shows "i \<notin> set (aq_accepted enc q es)"
  using assms
proof (induction es arbitrary: q)
  case (Cons e es)
  have "i \<notin> Mapping.keys (aq_pending (aq_step enc q e))"
    using aq_step_pending [of i enc q e] Cons.prems(2,3) by auto
  moreover have "i < aq_next_id (aq_step enc q e)"
    using aq_step_next [of q enc e] Cons.prems(2) by simp
  ultimately have "i \<notin> set (aq_accepted enc (aq_step enc q e) es)"
    by (intro Cons.IH aq_step_ok [OF Cons.prems(1)])
  then show ?case using aq_complete_accepts [OF Cons.prems(1)] Cons.prems(3) by (cases e) auto
qed simp

lemma aq_accepted_distinct: "aq_ok q \<Longrightarrow> distinct (aq_accepted enc q es)"
proof (induction es arbitrary: q)
  case (Cons e es)
  have ih: "distinct (aq_accepted enc (aq_step enc q e) es)" by (rule Cons.IH [OF aq_step_ok [OF Cons.prems]])
  have "ar_action_id r \<notin> set (aq_accepted enc (aq_step enc q e) es)"
    if e: "e = Complete r" and acc: "fst (aq_complete q r) = Inr ()" for r
  proof (rule aq_accepted_fresh [OF aq_step_ok [OF Cons.prems]])
    have "ar_action_id r \<in> Mapping.keys (aq_pending q)"
      using acc aq_complete_accepts [OF Cons.prems] by blast
    then have "ar_action_id r < aq_next_id q" using Cons.prems by (auto simp: aq_ok_def in_keys)
    then show "ar_action_id r < aq_next_id (aq_step enc q e)" using aq_step_next [of q enc e] by simp
    show "ar_action_id r \<notin> Mapping.keys (aq_pending (aq_step enc q e))"
      by (simp add: e aq_step_def aq_complete_consumes)
  qed
  with ih show ?case by (cases e) auto
qed simp

lemma aq_accepted_issued:
  assumes "aq_ok q" and "i \<in> set (aq_accepted enc q es)"
  shows "i \<in> Mapping.keys (aq_pending q) \<or> i \<in> set (issued (aq_issue enc) q es)"
  using assms
proof (induction es arbitrary: q)
  case (Cons e es)
  have new: "r = Some (aq_next_id q)"
    if "aq_issue enc q e = (t, r)" "aq_next_id q \<in> Mapping.keys (aq_pending t)" for t r
  proof -
    have "aq_next_id q \<notin> Mapping.keys (aq_pending q)"
      using aq_pending_ok [OF Cons.prems(1), of "aq_next_id q"]
      by (cases "Mapping.lookup (aq_pending q) (aq_next_id q)") (auto simp: in_keys)
    then show ?thesis using that
      by (cases e)
        (auto simp: aq_issue_def aq_step_def aq_enqueue_def aq_drain_def aq_complete_def aq_cancel_def
          aq_reset_def Let_def checked_add_def split: option.splits if_splits)
  qed
  obtain t r where st: "aq_issue enc q e = (t, r)" by (cases "aq_issue enc q e")
  then have t: "t = aq_step enc q e" by (simp add: aq_issue_def)
  from Cons.prems(2) consider "\<exists>r. e = Complete r \<and> i = ar_action_id r \<and> fst (aq_complete q r) = Inr ()"
    | "i \<in> set (aq_accepted enc t es)" unfolding t by (cases e) (auto split: if_splits)
  then show ?case
  proof cases
    case 1
    then show ?thesis using aq_complete_accepts [OF Cons.prems(1)] by auto
  next
    case 2
    with Cons.IH [OF aq_step_ok [OF Cons.prems(1), of enc e]] t
    have "i \<in> Mapping.keys (aq_pending t) \<or> i \<in> set (issued (aq_issue enc) t es)" by simp
    then show ?thesis
      using aq_step_pending [of i enc q e] t new [OF st] st by (auto split: option.splits)
  qed
qed simp

text \<open>
  C27. A completion is accepted at most once per action, only for an action that was queued, and
  the numbers handed out never repeat: over any run from a new queue the accepted completions are
  distinct numbers among the issued ones, which are distinct too.
\<close>

theorem aq_exactly_once:
  "distinct (issued (aq_issue enc) (aq_new g) es)
   \<and> distinct (aq_accepted enc (aq_new g) es)
   \<and> set (aq_accepted enc (aq_new g) es) \<subseteq> set (issued (aq_issue enc) (aq_new g) es)"
proof (intro conjI subsetI)
  show "distinct (issued (aq_issue enc) (aq_new g) es)" by (rule aq_ids.issued_distinct [OF aq_new_ok])
  show "distinct (aq_accepted enc (aq_new g) es)" by (rule aq_accepted_distinct [OF aq_new_ok])
  fix i assume "i \<in> set (aq_accepted enc (aq_new g) es)"
  with aq_accepted_issued [OF aq_new_ok] show "i \<in> set (issued (aq_issue enc) (aq_new g) es)"
    by (fastforce simp: aq_new_def)
qed

end
