(* ===== verification/CookieJar.thy ===== *)
theory CookieJar
  imports RustStr BTree "HOL-Library.AList"
begin

text \<open>
  \<open>crates/obscura-net/src/cookies.rs\<close>: the cookie jar of the network client. The nested
  HashMaps are association lists, domain first, then name and path; their order stands for the
  unspecified iteration order of a HashMap, so the lemmas speak of lookups and sets. A \<open>Url\<close> of
  the crate \<open>url\<close> is given by the three parts the code reads. The clock readings are
  arguments: \<open>t0\<close> the one taken by the last \<open>Max-Age\<close> attribute, \<open>now\<close> the one of the check.
  Arithmetic on \<open>u64\<close> wraps around, as in the release profile.
\<close>

record req_url =
  ur_host :: "string option"
  ur_path :: string
  ur_scheme :: string

record cookie_entry =
  ce_name :: string
  ce_value :: string
  ce_path :: string
  ce_domain :: string
  ce_host_only :: bool
  ce_secure :: bool
  ce_http_only :: bool
  ce_expires :: "nat option"
  ce_same_site :: string

record cookie_info =
  ci_name :: string
  ci_value :: string
  ci_domain :: string
  ci_path :: string
  ci_secure :: bool
  ci_http_only :: bool
  ci_same_site :: string
  ci_expires :: "int option"

type_synonym path_map = "((string \<times> string) \<times> cookie_entry) list"
type_synonym cookie_jar = "(string \<times> path_map) list"

section \<open>Matching\<close>

definition DEFAULT_SAME_SITE :: string where "DEFAULT_SAME_SITE = ''Lax''"

definition normalize_same_site :: "string \<Rightarrow> string" where
  "normalize_same_site v =
     (let s = to_ascii_lowercase (trim v) in
      if s = ''strict'' then ''Strict'' else if s = ''none'' then ''None'' else ''Lax'')"

definition default_cookie_path :: "string \<Rightarrow> string" where
  "default_cookie_path p =
     (if \<not> starts_with p ''/'' then ''/''
      else case str_rfind (CHR ''/'') p of
        None \<Rightarrow> ''/''
      | Some i \<Rightarrow> if i = 0 then ''/'' else take i p)"

definition path_matches :: "string \<Rightarrow> string \<Rightarrow> bool" where
  "path_matches request cookie =
     (if request = cookie then True
      else if \<not> starts_with request cookie then False
      else ends_with cookie ''/''
        \<or> (length cookie < length request \<and> request ! length cookie = CHR ''/''))"

text \<open>\<open>str::is_char_boundary\<close> on the bytes: no continuation byte at that offset.\<close>

definition continuation_byte :: "char \<Rightarrow> bool" where
  "continuation_byte c \<longleftrightarrow> (128::nat) \<le> of_char c \<and> (of_char c :: nat) < 192"

definition is_char_boundary :: "string \<Rightarrow> nat \<Rightarrow> bool" where
  "is_char_boundary s i =
     (if i = 0 \<or> i = length s then True else i < length s \<and> \<not> continuation_byte (s ! i))"

definition domain_matches :: "string \<Rightarrow> string \<Rightarrow> bool" where
  "domain_matches host domain =
     (let d = trim_start_matches (CHR ''.'') domain in
      if length host < length d then False
      else if eq_ignore_ascii_case host d then True
      else
        (let n = length host - length d in
         if n < 1 then False
         else if \<not> is_char_boundary host n then False
         else if host ! (n - 1) \<noteq> CHR ''.'' then False
         else eq_ignore_ascii_case (drop n host) d))"

definition resolve_cookie_domain :: "unicode_case \<Rightarrow> string \<Rightarrow> string option \<Rightarrow> (string \<times> bool) option" where
  "resolve_cookie_domain lc origin_host domain_attr =
     (let origin = to_lowercase lc (trim_start_matches (CHR ''.'') (trim origin_host)) in
      if origin = [] then None
      else case domain_attr of
        None \<Rightarrow> Some (origin, True)
      | Some raw \<Rightarrow>
         (let dom = to_lowercase lc (trim_start_matches (CHR ''.'') (trim raw)) in
          if dom = [] \<or> dom = origin then Some (origin, True)
          else if str_contains dom ''.'' \<and> ends_with origin (''.'' @ dom) then Some (dom, False)
          else Some (origin, True)))"

section \<open>HTTP dates\<close>

definition months :: "string list" where
  "months = [''jan'', ''feb'', ''mar'', ''apr'', ''may'', ''jun'', ''jul'', ''aug'', ''sep'', ''oct'', ''nov'', ''dec'']"

fun position :: "('a \<Rightarrow> bool) \<Rightarrow> 'a list \<Rightarrow> nat option" where
  "position P [] = None"
| "position P (x # xs) = (if P x then Some 0 else map_option Suc (position P xs))"

definition leap_year :: "nat \<Rightarrow> bool" where
  "leap_year y \<longleftrightarrow> y mod 4 = 0 \<and> (y mod 100 \<noteq> 0 \<or> y mod 400 = 0)"

definition days_before_year :: "nat \<Rightarrow> nat" where
  "days_before_year year = (\<Sum>y \<leftarrow> [1970..<year]. if leap_year y then 366 else 365)"

definition days_before_month :: "nat \<Rightarrow> nat \<Rightarrow> nat" where
  "days_before_month year month =
     (\<Sum>m \<leftarrow> [1..<month]. [0, 31, 28, 31, 30, 31, 30, 31, 31, 30, 31, 30, 31] ! m
        + (if m = 2 \<and> leap_year year then 1 else 0))"

definition time_field :: "string list \<Rightarrow> nat \<Rightarrow> nat" where
  "time_field parts i =
     (if i < length parts then (case parse_u64 (parts ! i) of Some n \<Rightarrow> n | None \<Rightarrow> 0) else 0)"

text \<open>The number of seconds; \<open>day - 1\<close> wraps around for day 0.\<close>

definition date_seconds :: "nat \<Rightarrow> nat \<Rightarrow> nat \<Rightarrow> nat \<Rightarrow> nat \<Rightarrow> nat \<Rightarrow> nat" where
  "date_seconds year month day hour minute second =
     (let days = days_before_year year + days_before_month year month + (day + (2 ^ 64 - 1)) mod 2 ^ 64 in
      (days * 86400 + hour * 3600 + minute * 60 + second) mod 2 ^ 64)"

definition parse_http_date :: "unicode_case \<Rightarrow> string \<Rightarrow> nat option" where
  "parse_http_date lc s =
     (let parts = split_whitespace (map (\<lambda>c. if c = CHR ''-'' then CHR '' '' else c) s) in
      if length parts < 5 then None
      else case parse_u64 (parts ! 1) of
        None \<Rightarrow> None
      | Some day \<Rightarrow>
         (case position (\<lambda>m. starts_with (to_lowercase lc (parts ! 2)) m) months of
            None \<Rightarrow> None
          | Some mi \<Rightarrow>
             (case parse_u64 (parts ! 3) of
                None \<Rightarrow> None
              | Some year \<Rightarrow>
                 (let ts = split_char (CHR '':'') (parts ! 4) in
                  Some (date_seconds year (mi + 1) day (time_field ts 0) (time_field ts 1) (time_field ts 2))))))"

section \<open>The jar\<close>

definition jar_new :: cookie_jar where "jar_new = []"

definition bucket :: "cookie_jar \<Rightarrow> string \<Rightarrow> path_map" where
  "bucket j d = (case map_of j d of Some m \<Rightarrow> m | None \<Rightarrow> [])"

text \<open>\<open>entry(domain).or_default().insert(key, e)\<close>, \<open>get_mut(domain)\<close> with \<open>remove(key)\<close>, and with
  \<open>retain\<close>.\<close>

definition jar_put :: "string \<times> string \<times> string \<Rightarrow> cookie_entry \<Rightarrow> cookie_jar \<Rightarrow> cookie_jar" where
  "jar_put k e j = (case k of (d, np) \<Rightarrow> AList.update d (AList.update np e (bucket j d)) j)"

definition jar_del :: "string \<times> string \<times> string \<Rightarrow> cookie_jar \<Rightarrow> cookie_jar" where
  "jar_del k j =
     (case k of (d, np) \<Rightarrow>
       (case map_of j d of None \<Rightarrow> j | Some m \<Rightarrow> AList.update d (AList.delete np m) j))"

definition jar_retain :: "string \<Rightarrow> (cookie_entry \<Rightarrow> bool) \<Rightarrow> cookie_jar \<Rightarrow> cookie_jar" where
  "jar_retain d P j =
     (case map_of j d of None \<Rightarrow> j | Some m \<Rightarrow> AList.update d (filter (\<lambda>(_, e). P e) m) j)"

text \<open>The attributes read so far.\<close>

record cookie_attrs =
  at_domain :: "string option"
  at_path :: string
  at_secure :: bool
  at_http_only :: bool
  at_expires :: "nat option"
  at_same_site :: string

definition attrs_start :: "string \<Rightarrow> cookie_attrs" where
  "attrs_start url_path =
     \<lparr>at_domain = None, at_path = default_cookie_path url_path, at_secure = False,
      at_http_only = False, at_expires = None, at_same_site = ''Lax''\<rparr>"

definition max_age :: "nat \<Rightarrow> int \<Rightarrow> nat" where
  "max_age t0 secs = (if secs \<le> 0 then 0 else (t0 + nat secs) mod 2 ^ 64)"

text \<open>One attribute; a script (\<open>js\<close>) cannot set \<open>HttpOnly\<close>.\<close>

definition attr_step :: "unicode_case \<Rightarrow> nat \<Rightarrow> bool \<Rightarrow> cookie_attrs \<Rightarrow> string \<Rightarrow> cookie_attrs" where
  "attr_step lc t0 js a raw =
     (let attr = trim raw in
      case split_once (CHR ''='') attr of
        Some (key, val) \<Rightarrow>
         (let k = to_lowercase lc (trim key) in
          if k = ''domain'' then
            a\<lparr>at_domain := Some (to_lowercase lc (trim_start_matches (CHR ''.'') (trim val)))\<rparr>
          else if k = ''path'' then a\<lparr>at_path := trim val\<rparr>
          else if k = ''expires'' then
            (case parse_http_date lc (trim val) of Some ts \<Rightarrow> a\<lparr>at_expires := Some ts\<rparr> | None \<Rightarrow> a)
          else if k = ''max-age'' then
            (case parse_i64 (trim val) of Some secs \<Rightarrow> a\<lparr>at_expires := Some (max_age t0 secs)\<rparr> | None \<Rightarrow> a)
          else if k = ''samesite'' then a\<lparr>at_same_site := normalize_same_site val\<rparr>
          else a)
      | None \<Rightarrow>
         (let k = to_lowercase lc attr in
          if k = ''secure'' then a\<lparr>at_secure := True\<rparr>
          else if k = ''httponly'' \<and> \<not> js then a\<lparr>at_http_only := True\<rparr>
          else a))"

definition cookie_attributes :: "unicode_case \<Rightarrow> nat \<Rightarrow> bool \<Rightarrow> req_url \<Rightarrow> string list \<Rightarrow> cookie_attrs" where
  "cookie_attributes lc t0 js url parts =
     (if length parts > 1
      then foldl (attr_step lc t0 js) (attrs_start (ur_path url)) (split_char (CHR '';'') (parts ! 1))
      else attrs_start (ur_path url))"

definition url_host :: "req_url \<Rightarrow> string" where
  "url_host url = (case ur_host url of Some h \<Rightarrow> h | None \<Rightarrow> [])"

text \<open>\<open>set_cookie\<close> and \<open>set_cookie_from_js\<close>.\<close>

definition store_cookie :: "unicode_case \<Rightarrow> nat \<Rightarrow> nat \<Rightarrow> bool \<Rightarrow> string \<Rightarrow> req_url \<Rightarrow> cookie_jar \<Rightarrow> cookie_jar" where
  "store_cookie lc t0 now js s url j =
     (let parts = splitn2 (CHR '';'') s in
      case split_once (CHR ''='') (trim (parts ! 0)) of
        None \<Rightarrow> j
      | Some (n, v) \<Rightarrow>
         (let name = trim n; val = trim v;
              a = cookie_attributes lc t0 js url parts in
          case resolve_cookie_domain lc (to_lowercase lc (url_host url)) (at_domain a) of
            None \<Rightarrow> j
          | Some (domain, host_only) \<Rightarrow>
             (let e = \<lparr>ce_name = name, ce_value = val, ce_path = at_path a, ce_domain = domain,
                       ce_host_only = host_only, ce_secure = at_secure a, ce_http_only = at_http_only a,
                       ce_expires = at_expires a, ce_same_site = at_same_site a\<rparr> in
              case at_expires a of
                Some x \<Rightarrow>
                  (if x = 0 then jar_del (domain, name, at_path a) j
                   else if x < now then j
                   else jar_put (domain, name, at_path a) e j)
              | None \<Rightarrow> jar_put (domain, name, at_path a) e j)))"

definition set_cookie :: "unicode_case \<Rightarrow> nat \<Rightarrow> nat \<Rightarrow> string \<Rightarrow> req_url \<Rightarrow> cookie_jar \<Rightarrow> cookie_jar" where
  "set_cookie lc t0 now = store_cookie lc t0 now False"

definition set_cookie_from_js :: "unicode_case \<Rightarrow> nat \<Rightarrow> nat \<Rightarrow> string \<Rightarrow> req_url \<Rightarrow> cookie_jar \<Rightarrow> cookie_jar" where
  "set_cookie_from_js lc t0 now = store_cookie lc t0 now True"

section \<open>Reading the jar\<close>

text \<open>The tests of one entry in the loops of \<open>get_cookie_header\<close> and \<open>get_js_visible_cookies\<close>.\<close>

definition entry_sent :: "nat \<Rightarrow> bool \<Rightarrow> req_url \<Rightarrow> string \<Rightarrow> cookie_entry \<Rightarrow> bool" where
  "entry_sent now js url domain e \<longleftrightarrow>
     \<not> (ce_host_only e \<and> \<not> eq_ignore_ascii_case (url_host url) domain)
     \<and> \<not> (js \<and> ce_http_only e)
     \<and> (case ce_expires e of Some x \<Rightarrow> \<not> x < now | None \<Rightarrow> True)
     \<and> \<not> (ce_secure e \<and> ur_scheme url \<noteq> ''https'')
     \<and> path_matches (ur_path url) (ce_path e)"

definition matching :: "nat \<Rightarrow> bool \<Rightarrow> req_url \<Rightarrow> cookie_jar \<Rightarrow> cookie_entry list" where
  "matching now js url j =
     concat (map (\<lambda>(d, m). if domain_matches (url_host url) d
                            then filter (entry_sent now js url d) (map snd m) else []) j)"

definition show_cookie :: "cookie_entry \<Rightarrow> string" where
  "show_cookie e = ce_name e @ ''='' @ ce_value e"

definition get_cookie_header :: "nat \<Rightarrow> req_url \<Rightarrow> cookie_jar \<Rightarrow> string" where
  "get_cookie_header now url j = join ''; '' (map show_cookie (matching now False url j))"

definition get_js_visible_cookies :: "nat \<Rightarrow> req_url \<Rightarrow> cookie_jar \<Rightarrow> string" where
  "get_js_visible_cookies now url j = join ''; '' (map show_cookie (matching now True url j))"

text \<open>\<open>e as i64\<close>.\<close>

definition u64_as_i64 :: "nat \<Rightarrow> int" where
  "u64_as_i64 n = (let m = n mod 2 ^ 64 in if m < 2 ^ 63 then int m else int m - 2 ^ 64)"

definition info_of :: "cookie_entry \<Rightarrow> cookie_info" where
  "info_of e =
     \<lparr>ci_name = ce_name e, ci_value = ce_value e, ci_domain = ce_domain e, ci_path = ce_path e,
      ci_secure = ce_secure e, ci_http_only = ce_http_only e, ci_same_site = ce_same_site e,
      ci_expires = map_option u64_as_i64 (ce_expires e)\<rparr>"

definition jar_entries :: "cookie_jar \<Rightarrow> cookie_entry list" where
  "jar_entries j = concat (map (\<lambda>(_, m). map snd m) j)"

definition get_all_cookies :: "cookie_jar \<Rightarrow> cookie_info list" where
  "get_all_cookies j = map info_of (jar_entries j)"

definition entry_of :: "cookie_info \<Rightarrow> cookie_entry" where
  "entry_of c =
     \<lparr>ce_name = ci_name c, ce_value = ci_value c, ce_path = ci_path c, ce_domain = ci_domain c,
      ce_host_only = False, ce_secure = ci_secure c, ce_http_only = ci_http_only c,
      ce_expires = (case ci_expires c of Some e \<Rightarrow> (if 0 < e then Some (nat e) else None) | None \<Rightarrow> None),
      ce_same_site = (if ci_same_site c = [] then DEFAULT_SAME_SITE else normalize_same_site (ci_same_site c))\<rparr>"

definition set_cookies_from_cdp :: "cookie_info list \<Rightarrow> cookie_jar \<Rightarrow> cookie_jar" where
  "set_cookies_from_cdp cs j =
     foldl (\<lambda>j c. jar_put (ci_domain c, ci_name c, ci_path c) (entry_of c) j) j cs"

section \<open>Deleting\<close>

definition domains_to_try :: "string \<Rightarrow> string list" where
  "domains_to_try d =
     [d, ''.'' @ trim_start_matches (CHR ''.'') d, trim_start_matches (CHR ''.'') d]"

definition retain_all :: "(cookie_entry \<Rightarrow> bool) \<Rightarrow> cookie_jar \<Rightarrow> cookie_jar" where
  "retain_all P j = map (\<lambda>(d, m). (d, filter (\<lambda>(_, e). P e) m)) j"

definition delete_cookie :: "string \<Rightarrow> string \<Rightarrow> cookie_jar \<Rightarrow> cookie_jar" where
  "delete_cookie name domain j =
     (if domain = [] then retain_all (\<lambda>e. ce_name e \<noteq> name) j
      else foldl (\<lambda>j d. jar_retain d (\<lambda>e. ce_name e \<noteq> name) j) j (domains_to_try domain))"

definition delete_cookies_filtered :: "string \<Rightarrow> string \<Rightarrow> string option \<Rightarrow> cookie_jar \<Rightarrow> cookie_jar" where
  "delete_cookies_filtered name domain path j =
     (let keep = (\<lambda>e. \<not> (ce_name e = name \<and> (case path of Some p \<Rightarrow> ce_path e = p | None \<Rightarrow> True))) in
      if domain = [] then retain_all keep j
      else foldl (\<lambda>j d. jar_retain d keep j) j (domains_to_try domain))"

definition clear_jar :: "cookie_jar \<Rightarrow> cookie_jar" where
  "clear_jar j = []"

text \<open>The cookies that \<open>save_to_file\<close> writes, encoded, and what \<open>load_from_file\<close> makes of the text of
  an existing file: \<open>enc\<close> and \<open>dec\<close> are \<open>serde_json\<close>; the file system is not modelled.\<close>

definition saved_cookies :: "nat \<Rightarrow> cookie_jar \<Rightarrow> cookie_info list" where
  "saved_cookies now j =
     map info_of (filter (\<lambda>e. case ce_expires e of Some x \<Rightarrow> \<not> x < now | None \<Rightarrow> True) (jar_entries j))"

definition save_text :: "(cookie_info list \<Rightarrow> string option) \<Rightarrow> nat \<Rightarrow> cookie_jar \<Rightarrow> string option" where
  "save_text enc now j = enc (saved_cookies now j)"

definition load_text :: "(string \<Rightarrow> cookie_info list option) \<Rightarrow> string option \<Rightarrow> cookie_jar \<Rightarrow> (unit + nat) \<times> cookie_jar" where
  "load_text dec file j =
     (case file of
        None \<Rightarrow> (Inr 0, j)
      | Some text \<Rightarrow>
         (case dec text of
            None \<Rightarrow> (Inl (), j)
          | Some cs \<Rightarrow> (Inr (length cs), set_cookies_from_cdp cs j)))"

end
