(* ===== verification/CookieProps.thy ===== *)
theory CookieProps
  imports CookieJar
begin

text \<open>
  What the cookie jar promises: the buckets and keys agree with the entries, a response can only
  scope a cookie to its own host or to a parent domain, a cookie is sent exactly to the hosts,
  paths and schemes it was set for, and deletion and export touch what they name.
\<close>

section \<open>The jar as a store of entries\<close>

definition jar_get :: "cookie_jar \<Rightarrow> string \<times> string \<times> string \<Rightarrow> cookie_entry option" where
  "jar_get j k = (case k of (d, np) \<Rightarrow> Option.bind (map_of j d) (\<lambda>m. map_of m np))"

definition jar_distinct :: "cookie_jar \<Rightarrow> bool" where
  "jar_distinct j \<longleftrightarrow> distinct (map fst j) \<and> (\<forall>(d, m) \<in> set j. distinct (map fst m))"

lemma jar_distinct_bucket: "jar_distinct j \<Longrightarrow> map_of j d = Some m \<Longrightarrow> distinct (map fst m)"
  by (auto simp: jar_distinct_def dest!: map_of_SomeD)

lemma jar_distinct_update:
  assumes "jar_distinct j" and "distinct (map fst m)"
  shows "jar_distinct (AList.update d m j)"
proof -
  have "x \<in> set (AList.update d m j) \<Longrightarrow> x = (d, m) \<or> x \<in> set j" for x
    by (induction j) (auto split: if_splits)
  then have "\<forall>(k, n) \<in> set (AList.update d m j). distinct (map fst n)"
    using assms by (fastforce simp: jar_distinct_def)
  then show ?thesis using assms(1) by (simp add: jar_distinct_def distinct_update)
qed

lemma jar_get_put: "jar_get (jar_put k e j) k' = (if k' = k then Some e else jar_get j k')"
  by (cases k; cases k') (auto simp: jar_get_def jar_put_def update_conv' bucket_def split: option.splits)

lemma jar_get_del: "jar_get (jar_del k j) k' = (if k' = k then None else jar_get j k')"
  by (cases k; cases k')
    (auto simp: jar_get_def jar_del_def update_conv' delete_conv' split: option.splits)

lemma jar_distinct_put: "jar_distinct j \<Longrightarrow> jar_distinct (jar_put k e j)"
  by (cases k)
    (auto simp: jar_put_def bucket_def intro!: jar_distinct_update distinct_update
      dest: jar_distinct_bucket split: option.splits)

lemma jar_distinct_del: "jar_distinct j \<Longrightarrow> jar_distinct (jar_del k j)"
  by (cases k)
    (auto simp: jar_del_def intro!: jar_distinct_update distinct_delete
      dest: jar_distinct_bucket split: option.splits)

interpretation jar: entry_store jar_get jar_put jar_del jar_distinct
  by unfold_locales (simp_all add: jar_get_put jar_get_del jar_distinct_put jar_distinct_del)

lemma map_of_filter_values:
  "distinct (map fst m) \<Longrightarrow>
     map_of (filter (\<lambda>(_, e). P e) m) k = (case map_of m k of Some e \<Rightarrow> if P e then Some e else None | None \<Rightarrow> None)"
  by (induction m) (auto simp: map_of_eq_None_iff split: option.splits)

lemma distinct_filter_fst: "distinct (map fst m) \<Longrightarrow> distinct (map fst (filter P m))"
  by (simp add: distinct_map inj_on_def)

lemma jar_get_retain:
  assumes "jar_distinct j"
  shows "jar_get (jar_retain d P j) k =
     (case jar_get j k of None \<Rightarrow> None | Some e \<Rightarrow> if fst k = d \<and> \<not> P e then None else Some e)"
  using jar_distinct_bucket [OF assms]
  by (cases k) (auto simp: jar_get_def jar_retain_def update_conv' map_of_filter_values split: option.splits)

lemma jar_distinct_retain: "jar_distinct j \<Longrightarrow> jar_distinct (jar_retain d P j)"
  by (auto simp: jar_retain_def intro!: jar_distinct_update distinct_filter_fst
      dest: jar_distinct_bucket split: option.splits)

lemma jar_get_retain_all:
  assumes "jar_distinct j"
  shows "jar_get (retain_all P j) k = (case jar_get j k of Some e \<Rightarrow> if P e then Some e else None | None \<Rightarrow> None)"
proof -
  have "map_of (retain_all P j) d = map_option (filter (\<lambda>(_, e). P e)) (map_of j d)" for d
    unfolding retain_all_def by (induction j) auto
  then show ?thesis
    using jar_distinct_bucket [OF assms, of "fst k"]
    by (cases k; cases "map_of j (fst k)") (auto simp: jar_get_def map_of_filter_values)
qed

lemma jar_distinct_retain_all: "jar_distinct j \<Longrightarrow> jar_distinct (retain_all P j)"
  by (auto simp: jar_distinct_def retain_all_def comp_def case_prod_unfold intro!: distinct_filter_fst)

text \<open>Entries and lookups.\<close>

lemma jar_get_entries:
  assumes "jar_distinct j"
  shows "jar_get j (d, np) = Some e \<longleftrightarrow> (\<exists>m. (d, m) \<in> set j \<and> (np, e) \<in> set m)"
proof -
  have "map_of j d = Some m \<longleftrightarrow> (d, m) \<in> set j" for m
    using assms by (intro map_of_eq_Some_iff) (simp add: jar_distinct_def)
  moreover have "map_of m np = Some e \<longleftrightarrow> (np, e) \<in> set m" if "(d, m) \<in> set j" for m
    using assms that by (intro map_of_eq_Some_iff) (auto simp: jar_distinct_def)
  ultimately show ?thesis by (auto simp: jar_get_def Option.bind_eq_Some_conv)
qed

section \<open>The jar's invariant\<close>

text \<open>Every entry is filed under its own domain, name and path, once.\<close>

definition entry_key :: "cookie_entry \<Rightarrow> string \<times> string \<times> string" where
  "entry_key e = (ce_domain e, ce_name e, ce_path e)"

definition site_ok :: "cookie_entry \<Rightarrow> bool" where
  "site_ok e \<longleftrightarrow> ce_same_site e \<in> {''Strict'', ''None'', ''Lax''}"

definition jar_ok :: "cookie_jar \<Rightarrow> bool" where
  "jar_ok j \<longleftrightarrow> jar_distinct j \<and> (\<forall>k e. jar_get j k = Some e \<longrightarrow> entry_key e = k \<and> site_ok e)"

lemma normalize_ok: "normalize_same_site v \<in> {''Strict'', ''None'', ''Lax''}"
  by (simp add: normalize_same_site_def Let_def)

lemma site_ok_attrs: "at_same_site (cookie_attributes lc t0 js url ps) \<in> {''Strict'', ''None'', ''Lax''}"
proof -
  have "at_same_site a \<in> {''Strict'', ''None'', ''Lax''} \<Longrightarrow>
      at_same_site (foldl (attr_step lc t0 js) a qs) \<in> {''Strict'', ''None'', ''Lax''}" for a qs
  proof (induction qs arbitrary: a)
    case (Cons q qs)
    have "at_same_site (attr_step lc t0 js a q) \<in> {''Strict'', ''None'', ''Lax''}"
      using Cons.prems normalize_ok
      by (simp add: attr_step_def Let_def split: option.splits prod.splits del: insert_iff)
    with Cons.IH show ?case by simp
  qed simp
  from this [of "attrs_start (ur_path url)"] show ?thesis
    by (simp add: cookie_attributes_def attrs_start_def)
qed

lemma jar_okD: "jar_ok j \<Longrightarrow> jar_get j k = Some e \<Longrightarrow> entry_key e = k \<and> site_ok e"
  unfolding jar_ok_def by blast

lemma jar_ok_new: "jar_ok jar_new"
  by (simp add: jar_ok_def jar_new_def jar_distinct_def jar_get_def split: prod.splits)

lemma jar_ok_put: "jar_ok j \<Longrightarrow> entry_key e = k \<Longrightarrow> site_ok e \<Longrightarrow> jar_ok (jar_put k e j)"
  by (auto simp: jar_ok_def jar_get_put jar_distinct_put split: if_splits)

lemma jar_ok_sub:
  assumes "jar_ok j" and "jar_distinct j'" and "\<And>k e. jar_get j' k = Some e \<Longrightarrow> jar_get j k = Some e"
  shows "jar_ok j'"
  using jar_okD [OF assms(1) assms(3)] assms(2) unfolding jar_ok_def by blast

lemma jar_ok_del: "jar_ok j \<Longrightarrow> jar_ok (jar_del k j)"
  by (rule jar_ok_sub [of j]) (auto simp: jar_ok_def jar_get_del jar_distinct_del split: if_splits)

lemma jar_ok_retain: "jar_ok j \<Longrightarrow> jar_ok (jar_retain d P j)"
  by (rule jar_ok_sub [of j])
    (auto simp: jar_ok_def jar_get_retain jar_distinct_retain split: if_splits option.splits)

lemma jar_ok_retain_all: "jar_ok j \<Longrightarrow> jar_ok (retain_all P j)"
  by (rule jar_ok_sub [of j])
    (auto simp: jar_ok_def jar_get_retain_all jar_distinct_retain_all split: if_splits option.splits)

text \<open>What \<open>store_cookie\<close> can do to a jar.\<close>

lemma store_cookie_cases:
  obtains (same) "store_cookie lc t0 now js s url j = j"
  | (del) d k h at where "resolve_cookie_domain lc (to_lowercase lc (url_host url)) at = Some (d, h)"
      "store_cookie lc t0 now js s url j = jar_del (d, k) j"
  | (put) e at where "resolve_cookie_domain lc (to_lowercase lc (url_host url)) at = Some (ce_domain e, ce_host_only e)"
      "store_cookie lc t0 now js s url j = jar_put (entry_key e) e j" "js \<Longrightarrow> \<not> ce_http_only e" "site_ok e"
proof -
  have no_http: "at_http_only (foldl (attr_step lc t0 True) a ps) = at_http_only a" for a ps
    by (induction ps arbitrary: a) (auto simp: attr_step_def Let_def split: option.splits prod.splits)
  have http: "js \<Longrightarrow> \<not> at_http_only (cookie_attributes lc t0 js url ps)" for ps
    by (auto simp: cookie_attributes_def attrs_start_def no_http)
  show thesis
  proof (cases "split_once (CHR ''='') (trim (splitn2 (CHR '';'') s ! 0))")
    case None
    then show thesis by (intro same) (simp add: store_cookie_def Let_def)
  next
    case (Some nv)
    obtain n v where nv: "nv = (n, v)" by (cases nv)
    let ?a = "cookie_attributes lc t0 js url (splitn2 (CHR '';'') s)"
    show thesis
    proof (cases "resolve_cookie_domain lc (to_lowercase lc (url_host url)) (at_domain ?a)")
      case None
      with Some nv show thesis by (intro same) (simp add: store_cookie_def Let_def)
    next
      case (Some dh)
      obtain d h where dh: "dh = (d, h)" by (cases dh)
      let ?e = "\<lparr>ce_name = trim n, ce_value = trim v, ce_path = at_path ?a, ce_domain = d,
                 ce_host_only = h, ce_secure = at_secure ?a, ce_http_only = at_http_only ?a,
                 ce_expires = at_expires ?a, ce_same_site = at_same_site ?a\<rparr>"
      have eq: "store_cookie lc t0 now js s url j =
          (case at_expires ?a of
             Some x \<Rightarrow> (if x = 0 then jar_del (d, trim n, at_path ?a) j else if x < now then j
                        else jar_put (entry_key ?e) ?e j)
           | None \<Rightarrow> jar_put (entry_key ?e) ?e j)"
        using \<open>split_once _ _ = Some nv\<close> Some
        by (cases "at_expires ?a") (simp_all add: store_cookie_def Let_def nv dh entry_key_def)
      note res = Some [unfolded dh]
      show thesis
      proof (cases "at_expires ?a")
        case None
        with eq have "store_cookie lc t0 now js s url j = jar_put (entry_key ?e) ?e j" by simp
        with res http site_ok_attrs show thesis by (intro put [of "at_domain ?a" ?e]) (simp_all add: site_ok_def del: insert_iff)
      next
        case x: (Some x)
        consider "x = 0" | "0 < x" "x < now" | "0 < x" "\<not> x < now" by blast
        then show thesis
        proof cases
          case 1
          with eq x res show thesis by (intro del [of "at_domain ?a" d h "(trim n, at_path ?a)"]) simp_all
        next
          case 2
          with eq x show thesis by (intro same) simp
        next
          case 3
          with eq x have "store_cookie lc t0 now js s url j = jar_put (entry_key ?e) ?e j" by simp
          with res http site_ok_attrs show thesis by (intro put [of "at_domain ?a" ?e]) (simp_all add: site_ok_def del: insert_iff)
        qed
      qed
    qed
  qed
qed

lemma jar_ok_store: "jar_ok j \<Longrightarrow> jar_ok (store_cookie lc t0 now js s url j)"
  by (rule store_cookie_cases [of lc t0 now js s url j]) (simp_all add: jar_ok_del jar_ok_put)

lemma entry_key_of [simp]: "entry_key (entry_of c) = (ci_domain c, ci_name c, ci_path c)"
  by (simp add: entry_key_def entry_of_def)

lemma site_ok_of: "site_ok (entry_of c)"
  using normalize_ok by (simp add: site_ok_def entry_of_def DEFAULT_SAME_SITE_def)

lemma jar_ok_import: "jar_ok j \<Longrightarrow> jar_ok (set_cookies_from_cdp cs j)"
  unfolding set_cookies_from_cdp_def by (induction cs arbitrary: j) (simp_all add: jar_ok_put site_ok_of)

lemma jar_ok_fold_retain: "jar_ok j \<Longrightarrow> jar_ok (foldl (\<lambda>j d. jar_retain d P j) j ds)"
  by (induction ds arbitrary: j) (simp_all add: jar_ok_retain)

lemma jar_ok_delete: "jar_ok j \<Longrightarrow> jar_ok (delete_cookies_filtered name domain path j)"
  by (simp add: delete_cookies_filtered_def Let_def jar_ok_retain_all jar_ok_fold_retain)

lemma delete_cookie_filtered: "delete_cookie name domain j = delete_cookies_filtered name domain None j"
  by (simp add: delete_cookie_def delete_cookies_filtered_def Let_def)

datatype jar_op =
  SetCookie bool nat nat string req_url | ImportCookies "cookie_info list"
| DeleteCookies string string "string option" | ClearJar

definition jar_step :: "unicode_case \<Rightarrow> cookie_jar \<Rightarrow> jar_op \<Rightarrow> cookie_jar" where
  "jar_step lc j e =
     (case e of SetCookie js t0 now s url \<Rightarrow> store_cookie lc t0 now js s url j
      | ImportCookies cs \<Rightarrow> set_cookies_from_cdp cs j
      | DeleteCookies name domain path \<Rightarrow> delete_cookies_filtered name domain path j
      | ClearJar \<Rightarrow> clear_jar j)"

definition jar_run :: "unicode_case \<Rightarrow> jar_op list \<Rightarrow> cookie_jar" where
  "jar_run lc es = foldl (jar_step lc) jar_new es"

lemma jar_run_ok: "jar_ok (jar_run lc es)"
proof -
  have "jar_ok j \<Longrightarrow> jar_ok (jar_step lc j e)" for j e
    by (cases e)
      (simp_all add: jar_step_def jar_ok_store jar_ok_import jar_ok_delete clear_jar_def
        jar_ok_new [unfolded jar_new_def])
  then have "jar_ok j \<Longrightarrow> jar_ok (foldl (jar_step lc) j es)" for j
    by (induction es arbitrary: j) simp_all
  then show ?thesis unfolding jar_run_def using jar_ok_new by blast
qed

section \<open>Properties\<close>

text \<open>
  C19. In every jar reached from an empty one by setting, importing, deleting and clearing, each
  domain has one bucket, each bucket one entry per name and path, and every entry is filed under
  its own domain, name and path and carries a known SameSite value.
\<close>

theorem jar_invariant:
  "distinct (map fst (jar_run lc es))
   \<and> list_all (\<lambda>(d, m). distinct (map fst m)
        \<and> list_all (\<lambda>(np, e). entry_key e = (d, np) \<and> ce_same_site e \<in> {''Strict'', ''None'', ''Lax''}) m)
      (jar_run lc es)"
proof -
  have ok: "jar_ok (jar_run lc es)" by (rule jar_run_ok)
  then have d: "jar_distinct (jar_run lc es)" by (simp add: jar_ok_def)
  have "entry_key e = (d, np) \<and> site_ok e" if "(d, m) \<in> set (jar_run lc es)" "(np, e) \<in> set m" for d m np e
    using jar_okD [OF ok, of "(d, np)" e] jar_get_entries [OF d, of d np e] that by blast
  with d show ?thesis
    unfolding jar_distinct_def list_all_iff site_ok_def by blast
qed

text \<open>A request, and a case mapping that is only right for ASCII.\<close>

definition plain_url :: req_url where
  "plain_url = \<lparr>ur_host = Some ''a.b.c'', ur_path = ''/x/y'', ur_scheme = ''https''\<rparr>"

definition lower_only :: unicode_case where "lower_only s = s"

text \<open>
  C4. A response or a script from some origin can change the jar only in the bucket of that origin
  or of a parent domain that has a dot itself, and an entry scoped to the origin's own name is
  host-only.
\<close>

theorem cookie_scope:
  assumes "jar_get (store_cookie lc t0 now js s url j) (d, np) \<noteq> jar_get j (d, np)"
  shows "\<exists>origin. origin = to_lowercase lc (trim_start_matches (CHR ''.'') (trim (to_lowercase lc (url_host url))))
    \<and> (d = origin \<and> (\<forall>e. jar_get (store_cookie lc t0 now js s url j) (d, np) = Some e \<longrightarrow> ce_host_only e)
       \<or> str_contains d ''.'' \<and> ends_with origin (''.'' @ d))"
proof -
  let ?origin = "to_lowercase lc (trim_start_matches (CHR ''.'') (trim (to_lowercase lc (url_host url))))"
  have scope: "d' = ?origin \<and> h \<or> str_contains d' ''.'' \<and> ends_with ?origin (''.'' @ d') \<and> \<not> h"
    if "resolve_cookie_domain lc (to_lowercase lc (url_host url)) at = Some (d', h)" for d' h at
    using that by (auto simp: resolve_cookie_domain_def Let_def split: if_splits option.splits)
  show ?thesis
  proof (cases rule: store_cookie_cases [of lc t0 now js s url j])
    case same
    with assms show ?thesis by simp
  next
    case (del d' k h at)
    with assms have "d' = d" by (auto simp: jar_get_del split: if_splits)
    with assms del scope [OF del(1)] show ?thesis by (auto simp: jar_get_del split: if_splits)
  next
    case (put e at)
    with assms have k: "entry_key e = (d, np)" by (auto simp: jar_get_put split: if_splits)
    then have "ce_domain e = d" by (simp add: entry_key_def)
    with put scope [OF put(1)] k show ?thesis by (auto simp: jar_get_put)
  qed
qed

theorem cookie_scope_witness:
  "\<exists>origin. origin = to_lowercase lower_only (trim_start_matches (CHR ''.'') (trim (to_lowercase lower_only (url_host plain_url))))
    \<and> (''b.c'' = origin \<and> (\<forall>e. jar_get (store_cookie lower_only 0 0 False ''k=v; Domain=b.c'' plain_url jar_new) (''b.c'', ''k'', ''/x'') = Some e \<longrightarrow> ce_host_only e)
       \<or> str_contains ''b.c'' ''.'' \<and> ends_with origin (''.'' @ ''b.c''))"
proof (rule cookie_scope)
  show "jar_get (store_cookie lower_only 0 0 False ''k=v; Domain=b.c'' plain_url jar_new) (''b.c'', ''k'', ''/x'')
      \<noteq> jar_get jar_new (''b.c'', ''k'', ''/x'')"
    by code_simp
qed

lemma split_before: "0 < n \<Longrightarrow> n \<le> length xs \<Longrightarrow> xs = take (n - 1) xs @ [xs ! (n - 1)] @ drop n xs"
  by (cases n) (simp_all add: id_take_nth_drop [symmetric])

text \<open>
  \<open>domain_matches\<close> is the domain match of RFC 6265: equal names up to ASCII case, or the host
  ends with a dot and the domain, for a domain that does not start inside a character.
\<close>

lemma domain_matches_iff:
  assumes "trim_start_matches (CHR ''.'') domain = [] \<or> \<not> continuation_byte (hd (trim_start_matches (CHR ''.'') domain))"
  shows "domain_matches host domain \<longleftrightarrow>
     to_ascii_lowercase host = to_ascii_lowercase (trim_start_matches (CHR ''.'') domain)
     \<or> (\<exists>p. to_ascii_lowercase host = p @ ''.'' @ to_ascii_lowercase (trim_start_matches (CHR ''.'') domain))"
proof -
  let ?d = "trim_start_matches (CHR ''.'') domain" and ?n = "length host - length (trim_start_matches (CHR ''.'') domain)"
  show ?thesis (is "?L \<longleftrightarrow> ?E \<or> ?S")
  proof (cases "?E \<or> length host \<le> length ?d")
    case True
    have "?S \<Longrightarrow> length ?d < length host"
    proof -
      assume ?S
      then obtain p where "to_ascii_lowercase host = p @ ''.'' @ to_ascii_lowercase ?d" by blast
      from arg_cong [OF this, of length] show ?thesis by simp
    qed
    moreover have "?E \<Longrightarrow> length host = length ?d"
      using length_to_ascii_lowercase by metis
    ultimately show ?thesis
      using True by (cases ?E) (auto simp: domain_matches_def Let_def eq_ignore_ascii_case_def)
  next
    case False
    then have n: "0 < ?n" "length ?d < length host" by auto
    have split: "host = take (?n - 1) host @ [host ! (?n - 1)] @ drop ?n host"
      using n by (intro split_before) simp_all
    have bound: "is_char_boundary host ?n" if "eq_ignore_ascii_case (drop ?n host) ?d"
    proof (cases ?d)
      case (Cons c cs)
      have "hd (drop ?n host) = host ! ?n" using n Cons by (intro hd_drop_conv_nth) simp
      moreover have "ascii_lower_char (hd (drop ?n host)) = ascii_lower_char c"
        using that Cons by (cases "drop ?n host") (auto simp: eq_ignore_ascii_case_def to_ascii_lowercase_def)
      ultimately have low: "ascii_lower_char (host ! ?n) = ascii_lower_char c" by simp
      have "continuation_byte x \<longleftrightarrow> continuation_byte (ascii_lower_char x)" for x
        by (simp add: continuation_byte_def ascii_lower_char_code ascii_upper_def)
      with low assms Cons have "\<not> continuation_byte (host ! ?n)" by (metis list.distinct(1) list.sel(1))
      moreover have "?n < length host" using n Cons by simp
      ultimately show ?thesis by (simp only: is_char_boundary_def) simp
    qed (simp add: is_char_boundary_def)
    have "?L \<longleftrightarrow> host ! (?n - 1) = CHR ''.'' \<and> eq_ignore_ascii_case (drop ?n host) ?d"
      using False n bound by (auto simp: domain_matches_def Let_def eq_ignore_ascii_case_def)
    also have "\<dots> \<longleftrightarrow> ?S"
    proof
      assume h: "host ! (?n - 1) = CHR ''.'' \<and> eq_ignore_ascii_case (drop ?n host) ?d"
      have "to_ascii_lowercase host = to_ascii_lowercase (take (?n - 1) host) @ ''.'' @ to_ascii_lowercase ?d"
        using h arg_cong [OF split, of to_ascii_lowercase]
        by (simp add: eq_ignore_ascii_case_def to_ascii_lowercase_def ascii_lower_char_def ascii_upper_def)
      then show ?S by blast
    next
      assume ?S
      then obtain p where p: "to_ascii_lowercase host = p @ ''.'' @ to_ascii_lowercase ?d" by blast
      have "length (to_ascii_lowercase host) = length (p @ ''.'' @ to_ascii_lowercase ?d)" by (simp only: p)
      then have len: "length p = ?n - 1" using n by simp
      have "to_ascii_lowercase (take (?n - 1) host) @ ascii_lower_char (host ! (?n - 1)) # to_ascii_lowercase (drop ?n host)
          = p @ CHR ''.'' # to_ascii_lowercase ?d"
        using p arg_cong [OF split, of to_ascii_lowercase] by (simp add: to_ascii_lowercase_def)
      then have "ascii_lower_char (host ! (?n - 1)) = CHR ''.'' \<and> to_ascii_lowercase (drop ?n host) = to_ascii_lowercase ?d"
        using len n by (subst (asm) append_eq_append_conv) simp_all
      then show "host ! (?n - 1) = CHR ''.'' \<and> eq_ignore_ascii_case (drop ?n host) ?d"
        using ascii_lower_char_eq_fix [of "CHR ''.''" "host ! (?n - 1)"]
        by (simp add: eq_ignore_ascii_case_def ascii_upper_def)
    qed
    finally show ?thesis using False by blast
  qed
qed

theorem domain_matches_iff_witness:
  "domain_matches ''Sub.Example.com'' ''.example.com''
   \<longleftrightarrow> to_ascii_lowercase ''Sub.Example.com'' = to_ascii_lowercase (trim_start_matches (CHR ''.'') ''.example.com'')
     \<or> (\<exists>p. to_ascii_lowercase ''Sub.Example.com'' = p @ ''.'' @ to_ascii_lowercase (trim_start_matches (CHR ''.'') ''.example.com''))"
  by (rule domain_matches_iff) (simp add: trim_start_matches_def continuation_byte_def)

lemma path_matches_iff:
  "path_matches r c \<longleftrightarrow> (\<exists>x. r = c @ x \<and> (x = [] \<or> ends_with c ''/'' \<or> hd x = CHR ''/''))"
proof
  assume "path_matches r c"
  then show "\<exists>x. r = c @ x \<and> (x = [] \<or> ends_with c ''/'' \<or> hd x = CHR ''/'')"
    by (auto simp: path_matches_def starts_with_def prefix_def nth_append hd_conv_nth split: if_splits)
next
  assume "\<exists>x. r = c @ x \<and> (x = [] \<or> ends_with c ''/'' \<or> hd x = CHR ''/'')"
  then obtain x where "r = c @ x" "x = [] \<or> ends_with c ''/'' \<or> hd x = CHR ''/''" by blast
  then show "path_matches r c"
    by (cases x) (auto simp: path_matches_def starts_with_def nth_append)
qed

lemma str_rfind_append: "c \<notin> set b \<Longrightarrow> str_rfind c (a @ c # b) = Some (length a)"
proof -
  assume c: "c \<notin> set b"
  have "d \<notin> set u \<Longrightarrow> str_find d (u @ d # w) = Some (length u)" for d and u w :: string
    by (induction u) auto
  from this [of c "rev b" "rev a"] c show ?thesis by (simp add: str_rfind_def)
qed

lemma default_path_dir:
  assumes "dir = [] \<or> hd dir = CHR ''/''" and "CHR ''/'' \<notin> set leaf"
  shows "default_cookie_path (dir @ ''/'' @ leaf) = (if dir = [] then ''/'' else dir)"
  using assms str_rfind_append [OF assms(2), of dir]
  by (cases dir) (simp_all add: default_cookie_path_def starts_with_def)

lemma default_path_directory_of:
  assumes "dir = [] \<or> hd dir = CHR ''/''" and "CHR ''/'' \<notin> set leaf"
  shows "path_matches (dir @ ''/'' @ other) (default_cookie_path (dir @ ''/'' @ leaf))"
  unfolding default_path_dir [OF assms] by (cases dir) (auto simp: path_matches_iff ends_with_def)

text \<open>
  A cookie set without a path is scoped to the directory of the request: it is sent to every
  path in that directory, and only below it.
\<close>

theorem default_path_directory:
  assumes "dir = [] \<or> hd dir = CHR ''/''" and "CHR ''/'' \<notin> set leaf"
  shows "default_cookie_path (dir @ ''/'' @ leaf) = (if dir = [] then ''/'' else dir)
    \<and> path_matches (dir @ ''/'' @ other) (default_cookie_path (dir @ ''/'' @ leaf))
    \<and> (path_matches r (default_cookie_path (dir @ ''/'' @ leaf)) \<longrightarrow>
         r = dir \<or> (\<exists>x. r = dir @ ''/'' @ x) \<or> ends_with dir ''/'' \<and> prefix dir r)"
proof (intro conjI impI)
  note d = default_path_dir [OF assms]
  then show "default_cookie_path (dir @ ''/'' @ leaf) = (if dir = [] then ''/'' else dir)" .
  show "path_matches (dir @ ''/'' @ other) (default_cookie_path (dir @ ''/'' @ leaf))"
    by (rule default_path_directory_of [OF assms])
  assume "path_matches r (default_cookie_path (dir @ ''/'' @ leaf))"
  then show "r = dir \<or> (\<exists>x. r = dir @ ''/'' @ x) \<or> ends_with dir ''/'' \<and> prefix dir r"
    unfolding d
    by (cases dir) (auto simp: path_matches_iff prefix_def neq_Nil_conv split: if_splits)
qed

theorem default_path_directory_witness:
  "default_cookie_path (''/app'' @ ''/'' @ ''login'') = ''/app''
   \<and> path_matches (''/app'' @ ''/'' @ ''home'') (default_cookie_path (''/app'' @ ''/'' @ ''login''))
   \<and> \<not> path_matches ''/apple'' (default_cookie_path (''/app'' @ ''/'' @ ''login''))"
  using default_path_directory [of "''/app''" "''login''" "''home''" "''/apple''"]
  by (simp add: path_matches_def starts_with_def ends_with_def suffix_to_prefix)

lemma matching_get:
  assumes "jar_ok j"
  shows "e \<in> set (matching now js url j) \<longleftrightarrow>
    jar_get j (entry_key e) = Some e \<and> domain_matches (url_host url) (ce_domain e) \<and> entry_sent now js url (ce_domain e) e"
proof -
  have d: "jar_distinct j" using assms by (simp add: jar_ok_def)
  have key: "d = ce_domain e \<and> np = (ce_name e, ce_path e)" if "(d, m) \<in> set j" "(np, e) \<in> set m" for d m np
    using jar_okD [OF assms, of "(d, np)" e] jar_get_entries [OF d, of d np e] that by (auto simp: entry_key_def)
  have "e \<in> set (matching now js url j) \<longleftrightarrow>
      (\<exists>d m np. (d, m) \<in> set j \<and> domain_matches (url_host url) d \<and> (np, e) \<in> set m \<and> entry_sent now js url d e)"
    by (force simp: matching_def)
  also have "\<dots> \<longleftrightarrow> (\<exists>m. (ce_domain e, m) \<in> set j \<and> ((ce_name e, ce_path e), e) \<in> set m)
      \<and> domain_matches (url_host url) (ce_domain e) \<and> entry_sent now js url (ce_domain e) e"
    using key by blast
  also have "(\<exists>m. (ce_domain e, m) \<in> set j \<and> ((ce_name e, ce_path e), e) \<in> set m)
      \<longleftrightarrow> jar_get j (entry_key e) = Some e"
    using jar_get_entries [OF d, of "ce_domain e" "(ce_name e, ce_path e)" e] by (simp add: entry_key_def)
  finally show ?thesis .
qed

text \<open>
  C10. The cookies sent with a request are exactly the stored ones whose domain and path match it,
  that have not expired, whose domain is the host itself when they are host-only, and, for the
  secure ones, only over https; a script sees exactly those that are not HttpOnly.
\<close>

theorem cookies_sent:
  "set (matching now False url (jar_run lc es)) =
     {e. jar_get (jar_run lc es) (entry_key e) = Some e \<and> domain_matches (url_host url) (ce_domain e)
       \<and> path_matches (ur_path url) (ce_path e)
       \<and> {x. ce_expires e = Some x} \<subseteq> {now..}
       \<and> (eq_ignore_ascii_case (url_host url) (ce_domain e) \<or> ce_host_only e = False)
       \<and> (ur_scheme url = ''https'' \<or> ce_secure e = False)}
   \<and> matching now True url (jar_run lc es) = filter (\<lambda>e. ce_http_only e = False) (matching now False url (jar_run lc es))"
proof
  have "entry_sent now True url d = (\<lambda>e. ce_http_only e = False \<and> entry_sent now False url d e)" for d
    by (auto simp: entry_sent_def)
  then have "matching now True url jar = filter (\<lambda>e. ce_http_only e = False) (matching now False url jar)" for jar
    unfolding matching_def by (induction jar) (auto simp: conj_commute)
  then show "matching now True url (jar_run lc es) = filter (\<lambda>e. ce_http_only e = False) (matching now False url (jar_run lc es))" .
  show "set (matching now False url (jar_run lc es)) =
     {e. jar_get (jar_run lc es) (entry_key e) = Some e \<and> domain_matches (url_host url) (ce_domain e)
       \<and> path_matches (ur_path url) (ce_path e)
       \<and> {x. ce_expires e = Some x} \<subseteq> {now..}
       \<and> (eq_ignore_ascii_case (url_host url) (ce_domain e) \<or> ce_host_only e = False)
       \<and> (ur_scheme url = ''https'' \<or> ce_secure e = False)}"
    using matching_get [OF jar_run_ok]
    by (auto simp: entry_sent_def not_less split: option.splits)
qed

text \<open>
  C11. A cookie set by a plain \<open>name=value\<close> line is sent back, from then on, to the URL that set it.
\<close>

theorem set_then_sent:
  assumes "list_all no_ws_byte (name @ val)" and "CHR ''='' \<notin> set name" and "CHR '';'' \<notin> set (name @ val)"
    and "ur_host url = Some h" and "h \<noteq> []" and "list_all no_ws_byte h" and "hd h \<noteq> CHR ''.''" and "to_lowercase lc h = h"
    and "ur_path url = dir @ ''/'' @ leaf" and "dir = [] \<or> hd dir = CHR ''/''" and "CHR ''/'' \<notin> set leaf"
  shows "name @ ''='' @ val \<in> set (map show_cookie (matching later js url
           (set_cookie lc t0 now (name @ ''='' @ val) url (jar_run lc es))))"
proof -
  let ?e = "\<lparr>ce_name = name, ce_value = val, ce_path = default_cookie_path (ur_path url), ce_domain = h,
             ce_host_only = True, ce_secure = False, ce_http_only = False, ce_expires = None, ce_same_site = ''Lax''\<rparr>"
  have split: "splitn2 (CHR '';'') (name @ ''='' @ val) = [name @ ''='' @ val]"
  proof -
    have "CHR '';'' \<notin> set (name @ ''='' @ val)" using assms(3) by simp
    then have "split_once (CHR '';'') (name @ ''='' @ val) = None" by (simp only: split_once_None simp_thms)
    then show ?thesis by (simp add: splitn2_def)
  qed
  have "no_ws_byte (CHR ''='')" by (simp add: no_ws_byte_def ascii_ws_def)
  then have trims: "trim (name @ ''='' @ val) = name @ ''='' @ val" "trim name = name" "trim val = val" "trim h = h"
    using assms(1,6) by (simp_all add: trim_plain)
  have once: "split_once (CHR ''='') (name @ ''='' @ val) = Some (name, val)"
    using split_once_append [OF assms(2), of val] by simp
  have host: "url_host url = h" using assms(4) by (simp add: url_host_def)
  have hd: "trim_start_matches (CHR ''.'') h = h" using assms(5,7) by (intro trim_start_matches_id) simp
  have res: "resolve_cookie_domain lc h None = Some (h, True)"
    using assms(5,8) by (simp add: resolve_cookie_domain_def trims hd)
  have put: "set_cookie lc t0 now (name @ ''='' @ val) url (jar_run lc es) = jar_put (entry_key ?e) ?e (jar_run lc es)"
    using split trims once host assms(8) res
    by (simp add: set_cookie_def store_cookie_def Let_def cookie_attributes_def attrs_start_def entry_key_def)
  have "jar_ok (jar_put (entry_key ?e) ?e (jar_run lc es))"
    by (intro jar_ok_put jar_run_ok) (simp_all add: site_ok_def)
  moreover have "domain_matches h h" using hd by (simp add: domain_matches_def Let_def)
  moreover have "path_matches (ur_path url) (default_cookie_path (ur_path url))"
    using default_path_directory_of [OF assms(10,11)] by (simp add: assms(9))
  ultimately have "?e \<in> set (matching later js url (jar_put (entry_key ?e) ?e (jar_run lc es)))"
    by (simp add: matching_get jar_get_put host entry_sent_def)
  then show ?thesis unfolding put by (force simp: show_cookie_def)
qed

theorem set_then_sent_witness:
  "''sid=42'' \<in> set (map show_cookie (matching 9 True plain_url
      (set_cookie lower_only 0 0 ''sid=42'' plain_url (jar_run lower_only []))))"
  using set_then_sent [of "''sid''" "''42''" plain_url "''a.b.c''" lower_only "''/x''" "''y''" 9 True 0 0 "[]"]
  by (simp add: plain_url_def no_ws_byte_def ascii_ws_def to_lowercase_def is_ascii_def to_ascii_lowercase_def
      ascii_lower_char_def ascii_upper_def)

lemma fold_retain_get:
  assumes "jar_distinct j"
  shows "jar_get (foldl (\<lambda>j d. jar_retain d P j) j ds) k =
    (case jar_get j k of None \<Rightarrow> None | Some e \<Rightarrow> if fst k \<in> set ds \<and> \<not> P e then None else Some e)"
  using assms
proof (induction ds arbitrary: j)
  case (Cons d ds)
  from Cons.IH [OF jar_distinct_retain [OF Cons.prems]] show ?case
    by (auto simp: jar_get_retain [OF Cons.prems] split: option.splits)
qed (auto split: option.splits)

text \<open>
  Deleting cookies by name removes exactly the entries of that name (and path, when given) of
  every domain, or of the domain given with or without its leading dot, and no other entry.
\<close>

lemma delete_exact:
  "jar_get (delete_cookies_filtered name domain path (jar_run lc es)) k =
     (case jar_get (jar_run lc es) k of
        None \<Rightarrow> None
      | Some e \<Rightarrow>
         (if ce_name e = name \<and> (path = None \<or> path = Some (ce_path e))
             \<and> (domain = [] \<or> fst k \<in> {domain, ''.'' @ trim_start_matches (CHR ''.'') domain, trim_start_matches (CHR ''.'') domain})
          then None else Some e))"
proof -
  have d: "jar_distinct (jar_run lc es)" using jar_run_ok by (simp add: jar_ok_def)
  have doms: "set (domains_to_try domain) =
      {domain, ''.'' @ trim_start_matches (CHR ''.'') domain, trim_start_matches (CHR ''.'') domain}"
    by (simp add: domains_to_try_def)
  show ?thesis
  proof (cases "domain = []")
    case True
    then show ?thesis
      by (auto simp: delete_cookies_filtered_def Let_def jar_get_retain_all [OF d] split: option.splits)
  next
    case False
    then show ?thesis
      by (auto simp: delete_cookies_filtered_def Let_def fold_retain_get [OF d] doms split: option.splits)
  qed
qed

text \<open>Importing is a batch of writes.\<close>

lemma import_writes:
  "set_cookies_from_cdp cs j =
     apply_writes jar_put jar_del (map (\<lambda>c. ((ci_domain c, ci_name c, ci_path c), Some (entry_of c))) cs) j"
  unfolding set_cookies_from_cdp_def by (induction cs arbitrary: j) simp_all

lemma last_write_None: "k \<notin> f ` set xs \<Longrightarrow> last_write (map (\<lambda>x. (f x, Some (g x))) xs) k = None"
  by (induction xs) auto

lemma last_write_Some:
  "inj_on f (set xs) \<Longrightarrow> x \<in> set xs \<Longrightarrow> last_write (map (\<lambda>x. (f x, Some (g x))) xs) (f x) = Some (Some (g x))"
proof (induction xs)
  case (Cons y ys)
  show ?case
  proof (cases "x \<in> set ys")
    case True
    with Cons show ?thesis by simp
  next
    case False
    with Cons.prems have "x = y" "f x \<notin> f ` set ys" by (auto simp: inj_on_def)
    then show ?thesis using last_write_None [of "f x" f ys g] by simp
  qed
qed simp

lemma jar_entries_get:
  assumes "jar_ok j"
  shows "e \<in> set (jar_entries j) \<longleftrightarrow> jar_get j (entry_key e) = Some e"
proof -
  have d: "jar_distinct j" using assms by (simp add: jar_ok_def)
  have key: "d = ce_domain e \<and> np = (ce_name e, ce_path e)" if "(d, m) \<in> set j" "(np, e) \<in> set m" for d m np
    using jar_okD [OF assms, of "(d, np)" e] jar_get_entries [OF d, of d np e] that by (auto simp: entry_key_def)
  have "e \<in> set (jar_entries j) \<longleftrightarrow> (\<exists>d m np. (d, m) \<in> set j \<and> (np, e) \<in> set m)"
    by (force simp: jar_entries_def)
  also have "\<dots> \<longleftrightarrow> (\<exists>m. (ce_domain e, m) \<in> set j \<and> ((ce_name e, ce_path e), e) \<in> set m)"
    using key by blast
  finally show ?thesis
    using jar_get_entries [OF d, of "ce_domain e" "(ce_name e, ce_path e)" e] by (simp add: entry_key_def)
qed

lemma import_export:
  assumes "jar_ok j"
  shows "jar_get (set_cookies_from_cdp (get_all_cookies j) jar_new) k = map_option (\<lambda>e. entry_of (info_of e)) (jar_get j k)"
proof -
  let ?ws = "map (\<lambda>e. (entry_key e, Some (entry_of (info_of e)))) (jar_entries j)"
  have ws: "map (\<lambda>c. ((ci_domain c, ci_name c, ci_path c), Some (entry_of c))) (get_all_cookies j) = ?ws"
    by (simp add: get_all_cookies_def info_of_def entry_key_def)
  have new: "jar_get jar_new k = None" by (cases k) (simp add: jar_get_def jar_new_def)
  have inj: "inj_on entry_key (set (jar_entries j))"
    by (auto simp: inj_on_def jar_entries_get [OF assms])
  show ?thesis
  proof (cases "jar_get j k")
    case None
    have "k \<notin> entry_key ` set (jar_entries j)"
      using None by (auto simp: jar_entries_get [OF assms])
    then show ?thesis using None new
      by (simp add: import_writes ws jar.get_writes last_write_None)
  next
    case (Some e)
    then have "e \<in> set (jar_entries j)" "entry_key e = k"
      using jar_okD [OF assms Some] by (simp_all add: jar_entries_get [OF assms])
    with last_write_Some [OF inj, of e "\<lambda>e. entry_of (info_of e)"] Some show ?thesis
      by (simp add: import_writes ws jar.get_writes)
  qed
qed

lemma entry_of_info:
  "site_ok e \<Longrightarrow> entry_of (info_of e) =
     e\<lparr>ce_host_only := False,
       ce_expires := (case ce_expires e of
          Some x \<Rightarrow> (if 0 < x mod 2 ^ 64 \<and> x mod 2 ^ 64 < 2 ^ 63 then Some (x mod 2 ^ 64) else None)
        | None \<Rightarrow> None)\<rparr>"
proof -
  assume site: "site_ok e"
  have "normalize_same_site ''Strict'' = ''Strict''" "normalize_same_site ''None'' = ''None''"
    "normalize_same_site ''Lax'' = ''Lax''"
    by code_simp+
  with site have same: "normalize_same_site (ce_same_site e) = ce_same_site e" "ce_same_site e \<noteq> []"
    by (auto simp: site_ok_def)
  have pos: "0 < u64_as_i64 x \<longleftrightarrow> 0 < x mod 2 ^ 64 \<and> x mod 2 ^ 64 < 2 ^ 63" for x
  proof -
    have "x mod 2 ^ 64 < 2 ^ 64" by simp
    then have "int (x mod 2 ^ 64) < 2 ^ 64" by (metis of_nat_less_iff of_nat_numeral of_nat_power)
    then show ?thesis by (auto simp: u64_as_i64_def Let_def)
  qed
  moreover have "x mod 2 ^ 64 < 2 ^ 63 \<Longrightarrow> nat (u64_as_i64 x) = x mod 2 ^ 64" for x
    by (simp only: u64_as_i64_def Let_def if_True nat_int)
  ultimately show ?thesis
    by (simp add: entry_of_def info_of_def same split: option.split del: of_nat_mod)
qed

text \<open>
  C29. Exporting all cookies and importing them into an empty jar gives back every entry under its
  key, with its expiry where it fits a positive \<open>i64\<close>, but a host-only cookie comes back as a
  domain cookie.
\<close>

theorem export_import:
  "jar_get (set_cookies_from_cdp (get_all_cookies (jar_run lc es)) jar_new) k =
     map_option (\<lambda>e. e\<lparr>ce_host_only := False,
                       ce_expires := (case ce_expires e of
                          Some x \<Rightarrow> (if 0 < x mod 2 ^ 64 \<and> x mod 2 ^ 64 < 2 ^ 63 then Some (x mod 2 ^ 64) else None)
                        | None \<Rightarrow> None)\<rparr>)
       (jar_get (jar_run lc es) k)"
proof (cases "jar_get (jar_run lc es) k")
  case None
  then show ?thesis by (simp add: import_export [OF jar_run_ok])
next
  case (Some e)
  with jar_okD [OF jar_run_ok Some] show ?thesis
    by (simp only: import_export [OF jar_run_ok] option.map entry_of_info)
qed

section \<open>Dates\<close>

lemma days_before_year_formula:
  "1970 \<le> y \<Longrightarrow>
     days_before_year y + 719162 + (y - 1) div 100 = 365 * (y - 1) + (y - 1) div 4 + (y - 1) div 400"
proof (induction y rule: dec_induct)
  case base
  show ?case by (simp add: days_before_year_def)
next
  case (step y)
  obtain k where k: "y = Suc k" using step(1) by (cases y) auto
  have "days_before_year (Suc y) = days_before_year y + (if leap_year y then 366 else 365)"
    using step(1) by (simp add: days_before_year_def)
  moreover have "leap_year y \<longleftrightarrow> y mod 4 = 0 \<and> (y mod 100 = 0 \<longrightarrow> y mod 400 = 0)" by (auto simp: leap_year_def)
  moreover have "y mod 400 = 0 \<Longrightarrow> y mod 100 = 0" by presburger
  moreover have "y mod 100 = 0 \<Longrightarrow> y mod 4 = 0" by presburger
  ultimately show ?case
    using step(3) k div_Suc [of k 4] div_Suc [of k 100] div_Suc [of k 400]
    by (auto split: if_splits)
qed

definition month_offset :: "nat \<Rightarrow> nat" where
  "month_offset m = [0, 0, 31, 59, 90, 120, 151, 181, 212, 243, 273, 304, 334] ! m"

lemma month_range: "m \<in> {1..12} \<Longrightarrow> m \<in> {1, 2, 3, 4, 5, 6, 7, 8, 9, 10, 11, 12 :: nat}"
  by (simp only: atLeastAtMost_iff insert_iff empty_iff) presburger

lemma days_before_month_offset:
  assumes "m \<in> {1..12}"
  shows "days_before_month y m = month_offset m + (if 2 < m \<and> leap_year y then 1 else 0)"
proof -
  have "m \<in> {1, 2, 3, 4, 5, 6, 7, 8, 9, 10, 11, 12}" by (rule month_range [OF assms])
  then show ?thesis
    by (elim insertE emptyE) (simp_all add: days_before_month_def month_offset_def upt_rec)
qed

text \<open>
  The day count of a date is that of the proleptic Gregorian calendar, and the arithmetic does
  not wrap around for any year up to 9999.
\<close>

lemma http_date_civil:
  assumes "1970 \<le> year" and "year \<le> 9999" and "month \<in> {1..12}" and "1 \<le> day" and "day \<le> 31"
    and "hour < 24" and "minute < 60" and "second \<le> 60"
  shows "date_seconds year month day hour minute second + 86400 * (719162 + (year - 1) div 100)
     = 86400 * (365 * (year - 1) + (year - 1) div 4 + (year - 1) div 400
         + month_offset month + (if 2 < month \<and> leap_year year then 1 else 0) + (day - 1))
       + 3600 * hour + 60 * minute + second"
proof -
  let ?days = "days_before_year year + days_before_month year month + (day - 1)"
  have "month_offset month \<le> 334"
  proof -
    have "month \<in> {1, 2, 3, 4, 5, 6, 7, 8, 9, 10, 11, 12}" by (rule month_range [OF assms(3)])
    then show ?thesis by (elim insertE emptyE) (simp_all add: month_offset_def)
  qed
  then have month: "days_before_month year month \<le> 335" by (simp add: days_before_month_offset [OF assms(3)])
  have "(year - 1) div 4 \<le> 2500" "(year - 1) div 400 \<le> 25" using assms(2) by simp_all
  then have year: "days_before_year year \<le> 4000000"
    using days_before_year_formula [OF assms(1)] assms(2) by linarith
  have dayw: "(day + (2 ^ 64 - 1)) mod 2 ^ 64 = day - 1"
  proof -
    have "day + (2 ^ 64 - 1) = (day - 1) + 2 ^ 64" using assms(4) by simp
    then have "(day + (2 ^ 64 - 1)) mod 2 ^ 64 = (day - 1) mod 2 ^ 64" by (simp only: mod_add_self2)
    also have "\<dots> = day - 1" using assms(5) by (intro mod_less) simp
    finally show ?thesis .
  qed
  have "?days * 86400 + hour * 3600 + minute * 60 + second < 2 ^ 64"
  proof -
    have "?days \<le> 4000365" using month year assms(5) by linarith
    then have "?days * 86400 \<le> 4000365 * 86400" by (rule mult_le_mono1)
    with assms(6-8) have "?days * 86400 + hour * 3600 + minute * 60 + second \<le> 4000365 * 86400 + 24 * 3600 + 60 * 60 + 60"
      by linarith
    then show ?thesis by simp
  qed
  then have "date_seconds year month day hour minute second = ?days * 86400 + hour * 3600 + minute * 60 + second"
    unfolding date_seconds_def Let_def dayw by (rule mod_less)
  with days_before_year_formula [OF assms(1)] show ?thesis
    by (simp add: days_before_month_offset [OF assms(3)])
qed

lemma http_date_civil_witness:
  "parse_http_date lower_only ''Wed, 21 Oct 2015 07:28:00 GMT'' = Some 1445412480"
proof -
  have "parse_http_date lower_only ''Wed, 21 Oct 2015 07:28:00 GMT'' = Some (date_seconds 2015 10 21 7 28 0)"
  proof -
    have "split_whitespace (map (\<lambda>c. if c = CHR ''-'' then CHR '' '' else c) ''Wed, 21 Oct 2015 07:28:00 GMT'')
       = [''Wed,'', ''21'', ''Oct'', ''2015'', ''07:28:00'', ''GMT'']" by code_simp
    moreover have "parse_u64 ''21'' = Some 21" "parse_u64 ''2015'' = Some 2015"
      by (simp_all add: parse_u64_def parse_unsigned_def digits_val_def digit_val_def ascii_digit_def)
    moreover have "position (\<lambda>m. starts_with (to_lowercase lower_only ''Oct'') m) months = Some 9" by code_simp
    moreover have "map (time_field (split_char (CHR '':'') ''07:28:00'')) [0, 1, 2] = [7, 28, 0]"
      by (simp add: time_field_def parse_u64_def parse_unsigned_def digits_val_def digit_val_def ascii_digit_def)
    ultimately show ?thesis by (simp add: parse_http_date_def Let_def)
  qed
  moreover have "date_seconds 2015 10 21 7 28 0 = 1445412480"
    using http_date_civil [of 2015 10 21 7 28 0] by (simp add: month_offset_def leap_year_def)
  ultimately show ?thesis by simp
qed

end
