(* ===== verification/CookieParams.thy ===== *)
theory CookieParams
  imports CookieJar Engine
begin

text \<open>
  \<open>crates/obscura-cdp/src/cookie_params.rs\<close>: the cookie parameters of the CDP commands. The parser
  of the crate \<open>url\<close> is the parameter \<open>parse_url\<close>: the host, when there is one, and the path of a
  text that is a URL. \<open>rnd\<close> rounds an integer to the nearest \<open>f64\<close>.
\<close>

type_synonym url_parser = "string \<Rightarrow> (string option \<times> string) option"

definition DEFAULT_COOKIE_PATH :: string where "DEFAULT_COOKIE_PATH = ''/''"

fun as_bool :: "json \<Rightarrow> bool option" where
  "as_bool (JBool b) = Some b"
| "as_bool _ = None"

fun as_f64 :: "(int \<Rightarrow> f64) \<Rightarrow> json \<Rightarrow> f64 option" where
  "as_f64 rnd (JInt i) = Some (rnd i)"
| "as_f64 rnd (JFloat f) = Some f"
| "as_f64 rnd _ = None"

text \<open>\<open>f as i64\<close>: towards zero, saturating, and 0 for NaN.\<close>

fun f64_as_i64 :: "f64 \<Rightarrow> int" where
  "f64_as_i64 (Finite q) =
     (let t = (if 0 \<le> q then floor q else - floor (- q)) in max (- (2 ^ 63)) (min (2 ^ 63 - 1) t))"
| "f64_as_i64 PosInf = 2 ^ 63 - 1"
| "f64_as_i64 NegInf = - (2 ^ 63)"
| "f64_as_i64 NaN = 0"

definition str_field :: "json \<Rightarrow> string \<Rightarrow> string option" where
  "str_field v key = Option.bind (json_get v key) as_str"

definition or_else :: "'a option \<Rightarrow> 'a option \<Rightarrow> 'a option" where
  "or_else a b = (case a of Some x \<Rightarrow> Some x | None \<Rightarrow> b)"

definition unwrap_or :: "'a option \<Rightarrow> 'a \<Rightarrow> 'a" where
  "unwrap_or a d = (case a of Some x \<Rightarrow> x | None \<Rightarrow> d)"

definition parse_cdp_cookie :: "(int \<Rightarrow> f64) \<Rightarrow> url_parser \<Rightarrow> json \<Rightarrow> cookie_info option" where
  "parse_cdp_cookie rnd parse_url v =
     (case str_field v ''name'' of
        None \<Rightarrow> None
      | Some name \<Rightarrow>
         (let val = unwrap_or (str_field v ''value'') [];
              url = Option.bind (str_field v ''url'') parse_url;
              domain = unwrap_or (or_else (str_field v ''domain'') (Option.bind url fst)) []
          in if domain = [] then None
             else Some
               \<lparr>ci_name = name, ci_value = val, ci_domain = domain,
                ci_path = unwrap_or (or_else (str_field v ''path'')
                            (map_option (\<lambda>u. default_cookie_path (snd u)) url)) DEFAULT_COOKIE_PATH,
                ci_secure = unwrap_or (Option.bind (json_get v ''secure'') as_bool) False,
                ci_http_only = unwrap_or (Option.bind (json_get v ''httpOnly'') as_bool) False,
                ci_same_site = unwrap_or (str_field v ''sameSite'') [],
                ci_expires = map_option f64_as_i64 (Option.bind (json_get v ''expires'') (as_f64 rnd))\<rparr>))"

record delete_filter =
  df_name :: string
  df_domain :: string
  df_path :: "string option"

definition parse_delete_cookies_params :: "url_parser \<Rightarrow> json \<Rightarrow> delete_filter option" where
  "parse_delete_cookies_params parse_url v =
     (case str_field v ''name'' of
        None \<Rightarrow> None
      | Some name \<Rightarrow>
         (if name = [] then None
          else
            (let url = Option.bind (str_field v ''url'') parse_url in
             Some \<lparr>df_name = name,
                   df_domain = unwrap_or (or_else (str_field v ''domain'') (Option.bind url fst)) [],
                   df_path = or_else (str_field v ''path'') (map_option snd url)\<rparr>)))"

section \<open>Round trip\<close>

text \<open>The JSON object that serde writes for a \<open>CookieInfo\<close>, with the keys in order.\<close>

definition info_json :: "cookie_info \<Rightarrow> json" where
  "info_json c = JObj
     [(''domain'', JStr (ci_domain c)),
      (''expires'', (case ci_expires c of Some e \<Rightarrow> JInt e | None \<Rightarrow> JNull)),
      (''httpOnly'', JBool (ci_http_only c)), (''name'', JStr (ci_name c)), (''path'', JStr (ci_path c)),
      (''sameSite'', JStr (ci_same_site c)), (''secure'', JBool (ci_secure c)), (''value'', JStr (ci_value c))]"

lemma f64_as_i64_int: "\<bar>i\<bar> \<le> 2 ^ 53 \<Longrightarrow> f64_as_i64 (Finite (of_int i)) = i"
  by (simp add: Let_def abs_le_iff)

text \<open>
  The object that represents a cookie is read back as that cookie, when it has a domain and its
  expiry is exact as a double.
\<close>

lemma cookie_object_roundtrip:
  assumes "ci_domain c \<noteq> []" and "\<And>i. \<bar>i\<bar> \<le> 2 ^ 53 \<Longrightarrow> rnd i = Finite (of_int i)"
    and "\<And>e. ci_expires c = Some e \<Longrightarrow> \<bar>e\<bar> \<le> 2 ^ 53"
  shows "parse_cdp_cookie rnd parse_url (info_json c) = Some c"
proof -
  have "map_option f64_as_i64 (Option.bind (Some (case ci_expires c of Some e \<Rightarrow> JInt e | None \<Rightarrow> JNull)) (as_f64 rnd)) = ci_expires c"
    using assms(2,3) by (cases "ci_expires c") (simp_all add: f64_as_i64_int del: f64_as_i64.simps)
  with assms(1) show ?thesis
    by (simp add: parse_cdp_cookie_def info_json_def str_field_def json_get_def bm_get_def unwrap_or_def or_else_def
        del: f64_as_i64.simps)
qed

definition demo_cookie :: cookie_info where
  "demo_cookie = \<lparr>ci_name = ''sid'', ci_value = ''42'', ci_domain = ''example.com'', ci_path = ''/'', ci_secure = True,
     ci_http_only = False, ci_same_site = ''Lax'', ci_expires = Some 1700000000\<rparr>"

lemma cookie_object_roundtrip_witness:
  "parse_cdp_cookie (\<lambda>i. Finite (of_int i)) (\<lambda>_. None) (info_json demo_cookie) = Some demo_cookie"
  by (rule cookie_object_roundtrip) (simp_all add: demo_cookie_def)

end
