(* ===== verification/Robots.thy ===== *)
theory Robots
  imports RustStr "HOL-Library.Mapping"
begin

text \<open>
  \<open>crates/obscura-net/src/robots.rs\<close>: the rules of a robots.txt file and the cache of them per
  domain. The HashMap is a mapping; the lock is not modelled. The file is read in up to two
  passes over its lines, each a fold over the state below.
\<close>

record robots_rules =
  rr_disallowed :: "string list"
  rr_allowed :: "string list"

type_synonym robots_cache = "(string, robots_rules) mapping"

definition robots_new :: robots_cache where
  "robots_new = Mapping.empty"

definition robots_path_matches :: "string \<Rightarrow> string \<Rightarrow> bool" where
  "robots_path_matches path pattern =
     (if ends_with pattern ''*'' then starts_with path (take (length pattern - 1) pattern)
      else if ends_with pattern ''$'' then path = take (length pattern - 1) pattern
      else starts_with path pattern)"

definition is_allowed :: "robots_cache \<Rightarrow> string \<Rightarrow> string \<Rightarrow> bool" where
  "is_allowed cache domain path =
     (case Mapping.lookup cache domain of
        None \<Rightarrow> True
      | Some rules \<Rightarrow>
         (if list_ex (robots_path_matches path) (rr_allowed rules) then True
          else if list_ex (robots_path_matches path) (rr_disallowed rules) then False
          else True))"

section \<open>Parsing\<close>

record robots_state =
  rs_disallowed :: "string list"
  rs_allowed :: "string list"
  rs_in_section :: bool
  rs_found :: bool

text \<open>A line as a key and a value, when it is not blank, a comment or malformed.\<close>

definition robots_line :: "unicode_case \<Rightarrow> string \<Rightarrow> (string \<times> string) option" where
  "robots_line lc raw =
     (let line = trim raw in
      if line = [] \<or> starts_with line ''#'' then None
      else map_option (\<lambda>(key, val). (to_lowercase lc (trim key), trim val)) (split_once (CHR '':'') line))"

text \<open>The arms for \<open>disallow\<close> and \<open>allow\<close>, the same in both passes.\<close>

definition rule_line :: "string \<Rightarrow> string \<Rightarrow> robots_state \<Rightarrow> robots_state" where
  "rule_line key val s =
     (if key = ''disallow'' \<and> rs_in_section s \<and> val \<noteq> [] then s\<lparr>rs_disallowed := rs_disallowed s @ [val]\<rparr>
      else if key = ''allow'' \<and> rs_in_section s \<and> val \<noteq> [] then s\<lparr>rs_allowed := rs_allowed s @ [val]\<rparr>
      else s)"

definition first_pass :: "unicode_case \<Rightarrow> string \<Rightarrow> robots_state \<Rightarrow> string \<Rightarrow> robots_state" where
  "first_pass lc ours s raw =
     (case robots_line lc raw of
        None \<Rightarrow> s
      | Some (key, val) \<Rightarrow>
         (if key = ''user-agent'' then
            (let agent = to_lowercase lc val;
                 here = (agent = ''*'' \<or> str_contains ours agent \<or> str_contains agent ours)
             in s\<lparr>rs_in_section := here, rs_found := rs_found s \<or> agent \<noteq> ''*'' \<and> here\<rparr>)
          else rule_line key val s))"

definition second_pass :: "unicode_case \<Rightarrow> robots_state \<Rightarrow> string \<Rightarrow> robots_state" where
  "second_pass lc s raw =
     (case robots_line lc raw of
        None \<Rightarrow> s
      | Some (key, val) \<Rightarrow>
         (if key = ''user-agent'' then s\<lparr>rs_in_section := (trim val = ''*'')\<rparr>
          else rule_line key val s))"

definition robots_start :: robots_state where
  "robots_start = \<lparr>rs_disallowed = [], rs_allowed = [], rs_in_section = False, rs_found = False\<rparr>"

definition rules_of :: "robots_state \<Rightarrow> robots_rules" where
  "rules_of s = \<lparr>rr_disallowed = rs_disallowed s, rr_allowed = rs_allowed s\<rparr>"

definition parse_robots_txt :: "unicode_case \<Rightarrow> string \<Rightarrow> string \<Rightarrow> robots_rules" where
  "parse_robots_txt lc body our_agent =
     (let s = foldl (first_pass lc (to_lowercase lc our_agent)) robots_start (lines body) in
      if rs_found s then rules_of s
      else rules_of (foldl (second_pass lc)
             (s\<lparr>rs_disallowed := [], rs_allowed := [], rs_in_section := False\<rparr>) (lines body)))"

definition parse_and_store :: "unicode_case \<Rightarrow> robots_cache \<Rightarrow> string \<Rightarrow> string \<Rightarrow> string \<Rightarrow> robots_cache" where
  "parse_and_store lc cache domain body our_agent =
     Mapping.update domain (parse_robots_txt lc body our_agent) cache"

section \<open>Properties\<close>

text \<open>The agent a line names, when it is a \<open>user-agent\<close> line, and the rule it gives.\<close>

definition agent_of :: "unicode_case \<Rightarrow> string \<Rightarrow> string option" where
  "agent_of lc raw =
     (case robots_line lc raw of Some (key, val) \<Rightarrow> if key = ''user-agent'' then Some (to_lowercase lc val) else None
      | None \<Rightarrow> None)"

definition rule_of :: "unicode_case \<Rightarrow> string \<Rightarrow> string \<Rightarrow> string list" where
  "rule_of lc kind raw =
     (case robots_line lc raw of Some (key, val) \<Rightarrow> if key = kind \<and> val \<noteq> [] then [val] else [] | None \<Rightarrow> [])"

definition agent_matches :: "string \<Rightarrow> string \<Rightarrow> bool" where
  "agent_matches ours agent \<longleftrightarrow> agent = ''*'' \<or> str_contains ours agent \<or> str_contains agent ours"

text \<open>The reference: the rules of one kind on the lines whose nearest \<open>user-agent\<close> line before them
  satisfies \<open>P\<close>; \<open>inside\<close> says so of the lines before the first one.\<close>

fun section_rules :: "unicode_case \<Rightarrow> (string \<Rightarrow> bool) \<Rightarrow> string \<Rightarrow> bool \<Rightarrow> string list \<Rightarrow> string list" where
  "section_rules lc P kind inside [] = []"
| "section_rules lc P kind inside (l # ls) =
     (case agent_of lc l of
        Some a \<Rightarrow> section_rules lc P kind (P a) ls
      | None \<Rightarrow> (if inside then rule_of lc kind l else []) @ section_rules lc P kind inside ls)"

lemma first_pass_fold:
  "rs_disallowed (foldl (first_pass lc ours) s ls)
     = rs_disallowed s @ section_rules lc (agent_matches ours) ''disallow'' (rs_in_section s) ls
   \<and> rs_allowed (foldl (first_pass lc ours) s ls)
     = rs_allowed s @ section_rules lc (agent_matches ours) ''allow'' (rs_in_section s) ls
   \<and> (rs_found (foldl (first_pass lc ours) s ls) \<longleftrightarrow>
        rs_found s \<or> (\<exists>l \<in> set ls. \<exists>a. agent_of lc l = Some a \<and> a \<noteq> ''*'' \<and> agent_matches ours a))"
proof (induction ls arbitrary: s)
  case (Cons l ls)
  show ?case
  proof (cases "robots_line lc l")
    case None
    with Cons [of s] show ?thesis by (simp add: first_pass_def agent_of_def rule_of_def)
  next
    case (Some kv)
    obtain key val where kv: "kv = (key, val)" by (cases kv)
    with Some Cons [of "first_pass lc ours s l"] show ?thesis
      by (auto simp: first_pass_def agent_of_def rule_of_def rule_line_def agent_matches_def Let_def)
  qed
qed simp

lemma second_pass_fold:
  assumes "\<And>l key val. robots_line lc l = Some (key, val) \<Longrightarrow> trim val = ''*'' \<longleftrightarrow> to_lowercase lc val = ''*''"
  shows "rs_disallowed (foldl (second_pass lc) s ls)
     = rs_disallowed s @ section_rules lc (\<lambda>a. a = ''*'') ''disallow'' (rs_in_section s) ls
   \<and> rs_allowed (foldl (second_pass lc) s ls)
     = rs_allowed s @ section_rules lc (\<lambda>a. a = ''*'') ''allow'' (rs_in_section s) ls"
proof (induction ls arbitrary: s)
  case (Cons l ls)
  show ?case
  proof (cases "robots_line lc l")
    case None
    with Cons [of s] show ?thesis by (simp add: second_pass_def agent_of_def rule_of_def)
  next
    case (Some kv)
    obtain key val where kv: "kv = (key, val)" by (cases kv)
    with Some Cons [of "second_pass lc s l"] assms [of l key val] show ?thesis
      by (auto simp: second_pass_def agent_of_def rule_of_def rule_line_def)
  qed
qed simp

text \<open>
  C35. The rules read from a robots.txt file are, in order, those on the lines whose nearest
  user-agent line above is a star, contains the crawler's name or is contained in it, so the
  second pass over the file changes nothing; a path is allowed when some allow rule matches it or
  no disallow rule does.
\<close>

theorem robots_rules_spec:
  assumes "\<And>s. \<not> is_ascii s \<Longrightarrow> lc s \<noteq> ''*''"
  shows "rr_disallowed (parse_robots_txt lc body agent)
      = section_rules lc (agent_matches (to_lowercase lc agent)) ''disallow'' False (lines body)
    \<and> rr_allowed (parse_robots_txt lc body agent)
      = section_rules lc (agent_matches (to_lowercase lc agent)) ''allow'' False (lines body)
    \<and> (is_allowed (parse_and_store lc cache domain body agent) domain path \<longleftrightarrow>
        list_ex (robots_path_matches path) (section_rules lc (agent_matches (to_lowercase lc agent)) ''allow'' False (lines body))
        \<or> \<not> list_ex (robots_path_matches path)
             (section_rules lc (agent_matches (to_lowercase lc agent)) ''disallow'' False (lines body)))"
proof -
  let ?ours = "to_lowercase lc agent" and ?P = "agent_matches (to_lowercase lc agent)"
  have star: "trim val = ''*'' \<longleftrightarrow> to_lowercase lc val = ''*''" if "robots_line lc l = Some (key, val)" for l key val
  proof -
    have "trim val = val" using that by (auto simp: robots_line_def Let_def trim_idem split: if_splits)
    moreover have "to_ascii_lowercase val = ''*'' \<longleftrightarrow> val = ''*''"
      using ascii_lower_char_eq_fix [of "CHR ''*''"]
      by (cases val) (auto simp: to_ascii_lowercase_def ascii_upper_def)
    moreover have "is_ascii ''*''" by (simp add: is_ascii_def)
    ultimately show ?thesis using assms [of val] by (auto simp: to_lowercase_def)
  qed
  have agree: "section_rules lc ?P kind i ls = section_rules lc (\<lambda>a. a = ''*'') kind i ls"
    if "\<not> (\<exists>l \<in> set ls. \<exists>a. agent_of lc l = Some a \<and> a \<noteq> ''*'' \<and> ?P a)" for kind i ls
    using that by (induction ls arbitrary: i) (auto simp: agent_matches_def split: option.splits)
  have lists: "rr_disallowed (parse_robots_txt lc body agent) = section_rules lc ?P ''disallow'' False (lines body)
    \<and> rr_allowed (parse_robots_txt lc body agent) = section_rules lc ?P ''allow'' False (lines body)"
  proof (cases "rs_found (foldl (first_pass lc ?ours) robots_start (lines body))")
    case True
    then show ?thesis
      using first_pass_fold [of lc ?ours robots_start "lines body"]
      by (simp add: parse_robots_txt_def rules_of_def robots_start_def)
  next
    case False
    then have "\<not> (\<exists>l \<in> set (lines body). \<exists>a. agent_of lc l = Some a \<and> a \<noteq> ''*'' \<and> ?P a)"
      using first_pass_fold [of lc ?ours robots_start "lines body"] by blast
    note agree [OF this]
    with False second_pass_fold [OF star] show ?thesis
      by (simp add: parse_robots_txt_def rules_of_def Let_def)
  qed
  then show ?thesis by (simp add: is_allowed_def parse_and_store_def)
qed

definition demo_robots :: string where
  "demo_robots = ''User-agent: *'' @ [CHR 0x0A] @ ''Disallow: /a'' @ [CHR 0x0A] @ ''User-agent: bot'' @ [CHR 0x0A]
     @ ''Allow: /a/b'' @ [CHR 0x0A]"

theorem robots_rules_spec_witness:
  "is_allowed (parse_and_store (\<lambda>s. s) Mapping.empty ''d'' demo_robots ''Bot'') ''d'' ''/a/bc''
   \<and> \<not> is_allowed (parse_and_store (\<lambda>s. s) Mapping.empty ''d'' demo_robots ''Bot'') ''d'' ''/a/c''"
proof -
  have ascii: "\<not> is_ascii s \<Longrightarrow> s \<noteq> ''*''" for s by (auto simp: is_ascii_def)
  have lines: "map (robots_line (\<lambda>s. s)) (lines demo_robots)
      = [Some (''user-agent'', ''*''), Some (''disallow'', ''/a''), Some (''user-agent'', ''bot''), Some (''allow'', ''/a/b'')]"
    by code_simp
  have rules: "section_rules (\<lambda>s. s) (agent_matches (to_lowercase (\<lambda>s. s) ''Bot'')) ''allow'' False (lines demo_robots) = [''/a/b'']"
    "section_rules (\<lambda>s. s) (agent_matches (to_lowercase (\<lambda>s. s) ''Bot'')) ''disallow'' False (lines demo_robots) = [''/a'']"
    by code_simp+
  show ?thesis
    using robots_rules_spec [of "\<lambda>s. s", OF ascii, of demo_robots "''Bot''" Mapping.empty "''d''" "''/a/bc''"]
      robots_rules_spec [of "\<lambda>s. s", OF ascii, of demo_robots "''Bot''" Mapping.empty "''d''" "''/a/c''"]
    by (simp add: rules robots_path_matches_def ends_with_def starts_with_def suffix_to_prefix)
qed

end
