(* ===== verification/Blocklist.thy ===== *)
theory Blocklist
  imports RustStr
begin

text \<open>
  \<open>crates/obscura-net/src/blocklist.rs\<close>: the tracker blocklist. The text of the list, a data
  file of the crate, and the extra domains are arguments; the HashSet is a set.
\<close>

definition blocklist :: "string \<Rightarrow> string list \<Rightarrow> string set" where
  "blocklist pgl_list extra_domains =
     set (filter (\<lambda>d. d \<noteq> [] \<and> \<not> starts_with d ''#'') (map trim (lines pgl_list))) \<union> set extra_domains"

text \<open>The loop over the parent domains: the part after the next dot.\<close>

function parent_blocked :: "string set \<Rightarrow> string \<Rightarrow> bool" where
  "parent_blocked bl domain =
     (case str_find (CHR ''.'') domain of
        None \<Rightarrow> False
      | Some pos \<Rightarrow>
         (let rest = drop (pos + 1) domain in
          if rest \<in> bl then True else parent_blocked bl rest))"
  by pat_completeness auto
termination
  by (relation "measure (\<lambda>(_, d). length d)") (auto dest: str_find_Some)

declare parent_blocked.simps [simp del]

definition is_blocked :: "string set \<Rightarrow> string \<Rightarrow> bool" where
  "is_blocked bl host = (if host \<in> bl then True else parent_blocked bl host)"

lemma first_dot_split:
  assumes "host = t @ [c] @ r" and "c \<notin> set t"
  shows "(\<exists>p s. host = p @ [c] @ s \<and> s \<in> bl) \<longleftrightarrow> r \<in> bl \<or> (\<exists>p s. r = p @ [c] @ s \<and> s \<in> bl)"
proof
  assume "\<exists>p s. host = p @ [c] @ s \<and> s \<in> bl"
  then obtain p s where "t @ c # r = p @ c # s" "s \<in> bl" using assms(1) by auto
  with assms(2) show "r \<in> bl \<or> (\<exists>p s. r = p @ [c] @ s \<and> s \<in> bl)"
    by (auto simp: append_eq_append_conv2 append_eq_Cons_conv Cons_eq_append_conv)
next
  assume "r \<in> bl \<or> (\<exists>p s. r = p @ [c] @ s \<and> s \<in> bl)"
  then show "\<exists>p s. host = p @ [c] @ s \<and> s \<in> bl"
  proof
    assume "\<exists>p s. r = p @ [c] @ s \<and> s \<in> bl"
    then obtain p s where "r = p @ [c] @ s" "s \<in> bl" by blast
    with assms(1) have "host = (t @ [c] @ p) @ [c] @ s" by simp
    with \<open>s \<in> bl\<close> show ?thesis by blast
  qed (use assms(1) in blast)
qed

lemma parent_blocked_iff: "parent_blocked bl host \<longleftrightarrow> (\<exists>p s. host = p @ ''.'' @ s \<and> s \<in> bl)"
proof (induction bl host rule: parent_blocked.induct)
  case (1 bl host)
  show ?case
  proof (cases "str_find (CHR ''.'') host")
    case None
    then have "CHR ''.'' \<notin> set host" by (simp add: str_find_None)
    with None show ?thesis by (subst parent_blocked.simps) auto
  next
    case (Some pos)
    let ?rest = "drop (pos + 1) host"
    note f = str_find_Some [OF Some]
    have host: "host = take pos host @ ''.'' @ ?rest"
      using f id_take_nth_drop [of pos host] by simp
    have "(\<exists>p s. host = p @ ''.'' @ s \<and> s \<in> bl) \<longleftrightarrow> ?rest \<in> bl \<or> (\<exists>p s. ?rest = p @ ''.'' @ s \<and> s \<in> bl)"
      using f by (intro first_dot_split [OF host]) blast
    with Some 1 show ?thesis by (subst parent_blocked.simps) (simp add: Let_def)
  qed
qed

text \<open>
  A host is blocked exactly when it or one of its parent domains, cut at a dot, is a non-comment
  line of the list or an extra domain.
\<close>

lemma is_blocked_iff:
  "is_blocked (blocklist pgl_list extra_domains) host \<longleftrightarrow>
     (\<exists>d. (host = d \<or> (\<exists>p. host = p @ ''.'' @ d))
        \<and> (d \<in> set extra_domains \<or> (d \<noteq> [] \<and> \<not> starts_with d ''#'' \<and> (\<exists>l \<in> set (lines pgl_list). trim l = d))))"
  unfolding is_blocked_def parent_blocked_iff by (auto simp: blocklist_def)

end
