(* ===== verification/DomNode.thy ===== *)
theory DomNode
  imports BTree RustStr
begin

text \<open>
  \<open>crates/obscura-dom/src/tree.rs\<close>, the data of a node: qualified names, attributes and the node record
  with its links. The atoms of \<open>html5ever\<close> (prefix, namespace, local name) are strings. A node identity is
  the number of its arena slot.
\<close>

type_synonym node_id = nat

record qual_name =
  qn_prefix :: "string option"
  qn_ns :: string
  qn_local :: string

record attribute =
  at_name :: qual_name
  at_value :: string

datatype node_data =
  Document
| Doctype string string string
| Element qual_name "attribute list" "node_id option" bool
| Text string
| Comment string
| ProcessingInstruction string string

record node =
  nd_id :: node_id
  nd_connected :: bool
  nd_parent :: "node_id option"
  nd_first_child :: "node_id option"
  nd_last_child :: "node_id option"
  nd_prev_sibling :: "node_id option"
  nd_next_sibling :: "node_id option"
  nd_data :: node_data

section \<open>Qualified names\<close>

definition qualified_name :: "attribute \<Rightarrow> string" where
  "qualified_name a =
     (case qn_prefix (at_name a) of
        Some pre \<Rightarrow> pre @ '':'' @ qn_local (at_name a)
      | None \<Rightarrow> qn_local (at_name a))"

text \<open>The comparison without building the name.\<close>

definition qualified_name_eq :: "attribute \<Rightarrow> string \<Rightarrow> bool" where
  "qualified_name_eq a name =
     (case qn_prefix (at_name a) of
        Some pre \<Rightarrow>
          length name = length pre + length (qn_local (at_name a)) + 1
          \<and> starts_with name pre
          \<and> (length pre < length name \<and> name ! length pre = CHR '':'')
          \<and> drop (length pre + 1) name = qn_local (at_name a)
      | None \<Rightarrow> qn_local (at_name a) = name)"

lemma qualified_name_eq_iff: "qualified_name_eq a name \<longleftrightarrow> name = qualified_name a"
proof (cases "qn_prefix (at_name a)")
  case None
  then show ?thesis by (auto simp: qualified_name_eq_def qualified_name_def)
next
  case (Some p)
  have "name = p @ '':'' @ l" if "starts_with name p" "length p < length name" "name ! length p = CHR '':''"
    "drop (length p + 1) name = l" for l
  proof -
    from that(1) obtain r where r: "name = p @ r" by (auto simp: starts_with_def prefix_def)
    from r that(2) obtain c r' where "r = c # r'" by (cases r) auto
    with r that(3,4) show ?thesis by simp
  qed
  then show ?thesis by (auto simp: qualified_name_eq_def qualified_name_def Some starts_with_def)
qed

section \<open>Queries of a node\<close>

definition is_document :: "node \<Rightarrow> bool" where
  "is_document nd = (case nd_data nd of Document \<Rightarrow> True | _ \<Rightarrow> False)"

definition is_element :: "node \<Rightarrow> bool" where
  "is_element nd = (case nd_data nd of Element _ _ _ _ \<Rightarrow> True | _ \<Rightarrow> False)"

definition is_text :: "node \<Rightarrow> bool" where
  "is_text nd = (case nd_data nd of Text _ \<Rightarrow> True | _ \<Rightarrow> False)"

definition as_element :: "node \<Rightarrow> qual_name option" where
  "as_element nd = (case nd_data nd of Element name _ _ _ \<Rightarrow> Some name | _ \<Rightarrow> None)"

definition attrs_of :: "node \<Rightarrow> attribute list option" where
  "attrs_of nd = (case nd_data nd of Element _ attrs _ _ \<Rightarrow> Some attrs | _ \<Rightarrow> None)"

definition set_attrs :: "(attribute list \<Rightarrow> attribute list) \<Rightarrow> node \<Rightarrow> node" where
  "set_attrs f nd =
     (case nd_data nd of
        Element name attrs contents flag \<Rightarrow> nd\<lparr>nd_data := Element name (f attrs) contents flag\<rparr>
      | _ \<Rightarrow> nd)"

definition template_field :: "node \<Rightarrow> node_id option" where
  "template_field nd = (case nd_data nd of Element _ _ contents _ \<Rightarrow> contents | _ \<Rightarrow> None)"

definition set_template_field :: "node_id \<Rightarrow> node \<Rightarrow> node" where
  "set_template_field i nd =
     (case nd_data nd of
        Element name attrs _ flag \<Rightarrow> nd\<lparr>nd_data := Element name attrs (Some i) flag\<rparr>
      | _ \<Rightarrow> nd)"

definition text_content_of_text_node :: "node \<Rightarrow> string option" where
  "text_content_of_text_node nd = (case nd_data nd of Text contents \<Rightarrow> Some contents | _ \<Rightarrow> None)"

section \<open>Attributes\<close>

definition get_attribute :: "node \<Rightarrow> string \<Rightarrow> string option" where
  "get_attribute nd name =
     Option.bind (attrs_of nd) (\<lambda>attrs. map_option at_value (find (\<lambda>a. qualified_name_eq a name) attrs))"

text \<open>Changing the first attribute that a test accepts, or pushing a new one.\<close>

fun update_first :: "(attribute \<Rightarrow> bool) \<Rightarrow> (attribute \<Rightarrow> attribute) \<Rightarrow> attribute \<Rightarrow> attribute list \<Rightarrow> attribute list" where
  "update_first p f new [] = [new]"
| "update_first p f new (a # as) = (if p a then f a # as else a # update_first p f new as)"

definition set_attribute :: "string \<Rightarrow> string \<Rightarrow> node \<Rightarrow> node" where
  "set_attribute name v =
     set_attrs (update_first (\<lambda>a. qualified_name_eq a name) (\<lambda>a. a\<lparr>at_value := v\<rparr>)
       \<lparr>at_name = \<lparr>qn_prefix = None, qn_ns = [], qn_local = name\<rparr>, at_value = v\<rparr>)"

definition ns_match :: "string \<Rightarrow> string \<Rightarrow> attribute \<Rightarrow> bool" where
  "ns_match ns local a \<longleftrightarrow> qn_ns (at_name a) = ns \<and> qn_local (at_name a) = local"

definition get_attribute_ns :: "node \<Rightarrow> string \<Rightarrow> string \<Rightarrow> string option" where
  "get_attribute_ns nd ns local =
     Option.bind (attrs_of nd) (\<lambda>attrs. map_option at_value (find (ns_match ns local) attrs))"

definition set_attribute_ns :: "string \<Rightarrow> string \<Rightarrow> string \<Rightarrow> node \<Rightarrow> node" where
  "set_attribute_ns ns qualified v nd =
     (case (case split_once (CHR '':'') qualified of
              Some (pre, loc) \<Rightarrow> (Some pre, loc) | None \<Rightarrow> (None, qualified)) of
        (pre, loc) \<Rightarrow>
          set_attrs (update_first (ns_match ns loc)
            (\<lambda>a. a\<lparr>at_name := (at_name a)\<lparr>qn_prefix := pre\<rparr>, at_value := v\<rparr>)
            \<lparr>at_name = \<lparr>qn_prefix = pre, qn_ns = ns, qn_local = loc\<rparr>, at_value = v\<rparr>) nd)"

definition remove_attribute_ns :: "string \<Rightarrow> string \<Rightarrow> node \<Rightarrow> node" where
  "remove_attribute_ns ns local = set_attrs (filter (\<lambda>a. \<not> ns_match ns local a))"

lemma attrs_of_set: "attrs_of (set_attrs f nd) = map_option f (attrs_of nd)"
  by (cases "nd_data nd") (simp_all add: attrs_of_def set_attrs_def)

lemma set_attrs_links [simp]:
  "nd_id (set_attrs f nd) = nd_id nd" "nd_connected (set_attrs f nd) = nd_connected nd"
  "nd_parent (set_attrs f nd) = nd_parent nd" "nd_first_child (set_attrs f nd) = nd_first_child nd"
  "nd_last_child (set_attrs f nd) = nd_last_child nd" "nd_prev_sibling (set_attrs f nd) = nd_prev_sibling nd"
  "nd_next_sibling (set_attrs f nd) = nd_next_sibling nd"
  by (cases "nd_data nd"; simp add: set_attrs_def)+

lemma set_template_links [simp]:
  "nd_id (set_template_field i nd) = nd_id nd" "nd_connected (set_template_field i nd) = nd_connected nd"
  "nd_parent (set_template_field i nd) = nd_parent nd" "nd_first_child (set_template_field i nd) = nd_first_child nd"
  "nd_last_child (set_template_field i nd) = nd_last_child nd" "nd_prev_sibling (set_template_field i nd) = nd_prev_sibling nd"
  "nd_next_sibling (set_template_field i nd) = nd_next_sibling nd"
  by (cases "nd_data nd"; simp add: set_template_field_def)+

text \<open>Setting an attribute and reading it back, and the other attributes.\<close>

lemma get_set_attribute:
  assumes "is_element nd"
  shows "get_attribute (set_attribute name v nd) k = (if k = name then Some v else get_attribute nd k)"
proof -
  obtain attrs where attrs: "attrs_of nd = Some attrs"
    using assms by (cases "nd_data nd") (simp_all add: is_element_def attrs_of_def)
  have same: "qualified_name (a\<lparr>at_value := v\<rparr>) = qualified_name a" for a
    by (simp add: qualified_name_def split: option.split)
  let ?u = "update_first (\<lambda>a. qualified_name_eq a name) (\<lambda>a. a\<lparr>at_value := v\<rparr>)
       \<lparr>at_name = \<lparr>qn_prefix = None, qn_ns = [], qn_local = name\<rparr>, at_value = v\<rparr> attrs"
  have u: "find (\<lambda>a. qualified_name_eq a name) ?u \<noteq> None"
    "\<forall>a. find (\<lambda>a. qualified_name_eq a name) ?u = Some a \<longrightarrow> at_value a = v"
    by (induction attrs) (auto simp: qualified_name_eq_iff same, auto simp: qualified_name_def)
  have o': "find (\<lambda>a. qualified_name_eq a k) ?u = find (\<lambda>a. qualified_name_eq a k) attrs" if "k \<noteq> name"
    using that by (induction attrs) (auto simp: qualified_name_eq_iff same, auto simp: qualified_name_def)
  show ?thesis
    using u o' by (auto simp: get_attribute_def set_attribute_def attrs_of_set attrs)
qed

end
