(* ===== verification/Dom.thy ===== *)
theory Dom
  imports DomNode
begin

text \<open>
  \<open>crates/obscura-dom/src/tree.rs\<close>, the arena of a document and its operations. The hash maps of the code
  are only read by key, so they are kept as maps in key order. The interior mutability of \<open>DomTree\<close>
  is state passing: an operation on \<open>&self\<close> that changes the tree returns the new one.
  The theory \<open>DomRead\<close> holds the walks that only read.
\<close>

datatype shadow_mode = Open | Closed

record shadow_root =
  sr_id :: node_id
  sr_host :: node_id
  sr_mode :: shadow_mode

datatype attach_shadow_error = HostIsNotElement | HostAlreadyHasShadowRoot | InvalidShadowRoot

record external_stylesheet =
  es_sources :: "string list"
  es_origin_clean :: bool
  es_cssom_rules :: "string list option"

record form_control_state =
  fc_value :: "string option"
  fc_checked :: "bool option"
  fc_indeterminate :: bool

record dom =
  dm_nodes :: "node option list"
  dm_free :: "nat list"
  dm_document :: node_id
  dm_id_index :: "(string, node_id) bmap"
  dm_form_controls :: "(node_id, form_control_state) bmap"
  dm_sheets :: "(node_id, external_stylesheet) bmap"
  dm_sheet_gen :: nat
  dm_hovered :: "node_id option"
  dm_shadow_roots :: "(node_id, shadow_root) bmap"
  dm_by_host :: "(node_id, node_id) bmap"
  dm_allow_shadow :: bool
  dm_quirks :: bool

definition fresh_node :: "node_id \<Rightarrow> node_data \<Rightarrow> node" where
  "fresh_node i d =
     \<lparr>nd_id = i, nd_connected = False, nd_parent = None, nd_first_child = None, nd_last_child = None,
      nd_prev_sibling = None, nd_next_sibling = None, nd_data = d\<rparr>"

definition dom_new :: dom where
  "dom_new =
     \<lparr>dm_nodes = [Some ((fresh_node 0 Document)\<lparr>nd_connected := True\<rparr>)], dm_free = [], dm_document = 0,
      dm_id_index = [], dm_form_controls = [], dm_sheets = [], dm_sheet_gen = 0, dm_hovered = None,
      dm_shadow_roots = [], dm_by_host = [], dm_allow_shadow = False, dm_quirks = False\<rparr>"

section \<open>The arena\<close>

definition node_at :: "dom \<Rightarrow> node_id \<Rightarrow> node option" where
  "node_at t i = slot (dm_nodes t) i"

definition alive :: "dom \<Rightarrow> node_id \<Rightarrow> bool" where
  "alive t i \<longleftrightarrow> node_at t i \<noteq> None"

text \<open>\<open>if let Some(Some(node)) = nodes.get_mut(i)\<close>.\<close>

definition upd_node :: "node_id \<Rightarrow> (node \<Rightarrow> node) \<Rightarrow> dom \<Rightarrow> dom" where
  "upd_node i f t =
     (case node_at t i of
        Some nd \<Rightarrow> t\<lparr>dm_nodes := (dm_nodes t)[i := Some (f nd)]\<rparr>
      | None \<Rightarrow> t)"

definition parent_of :: "dom \<Rightarrow> node_id \<Rightarrow> node_id option" where
  "parent_of t i = Option.bind (node_at t i) nd_parent"

definition first_of :: "dom \<Rightarrow> node_id \<Rightarrow> node_id option" where
  "first_of t i = Option.bind (node_at t i) nd_first_child"

definition last_of :: "dom \<Rightarrow> node_id \<Rightarrow> node_id option" where
  "last_of t i = Option.bind (node_at t i) nd_last_child"

definition prev_of :: "dom \<Rightarrow> node_id \<Rightarrow> node_id option" where
  "prev_of t i = Option.bind (node_at t i) nd_prev_sibling"

definition next_of :: "dom \<Rightarrow> node_id \<Rightarrow> node_id option" where
  "next_of t i = Option.bind (node_at t i) nd_next_sibling"

definition is_connected :: "dom \<Rightarrow> node_id \<Rightarrow> bool" where
  "is_connected t i = (case node_at t i of Some nd \<Rightarrow> nd_connected nd | None \<Rightarrow> False)"

definition children :: "dom \<Rightarrow> node_id \<Rightarrow> node_id list" where
  "children t i = walk (length (dm_nodes t)) (next_of t) (first_of t i)"

definition node_slot_count :: "dom \<Rightarrow> nat" where
  "node_slot_count t = length (dm_nodes t)"

definition dom_len :: "dom \<Rightarrow> nat" where
  "dom_len t = length (dm_nodes t) - length (dm_free t)"

definition dom_is_empty :: "dom \<Rightarrow> bool" where
  "dom_is_empty t \<longleftrightarrow> dom_len t \<le> 1"

definition with_node :: "dom \<Rightarrow> node_id \<Rightarrow> (node \<Rightarrow> 'r) \<Rightarrow> 'r option" where
  "with_node t i f = map_option f (node_at t i)"

section \<open>Stylesheets outside the tree\<close>

definition bump_sheets :: "dom \<Rightarrow> dom" where
  "bump_sheets t = t\<lparr>dm_sheet_gen := Suc (dm_sheet_gen t) mod 2 ^ 64\<rparr>"

definition replace_external_stylesheet :: "dom \<Rightarrow> node_id \<Rightarrow> string \<Rightarrow> bool \<Rightarrow> bool \<times> dom" where
  "replace_external_stylesheet t owner source clean =
     (if \<not> alive t owner then (False, t)
      else (True, bump_sheets (t\<lparr>dm_sheets := bm_insert owner
        \<lparr>es_sources = [source], es_origin_clean = clean, es_cssom_rules = None\<rparr> (dm_sheets t)\<rparr>)))"

definition append_external_stylesheet :: "dom \<Rightarrow> node_id \<Rightarrow> string \<Rightarrow> bool \<Rightarrow> bool \<times> dom" where
  "append_external_stylesheet t owner source clean =
     (if \<not> alive t owner then (False, t)
      else
        (let sheet = (case bm_get (dm_sheets t) owner of Some sh \<Rightarrow> sh
                      | None \<Rightarrow> \<lparr>es_sources = [], es_origin_clean = True, es_cssom_rules = None\<rparr>)
         in (True, bump_sheets (t\<lparr>dm_sheets := bm_insert owner
              (sheet\<lparr>es_sources := es_sources sheet @ [source],
                     es_origin_clean := (es_origin_clean sheet \<and> clean)\<rparr>) (dm_sheets t)\<rparr>))))"

definition remove_external_stylesheet :: "dom \<Rightarrow> node_id \<Rightarrow> bool \<times> dom" where
  "remove_external_stylesheet t owner =
     (if bm_has (dm_sheets t) owner
      then (True, bump_sheets (t\<lparr>dm_sheets := bm_remove owner (dm_sheets t)\<rparr>)) else (False, t))"

definition has_cssom_stylesheet :: "dom \<Rightarrow> node_id \<Rightarrow> bool" where
  "has_cssom_stylesheet t owner =
     (case bm_get (dm_sheets t) owner of Some sh \<Rightarrow> es_cssom_rules sh \<noteq> None | None \<Rightarrow> False)"

text \<open>An entry that did not exist stays behind when the edit is refused.\<close>

definition update_cssom_stylesheet ::
    "dom \<Rightarrow> node_id \<Rightarrow> nat \<Rightarrow> nat \<Rightarrow> string list \<Rightarrow> bool \<Rightarrow> bool \<times> dom" where
  "update_cssom_stylesheet t owner index delete_count rules reset =
     (case Option.bind (node_at t owner) as_element of
        None \<Rightarrow> (False, t)
      | Some name \<Rightarrow>
         (if qn_local name \<noteq> ''style'' then (False, t)
          else
            (let sheet = (case bm_get (dm_sheets t) owner of Some sh \<Rightarrow> sh
                          | None \<Rightarrow> \<lparr>es_sources = [], es_origin_clean = True, es_cssom_rules = None\<rparr>);
                 store = (\<lambda>sh. t\<lparr>dm_sheets := bm_insert owner sh (dm_sheets t)\<rparr>)
             in if reset then (True, store (sheet\<lparr>es_cssom_rules := Some rules\<rparr>))
                else case es_cssom_rules sheet of
                  None \<Rightarrow> (False, store sheet)
                | Some existing \<Rightarrow>
                    (if length existing < index \<or> length existing - index < delete_count
                     then (False, store sheet)
                     else (True, store (sheet\<lparr>es_cssom_rules :=
                       Some (take index existing @ rules @ drop (index + delete_count) existing)\<rparr>))))))"

text \<open>\<open>clear_cssom_stylesheet_inner\<close>.\<close>

definition clear_cssom :: "node_id \<Rightarrow> dom \<Rightarrow> dom" where
  "clear_cssom owner t =
     (case bm_get (dm_sheets t) owner of
        None \<Rightarrow> t
      | Some sh \<Rightarrow>
         (if es_cssom_rules sh = None then t
          else bump_sheets (t\<lparr>dm_sheets :=
            (if es_sources sh = [] then bm_remove owner (dm_sheets t)
             else bm_insert owner (sh\<lparr>es_cssom_rules := None\<rparr>) (dm_sheets t))\<rparr>)))"

definition clear_cssom_stylesheet :: "dom \<Rightarrow> node_id \<Rightarrow> bool \<times> dom" where
  "clear_cssom_stylesheet t owner = (has_cssom_stylesheet t owner, clear_cssom owner t)"

text \<open>The loop of \<open>invalidate_cssom_source\<close>: the node and its ancestors, at most \<open>k\<close> of them.\<close>

fun invalidate_loop :: "nat \<Rightarrow> node_id option \<Rightarrow> dom \<Rightarrow> dom" where
  "invalidate_loop 0 current t = t"
| "invalidate_loop (Suc k) None t = t"
| "invalidate_loop (Suc k) (Some i) t =
     (let t1 = clear_cssom i t in invalidate_loop k (parent_of t1 i) t1)"

definition invalidate_cssom_source :: "node_id \<Rightarrow> dom \<Rightarrow> dom" where
  "invalidate_cssom_source i t =
     (if dm_sheets t = [] then t else invalidate_loop (length (dm_nodes t)) (Some i) t)"

definition get_external_stylesheet :: "dom \<Rightarrow> node_id \<Rightarrow> external_stylesheet option" where
  "get_external_stylesheet t owner = bm_get (dm_sheets t) owner"

section \<open>Form controls and hovering\<close>

definition form_control_default :: form_control_state where
  "form_control_default = \<lparr>fc_value = None, fc_checked = None, fc_indeterminate = False\<rparr>"

definition get_form_control_state :: "dom \<Rightarrow> node_id \<Rightarrow> form_control_state option" where
  "get_form_control_state t i = bm_get (dm_form_controls t) i"

definition form_control_value_matches :: "dom \<Rightarrow> node_id \<Rightarrow> string \<Rightarrow> bool" where
  "form_control_value_matches t i v \<longleftrightarrow> Option.bind (bm_get (dm_form_controls t) i) fc_value = Some v"

definition form_control_checked :: "dom \<Rightarrow> node_id \<Rightarrow> bool option" where
  "form_control_checked t i = Option.bind (bm_get (dm_form_controls t) i) fc_checked"

definition form_control_indeterminate :: "dom \<Rightarrow> node_id \<Rightarrow> bool" where
  "form_control_indeterminate t i =
     (case bm_get (dm_form_controls t) i of Some c \<Rightarrow> fc_indeterminate c | None \<Rightarrow> False)"

definition update_form_control_state ::
    "dom \<Rightarrow> node_id \<Rightarrow> (form_control_state \<Rightarrow> form_control_state) \<Rightarrow> dom" where
  "update_form_control_state t i f =
     (case node_at t i of
        Some nd \<Rightarrow>
          (if is_element nd
           then t\<lparr>dm_form_controls := bm_insert i
             (f (case bm_get (dm_form_controls t) i of Some c \<Rightarrow> c | None \<Rightarrow> form_control_default))
             (dm_form_controls t)\<rparr>
           else t)
      | None \<Rightarrow> t)"

definition set_hovered :: "dom \<Rightarrow> node_id option \<Rightarrow> bool \<times> dom" where
  "set_hovered t i = (if dm_hovered t = i then (False, t) else (True, t\<lparr>dm_hovered := i\<rparr>))"

text \<open>The climb of \<open>is_hovered\<close> has no bound: on a cycle of parents it would not return.\<close>

partial_function (option) hover_loop :: "dom \<Rightarrow> node_id \<Rightarrow> node_id option \<Rightarrow> bool option" where
  "hover_loop t i current =
     (case current of
        None \<Rightarrow> Some False
      | Some c \<Rightarrow> (if c = i then Some True else hover_loop t i (parent_of t c)))"

definition is_hovered :: "dom \<Rightarrow> node_id \<Rightarrow> bool option" where
  "is_hovered t i = hover_loop t i (dm_hovered t)"

definition set_quirks :: "bool \<Rightarrow> dom \<Rightarrow> dom" where
  "set_quirks b t = t\<lparr>dm_quirks := b\<rparr>"

definition set_allow_declarative_shadow_roots :: "bool \<Rightarrow> dom \<Rightarrow> dom" where
  "set_allow_declarative_shadow_roots b t = t\<lparr>dm_allow_shadow := b\<rparr>"

section \<open>Effects on the arena\<close>

lemma node_at_upd: "node_at (upd_node i f t) j = (if j = i then map_option f (node_at t i) else node_at t j)"
proof (cases "node_at t i")
  case (Some nd)
  then have "i < length (dm_nodes t)" by (auto simp: node_at_def dest: slot_Some_less)
  with Some show ?thesis by (simp add: upd_node_def node_at_def slot_update)
qed (simp add: upd_node_def)

lemma upd_node_fields [simp]:
  "length (dm_nodes (upd_node i f t)) = length (dm_nodes t)" "dm_free (upd_node i f t) = dm_free t"
  "dm_document (upd_node i f t) = dm_document t" "dm_id_index (upd_node i f t) = dm_id_index t"
  "dm_form_controls (upd_node i f t) = dm_form_controls t" "dm_sheets (upd_node i f t) = dm_sheets t"
  "dm_sheet_gen (upd_node i f t) = dm_sheet_gen t" "dm_hovered (upd_node i f t) = dm_hovered t"
  "dm_shadow_roots (upd_node i f t) = dm_shadow_roots t" "dm_by_host (upd_node i f t) = dm_by_host t"
  "dm_allow_shadow (upd_node i f t) = dm_allow_shadow t" "dm_quirks (upd_node i f t) = dm_quirks t"
  by (simp_all add: upd_node_def split: option.split)

lemma alive_upd [simp]: "alive (upd_node i f t) j = alive t j"
  by (simp add: alive_def node_at_upd)

text \<open>Operations on stylesheets alone.\<close>

definition sheets_only :: "dom \<Rightarrow> dom \<Rightarrow> bool" where
  "sheets_only t t' \<longleftrightarrow> (\<exists>m n. t' = t\<lparr>dm_sheets := m, dm_sheet_gen := n\<rparr>)"

lemma sheets_only_refl: "sheets_only t t"
proof -
  have "t = t\<lparr>dm_sheets := dm_sheets t, dm_sheet_gen := dm_sheet_gen t\<rparr>" by simp
  then show ?thesis unfolding sheets_only_def by blast
qed

lemma sheets_only_trans: "sheets_only t t' \<Longrightarrow> sheets_only t' t'' \<Longrightarrow> sheets_only t t''"
  unfolding sheets_only_def by clarsimp blast

lemma sheets_only_bump: "sheets_only t (bump_sheets (t\<lparr>dm_sheets := m\<rparr>))"
proof -
  have "bump_sheets (t\<lparr>dm_sheets := m\<rparr>) = t\<lparr>dm_sheets := m, dm_sheet_gen := Suc (dm_sheet_gen t) mod 2 ^ 64\<rparr>"
    by (simp add: bump_sheets_def)
  then show ?thesis unfolding sheets_only_def by blast
qed

lemma clear_cssom_sheets_only: "sheets_only t (clear_cssom i t)"
  by (simp add: clear_cssom_def sheets_only_refl sheets_only_bump split: option.split)

lemma invalidate_loop_sheets_only: "sheets_only t (invalidate_loop k c t)"
proof (induction k c t rule: invalidate_loop.induct)
  case (3 k i t)
  have "sheets_only (clear_cssom i t) (invalidate_loop k (parent_of (clear_cssom i t) i) (clear_cssom i t))"
    by (rule "3.IH" [OF refl])
  then show ?case by (simp add: Let_def sheets_only_trans [OF clear_cssom_sheets_only])
qed (simp_all add: sheets_only_refl)

lemma invalidate_sheets_only: "sheets_only t (invalidate_cssom_source i t)"
  by (simp add: invalidate_cssom_source_def invalidate_loop_sheets_only sheets_only_refl)

lemma clear_cssom_fields [simp]:
  "dm_nodes (clear_cssom i t) = dm_nodes t" "dm_free (clear_cssom i t) = dm_free t"
  "dm_document (clear_cssom i t) = dm_document t" "dm_id_index (clear_cssom i t) = dm_id_index t"
  "dm_form_controls (clear_cssom i t) = dm_form_controls t"
  "dm_shadow_roots (clear_cssom i t) = dm_shadow_roots t" "dm_by_host (clear_cssom i t) = dm_by_host t"
  "node_at (clear_cssom i t) j = node_at t j" "alive (clear_cssom i t) j = alive t j"
  using clear_cssom_sheets_only [of t i] by (auto simp: node_at_def alive_def sheets_only_def)

lemma invalidate_fields [simp]:
  "dm_nodes (invalidate_cssom_source i t) = dm_nodes t" "dm_free (invalidate_cssom_source i t) = dm_free t"
  "dm_document (invalidate_cssom_source i t) = dm_document t"
  "dm_id_index (invalidate_cssom_source i t) = dm_id_index t"
  "dm_form_controls (invalidate_cssom_source i t) = dm_form_controls t"
  "dm_shadow_roots (invalidate_cssom_source i t) = dm_shadow_roots t"
  "dm_by_host (invalidate_cssom_source i t) = dm_by_host t"
  "node_at (invalidate_cssom_source i t) j = node_at t j" "alive (invalidate_cssom_source i t) j = alive t j"
  using invalidate_sheets_only [of t i] by (auto simp: node_at_def alive_def sheets_only_def)

lemma link_cong:
  assumes "\<And>j. node_at t' j = node_at t j"
  shows "parent_of t' = parent_of t" "first_of t' = first_of t" "last_of t' = last_of t"
    "prev_of t' = prev_of t" "next_of t' = next_of t" "is_connected t' = is_connected t" "alive t' = alive t"
  using assms by (simp_all add: fun_eq_iff parent_of_def first_of_def last_of_def prev_of_def next_of_def
      is_connected_def alive_def)

end
