(* ===== verification/DomRead.thy ===== *)
theory DomRead
  imports Dom
begin

text \<open>
  \<open>crates/obscura-dom/src/tree.rs\<close>, the walks that only read the tree: scopes and roots, preorder
  traversals, document order, slots, text and lookup by identifier. A loop with a cap in the code has the
  same cap here. The two loops without one keep a set of the nodes seen; each turn takes a pending node
  off or sees a new live one, which is their termination measure.
\<close>

section \<open>Scopes and roots\<close>

fun scope_loop :: "dom \<Rightarrow> nat \<Rightarrow> node_id \<Rightarrow> node_id option" where
  "scope_loop t 0 current = None"
| "scope_loop t (Suc k) current =
     (case node_at t current of
        None \<Rightarrow> None
      | Some nd \<Rightarrow> (case nd_parent nd of Some p \<Rightarrow> scope_loop t k p | None \<Rightarrow> Some current))"

definition tree_scope_root :: "dom \<Rightarrow> node_id \<Rightarrow> node_id option" where
  "tree_scope_root t i = scope_loop t (Suc (length (dm_nodes t))) i"

definition shadow_root_of :: "dom \<Rightarrow> node_id \<Rightarrow> node_id option" where
  "shadow_root_of t host = bm_get (dm_by_host t) host"

definition shadow_root_info :: "dom \<Rightarrow> node_id \<Rightarrow> shadow_root option" where
  "shadow_root_info t root = bm_get (dm_shadow_roots t) root"

definition is_shadow_root :: "dom \<Rightarrow> node_id \<Rightarrow> bool" where
  "is_shadow_root t i = bm_has (dm_shadow_roots t) i"

definition containing_shadow_root :: "dom \<Rightarrow> node_id \<Rightarrow> node_id option" where
  "containing_shadow_root t i =
     Option.bind (tree_scope_root t i) (\<lambda>root. if is_shadow_root t root then Some root else None)"

fun including_loop :: "dom \<Rightarrow> nat \<Rightarrow> node_id \<Rightarrow> node_id option" where
  "including_loop t 0 current = None"
| "including_loop t (Suc k) current =
     (case node_at t current of
        None \<Rightarrow> None
      | Some nd \<Rightarrow>
         (case nd_parent nd of
            Some p \<Rightarrow> including_loop t k p
          | None \<Rightarrow>
             (case bm_get (dm_shadow_roots t) current of
                Some root \<Rightarrow> including_loop t k (sr_host root)
              | None \<Rightarrow> Some current)))"

definition shadow_including_root :: "dom \<Rightarrow> node_id \<Rightarrow> node_id option" where
  "shadow_including_root t i = including_loop t (Suc (length (dm_nodes t))) i"

definition host_including_parent :: "dom \<Rightarrow> node_id \<Rightarrow> node_id option" where
  "host_including_parent t i =
     (case parent_of t i of
        Some p \<Rightarrow> Some p
      | None \<Rightarrow> map_option sr_host (bm_get (dm_shadow_roots t) i))"

text \<open>The loop of \<open>would_create_host_including_cycle\<close>.\<close>

fun cycle_loop :: "dom \<Rightarrow> node_id \<Rightarrow> nat \<Rightarrow> node_id option \<Rightarrow> bool" where
  "cycle_loop t child 0 current = True"
| "cycle_loop t child (Suc k) None = False"
| "cycle_loop t child (Suc k) (Some i) =
     (if i = child then True else cycle_loop t child k (host_including_parent t i))"

definition can_be_ancestor :: "dom \<Rightarrow> node_id \<Rightarrow> bool" where
  "can_be_ancestor t i \<longleftrightarrow> first_of t i \<noteq> None \<or> bm_has (dm_by_host t) i"

definition would_create_host_including_cycle :: "dom \<Rightarrow> node_id \<Rightarrow> node_id \<Rightarrow> bool" where
  "would_create_host_including_cycle t parent child =
     (if \<not> can_be_ancestor t child then False
      else cycle_loop t child (Suc (length (dm_nodes t))) (Some parent))"

definition ancestors :: "dom \<Rightarrow> node_id \<Rightarrow> node_id list" where
  "ancestors t i = walk (length (dm_nodes t)) (parent_of t) (parent_of t i)"

section \<open>Traversals\<close>

text \<open>The main loop of \<open>descendants\<close>: \<open>room\<close> results may follow before the cap.\<close>

fun descend_loop :: "dom \<Rightarrow> nat \<Rightarrow> node_id list \<Rightarrow> node_id list" where
  "descend_loop t room [] = []"
| "descend_loop t 0 (i # stack) = [i]"
| "descend_loop t (Suc room) (i # stack) = i # descend_loop t room (children t i @ stack)"

definition descendants :: "dom \<Rightarrow> node_id \<Rightarrow> node_id list" where
  "descendants t i = descend_loop t (length (dm_nodes t)) (children t i)"

text \<open>The items of \<open>descendants_iter\<close>: the next node and the deferred siblings.\<close>

fun iter_loop :: "dom \<Rightarrow> nat \<Rightarrow> node_id option \<Rightarrow> node_id list \<Rightarrow> node_id list" where
  "iter_loop t remaining None siblings = []"
| "iter_loop t 0 (Some current) siblings = []"
| "iter_loop t (Suc remaining) (Some current) siblings =
     current #
     (case first_of t current of
        Some child \<Rightarrow>
          iter_loop t remaining (Some child)
            (case next_of t current of Some sibling \<Rightarrow> sibling # siblings | None \<Rightarrow> siblings)
      | None \<Rightarrow>
         (case next_of t current of
            Some sibling \<Rightarrow> iter_loop t remaining (Some sibling) siblings
          | None \<Rightarrow>
             (case siblings of
                [] \<Rightarrow> iter_loop t remaining None []
              | s # rest \<Rightarrow> iter_loop t remaining (Some s) rest)))"

definition descendants_iter :: "dom \<Rightarrow> node_id \<Rightarrow> node_id list" where
  "descendants_iter t i = iter_loop t (node_slot_count t) (first_of t i) []"

definition shadow_children :: "dom \<Rightarrow> node_id \<Rightarrow> node_id list option" where
  "shadow_children t host = map_option (children t) (shadow_root_of t host)"

definition shadow_descendants :: "dom \<Rightarrow> node_id \<Rightarrow> node_id list option" where
  "shadow_descendants t host = map_option (descendants t) (shadow_root_of t host)"

text \<open>The loop of \<open>inclusive_owned_subtrees\<close>: children first, the hosted root after them.\<close>

definition live_ids :: "dom \<Rightarrow> node_id set" where
  "live_ids t = {i. alive t i}"

lemma finite_live_ids [simp]: "finite (live_ids t)"
  using finite_slots [of "dm_nodes t"] by (simp add: live_ids_def alive_def node_at_def)

lemma unseen_decreases:
  "alive t i \<Longrightarrow> i \<notin> set seen \<Longrightarrow> card (live_ids t - insert i (set seen)) < card (live_ids t - set seen)"
  by (rule psubset_card_mono, simp) (auto simp: live_ids_def)

definition hosted :: "dom \<Rightarrow> node_id \<Rightarrow> node_id list" where
  "hosted t i = (case bm_get (dm_by_host t) i of Some root \<Rightarrow> [root] | None \<Rightarrow> [])"

function owned_loop :: "dom \<Rightarrow> node_id list \<Rightarrow> node_id list \<Rightarrow> node_id list" where
  "owned_loop t [] seen = []"
| "owned_loop t (i # stack) seen =
     (if i \<in> set seen then owned_loop t stack seen
      else if \<not> alive t i then owned_loop t stack (i # seen)
      else i # owned_loop t (children t i @ hosted t i @ stack) (i # seen))"
  by pat_completeness auto
termination
proof (relation "measures [\<lambda>(t, stack, seen). card (live_ids t - set seen), \<lambda>(t, stack, seen). length stack]")
  fix t :: dom and i :: node_id and stack seen :: "node_id list"
  assume "i \<notin> set seen"
  show "\<not> alive t i \<Longrightarrow> ((t, stack, i # seen), t, i # stack, seen)
      \<in> measures [\<lambda>(t, stack, seen). card (live_ids t - set seen), \<lambda>(t, stack, seen). length stack]"
  proof -
    assume "\<not> alive t i"
    then have "live_ids t - insert i (set seen) = live_ids t - set seen" by (auto simp: live_ids_def)
    then show ?thesis by simp
  qed
  show "\<not> \<not> alive t i \<Longrightarrow> ((t, children t i @ hosted t i @ stack, i # seen), t, i # stack, seen)
      \<in> measures [\<lambda>(t, stack, seen). card (live_ids t - set seen), \<lambda>(t, stack, seen). length stack]"
    using unseen_decreases [of t i seen] \<open>i \<notin> set seen\<close> by simp
qed simp_all

definition inclusive_owned_subtrees :: "dom \<Rightarrow> node_id \<Rightarrow> node_id list" where
  "inclusive_owned_subtrees t i = (if \<not> alive t i then [] else owned_loop t [i] [])"

section \<open>Document order\<close>

fun climb_loop :: "dom \<Rightarrow> node_id \<Rightarrow> nat \<Rightarrow> node_id \<Rightarrow> node_id option" where
  "climb_loop t root 0 i = None"
| "climb_loop t root (Suc k) i =
     (if i = root then None
      else case node_at t i of
        None \<Rightarrow> None
      | Some nd \<Rightarrow>
         (case nd_next_sibling nd of
            Some sibling \<Rightarrow> Some sibling
          | None \<Rightarrow> (case nd_parent nd of None \<Rightarrow> None | Some p \<Rightarrow> climb_loop t root k p)))"

definition climb_to_next_sibling :: "dom \<Rightarrow> node_id \<Rightarrow> node_id \<Rightarrow> node_id option" where
  "climb_to_next_sibling t root current = climb_loop t root (Suc (length (dm_nodes t))) current"

definition next_in_subtree :: "dom \<Rightarrow> node_id \<Rightarrow> node_id \<Rightarrow> node_id option" where
  "next_in_subtree t root current =
     (case node_at t current of
        None \<Rightarrow> None
      | Some nd \<Rightarrow>
         (case nd_first_child nd of
            Some child \<Rightarrow> Some child
          | None \<Rightarrow> climb_to_next_sibling t root current))"

definition next_after_subtree :: "dom \<Rightarrow> node_id \<Rightarrow> node_id \<Rightarrow> node_id option" where
  "next_after_subtree t root current = climb_to_next_sibling t root current"

fun deepest_loop :: "dom \<Rightarrow> nat \<Rightarrow> node_id \<Rightarrow> node_id option" where
  "deepest_loop t 0 i = None"
| "deepest_loop t (Suc k) i =
     (case node_at t i of
        None \<Rightarrow> None
      | Some nd \<Rightarrow> (case nd_last_child nd of Some child \<Rightarrow> deepest_loop t k child | None \<Rightarrow> Some i))"

definition prev_in_subtree :: "dom \<Rightarrow> node_id \<Rightarrow> node_id \<Rightarrow> node_id option" where
  "prev_in_subtree t root current =
     (if current = root then None
      else case node_at t current of
        None \<Rightarrow> None
      | Some nd \<Rightarrow>
         (case nd_prev_sibling nd of
            None \<Rightarrow> nd_parent nd
          | Some prev \<Rightarrow> deepest_loop t (Suc (length (dm_nodes t))) prev))"

section \<open>Text and lookup\<close>

text \<open>The loop of \<open>collect_text_inner\<close>: \<open>k\<close> more steps are allowed.\<close>

fun text_loop :: "dom \<Rightarrow> nat \<Rightarrow> node_id list \<Rightarrow> string" where
  "text_loop t k [] = []"
| "text_loop t 0 (i # stack) = []"
| "text_loop t (Suc k) (i # stack) =
     (case node_at t i of
        None \<Rightarrow> text_loop t k stack
      | Some nd \<Rightarrow>
         (case nd_data nd of
            Text contents \<Rightarrow> contents @ text_loop t k stack
          | _ \<Rightarrow> text_loop t k (children t i @ stack)))"

definition collect_text_inner :: "dom \<Rightarrow> node_id \<Rightarrow> string" where
  "collect_text_inner t i = text_loop t (saturating_add usize_max (length (dm_nodes t)) 16) [i]"

definition text_content :: "dom \<Rightarrow> node_id \<Rightarrow> string" where
  "text_content t i =
     (case map_option nd_data (node_at t i) of
        Some (Text contents) \<Rightarrow> contents
      | Some (Comment contents) \<Rightarrow> contents
      | Some (ProcessingInstruction target data) \<Rightarrow> data
      | _ \<Rightarrow> collect_text_inner t i)"

definition get_element_by_id :: "dom \<Rightarrow> string \<Rightarrow> node_id option" where
  "get_element_by_id t name =
     (case bm_get (dm_id_index t) name of
        Some i \<Rightarrow>
          (if containing_shadow_root t i = None then Some i
           else find (\<lambda>j. with_node t j (\<lambda>nd. get_attribute nd ''id'' = Some name) = Some True)
             (descendants t (dm_document t)))
      | None \<Rightarrow>
          find (\<lambda>j. with_node t j (\<lambda>nd. get_attribute nd ''id'' = Some name) = Some True)
            (descendants t (dm_document t)))"

definition fragment_root :: "dom \<Rightarrow> node_id" where
  "fragment_root t =
     (case find (\<lambda>c. case node_at t c of
                    Some nd \<Rightarrow> (case as_element nd of Some name \<Rightarrow> qn_local name = ''html'' | None \<Rightarrow> False)
                  | None \<Rightarrow> False) (children t (dm_document t)) of
        Some c \<Rightarrow> c
      | None \<Rightarrow> dm_document t)"

section \<open>Slots\<close>

definition is_html_slot_element :: "dom \<Rightarrow> node_id \<Rightarrow> bool" where
  "is_html_slot_element t i =
     (case Option.bind (node_at t i) as_element of
        Some name \<Rightarrow> qn_ns name = ''http://www.w3.org/1999/xhtml'' \<and> qn_local name = ''slot''
      | None \<Rightarrow> False)"

text \<open>The slot a light child asks for; nodes that are neither elements nor text are not slotted.\<close>

definition slot_request :: "node \<Rightarrow> string option" where
  "slot_request nd =
     (if is_element nd then Some (case get_attribute nd ''slot'' of Some v \<Rightarrow> v | None \<Rightarrow> [])
      else if text_content_of_text_node nd \<noteq> None then Some []
      else None)"

definition slot_name :: "node \<Rightarrow> string" where
  "slot_name nd = (case get_attribute nd ''name'' of Some v \<Rightarrow> v | None \<Rightarrow> [])"

definition named_slot :: "dom \<Rightarrow> string \<Rightarrow> node_id \<Rightarrow> bool" where
  "named_slot t name i \<longleftrightarrow>
     is_html_slot_element t i \<and> with_node t i (\<lambda>nd. slot_name nd = name) = Some True"

definition assigned_slot :: "dom \<Rightarrow> node_id \<Rightarrow> node_id option" where
  "assigned_slot t i =
     Option.bind (parent_of t i) (\<lambda>parent.
       Option.bind (shadow_root_of t parent) (\<lambda>root.
         Option.bind (Option.bind (node_at t i) slot_request) (\<lambda>name.
           find (named_slot t name) (descendants t root))))"

definition assigned_nodes :: "dom \<Rightarrow> node_id \<Rightarrow> node_id list option" where
  "assigned_nodes t sl =
     (if \<not> is_html_slot_element t sl then None
      else Option.bind (containing_shadow_root t sl) (\<lambda>root.
        Option.bind (shadow_root_info t root) (\<lambda>info.
          let name = (case with_node t sl slot_name of Some v \<Rightarrow> v | None \<Rightarrow> []) in
          if list_ex (named_slot t name) (takeWhile (\<lambda>c. c \<noteq> sl) (descendants t root))
          then Some []
          else Some (filter (\<lambda>c. case node_at t c of
                                   Some nd \<Rightarrow> slot_request nd = Some name
                                 | None \<Rightarrow> False) (children t (sr_host info))))))"

definition slot_rendered_children :: "dom \<Rightarrow> node_id \<Rightarrow> node_id list option" where
  "slot_rendered_children t sl =
     map_option (\<lambda>assigned. if assigned = [] then children t sl else assigned) (assigned_nodes t sl)"

end
