(* ===== verification/DomOps.thy ===== *)
theory DomOps
  imports DomRead
begin

text \<open>
  \<open>crates/obscura-dom/src/tree.rs\<close>, the operations that change the tree: allocation, linking, detaching,
  freeing, shadow roots, text, cloning and importing. Each reads the fields it updates in the order of the
  code.
\<close>

section \<open>Connectivity\<close>

text \<open>The worklist of \<open>set_subtree_connected\<close>; the top of the stack is the head of the list.\<close>

definition mark_node :: "bool \<Rightarrow> node_id \<Rightarrow> dom \<Rightarrow> dom" where
  "mark_node b i t = upd_node i (\<lambda>nd. nd\<lparr>nd_connected := b\<rparr>) (if b then t else clear_cssom i t)"

lemma live_ids_mark [simp]: "live_ids (mark_node b i t) = live_ids t"
  by (simp add: live_ids_def mark_node_def)

function connect_loop :: "bool \<Rightarrow> node_id list \<Rightarrow> node_id list \<Rightarrow> dom \<Rightarrow> dom" where
  "connect_loop b [] seen t = t"
| "connect_loop b (i # stack) seen t =
     (if i \<in> set seen then connect_loop b stack seen t
      else if \<not> alive t i then connect_loop b stack (i # seen) (if b then t else clear_cssom i t)
      else
        (let t' = mark_node b i t
         in connect_loop b (rev (children t' i) @ hosted t' i @ stack) (i # seen) t'))"
  by pat_completeness auto
termination
proof (relation "measures [\<lambda>(b, stack, seen, t). card (live_ids t - set seen), \<lambda>(b, stack, seen, t). length stack]")
  let ?R = "measures [\<lambda>(b, stack, seen, t). card (live_ids t - set seen), \<lambda>(b, stack, seen, t). length stack]"
  fix b :: bool and i :: node_id and stack seen :: "node_id list" and t :: dom
  assume new: "i \<notin> set seen"
  show "\<not> alive t i \<Longrightarrow> ((b, stack, i # seen, if b then t else clear_cssom i t), b, i # stack, seen, t) \<in> ?R"
  proof -
    assume "\<not> alive t i"
    then have "live_ids t - insert i (set seen) = live_ids t - set seen" by (auto simp: live_ids_def)
    moreover have "live_ids (clear_cssom i t) = live_ids t" by (simp add: live_ids_def)
    ultimately show ?thesis by simp
  qed
  show "\<And>x. \<not> \<not> alive t i \<Longrightarrow> x = mark_node b i t \<Longrightarrow>
      ((b, rev (children x i) @ hosted x i @ stack, i # seen, x), b, i # stack, seen, t) \<in> ?R"
    using unseen_decreases [of t i seen] new by simp
qed simp_all

definition set_subtree_connected :: "node_id \<Rightarrow> bool \<Rightarrow> dom \<Rightarrow> dom" where
  "set_subtree_connected root b t =
     (if (case node_at t root of Some nd \<Rightarrow> nd_first_child nd = None | None \<Rightarrow> False)
         \<and> \<not> bm_has (dm_by_host t) root
      then mark_node b root t
      else connect_loop b [root] [] t)"

section \<open>Allocation\<close>

definition first_id_attr :: "node_data \<Rightarrow> attribute option" where
  "first_id_attr d =
     (case d of Element _ attrs _ _ \<Rightarrow> find (\<lambda>a. qn_local (at_name a) = ''id'') attrs | _ \<Rightarrow> None)"

definition new_node :: "node_data \<Rightarrow> dom \<Rightarrow> node_id \<times> dom" where
  "new_node d t =
     (let (i, t1) =
        (if dm_free t \<noteq> [] then (last (dm_free t), t\<lparr>dm_free := butlast (dm_free t)\<rparr>)
         else (length (dm_nodes t) mod 2 ^ 32, t\<lparr>dm_nodes := dm_nodes t @ [None]\<rparr>));
        t2 = (case first_id_attr d of
                Some a \<Rightarrow>
                  (if bm_has (dm_id_index t1) (at_value a) then t1
                   else t1\<lparr>dm_id_index := bm_insert (at_value a) i (dm_id_index t1)\<rparr>)
              | None \<Rightarrow> t1)
      in (i, t2\<lparr>dm_nodes := (dm_nodes t2)[i := Some (fresh_node i d)]\<rparr>))"

definition with_node_mut :: "node_id \<Rightarrow> (node \<Rightarrow> node) \<Rightarrow> dom \<Rightarrow> dom" where
  "with_node_mut i f t =
     upd_node i f
       (if (case node_at t i of Some nd \<Rightarrow> is_text nd | None \<Rightarrow> False)
        then invalidate_cssom_source i t else t)"

section \<open>Linking and unlinking\<close>

text \<open>The pointer updates of \<open>detach_for_reparent\<close>.\<close>

definition cut_links :: "node_id \<Rightarrow> node_id option \<Rightarrow> node_id option \<Rightarrow> node_id option \<Rightarrow> dom \<Rightarrow> dom" where
  "cut_links i parent prev next t =
     (let t1 = (case prev of
                  Some p \<Rightarrow> upd_node p (\<lambda>nd. nd\<lparr>nd_next_sibling := next\<rparr>) t
                | None \<Rightarrow> (case parent of
                    Some q \<Rightarrow> upd_node q (\<lambda>nd. nd\<lparr>nd_first_child := next\<rparr>) t
                  | None \<Rightarrow> t));
          t2 = (case next of
                  Some n \<Rightarrow> upd_node n (\<lambda>nd. nd\<lparr>nd_prev_sibling := prev\<rparr>) t1
                | None \<Rightarrow> (case parent of
                    Some q \<Rightarrow> upd_node q (\<lambda>nd. nd\<lparr>nd_last_child := prev\<rparr>) t1
                  | None \<Rightarrow> t1))
      in upd_node i (\<lambda>nd. nd\<lparr>nd_parent := None, nd_prev_sibling := None, nd_next_sibling := None\<rparr>) t2)"

definition detach_for_reparent :: "node_id \<Rightarrow> bool \<Rightarrow> dom \<Rightarrow> dom" where
  "detach_for_reparent i disconnect t =
     (if i = dm_document t \<or> bm_has (dm_shadow_roots t) i then t
      else case node_at t i of
        None \<Rightarrow> t
      | Some nd \<Rightarrow>
         (let t1 = invalidate_cssom_source i t;
              t2 = (if disconnect \<and> is_connected t1 i then set_subtree_connected i False t1 else t1)
          in cut_links i (nd_parent nd) (nd_prev_sibling nd) (nd_next_sibling nd) t2))"

definition detach_node :: "node_id \<Rightarrow> dom \<Rightarrow> dom" where
  "detach_node i t = detach_for_reparent i True t"

text \<open>The pointer updates of \<open>append_child\<close>.\<close>

definition link_last :: "node_id \<Rightarrow> node_id \<Rightarrow> dom \<Rightarrow> dom" where
  "link_last parent child t =
     (let old_last = last_of t parent;
          t1 = upd_node child (\<lambda>nd. nd\<lparr>nd_parent := Some parent, nd_prev_sibling := old_last, nd_next_sibling := None\<rparr>) t;
          t2 = (case old_last of
                  Some o' \<Rightarrow> upd_node o' (\<lambda>nd. nd\<lparr>nd_next_sibling := Some child\<rparr>) t1
                | None \<Rightarrow> t1)
      in upd_node parent (\<lambda>nd. nd\<lparr>nd_first_child := (if nd_first_child nd = None then Some child else nd_first_child nd),
                                 nd_last_child := Some child\<rparr>) t2)"

definition append_child :: "node_id \<Rightarrow> node_id \<Rightarrow> dom \<Rightarrow> dom" where
  "append_child parent child t =
     (if parent = child then t
      else if \<not> alive t parent \<or> \<not> alive t child \<or> bm_has (dm_shadow_roots t) child
        \<or> can_be_ancestor t child \<and> would_create_host_including_cycle t parent child
      then t
      else
        (let parent_connected = is_connected t parent; child_connected = is_connected t child;
             t1 = detach_for_reparent child (child_connected \<and> \<not> parent_connected) t;
             t2 = link_last parent child (invalidate_cssom_source parent t1)
         in if parent_connected \<and> \<not> child_connected then set_subtree_connected child True t2 else t2))"

text \<open>The pointer updates of \<open>insert_before\<close>, the previous sibling read after the detach.\<close>

definition link_before :: "node_id \<Rightarrow> node_id \<Rightarrow> node_id \<Rightarrow> dom \<Rightarrow> dom" where
  "link_before parent existing new_sibling t =
     (let prev = prev_of t existing;
          t1 = upd_node new_sibling (\<lambda>nd. nd\<lparr>nd_parent := Some parent, nd_prev_sibling := prev,
                                            nd_next_sibling := Some existing\<rparr>) t;
          t2 = invalidate_cssom_source parent t1;
          t3 = upd_node existing (\<lambda>nd. nd\<lparr>nd_prev_sibling := Some new_sibling\<rparr>) t2
      in case prev of
           Some p \<Rightarrow> upd_node p (\<lambda>nd. nd\<lparr>nd_next_sibling := Some new_sibling\<rparr>) t3
         | None \<Rightarrow> upd_node parent (\<lambda>nd. nd\<lparr>nd_first_child := Some new_sibling\<rparr>) t3)"

definition insert_before :: "node_id \<Rightarrow> node_id \<Rightarrow> dom \<Rightarrow> dom" where
  "insert_before existing new_sibling t =
     (if existing = new_sibling then t
      else case parent_of t existing of
        None \<Rightarrow> t
      | Some parent \<Rightarrow>
         (if \<not> alive t new_sibling \<or> bm_has (dm_shadow_roots t) new_sibling
             \<or> would_create_host_including_cycle t parent new_sibling
          then t
          else
            (let parent_connected = is_connected t parent; child_connected = is_connected t new_sibling;
                 t1 = detach_for_reparent new_sibling (child_connected \<and> \<not> parent_connected) t;
                 t2 = link_before parent existing new_sibling t1
             in if parent_connected \<and> \<not> child_connected
                then set_subtree_connected new_sibling True t2 else t2)))"

section \<open>Removing\<close>

definition id_values :: "dom \<Rightarrow> node_id list \<Rightarrow> string list" where
  "id_values t is = List.map_filter (\<lambda>i. Option.bind (node_at t i) (\<lambda>nd. get_attribute nd ''id'')) is"

definition drop_ids :: "string list \<Rightarrow> dom \<Rightarrow> dom" where
  "drop_ids names t = t\<lparr>dm_id_index := fold bm_remove names (dm_id_index t)\<rparr>"

definition remove_child :: "node_id \<Rightarrow> dom \<Rightarrow> dom" where
  "remove_child i t = drop_ids (id_values t (i # descendants t i)) (detach_node i t)"

text \<open>Both directions of the shadow registry are removed before a slot is freed.\<close>

definition drop_registry :: "node_id \<Rightarrow> dom \<Rightarrow> dom" where
  "drop_registry i t =
     (let t1 = (case bm_get (dm_shadow_roots t) i of
                  Some root \<Rightarrow>
                    t\<lparr>dm_shadow_roots := bm_remove i (dm_shadow_roots t),
                      dm_by_host := (if bm_get (dm_by_host t) (sr_host root) = Some i
                                     then bm_remove (sr_host root) (dm_by_host t) else dm_by_host t)\<rparr>
                | None \<Rightarrow> t)
      in case bm_get (dm_by_host t1) i of
           Some root \<Rightarrow>
             t1\<lparr>dm_by_host := bm_remove i (dm_by_host t1), dm_shadow_roots := bm_remove root (dm_shadow_roots t1)\<rparr>
         | None \<Rightarrow> t1)"

definition free_slot :: "node_id \<Rightarrow> dom \<Rightarrow> dom" where
  "free_slot i t =
     (if alive t i
      then t\<lparr>dm_form_controls := bm_remove i (dm_form_controls t), dm_nodes := (dm_nodes t)[i := None],
             dm_free := dm_free t @ [i]\<rparr>
      else t)"

definition remove_node :: "node_id \<Rightarrow> dom \<Rightarrow> dom" where
  "remove_node i t =
     (let gone = inclusive_owned_subtrees t i
      in if gone = [] then t
         else
           (let t1 = detach_node i t
            in fold free_slot gone (fold drop_registry gone (drop_ids (id_values t1 gone) t1))))"

definition update_id_index :: "node_id \<Rightarrow> string option \<Rightarrow> string option \<Rightarrow> dom \<Rightarrow> dom" where
  "update_id_index i old_id new_id t =
     (let m = (case old_id of Some v \<Rightarrow> bm_remove v (dm_id_index t) | None \<Rightarrow> dm_id_index t)
      in t\<lparr>dm_id_index := (case new_id of Some v \<Rightarrow> bm_insert v i m | None \<Rightarrow> m)\<rparr>)"

section \<open>Shadow roots\<close>

definition attach_shadow_root_node ::
    "node_id \<Rightarrow> node_id \<Rightarrow> shadow_mode \<Rightarrow> dom \<Rightarrow> (attach_shadow_error + unit) \<times> dom" where
  "attach_shadow_root_node host root mode t =
     (if \<not> (case node_at t host of Some nd \<Rightarrow> is_element nd | None \<Rightarrow> False) then (Inl HostIsNotElement, t)
      else if bm_has (dm_by_host t) host then (Inl HostAlreadyHasShadowRoot, t)
      else if \<not> (root \<noteq> dm_document t \<and> \<not> bm_has (dm_shadow_roots t) root
        \<and> (case node_at t root of
             Some nd \<Rightarrow> is_document nd \<and> nd_parent nd = None \<and> nd_prev_sibling nd = None \<and> nd_next_sibling nd = None
           | None \<Rightarrow> False))
      then (Inl InvalidShadowRoot, t)
      else
        (let t1 = t\<lparr>dm_shadow_roots := bm_insert root \<lparr>sr_id = root, sr_host = host, sr_mode = mode\<rparr> (dm_shadow_roots t),
                    dm_by_host := bm_insert host root (dm_by_host t)\<rparr>
         in (Inr (), set_subtree_connected root (is_connected t1 host) t1)))"

definition attach_shadow_root :: "node_id \<Rightarrow> shadow_mode \<Rightarrow> dom \<Rightarrow> (attach_shadow_error + node_id) \<times> dom" where
  "attach_shadow_root host mode t =
     (if \<not> (case node_at t host of Some nd \<Rightarrow> is_element nd | None \<Rightarrow> False) then (Inl HostIsNotElement, t)
      else if bm_has (dm_by_host t) host then (Inl HostAlreadyHasShadowRoot, t)
      else
        (case new_node Document t of
           (root, t1) \<Rightarrow>
             (case attach_shadow_root_node host root mode t1 of
                (Inl e, t2) \<Rightarrow> (Inl e, remove_node root t2)
              | (Inr _, t2) \<Rightarrow> (Inr root, t2))))"

section \<open>Template contents and text\<close>

definition template_contents :: "node_id \<Rightarrow> dom \<Rightarrow> node_id option \<times> dom" where
  "template_contents i t =
     (case node_at t i of
        None \<Rightarrow> (None, t)
      | Some nd \<Rightarrow>
         (if \<not> is_element nd then (None, t)
          else case template_field nd of
            Some existing \<Rightarrow> (Some existing, t)
          | None \<Rightarrow>
             (case new_node Document t of
                (contents, t1) \<Rightarrow>
                  (case node_at t1 i of
                     Some nd1 \<Rightarrow>
                       (if is_element nd1 then (Some contents, upd_node i (set_template_field contents) t1)
                        else (None, t1))
                   | None \<Rightarrow> (None, t1)))))"

definition push_text :: "string \<Rightarrow> node \<Rightarrow> node" where
  "push_text s nd = (case nd_data nd of Text contents \<Rightarrow> nd\<lparr>nd_data := Text (contents @ s)\<rparr> | _ \<Rightarrow> nd)"

definition append_text :: "node_id \<Rightarrow> string \<Rightarrow> dom \<Rightarrow> dom" where
  "append_text parent s t =
     (case Option.bind (last_of t parent) (\<lambda>l. map_option (\<lambda>nd. (l, is_text nd)) (node_at t l)) of
        Some (l, True) \<Rightarrow> upd_node l (push_text s) t
      | _ \<Rightarrow> (case new_node (Text s) t of (i, t1) \<Rightarrow> append_child parent i t1))"

section \<open>Cloning and importing\<close>

definition clone_control :: "node_id \<Rightarrow> node_id \<Rightarrow> dom \<Rightarrow> dom" where
  "clone_control source target t =
     (case get_form_control_state t source of
        Some st \<Rightarrow> update_form_control_state t target (\<lambda>_. st\<lparr>fc_indeterminate := False\<rparr>)
      | None \<Rightarrow> t)"

text \<open>The pending work is a stack of (destination parent, source node), its top first.\<close>

definition prepare_cloned_children ::
    "node_id \<Rightarrow> node_id \<Rightarrow> bool \<Rightarrow> (node_id \<times> node_id) list \<Rightarrow> dom \<Rightarrow> (node_id \<times> node_id) list \<times> dom" where
  "prepare_cloned_children source target deep stack t =
     (let (stack1, t1) =
        (case Option.bind (node_at t source) template_field of
           Some contents \<Rightarrow>
             (case new_node Document t of
                (copy, t1) \<Rightarrow>
                  (let t2 = with_node_mut target (set_template_field copy) t1
                   in (if deep then map (\<lambda>c. (copy, c)) (children t2 contents) @ stack else stack, t2)))
         | None \<Rightarrow> (stack, t))
      in (if deep then map (\<lambda>c. (target, c)) (children t1 source) @ stack1 else stack1, t1))"

partial_function (option) clone_loop :: "(node_id \<times> node_id) list \<Rightarrow> dom \<Rightarrow> dom option" where
  "clone_loop stack t =
     (case stack of
        [] \<Rightarrow> Some t
      | (parent, source) # rest \<Rightarrow>
         (case node_at t source of
            None \<Rightarrow> clone_loop rest t
          | Some nd \<Rightarrow>
             (case new_node (nd_data nd) t of
                (copy, t1) \<Rightarrow>
                  (case prepare_cloned_children source copy True rest
                          (append_child parent copy (clone_control source copy t1)) of
                     (stack', t2) \<Rightarrow> clone_loop stack' t2))))"

text \<open>\<open>None\<close>: the call does not return.\<close>

definition clone_node :: "node_id \<Rightarrow> bool \<Rightarrow> dom \<Rightarrow> (node_id option \<times> dom) option" where
  "clone_node source deep t =
     (if is_shadow_root t source then Some (None, t)
      else case node_at t source of
        None \<Rightarrow> Some (None, t)
      | Some nd \<Rightarrow>
         (case new_node (nd_data nd) t of
            (copy, t1) \<Rightarrow>
              (case prepare_cloned_children source copy deep [] (clone_control source copy t1) of
                 (stack, t2) \<Rightarrow> map_option (\<lambda>t'. (Some copy, t')) (clone_loop stack t2))))"

partial_function (option) import_loop ::
    "dom \<Rightarrow> (node_id \<times> node_id) list \<Rightarrow> node_id option \<Rightarrow> dom \<Rightarrow> (node_id option \<times> dom) option" where
  "import_loop source stack imported t =
     (case stack of
        [] \<Rightarrow> Some (imported, t)
      | (parent, i) # rest \<Rightarrow>
         (case node_at source i of
            None \<Rightarrow> import_loop source rest imported t
          | Some nd \<Rightarrow>
             (case new_node (nd_data nd) t of
                (copy, t1) \<Rightarrow>
                  (let t2 = append_child parent copy t1;
                       imported' = (case imported of None \<Rightarrow> Some copy | Some r \<Rightarrow> Some r);
                       (stack1, t3) =
                         (case Option.bind (node_at t2 copy) template_field of
                            Some contents \<Rightarrow>
                              (case new_node Document t2 of
                                 (copy_contents, t3) \<Rightarrow>
                                   (map (\<lambda>c. (copy_contents, c)) (children source contents) @ rest,
                                    upd_node copy (set_template_field copy_contents) t3))
                          | None \<Rightarrow> (rest, t2))
                   in import_loop source (map (\<lambda>c. (copy, c)) (children source i) @ stack1) imported' t3))))"

definition import_node_from :: "node_id \<Rightarrow> dom \<Rightarrow> node_id \<Rightarrow> dom \<Rightarrow> (node_id option \<times> dom) option" where
  "import_node_from parent source i t = import_loop source [(parent, i)] None t"

fun import_all :: "node_id \<Rightarrow> dom \<Rightarrow> node_id list \<Rightarrow> dom \<Rightarrow> dom option" where
  "import_all parent source [] t = Some t"
| "import_all parent source (i # is) t =
     Option.bind (import_node_from parent source i t) (\<lambda>(_, t'). import_all parent source is t')"

definition import_children_from :: "node_id \<Rightarrow> dom \<Rightarrow> node_id \<Rightarrow> dom \<Rightarrow> dom option" where
  "import_children_from parent source i t = import_all parent source (children source i) t"

end
