(* ===== verification/DomLinks.thy ===== *)
theory DomLinks
  imports DomOps
begin

text \<open>
  The pointer fields represent child lists. \<open>links_ok t kids\<close> says that the links of the arena \<open>t\<close> are
  exactly those of the child lists \<open>kids\<close>; unlinking a node removes it from the list of its parent, linking
  appends it or puts it before an existing child, and nothing else changes.
\<close>

section \<open>Reading the links of an updated arena\<close>

lemma links_upd_keep [dom_acc]:
  "(\<And>nd. nd_parent (f nd) = nd_parent nd) \<Longrightarrow> parent_of (upd_node i f t) = parent_of t"
  "(\<And>nd. nd_first_child (f nd) = nd_first_child nd) \<Longrightarrow> first_of (upd_node i f t) = first_of t"
  "(\<And>nd. nd_last_child (f nd) = nd_last_child nd) \<Longrightarrow> last_of (upd_node i f t) = last_of t"
  "(\<And>nd. nd_prev_sibling (f nd) = nd_prev_sibling nd) \<Longrightarrow> prev_of (upd_node i f t) = prev_of t"
  "(\<And>nd. nd_next_sibling (f nd) = nd_next_sibling nd) \<Longrightarrow> next_of (upd_node i f t) = next_of t"
  "(\<And>nd. nd_connected (f nd) = nd_connected nd) \<Longrightarrow> is_connected (upd_node i f t) = is_connected t"
  by (auto simp: fun_eq_iff parent_of_def first_of_def last_of_def prev_of_def next_of_def is_connected_def
      node_at_upd split: option.split bind_split)

lemma links_upd_set [dom_acc]:
  "next_of (upd_node i (\<lambda>nd. nd\<lparr>nd_next_sibling := v\<rparr>) t) = (\<lambda>j. if j = i \<and> alive t i then v else next_of t j)"
  "prev_of (upd_node i (\<lambda>nd. nd\<lparr>nd_prev_sibling := v\<rparr>) t) = (\<lambda>j. if j = i \<and> alive t i then v else prev_of t j)"
  "first_of (upd_node i (\<lambda>nd. nd\<lparr>nd_first_child := v\<rparr>) t) = (\<lambda>j. if j = i \<and> alive t i then v else first_of t j)"
  "last_of (upd_node i (\<lambda>nd. nd\<lparr>nd_last_child := v\<rparr>) t) = (\<lambda>j. if j = i \<and> alive t i then v else last_of t j)"
  by (auto simp: fun_eq_iff first_of_def last_of_def prev_of_def next_of_def alive_def node_at_upd
      split: bind_split option.split)

text \<open>The three fields of a node that is linked somewhere else.\<close>

lemma links_upd_place [dom_acc]:
  fixes a b c :: "node_id option" and i :: node_id and t :: dom
  defines "t' \<equiv> upd_node i (\<lambda>nd. nd\<lparr>nd_parent := a, nd_prev_sibling := b, nd_next_sibling := c\<rparr>) t"
  shows "parent_of t' = (\<lambda>j. if j = i \<and> alive t i then a else parent_of t j)"
    "prev_of t' = (\<lambda>j. if j = i \<and> alive t i then b else prev_of t j)"
    "next_of t' = (\<lambda>j. if j = i \<and> alive t i then c else next_of t j)"
  by (auto simp: t'_def fun_eq_iff parent_of_def prev_of_def next_of_def alive_def node_at_upd
      split: bind_split option.split)

lemma links_upd_ends [dom_acc]:
  fixes i c :: node_id and t :: dom
  defines "t' \<equiv> upd_node i (\<lambda>nd. nd\<lparr>nd_first_child := (if nd_first_child nd = None then Some c else nd_first_child nd),
                                 nd_last_child := Some c\<rparr>) t"
  shows "first_of t' = (\<lambda>j. if j = i \<and> alive t i \<and> first_of t j = None then Some c else first_of t j)"
    "last_of t' = (\<lambda>j. if j = i \<and> alive t i then Some c else last_of t j)"
  by (auto simp: t'_def fun_eq_iff first_of_def last_of_def alive_def node_at_upd split: bind_split option.split)

lemma links_invalidate [dom_acc]:
  "parent_of (invalidate_cssom_source i t) = parent_of t" "first_of (invalidate_cssom_source i t) = first_of t"
  "last_of (invalidate_cssom_source i t) = last_of t" "prev_of (invalidate_cssom_source i t) = prev_of t"
  "next_of (invalidate_cssom_source i t) = next_of t" "is_connected (invalidate_cssom_source i t) = is_connected t"
  by (rule link_cong; simp)+

lemma links_clear [dom_acc]:
  "parent_of (clear_cssom i t) = parent_of t" "first_of (clear_cssom i t) = first_of t"
  "last_of (clear_cssom i t) = last_of t" "prev_of (clear_cssom i t) = prev_of t"
  "next_of (clear_cssom i t) = next_of t" "is_connected (clear_cssom i t) = is_connected t"
  by (rule link_cong; simp)+

section \<open>Relinking segments\<close>

lemma dll_set_last:
  "dll nx pv b xs a \<Longrightarrow> distinct xs \<Longrightarrow> dll (\<lambda>j. if Some j = last_opt xs None then a' else nx j) pv b xs a'"
proof (cases xs rule: rev_cases)
  case (snoc ys y)
  assume "dll nx pv b xs a" "distinct xs"
  then have y: "dll nx pv b ys (Some y)" "pv y = last_opt ys b" "y \<notin> set ys" by (auto simp: snoc dll_snoc)
  have "dll (\<lambda>j. if j = y then a' else nx j) pv b ys (Some y)"
    using y(1) by (rule dll_cong [THEN iffD1, rotated -1]) (use y(3) in auto)
  with y(2) show ?thesis by (simp add: snoc dll_snoc)
qed simp

lemma dll_set_first:
  "dll nx pv b xs a \<Longrightarrow> distinct xs \<Longrightarrow> dll nx (\<lambda>j. if Some j = first_opt xs None then b' else pv j) b' xs a"
proof (cases xs)
  case (Cons x ys)
  assume "dll nx pv b xs a" "distinct xs"
  then have x: "nx x = first_opt ys a" "dll nx pv (Some x) ys a" "x \<notin> set ys" by (auto simp: Cons)
  have "dll nx (\<lambda>j. if j = x then b' else pv j) (Some x) ys a"
    using x(2) by (rule dll_cong [THEN iffD1, rotated -1]) (use x(3) in auto)
  with x(1) show ?thesis by (simp add: Cons)
qed simp

section \<open>The representation\<close>

definition links_ok :: "dom \<Rightarrow> (node_id \<Rightarrow> node_id list) \<Rightarrow> bool" where
  "links_ok t kids \<longleftrightarrow>
     (\<forall>i. first_of t i = first_opt (kids i) None \<and> last_of t i = last_opt (kids i) None)
     \<and> (\<forall>i. distinct (kids i) \<and> dll (next_of t) (prev_of t) None (kids i) None)
     \<and> (\<forall>i c. c \<in> set (kids i) \<longleftrightarrow> parent_of t c = Some i)
     \<and> (\<forall>c. parent_of t c = None \<longrightarrow> prev_of t c = None \<and> next_of t c = None)
     \<and> (\<forall>i nd. node_at t i = Some nd \<longrightarrow> nd_id nd = i)"

lemma links_okD:
  assumes "links_ok t kids"
  shows "first_of t i = first_opt (kids i) None" "last_of t i = last_opt (kids i) None"
    "distinct (kids i)" "dll (next_of t) (prev_of t) None (kids i) None"
    "c \<in> set (kids i) \<longleftrightarrow> parent_of t c = Some i"
    "parent_of t c = None \<Longrightarrow> prev_of t c = None \<and> next_of t c = None"
    "node_at t i = Some nd \<Longrightarrow> nd_id nd = i"
  using assms unfolding links_ok_def by blast+

lemma alive_links:
  "parent_of t i = Some p \<Longrightarrow> alive t i" "first_of t i = Some c \<Longrightarrow> alive t i"
  "next_of t i = Some c \<Longrightarrow> alive t i" "prev_of t i = Some c \<Longrightarrow> alive t i" "is_connected t i \<Longrightarrow> alive t i"
  by (auto simp: parent_of_def first_of_def next_of_def prev_of_def is_connected_def alive_def bind_eq_Some_conv split: option.splits)

lemma kids_alive:
  assumes "links_ok t kids" and "c \<in> set (kids i)"
  shows "alive t c" "alive t i" "parent_of t c = Some i"
proof -
  show p: "parent_of t c = Some i" using links_okD(5) [OF assms(1)] assms(2) by blast
  then show "alive t c" by (rule alive_links)
  have "kids i \<noteq> []" using assms(2) by auto
  then obtain d where "first_of t i = Some d" using links_okD(1) [OF assms(1)] by (cases "kids i") auto
  then show "alive t i" by (rule alive_links)
qed

lemma kids_dead: "links_ok t kids \<Longrightarrow> \<not> alive t i \<Longrightarrow> kids i = []"
  using kids_alive(2) [of t kids "hd (kids i)" i] by (cases "kids i") auto

lemma kids_length: "links_ok t kids \<Longrightarrow> length (kids i) \<le> length (dm_nodes t)"
proof (rule distinct_length_le)
  assume ok: "links_ok t kids"
  show "distinct (kids i)" by (rule links_okD(3) [OF ok])
  fix c assume "c \<in> set (kids i)"
  then have "alive t c" by (rule kids_alive(1) [OF ok])
  then show "c < length (dm_nodes t)" by (auto simp: alive_def node_at_def slot_def split: if_splits)
qed

lemma children_kids:
  assumes "links_ok t kids"
  shows "children t i = kids i"
  unfolding children_def links_okD(1) [OF assms]
  by (rule walk_complete [OF links_okD(4) [OF assms]]) (use kids_length [OF assms, of i] in simp)

text \<open>Only the links matter.\<close>

lemma links_ok_cong:
  assumes "parent_of t' = parent_of t" "first_of t' = first_of t" "last_of t' = last_of t"
    "prev_of t' = prev_of t" "next_of t' = next_of t" "\<And>i nd. node_at t' i = Some nd \<Longrightarrow> nd_id nd = i"
  shows "links_ok t kids \<Longrightarrow> links_ok t' kids"
  using assms unfolding links_ok_def by simp

lemma links_ok_split:
  assumes "links_ok t kids" and "parent_of t c = Some p"
  obtains xs ys where "kids p = xs @ c # ys" "c \<notin> set xs" "c \<notin> set ys" "distinct (xs @ ys)"
    "prev_of t c = last_opt xs None" "next_of t c = first_opt ys None"
    "dll (next_of t) (prev_of t) None xs (Some c)" "dll (next_of t) (prev_of t) (Some c) ys None"
proof -
  have "c \<in> set (kids p)" using links_okD(5) [OF assms(1)] assms(2) by blast
  then obtain xs ys where k: "kids p = xs @ c # ys" by (meson split_list)
  with links_okD(3,4) [OF assms(1), of p] show thesis
    by (intro that [of xs ys]) (auto simp: dll_append)
qed

section \<open>Unlinking\<close>

lemma last_apart: "distinct (xs @ zs) \<Longrightarrow> xs \<noteq> [] \<Longrightarrow> last xs \<notin> set zs"
  by (metis Int_iff distinct_append empty_iff last_in_set)

lemma hd_apart: "distinct (xs @ ys) \<Longrightarrow> ys \<noteq> [] \<Longrightarrow> hd ys \<notin> set xs"
  by (metis Int_iff distinct_append empty_iff hd_in_set)

lemma last_opt_Some: "last_opt xs None = Some x \<longleftrightarrow> xs \<noteq> [] \<and> x = last xs"
  by (auto simp: last_opt_def)

lemma first_opt_Some: "first_opt xs None = Some x \<longleftrightarrow> xs \<noteq> [] \<and> x = hd xs"
  by (cases xs) auto

lemma links_others:
  assumes ok: "links_ok t kids" and "q \<noteq> p"
    and same: "\<And>j. parent_of t j \<noteq> Some p \<Longrightarrow> j \<noteq> c \<Longrightarrow> nx j = next_of t j \<and> pv j = prev_of t j"
    and c: "parent_of t c = Some p \<or> parent_of t c = None"
  shows "dll nx pv None (kids q) None"
proof -
  have "nx j = next_of t j \<and> pv j = prev_of t j" if "j \<in> set (kids q)" for j
    using that links_okD(5) [OF ok] \<open>q \<noteq> p\<close> c by (intro same) auto
  then show ?thesis using links_okD(4) [OF ok, of q] dll_cong [of "kids q" nx "next_of t" pv "prev_of t"] by simp
qed

lemma cut_alive [simp]: "alive (cut_links i a b c t) j = alive t j"
  by (simp add: cut_links_def Let_def split: option.split)

lemma cut_ids: "(\<And>i nd. node_at t i = Some nd \<Longrightarrow> nd_id nd = i) \<Longrightarrow>
    node_at (cut_links i a b c t) j = Some nd \<Longrightarrow> nd_id nd = j"
  by (auto simp: cut_links_def Let_def node_at_upd split: option.splits if_splits)

lemma cut_links_ok:
  assumes ok: "links_ok t kids" and c: "parent_of t c = Some p"
  defines "t' \<equiv> cut_links c (parent_of t c) (prev_of t c) (next_of t c) t"
  shows "links_ok t' (kids(p := removeAll c (kids p)))"
    and "parent_of t' = (parent_of t)(c := None)"
proof -
  from links_ok_split [OF ok c] obtain xs ys where k: "kids p = xs @ c # ys" "c \<notin> set xs" "c \<notin> set ys" "distinct (xs @ ys)"
    and pn: "prev_of t c = last_opt xs None" "next_of t c = first_opt ys None"
    and seg: "dll (next_of t) (prev_of t) None xs (Some c)" "dll (next_of t) (prev_of t) (Some c) ys None" .
  have new: "removeAll c (kids p) = xs @ ys" by (simp add: k removeAll_middle)
  have live: "alive t c" "alive t p" using kids_alive [OF ok, of c p] k(1) by auto
  have kid: "alive t j" if "j \<in> set (xs @ ys)" for j using kids_alive(1) [OF ok, of j p] that k(1) by auto
  have lastx: "alive t (last xs)" "last xs \<in> set xs" if "xs \<noteq> []" using kid [of "last xs"] that by auto
  have hdy: "alive t (hd ys)" "hd ys \<in> set ys" if "ys \<noteq> []" using kid [of "hd ys"] that by auto
  have apart: "xs \<noteq> [] \<Longrightarrow> last xs \<notin> set ys" "ys \<noteq> [] \<Longrightarrow> hd ys \<notin> set xs"
    by (rule last_apart [OF k(4)], simp) (rule hd_apart [OF k(4)])
  have par: "parent_of t' = (parent_of t)(c := None)"
    using live by (auto simp: t'_def cut_links_def Let_def dom_acc fun_eq_iff split: option.split)
  have nx: "next_of t' = (\<lambda>j. if j = c then None else if Some j = last_opt xs None then first_opt ys None else next_of t j)"
    unfolding t'_def cut_links_def Let_def c pn using live lastx hdy k(2,3)
    by (cases "xs = []"; cases "ys = []") (auto simp: dom_acc fun_eq_iff last_opt_def first_opt_def split: list.split)
  have pv: "prev_of t' = (\<lambda>j. if j = c then None else if Some j = first_opt ys None then last_opt xs None else prev_of t j)"
    unfolding t'_def cut_links_def Let_def c pn using live lastx hdy k(2,3)
    by (cases "xs = []"; cases ys) (auto simp: dom_acc fun_eq_iff last_opt_def)
  have fi: "first_of t' = (\<lambda>j. if j = p then first_opt (xs @ ys) None else first_of t j)"
    unfolding t'_def cut_links_def Let_def c pn using live links_okD(1) [OF ok, of p]
    by (cases xs; cases ys) (auto simp: dom_acc fun_eq_iff last_opt_def k(1))
  have la: "last_of t' = (\<lambda>j. if j = p then last_opt (xs @ ys) None else last_of t j)"
    unfolding t'_def cut_links_def Let_def c pn using live links_okD(2) [OF ok, of p]
    by (cases "xs = []"; cases ys) (auto simp: dom_acc fun_eq_iff last_opt_def k(1))
  have "dll (next_of t') (prev_of t') None (xs @ ys) None"
  proof -
    have "dll (\<lambda>j. if Some j = last_opt xs None then first_opt ys None else next_of t j) (prev_of t) None xs (first_opt ys None)"
      by (rule dll_set_last [OF seg(1)]) (use k(4) in simp)
    then have "dll (next_of t') (prev_of t') None xs (first_opt ys None)"
      by (rule dll_cong [THEN iffD1, rotated -1])
        (use k apart(2) in \<open>auto simp: nx pv first_opt_Some eq_commute [of "Some _"]\<close>)
    moreover have "dll (next_of t) (\<lambda>j. if Some j = first_opt ys None then last_opt xs None else prev_of t j)
        (last_opt xs None) ys None"
      by (rule dll_set_first [OF seg(2)]) (use k(4) in simp)
    then have "dll (next_of t') (prev_of t') (last_opt xs None) ys None"
      by (rule dll_cong [THEN iffD1, rotated -1])
        (use k apart(1) in \<open>auto simp: nx pv last_opt_Some eq_commute [of "Some _"]\<close>)
    ultimately show ?thesis by (simp add: dll_append)
  qed
  moreover have "dll (next_of t') (prev_of t') None (kids q) None" if "q \<noteq> p" for q
  proof (rule links_others [OF ok that, of c])
    fix j assume j: "parent_of t j \<noteq> Some p" "j \<noteq> c"
    then have "j \<notin> set (kids p)" using links_okD(5) [OF ok] by blast
    then have "Some j \<noteq> last_opt xs None" "Some j \<noteq> first_opt ys None"
      using lastx(2) hdy(2) k(1) by (auto simp: last_opt_Some first_opt_Some eq_commute [of "Some j"])
    with j(2) show "next_of t' j = next_of t j \<and> prev_of t' j = prev_of t j" by (simp add: nx pv)
  qed (use c in simp)
  moreover have "nd_id nd = i" if "node_at t' i = Some nd" for i nd
    by (rule cut_ids [OF _ that [unfolded t'_def]]) (rule links_okD(7) [OF ok])
  moreover have "prev_of t' j = None \<and> next_of t' j = None" if "parent_of t' j = None" for j
  proof (cases "j = c")
    case False
    with that have "parent_of t j = None" by (simp add: par)
    moreover from this have "j \<notin> set (kids p)" using links_okD(5) [OF ok] by simp
    then have "Some j \<noteq> last_opt xs None" "Some j \<noteq> first_opt ys None"
      using lastx(2) hdy(2) k(1) by (auto simp: last_opt_Some first_opt_Some eq_commute [of "Some j"])
    ultimately show ?thesis using links_okD(6) [OF ok, of j] False by (simp add: nx pv)
  qed (simp add: nx pv)
  moreover have "j \<in> set ((kids(p := xs @ ys)) i) \<longleftrightarrow> parent_of t' j = Some i" for i j
    using links_okD(5) [OF ok, of j i] links_okD(5) [OF ok, of j p] k c by (auto simp: par)
  ultimately show "links_ok t' (kids(p := removeAll c (kids p)))"
    unfolding new links_ok_def using links_okD(1-3) [OF ok] k(4) by (auto simp: fi la)
  show "parent_of t' = (parent_of t)(c := None)" by (rule par)
qed

section \<open>Linking\<close>

lemma upd_ids:
  "(\<And>nd. node_at t i = Some nd \<Longrightarrow> nd_id (f nd) = nd_id nd) \<Longrightarrow> (\<And>i nd. node_at t i = Some nd \<Longrightarrow> nd_id nd = i) \<Longrightarrow>
   node_at (upd_node i f t) j = Some nd \<Longrightarrow> nd_id nd = j"
  by (auto simp: node_at_upd split: if_splits)

lemma link_last_alive [simp]: "alive (link_last p c t) j = alive t j"
  by (simp add: link_last_def Let_def split: option.split)

lemma link_last_ids: "(\<And>i nd. node_at t i = Some nd \<Longrightarrow> nd_id nd = i) \<Longrightarrow>
    node_at (link_last p c t) j = Some nd \<Longrightarrow> nd_id nd = j"
  by (auto simp: link_last_def Let_def node_at_upd split: option.splits if_splits)

lemma link_last_links:
  assumes ok: "links_ok t kids" and c: "parent_of t c = None" "alive t c" and p: "alive t p" "p \<noteq> c"
  shows "links_ok (link_last p c t) (kids(p := kids p @ [c]))"
    and "parent_of (link_last p c t) = (parent_of t)(c := Some p)"
proof -
  let ?t = "link_last p c t"
  have notin: "c \<notin> set (kids q)" for q using links_okD(5) [OF ok] c(1) by simp
  have last: "last_of t p = last_opt (kids p) None" by (rule links_okD(2) [OF ok])
  have live: "alive t (last (kids p))" "last (kids p) \<noteq> c" if "kids p \<noteq> []"
    using kids_alive(1) [OF ok, of "last (kids p)" p] notin [of p] that last_in_set [OF that] by auto
  have par: "parent_of ?t = (parent_of t)(c := Some p)"
    using c(2) by (auto simp: link_last_def Let_def dom_acc fun_eq_iff split: option.split)
  have nx: "next_of ?t = (\<lambda>j. if j = c then None else if Some j = last_opt (kids p) None then Some c else next_of t j)"
    using c(2) live by (cases "kids p = []") (auto simp: link_last_def Let_def last dom_acc fun_eq_iff last_opt_def)
  have pv: "prev_of ?t = (\<lambda>j. if j = c then last_opt (kids p) None else prev_of t j)"
    using c(2) by (cases "kids p = []") (auto simp: link_last_def Let_def last dom_acc fun_eq_iff last_opt_def)
  have fi: "first_of ?t = (\<lambda>j. if j = p then first_opt (kids p @ [c]) None else first_of t j)"
    using p(1) links_okD(1) [OF ok, of p]
    by (cases "kids p") (auto simp: link_last_def Let_def last dom_acc fun_eq_iff last_opt_def)
  have la: "last_of ?t = (\<lambda>j. if j = p then Some c else last_of t j)"
    using p(1) by (cases "kids p = []") (auto simp: link_last_def Let_def last dom_acc fun_eq_iff last_opt_def)
  have "dll (next_of ?t) (prev_of ?t) None (kids p @ [c]) None"
  proof -
    have "dll (\<lambda>j. if Some j = last_opt (kids p) None then Some c else next_of t j) (prev_of t) None (kids p) (Some c)"
      by (rule dll_set_last [OF links_okD(4,3) [OF ok]])
    then have "dll (next_of ?t) (prev_of ?t) None (kids p) (Some c)"
      by (rule dll_cong [THEN iffD1, rotated -1]) (use notin [of p] in \<open>auto simp: nx pv\<close>)
    then show ?thesis by (simp add: dll_snoc nx pv)
  qed
  moreover have "dll (next_of ?t) (prev_of ?t) None (kids q) None" if "q \<noteq> p" for q
  proof (rule links_others [OF ok that, of c])
    fix j assume j: "parent_of t j \<noteq> Some p" "j \<noteq> c"
    then have "j \<notin> set (kids p)" using links_okD(5) [OF ok] by blast
    then have "Some j \<noteq> last_opt (kids p) None" by (auto simp: last_opt_Some eq_commute [of "Some j"])
    with j(2) show "next_of ?t j = next_of t j \<and> prev_of ?t j = prev_of t j" by (simp add: nx pv)
  qed (use c in simp)
  moreover have "nd_id nd = i" if "node_at ?t i = Some nd" for i nd
    by (rule link_last_ids [OF _ that]) (rule links_okD(7) [OF ok])
  moreover have "prev_of ?t j = None \<and> next_of ?t j = None" if "parent_of ?t j = None" for j
  proof -
    have j: "j \<noteq> c" "parent_of t j = None" using that by (auto simp: par split: if_splits)
    then have "j \<notin> set (kids p)" using links_okD(5) [OF ok] by simp
    then have "Some j \<noteq> last_opt (kids p) None" by (auto simp: last_opt_Some eq_commute [of "Some j"])
    with links_okD(6) [OF ok j(2)] j show ?thesis by (simp add: nx pv)
  qed
  moreover have "j \<in> set ((kids(p := kids p @ [c])) i) \<longleftrightarrow> parent_of ?t j = Some i" for i j
    using links_okD(5) [OF ok, of j i] notin by (auto simp: par)
  moreover have "distinct (kids p @ [c])" using links_okD(3) [OF ok] notin by simp
  ultimately show "links_ok ?t (kids(p := kids p @ [c]))"
    unfolding links_ok_def using links_okD(1-3) [OF ok] by (simp add: fi la)
  show "parent_of ?t = (parent_of t)(c := Some p)" by (rule par)
qed

lemma link_before_alive [simp]: "alive (link_before p e c t) j = alive t j"
  by (simp add: link_before_def Let_def split: option.split)

lemma link_before_ids: "(\<And>i nd. node_at t i = Some nd \<Longrightarrow> nd_id nd = i) \<Longrightarrow>
    node_at (link_before p e c t) j = Some nd \<Longrightarrow> nd_id nd = j"
  by (auto simp: link_before_def Let_def node_at_upd split: option.splits if_splits)

lemma link_before_links:
  assumes ok: "links_ok t kids" and c: "parent_of t c = None" "alive t c" and e: "parent_of t e = Some p"
    and k: "kids p = xs @ e # ys"
  shows "links_ok (link_before p e c t) (kids(p := xs @ c # e # ys))"
    and "parent_of (link_before p e c t) = (parent_of t)(c := Some p)"
proof -
  let ?t = "link_before p e c t"
  have notin: "c \<notin> set (kids q)" for q using links_okD(5) [OF ok] c(1) by simp
  have d: "distinct (xs @ e # ys)" using links_okD(3) [OF ok, of p] k by simp
  have "dll (next_of t) (prev_of t) None (xs @ e # ys) None" using links_okD(4) [OF ok, of p] k by simp
  then have seg: "dll (next_of t) (prev_of t) None xs (Some e)" "prev_of t e = last_opt xs None"
    "next_of t e = first_opt ys None" "dll (next_of t) (prev_of t) (Some e) ys None"
    by (simp_all add: dll_append)
  have live: "alive t e" "alive t p" using kids_alive [OF ok, of e p] k by auto
  have ne: "c \<noteq> e" "c \<notin> set xs" "c \<notin> set ys" using notin [of p] k by auto
  have lastx: "alive t (last xs)" "last xs \<noteq> c" "last xs \<noteq> e" "last xs \<notin> set ys" if "xs \<noteq> []"
    using that kids_alive(1) [OF ok, of "last xs" p] k ne last_apart [OF d that] last_in_set [OF that] by auto
  have par: "parent_of ?t = (parent_of t)(c := Some p)"
    using c(2) by (auto simp: link_before_def Let_def dom_acc fun_eq_iff split: option.split)
  have nx: "next_of ?t = (\<lambda>j. if j = c then Some e else if Some j = last_opt xs None then Some c else next_of t j)"
    using c(2) lastx
    by (cases "xs = []") (auto simp: link_before_def Let_def seg(2) dom_acc fun_eq_iff last_opt_def)
  have pv: "prev_of ?t = (\<lambda>j. if j = c then last_opt xs None else if j = e then Some c else prev_of t j)"
    using c(2) live ne(1)
    by (cases "xs = []") (auto simp: link_before_def Let_def seg(2) dom_acc fun_eq_iff last_opt_def)
  have fi: "first_of ?t = (\<lambda>j. if j = p then first_opt (xs @ c # e # ys) None else first_of t j)"
    using live links_okD(1) [OF ok, of p]
    by (cases xs) (auto simp: link_before_def Let_def seg(2) dom_acc fun_eq_iff last_opt_def k)
  have la: "last_of ?t = last_of t"
    by (cases "xs = []") (auto simp: link_before_def Let_def seg(2) dom_acc fun_eq_iff last_opt_def)
  have "dll (next_of ?t) (prev_of ?t) None (xs @ c # e # ys) None"
  proof -
    have "dll (\<lambda>j. if Some j = last_opt xs None then Some c else next_of t j) (prev_of t) None xs (Some c)"
      by (rule dll_set_last [OF seg(1)]) (use d in simp)
    then have "dll (next_of ?t) (prev_of ?t) None xs (Some c)"
      by (rule dll_cong [THEN iffD1, rotated -1]) (use d ne in \<open>auto simp: nx pv\<close>)
    moreover have "dll (next_of ?t) (prev_of ?t) (Some e) ys None"
      using seg(4)
      by (rule dll_cong [THEN iffD1, rotated -1])
        (use d ne lastx(4) in \<open>auto simp: nx pv last_opt_Some eq_commute [of "Some _"]\<close>)
    moreover have "Some e \<noteq> last_opt xs None" using lastx(3) by (auto simp: last_opt_Some eq_commute [of "Some _"])
    ultimately show ?thesis using ne(1) seg(3) by (simp add: dll_append nx pv)
  qed
  moreover have "dll (next_of ?t) (prev_of ?t) None (kids q) None" if "q \<noteq> p" for q
  proof (rule links_others [OF ok that, of c])
    fix j assume j: "parent_of t j \<noteq> Some p" "j \<noteq> c"
    then have "j \<notin> set (xs @ e # ys)" using links_okD(5) [OF ok, of j p] k by simp
    then have "Some j \<noteq> last_opt xs None" "j \<noteq> e" by (auto simp: last_opt_Some eq_commute [of "Some j"])
    with j(2) show "next_of ?t j = next_of t j \<and> prev_of ?t j = prev_of t j" by (simp add: nx pv)
  qed (use c in simp)
  moreover have "nd_id nd = i" if "node_at ?t i = Some nd" for i nd
    by (rule link_before_ids [OF _ that]) (rule links_okD(7) [OF ok])
  moreover have "prev_of ?t j = None \<and> next_of ?t j = None" if "parent_of ?t j = None" for j
  proof -
    have j: "j \<noteq> c" "parent_of t j = None" using that by (auto simp: par split: if_splits)
    then have "j \<notin> set (xs @ e # ys)" using links_okD(5) [OF ok, of j p] k by simp
    then have "Some j \<noteq> last_opt xs None" "j \<noteq> e" by (auto simp: last_opt_Some eq_commute [of "Some j"])
    with links_okD(6) [OF ok j(2)] j show ?thesis by (simp add: nx pv)
  qed
  moreover have "j \<in> set ((kids(p := xs @ c # e # ys)) i) \<longleftrightarrow> parent_of ?t j = Some i" for i j
    using links_okD(5) [OF ok, of j i] notin k by (auto simp: par)
  moreover have "distinct (xs @ c # e # ys)" using d ne by simp
  moreover have "last_opt (xs @ c # e # ys) None = last_of t p"
    using links_okD(2) [OF ok, of p] k by (simp add: last_opt_append last_opt_Cons)
  ultimately show "links_ok ?t (kids(p := xs @ c # e # ys))"
    unfolding links_ok_def using links_okD(1-3) [OF ok] by (simp add: fi la)
  show "parent_of ?t = (parent_of t)(c := Some p)" by (rule par)
qed

end
