(* ===== verification/Ancestry.thy ===== *)
theory Ancestry
  imports Prelude
begin

text \<open>
  Paths of a partial function seen as a relation from a node to the node above it: how the paths
  change when one node gets another node above it, and how long they can be. The tree theories use it for
  the parent links together with the links from a shadow root to its host.
\<close>

definition edges :: "('a \<Rightarrow> 'a option) \<Rightarrow> ('a \<times> 'a) set" where
  "edges f = {(i, h). f i = Some h}"

lemma edges_iff [simp]: "(i, h) \<in> edges f \<longleftrightarrow> f i = Some h"
  by (simp add: edges_def)

lemma single_valued_edges: "single_valued (edges f)"
  by (rule single_valuedI) simp

lemma edges_linear: "(x, y) \<in> (edges f)\<^sup>* \<Longrightarrow> (x, z) \<in> (edges f)\<^sup>* \<Longrightarrow> (y, z) \<in> (edges f)\<^sup>* \<or> (z, y) \<in> (edges f)\<^sup>*"
  by (rule single_valued_confluent [OF single_valued_edges])

lemma edges_root: "f d = None \<Longrightarrow> (d, x) \<in> (edges f)\<^sup>* \<longleftrightarrow> x = d"
  by (auto elim: converse_rtranclE)

lemma edges_root_linear:
  assumes "f d = None" and "(i, d) \<in> (edges f)\<^sup>*" and "(i, x) \<in> (edges f)\<^sup>*"
  shows "(x, d) \<in> (edges f)\<^sup>*"
  using edges_linear [OF assms(2,3)] edges_root [of f d x] assms(1) by auto

text \<open>Every node below \<open>c\<close>, with \<open>c\<close> itself.\<close>

definition below_of :: "('a \<Rightarrow> 'a option) \<Rightarrow> 'a \<Rightarrow> 'a set" where
  "below_of f c = {i. (i, c) \<in> (edges f)\<^sup>*}"

lemma below_refl [simp]: "c \<in> below_of f c"
  by (simp add: below_of_def)

lemma below_step: "f i = Some k \<Longrightarrow> k \<in> below_of f c \<Longrightarrow> i \<in> below_of f c"
  by (auto simp: below_of_def intro: converse_rtrancl_into_rtrancl)

lemma below_cases: "i \<in> below_of f c \<Longrightarrow> i = c \<or> (\<exists>k. f i = Some k \<and> k \<in> below_of f c)"
  by (auto simp: below_of_def elim: converse_rtranclE)

lemma below_trans: "i \<in> below_of f k \<Longrightarrow> k \<in> below_of f c \<Longrightarrow> i \<in> below_of f c"
  by (auto simp: below_of_def)

lemma below_leaf: "(\<And>i. f i \<noteq> Some c) \<Longrightarrow> below_of f c = {c}"
  by (auto simp: below_of_def elim: rtranclE)

lemma below_child: "i \<in> below_of f c \<Longrightarrow> i \<noteq> c \<Longrightarrow> \<exists>k. f k = Some c \<and> i \<in> below_of f k"
  unfolding below_of_def by (blast elim: rtranclE dest: edges_iff [THEN iffD1])

section \<open>Moving a node\<close>

lemma cut_paths:
  assumes "(i, c) \<notin> (edges f)\<^sup>*" and "(i, x) \<in> (edges f)\<^sup>*" and g: "\<And>j. j \<noteq> c \<Longrightarrow> g j = f j"
  shows "(i, x) \<in> (edges g)\<^sup>*"
  using assms(2)
proof (induction rule: rtrancl_induct)
  case (step x y)
  then have "x \<noteq> c" using assms(1) by auto
  with step g [of x] have "(x, y) \<in> edges g" by simp
  with step.IH show ?case by (rule rtrancl_into_rtrancl)
qed simp

lemma below_move:
  assumes g: "\<And>j. j \<noteq> c \<Longrightarrow> g j = f j"
  shows "below_of g c = below_of f c"
proof -
  have *: "(i, c) \<in> (edges g)\<^sup>*" if "(i, c) \<in> (edges f)\<^sup>*" and "\<And>j. j \<noteq> c \<Longrightarrow> g j = f j" for f g i
    using that(1)
  proof (induction rule: converse_rtrancl_induct)
    case (step i k)
    show ?case
    proof (cases "i = c")
      case False
      with step that(2) [of i] have "(i, k) \<in> edges g" by simp
      with step.IH show ?thesis by (rule converse_rtrancl_into_rtrancl [rotated])
    qed simp
  qed simp
  show ?thesis using * [of _ f g] * [of _ g f] g by (auto simp: below_of_def)
qed

lemma cut_root:
  assumes "f d = None" and "d \<noteq> c"
  shows "i \<in> below_of (f(c := None)) d \<longleftrightarrow> i \<in> below_of f d \<and> i \<notin> below_of f c"
proof (cases "i \<in> below_of f c")
  case True
  then have "i \<in> below_of (f(c := None)) c" using below_move [of c "f(c := None)" f] by simp
  then have "(i, c) \<in> (edges (f(c := None)))\<^sup>*" by (simp add: below_of_def)
  then have "(i, d) \<notin> (edges (f(c := None)))\<^sup>*"
    using edges_root_linear [of "f(c := None)" d i c] edges_root [of "f(c := None)" c d] assms by auto
  with True show ?thesis by (simp add: below_of_def)
next
  case False
  then have f: "(i, c) \<notin> (edges f)\<^sup>*" by (simp add: below_of_def)
  moreover from this have "(i, c) \<notin> (edges (f(c := None)))\<^sup>*"
    using below_move [of c "f(c := None)" f] by (auto simp: below_of_def)
  ultimately show ?thesis
    using cut_paths [OF f, of d "f(c := None)"] cut_paths [of i c "f(c := None)" d f] False
    by (auto simp: below_of_def)
qed

lemma move_root:
  assumes d: "f d = None" "d \<noteq> c" and p: "p \<notin> below_of f c"
  shows "i \<in> below_of (f(c := Some p)) d \<longleftrightarrow> (if i \<in> below_of f c then p \<in> below_of f d else i \<in> below_of f d)"
proof -
  let ?g = "f(c := Some p)"
  have same: "below_of ?g c = below_of f c" by (rule below_move) simp
  have else_part: "i \<in> below_of ?g d \<longleftrightarrow> i \<in> below_of f d" if "i \<notin> below_of f c" for i
    using that cut_paths [of i c f d ?g] cut_paths [of i c ?g d f] same by (auto simp: below_of_def)
  have "i \<in> below_of ?g d \<longleftrightarrow> p \<in> below_of ?g d" if i: "i \<in> below_of f c"
  proof -
    have "(i, c) \<in> (edges ?g)\<^sup>*" using i same by (auto simp: below_of_def)
    then have ip: "(i, p) \<in> (edges ?g)\<^sup>*" by (rule rtrancl_into_rtrancl) simp
    have "(p, d) \<in> (edges ?g)\<^sup>*" if "(i, d) \<in> (edges ?g)\<^sup>*"
      by (rule edges_root_linear [OF _ that ip]) (use d in simp)
    with ip show ?thesis by (auto simp: below_of_def)
  qed
  with else_part p show ?thesis by simp
qed

lemma acyclic_move:
  assumes "acyclic (edges f)" and "p \<notin> below_of f c"
  shows "acyclic (edges (f(c := Some p)))"
proof -
  have sub: "edges (f(c := Some p)) \<subseteq> insert (c, p) (edges (f(c := None)))"
    by (auto split: if_splits)
  have "edges (f(c := None)) \<subseteq> edges f" by (auto split: if_splits)
  then have "acyclic (edges (f(c := None)))" by (rule acyclic_subset [OF assms(1)])
  moreover have "(p, c) \<notin> (edges (f(c := None)))\<^sup>*"
    using assms(2) below_move [of c "f(c := None)" f] by (auto simp: below_of_def)
  ultimately have "acyclic (insert (c, p) (edges (f(c := None))))" by (simp add: acyclic_insert)
  then show ?thesis using sub by (rule acyclic_subset)
qed

lemma acyclic_cut: "acyclic (edges f) \<Longrightarrow> acyclic (edges (f(c := None)))"
  by (rule acyclic_subset [of "edges f"]) (auto split: if_splits)

section \<open>The length of a path\<close>

definition path_set :: "('a \<Rightarrow> 'a option) \<Rightarrow> 'a \<Rightarrow> 'a set" where
  "path_set f x = {y. (x, y) \<in> (edges f)\<^sup>*}"

lemma path_set_sub:
  assumes "\<And>i h. f i = Some h \<Longrightarrow> h \<in> A" and "x \<in> A"
  shows "path_set f x \<subseteq> A"
  using assms by (auto simp: path_set_def elim: rtranclE)

lemma path_set_step:
  assumes "acyclic (edges f)" and "f x = Some y" and "finite (path_set f x)"
  shows "card (path_set f y) < card (path_set f x)"
proof (rule psubset_card_mono [OF assms(3)])
  have "path_set f y \<subseteq> path_set f x"
    using assms(2) by (auto simp: path_set_def intro: converse_rtrancl_into_rtrancl)
  moreover have "x \<notin> path_set f y"
    using assms(1,2) rtrancl_into_trancl2 [of x y "edges f" x] by (auto simp: path_set_def acyclic_def)
  moreover have "x \<in> path_set f x" by (simp add: path_set_def)
  ultimately show "path_set f y \<subset> path_set f x" by blast
qed

text \<open>The bounded walk along an acyclic partial function reaches the end.\<close>

lemma walk_path:
  assumes "acyclic (edges f)" and "finite (path_set f x)" and "card (path_set f x) \<le> Suc cap"
  shows "walk cap f (Some x) = x # (case f x of Some y \<Rightarrow> walk cap f (Some y) | None \<Rightarrow> [])"
    and "set (walk cap f (Some x)) = path_set f x"
  using assms(2,3)
proof (induction cap arbitrary: x)
  case 0
  have None: "f x = None" if "finite (path_set f x)" "card (path_set f x) \<le> Suc 0" for x
  proof (cases "f x")
    case (Some y)
    have "finite (path_set f y)"
      using that(1) Some
      by (rule_tac finite_subset [OF _ that(1)]) (auto simp: path_set_def intro: converse_rtrancl_into_rtrancl)
    then have "0 < card (path_set f y)" by (auto simp: card_gt_0_iff path_set_def)
    with path_set_step [OF assms(1) Some that(1)] that(2) show ?thesis by simp
  qed
  {
    case 1
    with None have "f x = None" by blast
    then show ?case by simp
  next
    case 2
    with None have "f x = None" by simp
    then show ?case using edges_root [of f x] by (auto simp: path_set_def)
  }
next
  case (Suc cap)
  {
    fix x assume fx: "finite (path_set f x)" and cx: "card (path_set f x) \<le> Suc (Suc cap)"
    have fin: "finite (path_set f y)" if "f x = Some y" for y
      using that by (rule_tac finite_subset [OF _ fx]) (auto simp: path_set_def intro: converse_rtrancl_into_rtrancl)
    have le: "card (path_set f y) \<le> Suc cap" if "f x = Some y" for y
      using path_set_step [OF assms(1) that fx] cx by simp
    have "walk (Suc cap) f (Some y) = walk cap f (Some y)" if "f x = Some y" for y
      using Suc.IH(1) [OF fin [OF that] le [OF that]] by (cases cap; cases "f y") auto
    note fin le this
  } note step = this
  {
    case 1
    show ?case using step(3) [OF 1] by (cases "f x") auto
  next
    case 2
    have "path_set f x = insert x (case f x of Some y \<Rightarrow> path_set f y | None \<Rightarrow> {})"
      unfolding path_set_def by (auto elim: converse_rtranclE intro: converse_rtrancl_into_rtrancl split: option.split)
    then show ?case using Suc.IH(2) [OF step(1,2) [OF 2]] by (cases "f x") auto
  }
qed

end
