(* ===== verification/DomShape.thy ===== *)
theory DomShape
  imports DomLinks Ancestry
begin

text \<open>
  The invariant of the arena: the links represent child lists, the shadow registry is a bijection between
  hosts and parentless roots, the host-including parent relation has no cycle, the connected flag of a
  live node says whether its path ends in the document, and the free list holds exactly the empty slots.
\<close>

section \<open>The frame of the operations that keep all links\<close>

definition same_links :: "dom \<Rightarrow> dom \<Rightarrow> bool" where
  "same_links t t' \<longleftrightarrow>
     parent_of t' = parent_of t \<and> first_of t' = first_of t \<and> last_of t' = last_of t
     \<and> prev_of t' = prev_of t \<and> next_of t' = next_of t \<and> alive t' = alive t
     \<and> (\<forall>i. map_option nd_id (node_at t' i) = map_option nd_id (node_at t i))
     \<and> dm_shadow_roots t' = dm_shadow_roots t \<and> dm_by_host t' = dm_by_host t
     \<and> dm_document t' = dm_document t \<and> dm_free t' = dm_free t
     \<and> length (dm_nodes t') = length (dm_nodes t)"

lemma same_linksD:
  assumes "same_links t t'"
  shows "parent_of t' = parent_of t" "first_of t' = first_of t" "last_of t' = last_of t"
    "prev_of t' = prev_of t" "next_of t' = next_of t" "alive t' = alive t"
    "dm_shadow_roots t' = dm_shadow_roots t" "dm_by_host t' = dm_by_host t"
    "dm_document t' = dm_document t" "dm_free t' = dm_free t" "length (dm_nodes t') = length (dm_nodes t)"
  using assms by (simp_all add: same_links_def)

lemma same_links_refl: "same_links t t"
  by (simp add: same_links_def)

lemma same_links_trans: "same_links t t' \<Longrightarrow> same_links t' t'' \<Longrightarrow> same_links t t''"
  by (simp add: same_links_def)

lemma same_links_upd:
  assumes "\<And>nd. nd_parent (f nd) = nd_parent nd" "\<And>nd. nd_first_child (f nd) = nd_first_child nd"
    "\<And>nd. nd_last_child (f nd) = nd_last_child nd" "\<And>nd. nd_prev_sibling (f nd) = nd_prev_sibling nd"
    "\<And>nd. nd_next_sibling (f nd) = nd_next_sibling nd" "\<And>nd. nd_id (f nd) = nd_id nd"
  shows "same_links t (upd_node i f t)"
  using assms by (simp add: same_links_def dom_acc fun_eq_iff node_at_upd option.map_comp comp_def)

lemma same_links_clear: "same_links t (clear_cssom i t)"
  by (simp add: same_links_def dom_acc fun_eq_iff)

lemma same_links_invalidate: "same_links t (invalidate_cssom_source i t)"
  by (simp add: same_links_def dom_acc fun_eq_iff)

lemma same_links_mark: "same_links t (mark_node b i t)"
  unfolding mark_node_def
  by (rule same_links_trans [OF _ same_links_upd]) (simp_all add: same_links_refl same_links_clear)

lemma same_links_connect: "same_links t (connect_loop b stack seen t)"
proof (induction b stack seen t rule: connect_loop.induct)
  case (2 b i stack seen t)
  consider "i \<in> set seen" | "i \<notin> set seen" "\<not> alive t i" | "i \<notin> set seen" "alive t i" by blast
  then show ?case
  proof cases
    case 1
    then show ?thesis using "2.IH"(1) by simp
  next
    case 2
    have "same_links (if b then t else clear_cssom i t)
        (connect_loop b stack (i # seen) (if b then t else clear_cssom i t))"
      by (rule "2.IH"(2)) (use 2 in auto)
    with 2 show ?thesis
      by (simp add: same_links_trans [OF same_links_clear] split: if_splits)
  next
    case 3
    have "same_links (mark_node b i t)
        (connect_loop b (rev (children (mark_node b i t) i) @ hosted (mark_node b i t) i @ stack) (i # seen) (mark_node b i t))"
      by (rule "2.IH"(3)) (use 3 in auto)
    with 3 show ?thesis by (simp add: Let_def same_links_trans [OF same_links_mark])
  qed
qed (simp add: same_links_refl)

lemma same_links_set_connected: "same_links t (set_subtree_connected i b t)"
  by (simp add: set_subtree_connected_def same_links_mark same_links_connect del: connect_loop.simps)

lemma same_links_children: "same_links t t' \<Longrightarrow> children t' = children t"
  using same_linksD [of t t'] by (intro ext) (simp add: children_def)

lemma same_links_hosted: "same_links t t' \<Longrightarrow> hosted t' = hosted t"
  using same_linksD [of t t'] by (intro ext) (simp add: hosted_def)

lemma same_links_up: "same_links t t' \<Longrightarrow> host_including_parent t' = host_including_parent t"
  using same_linksD [of t t'] by (intro ext) (simp add: host_including_parent_def split: option.split)

lemma same_links_ok: "same_links t t' \<Longrightarrow> links_ok t kids \<Longrightarrow> links_ok t' kids"
proof -
  assume s: "same_links t t'" and ok: "links_ok t kids"
  have "nd_id nd = i" if "node_at t' i = Some nd" for i nd
  proof -
    have "map_option nd_id (node_at t i) = Some (nd_id nd)" using s that unfolding same_links_def by (metis option.simps(9))
    then show ?thesis using links_okD(7) [OF ok] by auto
  qed
  with s ok show ?thesis by (intro links_ok_cong [OF same_linksD(1-5) [OF s]])
qed

section \<open>The parts of the invariant\<close>

definition registry_ok :: "dom \<Rightarrow> bool" where
  "registry_ok t \<longleftrightarrow>
     (\<forall>r info. bm_get (dm_shadow_roots t) r = Some info \<longrightarrow>
        sr_id info = r \<and> bm_get (dm_by_host t) (sr_host info) = Some r
        \<and> alive t r \<and> alive t (sr_host info) \<and> parent_of t r = None \<and> r \<noteq> dm_document t)
     \<and> (\<forall>h r. bm_get (dm_by_host t) h = Some r \<longrightarrow>
        (\<exists>info. bm_get (dm_shadow_roots t) r = Some info \<and> sr_host info = h))"

definition document_ok :: "dom \<Rightarrow> bool" where
  "document_ok t \<longleftrightarrow> alive t (dm_document t) \<and> parent_of t (dm_document t) = None"

definition subtree :: "dom \<Rightarrow> node_id \<Rightarrow> node_id set" where
  "subtree t i = below_of (host_including_parent t) i"

definition connected_ok :: "dom \<Rightarrow> bool" where
  "connected_ok t \<longleftrightarrow> (\<forall>i. is_connected t i \<longleftrightarrow> i \<in> subtree t (dm_document t))"

definition free_ok :: "dom \<Rightarrow> bool" where
  "free_ok t \<longleftrightarrow> distinct (dm_free t) \<and> (\<forall>i. i \<in> set (dm_free t) \<longleftrightarrow> i < length (dm_nodes t) \<and> \<not> alive t i)"

definition shape :: "dom \<Rightarrow> (node_id \<Rightarrow> node_id list) \<Rightarrow> bool" where
  "shape t kids \<longleftrightarrow> links_ok t kids \<and> registry_ok t \<and> document_ok t
     \<and> acyclic (edges (host_including_parent t)) \<and> connected_ok t \<and> free_ok t"

lemma shapeD:
  assumes "shape t kids"
  shows "links_ok t kids" "registry_ok t" "document_ok t" "acyclic (edges (host_including_parent t))"
    "connected_ok t" "free_ok t"
  using assms by (simp_all add: shape_def)

lemma registryD:
  assumes "registry_ok t" and "bm_get (dm_shadow_roots t) r = Some info"
  shows "sr_id info = r" "bm_get (dm_by_host t) (sr_host info) = Some r" "alive t r" "alive t (sr_host info)"
    "parent_of t r = None" "r \<noteq> dm_document t"
  using assms unfolding registry_ok_def by blast+

lemma up_cases:
  assumes "host_including_parent t i = Some h"
  obtains "parent_of t i = Some h"
  | info where "parent_of t i = None" "bm_get (dm_shadow_roots t) i = Some info" "sr_host info = h"
  using assms by (auto simp: host_including_parent_def split: option.splits)

lemma up_alive:
  assumes "links_ok t kids" and "registry_ok t" and "host_including_parent t i = Some h"
  shows "alive t i" "alive t h"
proof -
  have "alive t i \<and> alive t h"
    using assms(3)
  proof (cases rule: up_cases)
    case 1
    then have "i \<in> set (kids h)" using links_okD(5) [OF assms(1)] by blast
    then show ?thesis using kids_alive [OF assms(1)] by blast
  next
    case (2 info)
    then show ?thesis using registryD [OF assms(2) 2(2)] by simp
  qed
  then show "alive t i" "alive t h" by simp_all
qed

lemma document_up: "document_ok t \<Longrightarrow> registry_ok t \<Longrightarrow> host_including_parent t (dm_document t) = None"
  using registryD(6) [of t "dm_document t"]
  by (cases "bm_get (dm_shadow_roots t) (dm_document t)") (auto simp: host_including_parent_def document_ok_def)

lemma subtree_alive:
  assumes "links_ok t kids" and "registry_ok t" and "i \<in> subtree t r" and "i \<noteq> r"
  shows "alive t i"
  using below_cases [OF assms(3) [unfolded subtree_def]] assms(4) up_alive(1) [OF assms(1,2)] by blast

lemma same_links_subtree: "same_links t t' \<Longrightarrow> subtree t' = subtree t"
  by (simp add: subtree_def same_links_up fun_eq_iff)

lemma same_links_shape:
  assumes s: "same_links t t'" and sh: "shape t kids" and c: "is_connected t' = is_connected t"
  shows "shape t' kids"
  unfolding shape_def
  using same_links_ok [OF s shapeD(1) [OF sh]] shapeD [OF sh] same_linksD [OF s] same_links_up [OF s] same_links_subtree [OF s] c
  by (simp add: registry_ok_def document_ok_def connected_ok_def free_ok_def)

section \<open>The worklist of a subtree\<close>

text \<open>The nodes the traversals push for a node are exactly those right below it.\<close>

lemma successors:
  assumes "links_ok t kids" and "registry_ok t"
  shows "set (children t i) \<union> set (hosted t i) = {c. host_including_parent t c = Some i}"
proof -
  have "set (children t i) = {c. parent_of t c = Some i}"
    using links_okD(5) [OF assms(1)] by (auto simp: children_kids [OF assms(1)])
  moreover have "set (hosted t i) = {c. parent_of t c = None \<and> map_option sr_host (bm_get (dm_shadow_roots t) c) = Some i}"
  proof -
    have "c \<in> set (hosted t i) \<longleftrightarrow> bm_get (dm_by_host t) i = Some c" for c
      by (auto simp: hosted_def split: option.split)
    moreover have "bm_get (dm_by_host t) i = Some c \<longleftrightarrow>
        parent_of t c = None \<and> map_option sr_host (bm_get (dm_shadow_roots t) c) = Some i" for c
      using assms(2) unfolding registry_ok_def by fastforce
    ultimately show ?thesis by auto
  qed
  ultimately show ?thesis by (auto simp: host_including_parent_def split: option.splits)
qed

text \<open>A worklist search with a visited set: what was visited has its successors visited or pending.\<close>

definition worklist :: "dom \<Rightarrow> node_id list \<Rightarrow> node_id list \<Rightarrow> bool" where
  "worklist t stack seen \<longleftrightarrow>
     (\<forall>i \<in> set seen. \<forall>c. host_including_parent t c = Some i \<longrightarrow> c \<in> set seen \<or> c \<in> set stack)"

definition pending :: "dom \<Rightarrow> node_id list \<Rightarrow> node_id list \<Rightarrow> node_id set" where
  "pending t stack seen = {j. j \<notin> set seen \<and> (\<exists>s \<in> set stack. j \<in> subtree t s)}"

lemma pending_seen:
  assumes "worklist t (i # stack) seen" and "i \<in> set seen"
  shows "worklist t stack seen" "pending t (i # stack) seen = pending t stack seen"
proof -
  show w: "worklist t stack seen" using assms unfolding worklist_def by auto
  have "j \<in> set seen \<or> (\<exists>s \<in> set stack. j \<in> subtree t s)" if "j \<in> subtree t i" for j
  proof -
    have "(j, i) \<in> (edges (host_including_parent t))\<^sup>*" using that by (simp add: subtree_def below_of_def)
    then show ?thesis
    proof (induction rule: converse_rtrancl_induct)
      case base
      show ?case using assms(2) by simp
    next
      case (step j k)
      from step.IH show ?case
      proof
        assume "k \<in> set seen"
        with w step.hyps(1) have "j \<in> set seen \<or> j \<in> set stack" unfolding worklist_def by auto
        then show ?thesis by (auto simp: subtree_def intro: bexI [of _ j])
      next
        assume "\<exists>s \<in> set stack. k \<in> subtree t s"
        then show ?thesis using step.hyps(1) by (auto simp: subtree_def intro: below_step)
      qed
    qed
  qed
  then show "pending t (i # stack) seen = pending t stack seen" by (auto simp: pending_def)
qed

lemma pending_step:
  assumes "links_ok t kids" and "registry_ok t" and w: "worklist t (i # stack) seen" and new: "i \<notin> set seen"
    and next_def: "set nexts = set (children t i) \<union> set (hosted t i)"
  shows "worklist t (nexts @ stack) (i # seen)" "pending t (i # stack) seen = insert i (pending t (nexts @ stack) (i # seen))"
proof -
  have succ: "set nexts = {c. host_including_parent t c = Some i}"
    unfolding next_def by (rule successors [OF assms(1,2)])
  show "worklist t (nexts @ stack) (i # seen)" using w succ unfolding worklist_def by auto
  have "j = i \<or> (\<exists>s \<in> set nexts. j \<in> subtree t s)" if "j \<in> subtree t i" for j
    using below_child [OF that [unfolded subtree_def]] by (auto simp: succ subtree_def)
  moreover have "j \<in> subtree t i" if "s \<in> set nexts" "j \<in> subtree t s" for s j
    using that below_trans [of j "host_including_parent t" s i] below_step [of "host_including_parent t" s i i]
    by (auto simp: succ subtree_def)
  ultimately show "pending t (i # stack) seen = insert i (pending t (nexts @ stack) (i # seen))"
    using new unfolding pending_def by (auto simp: subtree_def) (metis (no_types, lifting) UnI1 set_append)
qed

lemma pending_dead:
  assumes "links_ok t kids" and "registry_ok t" and "\<not> alive t i" and "i \<notin> set seen" and "worklist t (i # stack) seen"
  shows "worklist t stack (i # seen)" "pending t (i # stack) seen = insert i (pending t stack (i # seen))"
proof -
  have none: "host_including_parent t c \<noteq> Some i" for c using up_alive(2) [OF assms(1,2)] assms(3) by blast
  then show "worklist t stack (i # seen)" using assms(5) unfolding worklist_def by auto
  have "subtree t i = {i}" unfolding subtree_def by (rule below_leaf) (rule none)
  then show "pending t (i # stack) seen = insert i (pending t stack (i # seen))"
    using assms(4) by (auto simp: pending_def)
qed

lemma mark_connected: "is_connected (mark_node b i t) = (\<lambda>j. if j = i \<and> alive t i then b else is_connected t j)"
  by (auto simp: fun_eq_iff mark_node_def is_connected_def node_at_upd alive_def split: option.split)

lemma connect_loop_flags:
  assumes "links_ok t kids" and "registry_ok t" and "worklist t stack seen"
  shows "is_connected (connect_loop b stack seen t) j =
    (if alive t j \<and> j \<in> pending t stack seen then b else is_connected t j)"
  using assms
proof (induction b stack seen t rule: connect_loop.induct)
  case (1 b seen t)
  then show ?case by (simp add: pending_def)
next
  case (2 b i stack seen t)
  note ok = "2.prems"(1,2) and w = "2.prems"(3)
  consider "i \<in> set seen" | "i \<notin> set seen" "\<not> alive t i" | "i \<notin> set seen" "alive t i" by blast
  then show ?case
  proof cases
    case 1
    then show ?thesis using "2.IH"(1) [OF 1 ok pending_seen(1) [OF w 1]] pending_seen(2) [OF w 1] by simp
  next
    case 2
    let ?t = "if b then t else clear_cssom i t"
    have s: "same_links t ?t" by (simp add: same_links_refl same_links_clear)
    have reg: "registry_ok ?t" using ok(2) by (simp add: registry_ok_def dom_acc)
    have w': "worklist ?t stack (i # seen)"
      using pending_dead(1) [OF ok 2(2,1) w] by (simp add: worklist_def same_links_up [OF s])
    have p: "pending ?t stack (i # seen) = pending t stack (i # seen)"
      by (simp add: pending_def same_links_subtree [OF s])
    have "is_connected (connect_loop b stack (i # seen) ?t) j =
        (if alive ?t j \<and> j \<in> pending ?t stack (i # seen) then b else is_connected ?t j)"
      by (rule "2.IH"(2) [OF 2(1) _ same_links_ok [OF s ok(1)] reg w']) (use 2(2) in simp)
    moreover have "is_connected ?t = is_connected t" by (simp add: dom_acc)
    moreover have "alive ?t = alive t" by (rule same_linksD(6) [OF s])
    ultimately show ?thesis
      using 2 pending_dead(2) [OF ok 2(2,1) w] unfolding p by auto
  next
    case 3
    let ?t = "mark_node b i t"
    let ?n = "rev (children ?t i) @ hosted ?t i"
    have s: "same_links t ?t" by (rule same_links_mark)
    have n: "set ?n = set (children t i) \<union> set (hosted t i)"
      by (simp add: same_links_children [OF s] same_links_hosted [OF s])
    have reg: "registry_ok ?t" using ok(2) same_linksD [OF s] by (simp add: registry_ok_def)
    have w': "worklist ?t (?n @ stack) (i # seen)"
      using pending_step(1) [OF ok w 3(1) n] by (simp add: worklist_def same_links_up [OF s])
    have p: "pending ?t (?n @ stack) (i # seen) = pending t (?n @ stack) (i # seen)"
      by (simp add: pending_def same_links_subtree [OF s])
    have "is_connected (connect_loop b (rev (children ?t i) @ hosted ?t i @ stack) (i # seen) ?t) j =
        (if alive ?t j \<and> j \<in> pending ?t (?n @ stack) (i # seen) then b else is_connected ?t j)"
      using "2.IH"(3) [OF 3(1) _ refl same_links_ok [OF s ok(1)] reg] 3(2) w' by simp
    moreover have "alive ?t = alive t" by (rule same_linksD(6) [OF s])
    ultimately show ?thesis
      using 3 pending_step(2) [OF ok w 3(1) n] unfolding p by (auto simp: Let_def mark_connected)
  qed
qed

lemma set_connected_flags:
  assumes "links_ok t kids" and "registry_ok t" and "alive t r"
  shows "is_connected (set_subtree_connected r b t) j = (if j \<in> subtree t r then b else is_connected t j)"
proof (cases "(case node_at t r of Some nd \<Rightarrow> nd_first_child nd = None | None \<Rightarrow> False) \<and> \<not> bm_has (dm_by_host t) r")
  case True
  then have "first_of t r = None" by (auto simp: first_of_def split: option.splits)
  then have "children t r = []" by (simp add: children_def)
  moreover have "hosted t r = []" using True by (auto simp: hosted_def bm_has_def split: option.split)
  ultimately have "{c. host_including_parent t c = Some r} = {}" using successors [OF assms(1,2), of r] by simp
  then have "subtree t r = {r}" unfolding subtree_def by (intro below_leaf) auto
  with True assms(3) show ?thesis by (simp add: set_subtree_connected_def mark_connected)
next
  case False
  have w: "worklist t [r] []" by (simp add: worklist_def)
  have "alive t j" if "j \<in> subtree t r" using subtree_alive [OF assms(1,2) that] assms(3) by (cases "j = r") auto
  with False connect_loop_flags [OF assms(1,2) w, of b j] show ?thesis
    by (auto simp: set_subtree_connected_def pending_def)
qed

text \<open>The slots an owned subtree occupies, each once.\<close>

lemma owned_loop_set:
  assumes "links_ok t kids" and "registry_ok t" and "worklist t stack seen"
  shows "set (owned_loop t stack seen) = {j \<in> pending t stack seen. alive t j}"
    and "distinct (owned_loop t stack seen)"
  using assms
proof (induction t stack seen rule: owned_loop.induct)
  case (1 t seen)
  case 1 then show ?case by (simp add: pending_def)
  case 2 then show ?case by simp
next
  case (2 t i stack seen)
  {
    assume ok: "links_ok t kids" "registry_ok t" and w: "worklist t (i # stack) seen"
    consider "i \<in> set seen" | "i \<notin> set seen" "\<not> alive t i" | "i \<notin> set seen" "alive t i" by blast
    then have "set (owned_loop t (i # stack) seen) = {j \<in> pending t (i # stack) seen. alive t j}
        \<and> distinct (owned_loop t (i # stack) seen)"
    proof cases
      case 1
      then show ?thesis
        using "2.IH"(1,2) [OF 1 ok pending_seen(1) [OF w 1]] pending_seen(2) [OF w 1] by simp
    next
      case 2
      then show ?thesis
        using "2.IH"(3,4) [OF 2(1) _ ok pending_dead(1) [OF ok 2(2,1) w]] pending_dead(2) [OF ok 2(2,1) w] by auto
    next
      case 3
      let ?n = "children t i @ hosted t i"
      have n: "set ?n = set (children t i) \<union> set (hosted t i)" by simp
      have w': "worklist t (children t i @ hosted t i @ stack) (i # seen)"
        using pending_step(1) [OF ok w 3(1) n] by simp
      have set': "set (owned_loop t (children t i @ hosted t i @ stack) (i # seen)) =
            {j \<in> pending t (?n @ stack) (i # seen). alive t j}"
        using "2.IH"(5) [OF 3(1) _ ok w'] 3(2) by simp
      moreover have "distinct (owned_loop t (children t i @ hosted t i @ stack) (i # seen))"
        using "2.IH"(6) [OF 3(1) _ ok w'] 3(2) by simp
      moreover have "i \<notin> pending t (?n @ stack) (i # seen)" by (simp add: pending_def)
      ultimately show ?thesis using 3 pending_step(2) [OF ok w 3(1) n] by auto
    qed
  } note both = this
  case 1 then show ?case using both by blast
  case 2 then show ?case using both by blast
qed

lemma owned_subtree:
  assumes "links_ok t kids" and "registry_ok t"
  shows "set (inclusive_owned_subtrees t i) = (if alive t i then subtree t i else {})"
    and "distinct (inclusive_owned_subtrees t i)"
proof -
  have w: "worklist t [i] []" by (simp add: worklist_def)
  have "alive t j" if "j \<in> subtree t i" "alive t i" for j
    using subtree_alive [OF assms that(1)] that(2) by (cases "j = i") auto
  with owned_loop_set [OF assms w] show "set (inclusive_owned_subtrees t i) = (if alive t i then subtree t i else {})"
    "distinct (inclusive_owned_subtrees t i)"
    by (auto simp: inclusive_owned_subtrees_def pending_def)
qed

end
