(* ===== verification/DomInv.thy ===== *)
theory DomInv
  imports DomShape
begin

text \<open>
  Every operation of the arena keeps its invariant, with the child lists it leaves: detaching removes a
  node from its parent's list, \<open>append_child\<close> puts it last, \<open>insert_before\<close> before the reference, allocation
  adds an unlinked node and freeing takes a whole owned subtree out.
\<close>

section \<open>The initial tree\<close>

lemma shape_new: "shape dom_new (\<lambda>_. [])"
proof -
  have node: "node_at dom_new i = (if i = 0 then Some ((fresh_node 0 Document)\<lparr>nd_connected := True\<rparr>) else None)" for i
    by (simp add: dom_new_def node_at_def slot_def)
  have links: "parent_of dom_new = (\<lambda>_. None)" "first_of dom_new = (\<lambda>_. None)" "last_of dom_new = (\<lambda>_. None)"
    "prev_of dom_new = (\<lambda>_. None)" "next_of dom_new = (\<lambda>_. None)" "alive dom_new = (\<lambda>i. i = 0)"
    "is_connected dom_new = (\<lambda>i. i = 0)"
    by (simp_all add: fun_eq_iff parent_of_def first_of_def last_of_def prev_of_def next_of_def alive_def is_connected_def
        node fresh_node_def)
  have fields: "dm_document dom_new = 0" "dm_shadow_roots dom_new = []" "dm_by_host dom_new = []" "dm_free dom_new = []"
    "length (dm_nodes dom_new) = 1" by (simp_all add: dom_new_def)
  have up: "host_including_parent dom_new = (\<lambda>_. None)"
    by (simp add: fun_eq_iff host_including_parent_def links fields)
  have "edges (\<lambda>_::nat. None :: nat option) = {}" by (simp add: edges_def)
  moreover have "nd_id nd = i" if "node_at dom_new i = Some nd" for i nd
    using that by (auto simp: node fresh_node_def split: if_splits)
  ultimately show ?thesis
    unfolding shape_def
    by (simp add: links_ok_def registry_ok_def document_ok_def connected_ok_def free_ok_def links fields up
        subtree_def below_of_def acyclic_def) arith
qed

section \<open>Moving a node\<close>

text \<open>The fields that no linking operation touches.\<close>

definition same_rest :: "dom \<Rightarrow> dom \<Rightarrow> bool" where
  "same_rest t t' \<longleftrightarrow> alive t' = alive t \<and> dm_shadow_roots t' = dm_shadow_roots t \<and> dm_by_host t' = dm_by_host t
     \<and> dm_document t' = dm_document t \<and> dm_free t' = dm_free t \<and> length (dm_nodes t') = length (dm_nodes t)"

lemma same_restD:
  assumes "same_rest t t'"
  shows "alive t' = alive t" "dm_shadow_roots t' = dm_shadow_roots t" "dm_by_host t' = dm_by_host t"
    "dm_document t' = dm_document t" "dm_free t' = dm_free t" "length (dm_nodes t') = length (dm_nodes t)"
  using assms by (simp_all add: same_rest_def)

lemma same_rest_refl [simp]: "same_rest t t"
  by (simp add: same_rest_def)

lemma same_rest_trans: "same_rest t t' \<Longrightarrow> same_rest t' t'' \<Longrightarrow> same_rest t t''"
  by (simp add: same_rest_def)

lemma same_links_rest: "same_links t t' \<Longrightarrow> same_rest t t'"
  by (simp add: same_links_def same_rest_def)

lemma same_rest_upd: "same_rest t (upd_node i f t)"
  by (simp add: same_rest_def fun_eq_iff)

lemma same_rest_unlink: "same_rest t (cut_links i a b c t)"
  by (simp add: cut_links_def Let_def same_rest_def fun_eq_iff split: option.split)

lemma same_rest_link_last: "same_rest t (link_last p c t)"
  by (simp add: link_last_def Let_def same_rest_def fun_eq_iff split: option.split)

lemma same_rest_link_before: "same_rest t (link_before p e c t)"
  by (simp add: link_before_def Let_def same_rest_def fun_eq_iff split: option.split)

lemma connected_unlink: "is_connected (cut_links i a b c t) = is_connected t"
  by (simp add: cut_links_def Let_def dom_acc split: option.split)

lemma connected_link_last: "is_connected (link_last p c t) = is_connected t"
  by (simp add: link_last_def Let_def dom_acc split: option.split)

lemma connected_link_before: "is_connected (link_before p e c t) = is_connected t"
  by (simp add: link_before_def Let_def dom_acc split: option.split)

lemma free_ok_rest: "same_rest t t' \<Longrightarrow> free_ok t \<Longrightarrow> free_ok t'"
  by (simp add: same_rest_def free_ok_def)

lemma registry_ok_rest:
  assumes "same_rest t t'" and "registry_ok t"
    and "\<And>r. bm_has (dm_shadow_roots t) r \<Longrightarrow> parent_of t r = None \<Longrightarrow> parent_of t' r = None"
  shows "registry_ok t'"
  using assms(2,3) same_restD [OF assms(1)] unfolding registry_ok_def bm_has_Some by simp

text \<open>The host-including parent of a node that is not a root is its parent.\<close>

lemma up_move:
  assumes "same_rest t t'" and "parent_of t' = (parent_of t)(c := p)" and "\<not> bm_has (dm_shadow_roots t) c"
  shows "host_including_parent t' = (host_including_parent t)(c := p)"
  using assms(3) same_restD [OF assms(1)]
  by (intro ext) (auto simp: host_including_parent_def assms(2) bm_has_def split: option.split)

section \<open>Detaching\<close>

lemma kids_removeAll:
  assumes ok: "links_ok t kids" and p: "parent_of t c = Some p"
  shows "kids(p := removeAll c (kids p)) = (\<lambda>i. removeAll c (kids i))"
proof
  fix i
  have "c \<notin> set (kids i)" if "i \<noteq> p" using links_okD(5) [OF ok, of c i] p that by simp
  then show "(kids(p := removeAll c (kids p))) i = removeAll c (kids i)" by simp
qed

lemma kids_removeAll_root:
  assumes ok: "links_ok t kids" and p: "parent_of t c = None"
  shows "(\<lambda>i. removeAll c (kids i)) = kids"
proof
  fix i
  have "c \<notin> set (kids i)" using links_okD(5) [OF ok, of c i] p by simp
  then show "removeAll c (kids i) = kids i" by simp
qed

lemma detach_effect:
  fixes disconnect :: bool
  assumes ok: "links_ok t kids" and reg: "registry_ok t" and doc: "document_ok t" and con: "connected_ok t"
    and c: "alive t c" "c \<noteq> dm_document t" "\<not> bm_has (dm_shadow_roots t) c"
  defines "t' \<equiv> detach_for_reparent c disconnect t"
  shows "links_ok t' (\<lambda>i. removeAll c (kids i))" and "parent_of t' = (parent_of t)(c := None)"
    and "same_rest t t'"
    and "is_connected t' j = (if disconnect \<and> j \<in> subtree t c then False else is_connected t j)"
proof -
  obtain nd where nd: "node_at t c = Some nd" using c(1) by (auto simp: alive_def)
  let ?t1 = "invalidate_cssom_source c t"
  let ?t2 = "if disconnect \<and> is_connected ?t1 c then set_subtree_connected c False ?t1 else ?t1"
  have s1: "same_links t ?t1" by (rule same_links_invalidate)
  have s2: "same_links t ?t2"
    using same_links_trans [OF s1 same_links_set_connected] s1 by simp
  note eq = same_linksD [OF s2]
  have t': "t' = cut_links c (parent_of ?t2 c) (prev_of ?t2 c) (next_of ?t2 c) ?t2"
    unfolding t'_def detach_for_reparent_def Let_def eq using c nd
    by (simp add: parent_of_def prev_of_def next_of_def)
  have ok2: "links_ok ?t2 kids" by (rule same_links_ok [OF s2 ok])
  show "same_rest t t'" unfolding t' by (rule same_rest_trans [OF same_links_rest [OF s2] same_rest_unlink])
  show "links_ok t' (\<lambda>i. removeAll c (kids i))" "parent_of t' = (parent_of t)(c := None)"
  proof -
    have "links_ok t' (\<lambda>i. removeAll c (kids i)) \<and> parent_of t' = (parent_of ?t2)(c := None)"
    proof (cases "parent_of ?t2 c")
      case None
      then have np: "prev_of ?t2 c = None" "next_of ?t2 c = None" using links_okD(6) [OF ok2] by auto
      have t'': "t' = upd_node c (\<lambda>nd. nd\<lparr>nd_parent := None, nd_prev_sibling := None, nd_next_sibling := None\<rparr>) ?t2"
        unfolding t' None np by (simp add: cut_links_def)
      have par: "parent_of t' = (parent_of ?t2)(c := None)" "prev_of t' = prev_of ?t2" "next_of t' = next_of ?t2"
        unfolding t'' using np None by (auto simp: dom_acc fun_eq_iff)
      have rest: "first_of t' = first_of ?t2" "last_of t' = last_of ?t2" unfolding t'' by (simp_all add: dom_acc)
      have "nd_id nd = i" if "node_at t' i = Some nd" for i nd
        by (rule upd_ids [OF _ _ that [unfolded t'']]) (auto simp: links_okD(7) [OF ok2])
      then have "links_ok t' kids"
        using ok2 par rest None by (intro links_ok_cong [OF _ _ _ _ _ _ ok2]) auto
      then show ?thesis using par by (simp add: kids_removeAll_root [OF ok2 None])
    next
      case (Some p)
      show ?thesis
        using cut_links_ok [OF ok2 Some] unfolding t' Some [symmetric] kids_removeAll [OF ok2 Some] by simp
    qed
    then show "links_ok t' (\<lambda>i. removeAll c (kids i))" "parent_of t' = (parent_of t)(c := None)"
      using eq(1) by simp_all
  qed
  have con1: "is_connected ?t1 = is_connected t" by (simp add: dom_acc)
  have "is_connected t' j = is_connected ?t2 j" unfolding t' connected_unlink ..
  also have "\<dots> = (if disconnect \<and> j \<in> subtree t c then False else is_connected t j)"
  proof (cases "disconnect \<and> is_connected t c")
    case True
    have "alive ?t1 c" using c(1) by simp
    then show ?thesis
      using set_connected_flags [OF same_links_ok [OF s1 ok], of c False j] True con1
        registry_ok_rest [OF same_links_rest [OF s1] reg] same_linksD(1) [OF s1]
      by (simp add: same_links_subtree [OF s1])
  next
    case False
    have "\<not> is_connected t j" if "disconnect" "j \<in> subtree t c"
    proof
      assume "is_connected t j"
      then have "j \<in> subtree t (dm_document t)" using con by (simp add: connected_ok_def)
      then have "(j, dm_document t) \<in> (edges (host_including_parent t))\<^sup>*" "(j, c) \<in> (edges (host_including_parent t))\<^sup>*"
        using that by (simp_all add: subtree_def below_of_def)
      then have "c \<in> subtree t (dm_document t)"
        using edges_root_linear [of "host_including_parent t", OF document_up [OF doc reg]] by (auto simp: subtree_def below_of_def)
      then have "is_connected t c" using con by (simp add: connected_ok_def)
      with False that(1) show False by simp
    qed
    with False con1 show ?thesis by auto
  qed
  finally show "is_connected t' j = (if disconnect \<and> j \<in> subtree t c then False else is_connected t j)" .
qed

lemma detach_shape:
  assumes sh: "shape t kids" and c: "alive t c" "c \<noteq> dm_document t" "\<not> bm_has (dm_shadow_roots t) c"
  shows "shape (detach_node c t) (\<lambda>i. removeAll c (kids i))"
proof -
  note s = shapeD [OF sh]
  let ?t = "detach_for_reparent c True t"
  note e = detach_effect [OF s(1,2,3,5) c, of True]
  have up: "host_including_parent ?t = (host_including_parent t)(c := None)"
    by (rule up_move [OF e(3,2) c(3)])
  have reg: "registry_ok ?t" by (rule registry_ok_rest [OF e(3) s(2)]) (simp add: e(2))
  have doc: "document_ok ?t" using s(3) c(2) same_restD [OF e(3)] by (simp add: document_ok_def e(2))
  have "is_connected ?t j \<longleftrightarrow> j \<in> subtree ?t (dm_document ?t)" for j
    unfolding e(4) subtree_def up same_restD(4) [OF e(3)]
    using cut_root [of "host_including_parent t", OF document_up [OF s(3,2)], of c j] c(2) s(5)
    by (auto simp: connected_ok_def subtree_def)
  then show ?thesis
    unfolding detach_node_def shape_def using e(1) reg doc acyclic_cut [OF s(4), of c] free_ok_rest [OF e(3) s(6)]
    by (simp add: connected_ok_def up)
qed

lemma detach_noop: "c = dm_document t \<or> bm_has (dm_shadow_roots t) c \<or> \<not> alive t c \<Longrightarrow> detach_for_reparent c b t = t"
  by (auto simp: detach_for_reparent_def alive_def split: option.split)

section \<open>Linking\<close>

text \<open>What remains to be shown after the links are in place.\<close>

lemma shape_linked:
  assumes sh: "shape t kids" and c: "alive t c" "c \<noteq> dm_document t" "\<not> bm_has (dm_shadow_roots t) c"
    and p: "p \<notin> subtree t c"
    and t1: "t1 = detach_for_reparent c (is_connected t c \<and> \<not> is_connected t p) t"
    and t2: "links_ok t2 kids2" "parent_of t2 = (parent_of t1)(c := Some p)" "same_rest t1 t2"
      "is_connected t2 = is_connected t1"
    and t3: "t3 = (if is_connected t p \<and> \<not> is_connected t c then set_subtree_connected c True t2 else t2)"
  shows "shape t3 kids2"
proof -
  note s = shapeD [OF sh]
  note e = detach_effect [OF s(1,2,3,5) c, of "is_connected t c \<and> \<not> is_connected t p", folded t1]
  let ?u = "host_including_parent t"
  have rest2: "same_rest t t2" by (rule same_rest_trans [OF e(3) t2(3)])
  have par2: "parent_of t2 = (parent_of t)(c := Some p)" by (simp add: t2(2) e(2))
  have up2: "host_including_parent t2 = ?u(c := Some p)" by (rule up_move [OF rest2 par2 c(3)])
  have s3: "same_links t2 t3" by (simp add: t3 same_links_set_connected same_links_refl)
  have reg2: "registry_ok t2"
    by (rule registry_ok_rest [OF rest2 s(2)]) (use c(3) in \<open>auto simp: par2\<close>)
  have reg3: "registry_ok t3"
    by (rule registry_ok_rest [OF same_links_rest [OF s3] reg2]) (simp add: same_linksD(1) [OF s3])
  have doc3: "document_ok t3"
    using s(3) c(2) same_linksD [OF s3] same_restD [OF rest2] by (simp add: document_ok_def par2)
  have acy: "acyclic (edges (host_including_parent t3))"
    unfolding same_links_up [OF s3] up2 using acyclic_move [OF s(4)] p by (simp add: subtree_def)
  have sub2: "subtree t2 c = subtree t c"
    unfolding subtree_def up2 by (rule below_move) simp
  have linear: "is_connected t j = is_connected t c" if "j \<in> subtree t c" for j
  proof -
    have "j \<in> subtree t (dm_document t) \<longleftrightarrow> c \<in> subtree t (dm_document t)"
      using that edges_root_linear [of "host_including_parent t", OF document_up [OF s(3,2)], of j c] below_trans [of j ?u c "dm_document t"]
      by (auto simp: subtree_def below_of_def)
    then show ?thesis using s(5) by (simp add: connected_ok_def)
  qed
  have "is_connected t3 j \<longleftrightarrow> (if j \<in> subtree t c then is_connected t p else is_connected t j)" for j
  proof (cases "is_connected t p \<and> \<not> is_connected t c")
    case True
    have "alive t2 c" using c(1) same_restD(1) [OF rest2] by simp
    from set_connected_flags [OF t2(1) reg2 this, of True j] True show ?thesis
      by (simp add: t3 sub2 t2(4) e(4))
  next
    case False
    then show ?thesis using linear [of j] by (auto simp: t3 t2(4) e(4))
  qed
  moreover have "j \<in> subtree t3 (dm_document t3) \<longleftrightarrow> (if j \<in> subtree t c then is_connected t p else is_connected t j)" for j
    using move_root [of "host_including_parent t", OF document_up [OF s(3,2)], of c p j] c(2) p s(5) same_restD(4) [OF rest2] same_linksD(9) [OF s3]
    by (simp add: same_links_subtree [OF s3]) (simp add: subtree_def up2 connected_ok_def)
  ultimately have "connected_ok t3" by (simp add: connected_ok_def)
  then show ?thesis
    unfolding shape_def
    using same_links_ok [OF s3 t2(1)] reg3 doc3 acy
      free_ok_rest [OF same_links_rest [OF s3] free_ok_rest [OF rest2 s(6)]] by simp
qed

text \<open>The cycle check finds every inclusive ancestor, and nothing else on a well-formed tree.\<close>

lemma cycle_loop_sound: "\<not> cycle_loop t c k (Some x) \<Longrightarrow> x \<notin> subtree t c"
proof (induction k arbitrary: x)
  case (Suc k)
  then have x: "x \<noteq> c" and r: "\<not> cycle_loop t c k (host_including_parent t x)" by (auto split: if_splits)
  show ?case
  proof
    assume "x \<in> subtree t c"
    with x obtain y where y: "host_including_parent t x = Some y" "y \<in> subtree t c"
      using below_cases [of x "host_including_parent t" c] by (auto simp: subtree_def)
    with r Suc.IH [of y] show False by simp
  qed
qed simp

lemma path_card:
  assumes "links_ok t kids" and "registry_ok t" and "alive t x"
  shows "finite (path_set (host_including_parent t) x)" "card (path_set (host_including_parent t) x) \<le> length (dm_nodes t)"
proof -
  have sub: "path_set (host_including_parent t) x \<subseteq> live_ids t"
    by (rule path_set_sub) (use up_alive(2) [OF assms(1,2)] assms(3) in \<open>auto simp: live_ids_def\<close>)
  show "finite (path_set (host_including_parent t) x)" by (rule finite_subset [OF sub]) simp
  have "card (path_set (host_including_parent t) x) \<le> card (live_ids t)" by (rule card_mono [OF _ sub]) simp
  also have "\<dots> \<le> length (dm_nodes t)" using card_slots [of "dm_nodes t"] by (simp add: live_ids_def alive_def node_at_def)
  finally show "card (path_set (host_including_parent t) x) \<le> length (dm_nodes t)" .
qed

lemma cycle_loop_complete:
  assumes "acyclic (edges (host_including_parent t))" and "finite (path_set (host_including_parent t) x)"
    and "card (path_set (host_including_parent t) x) < k" and "x \<notin> subtree t c"
  shows "\<not> cycle_loop t c k (Some x)"
  using assms(2-4)
proof (induction k arbitrary: x)
  case (Suc k)
  have x: "x \<noteq> c" using Suc.prems(3) by (auto simp: subtree_def)
  show ?case
  proof (cases "host_including_parent t x")
    case None
    have "x \<in> path_set (host_including_parent t) x" by (simp add: path_set_def)
    then have "0 < card (path_set (host_including_parent t) x)" using Suc.prems(1) by (auto simp: card_gt_0_iff)
    with Suc.prems(2) obtain k' where "k = Suc k'" by (cases k) auto
    with None x show ?thesis by simp
  next
    case (Some y)
    have fin: "finite (path_set (host_including_parent t) y)"
      using Some
      by (intro finite_subset [OF _ Suc.prems(1)]) (auto simp: path_set_def intro: converse_rtrancl_into_rtrancl)
    have "y \<notin> subtree t c" using Suc.prems(3) Some by (auto simp: subtree_def intro: below_step)
    moreover have "card (path_set (host_including_parent t) y) < k"
      using path_set_step [OF assms(1) Some Suc.prems(1)] Suc.prems(2) by simp
    ultimately show ?thesis using Suc.IH [OF fin] Some x by simp
  qed
qed simp

lemma cycle_check:
  assumes sh: "shape t kids" and p: "alive t p" and c: "p \<noteq> c \<or> can_be_ancestor t c"
  shows "would_create_host_including_cycle t p c \<longleftrightarrow> p \<in> subtree t c"
proof (cases "can_be_ancestor t c")
  case True
  note s = shapeD [OF sh]
  have "\<not> cycle_loop t c (Suc (length (dm_nodes t))) (Some p)" if "p \<notin> subtree t c"
    by (rule cycle_loop_complete [OF s(4) path_card(1) [OF s(1,2) p] _ that])
      (use path_card(2) [OF s(1,2) p] in simp)
  with True cycle_loop_sound [of t c "Suc (length (dm_nodes t))" p] show ?thesis
    by (auto simp: would_create_host_including_cycle_def simp del: cycle_loop.simps)
next
  case False
  note s = shapeD [OF sh]
  have "children t c = []" using False by (simp add: can_be_ancestor_def children_def)
  moreover have "hosted t c = []" using False by (auto simp: can_be_ancestor_def hosted_def bm_has_def split: option.split)
  ultimately have "{i. host_including_parent t i = Some c} = {}" using successors [OF s(1,2), of c] by simp
  then have "subtree t c = {c}" unfolding subtree_def by (intro below_leaf) auto
  with False c show ?thesis by (simp add: would_create_host_including_cycle_def)
qed

lemma cycle_can: "would_create_host_including_cycle t p c \<Longrightarrow> can_be_ancestor t c"
  by (simp add: would_create_host_including_cycle_def split: if_splits)

lemma subtree_self [simp]: "c \<in> subtree t c"
  by (simp add: subtree_def)

definition accepts :: "dom \<Rightarrow> node_id \<Rightarrow> node_id \<Rightarrow> bool" where
  "accepts t p c \<longleftrightarrow> alive t p \<and> alive t c \<and> \<not> bm_has (dm_shadow_roots t) c \<and> p \<notin> subtree t c"

lemma append_child_shape:
  assumes sh: "shape t kids" and c: "c \<noteq> dm_document t"
  shows "shape (append_child p c t)
    (if accepts t p c then (\<lambda>i. removeAll c (kids i))(p := removeAll c (kids p) @ [c]) else kids)"
proof (cases "accepts t p c")
  case False
  have "append_child p c t = t"
    using False cycle_check [OF sh, of p c] cycle_can by (auto simp: accepts_def append_child_def)
  with False sh show ?thesis by simp
next
  case True
  then have a: "alive t p" "alive t c" "\<not> bm_has (dm_shadow_roots t) c" "p \<notin> subtree t c" by (auto simp: accepts_def)
  have pc: "p \<noteq> c" using a(4) by auto
  note s = shapeD [OF sh]
  let ?b = "is_connected t c \<and> \<not> is_connected t p"
  let ?t1 = "detach_for_reparent c ?b t"
  let ?t2 = "link_last p c (invalidate_cssom_source p ?t1)"
  note e = detach_effect [OF s(1,2,3,5) a(2) c a(3), of ?b]
  have i: "same_links ?t1 (invalidate_cssom_source p ?t1)" by (rule same_links_invalidate)
  have ok1: "links_ok (invalidate_cssom_source p ?t1) (\<lambda>i. removeAll c (kids i))" by (rule same_links_ok [OF i e(1)])
  have none: "parent_of (invalidate_cssom_source p ?t1) c = None" by (simp add: same_linksD(1) [OF i] e(2))
  have live: "alive (invalidate_cssom_source p ?t1) c" "alive (invalidate_cssom_source p ?t1) p"
    using a(1,2) same_restD(1) [OF e(3)] by simp_all
  note l = link_last_links [OF ok1 none live pc]
  have "append_child p c t = (if is_connected t p \<and> \<not> is_connected t c then set_subtree_connected c True ?t2 else ?t2)"
    using a pc cycle_check [OF sh a(1), of c] by (simp add: append_child_def Let_def del: cycle_loop.simps)
  then show ?thesis
    using True l(1)
    by (intro shape_linked [OF sh a(2) c a(3,4) refl, of ?t2])
      (simp_all add: l(2) same_linksD(1) [OF i] connected_link_last dom_acc
        same_rest_trans [OF same_links_rest [OF i] same_rest_link_last])
qed

lemma insert_before_shape:
  assumes sh: "shape t kids" and c: "c \<noteq> dm_document t" and e: "parent_of t e = Some p"
    and k: "removeAll c (kids p) = xs @ e # ys"
  shows "shape (insert_before e c t)
    (if e \<noteq> c \<and> accepts t p c then (\<lambda>i. removeAll c (kids i))(p := xs @ c # e # ys) else kids)"
proof (cases "e \<noteq> c \<and> accepts t p c")
  case False
  note s = shapeD [OF sh]
  have live: "alive t e" "alive t p" "e \<in> set (kids p)"
    using links_okD(5) [OF s(1)] e kids_alive [OF s(1)] by blast+
  have "p \<noteq> c \<or> can_be_ancestor t c"
    using links_okD(1) [OF s(1), of p] live(3) by (cases "kids p") (auto simp: can_be_ancestor_def)
  from cycle_check [OF sh live(2) this] have "insert_before e c t = t"
    using False live e by (auto simp: accepts_def insert_before_def)
  with False sh show ?thesis by auto
next
  case True
  then have a: "alive t p" "alive t c" "\<not> bm_has (dm_shadow_roots t) c" "p \<notin> subtree t c" and ec: "e \<noteq> c"
    by (auto simp: accepts_def)
  have pc: "p \<noteq> c" using a(4) by auto
  note s = shapeD [OF sh]
  let ?b = "is_connected t c \<and> \<not> is_connected t p"
  let ?t1 = "detach_for_reparent c ?b t"
  let ?t2 = "link_before p e c ?t1"
  note d = detach_effect [OF s(1,2,3,5) a(2) c a(3), of ?b]
  have none: "parent_of ?t1 c = None" "parent_of ?t1 e = Some p" using ec e by (simp_all add: d(2))
  have live: "alive ?t1 c" using a(2) same_restD(1) [OF d(3)] by simp
  note l = link_before_links [OF d(1) none(1) live none(2) k]
  have "insert_before e c t = (if is_connected t p \<and> \<not> is_connected t c then set_subtree_connected c True ?t2 else ?t2)"
    using a pc ec e cycle_check [OF sh a(1), of c] by (simp add: insert_before_def Let_def del: cycle_loop.simps)
  then show ?thesis
    using True l(1)
    by (intro shape_linked [OF sh a(2) c a(3,4) refl, of ?t2])
      (simp_all add: l(2) connected_link_before same_rest_link_before)
qed

lemma insert_before_noop: "parent_of t e = None \<Longrightarrow> insert_before e c t = t"
  by (simp add: insert_before_def)

end
