(* ===== verification/DomSteps.thy ===== *)
theory DomSteps
  imports DomInv
begin

text \<open>
  Allocation, freeing, shadow roots, text, cloning and importing keep the invariant as well. A call that
  allocates needs the arena to stay within the \<open>2 ^ 32\<close> slots that a node identity can name; slots are
  never given back to the vector, so it is enough to ask it of the result.
\<close>

definition fits :: "dom \<Rightarrow> bool" where
  "fits t \<longleftrightarrow> length (dm_nodes t) \<le> 2 ^ 32"

section \<open>Changes of data\<close>

definition keeps_links :: "(node \<Rightarrow> node) \<Rightarrow> bool" where
  "keeps_links f \<longleftrightarrow> (\<forall>nd. nd_parent (f nd) = nd_parent nd \<and> nd_first_child (f nd) = nd_first_child nd
     \<and> nd_last_child (f nd) = nd_last_child nd \<and> nd_prev_sibling (f nd) = nd_prev_sibling nd
     \<and> nd_next_sibling (f nd) = nd_next_sibling nd \<and> nd_id (f nd) = nd_id nd \<and> nd_connected (f nd) = nd_connected nd)"

lemma keeps_links_ops:
  "keeps_links (set_attribute name v)" "keeps_links (set_attribute_ns ns qualified v)"
  "keeps_links (remove_attribute_ns ns local)" "keeps_links (set_template_field i)" "keeps_links (push_text s)"
  by (simp_all add: keeps_links_def set_attribute_def set_attribute_ns_def remove_attribute_ns_def push_text_def
      split: option.split prod.split node_data.split)

lemma upd_data_shape: "keeps_links f \<Longrightarrow> shape t kids \<Longrightarrow> shape (upd_node i f t) kids"
  by (rule same_links_shape [OF same_links_upd]) (simp_all add: keeps_links_def dom_acc)

lemma invalidate_shape: "shape t kids \<Longrightarrow> shape (invalidate_cssom_source i t) kids"
  by (rule same_links_shape [OF same_links_invalidate]) (simp_all add: dom_acc)

lemma with_node_mut_shape: "keeps_links f \<Longrightarrow> shape t kids \<Longrightarrow> shape (with_node_mut i f t) kids"
  by (auto simp: with_node_mut_def intro: upd_data_shape invalidate_shape)

lemma same_links_other_fields:
  "same_links t (t\<lparr>dm_id_index := m1\<rparr>)" "same_links t (t\<lparr>dm_form_controls := m2\<rparr>)"
  "same_links t (t\<lparr>dm_hovered := h\<rparr>)" "same_links t (t\<lparr>dm_quirks := b\<rparr>)" "same_links t (t\<lparr>dm_allow_shadow := b\<rparr>)"
  "same_links t (t\<lparr>dm_sheets := m3\<rparr>)" "same_links t (t\<lparr>dm_sheets := m3, dm_sheet_gen := n\<rparr>)"
  by (simp_all add: same_links_def fun_eq_iff parent_of_def first_of_def last_of_def prev_of_def next_of_def
      alive_def node_at_def)

lemma other_fields_connected:
  "is_connected (t\<lparr>dm_id_index := m1\<rparr>) = is_connected t" "is_connected (t\<lparr>dm_form_controls := m2\<rparr>) = is_connected t"
  "is_connected (t\<lparr>dm_hovered := h\<rparr>) = is_connected t" "is_connected (t\<lparr>dm_quirks := b\<rparr>) = is_connected t"
  "is_connected (t\<lparr>dm_allow_shadow := b\<rparr>) = is_connected t" "is_connected (t\<lparr>dm_sheets := m3\<rparr>) = is_connected t"
  "is_connected (t\<lparr>dm_sheets := m3, dm_sheet_gen := n\<rparr>) = is_connected t"
  by (simp_all add: fun_eq_iff is_connected_def node_at_def)

lemma field_shape:
  assumes "shape t kids"
  shows "shape (t\<lparr>dm_id_index := m1\<rparr>) kids" "shape (t\<lparr>dm_form_controls := m2\<rparr>) kids"
    "shape (t\<lparr>dm_hovered := h\<rparr>) kids" "shape (t\<lparr>dm_quirks := b\<rparr>) kids" "shape (t\<lparr>dm_allow_shadow := b\<rparr>) kids"
    "shape (t\<lparr>dm_sheets := m3\<rparr>) kids" "shape (t\<lparr>dm_sheets := m3, dm_sheet_gen := n\<rparr>) kids"
  by (rule same_links_shape [OF _ assms]; simp add: same_links_other_fields other_fields_connected)+

lemma sheets_shape: "sheets_only t t' \<Longrightarrow> shape t kids \<Longrightarrow> shape t' kids"
  by (auto simp: sheets_only_def intro: field_shape)

lemma sheet_ops_shape:
  assumes "shape t kids"
  shows "shape (snd (replace_external_stylesheet t owner source clean)) kids"
    and "shape (snd (append_external_stylesheet t owner source clean)) kids"
    and "shape (snd (remove_external_stylesheet t owner)) kids"
    and "shape (snd (update_cssom_stylesheet t owner index n rules reset)) kids"
    and "shape (snd (clear_cssom_stylesheet t owner)) kids"
    and "shape (snd (set_hovered t h)) kids"
    and "shape (update_form_control_state t i f) kids"
    and "shape (update_id_index i a b t) kids"
    and "shape (drop_ids names t) kids"
proof -
  have bump: "shape (bump_sheets (t\<lparr>dm_sheets := m\<rparr>)) kids" for m by (rule sheets_shape [OF sheets_only_bump assms])
  show "shape (snd (replace_external_stylesheet t owner source clean)) kids"
    "shape (snd (append_external_stylesheet t owner source clean)) kids"
    "shape (snd (remove_external_stylesheet t owner)) kids"
    using bump assms by (simp_all add: replace_external_stylesheet_def append_external_stylesheet_def
        remove_external_stylesheet_def Let_def)
  show "shape (snd (update_cssom_stylesheet t owner index n rules reset)) kids"
    using assms field_shape(6) [OF assms]
    by (simp add: update_cssom_stylesheet_def Let_def split: option.split)
  show "shape (snd (clear_cssom_stylesheet t owner)) kids"
    using sheets_shape [OF clear_cssom_sheets_only assms] by (simp add: clear_cssom_stylesheet_def)
  show "shape (snd (set_hovered t h)) kids" "shape (update_form_control_state t i f) kids"
    "shape (update_id_index i a b t) kids" "shape (drop_ids names t) kids"
    using assms field_shape [OF assms]
    by (simp_all add: set_hovered_def update_form_control_state_def update_id_index_def drop_ids_def Let_def
        split: option.split)
qed

section \<open>Allocation\<close>

lemma new_node_eq:
  obtains m where "snd (new_node d t) =
    (if dm_free t \<noteq> [] then t\<lparr>dm_free := butlast (dm_free t), dm_id_index := m,
        dm_nodes := (dm_nodes t)[last (dm_free t) := Some (fresh_node (last (dm_free t)) d)]\<rparr>
     else t\<lparr>dm_id_index := m,
        dm_nodes := (dm_nodes t @ [None])[length (dm_nodes t) mod 2 ^ 32 := Some (fresh_node (length (dm_nodes t) mod 2 ^ 32) d)]\<rparr>)"
    "fst (new_node d t) = (if dm_free t \<noteq> [] then last (dm_free t) else length (dm_nodes t) mod 2 ^ 32)"
proof -
  let ?i = "if dm_free t \<noteq> [] then last (dm_free t) else length (dm_nodes t) mod 2 ^ 32"
  let ?m = "case first_id_attr d of
      Some a \<Rightarrow> (if bm_has (dm_id_index t) (at_value a) then dm_id_index t else bm_insert (at_value a) ?i (dm_id_index t))
    | None \<Rightarrow> dm_id_index t"
  show thesis
    by (rule that [of ?m]) (simp_all add: new_node_def Let_def split: option.split)
qed

lemma new_node_facts:
  assumes sh: "shape t kids" and new: "new_node d t = (i, t')" and room: "fits t'"
  shows "\<not> alive t i" "node_at t' j = (if j = i then Some (fresh_node i d) else node_at t j)"
    "length (dm_nodes t) \<le> length (dm_nodes t')"
    "dm_shadow_roots t' = dm_shadow_roots t" "dm_by_host t' = dm_by_host t" "dm_document t' = dm_document t"
    "dm_form_controls t' = dm_form_controls t"
    "free_ok t'"
proof -
  have free: "distinct (dm_free t)" "\<And>i. i \<in> set (dm_free t) \<longleftrightarrow> i < length (dm_nodes t) \<and> \<not> alive t i"
    using shapeD(6) [OF sh] by (auto simp: free_ok_def)
  have snd': "snd (new_node d t) = t'" "fst (new_node d t) = i" by (simp_all add: new)
  have "\<not> alive t i \<and> (\<forall>j. node_at t' j = (if j = i then Some (fresh_node i d) else node_at t j))
    \<and> length (dm_nodes t) \<le> length (dm_nodes t')
    \<and> dm_shadow_roots t' = dm_shadow_roots t \<and> dm_by_host t' = dm_by_host t \<and> dm_document t' = dm_document t
    \<and> dm_form_controls t' = dm_form_controls t \<and> free_ok t'"
  proof (rule new_node_eq [of d t], cases "dm_free t = []")
    case True
    fix m
    assume t': "snd (new_node d t) = (if dm_free t \<noteq> [] then t\<lparr>dm_free := butlast (dm_free t), dm_id_index := m,
        dm_nodes := (dm_nodes t)[last (dm_free t) := Some (fresh_node (last (dm_free t)) d)]\<rparr>
     else t\<lparr>dm_id_index := m,
        dm_nodes := (dm_nodes t @ [None])[length (dm_nodes t) mod 2 ^ 32 := Some (fresh_node (length (dm_nodes t) mod 2 ^ 32) d)]\<rparr>)"
      and i: "fst (new_node d t) = (if dm_free t \<noteq> [] then last (dm_free t) else length (dm_nodes t) mod 2 ^ 32)"
    have "length (dm_nodes t) < 2 ^ 32" using room t' True by (simp add: snd' fits_def)
    then have i': "i = length (dm_nodes t)" using i True by (simp add: snd')
    have t'': "t' = t\<lparr>dm_id_index := m, dm_nodes := dm_nodes t @ [Some (fresh_node i d)]\<rparr>"
      using t' True i i' by (simp add: snd')
    have n: "node_at t' j = (if j = i then Some (fresh_node i d) else node_at t j)" for j
      by (simp add: t'' node_at_def slot_append i')
    have "\<not> alive t i" by (simp add: alive_def node_at_def slot_def i')
    moreover have "free_ok t'"
      using free True by (auto simp: free_ok_def t'' alive_def node_at_def slot_append i' less_Suc_eq)
    ultimately show ?thesis using n by (simp add: t'')
  next
    case False
    fix m
    assume t': "snd (new_node d t) = (if dm_free t \<noteq> [] then t\<lparr>dm_free := butlast (dm_free t), dm_id_index := m,
        dm_nodes := (dm_nodes t)[last (dm_free t) := Some (fresh_node (last (dm_free t)) d)]\<rparr>
     else t\<lparr>dm_id_index := m,
        dm_nodes := (dm_nodes t @ [None])[length (dm_nodes t) mod 2 ^ 32 := Some (fresh_node (length (dm_nodes t) mod 2 ^ 32) d)]\<rparr>)"
      and i: "fst (new_node d t) = (if dm_free t \<noteq> [] then last (dm_free t) else length (dm_nodes t) mod 2 ^ 32)"
    have i': "i = last (dm_free t)" using i False by (simp add: snd')
    have t'': "t' = t\<lparr>dm_free := butlast (dm_free t), dm_id_index := m, dm_nodes := (dm_nodes t)[i := Some (fresh_node i d)]\<rparr>"
      using t' False i' by (simp add: snd')
    have dead: "i < length (dm_nodes t)" "\<not> alive t i" using free(2) [of i] False by (auto simp: i')
    have n: "node_at t' j = (if j = i then Some (fresh_node i d) else node_at t j)" for j
      using dead(1) by (simp add: t'' node_at_def slot_update)
    have split: "dm_free t = butlast (dm_free t) @ [i]" using False by (simp add: i')
    have "set (butlast (dm_free t)) = set (dm_free t) - {i}" "distinct (butlast (dm_free t))"
      using free(1) split by (metis Diff_insert_absorb distinct_append insert_disjoint(2) list.simps(15) not_distinct_conv_prefix
          rotate1.simps(2) set_rotate1, metis distinct_append)
    then have "free_ok t'" using free(2) n by (auto simp: free_ok_def t'' alive_def)
    with dead n show ?thesis by (simp add: t'')
  qed
  then show "\<not> alive t i" "node_at t' j = (if j = i then Some (fresh_node i d) else node_at t j)"
    "length (dm_nodes t) \<le> length (dm_nodes t')"
    "dm_shadow_roots t' = dm_shadow_roots t" "dm_by_host t' = dm_by_host t" "dm_document t' = dm_document t"
    "dm_form_controls t' = dm_form_controls t" "free_ok t'" by blast+
qed

lemma dead_links: "\<not> alive t i \<Longrightarrow> parent_of t i = None \<and> first_of t i = None \<and> last_of t i = None
    \<and> prev_of t i = None \<and> next_of t i = None \<and> \<not> is_connected t i"
  by (simp add: alive_def parent_of_def first_of_def last_of_def prev_of_def next_of_def is_connected_def)

lemma new_node_shape:
  assumes sh: "shape t kids" and new: "new_node d t = (i, t')" and room: "fits t'"
  shows "shape t' kids" "\<not> alive t i" "alive t' i" "parent_of t' = parent_of t" "is_connected t' = is_connected t"
    "alive t' j \<longleftrightarrow> j = i \<or> alive t j" "kids i = []" "i \<noteq> dm_document t'" "\<not> bm_has (dm_shadow_roots t') i"
    "\<not> bm_has (dm_by_host t') i"
proof -
  note f = new_node_facts [OF sh new room] and s = shapeD [OF sh]
  show dead: "\<not> alive t i" by (rule f(1))
  have links: "parent_of t' = parent_of t" "first_of t' = first_of t" "last_of t' = last_of t" "prev_of t' = prev_of t"
    "next_of t' = next_of t" "is_connected t' = is_connected t"
    using dead_links [OF dead]
    by (auto simp: fun_eq_iff parent_of_def first_of_def last_of_def prev_of_def next_of_def is_connected_def f(2) fresh_node_def)
  have live: "alive t' j \<longleftrightarrow> j = i \<or> alive t j" for j by (simp add: alive_def f(2))
  have up: "host_including_parent t' = host_including_parent t"
    by (simp add: fun_eq_iff host_including_parent_def links f(4) split: option.split)
  have ids: "nd_id nd = j" if "node_at t' j = Some nd" for j nd
    using that links_okD(7) [OF s(1), of j nd] by (auto simp: f(2) fresh_node_def split: if_splits)
  have "links_ok t' kids" by (rule links_ok_cong [OF links(1-5) ids s(1)])
  moreover have "registry_ok t'" using s(2) unfolding registry_ok_def by (simp add: f live links)
  moreover have "document_ok t'" using s(3) by (simp add: document_ok_def f live links)
  moreover have "connected_ok t'" using s(5) by (simp add: connected_ok_def links subtree_def up f)
  ultimately show "shape t' kids" using s(4) f(8) by (simp add: shape_def up)
  show "alive t' i" by (simp add: live)
  show "parent_of t' = parent_of t" "is_connected t' = is_connected t" by (fact links)+
  show "alive t' j \<longleftrightarrow> j = i \<or> alive t j" by (rule live)
  show "kids i = []" by (rule kids_dead [OF s(1) dead])
  show "i \<noteq> dm_document t'" using s(3) dead by (auto simp: document_ok_def f(6))
  show "\<not> bm_has (dm_shadow_roots t') i" using registryD(3) [OF s(2), of i] dead by (cases "bm_get (dm_shadow_roots t) i") (auto simp: bm_has_Some f(4))
  show "\<not> bm_has (dm_by_host t') i"
  proof
    assume "bm_has (dm_by_host t') i"
    then obtain r where "bm_get (dm_by_host t) i = Some r" by (auto simp: bm_has_Some f)
    then obtain info where "bm_get (dm_shadow_roots t) r = Some info" "sr_host info = i"
      using s(2) unfolding registry_ok_def by blast
    with registryD(4) [OF s(2)] dead show False by blast
  qed
qed

section \<open>Freeing\<close>

lemma drop_registry_frame:
  "dm_nodes (drop_registry i t) = dm_nodes t" "dm_free (drop_registry i t) = dm_free t"
  "dm_document (drop_registry i t) = dm_document t"
  by (simp_all add: drop_registry_def Let_def split: option.split)

text \<open>The registry without the roots and hosts of a list of nodes.\<close>

definition pairs_ok :: "dom \<Rightarrow> bool" where
  "pairs_ok t \<longleftrightarrow>
     (\<forall>r info. bm_get (dm_shadow_roots t) r = Some info \<longrightarrow> bm_get (dm_by_host t) (sr_host info) = Some r)
     \<and> (\<forall>h r. bm_get (dm_by_host t) h = Some r \<longrightarrow> (\<exists>info. bm_get (dm_shadow_roots t) r = Some info \<and> sr_host info = h))"

lemma registry_pairs: "registry_ok t \<Longrightarrow> pairs_ok t"
  unfolding registry_ok_def pairs_ok_def by blast

lemma drop_registry_pairs:
  assumes "pairs_ok t"
  shows "bm_get (dm_shadow_roots (drop_registry i t)) r =
      (case bm_get (dm_shadow_roots t) r of
         Some info \<Rightarrow> if r = i \<or> sr_host info = i then None else Some info | None \<Rightarrow> None)"
    and "bm_get (dm_by_host (drop_registry i t)) h =
      (case bm_get (dm_by_host t) h of Some r \<Rightarrow> if h = i \<or> r = i then None else Some r | None \<Rightarrow> None)"
    and "pairs_ok (drop_registry i t)"
proof -
  have host: "sr_host info = h" if "bm_get (dm_shadow_roots t) r = Some info" "bm_get (dm_by_host t) h = Some r" for info h r
    using assms that unfolding pairs_ok_def by fastforce
  have bk: "bm_get (dm_by_host t) (sr_host info) = Some r" if "bm_get (dm_shadow_roots t) r = Some info" for info r
    using assms that unfolding pairs_ok_def by blast
  have some: "bm_get (dm_shadow_roots t) r \<noteq> None" if "bm_get (dm_by_host t) h = Some r" for h r
    using assms that unfolding pairs_ok_def by fastforce
  show roots: "bm_get (dm_shadow_roots (drop_registry i t)) r =
      (case bm_get (dm_shadow_roots t) r of
         Some info \<Rightarrow> if r = i \<or> sr_host info = i then None else Some info | None \<Rightarrow> None)" for r
    using bk host
    by (cases "bm_get (dm_shadow_roots t) i"; cases "bm_get (dm_by_host t) i"; cases "bm_get (dm_shadow_roots t) r")
      (auto simp: drop_registry_def Let_def bm_get_remove dest: bk host)
  show hosts: "bm_get (dm_by_host (drop_registry i t)) h =
      (case bm_get (dm_by_host t) h of Some r \<Rightarrow> if h = i \<or> r = i then None else Some r | None \<Rightarrow> None)" for h
    using some
    by (cases "bm_get (dm_shadow_roots t) i"; cases "bm_get (dm_by_host t) i"; cases "bm_get (dm_by_host t) h")
      (auto simp: drop_registry_def Let_def bm_get_remove dest: bk host some)
  show "pairs_ok (drop_registry i t)"
    unfolding pairs_ok_def roots hosts
    by (auto split: option.splits if_splits dest: bk host some)
qed

end
