(* ===== verification/DomFree.thy ===== *)
theory DomFree
  imports DomSteps
begin

text \<open>
  Freeing an owned subtree keeps the invariant: the slots of the subtree are emptied, each once, the other
  child lists lose only the node itself, and the shadow registry loses exactly the freed roots.
\<close>

section \<open>The folds of \<open>remove\<close>\<close>

lemma fold_drop_registry:
  assumes "pairs_ok t"
  shows "bm_get (dm_shadow_roots (fold drop_registry is t)) r =
      (case bm_get (dm_shadow_roots t) r of
         Some info \<Rightarrow> if r \<in> set is \<or> sr_host info \<in> set is then None else Some info | None \<Rightarrow> None)"
    and "bm_get (dm_by_host (fold drop_registry is t)) h =
      (case bm_get (dm_by_host t) h of Some r \<Rightarrow> if h \<in> set is \<or> r \<in> set is then None else Some r | None \<Rightarrow> None)"
  using assms
proof (induction "is" arbitrary: t)
  case Nil
  { case 1 show ?case by (simp split: option.split) next case 2 show ?case by (simp split: option.split) }
next
  case (Cons i "is")
  note d = drop_registry_pairs
  {
    case 1
    show ?case using Cons.IH(1) [OF d(3) [OF 1], of i] d(1) [OF 1, of i] by (auto split: option.split)
  next
    case 2
    show ?case using Cons.IH(2) [OF d(3) [OF 2], of i] d(2) [OF 2, of i] by (auto split: option.split)
  }
qed

lemma fold_drop_registry_frame:
  "dm_nodes (fold drop_registry is t) = dm_nodes t" "dm_free (fold drop_registry is t) = dm_free t"
  "dm_document (fold drop_registry is t) = dm_document t"
  by (induction "is" arbitrary: t) (simp_all add: drop_registry_frame)

lemma node_at_free: "node_at (free_slot i t) j = (if j = i then None else node_at t j)"
proof (cases "alive t i")
  case True
  then have "i < length (dm_nodes t)" by (auto simp: alive_def node_at_def slot_def split: if_splits)
  with True show ?thesis by (simp add: free_slot_def node_at_def slot_update)
next
  case False
  then show ?thesis by (simp add: free_slot_def alive_def)
qed

lemma free_slot_frame:
  "length (dm_nodes (free_slot i t)) = length (dm_nodes t)" "dm_document (free_slot i t) = dm_document t"
  "dm_shadow_roots (free_slot i t) = dm_shadow_roots t" "dm_by_host (free_slot i t) = dm_by_host t"
  by (simp_all add: free_slot_def)

lemma fold_free_slot:
  shows "node_at (fold free_slot is t) j = (if j \<in> set is then None else node_at t j)"
    and "length (dm_nodes (fold free_slot is t)) = length (dm_nodes t)"
    and "dm_document (fold free_slot is t) = dm_document t"
    and "dm_shadow_roots (fold free_slot is t) = dm_shadow_roots t"
    and "dm_by_host (fold free_slot is t) = dm_by_host t"
  by (induction "is" arbitrary: t) (simp_all add: node_at_free free_slot_frame)

lemma fold_free_list:
  "distinct is \<Longrightarrow> (\<forall>i \<in> set is. alive t i) \<Longrightarrow> dm_free (fold free_slot is t) = dm_free t @ is"
proof (induction "is" arbitrary: t)
  case (Cons i "is")
  have "\<forall>j \<in> set is. alive (free_slot i t) j" using Cons.prems by (auto simp: alive_def node_at_free)
  with Cons show ?case by (simp add: free_slot_def)
qed simp

section \<open>Removing an owned subtree\<close>

lemma below_restrict:
  assumes closed: "\<And>j k. f j = Some k \<Longrightarrow> k \<in> S \<Longrightarrow> j \<in> S" and d: "d \<notin> S"
  shows "i \<in> below_of (\<lambda>j. if j \<in> S then None else f j) d \<longleftrightarrow> i \<in> below_of f d \<and> i \<notin> S"
proof
  let ?g = "\<lambda>j. if j \<in> S then None else f j"
  assume "i \<in> below_of ?g d"
  then have "(i, d) \<in> (edges ?g)\<^sup>*" by (simp add: below_of_def)
  then show "i \<in> below_of f d \<and> i \<notin> S"
  proof (induction rule: converse_rtrancl_induct)
    case base
    show ?case using d by simp
  next
    case (step j k)
    then show ?case by (auto split: if_splits intro: below_step)
  qed
next
  let ?g = "\<lambda>j. if j \<in> S then None else f j"
  assume a: "i \<in> below_of f d \<and> i \<notin> S"
  then have "(i, d) \<in> (edges f)\<^sup>*" by (simp add: below_of_def)
  then have "i \<notin> S \<longrightarrow> i \<in> below_of ?g d"
  proof (induction rule: converse_rtrancl_induct)
    case base
    show ?case by simp
  next
    case (step j k)
    show ?case
    proof
      assume "j \<notin> S"
      then have "k \<notin> S" "?g j = Some k" using step.hyps(1) closed [of j k] by auto
      then show "j \<in> below_of ?g d" using step.IH by (blast intro: below_step)
    qed
  qed
  with a show "i \<in> below_of ?g d" by simp
qed

text \<open>A tree without a set of nodes that no other node hangs on.\<close>

lemma links_restrict:
  assumes ok: "links_ok t kids" and closed: "\<And>c p. parent_of t c = Some p \<Longrightarrow> p \<in> S \<longleftrightarrow> c \<in> S"
    and nodes: "\<And>j. node_at t' j = (if j \<in> S then None else node_at t j)"
  shows "links_ok t' (\<lambda>j. if j \<in> S then [] else kids j)"
proof -
  have acc: "parent_of t' j = (if j \<in> S then None else parent_of t j)" "first_of t' j = (if j \<in> S then None else first_of t j)"
    "last_of t' j = (if j \<in> S then None else last_of t j)" "prev_of t' j = (if j \<in> S then None else prev_of t j)"
    "next_of t' j = (if j \<in> S then None else next_of t j)" for j
    by (simp_all add: parent_of_def first_of_def last_of_def prev_of_def next_of_def nodes)
  have "dll (next_of t') (prev_of t') None (kids i) None" if "i \<notin> S" for i
  proof -
    have "c \<notin> S" if "c \<in> set (kids i)" for c using links_okD(5) [OF ok] closed [of c i] that \<open>i \<notin> S\<close> by simp
    then have "dll (next_of t') (prev_of t') None (kids i) None = dll (next_of t) (prev_of t) None (kids i) None"
      by (intro dll_cong) (simp_all add: acc)
    then show ?thesis using links_okD(4) [OF ok, of i] by simp
  qed
  moreover have "c \<in> set (if i \<in> S then [] else kids i) \<longleftrightarrow> parent_of t' c = Some i" for i c
    using links_okD(5) [OF ok, of c i] closed [of c i] by (auto simp: acc)
  moreover have "nd_id nd = i" if "node_at t' i = Some nd" for i nd
    using that links_okD(7) [OF ok, of i nd] by (simp add: nodes split: if_splits)
  ultimately show ?thesis
    using links_okD [OF ok] unfolding links_ok_def by (simp add: acc)
qed

text \<open>Where the detached node stands before its slots are freed.\<close>

lemma detached:
  assumes sh: "shape t kids" and i: "alive t i" "i \<noteq> dm_document t"
  shows "shape (detach_node i t) (\<lambda>j. removeAll i (kids j))" "parent_of (detach_node i t) = (parent_of t)(i := None)"
    "same_rest t (detach_node i t)" "subtree (detach_node i t) i = subtree t i"
proof -
  note s = shapeD [OF sh]
  have "shape (detach_node i t) (\<lambda>j. removeAll i (kids j)) \<and> parent_of (detach_node i t) = (parent_of t)(i := None)
    \<and> same_rest t (detach_node i t) \<and> subtree (detach_node i t) i = subtree t i"
  proof (cases "bm_has (dm_shadow_roots t) i")
    case True
    then have none: "parent_of t i = None" using registryD(5) [OF s(2)] by (auto simp: bm_has_Some)
    moreover have "detach_node i t = t" unfolding detach_node_def by (rule detach_noop) (simp add: True)
    ultimately show ?thesis using sh kids_removeAll_root [OF s(1) none] by (simp add: fun_upd_idem)
  next
    case False
    note e = detach_effect [OF s(1,2,3,5) i False, of True, folded detach_node_def]
    have "subtree (detach_node i t) i = subtree t i"
      unfolding subtree_def up_move [OF e(3,2) False] by (rule below_move) simp
    with e detach_shape [OF sh i False] show ?thesis by simp
  qed
  then show "shape (detach_node i t) (\<lambda>j. removeAll i (kids j))" "parent_of (detach_node i t) = (parent_of t)(i := None)"
    "same_rest t (detach_node i t)" "subtree (detach_node i t) i = subtree t i" by blast+
qed

text \<open>Emptying the slots of a parentless node's subtree.\<close>

lemma free_subtree:
  assumes sh: "shape t kids" and i: "alive t i" "i \<noteq> dm_document t" "parent_of t i = None"
    and gone: "set gone = subtree t i" "distinct gone"
  defines "t' \<equiv> fold free_slot gone (fold drop_registry gone t)"
  shows "shape t' (\<lambda>j. if j \<in> subtree t i then [] else kids j)"
    and "alive t' j \<longleftrightarrow> alive t j \<and> j \<notin> subtree t i"
proof -
  note s = shapeD [OF sh]
  let ?S = "subtree t i" and ?u = "host_including_parent t" and ?t1 = "fold drop_registry gone t"
  have up: "j \<in> ?S" if "?u j = Some k" "k \<in> ?S" for j k using that by (auto simp: subtree_def intro: below_step)
  have in_S: "c = i \<or> p \<in> ?S" if "?u c = Some p" "c \<in> ?S" for c p
    using below_cases [of c ?u i] that by (auto simp: subtree_def)
  have live: "alive t j" if "j \<in> ?S" for j using subtree_alive [OF s(1,2) that] i(1) by (cases "j = i") auto
  note r = fold_drop_registry [OF registry_pairs [OF s(2)], of gone] and rf = fold_drop_registry_frame [of gone t]
  note f = fold_free_slot [of gone ?t1, folded t'_def]
  have nodes: "node_at t' j = (if j \<in> ?S then None else node_at t j)" for j
    unfolding f(1) gone(1) using rf(1) by (simp add: node_at_def)
  show al: "alive t' j \<longleftrightarrow> alive t j \<and> j \<notin> ?S" for j by (simp add: alive_def nodes)
  have par: "parent_of t' j = (if j \<in> ?S then None else parent_of t j)" "is_connected t' j = (if j \<in> ?S then False else is_connected t j)" for j
    by (simp_all add: parent_of_def is_connected_def nodes)
  have doc: "dm_document t' = dm_document t" by (simp add: f(3) rf(3))
  have dS: "dm_document t \<notin> ?S"
  proof
    assume "dm_document t \<in> ?S"
    from below_cases [OF this [unfolded subtree_def]] i(2) document_up [OF s(3,2)] show False by auto
  qed
  have pu: "?u c = Some p" if "parent_of t c = Some p" for c p using that by (simp add: host_including_parent_def)
  have pS: "p \<in> ?S \<longleftrightarrow> c \<in> ?S" if "parent_of t c = Some p" for c p
    using up [OF pu [OF that]] in_S [OF pu [OF that]] that i(3) by auto
  have links: "links_ok t' (\<lambda>j. if j \<in> ?S then [] else kids j)" by (rule links_restrict [OF s(1) pS nodes])
  have hostS: "h \<in> ?S \<Longrightarrow> r \<in> ?S" "r \<in> ?S \<Longrightarrow> r = i \<or> h \<in> ?S"
    if "bm_get (dm_shadow_roots t) r = Some info" "sr_host info = h" for r h info
  proof -
    have "?u r = Some h" using that registryD(5) [OF s(2) that(1)] by (simp add: host_including_parent_def)
    then show "h \<in> ?S \<Longrightarrow> r \<in> ?S" "r \<in> ?S \<Longrightarrow> r = i \<or> h \<in> ?S" using up in_S by blast+
  qed
  have roots: "bm_get (dm_shadow_roots t') r = (if r \<in> ?S then None else bm_get (dm_shadow_roots t) r)" for r
    unfolding f(4) r(1) gone(1) using hostS(1) [of r] by (auto split: option.split)
  have hosts: "bm_get (dm_by_host t') h = (case bm_get (dm_by_host t) h of Some r \<Rightarrow> if r \<in> ?S then None else Some r | None \<Rightarrow> None)" for h
  proof (cases "bm_get (dm_by_host t) h")
    case (Some r)
    then obtain info where "bm_get (dm_shadow_roots t) r = Some info" "sr_host info = h"
      using s(2) unfolding registry_ok_def by blast
    from hostS(1) [OF this] show ?thesis unfolding f(5) r(2) gone(1) by (auto simp: Some)
  qed (simp add: f(5) r(2))
  have reg: "registry_ok t'"
    unfolding registry_ok_def
  proof (intro conjI allI impI)
    fix r info assume "bm_get (dm_shadow_roots t') r = Some info"
    then have rS: "r \<notin> ?S" and ri: "bm_get (dm_shadow_roots t) r = Some info" by (simp_all add: roots split: if_splits)
    note d = registryD [OF s(2) ri]
    show "sr_id info = r" "bm_get (dm_by_host t') (sr_host info) = Some r" "alive t' r" "alive t' (sr_host info)"
      "parent_of t' r = None" "r \<noteq> dm_document t'"
      using d rS hostS(1) [OF ri refl] by (auto simp: hosts al par doc)
  next
    fix h r assume "bm_get (dm_by_host t') h = Some r"
    then have rS: "r \<notin> ?S" and hr: "bm_get (dm_by_host t) h = Some r" by (auto simp: hosts split: option.splits if_splits)
    then obtain info where "bm_get (dm_shadow_roots t) r = Some info" "sr_host info = h"
      using s(2) unfolding registry_ok_def by blast
    with rS show "\<exists>info. bm_get (dm_shadow_roots t') r = Some info \<and> sr_host info = h" by (simp add: roots)
  qed
  have u': "host_including_parent t' = (\<lambda>j. if j \<in> ?S then None else ?u j)"
    by (simp add: fun_eq_iff host_including_parent_def par roots split: option.split)
  have "edges (host_including_parent t') \<subseteq> edges ?u" by (auto simp: u' split: if_splits)
  then have acy: "acyclic (edges (host_including_parent t'))" by (rule acyclic_subset [OF s(4)])
  have "is_connected t' j \<longleftrightarrow> j \<in> subtree t' (dm_document t')" for j
    using below_restrict [of ?u ?S "dm_document t" j, OF up dS] s(5)
    by (simp add: par doc subtree_def u' connected_ok_def)
  then have con: "connected_ok t'" by (simp add: connected_ok_def)
  have "alive ?t1 j" if "j \<in> set gone" for j using live that rf(1) by (simp add: gone(1) alive_def node_at_def)
  then have "dm_free t' = dm_free t @ gone" unfolding t'_def using fold_free_list [OF gone(2), of ?t1] rf(2) by simp
  moreover have "j < length (dm_nodes t)" if "j \<in> ?S" for j
    using live [OF that] by (auto simp: alive_def node_at_def slot_def split: if_splits)
  ultimately have "free_ok t'"
    using s(6) gone live f(2) rf(1) by (auto simp: free_ok_def al)
  then show "shape t' (\<lambda>j. if j \<in> ?S then [] else kids j)"
    using links reg acy con s(3) dS by (simp add: shape_def document_ok_def doc al par)
qed

lemma remove_node_shape:
  assumes sh: "shape t kids" and i: "alive t i" "i \<noteq> dm_document t"
  shows "shape (remove_node i t) (\<lambda>j. if j \<in> subtree t i then [] else removeAll i (kids j))"
    and "alive (remove_node i t) j \<longleftrightarrow> alive t j \<and> j \<notin> subtree t i"
proof -
  let ?gone = "inclusive_owned_subtrees t i" and ?t1 = "detach_node i t"
  let ?t2 = "drop_ids (id_values ?t1 ?gone) ?t1"
  note s = shapeD [OF sh] and d = detached [OF sh i]
  have gone: "set ?gone = subtree t i" "distinct ?gone" using owned_subtree [OF s(1,2), of i] i(1) by simp_all
  have "i \<in> set ?gone" by (simp add: gone(1) subtree_def)
  then have "?gone \<noteq> []" by auto
  then have eq: "remove_node i t = fold free_slot ?gone (fold drop_registry ?gone ?t2)" by (simp add: remove_node_def Let_def)
  have l: "same_links ?t1 ?t2" unfolding drop_ids_def by (rule same_links_other_fields)
  have sub: "subtree ?t2 i = subtree t i" using same_links_subtree [OF l] d(4) by simp
  have live: "alive ?t2 = alive t" using same_linksD(6) [OF l] same_restD(1) [OF d(3)] by simp
  have sh2: "shape ?t2 (\<lambda>j. removeAll i (kids j))" by (rule sheet_ops_shape(9) [OF d(1)])
  note f = free_subtree [OF sh2, of i ?gone, unfolded live sub, folded eq]
  have "i \<noteq> dm_document ?t2" "parent_of ?t2 i = None"
    using i(2) same_linksD [OF l] same_restD(4) [OF d(3)] by (simp_all add: d(2))
  from f [OF i(1) this gone] show "shape (remove_node i t) (\<lambda>j. if j \<in> subtree t i then [] else removeAll i (kids j))"
    and "alive (remove_node i t) j \<longleftrightarrow> alive t j \<and> j \<notin> subtree t i" by simp_all
qed

lemma remove_child_shape:
  assumes "shape t kids" and "alive t i" "i \<noteq> dm_document t"
  shows "shape (remove_child i t) (\<lambda>j. removeAll i (kids j))"
  unfolding remove_child_def by (rule sheet_ops_shape(9) [OF detached(1) [OF assms]])

end
