(* ===== verification/DomGrow.thy ===== *)
theory DomGrow
  imports DomFree
begin

text \<open>
  The operations that allocate keep the invariant: shadow roots, template contents, text, cloning and
  importing. The child lists of a tree that satisfies the invariant are those \<open>children\<close> returns, so
  the invariant of a tree is \<open>dom_ok\<close>.
\<close>

definition dom_ok :: "dom \<Rightarrow> bool" where
  "dom_ok t \<longleftrightarrow> shape t (children t)"

lemma shape_children: "shape t kids \<Longrightarrow> kids = children t"
  by (rule ext) (simp add: children_kids [OF shapeD(1)])

lemma dom_okI: "shape t kids \<Longrightarrow> dom_ok t"
  using shape_children [of t kids] by (simp add: dom_ok_def)

lemma dom_okD: "dom_ok t \<Longrightarrow> shape t (children t)"
  by (simp add: dom_ok_def)

section \<open>The number of slots\<close>

text \<open>Only allocation changes it, and never shrinks it.\<close>

lemma length_upd [simp]: "length (dm_nodes (upd_node i f t)) = length (dm_nodes t)"
  by (simp add: upd_node_def split: option.split)

lemma length_invalidate [simp]: "length (dm_nodes (invalidate_cssom_source i t)) = length (dm_nodes t)"
  using same_linksD(11) [OF same_links_invalidate] by simp

lemma length_connected [simp]: "length (dm_nodes (set_subtree_connected i b t)) = length (dm_nodes t)"
  using same_linksD(11) [OF same_links_set_connected] by simp

lemma length_detach [simp]: "length (dm_nodes (detach_for_reparent i b t)) = length (dm_nodes t)"
  by (simp add: detach_for_reparent_def cut_links_def Let_def split: option.split)

lemma length_append_child [simp]: "length (dm_nodes (append_child p c t)) = length (dm_nodes t)"
  by (simp add: append_child_def link_last_def Let_def split: option.split)

lemma length_insert_before [simp]: "length (dm_nodes (insert_before e c t)) = length (dm_nodes t)"
  by (simp add: insert_before_def link_before_def Let_def split: option.split)

lemma length_remove [simp]: "length (dm_nodes (remove_node i t)) = length (dm_nodes t)"
  by (simp add: remove_node_def Let_def fold_free_slot fold_drop_registry_frame drop_ids_def detach_node_def)

lemma length_with_node_mut [simp]: "length (dm_nodes (with_node_mut i f t)) = length (dm_nodes t)"
  by (simp add: with_node_mut_def)

lemma length_new_node: "new_node d t = (i, t') \<Longrightarrow> length (dm_nodes t) \<le> length (dm_nodes t')"
  by (auto simp: new_node_def Let_def split: if_splits option.splits)

lemma length_attach_node: "attach_shadow_root_node host root mode t = (r, t') \<Longrightarrow> length (dm_nodes t') = length (dm_nodes t)"
  by (auto simp: attach_shadow_root_node_def Let_def split: if_splits)

lemma length_attach_root: "new_node Document t = (i, t1) \<Longrightarrow> \<not> bm_has (dm_by_host t) host \<Longrightarrow>
    (case node_at t host of Some nd \<Rightarrow> is_element nd | None \<Rightarrow> False) \<Longrightarrow>
    length (dm_nodes (snd (attach_shadow_root host mode t))) = length (dm_nodes t1)"
  by (auto simp: attach_shadow_root_def dest: length_attach_node split: prod.split sum.split)

section \<open>Shadow roots\<close>

lemma attach_node_shape:
  assumes sh: "shape t kids" and out: "host \<notin> subtree t root"
    and ok: "attach_shadow_root_node host root mode t = (Inr u, t')"
  shows "shape t' kids" and "host_including_parent t' = (host_including_parent t)(root := Some host)"
    and "is_connected t' root = is_connected t host"
proof -
  note s = shapeD [OF sh]
  let ?t1 = "t\<lparr>dm_shadow_roots := bm_insert root \<lparr>sr_id = root, sr_host = host, sr_mode = mode\<rparr> (dm_shadow_roots t),
               dm_by_host := bm_insert host root (dm_by_host t)\<rparr>"
  have host: "alive t host" "\<not> bm_has (dm_by_host t) host"
    and root: "root \<noteq> dm_document t" "\<not> bm_has (dm_shadow_roots t) root" "alive t root" "parent_of t root = None"
    and t': "t' = set_subtree_connected root (is_connected ?t1 host) ?t1"
    using ok by (auto simp: attach_shadow_root_node_def alive_def parent_of_def Let_def split: if_splits option.splits)
  have acc: "parent_of ?t1 = parent_of t" "first_of ?t1 = first_of t" "last_of ?t1 = last_of t" "prev_of ?t1 = prev_of t"
    "next_of ?t1 = next_of t" "alive ?t1 = alive t" "is_connected ?t1 = is_connected t" "\<And>i. node_at ?t1 i = node_at t i"
    by (simp_all add: fun_eq_iff parent_of_def first_of_def last_of_def prev_of_def next_of_def alive_def is_connected_def node_at_def)
  have links1: "links_ok ?t1 kids"
    by (rule links_ok_cong [OF acc(1-5) _ s(1)]) (simp only: acc links_okD(7) [OF s(1)])
  have none: "sr_host info \<noteq> host" if "bm_get (dm_shadow_roots t) r = Some info" for r info
    using registryD(2) [OF s(2) that] host(2) by (auto simp: bm_has_Some)
  have other: "r \<noteq> root" if "bm_get (dm_by_host t) h = Some r" for h r
    using that s(2) root(2) unfolding registry_ok_def bm_has_Some by fastforce
  have reg1: "registry_ok ?t1"
    using s(2) none other root host by (auto simp: registry_ok_def acc bm_get_insert)
  have up1: "host_including_parent ?t1 = (host_including_parent t)(root := Some host)"
    using root(4) by (auto simp: fun_eq_iff host_including_parent_def acc bm_get_insert split: option.split)
  have s': "same_links ?t1 t'" unfolding t' by (rule same_links_set_connected)
  show up': "host_including_parent t' = (host_including_parent t)(root := Some host)"
    by (simp only: same_links_up [OF s'] up1)
  have sub1: "subtree ?t1 root = subtree t root" unfolding subtree_def up1 by (rule below_move) simp
  have al1: "alive ?t1 root" by (simp only: acc root)
  have con': "is_connected t' j = (if j \<in> subtree t root then is_connected t host else is_connected t j)" for j
    unfolding t' set_connected_flags [OF links1 reg1 al1] sub1 by (simp only: acc)
  show "is_connected t' root = is_connected t host" by (simp add: con' subtree_def)
  have "is_connected t' j \<longleftrightarrow> j \<in> subtree t' (dm_document t')" for j
    using move_root [of "host_including_parent t", OF document_up [OF s(3,2)], of root host j] root(1) out s(5) same_linksD(9) [OF s']
    by (simp add: con' subtree_def up' connected_ok_def)
  then have "connected_ok t'" by (simp add: connected_ok_def)
  moreover have "registry_ok t'" by (rule registry_ok_rest [OF same_links_rest [OF s'] reg1]) (simp only: same_linksD(1) [OF s'])
  moreover have "acyclic (edges (host_including_parent t'))"
    unfolding up' by (rule acyclic_move [OF s(4)]) (use out in \<open>simp add: subtree_def\<close>)
  moreover have "free_ok ?t1" using s(6) by (simp add: free_ok_def acc)
  then have "free_ok t'" by (rule free_ok_rest [OF same_links_rest [OF s']])
  moreover have "document_ok t'" using s(3) same_linksD [OF s'] by (simp add: document_ok_def acc)
  ultimately show "shape t' kids" using same_links_ok [OF s' links1] by (simp add: shape_def)
qed

lemma attach_node_refused: "attach_shadow_root_node host root mode t = (Inl e, t') \<Longrightarrow> t' = t"
  by (auto simp: attach_shadow_root_node_def Let_def split: if_splits)

text \<open>A fresh root hangs nowhere, so a new shadow root is always accepted.\<close>

lemma fresh_subtree:
  assumes "shape t kids" and "kids i = []" and "\<not> bm_has (dm_by_host t) i"
  shows "subtree t i = {i}"
  unfolding subtree_def
proof (rule below_leaf)
  fix c
  have "set (children t i) \<union> set (hosted t i) = {}"
    using assms(2,3) children_kids [OF shapeD(1) [OF assms(1)], of i] by (auto simp: hosted_def bm_has_def split: option.splits)
  then show "host_including_parent t c \<noteq> Some i" using successors [OF shapeD(1,2) [OF assms(1)], of i] by auto
qed


lemma attach_root_shape:
  assumes sh: "shape t kids" and fit: "fits (snd (attach_shadow_root host mode t))"
  shows "shape (snd (attach_shadow_root host mode t)) kids"
    and "fst (attach_shadow_root host mode t) \<noteq> Inl InvalidShadowRoot"
proof -
  let ?el = "case node_at t host of Some nd \<Rightarrow> is_element nd | None \<Rightarrow> False"
  have "shape (snd (attach_shadow_root host mode t)) kids \<and> fst (attach_shadow_root host mode t) \<noteq> Inl InvalidShadowRoot"
  proof (cases "?el \<and> \<not> bm_has (dm_by_host t) host")
    case False
    then show ?thesis using sh by (auto simp: attach_shadow_root_def)
  next
    case True
    obtain root t1 where new: "new_node Document t = (root, t1)" by fastforce
    have "length (dm_nodes (snd (attach_shadow_root host mode t))) = length (dm_nodes t1)"
      by (rule length_attach_root [OF new]) (use True in auto)
    then have room: "fits t1" using fit by (simp add: fits_def)
    note n = new_node_shape [OF sh new room] and f = new_node_facts [OF sh new room]
    have host: "host \<noteq> root" using True n(2) by (auto simp: alive_def)
    have sub: "subtree t1 root = {root}" by (rule fresh_subtree [OF n(1,7,10)])
    obtain t2 where a: "attach_shadow_root_node host root mode t1 = (Inr (), t2)"
      using True host n(8,9) f(2) by (auto simp: attach_shadow_root_node_def Let_def f(5) fresh_node_def is_document_def)
    have "shape t2 kids" by (rule attach_node_shape(1) [OF n(1) _ a]) (simp add: sub host)
    then show ?thesis using True new a by (simp add: attach_shadow_root_def)
  qed
  then show "shape (snd (attach_shadow_root host mode t)) kids"
    "fst (attach_shadow_root host mode t) \<noteq> Inl InvalidShadowRoot" by simp_all
qed

section \<open>Template contents and text\<close>

lemma append_child_ok: "dom_ok t \<Longrightarrow> c \<noteq> dm_document t \<Longrightarrow> dom_ok (append_child p c t)"
  by (rule dom_okI [OF append_child_shape [OF dom_okD]])

lemma insert_before_ok:
  assumes "dom_ok t" and "c \<noteq> dm_document t"
  shows "dom_ok (insert_before e c t)"
proof (cases "parent_of t e")
  case None
  then show ?thesis using assms(1) by (simp add: insert_before_noop)
next
  case (Some p)
  show ?thesis
  proof (cases "e = c")
    case True
    then show ?thesis using assms(1) by (simp add: insert_before_def)
  next
    case False
    then have "e \<in> set (removeAll c (children t p))" using links_okD(5) [OF shapeD(1) [OF dom_okD [OF assms(1)]]] Some by simp
    then obtain xs ys where "removeAll c (children t p) = xs @ e # ys" by (metis split_list)
    from insert_before_shape [OF dom_okD [OF assms(1)] assms(2) Some this] show ?thesis by (rule dom_okI)
  qed
qed

lemma new_node_ok: "dom_ok t \<Longrightarrow> new_node d t = (i, t') \<Longrightarrow> fits t' \<Longrightarrow> dom_ok t'"
  by (rule dom_okI [OF new_node_shape(1) [OF dom_okD]])

lemma fits_before: "fits t' \<Longrightarrow> length (dm_nodes t) \<le> length (dm_nodes t') \<Longrightarrow> fits t"
  by (simp add: fits_def)

lemma template_contents_ok:
  assumes ok: "dom_ok t" and fit: "fits (snd (template_contents i t))"
  shows "dom_ok (snd (template_contents i t))"
proof -
  obtain c t1 where new: "new_node Document t = (c, t1)" by fastforce
  have "dom_ok t1" if "fits t1" by (rule new_node_ok [OF ok new that])
  moreover have "dom_ok (upd_node i (set_template_field c) t1)" if "fits t1"
    by (rule dom_okI [OF upd_data_shape [OF keeps_links_ops(4) dom_okD [OF new_node_ok [OF ok new that]]]])
  ultimately show ?thesis
    using fit ok by (auto simp: template_contents_def new fits_def split: option.splits if_splits)
qed

lemma append_text_ok:
  assumes ok: "dom_ok t" and fit: "fits (append_text p s t)"
  shows "dom_ok (append_text p s t)"
proof -
  obtain c t1 where new: "new_node (Text s) t = (c, t1)" by fastforce
  let ?last = "Option.bind (last_of t p) (\<lambda>l. map_option (\<lambda>nd. (l, is_text nd)) (node_at t l))"
  have upd: "dom_ok (upd_node l (push_text s) t)" for l
    by (rule dom_okI [OF upd_data_shape [OF keeps_links_ops(5) dom_okD [OF ok]]])
  have app: "dom_ok (append_child p c t1)" if "fits t1"
    using new_node_shape [OF dom_okD [OF ok] new that] by (intro append_child_ok dom_okI) auto
  have "append_text p s t = append_child p c t1 \<or> (\<exists>l. append_text p s t = upd_node l (push_text s) t)"
    by (auto simp: append_text_def new split: option.split bool.split)
  then show ?thesis
  proof
    assume eq: "append_text p s t = append_child p c t1"
    have "fits t1" using fit unfolding eq by (simp add: fits_def)
    then show ?thesis unfolding eq by (rule app)
  next
    assume "\<exists>l. append_text p s t = upd_node l (push_text s) t"
    with upd show ?thesis by auto
  qed
qed

section \<open>Cloning and importing\<close>

text \<open>
  A loop that allocates and links keeps the invariant when its result fits; that the slots only grow is
  proved together with it, by induction on the computation.
\<close>

definition arena_grows :: "dom \<Rightarrow> dom \<Rightarrow> bool" where
  "arena_grows t t' \<longleftrightarrow> length (dm_nodes t) \<le> length (dm_nodes t') \<and> (dom_ok t \<longrightarrow> fits t' \<longrightarrow> dom_ok t')"

lemma grows_refl [simp]: "arena_grows t t"
  by (simp add: arena_grows_def)

lemma grows_trans: "arena_grows t t' \<Longrightarrow> arena_grows t' t'' \<Longrightarrow> arena_grows t t''"
  by (auto simp: arena_grows_def fits_def)

lemma grows_new: "new_node d t = (i, t') \<Longrightarrow> arena_grows t t'"
  by (auto simp: arena_grows_def length_new_node intro: new_node_ok)

lemma grows_data: "keeps_links f \<Longrightarrow> arena_grows t (upd_node i f t)"
  by (auto simp: arena_grows_def intro: dom_okI [OF upd_data_shape [OF _ dom_okD]])

lemma grows_with_node_mut: "keeps_links f \<Longrightarrow> arena_grows t (with_node_mut i f t)"
  by (auto simp: arena_grows_def intro: dom_okI [OF with_node_mut_shape [OF _ dom_okD]])

lemma grows_control: "arena_grows t (clone_control source i t)"
proof (cases "get_form_control_state t source")
  case (Some st)
  have "length (dm_nodes (update_form_control_state t i f)) = length (dm_nodes t)" for f
    by (simp add: update_form_control_state_def Let_def split: option.split)
  then show ?thesis
    by (auto simp: clone_control_def Some arena_grows_def intro: dom_okI [OF sheet_ops_shape(7) [OF dom_okD]])
qed (simp add: clone_control_def)

lemma control_document: "dm_document (clone_control source i t) = dm_document t"
  by (simp add: clone_control_def update_form_control_state_def Let_def split: option.split)

text \<open>A fresh node is not the document, so it can be appended.\<close>

lemma grows_append_new:
  assumes new: "new_node d t = (c, t1)" and mid: "t2 = t1 \<or> t2 = clone_control source c t1"
  shows "arena_grows t (append_child p c t2)"
  unfolding arena_grows_def
proof (intro conjI impI)
  have len: "length (dm_nodes t2) = length (dm_nodes t1)"
    using mid by (auto simp: clone_control_def update_form_control_state_def Let_def split: option.split)
  then show "length (dm_nodes t) \<le> length (dm_nodes (append_child p c t2))" using length_new_node [OF new] by simp
  assume ok: "dom_ok t" and "fits (append_child p c t2)"
  then have fit: "fits t1" using len by (simp add: fits_def)
  have "arena_grows t1 t2" using mid grows_control by auto
  moreover have "fits t2" using fit len by (simp add: fits_def)
  ultimately have "dom_ok t2" using new_node_ok [OF ok new fit] by (simp add: arena_grows_def)
  moreover have "dm_document t2 = dm_document t1" using mid control_document by auto
  then have "c \<noteq> dm_document t2" using new_node_shape(8) [OF dom_okD [OF ok] new fit] by simp
  ultimately show "dom_ok (append_child p c t2)" by (rule append_child_ok)
qed

lemma grows_prepare: "prepare_cloned_children source i deep stack t = (stack', t') \<Longrightarrow> arena_grows t t'"
  unfolding prepare_cloned_children_def Let_def
  by (auto split: option.splits prod.splits dest!: grows_new intro: grows_trans grows_with_node_mut keeps_links_ops)

lemma clone_loop_grows: "clone_loop stack t = Some t' \<Longrightarrow> arena_grows t t'"
proof (rule clone_loop.raw_induct [of "\<lambda>_. arena_grows" stack t t'], goal_cases)
  case (1 loop stack t t')
  show ?case
  proof (cases stack)
    case Nil
    then show ?thesis using 1(3) by simp
  next
    case (Cons w rest)
    obtain parent source where w: "w = (parent, source)" by fastforce
    show ?thesis
    proof (cases "node_at t source")
      case None
      then show ?thesis using 1(3) by (intro 1(2)) (simp add: Cons w)
    next
      case (Some nd)
      obtain copy t1 where new: "new_node (nd_data nd) t = (copy, t1)" by fastforce
      obtain stack' t2 where prep: "prepare_cloned_children source copy True rest
          (append_child parent copy (clone_control source copy t1)) = (stack', t2)" by fastforce
      have "loop stack' t2 = Some t'" using 1(3) by (simp add: Cons w Some new prep)
      then have "arena_grows t2 t'" by (rule 1(2))
      with grows_prepare [OF prep] grows_append_new [OF new, of _ source] show ?thesis by (blast intro: grows_trans)
    qed
  qed
qed simp

lemma clone_node_grows:
  assumes "clone_node source deep t = Some (r, t')"
  shows "arena_grows t t'"
proof (cases "is_shadow_root t source \<or> node_at t source = None")
  case True
  then show ?thesis using assms by (auto simp: clone_node_def split: if_splits)
next
  case False
  then obtain nd where nd: "node_at t source = Some nd" "\<not> is_shadow_root t source" by auto
  obtain copy t1 where new: "new_node (nd_data nd) t = (copy, t1)" by fastforce
  obtain stack t2 where prep: "prepare_cloned_children source copy deep [] (clone_control source copy t1) = (stack, t2)" by fastforce
  have "clone_loop stack t2 = Some t'" using assms nd by (simp add: clone_node_def new prep)
  from clone_loop_grows [OF this] grows_prepare [OF prep] grows_control grows_new [OF new] show ?thesis
    by (blast intro: grows_trans)
qed

lemma import_loop_grows: "import_loop source stack imported t = Some (r, t') \<Longrightarrow> arena_grows t t'"
proof -
  assume a: "import_loop source stack imported t = Some (r, t')"
  have "arena_grows t (snd (r, t'))"
  proof (rule import_loop.raw_induct [of "\<lambda>_ _ _ t r. arena_grows t (snd r)" source stack imported t "(r, t')"], goal_cases)
    case (1 loop source stack imported t res)
    show ?case
    proof (cases stack)
      case Nil
      then show ?thesis using 1(2) by auto
    next
      case (Cons w rest)
      obtain parent i where w: "w = (parent, i)" by fastforce
      show ?thesis
      proof (cases "node_at source i")
        case None
        then show ?thesis using 1(2) by (intro 1(1)) (simp add: Cons w)
      next
        case (Some nd)
        obtain copy t1 where new: "new_node (nd_data nd) t = (copy, t1)" by fastforce
        let ?t2 = "append_child parent copy t1"
        let ?im = "case imported of None \<Rightarrow> Some copy | Some r \<Rightarrow> Some r"
        have app: "arena_grows t ?t2" by (rule grows_append_new [OF new]) simp
        show ?thesis
        proof (cases "Option.bind (node_at ?t2 copy) template_field")
          case None
          have "loop source (map (Pair copy) (children source i) @ rest) ?im ?t2 = Some res"
            using 1(2) None by (simp add: Cons w Some new Let_def)
          from grows_trans [OF app 1(1) [OF this]] show ?thesis .
        next
          case (Some contents)
          obtain c t3 where new3: "new_node Document ?t2 = (c, t3)" by fastforce
          have "loop source (map (Pair copy) (children source i) @ map (Pair c) (children source contents) @ rest) ?im
              (upd_node copy (set_template_field c) t3) = Some res"
            using 1(2) Some by (simp add: Cons w \<open>node_at source i = Some nd\<close> new new3 Let_def)
          from grows_trans [OF app grows_trans [OF grows_new [OF new3] grows_trans [OF grows_data [OF keeps_links_ops(4)] 1(1) [OF this]]]]
          show ?thesis .
        qed
      qed
    qed
  qed (rule a)
  then show ?thesis by simp
qed

lemma import_node_grows: "import_node_from p source i t = Some (r, t') \<Longrightarrow> arena_grows t t'"
  unfolding import_node_from_def by (rule import_loop_grows)

lemma import_all_grows: "import_all p source is t = Some t' \<Longrightarrow> arena_grows t t'"
proof (induction "is" arbitrary: t)
  case (Cons i "is")
  then obtain r t1 where one: "import_node_from p source i t = Some (r, t1)" and rest: "import_all p source is t1 = Some t'"
    by (auto simp: bind_eq_Some_conv)
  from grows_trans [OF import_node_grows [OF one] Cons.IH [OF rest]] show ?case .
qed simp

section \<open>Removing\<close>

lemma detach_ok: "dom_ok t \<Longrightarrow> dom_ok (detach_node c t)"
proof -
  assume ok: "dom_ok t"
  show ?thesis
  proof (cases "c = dm_document t \<or> bm_has (dm_shadow_roots t) c \<or> \<not> alive t c")
    case True
    then show ?thesis using ok detach_noop by (simp add: detach_node_def)
  next
    case False
    then show ?thesis by (intro dom_okI [OF detach_shape [OF dom_okD [OF ok]]]) auto
  qed
qed

lemma remove_node_ok: "dom_ok t \<Longrightarrow> c \<noteq> dm_document t \<Longrightarrow> dom_ok (remove_node c t)"
proof (cases "alive t c")
  case False
  then have "remove_node c t = t" by (simp add: remove_node_def inclusive_owned_subtrees_def)
  then show "dom_ok t \<Longrightarrow> dom_ok (remove_node c t)" by simp
qed (rule dom_okI [OF remove_node_shape(1) [OF dom_okD]])

lemma attach_node_ok:
  "dom_ok t \<Longrightarrow> h \<notin> set (inclusive_owned_subtrees t r) \<Longrightarrow> dom_ok (snd (attach_shadow_root_node h r mode t))"
proof (cases "attach_shadow_root_node h r mode t")
  case (Pair res t')
  assume ok: "dom_ok t" and h: "h \<notin> set (inclusive_owned_subtrees t r)"
  show ?thesis
  proof (cases res)
    case (Inl e)
    then show ?thesis using attach_node_refused [of h r mode t e t'] Pair ok by simp
  next
    case (Inr u)
    then have "alive t r" using Pair by (auto simp: attach_shadow_root_node_def alive_def Let_def split: if_splits option.splits)
    then have out: "h \<notin> subtree t r" using h owned_subtree(1) [OF shapeD(1,2) [OF dom_okD [OF ok]], of r] by simp
    show ?thesis using Inr dom_okI [OF attach_node_shape(1) [OF dom_okD [OF ok] out, of mode u t']] Pair by simp
  qed
qed

lemma remove_child_ok: "dom_ok t \<Longrightarrow> dom_ok (remove_child c t)"
  unfolding remove_child_def by (rule dom_okI [OF sheet_ops_shape(9) [OF dom_okD [OF detach_ok]]])

end
