(* ===== verification/Forest.thy ===== *)
theory Forest
  imports Ancestry
begin

text \<open>
  Ordered forests: a child list per node and the node above each. The preorder of a subtree is the
  reference the traversals of the tree are compared with.
\<close>

definition forest :: "('a \<Rightarrow> 'a list) \<Rightarrow> ('a \<Rightarrow> 'a option) \<Rightarrow> bool" where
  "forest kids up \<longleftrightarrow> acyclic (edges up) \<and> finite {i. up i \<noteq> None} \<and> (\<forall>i. distinct (kids i))
     \<and> (\<forall>i c. c \<in> set (kids i) \<longleftrightarrow> up c = Some i)"

lemma forestD:
  assumes "forest kids up"
  shows "acyclic (edges up)" "finite {i. up i \<noteq> None}" "distinct (kids i)" "c \<in> set (kids i) \<longleftrightarrow> up c = Some i"
  using assms unfolding forest_def by blast+

lemma finite_below:
  assumes "forest kids up"
  shows "finite (below_of up i)"
proof (rule finite_subset)
  show "below_of up i \<subseteq> insert i {j. up j \<noteq> None}" by (auto dest: below_cases)
  show "finite (insert i {j. up j \<noteq> None})" using forestD(2) [OF assms] by simp
qed

definition rank :: "('a \<Rightarrow> 'a option) \<Rightarrow> 'a \<Rightarrow> nat" where
  "rank up i = card (below_of up i)"

lemma rank_pos: "forest kids up \<Longrightarrow> 0 < rank up i"
  unfolding rank_def using finite_below [of kids up i] below_refl [of i up] by (metis card_gt_0_iff empty_iff)

lemma not_below_up:
  assumes "forest kids up" and "up c = Some i"
  shows "i \<notin> below_of up c"
proof
  assume "i \<in> below_of up c"
  then have "(i, c) \<in> (edges up)\<^sup>*" by (simp add: below_of_def)
  then have "(i, i) \<in> (edges up)\<^sup>+" using assms(2) by (auto intro: rtrancl_into_trancl1)
  then show False using forestD(1) [OF assms(1)] by (simp add: acyclic_def)
qed

lemma rank_less:
  assumes "forest kids up" and "c \<in> set (kids i)"
  shows "rank up c < rank up i"
  unfolding rank_def
proof (rule psubset_card_mono [OF finite_below [OF assms(1)]])
  have up: "up c = Some i" using forestD(4) [OF assms(1)] assms(2) by blast
  then have "c \<in> below_of up i" by (rule below_step) simp
  then have "below_of up c \<subseteq> below_of up i" by (blast intro: below_trans)
  moreover have "i \<notin> below_of up c" by (rule not_below_up [OF assms(1) up])
  ultimately show "below_of up c \<subset> below_of up i" using below_refl [of i up] by blast
qed

section \<open>Preorder\<close>

fun pre :: "('a \<Rightarrow> 'a list) \<Rightarrow> nat \<Rightarrow> 'a \<Rightarrow> 'a list" where
  "pre kids 0 i = [i]"
| "pre kids (Suc k) i = i # concat (map (pre kids k) (kids i))"

definition preorder :: "('a \<Rightarrow> 'a list) \<Rightarrow> ('a \<Rightarrow> 'a option) \<Rightarrow> 'a \<Rightarrow> 'a list" where
  "preorder kids up i = pre kids (rank up i) i"

lemma pre_stable:
  assumes "forest kids up"
  shows "rank up i \<le> k \<Longrightarrow> rank up i \<le> k' \<Longrightarrow> pre kids k i = pre kids k' i"
proof (induction k arbitrary: k' i)
  case 0
  then show ?case using rank_pos [OF assms, of i] by simp
next
  case (Suc k)
  obtain m where k': "k' = Suc m" using Suc.prems(2) rank_pos [OF assms, of i] by (cases k') auto
  have "pre kids k c = pre kids m c" if "c \<in> set (kids i)" for c
    using Suc.IH [of c m] rank_less [OF assms that] Suc.prems k' by simp
  then have "map (pre kids k) (kids i) = map (pre kids m) (kids i)" by simp
  then show ?case by (simp only: k' pre.simps)
qed

lemma preorder_eq:
  assumes "forest kids up"
  shows "preorder kids up i = i # concat (map (preorder kids up) (kids i))"
proof -
  obtain m where m: "rank up i = Suc m" using rank_pos [OF assms, of i] by (cases "rank up i") auto
  have "pre kids m c = preorder kids up c" if "c \<in> set (kids i)" for c
    unfolding preorder_def by (rule pre_stable [OF assms]) (use rank_less [OF assms that] m in auto)
  then have "map (pre kids m) (kids i) = map (preorder kids up) (kids i)" by simp
  then show ?thesis by (simp only: preorder_def [of _ _ i] m pre.simps)
qed

lemma preorder_induct:
  assumes "forest kids up" and "\<And>i. (\<And>c. c \<in> set (kids i) \<Longrightarrow> P c) \<Longrightarrow> P i"
  shows "P i"
proof (induction "rank up i" arbitrary: i rule: less_induct)
  case less
  then show ?case using assms(2) [of i] rank_less [OF assms(1)] by blast
qed

lemma preorder_ne: "forest kids up \<Longrightarrow> preorder kids up i \<noteq> []"
  by (simp add: preorder_eq [of kids up i])

lemma set_preorder:
  assumes f: "forest kids up"
  shows "set (preorder kids up i) = below_of up i"
proof (induction i rule: preorder_induct [OF f])
  case (1 i)
  have "set (preorder kids up i) = insert i (\<Union>c \<in> set (kids i). below_of up c)"
    using 1 by (simp add: preorder_eq [OF f, of i])
  also have "\<dots> = below_of up i"
  proof (rule equalityI; rule subsetI)
    fix j assume "j \<in> insert i (\<Union>c \<in> set (kids i). below_of up c)"
    then consider "j = i" | c where "up c = Some i" "j \<in> below_of up c" using forestD(4) [OF f] by auto
    then show "j \<in> below_of up i"
    proof cases
      case 2
      have "c \<in> below_of up i" by (rule below_step [of up, OF 2(1)]) simp
      with 2(2) show ?thesis by (rule below_trans)
    qed simp
  next
    fix j assume "j \<in> below_of up i"
    from below_child [OF this] show "j \<in> insert i (\<Union>c \<in> set (kids i). below_of up c)"
      using forestD(4) [OF f] by blast
  qed
  finally show ?case .
qed

lemma siblings_apart:
  assumes f: "forest kids up" and "up c = Some i" "up d = Some i" "c \<noteq> d"
  shows "below_of up c \<inter> below_of up d = {}"
proof -
  have out: "a \<notin> below_of up b" if "up a = Some i" "up b = Some i" "a \<noteq> b" for a b
  proof
    assume "a \<in> below_of up b"
    then have "i \<in> below_of up b" using below_cases [of a up b] that by auto
    with not_below_up [OF f that(2)] show False by simp
  qed
  show ?thesis using edges_linear [of _ c up d] out [OF assms(2,3,4)] out [OF assms(3,2)] assms(4)
    by (auto simp: below_of_def)
qed

lemma distinct_preorder:
  assumes f: "forest kids up"
  shows "distinct (preorder kids up i)"
proof (induction i rule: preorder_induct [OF f])
  case (1 i)
  have up: "up c = Some i" if "c \<in> set (kids i)" for c using forestD(4) [OF f] that by blast
  have "distinct (concat (map (preorder kids up) ks))" if "set ks \<subseteq> set (kids i)" "distinct ks" for ks
    using that
  proof (induction ks)
    case (Cons c ks)
    have "set (preorder kids up c) \<inter> set (concat (map (preorder kids up) ks)) = {}"
      using Cons.prems siblings_apart [OF f up up, of c] by (auto simp: set_preorder [OF f])
    with Cons 1 show ?case by simp
  qed simp
  moreover have "i \<notin> set (concat (map (preorder kids up) (kids i)))"
    using not_below_up [OF f up] by (auto simp: set_preorder [OF f])
  ultimately show ?case using forestD(3) [OF f] by (simp add: preorder_eq [OF f, of i])
qed

text \<open>A subtree is a contiguous block of the preorder.\<close>

lemma preorder_child:
  assumes f: "forest kids up" and "kids p = us @ x # vs"
  shows "preorder kids up p =
    (p # concat (map (preorder kids up) us)) @ preorder kids up x @ concat (map (preorder kids up) vs)"
  using preorder_eq [OF f, of p] by (simp add: assms(2))

lemma preorder_block:
  assumes f: "forest kids up" and "x \<in> below_of up r"
  shows "\<exists>A B. preorder kids up r = A @ preorder kids up x @ B"
proof -
  have "(x, r) \<in> (edges up)\<^sup>*" using assms(2) by (simp add: below_of_def)
  then show ?thesis
  proof (induction rule: converse_rtrancl_induct)
    case base
    have "preorder kids up r = [] @ preorder kids up r @ []" by simp
    then show ?case by blast
  next
    case (step x p)
    then have "x \<in> set (kids p)" using forestD(4) [OF f] by simp
    then obtain us vs where "kids p = us @ x # vs" by (metis split_list)
    with step.IH preorder_child [OF f] show ?case by (metis append.assoc)
  qed
qed

lemma block_unique:
  assumes f: "forest kids up" and "preorder kids up r = A @ preorder kids up x @ B" and "preorder kids up r = A' @ x # B'"
  shows "A' = A" and "B' = concat (map (preorder kids up) (kids x)) @ B"
proof -
  have "distinct (A' @ x # B')" using distinct_preorder [OF f, of r] assms(3) by simp
  then have "x \<notin> set A'" "x \<notin> set B'" by simp_all
  moreover have "A' @ x # B' = A @ x # (concat (map (preorder kids up) (kids x)) @ B)"
    using assms(2,3) preorder_eq [OF f, of x] by simp
  ultimately show "A' = A" "B' = concat (map (preorder kids up) (kids x)) @ B"
    using append_Cons_eq_iff [of x A' B'] by auto
qed

lemma preorder_in:
  assumes f: "forest kids up" and "preorder kids up r = A @ x # B"
  shows "x \<in> below_of up r"
proof -
  have "x \<in> set (preorder kids up r)" by (simp add: assms(2))
  then show ?thesis by (simp add: set_preorder [OF f])
qed

lemma first_preorder: "forest kids up \<Longrightarrow> first_opt (preorder kids up i @ B) d = Some i"
  by (simp add: preorder_eq [of kids up i])

lemma first_concat: "forest kids up \<Longrightarrow> first_opt (concat (map (preorder kids up) ks) @ B) d = first_opt ks (first_opt B d)"
  by (cases ks) (simp_all add: first_preorder)

lemma last_preorder:
  assumes f: "forest kids up"
  shows "last (preorder kids up i) = (if kids i = [] then i else last (preorder kids up (last (kids i))))"
proof (cases "kids i" rule: rev_cases)
  case (snoc ks c)
  then show ?thesis using preorder_child [OF f snoc] preorder_ne [OF f] by simp
qed (simp add: preorder_eq [OF f, of i])

end
