(* ===== verification/DomWalk.thy ===== *)
theory DomWalk
  imports DomGrow Forest
begin

text \<open>
  The walks on a tree that satisfies the invariant: the caps of the code are never reached, the two
  preorder traversals are the preorder of the child lists, and the steps in document order move along it.
\<close>

lemma forest_shape:
  assumes "shape t kids"
  shows "forest kids (parent_of t)"
proof -
  note s = shapeD [OF assms]
  have "edges (parent_of t) \<subseteq> edges (host_including_parent t)" by (auto simp: host_including_parent_def)
  then have "acyclic (edges (parent_of t))" by (rule acyclic_subset [OF s(4)])
  moreover have "finite {i. parent_of t i \<noteq> None}"
    by (rule finite_subset [OF _ finite_live_ids [of t]]) (auto simp: live_ids_def dest: alive_links(1))
  ultimately show ?thesis using links_okD(3,5) [OF s(1)] by (auto simp: forest_def)
qed

lemma below_live: "shape t kids \<Longrightarrow> i \<in> below_of (parent_of t) r \<Longrightarrow> i = r \<or> alive t i"
  using below_cases [of i "parent_of t" r] alive_links(1) by blast

lemma live_less: "alive t i \<Longrightarrow> i < length (dm_nodes t)"
  by (auto simp: alive_def node_at_def dest: slot_Some_less)

lemma card_live: "card (live_ids t) \<le> length (dm_nodes t)"
  using card_slots [of "dm_nodes t"] by (simp add: live_ids_def alive_def node_at_def)

lemma length_preorder:
  assumes sh: "shape t kids" and i: "alive t i"
  shows "length (preorder kids (parent_of t) i) \<le> length (dm_nodes t)"
proof (rule distinct_length_le)
  show "distinct (preorder kids (parent_of t) i)" by (rule distinct_preorder [OF forest_shape [OF sh]])
  fix j assume "j \<in> set (preorder kids (parent_of t) i)"
  then show "j < length (dm_nodes t)"
    using below_live [OF sh, of j i] i live_less by (auto simp: set_preorder [OF forest_shape [OF sh]])
qed

section \<open>Preorder traversals\<close>

lemma descend_preorder:
  assumes sh: "shape t kids"
  shows "length (concat (map (preorder kids (parent_of t)) stack)) \<le> room \<Longrightarrow>
    descend_loop t room stack = concat (map (preorder kids (parent_of t)) stack)"
proof (induction room arbitrary: stack)
  case 0
  then show ?case using preorder_ne [OF forest_shape [OF sh]] by (cases stack) auto
next
  case (Suc room)
  note eq = preorder_eq [OF forest_shape [OF sh]]
  show ?case
  proof (cases stack)
    case (Cons i rest)
    have "length (concat (map (preorder kids (parent_of t)) (kids i @ rest))) \<le> room"
      using Suc.prems eq [of i] by (simp add: Cons)
    from Suc.IH [OF this] show ?thesis
      using eq [of i] by (simp add: Cons children_kids [OF shapeD(1) [OF sh]])
  qed simp
qed

lemma concat_kids_length:
  assumes sh: "shape t kids"
  shows "length (concat (map (preorder kids (parent_of t)) (kids i))) \<le> length (dm_nodes t)"
proof (cases "alive t i")
  case True
  then show ?thesis using length_preorder [OF sh True] preorder_eq [OF forest_shape [OF sh], of i] by simp
next
  case False
  then show ?thesis by (simp add: kids_dead [OF shapeD(1) [OF sh]])
qed

lemma descendants_preorder:
  assumes sh: "shape t kids"
  shows "descendants t i = concat (map (preorder kids (parent_of t)) (kids i))"
  unfolding descendants_def children_kids [OF shapeD(1) [OF sh]]
  by (rule descend_preorder [OF sh concat_kids_length [OF sh]])

lemma preorder_descendants: "shape t kids \<Longrightarrow> preorder kids (parent_of t) i = i # descendants t i"
  using preorder_eq [OF forest_shape, of t kids i] by (simp add: descendants_preorder)

text \<open>The iterator keeps the rest of each child list it is in the middle of.\<close>

definition rest_of :: "(node_id \<Rightarrow> node_id list) \<Rightarrow> node_id list \<Rightarrow> bool" where
  "rest_of kids zs \<longleftrightarrow> zs \<noteq> [] \<and> (\<exists>p xs. kids p = xs @ zs)"

lemma next_rest: "shape t kids \<Longrightarrow> rest_of kids (c # zs) \<Longrightarrow> next_of t c = first_opt zs None"
  using links_okD(4) [OF shapeD(1)] unfolding rest_of_def by (metis dll_next)

lemma rest_kids: "kids i \<noteq> [] \<Longrightarrow> rest_of kids (kids i)"
  unfolding rest_of_def by (metis append_Nil)

lemma rest_tail: "rest_of kids (c # z # zs) \<Longrightarrow> rest_of kids (z # zs)"
  unfolding rest_of_def by (metis append.assoc append_Cons append_Nil list.distinct(1))

lemma iter_preorder:
  assumes sh: "shape t kids"
  shows "rest_of kids zs \<Longrightarrow> \<forall>ys \<in> set later. rest_of kids ys \<Longrightarrow>
    length (concat (map (preorder kids (parent_of t)) (zs @ concat later))) \<le> remaining \<Longrightarrow>
    iter_loop t remaining (Some (hd zs)) (map hd later) = concat (map (preorder kids (parent_of t)) (zs @ concat later))"
proof (induction remaining arbitrary: zs later)
  case 0
  then show ?case using preorder_ne [OF forest_shape [OF sh]] by (cases zs) (auto simp: rest_of_def)
next
  case (Suc n)
  let ?pre = "preorder kids (parent_of t)"
  obtain c more where zs: "zs = c # more" using Suc.prems(1) by (cases zs) (auto simp: rest_of_def)
  have nx: "next_of t c = first_opt more None" by (rule next_rest [OF sh]) (use Suc.prems(1) zs in simp)
  have eq: "?pre c = c # concat (map ?pre (kids c))" by (rule preorder_eq [OF forest_shape [OF sh]])
  have first: "first_of t c = first_opt (kids c) None" by (rule links_okD(1) [OF shapeD(1) [OF sh]])
  have more: "rest_of kids more" if "more \<noteq> []" using rest_tail Suc.prems(1) that zs by (cases more) auto
  have len: "length (concat (map ?pre (kids c @ more @ concat later))) \<le> n" using Suc.prems(3) by (simp add: zs eq)
  show ?case
  proof (cases "kids c")
    case (Cons d ds)
    let ?ps = "(if more = [] then later else more # later)"
    have "iter_loop t n (Some (hd (kids c))) (map hd ?ps) = concat (map ?pre (kids c @ concat ?ps))"
      using Suc.IH [of "kids c" ?ps] rest_kids [of kids c] Cons more Suc.prems(2) len by auto
    moreover have "map hd ?ps = (case next_of t c of Some s \<Rightarrow> s # map hd later | None \<Rightarrow> map hd later)"
      by (cases more) (simp_all add: nx)
    moreover have "concat ?ps = more @ concat later" by simp
    ultimately show ?thesis by (simp add: zs first Cons eq)
  next
    case Nil
    show ?thesis
    proof (cases more)
      case (Cons d ds)
      then show ?thesis using Suc.IH [of more later] more Suc.prems(2) len Nil by (simp add: zs first nx eq)
    next
      case Nil': Nil
      show ?thesis
      proof (cases later)
        case Nil'': Nil
        show ?thesis by (simp add: zs first nx eq Nil Nil' Nil'')
      next
        case (Cons p ps)
        have "rest_of kids p" "\<forall>q \<in> set ps. rest_of kids q" using Suc.prems(2) Cons by auto
        from Suc.IH [OF this] len show ?thesis by (simp add: zs first nx eq Nil Nil' Cons)
      qed
    qed
  qed
qed

lemma iter_descendants:
  assumes sh: "shape t kids"
  shows "descendants_iter t i = descendants t i"
proof (cases "kids i = []")
  case True
  then show ?thesis
    by (simp add: descendants_iter_def links_okD(1) [OF shapeD(1) [OF sh]] descendants_preorder [OF sh])
next
  case False
  then have "first_of t i = Some (hd (kids i))" by (cases "kids i") (simp_all add: links_okD(1) [OF shapeD(1) [OF sh]])
  then show ?thesis
    using iter_preorder [OF sh rest_kids [of kids i], of "[]" "length (dm_nodes t)"] False concat_kids_length [OF sh, of i]
    by (simp add: descendants_iter_def node_slot_count_def descendants_preorder [OF sh])
qed

section \<open>Document order\<close>

text \<open>The path to the root is shorter than the arena.\<close>

lemma path_parent:
  assumes sh: "shape t kids" and x: "alive t x"
  shows "finite (path_set (parent_of t) x)" "card (path_set (parent_of t) x) \<le> length (dm_nodes t)"
proof -
  have sub: "path_set (parent_of t) x \<subseteq> live_ids t"
  proof (rule path_set_sub)
    fix i h assume "parent_of t i = Some h"
    then have "i \<in> set (kids h)" using links_okD(5) [OF shapeD(1) [OF sh]] by blast
    then show "h \<in> live_ids t" using kids_alive(2) [OF shapeD(1) [OF sh]] by (auto simp: live_ids_def)
  qed (use x in \<open>simp add: live_ids_def\<close>)
  show "finite (path_set (parent_of t) x)" by (rule finite_subset [OF sub]) simp
  show "card (path_set (parent_of t) x) \<le> length (dm_nodes t)"
    using card_mono [OF finite_live_ids sub] card_live [of t] by simp
qed

lemma step_place:
  assumes sh: "shape t kids" and up: "parent_of t x = Some p"
  obtains us vs where "kids p = us @ x # vs" "next_of t x = first_opt vs None" "prev_of t x = last_opt us None"
proof -
  have "x \<in> set (kids p)" using links_okD(5) [OF shapeD(1) [OF sh]] up by blast
  then obtain us vs where k: "kids p = us @ x # vs" by (metis split_list)
  have "dll (next_of t) (prev_of t) None (us @ x # vs) None" using links_okD(4) [OF shapeD(1) [OF sh], of p] k by simp
  from that [OF k dll_next [OF this] dll_prev [OF this]] show thesis .
qed

text \<open>Where the block of a node lies in the preorder of a root it is properly below.\<close>

lemma block_place:
  assumes sh: "shape t kids" and x: "x \<in> below_of (parent_of t) r" "x \<noteq> r"
  defines "f \<equiv> preorder kids (parent_of t)"
  obtains p us vs A B where "parent_of t x = Some p" "p \<in> below_of (parent_of t) r" "kids p = us @ x # vs"
    "next_of t x = first_opt vs None" "prev_of t x = last_opt us None" "f r = A @ f p @ B"
    "f r = (A @ p # concat (map f us)) @ f x @ concat (map f vs) @ B"
proof -
  note fo = forest_shape [OF sh]
  obtain p where p: "parent_of t x = Some p" "p \<in> below_of (parent_of t) r" using below_cases [OF x(1)] x(2) by auto
  from step_place [OF sh p(1)] obtain us vs where k: "kids p = us @ x # vs" "next_of t x = first_opt vs None"
    "prev_of t x = last_opt us None" .
  from preorder_block [OF fo p(2)] obtain A B where b: "f r = A @ f p @ B" unfolding f_def by blast
  have "f r = (A @ p # concat (map f us)) @ f x @ concat (map f vs) @ B"
    unfolding b using preorder_child [OF fo k(1)] by (simp add: f_def)
  from that [OF p k b this] show thesis .
qed

lemma climb_spec:
  assumes sh: "shape t kids"
  shows "x \<in> below_of (parent_of t) r \<Longrightarrow> alive t x \<Longrightarrow> card (path_set (parent_of t) x) \<le> k \<Longrightarrow>
    preorder kids (parent_of t) r = A @ preorder kids (parent_of t) x @ B \<Longrightarrow> climb_loop t r k x = first_opt B None"
proof (induction k arbitrary: x A B)
  case 0
  have "x \<in> path_set (parent_of t) x" by (simp add: path_set_def)
  with path_parent(1) [OF sh 0(2)] 0(3) show ?case by auto
next
  case (Suc k)
  let ?f = "preorder kids (parent_of t)"
  note fo = forest_shape [OF sh]
  obtain nd where nd: "node_at t x = Some nd" using Suc.prems(2) by (auto simp: alive_def)
  show ?case
  proof (cases "x = r")
    case True
    then have "length B = 0" using arg_cong [OF Suc.prems(4), of length] by simp
    with True show ?thesis by simp
  next
    case False
    from block_place [OF sh Suc.prems(1) False] obtain p us vs A0 B0 where
      p: "parent_of t x = Some p" "p \<in> below_of (parent_of t) r" "kids p = us @ x # vs" "next_of t x = first_opt vs None"
      and b0: "?f r = A0 @ ?f p @ B0" and b: "?f r = (A0 @ p # concat (map ?f us)) @ ?f x @ concat (map ?f vs) @ B0"
      by metis
    have fx: "?f x = x # concat (map ?f (kids x))" by (rule preorder_eq [OF fo])
    have B: "B = concat (map ?f vs) @ B0"
      using block_unique(2) [OF fo Suc.prems(4), of "A0 @ p # concat (map ?f us)" "concat (map ?f (kids x)) @ concat (map ?f vs) @ B0"] b fx
      by simp
    have nx: "nd_next_sibling nd = first_opt vs None" "nd_parent nd = Some p"
      using p nd by (simp_all add: next_of_def parent_of_def)
    show ?thesis
    proof (cases vs)
      case (Cons s ss)
      then show ?thesis using False nd nx by (simp add: B first_preorder [OF fo])
    next
      case Nil
      have live: "alive t p" using kids_alive(2) [OF shapeD(1) [OF sh], of x p] p(3) by simp
      have "card (path_set (parent_of t) p) \<le> k"
        using path_set_step [of "parent_of t" x p, OF forestD(1) [OF fo] p(1) path_parent(1) [OF sh Suc.prems(2)]] Suc.prems(3) by simp
      from Suc.IH [OF p(2) live this b0] show ?thesis using False nd nx Nil by (simp add: B)
    qed
  qed
qed

lemma deepest_spec:
  assumes sh: "shape t kids"
  shows "alive t x \<Longrightarrow> rank (parent_of t) x \<le> k \<Longrightarrow> deepest_loop t k x = Some (last (preorder kids (parent_of t) x))"
proof (induction k arbitrary: x)
  case 0
  then show ?case using rank_pos [OF forest_shape [OF sh], of x] by simp
next
  case (Suc k)
  obtain nd where nd: "node_at t x = Some nd" using Suc.prems(1) by (auto simp: alive_def)
  have l: "nd_last_child nd = last_opt (kids x) None"
    using links_okD(2) [OF shapeD(1) [OF sh], of x] nd by (simp add: last_of_def)
  show ?case
  proof (cases "kids x = []")
    case True
    then show ?thesis using nd l last_preorder [OF forest_shape [OF sh], of x] by simp
  next
    case False
    then have c: "last (kids x) \<in> set (kids x)" by simp
    have "rank (parent_of t) (last (kids x)) \<le> k" using rank_less [OF forest_shape [OF sh] c] Suc.prems(2) by simp
    from Suc.IH [OF kids_alive(1) [OF shapeD(1) [OF sh] c] this] show ?thesis
      using False nd l last_preorder [OF forest_shape [OF sh], of x] by (simp add: last_opt_def)
  qed
qed

lemma rank_bound: "shape t kids \<Longrightarrow> alive t x \<Longrightarrow> rank (parent_of t) x \<le> length (dm_nodes t)"
proof -
  assume sh: "shape t kids" and x: "alive t x"
  have "below_of (parent_of t) x \<subseteq> live_ids t" using below_live [OF sh] x by (auto simp: live_ids_def)
  from card_mono [OF finite_live_ids this] card_live [of t] show ?thesis by (simp add: rank_def)
qed

lemma order_steps:
  assumes sh: "shape t kids" and L: "r # descendants t r = A @ x # B"
  shows "next_in_subtree t r x = first_opt B None" and "prev_in_subtree t r x = last_opt A None"
proof -
  let ?f = "preorder kids (parent_of t)"
  note fo = forest_shape [OF sh]
  have fr: "?f r = A @ x # B" using L by (simp add: preorder_descendants [OF sh])
  have x: "x \<in> below_of (parent_of t) r" by (rule preorder_in [OF fo fr])
  have fx: "?f x = x # concat (map ?f (kids x))" by (rule preorder_eq [OF fo])
  have "next_in_subtree t r x = first_opt B None \<and> prev_in_subtree t r x = last_opt A None"
  proof (cases "alive t x")
    case False
    then have r: "x = r" using below_live [OF sh x] by blast
    have "?f r = [r]" using kids_dead [OF shapeD(1) [OF sh] False] fx by (simp add: r)
    then have "A = []" "B = []" using fr by (cases A; auto simp: r)+
    then show ?thesis using False by (simp add: r next_in_subtree_def prev_in_subtree_def alive_def)
  next
    case True
    obtain nd where nd: "node_at t x = Some nd" using True by (auto simp: alive_def)
    obtain A2 B2 where b: "?f r = A2 @ ?f x @ B2" using preorder_block [OF fo x] by blast
    note u = block_unique [OF fo b fr]
    have first: "nd_first_child nd = first_opt (kids x) None"
      using links_okD(1) [OF shapeD(1) [OF sh], of x] nd by (simp add: first_of_def)
    have climb: "climb_to_next_sibling t r x = first_opt B2 None"
      unfolding climb_to_next_sibling_def
      by (rule climb_spec [OF sh x True _ b]) (use path_parent(2) [OF sh True] in simp)
    have nxt: "next_in_subtree t r x = first_opt B None"
      using nd first climb by (cases "kids x") (simp_all add: next_in_subtree_def u(2) first_preorder [OF fo])
    have "prev_in_subtree t r x = last_opt A None"
    proof (cases "x = r")
      case True
      then have "length A = 0" using arg_cong [OF b, of length] by (simp add: u(1))
      with True show ?thesis by (simp add: prev_in_subtree_def)
    next
      case False
      from block_place [OF sh x False] obtain p us vs A0 B0 where
        p: "parent_of t x = Some p" "kids p = us @ x # vs" "prev_of t x = last_opt us None"
        and b': "?f r = (A0 @ p # concat (map ?f us)) @ ?f x @ concat (map ?f vs) @ B0" by metis
      have A: "A = A0 @ p # concat (map ?f us)" by (rule block_unique(1) [OF fo b' fr])
      have pv: "nd_prev_sibling nd = last_opt us None" "nd_parent nd = Some p"
        using p nd by (simp_all add: prev_of_def parent_of_def)
      show ?thesis
      proof (cases us rule: rev_cases)
        case Nil
        then show ?thesis using False nd pv by (simp add: prev_in_subtree_def A last_opt_def)
      next
        case (snoc us' s)
        have s: "alive t s" using kids_alive(1) [OF shapeD(1) [OF sh], of s p] p(2) snoc by simp
        have "deepest_loop t (Suc (length (dm_nodes t))) s = Some (last (?f s))"
          by (rule deepest_spec [OF sh s]) (use rank_bound [OF sh s] in simp)
        then show ?thesis
          using False nd pv snoc preorder_ne [OF fo] by (simp add: prev_in_subtree_def A last_opt_def del: deepest_loop.simps)
      qed
    qed
    with nxt show ?thesis ..
  qed
  then show "next_in_subtree t r x = first_opt B None" "prev_in_subtree t r x = last_opt A None" by simp_all
qed

section \<open>Ancestors and roots\<close>

lemma ancestors_step:
  assumes sh: "shape t kids"
  shows "ancestors t i = (case parent_of t i of None \<Rightarrow> [] | Some p \<Rightarrow> p # ancestors t p)"
    and "set (ancestors t i) = {h. h \<noteq> i \<and> i \<in> below_of (parent_of t) h}"
proof -
  note acy = forestD(1) [OF forest_shape [OF sh]]
  have live: "alive t p" if "parent_of t i = Some p" for p i
    using kids_alive(2) [OF shapeD(1) [OF sh]] that links_okD(5) [OF shapeD(1) [OF sh]] by blast
  show "ancestors t i = (case parent_of t i of None \<Rightarrow> [] | Some p \<Rightarrow> p # ancestors t p)"
  proof (cases "parent_of t i")
    case (Some p)
    note pp = path_parent [OF sh live [OF Some]]
    have "walk (length (dm_nodes t)) (parent_of t) (Some p) =
        p # (case parent_of t p of Some y \<Rightarrow> walk (length (dm_nodes t)) (parent_of t) (Some y) | None \<Rightarrow> [])"
      by (rule walk_path(1) [OF acy pp(1)]) (use pp(2) in simp)
    then show ?thesis by (simp add: ancestors_def Some split: option.split)
  qed (simp add: ancestors_def)
  show "set (ancestors t i) = {h. h \<noteq> i \<and> i \<in> below_of (parent_of t) h}"
  proof (cases "parent_of t i")
    case None
    then show ?thesis using below_cases [of i "parent_of t"] by (auto simp: ancestors_def)
  next
    case (Some p)
    note pp = path_parent [OF sh live [OF Some]]
    have "set (ancestors t i) = path_set (parent_of t) p"
      unfolding ancestors_def Some by (rule walk_path(2) [OF acy pp(1)]) (use pp(2) in simp)
    also have "\<dots> = {h. h \<noteq> i \<and> i \<in> below_of (parent_of t) h}"
    proof (rule set_eqI)
      fix h
      have "h \<noteq> i" if "p \<in> below_of (parent_of t) h" using not_below_up [OF forest_shape [OF sh] Some] that by auto
      moreover have "i \<in> below_of (parent_of t) h \<longleftrightarrow> i = h \<or> p \<in> below_of (parent_of t) h"
        using below_cases [of i "parent_of t" h] below_step [of "parent_of t" i p h] Some by auto
      ultimately show "h \<in> path_set (parent_of t) p \<longleftrightarrow> h \<in> {h. h \<noteq> i \<and> i \<in> below_of (parent_of t) h}"
        by (auto simp: path_set_def below_of_def)
    qed
    finally show ?thesis .
  qed
qed

text \<open>The climb of \<open>is_hovered\<close> returns.\<close>

lemma hover_returns:
  assumes sh: "shape t kids"
  shows "hover_loop t i (Some c) = Some (c \<in> below_of (parent_of t) i)"
proof (induction "card (path_set (parent_of t) c)" arbitrary: c rule: less_induct)
  case less
  show ?case
  proof (cases "c = i")
    case True
    then show ?thesis by (subst hover_loop.simps) simp
  next
    case False
    show ?thesis
    proof (cases "parent_of t c")
      case None
      moreover have "hover_loop t i None = Some False" by (subst hover_loop.simps) simp
      ultimately show ?thesis using False below_cases [of c "parent_of t" i] by (subst hover_loop.simps) auto
    next
      case (Some p)
      have "card (path_set (parent_of t) p) < card (path_set (parent_of t) c)"
        by (rule path_set_step [OF forestD(1) [OF forest_shape [OF sh]] Some path_parent(1) [OF sh alive_links(1) [OF Some]]])
      from less [OF this] show ?thesis
        using False Some below_cases [of c "parent_of t" i] below_step [of "parent_of t" c p i]
        by (subst hover_loop.simps) auto
    qed
  qed
qed

lemma is_hovered_spec:
  assumes sh: "shape t kids"
  shows "is_hovered t i = Some (\<exists>c. dm_hovered t = Some c \<and> c \<in> insert i (set (descendants t i)))"
proof (cases "dm_hovered t")
  case None
  then show ?thesis unfolding is_hovered_def by (subst hover_loop.simps) simp
next
  case (Some c)
  have "insert i (set (descendants t i)) = below_of (parent_of t) i"
    using set_preorder [OF forest_shape [OF sh], of i] preorder_descendants [OF sh, of i] by simp
  then show ?thesis using Some by (simp add: is_hovered_def hover_returns [OF sh])
qed

text \<open>The connected flag says that the shadow-including root is the document.\<close>

lemma including_root:
  assumes sh: "shape t kids"
  shows "alive t i \<Longrightarrow> card (path_set (host_including_parent t) i) \<le> k \<Longrightarrow>
    \<exists>r. including_loop t k i = Some r \<and> host_including_parent t r = None \<and> i \<in> subtree t r"
proof (induction k arbitrary: i)
  case 0
  have "i \<in> path_set (host_including_parent t) i" by (simp add: path_set_def)
  with path_card(1) [OF shapeD(1,2) [OF sh] 0(1)] 0(2) show ?case by auto
next
  case (Suc k)
  obtain nd where nd: "node_at t i = Some nd" using Suc.prems(1) by (auto simp: alive_def)
  have step: "including_loop t (Suc k) i =
      (case host_including_parent t i of Some h \<Rightarrow> including_loop t k h | None \<Rightarrow> Some i)"
    using nd by (auto simp: host_including_parent_def parent_of_def split: option.split)
  show ?case
  proof (cases "host_including_parent t i")
    case None
    then show ?thesis by (simp add: step subtree_def del: including_loop.simps)
  next
    case (Some h)
    have "card (path_set (host_including_parent t) h) \<le> k"
      using path_set_step [OF shapeD(4) [OF sh] Some path_card(1) [OF shapeD(1,2) [OF sh] Suc.prems(1)]] Suc.prems(2) by simp
    from Suc.IH [OF up_alive(2) [OF shapeD(1,2) [OF sh] Some] this] Some show ?thesis
      by (auto simp: step subtree_def intro: below_step simp del: including_loop.simps)
  qed
qed

lemma connected_root:
  assumes sh: "shape t kids"
  shows "is_connected t i \<longleftrightarrow> shadow_including_root t i = Some (dm_document t)"
proof (cases "alive t i")
  case False
  then have "shadow_including_root t i = None" by (simp add: shadow_including_root_def alive_def)
  moreover have "\<not> is_connected t i" using False alive_links(5) by blast
  ultimately show ?thesis by simp
next
  case True
  note s = shapeD [OF sh]
  have "card (path_set (host_including_parent t) i) \<le> Suc (length (dm_nodes t))" using path_card(2) [OF s(1,2) True] by simp
  from including_root [OF sh True this] obtain r where
    r: "shadow_including_root t i = Some r" "host_including_parent t r = None" "i \<in> subtree t r"
    unfolding shadow_including_root_def by blast
  have "i \<in> subtree t (dm_document t) \<longleftrightarrow> r = dm_document t"
  proof
    assume "i \<in> subtree t (dm_document t)"
    then have "(r, dm_document t) \<in> (edges (host_including_parent t))\<^sup>*"
      using edges_root_linear [of "host_including_parent t", OF document_up [OF s(3,2)], of i r] r(3)
      by (simp add: subtree_def below_of_def)
    then show "r = dm_document t" using edges_root [of "host_including_parent t", OF r(2)] by simp
  qed (use r(3) in simp)
  then show ?thesis using s(5) r(1) by (simp add: connected_ok_def)
qed

lemma dom_len_live:
  assumes "shape t kids"
  shows "dom_len t = card (live_ids t)"
proof -
  have f: "distinct (dm_free t)" "\<And>i. i \<in> set (dm_free t) \<longleftrightarrow> i < length (dm_nodes t) \<and> \<not> alive t i"
    using shapeD(6) [OF assms] by (auto simp: free_ok_def)
  have "live_ids t = {..<length (dm_nodes t)} - set (dm_free t)" using f(2) live_less by (auto simp: live_ids_def)
  moreover have "set (dm_free t) \<subseteq> {..<length (dm_nodes t)}" using f(2) by auto
  ultimately have "card (live_ids t) = length (dm_nodes t) - card (set (dm_free t))" by (simp add: card_Diff_subset)
  with f(1) show ?thesis by (simp add: dom_len_def distinct_card)
qed

end
