(* ===== verification/DomSink.thy ===== *)
theory DomSink
  imports DomGrow
begin

text \<open>
  \<open>crates/obscura-dom/src/tree_sink.rs\<close>, the operations through which the HTML parser of \<open>html5ever\<close>
  builds a tree. The parser itself is not part of the repository: any sequence of these calls may happen.
  A call that panics is \<open>None\<close>. They keep the invariant, since each is made of operations of the arena.
\<close>

datatype node_or_text = AppendNode node_id | AppendStr string

datatype quirks_mode = Quirks | LimitedQuirks | NoQuirks

record element_flags =
  ef_template :: bool
  ef_annotation_xml :: bool

section \<open>Names\<close>

definition shadow_host_names :: "string list" where
  "shadow_host_names = [''article'', ''aside'', ''blockquote'', ''body'', ''div'', ''footer'', ''h1'', ''h2'', ''h3'',
     ''h4'', ''h5'', ''h6'', ''header'', ''main'', ''nav'', ''p'', ''section'', ''span'']"

definition reserved_names :: "string list" where
  "reserved_names = [''annotation-xml'', ''color-profile'', ''font-face'', ''font-face-src'', ''font-face-uri'',
     ''font-face-format'', ''font-face-name'', ''missing-glyph'']"

definition bad_name_char :: "char \<Rightarrow> bool" where
  "bad_name_char c \<longleftrightarrow> ascii_upper c \<or> (of_char c :: nat) \<in> {0, 9, 10, 12, 13, 32} \<or> c = CHR ''/'' \<or> c = CHR ''>''"

definition is_valid_shadow_host :: "dom \<Rightarrow> node_id \<Rightarrow> bool" where
  "is_valid_shadow_host t i =
     (case Option.bind (node_at t i) as_element of
        None \<Rightarrow> False
      | Some name \<Rightarrow>
         (if qn_ns name \<noteq> ''http://www.w3.org/1999/xhtml'' then False
          else if qn_local name \<in> set shadow_host_names then True
          else if qn_local name = [] \<or> \<not> ((97::nat) \<le> of_char (hd (qn_local name)) \<and> (of_char (hd (qn_local name)) :: nat) \<le> 122)
            \<or> CHR ''-'' \<notin> set (qn_local name) \<or> list_ex bad_name_char (qn_local name)
          then False
          else qn_local name \<notin> set reserved_names))"

definition elem_name :: "dom \<Rightarrow> node_id \<Rightarrow> qual_name option" where
  "elem_name t i = Option.bind (node_at t i) as_element"

definition is_mathml_annotation_xml_integration_point :: "dom \<Rightarrow> node_id \<Rightarrow> bool" where
  "is_mathml_annotation_xml_integration_point t i =
     (case map_option nd_data (node_at t i) of Some (Element _ _ _ flag) \<Rightarrow> flag | _ \<Rightarrow> False)"

definition get_template_contents :: "dom \<Rightarrow> node_id \<Rightarrow> node_id option" where
  "get_template_contents t i = Option.bind (node_at t i) template_field"

definition allow_declarative_shadow_roots :: "dom \<Rightarrow> node_id \<Rightarrow> bool" where
  "allow_declarative_shadow_roots t i \<longleftrightarrow>
     dm_allow_shadow t \<and> is_valid_shadow_host t i \<and> shadow_root_of t i = None"

section \<open>Creating nodes\<close>

definition create_element :: "qual_name \<Rightarrow> attribute list \<Rightarrow> element_flags \<Rightarrow> dom \<Rightarrow> node_id \<times> dom" where
  "create_element name attrs flags t =
     (case new_node (Element name attrs None (ef_annotation_xml flags)) t of
        (i, t1) \<Rightarrow>
          (if ef_template flags
           then (case new_node Document t1 of (contents, t2) \<Rightarrow> (i, with_node_mut i (set_template_field contents) t2))
           else (i, t1)))"

definition create_comment :: "string \<Rightarrow> dom \<Rightarrow> node_id \<times> dom" where
  "create_comment s t = new_node (Comment s) t"

definition create_pi :: "string \<Rightarrow> string \<Rightarrow> dom \<Rightarrow> node_id \<times> dom" where
  "create_pi target data t = new_node (ProcessingInstruction target data) t"

definition append_doctype_to_document :: "string \<Rightarrow> string \<Rightarrow> string \<Rightarrow> dom \<Rightarrow> dom" where
  "append_doctype_to_document name public_id system_id t =
     (case new_node (Doctype name public_id system_id) t of (i, t1) \<Rightarrow> append_child (dm_document t1) i t1)"

section \<open>Placing nodes\<close>

definition sink_append :: "node_id \<Rightarrow> node_or_text \<Rightarrow> dom \<Rightarrow> dom" where
  "sink_append parent child t =
     (case child of AppendNode i \<Rightarrow> append_child parent i t | AppendStr s \<Rightarrow> append_text parent s t)"

text \<open>Text goes into a text node right before the sibling when there is one.\<close>

definition append_before_sibling :: "node_id \<Rightarrow> node_or_text \<Rightarrow> dom \<Rightarrow> dom" where
  "append_before_sibling sibling child t =
     (case child of
        AppendNode i \<Rightarrow> insert_before sibling i t
      | AppendStr s \<Rightarrow>
         (case Option.bind (prev_of t sibling) (\<lambda>p. Option.bind (node_at t p) (\<lambda>nd. if is_text nd then Some p else None)) of
            Some p \<Rightarrow> with_node_mut p (push_text s) t
          | None \<Rightarrow> (case new_node (Text s) t of (i, t1) \<Rightarrow> insert_before sibling i t1)))"

definition append_based_on_parent_node :: "node_id \<Rightarrow> node_id \<Rightarrow> node_or_text \<Rightarrow> dom \<Rightarrow> dom" where
  "append_based_on_parent_node element prev_element child t =
     (if parent_of t element \<noteq> None then append_before_sibling element child t else sink_append prev_element child t)"

fun push_missing :: "attribute list \<Rightarrow> attribute list \<Rightarrow> attribute list" where
  "push_missing [] existing = existing"
| "push_missing (a # as) existing =
     push_missing as (if list_ex (\<lambda>b. at_name b = at_name a) existing then existing else existing @ [a])"

definition add_attrs_if_missing :: "node_id \<Rightarrow> attribute list \<Rightarrow> dom \<Rightarrow> dom" where
  "add_attrs_if_missing i attrs t = with_node_mut i (set_attrs (push_missing attrs)) t"

definition remove_from_parent :: "node_id \<Rightarrow> dom \<Rightarrow> dom" where
  "remove_from_parent i t = detach_node i t"

definition reparent_children :: "node_id \<Rightarrow> node_id \<Rightarrow> dom \<Rightarrow> dom" where
  "reparent_children i new_parent t = fold (append_child new_parent) (children t i) t"

definition set_quirks_mode :: "quirks_mode \<Rightarrow> dom \<Rightarrow> dom" where
  "set_quirks_mode mode t = set_quirks (mode = Quirks) t"

section \<open>Declarative shadow roots\<close>

text \<open>The first \<open>shadowrootmode\<close> with a known value; earlier unknown ones are skipped.\<close>

definition attr_mode :: "attribute \<Rightarrow> shadow_mode option" where
  "attr_mode a =
     (if qn_local (at_name a) \<noteq> ''shadowrootmode'' then None
      else if at_value a = ''open'' then Some Open
      else if at_value a = ''closed'' then Some Closed
      else None)"

fun shadow_attr :: "attribute list \<Rightarrow> shadow_mode option" where
  "shadow_attr [] = None"
| "shadow_attr (a # as) = (case attr_mode a of Some m \<Rightarrow> Some m | None \<Rightarrow> shadow_attr as)"

definition attach_declarative_shadow :: "node_id \<Rightarrow> node_id \<Rightarrow> attribute list \<Rightarrow> dom \<Rightarrow> bool \<times> dom" where
  "attach_declarative_shadow location template attrs t =
     (case shadow_attr attrs of
        None \<Rightarrow> (False, t)
      | Some mode \<Rightarrow>
         (case Option.bind (node_at t template) template_field of
            None \<Rightarrow> (False, t)
          | Some root \<Rightarrow>
             (case attach_shadow_root_node location root mode t of
                (Inl _, t1) \<Rightarrow> (False, t1)
              | (Inr _, t1) \<Rightarrow> (True, remove_child template t1))))"

section \<open>The invariant\<close>

datatype sink_op =
    CreateElement qual_name "attribute list" element_flags
  | CreateComment string
  | CreatePi string string
  | AppendDoctype string string string
  | Append node_id node_or_text
  | AppendBeforeSibling node_id node_or_text
  | AppendBasedOnParentNode node_id node_id node_or_text
  | AddAttrsIfMissing node_id "attribute list"
  | RemoveFromParent node_id
  | ReparentChildren node_id node_id
  | SetQuirksMode quirks_mode
  | AttachDeclarativeShadow node_id node_id "attribute list"

definition sink_exec :: "sink_op \<Rightarrow> dom \<Rightarrow> dom" where
  "sink_exec op t =
     (case op of
        CreateElement name attrs flags \<Rightarrow> snd (create_element name attrs flags t)
      | CreateComment s \<Rightarrow> snd (create_comment s t)
      | CreatePi target data \<Rightarrow> snd (create_pi target data t)
      | AppendDoctype name public_id system_id \<Rightarrow> append_doctype_to_document name public_id system_id t
      | Append parent child \<Rightarrow> sink_append parent child t
      | AppendBeforeSibling sibling child \<Rightarrow> append_before_sibling sibling child t
      | AppendBasedOnParentNode element prev child \<Rightarrow> append_based_on_parent_node element prev child t
      | AddAttrsIfMissing i attrs \<Rightarrow> add_attrs_if_missing i attrs t
      | RemoveFromParent i \<Rightarrow> remove_from_parent i t
      | ReparentChildren i p \<Rightarrow> reparent_children i p t
      | SetQuirksMode mode \<Rightarrow> set_quirks_mode mode t
      | AttachDeclarativeShadow location template attrs \<Rightarrow> snd (attach_declarative_shadow location template attrs t))"

text \<open>The parser never moves the document, and never makes template contents the shadow root of a node in them.\<close>

definition sink_permitted :: "sink_op \<Rightarrow> dom \<Rightarrow> bool" where
  "sink_permitted op t \<longleftrightarrow>
     (case op of
        Append _ child \<Rightarrow> child \<noteq> AppendNode (dm_document t)
      | AppendBeforeSibling _ child \<Rightarrow> child \<noteq> AppendNode (dm_document t)
      | AppendBasedOnParentNode _ _ child \<Rightarrow> child \<noteq> AppendNode (dm_document t)
      | AttachDeclarativeShadow location template _ \<Rightarrow>
          (case Option.bind (node_at t template) template_field of
             Some root \<Rightarrow> location \<notin> set (inclusive_owned_subtrees t root) | None \<Rightarrow> True)
      | _ \<Rightarrow> True)"

lemma insert_new_ok:
  assumes ok: "dom_ok t" and new: "new_node d t = (c, t1)" and fit: "fits t1"
  shows "dom_ok (insert_before e c t1)" "dom_ok (append_child p c t1)"
  using new_node_shape [OF dom_okD [OF ok] new fit] by (auto intro: insert_before_ok append_child_ok dom_okI)

lemma create_element_ok:
  assumes ok: "dom_ok t" and fit: "fits (snd (create_element name attrs flags t))"
  shows "dom_ok (snd (create_element name attrs flags t))"
proof -
  obtain i t1 where new: "new_node (Element name attrs None (ef_annotation_xml flags)) t = (i, t1)" by fastforce
  obtain c t2 where new2: "new_node Document t1 = (c, t2)" by fastforce
  have "arena_grows t t1" "arena_grows t1 t2" "arena_grows t2 (with_node_mut i (set_template_field c) t2)"
    by (rule grows_new [OF new], rule grows_new [OF new2], rule grows_with_node_mut [OF keeps_links_ops(4)])
  then have "arena_grows t (snd (create_element name attrs flags t))"
    by (auto simp: create_element_def new new2 intro: grows_trans)
  with ok fit show ?thesis by (simp add: arena_grows_def)
qed

lemma append_before_ok:
  assumes ok: "dom_ok t" and c: "child \<noteq> AppendNode (dm_document t)" and fit: "fits (append_before_sibling sibling child t)"
  shows "dom_ok (append_before_sibling sibling child t)"
proof (cases child)
  case (AppendNode i)
  then show ?thesis using insert_before_ok [OF ok, of i] c by (simp add: append_before_sibling_def)
next
  case (AppendStr s)
  obtain i t1 where new: "new_node (Text s) t = (i, t1)" by fastforce
  show ?thesis
  proof (cases "Option.bind (prev_of t sibling) (\<lambda>p. Option.bind (node_at t p) (\<lambda>nd. if is_text nd then Some p else None))")
    case None
    then have "append_before_sibling sibling child t = insert_before sibling i t1"
      by (simp add: append_before_sibling_def AppendStr new)
    then show ?thesis using fit insert_new_ok(1) [OF ok new] by (simp add: fits_def)
  next
    case (Some p)
    then show ?thesis using dom_okI [OF with_node_mut_shape [OF keeps_links_ops(5) dom_okD [OF ok]]]
      by (simp add: append_before_sibling_def AppendStr)
  qed
qed

lemma sink_append_ok:
  assumes ok: "dom_ok t" and c: "child \<noteq> AppendNode (dm_document t)" and fit: "fits (sink_append p child t)"
  shows "dom_ok (sink_append p child t)"
  using append_child_ok [OF ok] append_text_ok [OF ok, of p] c fit
  by (cases child) (auto simp: sink_append_def)

lemma doctype_ok:
  assumes ok: "dom_ok t" and fit: "fits (append_doctype_to_document a b c t)"
  shows "dom_ok (append_doctype_to_document a b c t)"
proof -
  obtain i t1 where new: "new_node (Doctype a b c) t = (i, t1)" by fastforce
  show ?thesis using fit insert_new_ok(2) [OF ok new] by (simp add: append_doctype_to_document_def new fits_def)
qed

lemma append_document: "dm_document (append_child p c t) = dm_document t"
proof -
  have d: "dm_document (detach_for_reparent c b t) = dm_document t" for b
    using same_linksD(9) [OF same_links_set_connected] same_restD(4) [OF same_rest_unlink]
    by (simp add: detach_for_reparent_def Let_def split: option.split)
  show ?thesis
    using same_linksD(9) [OF same_links_set_connected] same_restD(4) [OF same_rest_link_last] d
    by (simp add: append_child_def Let_def)
qed

lemma reparent_ok:
  assumes "dom_ok t"
  shows "dom_ok (reparent_children i p t)"
proof -
  have "dm_document t \<notin> set (children t i)"
    using shapeD(3) [OF dom_okD [OF assms]] kids_alive(3) [OF shapeD(1) [OF dom_okD [OF assms]]]
    by (auto simp: document_ok_def)
  moreover have "dom_ok (fold (append_child p) cs t)" if "dom_ok t" "dm_document t \<notin> set cs" for cs t
    using that
  proof (induction cs arbitrary: t)
    case (Cons c cs)
    then have "dom_ok (append_child p c t)" by (intro append_child_ok) auto
    from Cons.IH [OF this] Cons.prems show ?case by (simp add: append_document)
  qed simp
  ultimately show ?thesis using assms by (simp add: reparent_children_def)
qed

lemma declarative_ok:
  assumes ok: "dom_ok t" and p: "sink_permitted (AttachDeclarativeShadow location template attrs) t"
  shows "dom_ok (snd (attach_declarative_shadow location template attrs t))"
proof (cases "shadow_attr attrs = None \<or> Option.bind (node_at t template) template_field = None")
  case True
  then show ?thesis using ok by (auto simp: attach_declarative_shadow_def split: option.split)
next
  case False
  then obtain mode root where m: "shadow_attr attrs = Some mode" "Option.bind (node_at t template) template_field = Some root"
    by (cases "shadow_attr attrs"; cases "Option.bind (node_at t template) template_field") auto
  obtain res t1 where a: "attach_shadow_root_node location root mode t = (res, t1)" by fastforce
  have "dom_ok t1"
    using attach_node_ok [OF ok, of location root mode] p m a by (simp add: sink_permitted_def)
  then show ?thesis using remove_child_ok by (cases res) (auto simp: attach_declarative_shadow_def m a)
qed

lemma push_missing_links: "keeps_links (set_attrs f)"
  by (simp add: keeps_links_def set_attrs_links)

lemma sink_ok:
  assumes ok: "dom_ok t" and p: "sink_permitted op t" and fit: "fits (sink_exec op t)"
  shows "dom_ok (sink_exec op t)"
proof (cases op)
  case (CreateComment s)
  then show ?thesis using fit new_node_ok [OF ok, of "Comment s"]
    by (cases "new_node (Comment s) t") (simp add: sink_exec_def create_comment_def)
next
  case (CreatePi a b)
  then show ?thesis using fit new_node_ok [OF ok, of "ProcessingInstruction a b"]
    by (cases "new_node (ProcessingInstruction a b) t") (simp add: sink_exec_def create_pi_def)
next
  case (AppendBasedOnParentNode e q c)
  then show ?thesis using fit p append_before_ok [OF ok, of c e] sink_append_ok [OF ok, of c q]
    by (auto simp: sink_exec_def sink_permitted_def append_based_on_parent_node_def split: if_splits)
next
  case (AttachDeclarativeShadow l x attrs)
  then show ?thesis using declarative_ok [OF ok] p by (simp add: sink_exec_def)
next
  case (SetQuirksMode mode)
  then show ?thesis using dom_okI [OF field_shape(4) [OF dom_okD [OF ok]]]
    by (simp add: sink_exec_def set_quirks_mode_def set_quirks_def)
next
  case (AddAttrsIfMissing i attrs)
  then show ?thesis using dom_okI [OF with_node_mut_shape [OF push_missing_links dom_okD [OF ok]]]
    by (simp add: sink_exec_def add_attrs_if_missing_def)
next
  case (CreateElement name attrs flags)
  then show ?thesis using fit create_element_ok [OF ok] by (simp add: sink_exec_def)
next
  case (AppendDoctype a b c)
  then show ?thesis using fit doctype_ok [OF ok] by (simp add: sink_exec_def)
next
  case (Append q c)
  then show ?thesis using fit p sink_append_ok [OF ok] by (simp add: sink_exec_def sink_permitted_def)
next
  case (AppendBeforeSibling q c)
  then show ?thesis using fit p append_before_ok [OF ok] by (simp add: sink_exec_def sink_permitted_def)
next
  case (RemoveFromParent i)
  then show ?thesis using detach_ok [OF ok] by (simp add: sink_exec_def remove_from_parent_def)
next
  case (ReparentChildren i q)
  then show ?thesis using reparent_ok [OF ok] by (simp add: sink_exec_def)
qed

end
