(* ===== verification/DomProps.thy ===== *)
theory DomProps
  imports DomWalk DomSink
begin

text \<open>
  The trees a client can build: every public operation of \<open>DomTree\<close> that changes the tree and every call of
  the parser, in any order, and what holds of all of them. Three calls that the engine does not make are left out: moving the
  document itself, freeing the document, and making a node the shadow root of one of its own descendants.
  \<open>document_can_be_moved\<close> at the end shows what the first of them does.
\<close>

datatype dom_op =
    CreateNode node_data
  | SetAttribute node_id string string
  | SetAttributeNs node_id string string string
  | RemoveAttributeNs node_id string string
  | AppendText node_id string
  | AppendChild node_id node_id
  | InsertBefore node_id node_id
  | Detach node_id
  | RemoveChild node_id
  | Remove node_id
  | AttachShadow node_id shadow_mode
  | AttachShadowNode node_id node_id shadow_mode
  | TemplateContents node_id
  | CloneNode node_id bool
  | ImportChildren node_id dom node_id
  | UpdateIdIndex node_id "string option" "string option"
  | UpdateFormControl node_id form_control_state
  | SetHovered "node_id option"
  | ReplaceSheet node_id string bool
  | AppendSheet node_id string bool
  | RemoveSheet node_id
  | UpdateRules node_id nat nat "string list" bool
  | ClearRules node_id
  | Parser sink_op

definition dom_exec :: "dom_op \<Rightarrow> dom \<Rightarrow> dom option" where
  "dom_exec op t =
     (case op of
        CreateNode d \<Rightarrow> Some (snd (new_node d t))
      | SetAttribute i name v \<Rightarrow> Some (with_node_mut i (set_attribute name v) t)
      | SetAttributeNs i ns name v \<Rightarrow> Some (with_node_mut i (set_attribute_ns ns name v) t)
      | RemoveAttributeNs i ns name \<Rightarrow> Some (with_node_mut i (remove_attribute_ns ns name) t)
      | AppendText p s \<Rightarrow> Some (append_text p s t)
      | AppendChild p c \<Rightarrow> Some (append_child p c t)
      | InsertBefore e c \<Rightarrow> Some (insert_before e c t)
      | Detach c \<Rightarrow> Some (detach_node c t)
      | RemoveChild c \<Rightarrow> Some (remove_child c t)
      | Remove c \<Rightarrow> Some (remove_node c t)
      | AttachShadow h mode \<Rightarrow> Some (snd (attach_shadow_root h mode t))
      | AttachShadowNode h r mode \<Rightarrow> Some (snd (attach_shadow_root_node h r mode t))
      | TemplateContents i \<Rightarrow> Some (snd (template_contents i t))
      | CloneNode i deep \<Rightarrow> map_option snd (clone_node i deep t)
      | ImportChildren p source i \<Rightarrow> import_children_from p source i t
      | UpdateIdIndex i old new \<Rightarrow> Some (update_id_index i old new t)
      | UpdateFormControl i st \<Rightarrow> Some (update_form_control_state t i (\<lambda>_. st))
      | SetHovered i \<Rightarrow> Some (snd (set_hovered t i))
      | ReplaceSheet i source clean \<Rightarrow> Some (snd (replace_external_stylesheet t i source clean))
      | AppendSheet i source clean \<Rightarrow> Some (snd (append_external_stylesheet t i source clean))
      | RemoveSheet i \<Rightarrow> Some (snd (remove_external_stylesheet t i))
      | UpdateRules i index n rules reset \<Rightarrow> Some (snd (update_cssom_stylesheet t i index n rules reset))
      | ClearRules i \<Rightarrow> Some (snd (clear_cssom_stylesheet t i))
      | Parser call \<Rightarrow> Some (sink_exec call t))"

definition permitted :: "dom_op \<Rightarrow> dom \<Rightarrow> bool" where
  "permitted op t \<longleftrightarrow>
     (case op of
        AppendChild p c \<Rightarrow> c \<noteq> dm_document t
      | InsertBefore e c \<Rightarrow> c \<noteq> dm_document t
      | Remove c \<Rightarrow> c \<noteq> dm_document t
      | AttachShadowNode h r mode \<Rightarrow> h \<notin> set (inclusive_owned_subtrees t r)
      | Parser call \<Rightarrow> sink_permitted call t
      | _ \<Rightarrow> True)"

inductive reachable_dom :: "dom \<Rightarrow> bool" where
  Fresh: "reachable_dom dom_new"
| Step: "reachable_dom t \<Longrightarrow> permitted op t \<Longrightarrow> dom_exec op t = Some t' \<Longrightarrow> fits t' \<Longrightarrow> reachable_dom t'"

section \<open>Every reachable tree satisfies the invariant\<close>

lemma exec_ok:
  assumes ok: "dom_ok t" and p: "permitted op t" and e: "dom_exec op t = Some t'" and fit: "fits t'"
  shows "dom_ok t'"
proof -
  note sh = dom_okD [OF ok] and k = keeps_links_ops
  show ?thesis
  proof (cases op)
    case (CreateNode d)
    then show ?thesis using e fit new_node_ok [OF ok, of d "fst (new_node d t)" t'] by (auto simp: dom_exec_def)
  next
    case (AppendText i v)
    then show ?thesis using e fit append_text_ok [OF ok, of i v] by (auto simp: dom_exec_def)
  next
    case (AttachShadow h mode)
    then show ?thesis using e fit attach_root_shape(1) [OF sh, of h mode] by (auto simp: dom_exec_def intro: dom_okI)
  next
    case (TemplateContents i)
    then show ?thesis using e fit template_contents_ok [OF ok, of i] by (auto simp: dom_exec_def)
  next
    case (CloneNode i deep)
    then obtain r where "clone_node i deep t = Some (r, t')" using e by (auto simp: dom_exec_def)
    then show ?thesis using clone_node_grows ok fit by (auto simp: arena_grows_def)
  next
    case (ImportChildren q source i)
    then have "import_all q source (children source i) t = Some t'" using e by (simp add: dom_exec_def import_children_from_def)
    then show ?thesis using import_all_grows ok fit by (auto simp: arena_grows_def)
  next
    case (Parser call)
    then show ?thesis using sink_ok [OF ok, of call] p e fit by (simp add: dom_exec_def permitted_def)
  qed (use p e in \<open>simp_all add: dom_exec_def permitted_def\<close>,
      auto intro!: detach_ok [OF ok] remove_child_ok [OF ok] remove_node_ok [OF ok] append_child_ok [OF ok] insert_before_ok [OF ok] attach_node_ok [OF ok]
        dom_okI [OF with_node_mut_shape [OF k(1) sh]] dom_okI [OF with_node_mut_shape [OF k(2) sh]]
        dom_okI [OF with_node_mut_shape [OF k(3) sh]] dom_okI [OF sheet_ops_shape(1) [OF sh]]
        dom_okI [OF sheet_ops_shape(2) [OF sh]] dom_okI [OF sheet_ops_shape(3) [OF sh]] dom_okI [OF sheet_ops_shape(4) [OF sh]]
        dom_okI [OF sheet_ops_shape(5) [OF sh]] dom_okI [OF sheet_ops_shape(6) [OF sh]] dom_okI [OF sheet_ops_shape(7) [OF sh]]
        dom_okI [OF sheet_ops_shape(8) [OF sh]])
qed

lemma reachable_ok: "reachable_dom t \<Longrightarrow> dom_ok t"
  by (induction rule: reachable_dom.induct) (auto intro: dom_okI [OF shape_new] exec_ok)

lemmas reachable_shape = dom_okD [OF reachable_ok]

section \<open>A tree for the witnesses\<close>

text \<open>A document with a \<open>div\<close>, in it two paragraphs, the first with a text node.\<close>

definition html_element :: "string \<Rightarrow> node_data" where
  "html_element name = Element \<lparr>qn_prefix = None, qn_ns = ''http://www.w3.org/1999/xhtml'', qn_local = name\<rparr> [] None False"

fun dom_run :: "dom_op list \<Rightarrow> dom \<Rightarrow> dom option" where
  "dom_run [] t = Some t"
| "dom_run (op # ops) t =
     (if permitted op t then Option.bind (dom_exec op t) (\<lambda>t'. if fits t' then dom_run ops t' else None) else None)"

lemma dom_run_reachable: "reachable_dom t \<Longrightarrow> dom_run ops t = Some t' \<Longrightarrow> reachable_dom t'"
  by (induction ops arbitrary: t) (auto simp: bind_eq_Some_conv split: if_splits intro: Step)

definition page :: dom where
  "page = dom_new\<lparr>dm_nodes := [
     Some \<lparr>nd_id = 0, nd_connected = True, nd_parent = None, nd_first_child = Some 1, nd_last_child = Some 1,
           nd_prev_sibling = None, nd_next_sibling = None, nd_data = Document\<rparr>,
     Some \<lparr>nd_id = 1, nd_connected = True, nd_parent = Some 0, nd_first_child = Some 2, nd_last_child = Some 4,
           nd_prev_sibling = None, nd_next_sibling = None, nd_data = html_element ''div''\<rparr>,
     Some \<lparr>nd_id = 2, nd_connected = True, nd_parent = Some 1, nd_first_child = Some 3, nd_last_child = Some 3,
           nd_prev_sibling = None, nd_next_sibling = Some 4, nd_data = html_element ''p''\<rparr>,
     Some \<lparr>nd_id = 3, nd_connected = True, nd_parent = Some 2, nd_first_child = None, nd_last_child = None,
           nd_prev_sibling = None, nd_next_sibling = None, nd_data = Text ''hi''\<rparr>,
     Some \<lparr>nd_id = 4, nd_connected = True, nd_parent = Some 1, nd_first_child = None, nd_last_child = None,
           nd_prev_sibling = Some 2, nd_next_sibling = None, nd_data = html_element ''p''\<rparr>]\<rparr>"

lemmas dom_eval = new_node_def first_id_attr_def html_element_def fresh_node_def dom_new_def append_child_def append_text_def
  detach_for_reparent_def link_last_def cut_links_def upd_node_def node_at_def slot_def alive_def bm_has_def bm_get_Nil
  can_be_ancestor_def first_of_def last_of_def is_connected_def invalidate_cssom_source_def set_subtree_connected_def
  would_create_host_including_cycle_def mark_node_def Let_def

lemma page_run:
  "dom_run [CreateNode (html_element ''div''), AppendChild 0 1, CreateNode (html_element ''p''), AppendChild 1 2, AppendText 2 ''hi'',
     CreateNode (html_element ''p''), AppendChild 1 4] dom_new = Some page"
  by (simp add: page_def dom_exec_def permitted_def fits_def dom_eval)

lemma page_reachable: "reachable_dom page"
  by (rule dom_run_reachable [OF Fresh page_run])

lemma page_links:
  "children page 0 = [1]" "children page 1 = [2, 4]" "children page 2 = [3]" "children page 3 = []" "children page 4 = []"
  "dm_document page = 0" "parent_of page 2 = Some 1" "parent_of page 4 = Some 1"
  by (simp_all add: children_def page_def dom_new_def first_of_def next_of_def parent_of_def node_at_def slot_def)

section \<open>Properties\<close>

text \<open>
  C3. Of every tree that the operations build: the child lists and the four link fields of all nodes agree,
  no path over parents and shadow hosts has a cycle, the registry maps hosts and shadow roots to each other,
  a node is flagged connected exactly when its shadow-including root is the document, and \<open>len\<close> counts the
  live slots.
\<close>

theorem dom_invariant:
  assumes "reachable_dom t"
  shows "(\<forall>i. distinct (children t i) \<and> set (children t i) = {c. parent_of t c = Some i})
    \<and> (\<forall>i. first_of t i = first_opt (children t i) None \<and> last_of t i = last_opt (children t i) None)
    \<and> (\<forall>i xs c ys. children t i = xs @ c # ys \<longrightarrow> prev_of t c = last_opt xs None \<and> next_of t c = first_opt ys None)
    \<and> acyclic (edges (host_including_parent t))
    \<and> (\<forall>h r. shadow_root_of t h = Some r \<longleftrightarrow> (\<exists>info. shadow_root_info t r = Some info \<and> sr_host info = h))
    \<and> (\<forall>i. is_connected t i \<longleftrightarrow> shadow_including_root t i = Some (dm_document t))
    \<and> dom_len t = card (live_ids t)"
proof (intro conjI)
  note sh = reachable_shape [OF assms]
  note s = shapeD [OF sh]
  show "\<forall>i. distinct (children t i) \<and> set (children t i) = {c. parent_of t c = Some i}"
    using links_okD(3,5) [OF s(1)] by auto
  show "\<forall>i. first_of t i = first_opt (children t i) None \<and> last_of t i = last_opt (children t i) None"
    using links_okD(1,2) [OF s(1)] by simp
  show "\<forall>i xs c ys. children t i = xs @ c # ys \<longrightarrow> prev_of t c = last_opt xs None \<and> next_of t c = first_opt ys None"
    using links_okD(4) [OF s(1)] by (metis dll_next dll_prev)
  show "acyclic (edges (host_including_parent t))" by (rule s(4))
  show "\<forall>h r. shadow_root_of t h = Some r \<longleftrightarrow> (\<exists>info. shadow_root_info t r = Some info \<and> sr_host info = h)"
    using s(2) unfolding registry_ok_def shadow_root_of_def shadow_root_info_def by blast
  show "\<forall>i. is_connected t i \<longleftrightarrow> shadow_including_root t i = Some (dm_document t)" using connected_root [OF sh] by simp
  show "dom_len t = card (live_ids t)" by (rule dom_len_live [OF sh])
qed

lemma dom_invariant_witness:
  "is_connected page 3 \<and> distinct (children page 1) \<and> prev_of page 4 = Some 2 \<and> dom_len page = card (live_ids page)"
proof -
  note i = dom_invariant [OF page_reachable]
  have "shadow_including_root page 3 = Some 0"
    by (simp add: shadow_including_root_def page_def dom_new_def node_at_def slot_def bm_get_Nil eval_nat_numeral)
  moreover have "prev_of page 4 = last_opt [2] None"
    using i page_links(2) append_Cons append_Nil by metis
  ultimately show ?thesis using i page_links(6) by (simp add: last_opt_def)
qed

text \<open>
  C5. The operations that move a node are the obvious ones on ordered child lists. \<open>append_child\<close> takes the
  node out of its list and puts it last in the new parent's, \<open>insert_before\<close> puts it right before the
  reference, \<open>detach\<close> takes it out and \<open>remove\<close> drops all lists of the owned subtree too. A move is refused,
  and changes no list, exactly when a node does not exist, is a shadow root, or would come below itself.
\<close>

theorem dom_moves:
  assumes "reachable_dom t" and "c \<noteq> dm_document t"
  shows "children (append_child p c t) =
      (if alive t p \<and> alive t c \<and> \<not> is_shadow_root t c \<and> p \<notin> subtree t c
       then (\<lambda>i. removeAll c (children t i))(p := removeAll c (children t p) @ [c]) else children t)
    \<and> children (insert_before e c t) =
      (case parent_of t e of
         None \<Rightarrow> children t
       | Some p \<Rightarrow>
          (if e \<noteq> c \<and> alive t c \<and> \<not> is_shadow_root t c \<and> p \<notin> subtree t c
           then (\<lambda>i. concat (map (\<lambda>x. if x = e then [c, e] else [x]) (removeAll c (children t i)))) else children t))
    \<and> children (detach_node c t) = (if is_shadow_root t c then children t else (\<lambda>i. removeAll c (children t i)))
    \<and> children (remove_node c t) =
      (if alive t c then (\<lambda>i. if i \<in> subtree t c then [] else removeAll c (children t i)) else children t)"
proof (intro conjI)
  note sh = reachable_shape [OF assms(1)] and c = assms(2)
  note s = shapeD [OF sh]
  show "children (append_child p c t) =
      (if alive t p \<and> alive t c \<and> \<not> is_shadow_root t c \<and> p \<notin> subtree t c
       then (\<lambda>i. removeAll c (children t i))(p := removeAll c (children t p) @ [c]) else children t)"
    using shape_children [OF append_child_shape [OF sh c, of p]] by (auto simp: accepts_def is_shadow_root_def)
  show "children (insert_before e c t) =
      (case parent_of t e of
         None \<Rightarrow> children t
       | Some p \<Rightarrow>
          (if e \<noteq> c \<and> alive t c \<and> \<not> is_shadow_root t c \<and> p \<notin> subtree t c
           then (\<lambda>i. concat (map (\<lambda>x. if x = e then [c, e] else [x]) (removeAll c (children t i)))) else children t))"
  proof (cases "parent_of t e")
    case None
    then show ?thesis by (simp add: insert_before_noop)
  next
    case (Some p)
    show ?thesis
    proof (cases "e = c")
      case True
      then show ?thesis using Some by (simp add: insert_before_def)
    next
      case False
      have p: "alive t p" "e \<in> set (children t p)"
        using links_okD(5) [OF s(1)] Some kids_alive(2) [OF s(1)] by blast+
      have "distinct (removeAll c (children t p))" "e \<in> set (removeAll c (children t p))"
        using links_okD(3) [OF s(1)] p(2) False by (simp_all add: distinct_removeAll)
      then obtain xs ys where k: "removeAll c (children t p) = xs @ e # ys" "e \<notin> set xs" "e \<notin> set ys"
        by (rule split_list_distinct)
      have id: "concat (map (\<lambda>x. if x = e then [c, e] else [x]) zs) = zs" if "e \<notin> set zs" for zs
        using that by (induction zs) auto
      have "e \<notin> set (children t i)" if "i \<noteq> p" for i using links_okD(5) [OF s(1), of e i] Some that by simp
      then have "(\<lambda>i. concat (map (\<lambda>x. if x = e then [c, e] else [x]) (removeAll c (children t i)))) =
          (\<lambda>i. removeAll c (children t i))(p := xs @ c # e # ys)"
        using k id by (intro ext) (simp add: id)
      then show ?thesis
        using shape_children [OF insert_before_shape [OF sh c Some k(1)]] False p(1)
        by (auto simp: Some accepts_def is_shadow_root_def)
    qed
  qed
  show "children (detach_node c t) = (if is_shadow_root t c then children t else (\<lambda>i. removeAll c (children t i)))"
  proof (cases "alive t c \<and> \<not> is_shadow_root t c")
    case True
    then show ?thesis using shape_children [OF detach_shape [OF sh _ c]] by (simp add: is_shadow_root_def)
  next
    case False
    then have "detach_node c t = t" using detach_noop by (auto simp: detach_node_def is_shadow_root_def)
    moreover have "removeAll c (children t i) = children t i" if "\<not> alive t c" for i
      using kids_alive(1) [OF s(1), of c i] that by (auto intro: removeAll_id)
    ultimately show ?thesis using False by auto
  qed
  show "children (remove_node c t) =
      (if alive t c then (\<lambda>i. if i \<in> subtree t c then [] else removeAll c (children t i)) else children t)"
    using shape_children [OF remove_node_shape(1) [OF sh _ c]]
    by (auto simp: remove_node_def inclusive_owned_subtrees_def)
qed

lemma dom_moves_witness: "children (append_child 0 2 page) 1 = [4] \<and> children (append_child 0 2 page) 0 = [1, 2]
    \<and> children (insert_before 2 4 page) 1 = [4, 2] \<and> children (append_child 3 1 page) = children page"
proof -
  have doc: "1 \<noteq> dm_document page" "2 \<noteq> dm_document page" "4 \<noteq> dm_document page" by (simp_all add: page_links)
  have up: "host_including_parent page 0 = None" "host_including_parent page 1 = Some 0" "host_including_parent page 2 = Some 1"
    "host_including_parent page 3 = Some 2"
    by (simp_all add: host_including_parent_def parent_of_def page_def dom_new_def node_at_def slot_def bm_get_Nil eval_nat_numeral)
  have top: "0 \<notin> subtree page c" if "c \<noteq> 0" for c
    using below_cases [of 0 "host_including_parent page" c] up(1) that by (auto simp: subtree_def)
  have free: "0 \<notin> subtree page 2" "1 \<notin> subtree page 4"
    using top [of 2] top [of 4] below_cases [of 1 "host_including_parent page" 4] up(2) by (auto simp: subtree_def)
  have below: "3 \<in> subtree page 1"
    unfolding subtree_def
    by (rule below_step [of "host_including_parent page", OF up(4)], rule below_step [of "host_including_parent page", OF up(3)]) simp
  have live: "alive page 0" "alive page 1" "alive page 2" "alive page 4" "\<not> is_shadow_root page i" for i
    by (simp_all add: alive_def is_shadow_root_def page_def dom_new_def node_at_def slot_def bm_has_def)
  show ?thesis
    using dom_moves [OF page_reachable doc(2), of 0 0] dom_moves [OF page_reachable doc(3), of 0 2]
      dom_moves [OF page_reachable doc(1), of 3 0] free below live page_links
    by simp
qed

text \<open>
  C20. The traversals agree with the child lists and with each other: \<open>descendants\<close> is the preorder of the
  subtree, each node before its own descendants and these before its next sibling; the iterator yields the
  same nodes; they are the nodes that have the start among their \<open>ancestors\<close>, each once; and \<open>ancestors\<close>
  lists the parents up to the root. No cap of the code cuts a walk short.
\<close>

theorem dom_traversals:
  assumes "reachable_dom t"
  shows "descendants t i = concat (map (\<lambda>c. c # descendants t c) (children t i))
    \<and> descendants_iter t i = descendants t i
    \<and> distinct (i # descendants t i) \<and> set (descendants t i) = {j. i \<in> set (ancestors t j)}
    \<and> ancestors t i = (case parent_of t i of None \<Rightarrow> [] | Some p \<Rightarrow> p # ancestors t p)"
proof (intro conjI)
  note sh = reachable_shape [OF assms]
  note fo = forest_shape [OF sh]
  have pre: "preorder (children t) (parent_of t) = (\<lambda>c. c # descendants t c)" by (rule ext, rule preorder_descendants [OF sh])
  show "descendants t i = concat (map (\<lambda>c. c # descendants t c) (children t i))"
    using descendants_preorder [OF sh, of i] by (simp only: pre)
  show "descendants_iter t i = descendants t i" by (rule iter_descendants [OF sh])
  show d: "distinct (i # descendants t i)" using distinct_preorder [OF fo, of i] by (simp only: pre)
  have "insert i (set (descendants t i)) = below_of (parent_of t) i" using set_preorder [OF fo, of i] by (simp add: pre)
  then have "set (descendants t i) = below_of (parent_of t) i - {i}" using d by (metis Diff_insert_absorb distinct.simps(2))
  then show "set (descendants t i) = {j. i \<in> set (ancestors t j)}" using ancestors_step(2) [OF sh] by auto
  show "ancestors t i = (case parent_of t i of None \<Rightarrow> [] | Some p \<Rightarrow> p # ancestors t p)" by (rule ancestors_step(1) [OF sh])
qed

lemma page_descendants: "descendants page 0 = [1, 2, 3, 4]"
  using page_links by (simp add: descendants_def page_def dom_new_def eval_nat_numeral)

lemma dom_traversals_witness: "descendants_iter page 0 = [1, 2, 3, 4] \<and> 0 \<in> set (ancestors page 3)"
proof -
  note d = dom_traversals [OF page_reachable, of 0]
  then have "3 \<in> {j. 0 \<in> set (ancestors page j)}" using page_descendants by (metis list.set_intros)
  with d page_descendants show ?thesis by simp
qed

text \<open>
  C21. \<open>next_in_subtree\<close> and \<open>prev_in_subtree\<close> step through a subtree in document order: where a node
  stands in the preorder of the root, they return the nodes right after and right before it, and nothing
  at the ends.
\<close>

theorem document_order:
  assumes "reachable_dom t" and "root # descendants t root = before @ i # after"
  shows "next_in_subtree t root i = first_opt after None \<and> prev_in_subtree t root i = last_opt before None"
  using order_steps [OF reachable_shape [OF assms(1)] assms(2)] by simp

lemma document_order_witness: "next_in_subtree page 0 3 = Some 4 \<and> prev_in_subtree page 0 3 = Some 2"
proof -
  have "0 # descendants page 0 = [0, 1, 2] @ 3 # [4]" by (simp add: page_descendants)
  from document_order [OF page_reachable this] show ?thesis by (simp add: last_opt_def)
qed

text \<open>
  C22. \<open>is_hovered\<close>, whose climb over the parents has no bound in the code, returns, and answers whether the
  hovered node is the given one or one of its descendants.
\<close>

theorem hovered_returns:
  assumes "reachable_dom t"
  shows "is_hovered t i = Some (\<exists>c. dm_hovered t = Some c \<and> (c = i \<or> c \<in> set (descendants t i)))"
  using is_hovered_spec [OF reachable_shape [OF assms], of i] by simp

lemma hovered_returns_witness: "is_hovered (snd (set_hovered page (Some 3))) 1 = Some True"
proof -
  let ?t = "snd (set_hovered page (Some 3))"
  have t: "?t = page\<lparr>dm_hovered := Some 3\<rparr>" by (simp add: set_hovered_def page_def dom_new_def)
  have "reachable_dom ?t"
    by (rule Step [OF page_reachable, of "SetHovered (Some 3)"]) (simp_all add: permitted_def dom_exec_def fits_def set_hovered_def page_def dom_new_def)
  moreover have "descendants ?t 1 = [2, 3, 4]"
  proof -
    have "next_of ?t = next_of page" "first_of ?t = first_of page"
      by (simp_all add: t fun_eq_iff next_of_def first_of_def node_at_def)
    then have c: "children ?t = children page" by (intro ext) (simp add: children_def, simp add: t)
    have "length (dm_nodes ?t) = 5" by (simp add: set_hovered_def page_def dom_new_def)
    then show ?thesis using page_links c by (simp add: descendants_def eval_nat_numeral)
  qed
  ultimately show ?thesis using hovered_returns [of ?t 1] by (simp add: t)
qed

section \<open>A tree out of order\<close>

text \<open>
  \<open>append_child\<close> accepts the document itself as a child. \<open>detach_for_reparent\<close> then leaves it where it is, so a
  second call puts it into two child lists at once and its parent pointer agrees with only one of them.
\<close>

definition loose :: dom where
  "loose = dom_new\<lparr>dm_nodes := [
     Some \<lparr>nd_id = 0, nd_connected = True, nd_parent = None, nd_first_child = None, nd_last_child = None,
           nd_prev_sibling = None, nd_next_sibling = None, nd_data = Document\<rparr>,
     Some (fresh_node 1 (html_element ''div'')), Some (fresh_node 2 (html_element ''p''))]\<rparr>"

lemma loose_reachable: "reachable_dom loose"
proof (rule dom_run_reachable [OF Fresh])
  show "dom_run [CreateNode (html_element ''div''), CreateNode (html_element ''p'')] dom_new = Some loose"
    by (simp add: loose_def dom_exec_def permitted_def fits_def dom_eval)
qed

lemma document_can_be_moved:
  "dm_document loose = 0 \<and> children (append_child 2 0 (append_child 1 0 loose)) 1 = [0]
    \<and> children (append_child 2 0 (append_child 1 0 loose)) 2 = [0] \<and> \<not> reachable_dom (append_child 2 0 (append_child 1 0 loose))"
proof -
  let ?t = "append_child 2 0 (append_child 1 0 loose)"
  have "append_child 1 0 loose = loose\<lparr>dm_nodes := [
     Some \<lparr>nd_id = 0, nd_connected = True, nd_parent = Some 1, nd_first_child = None, nd_last_child = None,
           nd_prev_sibling = None, nd_next_sibling = None, nd_data = Document\<rparr>,
     Some ((fresh_node 1 (html_element ''div''))\<lparr>nd_first_child := Some 0, nd_last_child := Some 0\<rparr>),
     Some (fresh_node 2 (html_element ''p''))]\<rparr>"
    by (simp add: loose_def dom_eval)
  then have "dm_document loose = 0 \<and> children ?t 1 = [0] \<and> children ?t 2 = [0]"
    by (simp add: loose_def dom_eval children_def next_of_def)
  moreover have "\<not> reachable_dom ?t" if "children ?t 1 = [0]" "children ?t 2 = [0]"
  proof
    assume "reachable_dom ?t"
    from links_okD(5) [OF shapeD(1) [OF reachable_shape [OF this]]] that
    have "parent_of ?t 0 = Some 1" "parent_of ?t 0 = Some 2" by (metis list.set_intros(1))+
    then show False by simp
  qed
  ultimately show ?thesis by blast
qed

end
