(* ===== verification/DomCycle.thy ===== *)
theory DomCycle
  imports DomProps
begin

text \<open>
  What the moves leave alone, the data of all nodes, and a use of it: the cycle check of \<open>append_child\<close>
  does not look through template contents, so a template can be put into its own contents, and a deep
  clone of it then never comes to an end.
\<close>

section \<open>Moves keep all data\<close>

definition same_data :: "dom \<Rightarrow> dom \<Rightarrow> bool" where
  "same_data t t' \<longleftrightarrow> (\<forall>i. map_option nd_data (node_at t' i) = map_option nd_data (node_at t i))"

lemma same_data_refl [simp]: "same_data t t"
  by (simp add: same_data_def)

lemma same_data_trans: "same_data t t' \<Longrightarrow> same_data t' t'' \<Longrightarrow> same_data t t''"
  by (simp add: same_data_def)

lemma same_data_upd: "(\<And>nd. nd_data (f nd) = nd_data nd) \<Longrightarrow> same_data t (upd_node i f t)"
  by (simp add: same_data_def node_at_upd option.map_comp comp_def)

lemma same_data_mark: "same_data t (mark_node b i t)"
  unfolding mark_node_def
  by (rule same_data_trans [OF _ same_data_upd]) (simp_all add: same_data_def)

lemma same_data_connect: "same_data t (connect_loop b stack seen t)"
proof (induction b stack seen t rule: connect_loop.induct)
  case (2 b i stack seen t)
  consider "i \<in> set seen" | "i \<notin> set seen" "\<not> alive t i" | "i \<notin> set seen" "alive t i" by blast
  then show ?case
  proof cases
    case 1
    then show ?thesis using "2.IH"(1) by simp
  next
    case 2
    have "same_data (if b then t else clear_cssom i t)
        (connect_loop b stack (i # seen) (if b then t else clear_cssom i t))"
      by (rule "2.IH"(2)) (use 2 in auto)
    with 2 show ?thesis by (simp add: same_data_def split: if_splits)
  next
    case 3
    have "same_data (mark_node b i t)
        (connect_loop b (rev (children (mark_node b i t) i) @ hosted (mark_node b i t) i @ stack) (i # seen) (mark_node b i t))"
      by (rule "2.IH"(3)) (use 3 in auto)
    with 3 show ?thesis by (simp add: Let_def same_data_trans [OF same_data_mark])
  qed
qed simp

lemma same_data_connected: "same_data t (set_subtree_connected i b t)"
  by (simp add: set_subtree_connected_def same_data_mark same_data_connect del: connect_loop.simps)

lemma same_data_invalidate: "same_data t (invalidate_cssom_source i t)"
  by (simp add: same_data_def)

lemma same_data_cut: "same_data t (cut_links i a b c t)"
  unfolding cut_links_def Let_def
  by (rule same_data_trans [OF _ same_data_upd]) (simp_all add: same_data_def node_at_upd option.map_comp comp_def split: option.split)

lemma same_data_detach: "same_data t (detach_for_reparent i b t)"
  unfolding detach_for_reparent_def Let_def
  by (auto intro: same_data_trans [OF same_data_trans [OF same_data_invalidate same_data_connected] same_data_cut]
      same_data_trans [OF same_data_invalidate same_data_cut] split: option.split)

lemma same_data_link_last: "same_data t (link_last p c t)"
  unfolding link_last_def Let_def
  by (rule same_data_trans [OF _ same_data_upd]) (simp_all add: same_data_def node_at_upd option.map_comp comp_def split: option.split)

lemma same_data_append_child: "same_data t (append_child p c t)"
  unfolding append_child_def Let_def
  by (auto intro: same_data_trans [OF same_data_trans [OF same_data_trans [OF same_data_detach same_data_invalidate] same_data_link_last] same_data_connected]
      same_data_trans [OF same_data_trans [OF same_data_detach same_data_invalidate] same_data_link_last])

section \<open>A template in its own contents\<close>

definition holds_itself :: "dom \<Rightarrow> node_id \<Rightarrow> node_id \<Rightarrow> bool" where
  "holds_itself t i c \<longleftrightarrow> (\<exists>nd. node_at t i = Some nd \<and> template_field nd = Some c) \<and> i \<in> set (children t c)"

lemma template_data: "nd_data nd = nd_data nd' \<Longrightarrow> template_field nd = template_field nd'"
  by (simp add: template_field_def)

lemma holds_new:
  assumes ok: "dom_ok t" and new: "new_node d t = (j, t')" and fit: "fits t'" and h: "holds_itself t i c"
  shows "holds_itself t' i c" "i \<noteq> j" "dom_ok t'" "dm_document t' \<noteq> j"
proof -
  note n = new_node_shape [OF dom_okD [OF ok] new fit] and f = new_node_facts [OF dom_okD [OF ok] new fit]
  show ij: "i \<noteq> j" using n(2) h by (auto simp: holds_itself_def alive_def)
  then show "holds_itself t' i c" using h shape_children [OF n(1)] by (simp add: holds_itself_def f(2))
  show "dom_ok t'" by (rule dom_okI [OF n(1)])
  show "dm_document t' \<noteq> j" using n(8) by simp
qed

lemma holds_append:
  assumes ok: "dom_ok t" and j: "j \<noteq> dm_document t" "i \<noteq> j" and h: "holds_itself t i c"
  shows "holds_itself (append_child p j t) i c"
proof -
  obtain nd where nd: "node_at t i = Some nd" "template_field nd = Some c" using h by (auto simp: holds_itself_def)
  have "map_option nd_data (node_at (append_child p j t) i) = Some (nd_data nd)"
    using same_data_append_child [of t p j] nd(1) by (simp add: same_data_def)
  then obtain nd' where "node_at (append_child p j t) i = Some nd'" "nd_data nd' = nd_data nd" by auto
  moreover have "i \<in> set (children (append_child p j t) c)"
    using shape_children [OF append_child_shape [OF dom_okD [OF ok] j(1), of p], symmetric] h j(2) by (auto simp: holds_itself_def)
  ultimately show ?thesis using template_data [of nd' nd] nd(2) by (auto simp: holds_itself_def)
qed

lemma children_nodes:
  assumes "dm_nodes t' = dm_nodes t"
  shows "children t' = children t" "node_at t' = node_at t"
proof -
  have n: "node_at t' j = node_at t j" for j using assms by (simp add: node_at_def)
  then show "node_at t' = node_at t" by (rule ext)
  show "children t' = children t"
    by (rule ext) (simp add: children_def link_cong(2) [OF n] link_cong(5) [OF n] assms)
qed

lemma holds_control:
  assumes "holds_itself t i c"
  shows "holds_itself (clone_control source j t) i c" "dom_ok t \<Longrightarrow> dom_ok (clone_control source j t)"
proof -
  have "dm_nodes (clone_control source j t) = dm_nodes t"
    by (simp add: clone_control_def update_form_control_state_def Let_def split: option.split)
  from children_nodes [OF this] show "holds_itself (clone_control source j t) i c" using assms by (simp add: holds_itself_def)
  show "dom_ok (clone_control source j t)" if "dom_ok t"
  proof (cases "get_form_control_state t source")
    case (Some st)
    then show ?thesis unfolding clone_control_def by (simp add: dom_okI [OF sheet_ops_shape(7) [OF dom_okD [OF that]]])
  qed (use that in \<open>simp add: clone_control_def\<close>)
qed

text \<open>Each turn that clones the template pushes it again.\<close>

lemma holds_prepare:
  assumes ok: "dom_ok t" and h: "holds_itself t i c" and j: "j \<noteq> i"
    and prep: "prepare_cloned_children source j True rest t = (stack, t')" and fit: "fits t'"
  shows "holds_itself t' i c" "dom_ok t'" "set rest \<subseteq> set stack" "source = i \<Longrightarrow> i \<in> snd ` set stack"
proof -
  have "holds_itself t' i c \<and> dom_ok t' \<and> set rest \<subseteq> set stack \<and> (source = i \<longrightarrow> i \<in> snd ` set stack)"
  proof (cases "Option.bind (node_at t source) template_field")
    case None
    then show ?thesis using ok h prep by (auto simp: prepare_cloned_children_def holds_itself_def)
  next
    case (Some contents)
    obtain copy t1 where new: "new_node Document t = (copy, t1)" by fastforce
    let ?t2 = "with_node_mut j (set_template_field copy) t1"
    have t': "t' = ?t2" and stack: "stack = map (Pair j) (children ?t2 source) @ map (Pair copy) (children ?t2 contents) @ rest"
      using prep Some by (auto simp: prepare_cloned_children_def new Let_def)
    have f1: "fits t1" using fit by (simp add: t' fits_def)
    note n = holds_new [OF ok new f1 h]
    have sh2: "shape ?t2 (children t1)" by (rule with_node_mut_shape [OF keeps_links_ops(4) dom_okD [OF n(3)]])
    have "node_at ?t2 i = node_at t1 i" using j by (simp add: with_node_mut_def node_at_upd)
    then have h2: "holds_itself ?t2 i c" using n(1) shape_children [OF sh2] by (simp add: holds_itself_def)
    moreover have "i \<in> snd ` set stack" if "source = i"
    proof -
      have "contents = c" using Some h that by (auto simp: holds_itself_def)
      then have "(copy, i) \<in> set stack" using h2 by (simp add: stack holds_itself_def)
      then show ?thesis by force
    qed
    ultimately show ?thesis using dom_okI [OF sh2] by (auto simp: t' stack)
  qed
  then show "holds_itself t' i c" "dom_ok t'" "set rest \<subseteq> set stack" "source = i \<Longrightarrow> i \<in> snd ` set stack" by auto
qed

lemma clone_loop_runs_away:
  assumes "clone_loop stack t = Some t'"
  shows "dom_ok t \<longrightarrow> holds_itself t i c \<longrightarrow> fits t' \<longrightarrow> i \<notin> snd ` set stack"
proof (rule clone_loop.raw_induct [of "\<lambda>stack t t'. arena_grows t t' \<and> (dom_ok t \<longrightarrow> holds_itself t i c \<longrightarrow> fits t' \<longrightarrow> i \<notin> snd ` set stack)"
      stack t t', THEN conjunct2, OF _ assms], goal_cases)
  case (1 loop stack t t')
  show ?case
  proof (cases stack)
    case Nil
    then show ?thesis using 1(2) by simp
  next
    case (Cons w rest)
    obtain parent source where w: "w = (parent, source)" by fastforce
    show ?thesis
    proof (cases "node_at t source")
      case None
      then have "loop rest t = Some t'" using 1(2) by (simp add: Cons w)
      from 1(1) [OF this] None show ?thesis by (auto simp: Cons w holds_itself_def)
    next
      case (Some nd)
      obtain copy t1 where new: "new_node (nd_data nd) t = (copy, t1)" by fastforce
      let ?t2 = "append_child parent copy (clone_control source copy t1)"
      obtain stack' t3 where prep: "prepare_cloned_children source copy True rest ?t2 = (stack', t3)" by fastforce
      have l: "loop stack' t3 = Some t'" using 1(2) by (simp add: Cons w Some new prep)
      note ih = 1(1) [OF l]
      have g2: "arena_grows ?t2 t3" "arena_grows t ?t2"
        by (rule grows_prepare [OF prep], rule grows_append_new [OF new, of _ source]) simp
      have "i \<notin> snd ` set stack" if ok: "dom_ok t" and h: "holds_itself t i c" and fit: "fits t'"
      proof -
        have fit3: "fits t3" and fit2: "fits ?t2" using fit ih g2(1) by (auto simp: arena_grows_def fits_def)
        have "length (dm_nodes ?t2) = length (dm_nodes t1)"
          by (simp add: clone_control_def update_form_control_state_def Let_def split: option.split)
        then have fit1: "fits t1" using fit2 by (simp add: fits_def)
        note n = holds_new [OF ok new fit1 h]
        note c = holds_control [OF n(1), of source copy]
        have doc: "copy \<noteq> dm_document (clone_control source copy t1)" using n(4) control_document by simp
        note a = holds_append [OF c(2) [OF n(3)] doc n(2) c(1), of parent] and ok2 = append_child_ok [OF c(2) [OF n(3)] doc, of parent]
        note r = holds_prepare [OF ok2 a n(2) [symmetric] prep fit3]
        have "i \<notin> snd ` set stack'" using ih r(1,2) fit by blast
        then have "i \<noteq> source" "i \<notin> snd ` set rest" using r(3,4) by auto
        then show ?thesis by (auto simp: Cons w)
      qed
      with g2 ih show ?thesis by (blast intro: grows_trans)
    qed
  qed
qed

theorem template_in_itself:
  assumes "reachable_dom t" and "holds_itself t i c" and "\<not> is_shadow_root t i" and "clone_node i True t = Some (r, t')"
  shows "\<not> fits t'"
proof
  assume fit: "fits t'"
  note ok = reachable_ok [OF assms(1)]
  obtain nd where nd: "node_at t i = Some nd" using assms(2) by (auto simp: holds_itself_def)
  obtain copy t1 where new: "new_node (nd_data nd) t = (copy, t1)" by fastforce
  obtain stack t2 where prep: "prepare_cloned_children i copy True [] (clone_control i copy t1) = (stack, t2)" by fastforce
  have l: "clone_loop stack t2 = Some t'" using assms(3,4) nd by (simp add: clone_node_def new prep)
  have fit2: "fits t2" using fit clone_loop_grows [OF l] by (auto simp: arena_grows_def fits_def)
  have "length (dm_nodes (clone_control i copy t1)) = length (dm_nodes t1)"
    by (simp add: clone_control_def update_form_control_state_def Let_def split: option.split)
  then have fit1: "fits t1" using fit2 grows_prepare [OF prep] by (auto simp: arena_grows_def fits_def)
  note n = holds_new [OF ok new fit1 assms(2)]
  note c = holds_control [OF n(1), of i copy]
  note r = holds_prepare [OF c(2) [OF n(3)] c(1) n(2) [symmetric] prep fit2]
  show False using clone_loop_runs_away [OF l] r(1,2,4) fit by blast
qed

text \<open>Such a tree is reachable: \<open>t.content.appendChild(t)\<close> on a fresh template.\<close>

definition selfish :: dom where
  "selfish = dom_new\<lparr>dm_nodes := [
     Some \<lparr>nd_id = 0, nd_connected = True, nd_parent = None, nd_first_child = None, nd_last_child = None,
           nd_prev_sibling = None, nd_next_sibling = None, nd_data = Document\<rparr>,
     Some \<lparr>nd_id = 1, nd_connected = False, nd_parent = Some 2, nd_first_child = None, nd_last_child = None,
           nd_prev_sibling = None, nd_next_sibling = None, nd_data = Element \<lparr>qn_prefix = None,
             qn_ns = ''http://www.w3.org/1999/xhtml'', qn_local = ''template''\<rparr> [] (Some 2) False\<rparr>,
     Some \<lparr>nd_id = 2, nd_connected = False, nd_parent = None, nd_first_child = Some 1, nd_last_child = Some 1,
           nd_prev_sibling = None, nd_next_sibling = None, nd_data = Document\<rparr>]\<rparr>"

lemma selfish_reachable: "reachable_dom selfish"
proof (rule dom_run_reachable [OF Fresh])
  show "dom_run [CreateNode (html_element ''template''), TemplateContents 1, AppendChild 2 1] dom_new = Some selfish"
    by (simp add: selfish_def dom_exec_def permitted_def fits_def template_contents_def template_field_def
        set_template_field_def is_element_def dom_eval)
qed

lemma selfish_never_cloned: "clone_node 1 True selfish = Some (r, t') \<longrightarrow> \<not> fits t'"
proof -
  have "holds_itself selfish 1 2"
    by (simp add: holds_itself_def selfish_def dom_new_def node_at_def slot_def template_field_def children_def first_of_def next_of_def)
  moreover have "\<not> is_shadow_root selfish 1" by (simp add: is_shadow_root_def selfish_def dom_new_def bm_has_def)
  ultimately show ?thesis using template_in_itself [OF selfish_reachable] by blast
qed

end
