(* ===== verification/Serialize.thy ===== *)
theory Serialize
  imports DomProps
begin

text \<open>
  \<open>crates/obscura-dom/src/serialize.rs\<close>: \<open>outer_html\<close> and \<open>inner_html\<close>, a worklist with a step cap. Where
  the cap is not reached the markup of a node is put together from the markup of its children, and
  escaped text cannot open or close a tag.
\<close>

section \<open>The serializer\<close>

fun escape_text :: "string \<Rightarrow> string" where
  "escape_text [] = []"
| "escape_text (c # cs) =
     (if c = CHR ''&'' then ''&amp;'' else if c = CHR ''<'' then ''&lt;''
      else if c = CHR ''>'' then ''&gt;'' else [c]) @ escape_text cs"

fun escape_attr :: "string \<Rightarrow> string" where
  "escape_attr [] = []"
| "escape_attr (c # cs) =
     (if c = CHR ''&'' then ''&amp;'' else if c = CHR 0x22 then ''&quot;'' else [c]) @ escape_attr cs"

fun escape_comment :: "string \<Rightarrow> string" where
  "escape_comment [] = []"
| "escape_comment (c # cs) = (if c = CHR ''>'' then ''&gt;'' else [c]) @ escape_comment cs"

definition void_elements :: "string list" where
  "void_elements = [''area'', ''base'', ''br'', ''col'', ''embed'', ''hr'', ''img'', ''input'', ''link'', ''meta'',
     ''param'', ''source'', ''track'', ''wbr'']"

definition is_void_element :: "string \<Rightarrow> bool" where
  "is_void_element tag \<longleftrightarrow> tag \<in> set void_elements"

definition is_raw_text_element :: "string \<Rightarrow> bool" where
  "is_raw_text_element tag \<longleftrightarrow> tag \<in> set [''script'', ''style'', ''textarea'', ''title'']"

datatype serialize_work = NodeWork node_id bool | CloseTag string

definition content_source :: "dom \<Rightarrow> node_id \<Rightarrow> node_id" where
  "content_source t i = (case Option.bind (node_at t i) template_field of Some contents \<Rightarrow> contents | None \<Rightarrow> i)"

text \<open>The pending work, the next item first.\<close>

definition child_work :: "dom \<Rightarrow> node_id \<Rightarrow> serialize_work list" where
  "child_work t i = map (\<lambda>c. NodeWork c True) (children t i)"

definition attr_markup :: "attribute \<Rightarrow> string" where
  "attr_markup a =
     '' '' @ (case qn_prefix (at_name a) of Some p \<Rightarrow> p @ '':'' | None \<Rightarrow> []) @ qn_local (at_name a)
     @ ''='' @ [CHR 0x22] @ escape_attr (at_value a) @ [CHR 0x22]"

definition open_tag :: "qual_name \<Rightarrow> attribute list \<Rightarrow> string" where
  "open_tag name attrs = ''<'' @ qn_local name @ concat (map attr_markup attrs) @ ''>''"

definition close_tag :: "string \<Rightarrow> string" where
  "close_tag tag = ''</'' @ tag @ ''>''"

definition text_markup :: "dom \<Rightarrow> node \<Rightarrow> string \<Rightarrow> string" where
  "text_markup t nd contents =
     (if (case Option.bind (Option.bind (nd_parent nd) (node_at t)) as_element of
            Some name \<Rightarrow> is_raw_text_element (qn_local name) | None \<Rightarrow> False)
      then contents else escape_text contents)"

text \<open>One turn of the loop: what it appends to the buffer and what it pushes.\<close>

definition serialize_step :: "dom \<Rightarrow> serialize_work \<Rightarrow> string \<times> serialize_work list" where
  "serialize_step t w =
     (case w of
        CloseTag tag \<Rightarrow> (close_tag tag, [])
      | NodeWork i include_self \<Rightarrow>
         (case node_at t i of
            None \<Rightarrow> ([], [])
          | Some nd \<Rightarrow>
             (case nd_data nd of
                Document \<Rightarrow> ([], child_work t i)
              | Doctype name _ _ \<Rightarrow> (''<!DOCTYPE '' @ name @ ''>'', [])
              | Element name attrs contents _ \<Rightarrow>
                  (if include_self then open_tag name attrs else [],
                   if is_void_element (qn_local name) then []
                   else child_work t (case contents of Some c \<Rightarrow> c | None \<Rightarrow> i)
                     @ (if include_self then [CloseTag (qn_local name)] else []))
              | Text contents \<Rightarrow> (text_markup t nd contents, [])
              | Comment contents \<Rightarrow> (''<!--'' @ escape_comment contents @ ''-->'', [])
              | ProcessingInstruction target data \<Rightarrow> (''<?'' @ target @ '' '' @ data @ ''>'', []))))"

fun serialize_loop :: "dom \<Rightarrow> nat \<Rightarrow> serialize_work list \<Rightarrow> string" where
  "serialize_loop t k [] = []"
| "serialize_loop t 0 (w # stack) = []"
| "serialize_loop t (Suc k) (w # stack) =
     fst (serialize_step t w) @ serialize_loop t k (snd (serialize_step t w) @ stack)"

definition serialize_worklist :: "dom \<Rightarrow> serialize_work list \<Rightarrow> string" where
  "serialize_worklist t stack =
     serialize_loop t (saturating_add usize_max (min usize_max (node_slot_count t * 2)) 16) stack"

definition outer_html :: "dom \<Rightarrow> node_id \<Rightarrow> string" where
  "outer_html t i = serialize_worklist t [NodeWork i True]"

definition inner_html :: "dom \<Rightarrow> node_id \<Rightarrow> string" where
  "inner_html t i = serialize_worklist t (child_work t (content_source t i))"

section \<open>Escaping\<close>

text \<open>Escaped text holds no angle bracket and escaped values no quote, and both can be read back.\<close>

fun unescape :: "string \<Rightarrow> string" where
  "unescape [] = []"
| "unescape (c # cs) =
     (if c \<noteq> CHR ''&'' then c # unescape cs
      else if take 4 cs = ''amp;'' then CHR ''&'' # unescape (drop 4 cs)
      else if take 3 cs = ''lt;'' then CHR ''<'' # unescape (drop 3 cs)
      else if take 3 cs = ''gt;'' then CHR ''>'' # unescape (drop 3 cs)
      else if take 5 cs = ''quot;'' then CHR 0x22 # unescape (drop 5 cs)
      else c # unescape cs)"

lemma unescape_text: "unescape (escape_text s) = s"
  by (induction s) auto

lemma unescape_attr: "unescape (escape_attr s) = s"
  by (induction s) auto

lemma escape_text_safe: "CHR ''<'' \<notin> set (escape_text s) \<and> CHR ''>'' \<notin> set (escape_text s)"
  by (induction s) auto

lemma escape_attr_safe: "CHR 0x22 \<notin> set (escape_attr s)"
  by (induction s) auto

lemma escape_comment_safe: "CHR ''>'' \<notin> set (escape_comment s)"
  by (induction s) auto

section \<open>The cap is not reached\<close>

text \<open>
  A size for every node, more than the sizes of the nodes whose markup is inside its own. The cap allows
  two steps for each of the nodes in the arena, and sixteen more.
\<close>

definition sized :: "dom \<Rightarrow> (node_id \<Rightarrow> nat) \<Rightarrow> bool" where
  "sized t sz \<longleftrightarrow> (\<forall>i. sum_list (map sz (children t (content_source t i))) < sz i \<and> sz i \<le> length (dm_nodes t) + 8)"

definition work_cost :: "(node_id \<Rightarrow> nat) \<Rightarrow> serialize_work \<Rightarrow> nat" where
  "work_cost sz w = (case w of NodeWork i _ \<Rightarrow> 2 * sz i | CloseTag _ \<Rightarrow> 1)"

lemma cost_children:
  "sum_list (map (work_cost sz) (child_work t i)) = 2 * sum_list (map sz (children t i))"
proof -
  have "sum_list (map (work_cost sz) (map (\<lambda>c. NodeWork c True) cs)) = 2 * sum_list (map sz cs)" for cs
    by (induction cs) (simp_all add: work_cost_def)
  then show ?thesis by (simp add: child_work_def)
qed

lemma template_of_element: "nd_data nd = Element name attrs contents flag \<Longrightarrow> template_field nd = contents"
  by (simp add: template_field_def)

lemma step_cost:
  assumes "sized t sz"
  shows "sum_list (map (work_cost sz) (snd (serialize_step t w))) < work_cost sz w"
proof (cases w)
  case (CloseTag tag)
  then show ?thesis by (simp add: serialize_step_def work_cost_def)
next
  case (NodeWork i b)
  have lt: "sum_list (map sz (children t (content_source t i))) < sz i" using assms by (simp add: sized_def)
  show ?thesis
  proof (cases "node_at t i")
    case None
    then show ?thesis using lt by (simp add: NodeWork serialize_step_def work_cost_def)
  next
    case (Some nd)
    show ?thesis
    proof (cases "nd_data nd")
      case Document
      then have "content_source t i = i" using Some by (simp add: content_source_def template_field_def)
      then show ?thesis using lt Some Document
        by (simp add: NodeWork serialize_step_def cost_children) (simp add: work_cost_def)
    next
      case (Element name attrs contents flag)
      have "content_source t i = (case contents of Some c \<Rightarrow> c | None \<Rightarrow> i)"
        using Some template_of_element [OF Element] by (simp add: content_source_def)
      then show ?thesis using lt Some Element
        by (simp add: NodeWork serialize_step_def cost_children) (simp add: work_cost_def)
    qed (use lt Some in \<open>simp_all add: NodeWork serialize_step_def work_cost_def\<close>)
  qed
qed

text \<open>With enough steps the markup of a stack is that of its items, one after the other.\<close>

definition markup :: "dom \<Rightarrow> (node_id \<Rightarrow> nat) \<Rightarrow> serialize_work \<Rightarrow> string" where
  "markup t sz w = serialize_loop t (work_cost sz w) [w]"

lemma serialize_enough:
  assumes s: "sized t sz"
  shows "sum_list (map (work_cost sz) stack) \<le> k \<Longrightarrow> serialize_loop t k stack = concat (map (markup t sz) stack)"
proof (induction k arbitrary: stack rule: less_induct)
  case (less k)
  show ?case
  proof (cases stack)
    case (Cons w rest)
    let ?c = "work_cost sz" and ?p = "snd (serialize_step t w)"
    have lt: "sum_list (map ?c ?p) < ?c w" by (rule step_cost [OF s])
    obtain k' where k': "k = Suc k'" using less.prems lt by (cases k) (auto simp: Cons)
    obtain c' where c': "?c w = Suc c'" using lt by (cases "?c w") auto
    have "serialize_loop t k' (?p @ rest) = concat (map (markup t sz) (?p @ rest))"
      by (rule less.IH) (use less.prems lt in \<open>simp_all add: Cons k'\<close>)
    moreover have "serialize_loop t c' ?p = concat (map (markup t sz) ?p)"
      by (rule less.IH) (use less.prems lt in \<open>simp_all add: Cons k' c'\<close>)
    ultimately show ?thesis by (simp add: Cons k' markup_def [of t sz w] c')
  qed simp
qed

lemma cap_suffices:
  assumes s: "sized t sz" and fit: "fits t" and c: "sum_list (map (work_cost sz) stack) \<le> 2 * length (dm_nodes t) + 16"
  shows "serialize_worklist t stack = concat (map (markup t sz) stack)"
  unfolding serialize_worklist_def
proof (rule serialize_enough [OF s])
  have "length (dm_nodes t) * 2 + 16 \<le> usize_max" using fit by (simp add: fits_def usize_max_def)
  then show "sum_list (map (work_cost sz) stack) \<le> saturating_add usize_max (min usize_max (node_slot_count t * 2)) 16"
    using c by (simp add: saturating_add_def node_slot_count_def)
qed

lemma outer_markup:
  assumes s: "sized t sz" and fit: "fits t"
  shows "outer_html t i = markup t sz (NodeWork i True)"
    and "concat (map (markup t sz) (child_work t j)) = concat (map (outer_html t) (children t j))"
proof -
  have bound: "sz i \<le> length (dm_nodes t) + 8" for i using s by (simp add: sized_def)
  have o: "outer_html t i = markup t sz (NodeWork i True)" for i
    unfolding outer_html_def using cap_suffices [OF s fit, of "[NodeWork i True]"] bound [of i] by (simp add: work_cost_def)
  show "outer_html t i = markup t sz (NodeWork i True)" by (rule o)
  show "concat (map (markup t sz) (child_work t j)) = concat (map (outer_html t) (children t j))"
    by (simp add: child_work_def o [symmetric] comp_def)
qed

lemma html_equations:
  assumes s: "sized t sz" and fit: "fits t"
  shows "inner_html t i = concat (map (outer_html t) (children t (content_source t i)))"
    and "outer_html t i =
      (case map_option nd_data (node_at t i) of
         None \<Rightarrow> []
       | Some Document \<Rightarrow> inner_html t i
       | Some (Doctype name _ _) \<Rightarrow> ''<!DOCTYPE '' @ name @ ''>''
       | Some (Element name attrs _ _) \<Rightarrow>
           open_tag name attrs
           @ (if is_void_element (qn_local name) then [] else inner_html t i @ close_tag (qn_local name))
       | Some (Text contents) \<Rightarrow> text_markup t (the (node_at t i)) contents
       | Some (Comment contents) \<Rightarrow> ''<!--'' @ escape_comment contents @ ''-->''
       | Some (ProcessingInstruction target data) \<Rightarrow> ''<?'' @ target @ '' '' @ data @ ''>'')"
proof -
  note m = outer_markup(2) [OF s fit]
  have bound: "sum_list (map sz (children t (content_source t i))) < sz i" "sz i \<le> length (dm_nodes t) + 8" for i
    using s by (simp_all add: sized_def)
  have inner: "inner_html t i = concat (map (outer_html t) (children t (content_source t i)))" for i
    unfolding inner_html_def m [symmetric]
    by (rule cap_suffices [OF s fit]) (use bound(1) [of i] bound(2) [of i] in \<open>simp add: cost_children\<close>)
  then show "inner_html t i = concat (map (outer_html t) (children t (content_source t i)))" .
  have turn: "outer_html t i = fst (serialize_step t (NodeWork i True)) @ concat (map (markup t sz) (snd (serialize_step t (NodeWork i True))))"
  proof -
    obtain k where k: "work_cost sz (NodeWork i True) = Suc k"
      using step_cost [OF s, of "NodeWork i True"] by (cases "work_cost sz (NodeWork i True)") auto
    have "serialize_loop t k (snd (serialize_step t (NodeWork i True))) = concat (map (markup t sz) (snd (serialize_step t (NodeWork i True))))"
      by (rule serialize_enough [OF s]) (use step_cost [OF s, of "NodeWork i True"] k in simp)
    then show ?thesis unfolding outer_markup(1) [OF s fit] markup_def k by simp
  qed
  have close: "markup t sz (CloseTag tag) = close_tag tag" for tag
    by (simp add: markup_def work_cost_def serialize_step_def)
  show "outer_html t i =
      (case map_option nd_data (node_at t i) of
         None \<Rightarrow> []
       | Some Document \<Rightarrow> inner_html t i
       | Some (Doctype name _ _) \<Rightarrow> ''<!DOCTYPE '' @ name @ ''>''
       | Some (Element name attrs _ _) \<Rightarrow>
           open_tag name attrs
           @ (if is_void_element (qn_local name) then [] else inner_html t i @ close_tag (qn_local name))
       | Some (Text contents) \<Rightarrow> text_markup t (the (node_at t i)) contents
       | Some (Comment contents) \<Rightarrow> ''<!--'' @ escape_comment contents @ ''-->''
       | Some (ProcessingInstruction target data) \<Rightarrow> ''<?'' @ target @ '' '' @ data @ ''>'')"
  proof (cases "node_at t i")
    case None
    then show ?thesis unfolding turn by (simp add: serialize_step_def)
  next
    case (Some nd)
    show ?thesis
    proof (cases "nd_data nd")
      case Document
      then have "content_source t i = i" using Some by (simp add: content_source_def template_field_def)
      then show ?thesis unfolding turn inner using Some Document by (simp add: serialize_step_def m)
    next
      case (Element name attrs contents flag)
      have "content_source t i = (case contents of Some c \<Rightarrow> c | None \<Rightarrow> i)"
        using Some template_of_element [OF Element] by (simp add: content_source_def)
      then show ?thesis unfolding turn inner using Some Element by (simp add: serialize_step_def m close)
    qed (unfold turn, simp_all add: Some serialize_step_def)
  qed
qed

text \<open>Without template contents the number of nodes of a subtree is such a size.\<close>

lemma sized_plain:
  assumes sh: "shape t kids" and plain: "\<And>i. content_source t i = i"
  shows "sized t (\<lambda>i. length (preorder kids (parent_of t) i))"
  unfolding sized_def
proof (intro allI conjI)
  fix i
  let ?f = "preorder kids (parent_of t)"
  have "length (?f i) = Suc (sum_list (map (\<lambda>c. length (?f c)) (kids i)))"
    using preorder_eq [OF forest_shape [OF sh], of i] by (simp add: length_concat comp_def)
  then show "sum_list (map (\<lambda>i. length (?f i)) (children t (content_source t i))) < length (?f i)"
    by (simp add: plain children_kids [OF shapeD(1) [OF sh]])
  show "length (?f i) \<le> length (dm_nodes t) + 8"
  proof (cases "alive t i")
    case True
    then show ?thesis using length_preorder [OF sh True] by simp
  next
    case False
    then show ?thesis
      using preorder_eq [OF forest_shape [OF sh], of i] kids_dead [OF shapeD(1) [OF sh] False] by simp
  qed
qed

lemma reachable_fits: "reachable_dom t \<Longrightarrow> fits t"
  by (induction rule: reachable_dom.induct) (auto simp: fits_def dom_new_def)

section \<open>The property\<close>

text \<open>
  C23. Serialization of a tree without template contents: no cap cuts it short, the inner markup of a node
  is the concatenation of the outer markup of its children in order, and the outer markup puts the tags
  of an element around it. Text, attribute values and comments are escaped so that they hold no \<open><\<close> or
  \<open>>\<close>, no quote and no \<open>>\<close> respectively, and unescaping gives text and values back.
\<close>

theorem markup_of_tree:
  assumes "reachable_dom t" and "\<forall>i. content_source t i = i"
  shows "inner_html t i = concat (map (outer_html t) (children t i))
    \<and> outer_html t i =
      (case map_option nd_data (node_at t i) of
         None \<Rightarrow> []
       | Some Document \<Rightarrow> inner_html t i
       | Some (Doctype name _ _) \<Rightarrow> ''<!DOCTYPE '' @ name @ ''>''
       | Some (Element name attrs _ _) \<Rightarrow>
           open_tag name attrs
           @ (if is_void_element (qn_local name) then [] else inner_html t i @ close_tag (qn_local name))
       | Some (Text contents) \<Rightarrow> text_markup t (the (node_at t i)) contents
       | Some (Comment contents) \<Rightarrow> ''<!--'' @ escape_comment contents @ ''-->''
       | Some (ProcessingInstruction target data) \<Rightarrow> ''<?'' @ target @ '' '' @ data @ ''>'')
    \<and> set (escape_text s) \<inter> {CHR ''<'', CHR ''>''} = {} \<and> CHR 0x22 \<notin> set (escape_attr s) \<and> CHR ''>'' \<notin> set (escape_comment s)
    \<and> unescape (escape_text s) = s \<and> unescape (escape_attr s) = s"
proof -
  have plain: "content_source t j = j" for j using assms(2) by simp
  note e = html_equations [OF sized_plain [OF reachable_shape [OF assms(1)] plain] reachable_fits [OF assms(1)], of i]
  have "set (escape_text s) \<inter> {CHR ''<'', CHR ''>''} = {}" using escape_text_safe [of s] by auto
  with e escape_attr_safe [of s] escape_comment_safe [of s] unescape_text [of s] unescape_attr [of s] show ?thesis
    unfolding plain by blast
qed

lemma markup_of_tree_witness: "inner_html page 1 = ''<p>hi</p><p></p>''"
proof -
  have plain: "\<forall>i. content_source page i = i"
    by (auto simp: content_source_def node_at_def slot_def page_def dom_new_def template_field_def html_element_def
        nth_Cons split: option.split nat.split)
  note m = markup_of_tree [OF page_reachable plain]
  have d: "map_option nd_data (node_at page 2) = Some (html_element ''p'')" "map_option nd_data (node_at page 4) = Some (html_element ''p'')"
    "map_option nd_data (node_at page 3) = Some (Text ''hi'')"
    by (simp_all add: page_def dom_new_def node_at_def slot_def eval_nat_numeral)
  have raw: "text_markup page (the (node_at page 3)) ''hi'' = ''hi''"
    by (simp add: text_markup_def page_def dom_new_def node_at_def slot_def as_element_def html_element_def is_raw_text_element_def eval_nat_numeral)
  have tags: "open_tag \<lparr>qn_prefix = None, qn_ns = ''http://www.w3.org/1999/xhtml'', qn_local = ''p''\<rparr> [] = ''<p>''"
    "close_tag ''p'' = ''</p>''" "\<not> is_void_element ''p''"
    by (simp_all add: open_tag_def close_tag_def is_void_element_def void_elements_def)
  have o3: "outer_html page 3 = ''hi''" using m [of 3] d(3) raw by simp
  have o2: "outer_html page 2 = ''<p>hi</p>''" using m [of 2] d(1) tags page_links(3) o3 by (simp add: html_element_def)
  have o4: "outer_html page 4 = ''<p></p>''" using m [of 4] d(2) tags page_links(5) by (simp add: html_element_def)
  show ?thesis using m [of 1] page_links(2) o2 o4 by simp
qed

end
