(* ===== verification/ImportMap.thy ===== *)
theory ImportMap
  imports Engine
begin

text \<open>
  \<open>crates/obscura-js/src/import_map.rs\<close>: import maps, their merging and the resolution of module
  specifiers. URLs are those of the crate \<open>url\<close>, the parameter \<open>u\<close>: parsing, joining, the serialized form
  and the scheme. The property is the one merging is written for: a specifier that a module has already
  resolved keeps its meaning, whatever import maps are added later.
\<close>

record 'u url_lib =
  ul_parse :: "string \<Rightarrow> string + 'u"
  ul_join :: "'u \<Rightarrow> string \<Rightarrow> string + 'u"
  ul_text :: "'u \<Rightarrow> string"
  ul_scheme :: "'u \<Rightarrow> string"

datatype map_error =
    BadBase string string
  | BadJson string
  | TopLevelNotObject
  | ImportsNotObject
  | ScopesNotObject
  | ScopeNotObject string
  | IntegrityNotObject
  | BlockedByEntry string
  | BlockedByPrefix string string
  | PrefixWithoutAddress string
  | PrefixUnresolvable string string string
  | BacktracksAbove string string
  | NotRemapped string

section \<open>Data\<close>

text \<open>The hash map of a specifier map is read by key only; it is kept in key order.\<close>

record 'u specifier_map =
  sm_entries :: "(string, 'u option) bmap"
  sm_prefixes :: "string list"

record resolved_module =
  rm_referrer :: string
  rm_specifier :: string
  rm_special :: bool

record 'u import_map =
  im_imports :: "'u specifier_map"
  im_scopes :: "(string \<times> 'u specifier_map) list"
  im_resolved :: "resolved_module list"

definition sm_default :: "'u specifier_map" where
  "sm_default = \<lparr>sm_entries = [], sm_prefixes = []\<rparr>"

definition im_default :: "'u import_map" where
  "im_default = \<lparr>im_imports = sm_default, im_scopes = [], im_resolved = []\<rparr>"

section \<open>Specifiers\<close>

definition ok_of :: "'e + 'a \<Rightarrow> 'a option" where
  "ok_of r = (case r of Inl _ \<Rightarrow> None | Inr v \<Rightarrow> Some v)"

definition resolve_url_like :: "'u url_lib \<Rightarrow> string \<Rightarrow> 'u \<Rightarrow> 'u option" where
  "resolve_url_like u specifier base =
     (if starts_with specifier ''/'' \<or> starts_with specifier ''./'' \<or> starts_with specifier ''../''
      then ok_of (ul_join u base specifier)
      else ok_of (ul_parse u specifier))"

definition normalize_key :: "'u url_lib \<Rightarrow> string \<Rightarrow> 'u \<Rightarrow> string option" where
  "normalize_key u key base =
     (if key = [] then None
      else Some (case resolve_url_like u key base of Some url \<Rightarrow> ul_text u url | None \<Rightarrow> key))"

definition scope_applies :: "string \<Rightarrow> string \<Rightarrow> bool" where
  "scope_applies scope_prefix referrer \<longleftrightarrow>
     scope_prefix = referrer \<or> ends_with scope_prefix ''/'' \<and> starts_with referrer scope_prefix"

definition is_special_url :: "'u url_lib \<Rightarrow> 'u \<Rightarrow> bool" where
  "is_special_url u url \<longleftrightarrow> ul_scheme u url \<in> set [''ftp'', ''file'', ''http'', ''https'', ''ws'', ''wss'']"

section \<open>Specifier maps\<close>

text \<open>A stable sort with the greatest key first.\<close>

definition sort_down :: "('a \<Rightarrow> 'k::linorder) \<Rightarrow> 'a list \<Rightarrow> 'a list" where
  "sort_down f xs = rev (sort_key f (rev xs))"

fun parse_entries :: "'u url_lib \<Rightarrow> 'u \<Rightarrow> (string \<times> json) list \<Rightarrow> 'u specifier_map \<Rightarrow> 'u specifier_map" where
  "parse_entries u base [] m = m"
| "parse_entries u base ((key, v) # rest) m =
     (case normalize_key u key base of
        None \<Rightarrow> parse_entries u base rest m
      | Some k \<Rightarrow>
         (let address = Option.bind (as_str v) (\<lambda>a. resolve_url_like u a base);
              address' = (case address of
                Some url \<Rightarrow> (if \<not> ends_with key ''/'' \<or> ends_with (ul_text u url) ''/'' then Some url else None)
              | None \<Rightarrow> None)
          in parse_entries u base rest
               (m\<lparr>sm_prefixes := (if ends_with k ''/'' then sm_prefixes m @ [k] else sm_prefixes m),
                  sm_entries := bm_insert k address' (sm_entries m)\<rparr>)))"

definition sm_parse :: "'u url_lib \<Rightarrow> (string \<times> json) list \<Rightarrow> 'u \<Rightarrow> 'u specifier_map" where
  "sm_parse u obj base =
     (let m = parse_entries u base obj sm_default in m\<lparr>sm_prefixes := sort_down (\<lambda>k. k) (sm_prefixes m)\<rparr>)"

fun merge_entries :: "(string \<times> 'u option) list \<Rightarrow> 'u specifier_map \<Rightarrow> 'u specifier_map" where
  "merge_entries [] m = m"
| "merge_entries ((key, address) # rest) m =
     merge_entries rest
       (if bm_has (sm_entries m) key then m
        else m\<lparr>sm_prefixes := (if ends_with key ''/'' then sm_prefixes m @ [key] else sm_prefixes m),
               sm_entries := bm_insert key address (sm_entries m)\<rparr>)"

definition sm_merge :: "'u specifier_map \<Rightarrow> 'u specifier_map \<Rightarrow> 'u specifier_map" where
  "sm_merge new_map m =
     (let m' = merge_entries (sm_entries new_map) m in m'\<lparr>sm_prefixes := sort_down (\<lambda>k. k) (sm_prefixes m')\<rparr>)"

definition remove_rules_affecting :: "string \<Rightarrow> bool \<Rightarrow> 'u specifier_map \<Rightarrow> 'u specifier_map" where
  "remove_rules_affecting resolved special m =
     (let es = bm_retain (\<lambda>key _. key \<noteq> resolved \<and> \<not> (special \<and> ends_with key ''/'' \<and> starts_with resolved key)) (sm_entries m)
      in m\<lparr>sm_entries := es, sm_prefixes := filter (bm_has es) (sm_prefixes m)\<rparr>)"

text \<open>The first prefix of the specifier decides, even when it blocks.\<close>

definition resolve_prefix :: "'u url_lib \<Rightarrow> 'u specifier_map \<Rightarrow> string \<Rightarrow> string \<Rightarrow> map_error + 'u option" where
  "resolve_prefix u m normalized key =
     (case bm_get (sm_entries m) key of
        None \<Rightarrow> Inl (PrefixWithoutAddress key)
      | Some None \<Rightarrow> Inl (BlockedByPrefix normalized key)
      | Some (Some address) \<Rightarrow>
         (case ul_join u address (drop (length key) normalized) of
            Inl e \<Rightarrow> Inl (PrefixUnresolvable normalized key e)
          | Inr resolved \<Rightarrow>
             (if \<not> starts_with (ul_text u resolved) (ul_text u address) then Inl (BacktracksAbove normalized key)
              else Inr (Some resolved))))"

definition resolve_match :: "'u url_lib \<Rightarrow> 'u specifier_map \<Rightarrow> string \<Rightarrow> 'u option \<Rightarrow> map_error + 'u option" where
  "resolve_match u m normalized as_url =
     (case bm_get (sm_entries m) normalized of
        Some (Some address) \<Rightarrow> Inr (Some address)
      | Some None \<Rightarrow> Inl (BlockedByEntry normalized)
      | None \<Rightarrow>
         (if (case as_url of Some url \<Rightarrow> \<not> is_special_url u url | None \<Rightarrow> False) then Inr None
          else case find (\<lambda>key. starts_with normalized key) (sm_prefixes m) of
            None \<Rightarrow> Inr None
          | Some key \<Rightarrow> resolve_prefix u m normalized key))"

section \<open>Import maps\<close>

text \<open>The scopes of a parsed map, in the order of the object.\<close>

fun parse_scopes :: "'u url_lib \<Rightarrow> 'u \<Rightarrow> (string \<times> json) list \<Rightarrow> map_error + (string \<times> 'u specifier_map) list" where
  "parse_scopes u base [] = Inr []"
| "parse_scopes u base ((scope_prefix, v) # rest) =
     (case ul_join u base scope_prefix of
        Inl _ \<Rightarrow> parse_scopes u base rest
      | Inr normalized \<Rightarrow>
         (case as_object v of
            None \<Rightarrow> Inl (ScopeNotObject scope_prefix)
          | Some obj \<Rightarrow>
             (case parse_scopes u base rest of
                Inl e \<Rightarrow> Inl e
              | Inr scopes \<Rightarrow> Inr ((ul_text u normalized, sm_parse u obj base) # scopes))))"

definition im_parse :: "'u url_lib \<Rightarrow> (string \<Rightarrow> string + json) \<Rightarrow> string \<Rightarrow> string \<Rightarrow> map_error + 'u import_map" where
  "im_parse u from_str input base_url =
     (case ul_parse u base_url of
        Inl e \<Rightarrow> Inl (BadBase base_url e)
      | Inr base \<Rightarrow>
         (case from_str input of
            Inl e \<Rightarrow> Inl (BadJson e)
          | Inr v \<Rightarrow>
             (case as_object v of
                None \<Rightarrow> Inl TopLevelNotObject
              | Some obj \<Rightarrow>
                 (case (case json_get v ''imports'' of
                          Some w \<Rightarrow> (case as_object w of Some o' \<Rightarrow> Inr (sm_parse u o' base) | None \<Rightarrow> Inl ImportsNotObject)
                        | None \<Rightarrow> Inr sm_default) of
                    Inl e \<Rightarrow> Inl e
                  | Inr imports \<Rightarrow>
                     (case (case json_get v ''scopes'' of
                              Some w \<Rightarrow> (case as_object w of
                                  Some o' \<Rightarrow> (case parse_scopes u base o' of Inl e \<Rightarrow> Inl e | Inr sc \<Rightarrow> Inr (sort_down fst sc))
                                | None \<Rightarrow> Inl ScopesNotObject)
                            | None \<Rightarrow> Inr []) of
                        Inl e \<Rightarrow> Inl e
                      | Inr scopes \<Rightarrow>
                         (case json_get v ''integrity'' of
                            Some w \<Rightarrow>
                              (if as_object w = None then Inl IntegrityNotObject
                               else Inr \<lparr>im_imports = imports, im_scopes = scopes, im_resolved = []\<rparr>)
                          | None \<Rightarrow> Inr \<lparr>im_imports = imports, im_scopes = scopes, im_resolved = []\<rparr>))))))"

text \<open>New rules that would change a remembered resolution are taken out first.\<close>

definition drop_affecting :: "resolved_module \<Rightarrow> 'u import_map \<Rightarrow> 'u import_map" where
  "drop_affecting r n =
     n\<lparr>im_imports := remove_rules_affecting (rm_specifier r) (rm_special r) (im_imports n),
       im_scopes := map (\<lambda>(p, m). (p, if scope_applies p (rm_referrer r)
                                     then remove_rules_affecting (rm_specifier r) (rm_special r) m else m)) (im_scopes n)\<rparr>"

fun merge_scope :: "string \<Rightarrow> 'u specifier_map \<Rightarrow> (string \<times> 'u specifier_map) list \<Rightarrow> (string \<times> 'u specifier_map) list" where
  "merge_scope p new_map [] = [(p, new_map)]"
| "merge_scope p new_map ((q, m) # rest) =
     (if q = p then (q, sm_merge new_map m) # rest else (q, m) # merge_scope p new_map rest)"

definition im_merge :: "'u import_map \<Rightarrow> 'u import_map \<Rightarrow> 'u import_map" where
  "im_merge new_map m =
     (let n = fold drop_affecting (im_resolved m) new_map
      in m\<lparr>im_imports := sm_merge (im_imports n) (im_imports m),
           im_scopes := sort_down fst (fold (\<lambda>(p, s). merge_scope p s) (im_scopes n) (im_scopes m))\<rparr>)"

definition remember_resolution :: "'u url_lib \<Rightarrow> string \<Rightarrow> string \<Rightarrow> 'u option \<Rightarrow> 'u import_map \<Rightarrow> 'u import_map" where
  "remember_resolution u referrer specifier as_url m =
     (let r = \<lparr>rm_referrer = referrer, rm_specifier = specifier,
               rm_special = (case as_url of Some url \<Rightarrow> is_special_url u url | None \<Rightarrow> True)\<rparr>
      in if r \<in> set (im_resolved m) then m else m\<lparr>im_resolved := im_resolved m @ [r]\<rparr>)"

text \<open>The first match among the maps that apply, in order.\<close>

fun first_match :: "'u url_lib \<Rightarrow> string \<Rightarrow> 'u option \<Rightarrow> 'u specifier_map list \<Rightarrow> map_error + 'u option" where
  "first_match u normalized as_url [] = Inr None"
| "first_match u normalized as_url (m # ms) =
     (case resolve_match u m normalized as_url of
        Inl e \<Rightarrow> Inl e
      | Inr (Some r) \<Rightarrow> Inr (Some r)
      | Inr None \<Rightarrow> first_match u normalized as_url ms)"

definition applying :: "string \<Rightarrow> 'u import_map \<Rightarrow> 'u specifier_map list" where
  "applying referrer m = map snd (filter (\<lambda>(p, _). scope_applies p referrer) (im_scopes m)) @ [im_imports m]"

definition im_resolve :: "'u url_lib \<Rightarrow> string \<Rightarrow> 'u \<Rightarrow> 'u import_map \<Rightarrow> (map_error + 'u) \<times> 'u import_map" where
  "im_resolve u specifier referrer m =
     (let as_url = resolve_url_like u specifier referrer;
          normalized = (case as_url of Some url \<Rightarrow> ul_text u url | None \<Rightarrow> specifier);
          from = ul_text u referrer
      in case first_match u normalized as_url (applying from m) of
           Inl e \<Rightarrow> (Inl e, m)
         | Inr (Some r) \<Rightarrow> (Inr r, remember_resolution u from normalized as_url m)
         | Inr None \<Rightarrow>
            (case as_url of
               Some r \<Rightarrow> (Inr r, remember_resolution u from normalized (Some r) m)
             | None \<Rightarrow> (Inl (NotRemapped specifier), m)))"

section \<open>Well-formed maps\<close>

definition sm_wf :: "'u specifier_map \<Rightarrow> bool" where
  "sm_wf m \<longleftrightarrow> sorted_wrt (\<ge>) (sm_prefixes m) \<and> (\<forall>k \<in> set (sm_prefixes m). bm_has (sm_entries m) k \<and> ends_with k ''/'')"

definition im_wf :: "'u import_map \<Rightarrow> bool" where
  "im_wf m \<longleftrightarrow> sm_wf (im_imports m) \<and> (\<forall>s \<in> set (im_scopes m). sm_wf (snd s))
     \<and> sorted_wrt (\<lambda>a b. fst b \<le> fst a) (im_scopes m)"

lemma set_sort_down [simp]: "set (sort_down f xs) = set xs"
  by (simp add: sort_down_def)

lemma sort_down_sorted: "sorted_wrt (\<lambda>a b. f b \<le> f a) (sort_down f xs)"
proof -
  have "sorted (map f (sort_key f (rev xs)))" by simp
  then show ?thesis by (simp add: sort_down_def sorted_wrt_rev sorted_map)
qed

lemma sort_down_id: "sorted_wrt (\<lambda>a b. f b \<le> f a) xs \<Longrightarrow> sort_down f xs = xs"
proof -
  assume "sorted_wrt (\<lambda>a b. f b \<le> f a) xs"
  then have "sorted (map f (rev xs))" by (simp add: sorted_map sorted_wrt_rev)
  then have "sort_key f (rev xs) = rev xs" by (rule sort_key_id_if_sorted)
  then show ?thesis by (simp add: sort_down_def)
qed

lemma filter_sort_down: "filter P (sort_down f xs) = sort_down f (filter P xs)"
  by (simp add: sort_down_def filter_sort rev_filter [symmetric])

lemma sm_wf_default: "sm_wf sm_default"
  by (simp add: sm_wf_def sm_default_def)

lemma im_wf_default: "im_wf im_default"
  by (simp add: im_wf_def im_default_def sm_wf_default)

text \<open>Before the final sort only the second half holds.\<close>

definition sm_keys_ok :: "'u specifier_map \<Rightarrow> bool" where
  "sm_keys_ok m \<longleftrightarrow> (\<forall>k \<in> set (sm_prefixes m). bm_has (sm_entries m) k \<and> ends_with k ''/'')"

lemma keys_ok_insert:
  assumes "sm_keys_ok m"
  shows "sm_keys_ok (m\<lparr>sm_prefixes := (if ends_with k ''/'' then sm_prefixes m @ [k] else sm_prefixes m),
    sm_entries := bm_insert k v (sm_entries m)\<rparr>)"
proof -
  have "bm_has (bm_insert k v (sm_entries m)) j \<and> ends_with j ''/''" if "j \<in> set (sm_prefixes m)" for j
    using assms that by (simp add: sm_keys_ok_def bm_has_insert)
  moreover have "bm_has (bm_insert k v (sm_entries m)) k" by (simp add: bm_has_insert)
  ultimately show ?thesis by (simp add: sm_keys_ok_def)
qed

lemma parse_entries_keys: "sm_keys_ok m \<Longrightarrow> sm_keys_ok (parse_entries u base obj m)"
proof (induction obj arbitrary: m)
  case (Cons kv rest)
  obtain key v where kv: "kv = (key, v)" by fastforce
  show ?case
  proof (cases "normalize_key u key base")
    case None
    then show ?thesis using Cons by (simp add: kv)
  next
    case (Some k)
    show ?thesis
      using Cons.IH [OF keys_ok_insert [OF Cons.prems, of k]] by (simp add: kv Some Let_def del: if_split)
  qed
qed simp

lemma sorted_keys_wf: "sm_keys_ok m \<Longrightarrow> sm_wf (m\<lparr>sm_prefixes := sort_down (\<lambda>k. k) (sm_prefixes m)\<rparr>)"
  using sort_down_sorted [of "\<lambda>k. k" "sm_prefixes m"] by (simp add: sm_wf_def sm_keys_ok_def)

lemma sm_parse_wf: "sm_wf (sm_parse u obj base)"
proof -
  have "sm_keys_ok sm_default" by (simp add: sm_keys_ok_def sm_default_def)
  then show ?thesis unfolding sm_parse_def Let_def by (intro sorted_keys_wf parse_entries_keys)
qed

lemma merge_entries_keys: "sm_keys_ok m \<Longrightarrow> sm_keys_ok (merge_entries es m)"
proof (induction es arbitrary: m)
  case (Cons kv rest)
  obtain key v where kv: "kv = (key, v)" by fastforce
  show ?case
    using Cons.IH [OF Cons.prems] Cons.IH [OF keys_ok_insert [OF Cons.prems, of key v]]
    by (cases "bm_has (sm_entries m) key") (simp_all add: kv del: if_split)
qed simp

lemma sm_merge_wf: "sm_wf m \<Longrightarrow> sm_wf (sm_merge n m)"
  unfolding sm_merge_def Let_def
  by (intro sorted_keys_wf merge_entries_keys) (simp add: sm_keys_ok_def sm_wf_def)

lemma retain_key: "bm_has (bm_retain (\<lambda>k _. P k) m) k \<longleftrightarrow> P k \<and> bm_has m k"
  by (simp add: bm_has_def bm_get_retain_key)

lemma remove_rules_wf: "sm_wf m \<Longrightarrow> sm_wf (remove_rules_affecting resolved special m)"
  by (auto simp: sm_wf_def remove_rules_affecting_def Let_def intro: sorted_wrt_filter)

lemma parse_scopes_wf: "parse_scopes u base obj = Inr scopes \<Longrightarrow> s \<in> set scopes \<Longrightarrow> sm_wf (snd s)"
  by (induction u base obj arbitrary: scopes rule: parse_scopes.induct)
    (auto simp: sm_parse_wf split: sum.splits option.splits)

lemma im_parse_wf:
  assumes "im_parse u from_str input base_url = Inr m"
  shows "im_wf m \<and> im_resolved m = []"
  using assms sort_down_sorted [of fst]
  by (auto simp: im_parse_def im_wf_def sm_wf_default sm_parse_wf split: sum.splits option.splits if_splits
      dest: parse_scopes_wf)

section \<open>Rules that cannot change a resolution\<close>

definition clean :: "string \<Rightarrow> bool \<Rightarrow> 'u specifier_map \<Rightarrow> bool" where
  "clean resolved special m \<longleftrightarrow>
     (\<forall>k. bm_has (sm_entries m) k \<longrightarrow> k \<noteq> resolved \<and> \<not> (special \<and> ends_with k ''/'' \<and> starts_with resolved k))"

lemma remove_rules_clean: "clean resolved special (remove_rules_affecting resolved special m)"
  by (simp add: clean_def remove_rules_affecting_def Let_def retain_key)

lemma remove_rules_keeps_clean: "clean r s m \<Longrightarrow> clean r s (remove_rules_affecting resolved special m)"
  by (simp add: clean_def remove_rules_affecting_def Let_def retain_key)

text \<open>Which of the two rules of \<open>resolve_match\<close> applies is the flag that is remembered.\<close>

definition special_flag :: "'u url_lib \<Rightarrow> 'u option \<Rightarrow> bool" where
  "special_flag u as_url = (case as_url of Some url \<Rightarrow> is_special_url u url | None \<Rightarrow> True)"

lemma resolve_match_flag:
  "resolve_match u m normalized as_url =
     (case bm_get (sm_entries m) normalized of
        Some (Some address) \<Rightarrow> Inr (Some address)
      | Some None \<Rightarrow> Inl (BlockedByEntry normalized)
      | None \<Rightarrow>
         (if \<not> special_flag u as_url then Inr None
          else case find (\<lambda>key. starts_with normalized key) (sm_prefixes m) of
            None \<Rightarrow> Inr None
          | Some key \<Rightarrow> resolve_prefix u m normalized key))"
  by (simp add: resolve_match_def special_flag_def split: option.split)

lemma find_filter: "find P xs = (case filter P xs of [] \<Rightarrow> None | x # _ \<Rightarrow> Some x)"
  by (induction xs) auto

lemma clean_no_match:
  assumes wf: "sm_wf m" and c: "clean normalized (special_flag u as_url) m"
  shows "resolve_match u m normalized as_url = Inr None"
proof -
  have "bm_get (sm_entries m) normalized = None" using c by (auto simp: clean_def bm_has_def)
  moreover have "find (\<lambda>key. starts_with normalized key) (sm_prefixes m) = None" if "special_flag u as_url"
    using wf c that by (auto simp: find_None_iff sm_wf_def clean_def)
  ultimately show ?thesis by (simp add: resolve_match_flag)
qed

lemma merge_entries_get:
  "bm_get (sm_entries (merge_entries es m)) k =
     (case bm_get (sm_entries m) k of Some v \<Rightarrow> Some v | None \<Rightarrow> map_of es k)"
  by (induction es m rule: merge_entries.induct) (auto simp: bm_get_insert bm_has_def split: option.splits)

lemma merge_entries_prefixes:
  "\<exists>ks. sm_prefixes (merge_entries es m) = sm_prefixes m @ ks \<and> set ks \<subseteq> fst ` set es \<and> (\<forall>k \<in> set ks. ends_with k ''/'')"
proof (induction es m rule: merge_entries.induct)
  case (2 key address rest m)
  then show ?case
    by (cases "bm_has (sm_entries m) key"; cases "ends_with key ''/''") fastforce+
qed simp

lemma sm_merge_match:
  assumes wf: "sm_wf m" and c: "clean normalized (special_flag u as_url) n"
  shows "resolve_match u (sm_merge n m) normalized as_url = resolve_match u m normalized as_url"
proof -
  let ?P = "\<lambda>key. starts_with normalized key"
  have none: "bm_get (sm_entries n) normalized = None" using c by (auto simp: clean_def bm_has_def)
  have get: "bm_get (sm_entries (sm_merge n m)) k = (case bm_get (sm_entries m) k of Some v \<Rightarrow> Some v | None \<Rightarrow> bm_get (sm_entries n) k)" for k
    by (simp add: sm_merge_def Let_def merge_entries_get bm_get_def [of "sm_entries n"] split: option.split)
  have here: "bm_get (sm_entries (sm_merge n m)) normalized = bm_get (sm_entries m) normalized"
    using none by (simp add: get split: option.split)
  have find: "find ?P (sm_prefixes (sm_merge n m)) = find ?P (sm_prefixes m)" if "special_flag u as_url"
  proof -
    obtain ks where ks: "sm_prefixes (merge_entries (sm_entries n) m) = sm_prefixes m @ ks" "set ks \<subseteq> fst ` set (sm_entries n)"
      "\<forall>k \<in> set ks. ends_with k ''/''" using merge_entries_prefixes by blast
    have "\<not> starts_with normalized k" if "k \<in> set ks" for k
    proof -
      have "bm_has (sm_entries n) k" using ks(2) that bm_get_None [of "sm_entries n" k] by (auto simp: bm_has_def)
      then show ?thesis using c ks(3) that \<open>special_flag u as_url\<close> by (auto simp: clean_def)
    qed
    then have "filter ?P ks = []" by simp
    moreover have "sorted_wrt (\<ge>) (filter ?P (sm_prefixes m))" using wf by (simp add: sm_wf_def sorted_wrt_filter)
    ultimately have "filter ?P (sm_prefixes (sm_merge n m)) = filter ?P (sm_prefixes m)"
      by (simp add: sm_merge_def Let_def ks(1) filter_sort_down sort_down_id)
    then show ?thesis by (simp only: find_filter)
  qed
  have pre: "resolve_prefix u (sm_merge n m) normalized k = resolve_prefix u m normalized k" if "find ?P (sm_prefixes m) = Some k" for k
  proof -
    have "k \<in> set (sm_prefixes m)" using that by (auto simp: find_Some_iff)
    then obtain v where "bm_get (sm_entries m) k = Some v" using wf by (auto simp: sm_wf_def bm_has_def)
    then show ?thesis by (simp add: resolve_prefix_def get)
  qed
  show ?thesis unfolding resolve_match_flag here using find pre by (auto split: option.split)
qed

section \<open>Scopes\<close>

text \<open>What the scopes that apply to a referrer contribute to one resolution.\<close>

definition offers :: "'u url_lib \<Rightarrow> string \<Rightarrow> 'u option \<Rightarrow> string \<Rightarrow> (string \<times> 'u specifier_map) list
    \<Rightarrow> (string \<times> (map_error + 'u option)) list" where
  "offers u normalized as_url from scopes =
     filter (\<lambda>(p, r). scope_applies p from \<and> r \<noteq> Inr None) (map (\<lambda>(p, m). (p, resolve_match u m normalized as_url)) scopes)"

fun first_offer :: "(map_error + 'u option) list \<Rightarrow> map_error + 'u option" where
  "first_offer [] = Inr None"
| "first_offer (r # rs) = (if r = Inr None then first_offer rs else r)"

lemma first_match_offer: "first_match u normalized as_url ms = first_offer (map (\<lambda>m. resolve_match u m normalized as_url) ms)"
  by (induction ms) (auto split: sum.split option.split)

lemma first_offer_append: "first_offer (xs @ ys) = (if first_offer xs = Inr None then first_offer ys else first_offer xs)"
  by (induction xs) auto

lemma first_offer_filter: "first_offer (filter (\<lambda>r. r \<noteq> Inr None) rs) = first_offer rs"
  by (induction rs) auto

lemma applying_offers:
  "first_match u normalized as_url (applying from m) =
     first_offer (map snd (offers u normalized as_url from (im_scopes m)) @ [resolve_match u (im_imports m) normalized as_url])"
proof -
  have "map snd (offers u normalized as_url from scopes) = filter (\<lambda>r. r \<noteq> Inr None)
      (map (\<lambda>m. resolve_match u m normalized as_url) (map snd (filter (\<lambda>(p, _). scope_applies p from) scopes)))" for scopes
    by (induction scopes) (auto simp: offers_def)
  then show ?thesis by (simp add: first_match_offer applying_def first_offer_append first_offer_filter)
qed

lemma offers_Cons: "offers u nm as from ((p, m) # scopes) =
    (if scope_applies p from \<and> resolve_match u m nm as \<noteq> Inr None then [(p, resolve_match u m nm as)] else []) @ offers u nm as from scopes"
  by (simp add: offers_def)

definition scopes_wf :: "(string \<times> 'u specifier_map) list \<Rightarrow> bool" where
  "scopes_wf scopes \<longleftrightarrow> (\<forall>s \<in> set scopes. sm_wf (snd s))"

lemma merge_scope_offers:
  assumes "scopes_wf scopes" and "sm_wf n" and c: "scope_applies p from \<Longrightarrow> clean nm (special_flag u as) n"
  shows "offers u nm as from (merge_scope p n scopes) = offers u nm as from scopes" "scopes_wf (merge_scope p n scopes)"
  using assms(1)
proof (induction scopes)
  case Nil
  { case 1 show ?case using clean_no_match [OF assms(2) c] by (simp add: offers_def)
  next case 2 show ?case using assms(2) by (simp add: scopes_wf_def) }
next
  case (Cons s scopes)
  obtain q m where s: "s = (q, m)" by fastforce
  {
    case 1
    then have "sm_wf m" "scopes_wf scopes" by (simp_all add: scopes_wf_def s)
    then show ?case using Cons.IH(1) sm_merge_match [OF _ c, of m] by (cases "q = p"; cases "scope_applies p from") (simp_all add: s offers_Cons)
  next
    case 2
    then have "sm_wf m" "scopes_wf scopes" by (simp_all add: scopes_wf_def s)
    then show ?case using Cons.IH(2) sm_merge_wf [of m n] by (auto simp: scopes_wf_def s)
  }
qed

lemma fold_merge_offers:
  "scopes_wf scopes \<Longrightarrow> \<forall>(p, n) \<in> set new_scopes. sm_wf n \<and> (scope_applies p from \<longrightarrow> clean nm (special_flag u as) n) \<Longrightarrow>
    offers u nm as from (fold (\<lambda>(p, s). merge_scope p s) new_scopes scopes) = offers u nm as from scopes
    \<and> scopes_wf (fold (\<lambda>(p, s). merge_scope p s) new_scopes scopes)"
proof (induction new_scopes arbitrary: scopes)
  case (Cons s new_scopes)
  obtain p n where s: "s = (p, n)" by fastforce
  have c: "sm_wf n" "scope_applies p from \<Longrightarrow> clean nm (special_flag u as) n" using Cons.prems(2) s by auto
  note m = merge_scope_offers [OF Cons.prems(1) c]
  have "\<forall>(p, n) \<in> set new_scopes. sm_wf n \<and> (scope_applies p from \<longrightarrow> clean nm (special_flag u as) n)"
    using Cons.prems(2) by simp
  from Cons.IH [OF m(2) this] show ?case by (simp add: s m(1))
qed simp

text \<open>Sorting again moves no offer.\<close>

lemma offers_sort:
  assumes same: "offers u nm as from scopes' = offers u nm as from scopes" and sorted: "sorted_wrt (\<lambda>a b. fst b \<le> fst a) scopes"
  shows "offers u nm as from (sort_down fst scopes') = offers u nm as from scopes"
proof -
  let ?Q = "\<lambda>(p, m). scope_applies p from \<and> resolve_match u m nm as \<noteq> Inr None"
  let ?g = "\<lambda>(p, m). (p, resolve_match u m nm as)"
  have o: "offers u nm as from xs = map ?g (filter ?Q xs)" for xs
    unfolding offers_def filter_map by (rule arg_cong [of _ _ "map ?g"], rule filter_cong) (auto simp: comp_def)
  have "map fst (filter ?Q scopes') = map fst (offers u nm as from scopes')" by (simp add: o comp_def case_prod_beta)
  also have "\<dots> = map fst (filter ?Q scopes)" by (simp add: same, simp add: o comp_def case_prod_beta)
  finally have fst: "map fst (filter ?Q scopes') = map fst (filter ?Q scopes)" .
  have "sorted_wrt (\<lambda>a b. fst b \<le> fst a) (filter ?Q scopes)" by (rule sorted_wrt_filter [OF sorted])
  then have "sorted_wrt (\<ge>) (map fst (filter ?Q scopes))" by (simp add: sorted_wrt_map)
  then have "sorted_wrt (\<lambda>a b. fst b \<le> fst a) (filter ?Q scopes')" unfolding fst [symmetric] by (simp add: sorted_wrt_map)
  then have "filter ?Q (sort_down fst scopes') = filter ?Q scopes'" by (simp add: filter_sort_down sort_down_id)
  then show ?thesis using same by (simp only: o)
qed

section \<open>Merging keeps resolutions\<close>

definition remembered :: "'u url_lib \<Rightarrow> string \<Rightarrow> 'u \<Rightarrow> 'u import_map \<Rightarrow> bool" where
  "remembered u specifier referrer m \<longleftrightarrow>
     (let as_url = resolve_url_like u specifier referrer
      in \<lparr>rm_referrer = ul_text u referrer,
          rm_specifier = (case as_url of Some url \<Rightarrow> ul_text u url | None \<Rightarrow> specifier),
          rm_special = special_flag u as_url\<rparr> \<in> set (im_resolved m))"

lemma drop_wf: "sm_wf (im_imports n) \<Longrightarrow> sm_wf (im_imports (drop_affecting r n))"
  "scopes_wf (im_scopes n) \<Longrightarrow> scopes_wf (im_scopes (drop_affecting r n))"
  by (auto simp: drop_affecting_def scopes_wf_def remove_rules_wf)

lemma fold_drop_wf: "sm_wf (im_imports n) \<Longrightarrow> scopes_wf (im_scopes n) \<Longrightarrow>
    sm_wf (im_imports (fold drop_affecting rs n)) \<and> scopes_wf (im_scopes (fold drop_affecting rs n))"
  by (induction rs arbitrary: n) (simp_all add: drop_wf)

lemma im_wf_parts: "im_wf n \<Longrightarrow> sm_wf (im_imports n)" "im_wf n \<Longrightarrow> scopes_wf (im_scopes n)"
  "im_wf n \<Longrightarrow> sorted_wrt (\<lambda>a b. fst b \<le> fst a) (im_scopes n)"
  by (simp_all add: im_wf_def scopes_wf_def)

text \<open>After the rules affecting a record are dropped, every map that applies is clean for it.\<close>

definition clean_for :: "resolved_module \<Rightarrow> 'u import_map \<Rightarrow> bool" where
  "clean_for r n \<longleftrightarrow> clean (rm_specifier r) (rm_special r) (im_imports n)
     \<and> (\<forall>(p, m) \<in> set (im_scopes n). scope_applies p (rm_referrer r) \<longrightarrow> clean (rm_specifier r) (rm_special r) m)"

lemma drop_clean: "clean_for r (drop_affecting r n)"
  by (auto simp: clean_for_def drop_affecting_def remove_rules_clean)

lemma drop_keeps_clean:
  assumes "clean_for r n"
  shows "clean_for r (drop_affecting r' n)"
proof -
  have "clean (rm_specifier r) (rm_special r) m'"
    if m': "(p, m') \<in> set (im_scopes (drop_affecting r' n))" "scope_applies p (rm_referrer r)" for p m'
  proof -
    from m'(1) obtain m where m: "(p, m) \<in> set (im_scopes n)"
      "m' = (if scope_applies p (rm_referrer r') then remove_rules_affecting (rm_specifier r') (rm_special r') m else m)"
      by (auto simp: drop_affecting_def)
    then have "clean (rm_specifier r) (rm_special r) m" using assms m'(2) by (auto simp: clean_for_def)
    then show ?thesis by (simp add: m(2) remove_rules_keeps_clean)
  qed
  moreover have "clean (rm_specifier r) (rm_special r) (im_imports (drop_affecting r' n))"
    using assms by (simp add: clean_for_def drop_affecting_def remove_rules_keeps_clean)
  ultimately show ?thesis by (auto simp: clean_for_def)
qed

lemma fold_drop_keeps_clean: "clean_for r n \<Longrightarrow> clean_for r (fold drop_affecting rs n)"
  by (induction rs arbitrary: n) (simp_all add: drop_keeps_clean)

lemma fold_drop_clean: "r \<in> set rs \<Longrightarrow> clean_for r (fold drop_affecting rs n)"
  by (induction rs arbitrary: n) (auto intro: fold_drop_keeps_clean drop_clean)

lemma merge_scope_wf: "scopes_wf scopes \<Longrightarrow> sm_wf n \<Longrightarrow> scopes_wf (merge_scope p n scopes)"
  by (induction p n scopes rule: merge_scope.induct) (simp_all add: scopes_wf_def sm_merge_wf)

lemma merge_scopes_wf: "scopes_wf scopes \<Longrightarrow> \<forall>s \<in> set new_scopes. sm_wf (snd s) \<Longrightarrow>
    scopes_wf (fold (\<lambda>(p, s). merge_scope p s) new_scopes scopes)"
  by (induction new_scopes arbitrary: scopes) (simp_all add: case_prod_beta merge_scope_wf)

lemma im_merge_wf:
  assumes m: "im_wf m" and n: "im_wf n"
  shows "im_wf (im_merge n m)"
proof -
  let ?n = "fold drop_affecting (im_resolved m) n"
  have w: "sm_wf (im_imports ?n)" "scopes_wf (im_scopes ?n)" using fold_drop_wf [OF im_wf_parts(1) [OF n] im_wf_parts(2) [OF n]] by blast+
  have f: "scopes_wf (fold (\<lambda>(p, s). merge_scope p s) (im_scopes ?n) (im_scopes m))"
    by (rule merge_scopes_wf [OF im_wf_parts(2) [OF m] w(2) [unfolded scopes_wf_def]])
  have "im_imports (im_merge n m) = sm_merge (im_imports ?n) (im_imports m)"
    "im_scopes (im_merge n m) = sort_down fst (fold (\<lambda>(p, s). merge_scope p s) (im_scopes ?n) (im_scopes m))"
    by (simp_all add: im_merge_def Let_def)
  with f sm_merge_wf [OF im_wf_parts(1) [OF m]] show ?thesis
    by (simp add: im_wf_def scopes_wf_def sort_down_sorted)
qed

lemma merge_same:
  assumes m: "im_wf m" and n: "im_wf n" and r: "remembered u specifier referrer m"
  shows "fst (im_resolve u specifier referrer (im_merge n m)) = fst (im_resolve u specifier referrer m)"
proof -
  let ?as = "resolve_url_like u specifier referrer" and ?from = "ul_text u referrer"
  let ?nm = "case ?as of Some url \<Rightarrow> ul_text u url | None \<Rightarrow> specifier"
  let ?n = "fold drop_affecting (im_resolved m) n"
  have w: "sm_wf (im_imports ?n)" "scopes_wf (im_scopes ?n)" using fold_drop_wf [OF im_wf_parts(1) [OF n] im_wf_parts(2) [OF n]] by blast+
  have c: "clean_for \<lparr>rm_referrer = ?from, rm_specifier = ?nm, rm_special = special_flag u ?as\<rparr> ?n"
    by (rule fold_drop_clean) (use r in \<open>simp add: remembered_def Let_def\<close>)
  note mw = im_wf_parts [OF m]
  have i: "resolve_match u (im_imports (im_merge n m)) ?nm ?as = resolve_match u (im_imports m) ?nm ?as"
    using sm_merge_match [OF mw(1), of ?nm u ?as "im_imports ?n"] c by (simp add: im_merge_def Let_def clean_for_def)
  have a: "\<forall>(p, x) \<in> set (im_scopes ?n). sm_wf x \<and> (scope_applies p ?from \<longrightarrow> clean ?nm (special_flag u ?as) x)"
    using c w(2) by (auto simp: clean_for_def scopes_wf_def)
  from offers_sort [OF conjunct1 [OF fold_merge_offers [OF mw(2) a]] mw(3)]
  have s: "offers u ?nm ?as ?from (im_scopes (im_merge n m)) = offers u ?nm ?as ?from (im_scopes m)"
    by (simp add: im_merge_def Let_def)
  have "first_match u ?nm ?as (applying ?from (im_merge n m)) = first_match u ?nm ?as (applying ?from m)"
    by (simp only: applying_offers i s)
  then show ?thesis by (simp add: im_resolve_def Let_def split: sum.split option.split)
qed

section \<open>Runs\<close>

text \<open>What a page does with its import map: adding the map of a script element, and resolving.\<close>

datatype 'u map_event =
    AddMap string string
  | Resolve string 'u

definition im_step :: "'u url_lib \<Rightarrow> (string \<Rightarrow> string + json) \<Rightarrow> 'u map_event \<Rightarrow> 'u import_map \<Rightarrow> 'u import_map" where
  "im_step u from_str e m =
     (case e of
        AddMap input base_url \<Rightarrow> (case im_parse u from_str input base_url of Inl _ \<Rightarrow> m | Inr n \<Rightarrow> im_merge n m)
      | Resolve specifier referrer \<Rightarrow> snd (im_resolve u specifier referrer m))"

lemma remember_simps [simp]:
  "im_imports (remember_resolution u ref sp as_url m) = im_imports m"
  "im_scopes (remember_resolution u ref sp as_url m) = im_scopes m"
  by (simp_all add: remember_resolution_def Let_def)

lemma remember_keeps: "set (im_resolved m) \<subseteq> set (im_resolved (remember_resolution u ref sp as_url m))"
  by (auto simp: remember_resolution_def Let_def)

lemma im_resolve_same:
  "im_imports (snd (im_resolve u specifier referrer m)) = im_imports m"
  "im_scopes (snd (im_resolve u specifier referrer m)) = im_scopes m"
  "set (im_resolved m) \<subseteq> set (im_resolved (snd (im_resolve u specifier referrer m)))"
  using remember_keeps [of m u] by (auto simp: im_resolve_def Let_def split: sum.split option.split)

lemma im_resolve_cong:
  "im_imports m = im_imports m' \<Longrightarrow> im_scopes m = im_scopes m' \<Longrightarrow>
    fst (im_resolve u specifier referrer m) = fst (im_resolve u specifier referrer m')"
  by (simp add: im_resolve_def applying_def Let_def split: sum.split option.split)

lemma im_resolve_remembers:
  "im_resolve u specifier referrer m = (Inr r, m') \<Longrightarrow> remembered u specifier referrer m'"
  by (auto simp: im_resolve_def remembered_def remember_resolution_def special_flag_def Let_def
      split: sum.splits option.splits if_splits)

lemma im_step_wf:
  assumes "im_wf m"
  shows "im_wf (im_step u from_str e m)"
proof (cases e)
  case (AddMap input base_url)
  then show ?thesis
    using assms im_merge_wf [OF assms] im_parse_wf [of u from_str input base_url] by (simp add: im_step_def split: sum.split)
next
  case (Resolve s r)
  then show ?thesis using assms by (simp add: im_step_def im_wf_def im_resolve_same(1,2))
qed

lemma im_run_wf: "im_wf m \<Longrightarrow> im_wf (fold (im_step u from_str) es m)"
  by (induction es arbitrary: m) (simp_all add: im_step_wf)

lemma im_merge_resolved [simp]: "im_resolved (im_merge n m) = im_resolved m"
  by (simp add: im_merge_def Let_def)

lemma im_step_remembered: "remembered u sp ref m \<Longrightarrow> remembered u sp ref (im_step u from_str e m)"
  using im_resolve_same(3) [of m u]
  by (auto simp: im_step_def remembered_def Let_def split: map_event.split sum.split)

lemma im_step_same:
  assumes "im_wf m" and "remembered u sp ref m"
  shows "fst (im_resolve u sp ref (im_step u from_str e m)) = fst (im_resolve u sp ref m)"
proof (cases e)
  case (AddMap input base_url)
  then show ?thesis
    using merge_same [OF assms(1) _ assms(2)] im_parse_wf [of u from_str input base_url]
    by (auto simp: im_step_def split: sum.split)
next
  case (Resolve s r)
  then show ?thesis by (simp add: im_step_def im_resolve_cong [OF im_resolve_same(1,2)])
qed

lemma im_run_same:
  "im_wf m \<Longrightarrow> remembered u sp ref m \<Longrightarrow>
    fst (im_resolve u sp ref (fold (im_step u from_str) es m)) = fst (im_resolve u sp ref m)"
  by (induction es arbitrary: m) (simp_all add: im_step_wf im_step_remembered im_step_same)

text \<open>
  C12. A specifier that a module has resolved keeps its meaning: whatever import maps are added and
  whatever else is resolved afterwards, resolving it again for the same module gives the same URL.
\<close>

theorem resolution_kept:
  assumes "im_resolve u specifier referrer (fold (im_step u from_str) es im_default) = (Inr r, m)"
  shows "fst (im_resolve u specifier referrer (fold (im_step u from_str) fs m)) = Inr r"
proof -
  let ?m = "fold (im_step u from_str) es im_default"
  have "im_wf ?m" by (rule im_run_wf [OF im_wf_default])
  moreover have same: "im_imports m = im_imports ?m" "im_scopes m = im_scopes ?m"
    using im_resolve_same(1,2) [of u specifier referrer ?m] assms by simp_all
  ultimately have "im_wf m" by (simp add: im_wf_def)
  from im_run_same [OF this im_resolve_remembers [OF assms]]
  have "fst (im_resolve u specifier referrer (fold (im_step u from_str) fs m)) = fst (im_resolve u specifier referrer m)" .
  also have "\<dots> = fst (im_resolve u specifier referrer ?m)" by (rule im_resolve_cong [OF same])
  finally show ?thesis using assms by simp
qed

definition flat_lib :: "string url_lib" where
  "flat_lib = \<lparr>ul_parse = (\<lambda>s. if starts_with s ''h:'' then Inr s else Inl ''relative''),
     ul_join = (\<lambda>base s. Inr (if starts_with s ''h:'' then s else base @ s)), ul_text = (\<lambda>s. s),
     ul_scheme = (\<lambda>_. ''http'')\<rparr>"

definition two_maps :: "string \<Rightarrow> string + json" where
  "two_maps s =
     (if s = ''1'' then Inr (JObj [(''imports'', JObj [(''a'', JStr ''h:x'')])])
      else Inr (JObj [(''scopes'', JObj [(''h:r'', JObj [(''a'', JStr ''h:y''), (''b'', JStr ''h:z'')])])]))"

theorem resolution_kept_witness:
  "let m = snd (im_resolve flat_lib ''a'' ''h:r'' (fold (im_step flat_lib two_maps) [AddMap ''1'' ''h:''] im_default))
   in fst (im_resolve flat_lib ''a'' ''h:r'' (fold (im_step flat_lib two_maps) [AddMap ''2'' ''h:''] m)) = Inr ''h:x''
     \<and> fst (im_resolve flat_lib ''b'' ''h:r'' (fold (im_step flat_lib two_maps) [AddMap ''2'' ''h:''] m)) = Inr ''h:z''
     \<and> fst (im_resolve flat_lib ''a'' ''h:r'' (fold (im_step flat_lib two_maps) [AddMap ''2'' ''h:''] im_default)) = Inr ''h:y''"
proof -
  let ?before = "fold (im_step flat_lib two_maps) [AddMap ''1'' ''h:''] im_default"
  let ?m = "snd (im_resolve flat_lib ''a'' ''h:r'' ?before)"
  have "fst (im_resolve flat_lib ''a'' ''h:r'' ?before) = Inr ''h:x''" by code_simp
  then have r: "im_resolve flat_lib ''a'' ''h:r'' ?before = (Inr ''h:x'', ?m)" by (simp add: prod_eq_iff)
  have b: "fst (im_resolve flat_lib ''b'' ''h:r'' (fold (im_step flat_lib two_maps) [AddMap ''2'' ''h:''] ?m)) = Inr ''h:z''"
    by code_simp
  have y: "fst (im_resolve flat_lib ''a'' ''h:r'' (fold (im_step flat_lib two_maps) [AddMap ''2'' ''h:''] im_default)) = Inr ''h:y''"
    by code_simp
  show ?thesis unfolding Let_def by (intro conjI resolution_kept [OF r] b y)
qed

end
