(* ===== verification/Watchdog.thy ===== *)
theory Watchdog
  imports BTree IdSource "HOL-Library.Word"
begin

text \<open>
  \<open>crates/obscura-js/src/cdp_watchdog.rs\<close>: the watchdog shared by the connections, which bounds the
  command each of them runs in its script engine. Every critical section of the mutex is one step: arming,
  disarming and one turn of the worker, which ends with the worker waiting on the condition variable, without
  a limit or up to a time; \<open>notify_one\<close> wakes it. Times are natural numbers, the flags shared between a slot and
  its \<open>Armed\<close> are cells of a store, the handles of the engines are values of \<open>'h\<close>, and the calls of
  \<open>terminate_execution\<close> are logged. A turn visits the slots of the hash map in the order of their
  generations. The generation is a 64-bit word, so the increment wraps as it does in a release build.
\<close>

record 'h wd_slot =
  sl_deadline :: nat
  sl_handle :: 'h
  sl_fired :: nat

text \<open>The worker: about to take a turn, in \<open>wait\<close>, or in \<open>wait_timeout\<close> with the time at which it runs out.\<close>

datatype wd_worker = Awake | Waiting "nat option"

record 'h watchdog =
  wd_slots :: "(64 word, 'h wd_slot) bmap"
  wd_gen :: "64 word"
  wd_flags :: "bool list"
  wd_terminated :: "'h wd_slot list"
  wd_worker :: wd_worker



section \<open>Operations\<close>





definition wd_fire :: "64 word \<Rightarrow> 'h watchdog \<Rightarrow> 'h watchdog" where
  "wd_fire g s =
     (case bm_get (wd_slots s) g of
        None \<Rightarrow> s
      | Some sl \<Rightarrow> s\<lparr>wd_slots := bm_remove g (wd_slots s), wd_flags := (wd_flags s)[sl_fired sl := True],
                      wd_terminated := wd_terminated s @ [sl]\<rparr>)"





section \<open>Runs\<close>






section \<open>The invariant\<close>

text \<open>A slot's flag is down, its generation is that of its flag; the flags up are those of the terminated slots.\<close>

definition wd_ok :: "'h watchdog \<Rightarrow> bool" where
  "wd_ok s \<longleftrightarrow> bm_ok (wd_slots s) \<and> wd_gen s = of_nat (length (wd_flags s))
     \<and> (\<forall>g sl. bm_get (wd_slots s) g = Some sl \<longrightarrow>
          sl_fired sl < length (wd_flags s) \<and> g = of_nat (Suc (sl_fired sl)) \<and> \<not> wd_flags s ! sl_fired sl)
     \<and> distinct (map sl_fired (wd_terminated s))
     \<and> sl_fired ` set (wd_terminated s) = {c. c < length (wd_flags s) \<and> wd_flags s ! c}"

lemma wd_ok_worker [simp]: "wd_ok (s\<lparr>wd_worker := w\<rparr>) = wd_ok s"
  by (simp add: wd_ok_def)









section \<open>The fate of one slot\<close>

lemma fire_simps [simp]:
  "wd_gen (wd_fire g s) = wd_gen s" "length (wd_flags (wd_fire g s)) = length (wd_flags s)"
  by (simp_all add: wd_fire_def split: option.split)

lemma fires_simps [simp]:
  "wd_gen (fold wd_fire gs s) = wd_gen s" "length (wd_flags (fold wd_fire gs s)) = length (wd_flags s)"
  by (induction gs arbitrary: s) simp_all




text \<open>The entries of the log that belong to one flag.\<close>

definition logged :: "nat \<Rightarrow> 'h watchdog \<Rightarrow> 'h wd_slot list" where
  "logged c s = filter (\<lambda>sl. sl_fired sl = c) (wd_terminated s)"

lemma logged_worker [simp]: "logged c (s\<lparr>wd_worker := w\<rparr>) = logged c s"
  by (simp add: logged_def)










section \<open>The worker's loop\<close>

















section \<open>Flags are fresh\<close>





section \<open>The property\<close>





end
