(* ===== verification/Portable.thy ===== *)
theory Portable
  imports CdpSteps CookieParams
begin

text \<open>
  What the domain handlers of the portable CDP dispatcher share (\<open>crates/obscura-cdp/src/portable_*.rs\<close>):
  reading a field of the parameters and answering a request. Each handler answers with the identity and the
  session of the request, and with one of four error codes.
\<close>

section \<open>Reading\<close>

text \<open>The number of a \<open>Value\<close> is kept as \<open>u64\<close> or \<open>i64\<close> when it has no fraction.\<close>

fun as_u64 :: "json \<Rightarrow> nat option" where
  "as_u64 (JInt i) = (if 0 \<le> i \<and> i < 2 ^ 64 then Some (nat i) else None)"
| "as_u64 _ = None"

fun as_i64 :: "json \<Rightarrow> int option" where
  "as_i64 (JInt i) = (if - (2 ^ 63) \<le> i \<and> i < 2 ^ 63 then Some i else None)"
| "as_i64 _ = None"

fun as_array :: "json \<Rightarrow> json list option" where
  "as_array (JArr xs) = Some xs"
| "as_array _ = None"

definition bool_field :: "json \<Rightarrow> string \<Rightarrow> bool option" where
  "bool_field v key = Option.bind (json_get v key) as_bool"

definition u64_field :: "json \<Rightarrow> string \<Rightarrow> nat option" where
  "u64_field v key = Option.bind (json_get v key) as_u64"

definition u32_field :: "json \<Rightarrow> string \<Rightarrow> nat option" where
  "u32_field v key = Option.bind (u64_field v key) (\<lambda>n. if n \<le> u32_max then Some n else None)"

text \<open>The operator \<open>?\<close>.\<close>

definition try_then :: "'e + 'a \<Rightarrow> ('a \<Rightarrow> 'e + 'b) \<Rightarrow> 'e + 'b" where
  "try_then r f = (case r of Inl e \<Rightarrow> Inl e | Inr v \<Rightarrow> f v)"

fun try_each :: "('a \<Rightarrow> 'e + unit) \<Rightarrow> 'a list \<Rightarrow> 'e + unit" where
  "try_each f [] = Inr ()"
| "try_each f (x # xs) = try_then (f x) (\<lambda>_. try_each f xs)"

lemma try_then_simps [simp]: "try_then (Inl e) f = Inl e" "try_then (Inr v) f = f v"
  by (simp_all add: try_then_def)

lemma try_then_Inr [simp]: "try_then r f = Inr y \<longleftrightarrow> (\<exists>v. r = Inr v \<and> f v = Inr y)"
  by (cases r) simp_all

section \<open>Writing\<close>

text \<open>The object of \<open>json!\<close>; the keys end up in order.\<close>

definition json_obj :: "(string \<times> json) list \<Rightarrow> json" where
  "json_obj kvs = JObj (fold (\<lambda>(k, v). bm_insert k v) kvs [])"

definition json_nat :: "nat \<Rightarrow> json" where
  "json_nat n = JInt (int n)"

definition json_f64 :: "f64 \<Rightarrow> json" where
  "json_f64 f = (if f64_is_finite f then JFloat f else JNull)"

definition json_opt :: "('a \<Rightarrow> json) \<Rightarrow> 'a option \<Rightarrow> json" where
  "json_opt f v = (case v of Some x \<Rightarrow> f x | None \<Rightarrow> JNull)"

text \<open>What serde writes for a cookie of a context.\<close>

definition cookie_json :: "context_cookie \<Rightarrow> json" where
  "cookie_json k = json_obj
     [(''name'', JStr (ck_name k)), (''value'', JStr (ck_value k)), (''domain'', JStr (ck_domain k)),
      (''path'', JStr (ck_path k)), (''secure'', JBool (ck_secure k)), (''httpOnly'', JBool (ck_http_only k)),
      (''sameSite'', JStr (ck_same_site k)), (''expires'', json_opt JInt (ck_expires k)),
      (''hostOnly'', JBool (ck_host_only k))]"

definition history_entry_json :: "history_entry \<Rightarrow> json" where
  "history_entry_json e = json_obj
     [(''id'', json_nat (he_id e)), (''url'', JStr (he_url e)), (''userTypedURL'', JStr (he_user_typed_url e)),
      (''title'', JStr (he_title e)), (''transitionType'', JStr (he_transition_type e))]"

section \<open>Answering\<close>

definition answer :: "cdp_request \<Rightarrow> json \<Rightarrow> cdp_response" where
  "answer rq v = response_success (rq_id rq) v (rq_session_id rq)"

definition refuse :: "cdp_request \<Rightarrow> int \<Rightarrow> string \<Rightarrow> cdp_response" where
  "refuse rq code message = response_error (rq_id rq) code message (rq_session_id rq)"

text \<open>The match on the result of a state operation that returns nothing.\<close>

definition acknowledge ::
    "(cdp_request \<Rightarrow> cdp_failure \<Rightarrow> cdp_response) \<Rightarrow> cdp_request \<Rightarrow> unit cdp_result \<times> browser \<Rightarrow> cdp_response \<times> browser" where
  "acknowledge fail rq r = (case r of (Inr _, s) \<Rightarrow> (answer rq (JObj []), s) | (Inl e, s) \<Rightarrow> (fail rq e, s))"

section \<open>What every answer looks like\<close>

text \<open>The answer to a request: its identity and session, and either a result or an error with a known code.\<close>

definition answers :: "cdp_request \<Rightarrow> cdp_response \<Rightarrow> bool" where
  "answers rq r \<longleftrightarrow>
     rs_id r = rq_id rq \<and> rs_session_id r = rq_session_id rq
     \<and> (case rs_error r of
          None \<Rightarrow> rs_result r \<noteq> None
        | Some e \<Rightarrow> rs_result r = None \<and> er_code e \<in> set [-32602, -32601, -32600, -32000])"

lemma answers_answer [simp, intro]: "answers rq (answer rq v)"
  by (simp add: answers_def answer_def response_success_def)

lemma answers_refuse [simp]: "code \<in> set [-32602, -32601, -32600, -32000] \<Longrightarrow> answers rq (refuse rq code message)"
  by (simp add: answers_def refuse_def response_error_def)

lemma error_answer [simp]: "rs_error (answer rq v) = None"
  by (simp add: answer_def response_success_def)

lemma error_refuse [simp]: "rs_error (refuse rq code message) = Some \<lparr>er_code = code, er_message = message\<rparr>"
  by (simp add: refuse_def response_error_def)

lemma acknowledge_answers [simp]: "(\<And>e. answers rq (fail rq e)) \<Longrightarrow> answers rq (fst (acknowledge fail rq r))"
  by (simp add: acknowledge_def split: prod.split sum.split)

lemma acknowledge_state [simp]: "snd (acknowledge fail rq r) = snd r"
  by (simp add: acknowledge_def split: prod.split sum.split)

section \<open>Calls of the state\<close>

text \<open>A handler acts on the state through its methods only, with at most one call.\<close>

definition one_call :: "codec \<Rightarrow> (string \<Rightarrow> string option option) \<Rightarrow> browser \<Rightarrow> browser \<Rightarrow> bool" where
  "one_call cd host_of s s' \<longleftrightarrow> s' = s \<or> (\<exists>e. bs_exec cd host_of s e = Some s')"

lemma one_call_same [simp, intro]: "one_call cd host_of s s"
  by (simp add: one_call_def)

lemma one_call_exec: "bs_exec cd host_of s e = Some s' \<Longrightarrow> one_call cd host_of s s'"
  by (auto simp: one_call_def)

lemma one_call_reachable: "reachable cd host_of s \<Longrightarrow> one_call cd host_of s s' \<Longrightarrow> reachable cd host_of s'"
  by (auto simp: one_call_def intro: reachable.step)

lemma state_calls:
  "one_call cd host_of s (snd (create_context s opts))"
  "one_call cd host_of s (snd (dispose_context s c))"
  "one_call cd host_of s (snd (create_page s c url))"
  "one_call cd host_of s (snd (close_page s p))"
  "one_call cd host_of s (snd (merge_context_cookies_for_context s c ks now))"
  "one_call cd host_of s (snd (delete_context_cookies_for_context s c name domain path))"
  "one_call cd host_of s (snd (clear_context_cookies_for_context s c))"
  "one_call cd host_of s (snd (clear_context_cookies_for_origin host_of s p origin))"
  "one_call cd host_of s (snd (set_device_metrics s p w h scale mobile))"
  "one_call cd host_of s (snd (clear_device_metrics s p))"
  "one_call cd host_of s (snd (set_emulated_media s p m))"
  "one_call cd host_of s (snd (set_focus_emulation s p b))"
  "one_call cd host_of s (snd (reset_navigation_history s p))"
  "one_call cd host_of s (snd (network_enable s p i))"
  "one_call cd host_of s (snd (network_disable s p si))"
  "one_call cd host_of s (snd (set_cache_disabled s p b))"
  "one_call cd host_of s (snd (set_extra_headers s p hs))"
  "one_call cd host_of s (snd (clear_response_bodies s p))"
  "one_call cd host_of s (snd (set_fetch_patterns s p i ps))"
  "one_call cd host_of s (snd (clear_fetch_patterns s p i))"
  "one_call cd host_of s (snd (queue_fetch_resolution s p r v))"
  by (rule one_call_exec, rule bs_exec.simps)+

text \<open>A method that fails leaves the state as it was.\<close>

definition op_ok :: "codec \<Rightarrow> (string \<Rightarrow> string option option) \<Rightarrow> browser \<Rightarrow> 'a cdp_result \<times> browser \<Rightarrow> bool" where
  "op_ok cd host_of s r \<longleftrightarrow> one_call cd host_of s (snd r) \<and> (bs_inv s \<and> isl (fst r) \<longrightarrow> snd r = s)"

lemma op_okI: "one_call cd host_of s (snd r) \<Longrightarrow> (\<And>e. bs_inv s \<Longrightarrow> fst r = Inl e \<Longrightarrow> snd r = s) \<Longrightarrow> op_ok cd host_of s r"
  by (auto simp: op_ok_def isl_def)

lemma attempt_ok: "(\<And>v. r = Inr v \<Longrightarrow> op_ok cd host_of s (f v)) \<Longrightarrow> op_ok cd host_of s (attempt r s f)"
  by (cases r) (simp_all add: attempt_def op_ok_def)

lemma op_ok_same [simp]: "op_ok cd host_of s (x, s)"
  by (simp add: op_ok_def)

lemma set_cookies_same:
  assumes "bs_inv s" and "bm_has (bs_contexts s) c"
  shows "set_cookies c (cookies_of s c) s = s"
proof -
  have "bm_ok (bs_cookies s)" "bm_has (bs_cookies s) c" using assms by (simp_all add: bs_inv_def context_rel_def)
  then show ?thesis by (auto simp: set_cookies_def cookies_of_def bm_has_Some bm_insert_same)
qed

lemma refused_tables:
  "fst (create_context s opts) = Inl e \<Longrightarrow> snd (create_context s opts) = s"
  "fst (dispose_context s c) = Inl e \<Longrightarrow> snd (dispose_context s c) = s"
  "fst (create_page s c url) = Inl e \<Longrightarrow> snd (create_page s c url) = s"
  by (auto simp: create_context_def create_page_def dispose_context_def attempt_def Let_def split: sum.splits if_splits)

lemma refused_display:
  "fst (set_device_metrics s p w h scale mobile) = Inl e \<Longrightarrow> snd (set_device_metrics s p w h scale mobile) = s"
  "fst (clear_device_metrics s p) = Inl e \<Longrightarrow> snd (clear_device_metrics s p) = s"
  "fst (set_emulated_media s p m) = Inl e \<Longrightarrow> snd (set_emulated_media s p m) = s"
  "fst (set_focus_emulation s p b) = Inl e \<Longrightarrow> snd (set_focus_emulation s p b) = s"
  "fst (reset_navigation_history s p) = Inl e \<Longrightarrow> snd (reset_navigation_history s p) = s"
  by (auto simp: set_device_metrics_def clear_device_metrics_def set_emulated_media_def set_focus_emulation_def
      reset_navigation_history_def attempt_def Let_def split: sum.splits if_splits option.splits)

lemma refused_network:
  "fst (network_enable s p i) = Inl e \<Longrightarrow> snd (network_enable s p i) = s"
  "fst (network_disable s p si) = Inl e \<Longrightarrow> snd (network_disable s p si) = s"
  "fst (set_cache_disabled s p b) = Inl e \<Longrightarrow> snd (set_cache_disabled s p b) = s"
  "fst (set_extra_headers s p hs) = Inl e \<Longrightarrow> snd (set_extra_headers s p hs) = s"
  "fst (clear_response_bodies s p) = Inl e \<Longrightarrow> snd (clear_response_bodies s p) = s"
  "fst (set_fetch_patterns s p i ps) = Inl e \<Longrightarrow> snd (set_fetch_patterns s p i ps) = s"
  by (auto simp: network_enable_def network_disable_def set_cache_disabled_def set_extra_headers_def
      clear_response_bodies_def set_fetch_patterns_def page_of_def need_def attempt_def Let_def
      split: sum.splits if_splits option.splits)

lemma refused_cookies:
  "bs_inv s \<Longrightarrow> fst (merge_context_cookies_for_context s c ks now) = Inl e \<Longrightarrow>
    snd (merge_context_cookies_for_context s c ks now) = s"
  "fst (delete_context_cookies_for_context s c name domain path) = Inl e \<Longrightarrow>
    snd (delete_context_cookies_for_context s c name domain path) = s"
  "fst (clear_context_cookies_for_context s c) = Inl e \<Longrightarrow> snd (clear_context_cookies_for_context s c) = s"
  "fst (clear_context_cookies_for_origin host_of s p origin) = Inl e \<Longrightarrow>
    snd (clear_context_cookies_for_origin host_of s p origin) = s"
  by (auto simp: merge_context_cookies_for_context_def delete_context_cookies_for_context_def
      clear_context_cookies_for_context_def clear_context_cookies_for_origin_def attempt_def Let_def set_cookies_same
      split: sum.splits option.splits if_splits)

named_theorems state_ops

lemma context_ops [state_ops]:
  "op_ok cd host_of s (create_context s opts)"
  "op_ok cd host_of s (dispose_context s c)"
  "op_ok cd host_of s (create_page s c url)"
  "op_ok cd host_of s (set_device_metrics s p w h scale mobile)"
  "op_ok cd host_of s (clear_device_metrics s p)"
  "op_ok cd host_of s (set_emulated_media s p m)"
  "op_ok cd host_of s (set_focus_emulation s p b)"
  "op_ok cd host_of s (reset_navigation_history s p)"
  "op_ok cd host_of s (network_enable s p i)"
  "op_ok cd host_of s (network_disable s p si)"
  "op_ok cd host_of s (set_cache_disabled s p b)"
  "op_ok cd host_of s (set_extra_headers s p hs)"
  "op_ok cd host_of s (clear_response_bodies s p)"
  "op_ok cd host_of s (set_fetch_patterns s p i ps)"
  "op_ok cd host_of s (delete_context_cookies_for_context s c name domain path)"
  "op_ok cd host_of s (clear_context_cookies_for_context s c)"
  "op_ok cd host_of s (clear_context_cookies_for_origin host_of s p origin)"
  by (rule op_okI, rule state_calls, erule refused_tables refused_display refused_network refused_cookies)+

lemma merge_ok [state_ops]: "op_ok cd host_of s (merge_context_cookies_for_context s c ks now)"
  by (rule op_okI, rule state_calls, erule refused_cookies)

lemma page_cookie_ops [state_ops]:
  "op_ok cd host_of s (merge_context_cookies s p ks now)"
  "op_ok cd host_of s (delete_context_cookies s p name domain path)"
  "op_ok cd host_of s (clear_context_cookies s p)"
  by (simp_all add: merge_context_cookies_def delete_context_cookies_def clear_context_cookies_def attempt_ok state_ops)

section \<open>The contract\<close>

text \<open>
  A request is handled when it is answered, with at most one method of the state called, and when a refused
  request has changed nothing. The flag is off for the one command that can fail half-way.
\<close>

definition handled :: "codec \<Rightarrow> (string \<Rightarrow> string option option) \<Rightarrow> bool \<Rightarrow> cdp_request \<Rightarrow> browser \<Rightarrow>
    cdp_response \<times> browser \<Rightarrow> bool" where
  "handled cd host_of clean rq s r \<longleftrightarrow>
     answers rq (fst r) \<and> one_call cd host_of s (snd r)
     \<and> (clean \<and> bs_inv s \<and> rs_error (fst r) \<noteq> None \<longrightarrow> snd r = s)"

named_theorems handling

lemma handled_same [handling]: "answers rq r \<Longrightarrow> handled cd host_of clean rq s (r, s)"
  by (simp add: handled_def)

lemma handled_cases [handling]:
  "handled cd host_of clean rq s a \<Longrightarrow> handled cd host_of clean rq s b \<Longrightarrow> handled cd host_of clean rq s (if c then a else b)"
  "handled cd host_of clean rq s a \<Longrightarrow> (\<And>x. handled cd host_of clean rq s (f x)) \<Longrightarrow>
    handled cd host_of clean rq s (case v of None \<Rightarrow> a | Some x \<Rightarrow> f x)"
  "(\<And>e. handled cd host_of clean rq s (g e)) \<Longrightarrow> (\<And>x. handled cd host_of clean rq s (h x)) \<Longrightarrow>
    handled cd host_of clean rq s (case w of Inl e \<Rightarrow> g e | Inr x \<Rightarrow> h x)"
  by (simp_all split: option.split sum.split)

lemma handled_result [handling]:
  "op_ok cd host_of s r \<Longrightarrow> (\<And>e. answers rq (fail e)) \<Longrightarrow>
    handled cd host_of clean rq s
      (case r of (x, s') \<Rightarrow> case x of Inl e \<Rightarrow> (fail e, s') | Inr v \<Rightarrow> (answer rq (f v), s'))"
  by (auto simp: handled_def op_ok_def split: prod.split sum.split)

lemma handled_acknowledge [handling]:
  "op_ok cd host_of s r \<Longrightarrow> (\<And>e. answers rq (fail rq e)) \<Longrightarrow> handled cd host_of clean rq s (acknowledge fail rq r)"
  by (auto simp: handled_def op_ok_def acknowledge_def split: prod.split sum.split)

locale cdp_handler =
  fixes cd :: codec
    and host_of :: "string \<Rightarrow> string option option"
    and owns :: "string \<Rightarrow> bool"
    and halfway :: "string \<Rightarrow> bool"
    and handle :: "cdp_request \<Rightarrow> browser \<Rightarrow> cdp_response \<times> browser"
  assumes handle_ok: "handled cd host_of (\<not> halfway (rq_method rq)) rq s (handle rq s)"
    and handle_unowned: "\<not> owns (rq_method rq) \<Longrightarrow> snd (handle rq s) = s"
begin

lemma handle_answers: "answers rq (fst (handle rq s))"
  using handle_ok by (simp add: handled_def)

lemma handle_reachable: "reachable cd host_of s \<Longrightarrow> reachable cd host_of (snd (handle rq s))"
  using one_call_reachable handle_ok unfolding handled_def by blast

lemma handle_done:
  "reachable cd host_of s \<Longrightarrow> snd (handle rq s) \<noteq> s \<Longrightarrow>
    owns (rq_method rq) \<and> (rs_error (fst (handle rq s)) = None \<or> halfway (rq_method rq))"
  using handle_unowned handle_ok reachable_inv unfolding handled_def by blast

end

end
