(* ===== verification/PortableTarget.thy ===== *)
theory PortableTarget
  imports Portable
begin

text \<open>
  \<open>crates/obscura-cdp/src/portable_target.rs\<close> with the stateless \<open>domains/browser.rs\<close>: the commands of the
  Browser and Target domains on the browser state.
\<close>

section \<open>The Browser domain\<close>

record browser_identity =
  bi_product :: string
  bi_revision :: string
  bi_user_agent :: string
  bi_js_version :: string

definition identity_wasm :: browser_identity where
  "identity_wasm = \<lparr>bi_product = ''Obscura/WASM'', bi_revision = ''portable'', bi_user_agent = ''Obscura-WASM'',
     bi_js_version = ''host''\<rparr>"

definition window_bounds :: json where
  "window_bounds = json_obj [(''left'', json_nat 0), (''top'', json_nat 0), (''width'', json_nat 1280),
     (''height'', json_nat 720), (''windowState'', JStr ''normal'')]"

definition handle_portable :: "string \<Rightarrow> json \<Rightarrow> browser_identity \<Rightarrow> string + json" where
  "handle_portable method params identity =
     (if method = ''getVersion'' then
        Inr (json_obj [(''protocolVersion'', JStr ''1.3''), (''product'', JStr (bi_product identity)),
          (''revision'', JStr (bi_revision identity)), (''userAgent'', JStr (bi_user_agent identity)),
          (''jsVersion'', JStr (bi_js_version identity))])
      else if method = ''close'' then Inr (json_obj [])
      else if method = ''getWindowForTarget'' then
        Inr (json_obj [(''windowId'', json_nat 1), (''bounds'', window_bounds)])
      else if method = ''setDownloadBehavior'' then Inr (json_obj [])
      else if method = ''getWindowBounds'' then Inr (json_obj [(''bounds'', window_bounds)])
      else if method = ''setWindowBounds'' then Inr (json_obj [])
      else Inl (''Unknown Browser method: '' @ method))"

section \<open>The Target domain\<close>

definition response_for_failure :: "cdp_request \<Rightarrow> cdp_failure \<Rightarrow> cdp_response" where
  "response_for_failure rq e =
     refuse rq (case e of InvalidArgument _ \<Rightarrow> -32602 | Unsupported _ \<Rightarrow> -32601 | _ \<Rightarrow> -32000) (show_failure e)"

definition strip_prefix :: "string \<Rightarrow> string \<Rightarrow> string option" where
  "strip_prefix p s = (if starts_with s p then Some (drop (length p) s) else None)"

definition target_context_id :: "browser \<Rightarrow> string \<Rightarrow> context_id cdp_result" where
  "target_context_id s wire =
     (if wire = ''default'' then Inr default_context
      else case Option.bind (strip_prefix ''context-'' wire) parse_u64 of
        None \<Rightarrow> Inl (UnknownContext (ContextId 0))
      | Some n \<Rightarrow> (if find_context s (ContextId n) = None then Inl (UnknownContext (ContextId n)) else Inr (ContextId n)))"

definition target_page_id :: "string \<Rightarrow> page_id cdp_result" where
  "target_page_id wire =
     (case Option.bind (strip_prefix ''page-'' wire) parse_u64 of
        None \<Rightarrow> Inl (UnknownPage (PageId 0))
      | Some n \<Rightarrow> Inr (PageId n))"

definition wire_context :: "context_id \<Rightarrow> string" where
  "wire_context c = (if c = default_context then ''default'' else ''context-'' @ show_nat (context_num c))"

definition wire_page :: "page_id \<Rightarrow> string" where
  "wire_page p = ''page-'' @ show_nat (page_num p)"

definition target_info :: "browser \<Rightarrow> page_state \<Rightarrow> json" where
  "target_info s pg = json_obj
     [(''targetId'', JStr (wire_page (pg_id pg))), (''type'', JStr ''page''), (''title'', JStr (pg_title pg)),
      (''url'', JStr (pg_url pg)), (''attached'', JBool (page_is_attached s (pg_id pg))), (''openerId'', JNull),
      (''canAccessOpener'', JBool False), (''browserContextId'', JStr (wire_context (pg_context_id pg)))]"

definition browser_methods :: "string list" where
  "browser_methods = [''Browser.getVersion'', ''Browser.getWindowForTarget'', ''Browser.getWindowBounds'',
     ''Browser.setWindowBounds'', ''Browser.setDownloadBehavior'']"

definition target_supports :: "string \<Rightarrow> bool" where
  "target_supports method \<longleftrightarrow> method \<in> set (browser_methods @
     [''Target.getBrowserContexts'', ''Target.createBrowserContext'', ''Target.disposeBrowserContext'',
      ''Target.getTargets'', ''Target.createTarget'', ''Target.closeTarget''])"

definition target_dispatch :: "cdp_request \<Rightarrow> browser \<Rightarrow> cdp_response \<times> browser" where
  "target_dispatch rq s =
     (let method = rq_method rq; params = rq_params rq in
      if method \<in> set browser_methods then
        (case handle_portable (unwrap_or (strip_prefix ''Browser.'' method) []) params identity_wasm of
           Inr result \<Rightarrow> (answer rq result, s)
         | Inl message \<Rightarrow> (refuse rq (-32601) message, s))
      else if method = ''Target.getBrowserContexts'' then
        (answer rq (json_obj [(''browserContextIds'',
           JArr (map (\<lambda>c. JStr (wire_context (cx_id c))) (filter (\<lambda>c. cx_id c \<noteq> default_context) (contexts_list s))))]), s)
      else if method = ''Target.createBrowserContext'' then
        (case create_context s context_options_default of
           (Inr c, s') \<Rightarrow> (answer rq (json_obj [(''browserContextId'', JStr (wire_context c))]), s')
         | (Inl e, s') \<Rightarrow> (response_for_failure rq e, s'))
      else if method = ''Target.disposeBrowserContext'' then
        (case str_field params ''browserContextId'' of
           None \<Rightarrow> (refuse rq (-32602) ''browserContextId is required'', s)
         | Some wire \<Rightarrow>
            (case target_context_id s wire of
               Inl e \<Rightarrow> (response_for_failure rq e, s)
             | Inr c \<Rightarrow> acknowledge response_for_failure rq (dispose_context s c)))
      else if method = ''Target.getTargets'' then
        (answer rq (json_obj [(''targetInfos'', JArr (map (target_info s) (pages_list s)))]), s)
      else if method = ''Target.createTarget'' then
        (case target_context_id s (unwrap_or (str_field params ''browserContextId'') ''default'') of
           Inl e \<Rightarrow> (response_for_failure rq e, s)
         | Inr c \<Rightarrow>
            (case create_page s c (unwrap_or (str_field params ''url'') ''about:blank'') of
               (Inr p, s') \<Rightarrow> (answer rq (json_obj [(''targetId'', JStr (wire_page p))]), s')
             | (Inl e, s') \<Rightarrow> (response_for_failure rq e, s')))
      else if method = ''Target.closeTarget'' then
        (case str_field params ''targetId'' of
           None \<Rightarrow> (refuse rq (-32602) ''targetId is required'', s)
         | Some wire \<Rightarrow>
            (case target_page_id wire of
               Inl e \<Rightarrow> (response_for_failure rq e, s)
             | Inr p \<Rightarrow>
                (case close_page s p of
                   (r, s') \<Rightarrow> (answer rq (json_obj [(''success'', JBool (\<not> isl r))]), s'))))
      else (refuse rq (-32601) ''method is not implemented by portable Target dispatch'', s))"

section \<open>The contract\<close>

lemma target_failure_answers [simp]: "answers rq (response_for_failure rq e)"
  by (cases e) (simp_all add: response_for_failure_def)

lemma target_handled: "handled cd host_of clean rq s (target_dispatch rq s)"
proof -
  have "handled cd host_of clean rq s (case close_page s p of (r, s') \<Rightarrow> (answer rq (json_obj [(''success'', JBool (\<not> isl r))]), s'))" for p
    by (simp add: handled_def state_calls split: prod.split, metis snd_conv state_calls(4))
  then show ?thesis unfolding target_dispatch_def Let_def by (intro handling state_ops) simp_all
qed

lemma target_unowned: "\<not> target_supports (rq_method rq) \<Longrightarrow> snd (target_dispatch rq s) = s"
  by (simp add: target_dispatch_def target_supports_def Let_def)

interpretation target: cdp_handler cd host_of target_supports "\<lambda>_. False" target_dispatch
  by unfold_locales (simp_all add: target_handled target_unowned)

end
