(* ===== verification/PortableStorage.thy ===== *)
theory PortableStorage
  imports PortableTarget
begin

text \<open>
  \<open>crates/obscura-cdp/src/portable_storage.rs\<close>: the cookie commands of the Network and Storage domains, for a
  page and for the browser. The crate \<open>url\<close> is the parameter \<open>host_of\<close> of the browser state, the rounding of
  an integer to a double is \<open>rnd\<close>.
\<close>

definition storage_failure :: "cdp_request \<Rightarrow> cdp_failure \<Rightarrow> cdp_response" where
  "storage_failure rq e =
     refuse rq (case e of InvalidArgument _ \<Rightarrow> -32602 | Unsupported _ \<Rightarrow> -32601 | _ \<Rightarrow> -32000) (show_failure e)"

definition storage_supports :: "string \<Rightarrow> bool" where
  "storage_supports method \<longleftrightarrow> method \<in> set
     [''Network.getAllCookies'', ''Storage.getCookies'', ''Network.setCookies'', ''Storage.setCookies'',
      ''Network.deleteCookies'', ''Network.clearBrowserCookies'', ''Storage.clearDataForOrigin'']"

definition supports_browser_storage :: "string \<Rightarrow> bool" where
  "supports_browser_storage method \<longleftrightarrow> method \<in> set [''Storage.getCookies'', ''Storage.setCookies'']"

definition page_url :: "browser \<Rightarrow> page_id \<Rightarrow> string cdp_result" where
  "page_url s p = (case find_page s p of Some pg \<Rightarrow> Inr (pg_url pg) | None \<Rightarrow> Inl (UnknownPage p))"

definition host_from_url :: "(string \<Rightarrow> string option option) \<Rightarrow> string \<Rightarrow> string option" where
  "host_from_url host_of v = map_option to_ascii_lowercase (Option.bind (host_of v) (\<lambda>h. h))"

text \<open>One cookie of the array.\<close>

definition cookie_expires :: "(int \<Rightarrow> f64) \<Rightarrow> json \<Rightarrow> int option" where
  "cookie_expires rnd cookie =
     Option.bind (json_get cookie ''expires'') (\<lambda>v. Option.bind (as_f64 rnd v) (\<lambda>f.
       if f64_is_finite f \<and> f64_le (Finite 0) f \<and> f64_le f (Finite (2 ^ 63)) then Some (f64_as_i64 f) else None))"

definition parse_cookie_value ::
    "(int \<Rightarrow> f64) \<Rightarrow> (string \<Rightarrow> string option option) \<Rightarrow> string option \<Rightarrow> nat \<Rightarrow> json \<Rightarrow> context_cookie cdp_result" where
  "parse_cookie_value rnd host_of target_host index cookie =
     (if as_object cookie = None
      then Inl (invalid_argument (''cookies['' @ show_nat index @ ''] must be an object''))
      else
        (let name = unwrap_or (str_field cookie ''name'') []; val = unwrap_or (str_field cookie ''value'') [] in
         if name = [] then Inl (invalid_argument (''cookies['' @ show_nat index @ ''].name is required''))
         else
           (let url_host = Option.bind (str_field cookie ''url'') (host_from_url host_of);
                explicit_domain =
                  (case map_option (\<lambda>d. to_ascii_lowercase (trim_start_matches (CHR ''.'') d)) (str_field cookie ''domain'') of
                     Some d \<Rightarrow> (if d \<noteq> [] then Some d else None)
                   | None \<Rightarrow> None)
            in case or_else (or_else explicit_domain url_host) target_host of
                 None \<Rightarrow> Inl (invalid_argument (''cookies['' @ show_nat index @ ''] requires a domain or URL''))
               | Some domain \<Rightarrow>
                   Inr \<lparr>ck_name = name, ck_value = val, ck_domain = domain,
                        ck_path = (case str_field cookie ''path'' of
                           Some path \<Rightarrow> (if starts_with path ''/'' then path else ''/'') | None \<Rightarrow> ''/''),
                        ck_secure = unwrap_or (bool_field cookie ''secure'') False,
                        ck_http_only = unwrap_or (bool_field cookie ''httpOnly'') False,
                        ck_same_site =
                          (if str_field cookie ''sameSite'' = Some ''Strict'' then ''Strict''
                           else if str_field cookie ''sameSite'' = Some ''None'' then ''None'' else ''Lax''),
                        ck_expires = cookie_expires rnd cookie,
                        ck_host_only = (explicit_domain = None)\<rparr>)))"

fun parse_cookie_list ::
    "(int \<Rightarrow> f64) \<Rightarrow> (string \<Rightarrow> string option option) \<Rightarrow> string option \<Rightarrow> nat \<Rightarrow> json list \<Rightarrow> context_cookie list cdp_result" where
  "parse_cookie_list rnd host_of target_host index [] = Inr []"
| "parse_cookie_list rnd host_of target_host index (v # vs) =
     and_then (parse_cookie_value rnd host_of target_host index v) (\<lambda>k.
       and_then (parse_cookie_list rnd host_of target_host (Suc index) vs) (\<lambda>ks. Inr (k # ks)))"

definition parse_cookie_values ::
    "codec \<Rightarrow> (int \<Rightarrow> f64) \<Rightarrow> (string \<Rightarrow> string option option) \<Rightarrow> json \<Rightarrow> string \<Rightarrow> context_cookie list cdp_result" where
  "parse_cookie_values cd rnd host_of params target_url =
     (case Option.bind (json_get params ''cookies'') as_array of
        None \<Rightarrow> Inl (invalid_argument ''cookies must be an array'')
      | Some values \<Rightarrow>
         (if MAX_COOKIE_COUNT < length values
          then Inl (invalid_argument ''cookies exceed the 4096-cookie limit'')
          else and_then (parse_cookie_list rnd host_of (host_from_url host_of target_url) 0 values) (\<lambda>parsed.
            case enc_cookies cd parsed of
              Inl e \<Rightarrow> Inl (host_failure (''cookie serialization failed: '' @ e))
            | Inr encoded \<Rightarrow>
               (if MAX_COOKIE_BYTES < length encoded
                then Inl (invalid_argument ''cookies exceed the 64KiB limit'') else Inr parsed))))"

definition storage_context_id :: "browser \<Rightarrow> json \<Rightarrow> context_id cdp_result" where
  "storage_context_id s params =
     (case str_field params ''browserContextId'' of
        None \<Rightarrow> Inr default_context
      | Some wire \<Rightarrow>
         (if wire = ''default'' then Inr default_context
          else case Option.bind (strip_prefix ''context-'' wire) parse_u64 of
            None \<Rightarrow> Inl (invalid_argument ''browserContextId is invalid'')
          | Some n \<Rightarrow>
             (if find_context s (ContextId n) = None then Inl (UnknownContext (ContextId n)) else Inr (ContextId n))))"

text \<open>The answer to a read of cookies.\<close>

definition cookies_answer :: "cdp_request \<Rightarrow> context_cookie list cdp_result \<Rightarrow> cdp_response" where
  "cookies_answer rq r =
     (case r of
        Inr cookies \<Rightarrow> answer rq (json_obj [(''cookies'', JArr (map cookie_json cookies))])
      | Inl e \<Rightarrow> storage_failure rq e)"

definition storage_dispatch_browser ::
    "codec \<Rightarrow> (int \<Rightarrow> f64) \<Rightarrow> (string \<Rightarrow> string option option) \<Rightarrow> nat \<Rightarrow> cdp_request \<Rightarrow> browser \<Rightarrow> cdp_response \<times> browser" where
  "storage_dispatch_browser cd rnd host_of now_secs rq s =
     (case storage_context_id s (rq_params rq) of
        Inl e \<Rightarrow> (storage_failure rq e, s)
      | Inr c \<Rightarrow>
         (if rq_method rq = ''Storage.getCookies'' then (cookies_answer rq (context_cookies_for_context s c now_secs), s)
          else if rq_method rq = ''Storage.setCookies'' then
            (case parse_cookie_values cd rnd host_of (rq_params rq) [] of
               Inl e \<Rightarrow> (storage_failure rq e, s)
             | Inr cookies \<Rightarrow> acknowledge storage_failure rq (merge_context_cookies_for_context s c cookies now_secs))
          else (refuse rq (-32601) ''method is not implemented by portable browser Storage dispatch'', s)))"

definition storage_dispatch ::
    "codec \<Rightarrow> (int \<Rightarrow> f64) \<Rightarrow> (string \<Rightarrow> string option option) \<Rightarrow> page_id \<Rightarrow> nat \<Rightarrow> cdp_request \<Rightarrow> browser \<Rightarrow> cdp_response \<times> browser" where
  "storage_dispatch cd rnd host_of p now_secs rq s =
     (let method = rq_method rq; params = rq_params rq in
      if method = ''Network.getAllCookies'' \<or> method = ''Storage.getCookies''
      then (cookies_answer rq (context_cookies s p now_secs), s)
      else if method = ''Network.setCookies'' \<or> method = ''Storage.setCookies'' then
        (case page_url s p of
           Inl e \<Rightarrow> (storage_failure rq e, s)
         | Inr target_url \<Rightarrow>
            (case parse_cookie_values cd rnd host_of params target_url of
               Inl e \<Rightarrow> (storage_failure rq e, s)
             | Inr cookies \<Rightarrow> acknowledge storage_failure rq (merge_context_cookies s p cookies now_secs)))
      else if method = ''Network.deleteCookies'' then
        (case str_field params ''name'' of
           None \<Rightarrow> (refuse rq (-32602) ''name is required'', s)
         | Some name \<Rightarrow>
            (let domain = unwrap_or (or_else (str_field params ''domain'')
                   (Option.bind (str_field params ''url'') (host_from_url host_of))) [];
                 path = str_field params ''path''
             in if MAX_METHOD_BYTES < length domain \<or> (case path of Some x \<Rightarrow> MAX_METHOD_BYTES < length x | None \<Rightarrow> False)
                then (refuse rq (-32602) ''cookie domain or path exceeds the byte limit'', s)
                else acknowledge storage_failure rq (delete_context_cookies s p name domain path)))
      else if method = ''Network.clearBrowserCookies'' then
        acknowledge storage_failure rq (clear_context_cookies s p)
      else if method = ''Storage.clearDataForOrigin'' then
        (case str_field params ''storageTypes'' of
           None \<Rightarrow> (refuse rq (-32602) ''storageTypes is required'', s)
         | Some storage_types \<Rightarrow>
            (if \<not> list_ex (\<lambda>t. trim t = ''cookies'' \<or> trim t = ''all'') (split_char (CHR '','') storage_types)
             then (answer rq (JObj []), s)
             else case str_field params ''origin'' of
               None \<Rightarrow> (refuse rq (-32602) ''origin is required'', s)
             | Some origin \<Rightarrow>
                acknowledge storage_failure rq (clear_context_cookies_for_origin host_of s p origin)))
      else (refuse rq (-32601) ''method is not implemented by portable Storage dispatch'', s))"

section \<open>The contract\<close>

lemma storage_failure_answers [simp]: "answers rq (storage_failure rq e)"
  by (cases e) (simp_all add: storage_failure_def)

lemma cookies_answer_answers [simp]: "answers rq (cookies_answer rq r)"
  by (simp add: cookies_answer_def split: sum.split)

lemma storage_handled: "handled cd host_of clean rq s (storage_dispatch cd rnd host_of p now_secs rq s)"
  unfolding storage_dispatch_def Let_def by (intro handling state_ops) simp_all

lemma storage_browser_handled: "handled cd host_of clean rq s (storage_dispatch_browser cd rnd host_of now_secs rq s)"
  unfolding storage_dispatch_browser_def by (intro handling state_ops) simp_all

lemma storage_unowned: "\<not> storage_supports (rq_method rq) \<Longrightarrow> snd (storage_dispatch cd rnd host_of p now_secs rq s) = s"
  by (simp add: storage_dispatch_def storage_supports_def Let_def)

lemma storage_browser_unowned:
  "\<not> supports_browser_storage (rq_method rq) \<Longrightarrow> snd (storage_dispatch_browser cd rnd host_of now_secs rq s) = s"
  by (simp add: storage_dispatch_browser_def supports_browser_storage_def split: sum.split)

interpretation storage: cdp_handler cd host_of storage_supports "\<lambda>_. False" "storage_dispatch cd rnd host_of p now_secs"
  by unfold_locales (simp_all add: storage_handled storage_unowned)

interpretation browser_storage: cdp_handler cd host_of supports_browser_storage "\<lambda>_. False"
    "storage_dispatch_browser cd rnd host_of now_secs"
  by unfold_locales (simp_all add: storage_browser_handled storage_browser_unowned)

end
