(* ===== verification/PortableFetch.thy ===== *)
theory PortableFetch
  imports Portable
begin

text \<open>
  \<open>crates/obscura-cdp/src/portable_fetch.rs\<close>: the commands of the Fetch domain, interception patterns and
  the one-shot resolution of paused requests. The base64 decoder is the parameter \<open>b64_decode\<close>.
\<close>

definition MAX_FETCH_METHOD_BYTES :: nat where "MAX_FETCH_METHOD_BYTES = 32"
definition MAX_FETCH_HEADER_NAME_BYTES :: nat where "MAX_FETCH_HEADER_NAME_BYTES = 1024"
definition MAX_FETCH_REASON_BYTES :: nat where "MAX_FETCH_REASON_BYTES = 256"

definition fetch_failure :: "cdp_request \<Rightarrow> cdp_failure \<Rightarrow> cdp_response" where
  "fetch_failure rq e =
     refuse rq (case e of InvalidArgument _ \<Rightarrow> -32602 | Unsupported _ \<Rightarrow> -32601 | _ \<Rightarrow> -32000) (show_failure e)"

definition fetch_supports :: "string \<Rightarrow> bool" where
  "fetch_supports method \<longleftrightarrow> method \<in> set
     [''Fetch.enable'', ''Fetch.disable'', ''Fetch.continueRequest'', ''Fetch.fulfillRequest'', ''Fetch.failRequest'',
      ''Fetch.getResponseBody'']"

definition any_request :: fetch_pattern where
  "any_request = \<lparr>fp_url_pattern = ''*'', fp_request_stage = ''Request''\<rparr>"

fun parse_pattern_list :: "json list \<Rightarrow> fetch_pattern list cdp_result" where
  "parse_pattern_list [] = Inr []"
| "parse_pattern_list (v # vs) =
     (if as_object v = None then Inl (invalid_argument ''Fetch pattern must be an object'')
      else
        (let url_pattern = unwrap_or (str_field v ''urlPattern'') ''*'';
             request_stage = unwrap_or (str_field v ''requestStage'') ''Request''
         in if MAX_FETCH_PATTERN_BYTES < length url_pattern
            then Inl (invalid_argument ''Fetch urlPattern exceeds the byte limit'')
            else if \<not> (request_stage = ''Request'' \<or> request_stage = ''Response'')
            then Inl (invalid_argument ''Fetch requestStage must be Request or Response'')
            else and_then (parse_pattern_list vs) (\<lambda>ps.
              Inr (\<lparr>fp_url_pattern = url_pattern, fp_request_stage = request_stage\<rparr> # ps))))"

definition parse_patterns :: "json \<Rightarrow> fetch_pattern list cdp_result" where
  "parse_patterns params =
     (case json_get params ''patterns'' of
        None \<Rightarrow> Inr [any_request]
      | Some raw \<Rightarrow>
         (case as_array raw of
            None \<Rightarrow> Inl (invalid_argument ''Fetch patterns must be an array'')
          | Some patterns \<Rightarrow>
             (if MAX_FETCH_PATTERNS < length patterns
              then Inl (invalid_argument ''Fetch patterns exceed the 64-item limit'')
              else and_then (parse_pattern_list patterns) (\<lambda>parsed.
                Inr (if parsed = [] then [any_request] else parsed)))))"

definition fetch_request_id :: "json \<Rightarrow> string cdp_result" where
  "fetch_request_id params =
     (case str_field params ''requestId'' of
        None \<Rightarrow> Inl (invalid_argument ''requestId is required'')
      | Some v \<Rightarrow>
         (if v = [] \<or> MAX_NETWORK_REQUEST_ID_BYTES < length v
          then Inl (invalid_argument ''Fetch requestId exceeds the byte limit'') else Inr v))"

fun validate_header_list :: "json list \<Rightarrow> unit cdp_result" where
  "validate_header_list [] = Inr ()"
| "validate_header_list (h # hs) =
     (if as_object h = None then Inl (invalid_argument ''Fetch header must be an object'')
      else
        (let name = unwrap_or (str_field h ''name'') []; val = unwrap_or (str_field h ''value'') [] in
         if name = [] \<or> MAX_FETCH_HEADER_NAME_BYTES < length name
         then Inl (invalid_argument ''Fetch header name is invalid'')
         else if MAX_NETWORK_HEADER_BYTES < length val
         then Inl (invalid_argument ''Fetch header value exceeds the byte limit'')
         else validate_header_list hs))"

definition validate_headers :: "json \<Rightarrow> unit cdp_result" where
  "validate_headers v =
     (case as_array v of
        None \<Rightarrow> Inl (invalid_argument ''Fetch headers must be an array'')
      | Some headers \<Rightarrow>
         (if 256 < length headers then Inl (invalid_argument ''Fetch headers exceed the 256-item limit'')
          else validate_header_list headers))"

definition resolve_request :: "cdp_request \<Rightarrow> page_id \<Rightarrow> string \<Rightarrow> json \<Rightarrow> browser \<Rightarrow> cdp_response \<times> browser" where
  "resolve_request rq p r payload s =
     (case queue_fetch_resolution s p r payload of
        (Inr True, s') \<Rightarrow> (answer rq (JObj []), s')
      | (Inr False, s') \<Rightarrow> (refuse rq (-32602) ''Invalid InterceptionId'', s')
      | (Inl e, s') \<Rightarrow> (fetch_failure rq e, s'))"

definition longer :: "nat \<Rightarrow> string option \<Rightarrow> bool" where
  "longer n v = (case v of Some x \<Rightarrow> n < length x | None \<Rightarrow> False)"

definition fetch_continue :: "cdp_request \<Rightarrow> page_id \<Rightarrow> browser \<Rightarrow> cdp_response \<times> browser" where
  "fetch_continue rq p s =
     (case fetch_request_id (rq_params rq) of
        Inl e \<Rightarrow> (fetch_failure rq e, s)
      | Inr r \<Rightarrow>
         (let url = str_field (rq_params rq) ''url''; method = str_field (rq_params rq) ''method'';
              post_data = str_field (rq_params rq) ''postData'';
              headers = unwrap_or (json_get (rq_params rq) ''headers'') JNull
          in if longer MAX_NETWORK_RESPONSE_WIRE_BYTES url \<or> longer MAX_FETCH_METHOD_BYTES method
                \<or> longer MAX_NETWORK_RESPONSE_WIRE_BYTES post_data
             then (refuse rq (-32602) ''Fetch continuation payload exceeds the byte limit'', s)
             else case (if headers = JNull then Inr () else validate_headers headers) of
               Inl e \<Rightarrow> (fetch_failure rq e, s)
             | Inr _ \<Rightarrow>
                 resolve_request rq p r (json_obj [(''requestId'', JStr r), (''action'', JStr ''continue''),
                   (''url'', json_opt JStr url), (''method'', json_opt JStr method), (''headers'', headers),
                   (''postData'', json_opt JStr post_data)]) s))"

definition fetch_fulfill :: "(string \<Rightarrow> string option) \<Rightarrow> cdp_request \<Rightarrow> page_id \<Rightarrow> browser \<Rightarrow> cdp_response \<times> browser" where
  "fetch_fulfill b64_decode rq p s =
     (case fetch_request_id (rq_params rq) of
        Inl e \<Rightarrow> (fetch_failure rq e, s)
      | Inr r \<Rightarrow>
         (let status = unwrap_or (u64_field (rq_params rq) ''responseCode'') 200 in
          if 65535 < status then (refuse rq (-32602) ''responseCode is out of range'', s)
          else
            (let headers = unwrap_or (json_get (rq_params rq) ''responseHeaders'') (JArr []) in
             case validate_headers headers of
               Inl e \<Rightarrow> (fetch_failure rq e, s)
             | Inr _ \<Rightarrow>
                (let body = unwrap_or (str_field (rq_params rq) ''body'') [] in
                 if MAX_NETWORK_RESPONSE_WIRE_BYTES < length body
                 then (refuse rq (-32602) ''Fetch fulfill body exceeds the byte limit'', s)
                 else case b64_decode body of
                   None \<Rightarrow> (refuse rq (-32602) ''Fetch fulfill body is not valid base64'', s)
                 | Some decoded \<Rightarrow>
                    (if MAX_NETWORK_RESPONSE_BODY_BYTES < length decoded
                     then (refuse rq (-32602) ''Fetch fulfill body exceeds the response limit'', s)
                     else resolve_request rq p r (json_obj [(''requestId'', JStr r), (''action'', JStr ''fulfill''),
                       (''status'', json_nat status), (''headers'', headers), (''bodyBase64'', JStr body)]) s)))))"

definition fetch_fail :: "cdp_request \<Rightarrow> page_id \<Rightarrow> browser \<Rightarrow> cdp_response \<times> browser" where
  "fetch_fail rq p s =
     (case fetch_request_id (rq_params rq) of
        Inl e \<Rightarrow> (fetch_failure rq e, s)
      | Inr r \<Rightarrow>
         (let reason = unwrap_or (str_field (rq_params rq) ''errorReason'') ''Failed'' in
          if MAX_FETCH_REASON_BYTES < length reason
          then (refuse rq (-32602) ''Fetch errorReason exceeds the byte limit'', s)
          else resolve_request rq p r (json_obj [(''requestId'', JStr r), (''action'', JStr ''fail''),
            (''reason'', JStr reason)]) s))"

definition fetch_dispatch ::
    "(string \<Rightarrow> string option) \<Rightarrow> page_id \<Rightarrow> session_id option \<Rightarrow> cdp_request \<Rightarrow> browser \<Rightarrow> cdp_response \<times> browser" where
  "fetch_dispatch b64_decode p session rq s =
     (let method = rq_method rq; params = rq_params rq in
      if method = ''Fetch.enable'' then
        (case session of
           None \<Rightarrow> (refuse rq (-32600) ''Fetch.enable requires a target session'', s)
         | Some i \<Rightarrow>
            (case parse_patterns params of
               Inl e \<Rightarrow> (fetch_failure rq e, s)
             | Inr patterns \<Rightarrow> acknowledge fetch_failure rq (set_fetch_patterns s p i patterns)))
      else if method = ''Fetch.disable'' then
        (case session of
           None \<Rightarrow> (refuse rq (-32600) ''Fetch.disable requires a target session'', s)
         | Some i \<Rightarrow> acknowledge fetch_failure rq (clear_fetch_patterns s p i))
      else if method = ''Fetch.continueRequest'' then
        (if session = None then (refuse rq (-32600) ''Fetch.continueRequest requires a target session'', s)
         else fetch_continue rq p s)
      else if method = ''Fetch.fulfillRequest'' then
        (if session = None then (refuse rq (-32600) ''Fetch.fulfillRequest requires a target session'', s)
         else fetch_fulfill b64_decode rq p s)
      else if method = ''Fetch.failRequest'' then
        (if session = None then (refuse rq (-32600) ''Fetch.failRequest requires a target session'', s)
         else fetch_fail rq p s)
      else if method = ''Fetch.getResponseBody'' then
        (case fetch_request_id params of
           Inl e \<Rightarrow> (fetch_failure rq e, s)
         | Inr r \<Rightarrow>
            (case get_response_body s p r of
               Inr body \<Rightarrow> (answer rq (json_obj [(''body'', JStr (rb_body body)), (''base64Encoded'', JBool (rb_base64 body))]), s)
             | Inl _ \<Rightarrow> (refuse rq (-32000) (''No response body found for requestId '' @ r), s)))
      else (refuse rq (-32601) ''method is not implemented by portable Fetch dispatch'', s))"

section \<open>The contract\<close>

lemma fetch_failure_answers [simp]: "answers rq (fetch_failure rq e)"
  by (cases e) (simp_all add: fetch_failure_def)

lemma set_page_same:
  assumes "bs_inv s" and "bm_get (bs_pages s) p = Some pg"
  shows "set_page p pg s = s"
proof -
  have "bm_ok (bs_pages s)" using inv_content [OF assms(1)] by (simp add: content_ok_def)
  then have "bm_insert p pg (bs_pages s) = bs_pages s" using assms(2) by (rule bm_insert_same)
  then show ?thesis by (simp add: set_page_def)
qed

text \<open>A resolution that is not queued, for want of a paused request or of room, changes nothing.\<close>

lemma queue_refused:
  assumes inv: "bs_inv s" and r: "fst (queue_fetch_resolution s p r v) \<noteq> Inr True"
  shows "snd (queue_fetch_resolution s p r v) = s"
proof (cases "bm_get (bs_pages s) p")
  case None
  then show ?thesis by (simp add: queue_fetch_resolution_def page_of_def need_def attempt_def)
next
  case (Some pg)
  let ?w = "pg_network pg"
  have ok: "bm_ok (nw_paused_requests ?w)" "bm_ok (bs_fetch_resolutions s)" "bm_ok (bs_pages s)"
    using inv_content [OF inv] Some by (auto simp: content_ok_def network_ok_def)
  show ?thesis
  proof (cases "bm_has (nw_paused_requests ?w) r")
    case False
    then have "bm_remove r (nw_paused_requests ?w) = nw_paused_requests ?w" by (simp only: bm_has_def not_not bm_remove_absent)
    then show ?thesis
      using Some False set_page_same [OF inv Some]
      by (simp add: queue_fetch_resolution_def page_of_def need_def attempt_def Let_def)
  next
    case True
    define q where "q = (case bm_get (bs_fetch_resolutions s) p of Some q \<Rightarrow> q | None \<Rightarrow> [])"
    have full: "MAX_FETCH_RESOLUTIONS \<le> length q"
      using r Some True by (auto simp: queue_fetch_resolution_def page_of_def need_def attempt_def Let_def set_page_def q_def
          split: if_splits)
    then have "bm_get (bs_fetch_resolutions s) p = Some q"
      by (auto simp: q_def MAX_FETCH_RESOLUTIONS_def split: option.splits)
    then have same: "bm_insert p q (bs_fetch_resolutions s) = bs_fetch_resolutions s" by (rule bm_insert_same [OF ok(2)])
    have again: "bm_insert r () (bm_remove r (nw_paused_requests ?w)) = nw_paused_requests ?w"
      using True ok(1) by (intro bm_ok_ext) (auto simp: bm_get_insert bm_get_remove bm_has_Some)
    have "bm_insert p pg (bm_insert p pg' (bs_pages s)) = bs_pages s" for pg'
      using Some ok(3) by (intro bm_ok_ext) (auto simp: bm_get_insert)
    then show ?thesis
      using Some True full again same
      by (simp add: queue_fetch_resolution_def page_of_def need_def attempt_def Let_def set_page_def set_network_def q_def [symmetric])
  qed
qed

lemma resolve_handled [handling]: "handled cd host_of clean rq s (resolve_request rq p r payload s)"
proof -
  obtain x s' where q: "queue_fetch_resolution s p r payload = (x, s')" by fastforce
  then have "one_call cd host_of s s'" using state_calls(21) [of cd host_of s p r payload] by simp
  moreover have "bs_inv s \<Longrightarrow> x \<noteq> Inr True \<Longrightarrow> s' = s" using queue_refused [of s p r payload] q by simp
  ultimately show ?thesis by (auto simp: handled_def resolve_request_def q split: sum.split bool.split)
qed

lemma resolution_handled [handling]:
  "handled cd host_of clean rq s (fetch_continue rq p s)"
  "handled cd host_of clean rq s (fetch_fulfill b64_decode rq p s)"
  "handled cd host_of clean rq s (fetch_fail rq p s)"
  unfolding fetch_continue_def fetch_fulfill_def fetch_fail_def Let_def by (intro handling; simp)+

lemma fetch_handled: "handled cd host_of (rq_method rq \<noteq> ''Fetch.disable'') rq s (fetch_dispatch b64_decode p session rq s)"
proof (cases "rq_method rq = ''Fetch.disable''")
  case True
  have "one_call cd host_of s (snd (clear_fetch_patterns s p i))" for i by (rule state_calls)
  then show ?thesis using True by (simp add: fetch_dispatch_def handled_def split: option.split)
next
  case False
  have "handled cd host_of clean rq s (fetch_dispatch b64_decode p session rq s)" for clean
    unfolding fetch_dispatch_def Let_def by (simp only: False if_False) (intro handling state_ops; simp)
  then show ?thesis using False by simp
qed

lemma fetch_unowned: "\<not> fetch_supports (rq_method rq) \<Longrightarrow> snd (fetch_dispatch b64_decode p session rq s) = s"
  by (simp add: fetch_dispatch_def fetch_supports_def Let_def)

interpretation fetch: cdp_handler cd host_of fetch_supports "\<lambda>m. m = ''Fetch.disable''" "fetch_dispatch b64_decode p session"
  by unfold_locales (simp_all add: fetch_handled fetch_unowned)

text \<open>
  How \<open>Fetch.disable\<close> fails half-way: with the queue of resolutions full and a request paused, the last session's
  patterns are gone although the command is refused.
\<close>

lemma disable_halfway:
  assumes pg: "bm_get (bs_pages s) p = Some pg" and last: "bm_remove i (nw_fetch_patterns (pg_network pg)) = []"
    and paused: "nw_paused_requests (pg_network pg) = (r, ()) # rs"
    and full: "bm_get (bs_fetch_resolutions s) p = Some q" "MAX_FETCH_RESOLUTIONS \<le> length q"
    and rq: "rq_method rq = ''Fetch.disable''"
  shows "case fetch_dispatch b64_decode p (Some i) rq s of
    (reply, s') \<Rightarrow> rs_error reply \<noteq> None \<and> fetch_patterns s' p i = None"
proof -
  have "\<exists>s'. clear_fetch_patterns s p i = (Inl ActionQueueFull, s') \<and> fetch_patterns s' p i = None"
    using assms
    by (simp add: clear_fetch_patterns_def queue_fetch_resolution_def page_of_def need_def attempt_def Let_def set_page_def
        set_network_def bm_keys_def bm_get_insert bm_has_def fetch_patterns_def) (simp add: bm_get_def)
  with rq show ?thesis by (auto simp: fetch_dispatch_def acknowledge_def fetch_failure_def)
qed

end
