(* ===== verification/PortablePage.thy ===== *)
theory PortablePage
  imports Portable
begin

text \<open>
  The state-only page domains of the portable dispatcher: \<open>portable_network.rs\<close>, \<open>portable_emulation.rs\<close>,
  \<open>portable_page.rs\<close> and \<open>portable_runtime.rs\<close> in \<open>crates/obscura-cdp/src\<close>.
\<close>

record page_dispatch =
  pd_response :: cdp_response
  pd_events :: "cdp_event list"

section \<open>Network\<close>

definition network_failure :: "cdp_request \<Rightarrow> cdp_failure \<Rightarrow> cdp_response" where
  "network_failure rq e =
     refuse rq (case e of InvalidArgument _ \<Rightarrow> -32602 | Unsupported _ \<Rightarrow> -32601 | _ \<Rightarrow> -32000) (show_failure e)"

definition network_supports :: "string \<Rightarrow> bool" where
  "network_supports method \<longleftrightarrow> method \<in> set
     [''Network.enable'', ''Network.disable'', ''Network.setCacheDisabled'', ''Network.setExtraHTTPHeaders'',
      ''Network.clearBrowserCache'', ''Network.getResponseBody'']"

fun collect_headers :: "(string \<times> json) list \<Rightarrow> (string, string) bmap \<Rightarrow> (string, string) bmap cdp_result" where
  "collect_headers [] m = Inr m"
| "collect_headers ((name, v) # rest) m =
     (case as_str v of
        None \<Rightarrow> Inl (invalid_argument ''Network header values must be strings'')
      | Some val \<Rightarrow> collect_headers rest (bm_insert name val m))"

definition network_parse_headers :: "json \<Rightarrow> (string, string) bmap cdp_result" where
  "network_parse_headers params =
     (case Option.bind (json_get params ''headers'') as_object of
        None \<Rightarrow> Inl (invalid_argument ''Network.setExtraHTTPHeaders requires an object'')
      | Some headers \<Rightarrow> collect_headers headers [])"

definition network_dispatch :: "page_id \<Rightarrow> session_id option \<Rightarrow> cdp_request \<Rightarrow> browser \<Rightarrow> cdp_response \<times> browser" where
  "network_dispatch p session rq s =
     (let method = rq_method rq; params = rq_params rq in
      if method = ''Network.enable'' then
        (case session of
           None \<Rightarrow> (refuse rq (-32600) ''Network.enable requires a target session'', s)
         | Some i \<Rightarrow> acknowledge network_failure rq (network_enable s p i))
      else if method = ''Network.disable'' then acknowledge network_failure rq (network_disable s p session)
      else if method = ''Network.setCacheDisabled'' then
        acknowledge network_failure rq (set_cache_disabled s p (unwrap_or (bool_field params ''cacheDisabled'') False))
      else if method = ''Network.setExtraHTTPHeaders'' then
        acknowledge network_failure rq (attempt (network_parse_headers params) s (set_extra_headers s p))
      else if method = ''Network.clearBrowserCache'' then acknowledge network_failure rq (clear_response_bodies s p)
      else if method = ''Network.getResponseBody'' then
        (case str_field params ''requestId'' of
           None \<Rightarrow> (refuse rq (-32602) ''requestId is required'', s)
         | Some r \<Rightarrow>
            (if r = [] \<or> MAX_NETWORK_REQUEST_ID_BYTES < length r
             then (refuse rq (-32602) ''requestId exceeds the 256-byte limit'', s)
             else case get_response_body s p r of
               Inr body \<Rightarrow> (answer rq (json_obj [(''body'', JStr (rb_body body)), (''base64Encoded'', JBool (rb_base64 body))]), s)
             | Inl _ \<Rightarrow> (refuse rq (-32000) (''No response body found for requestId '' @ r), s)))
      else (refuse rq (-32601) ''method is not implemented by portable Network dispatch'', s))"

section \<open>Emulation\<close>

definition emulation_failure :: "cdp_request \<Rightarrow> cdp_failure \<Rightarrow> cdp_response" where
  "emulation_failure rq e =
     refuse rq (case e of InvalidArgument _ \<Rightarrow> -32602 | Unsupported _ \<Rightarrow> -32601 | _ \<Rightarrow> -32000) (show_failure e)"

definition emulation_supports :: "string \<Rightarrow> bool" where
  "emulation_supports method \<longleftrightarrow> method \<in> set
     [''Emulation.setDeviceMetricsOverride'', ''Emulation.clearDeviceMetricsOverride'', ''Emulation.setEmulatedMedia'',
      ''Emulation.setFocusEmulationEnabled'', ''Page.getLayoutMetrics'']"

definition device_metrics :: "(int \<Rightarrow> f64) \<Rightarrow> page_id \<Rightarrow> cdp_request \<Rightarrow> browser \<Rightarrow> cdp_response \<times> browser" where
  "device_metrics rnd p rq s =
     (let params = rq_params rq in
      case u64_field params ''width'' of
        None \<Rightarrow> (refuse rq (-32602) ''width is required'', s)
      | Some width \<Rightarrow>
         (case u64_field params ''height'' of
            None \<Rightarrow> (refuse rq (-32602) ''height is required'', s)
          | Some height \<Rightarrow>
             (if \<not> (width \<le> u32_max \<and> 1 \<le> width \<and> width \<le> MAX_VIEWPORT_DIMENSION)
              then (refuse rq (-32602) ''width must be between 1 and 4096'', s)
              else if \<not> (height \<le> u32_max \<and> 1 \<le> height \<and> height \<le> MAX_VIEWPORT_DIMENSION)
              then (refuse rq (-32602) ''height must be between 1 and 4096'', s)
              else
                (let scale = unwrap_or (Option.bind (json_get params ''deviceScaleFactor'') (as_f64 rnd)) (Finite 1);
                     mobile = unwrap_or (bool_field params ''mobile'') False
                 in acknowledge emulation_failure rq (set_device_metrics s p width height scale mobile)))))"

definition layout_metrics :: "page_display \<Rightarrow> json" where
  "layout_metrics d =
     (let width = json_nat (dp_width d); height = json_nat (dp_height d); x = json_f64 (dp_page_x d); y = json_f64 (dp_page_y d) in
      json_obj
        [(''layoutViewport'', json_obj [(''pageX'', x), (''pageY'', y), (''clientWidth'', width), (''clientHeight'', height)]),
         (''visualViewport'', json_obj [(''offsetX'', json_nat 0), (''offsetY'', json_nat 0), (''pageX'', x), (''pageY'', y),
            (''scale'', json_nat 1), (''zoom'', json_nat 1), (''clientWidth'', width), (''clientHeight'', height)]),
         (''contentSize'', json_obj [(''x'', json_nat 0), (''y'', json_nat 0), (''width'', json_f64 (dp_content_width d)),
            (''height'', json_f64 (dp_content_height d))])])"

definition emulation_dispatch :: "(int \<Rightarrow> f64) \<Rightarrow> page_id \<Rightarrow> cdp_request \<Rightarrow> browser \<Rightarrow> cdp_response \<times> browser" where
  "emulation_dispatch rnd p rq s =
     (let method = rq_method rq; params = rq_params rq in
      if method = ''Emulation.setDeviceMetricsOverride'' then device_metrics rnd p rq s
      else if method = ''Emulation.clearDeviceMetricsOverride'' then acknowledge emulation_failure rq (clear_device_metrics s p)
      else if method = ''Emulation.setEmulatedMedia'' then
        acknowledge emulation_failure rq (set_emulated_media s p (unwrap_or (str_field params ''media'') []))
      else if method = ''Emulation.setFocusEmulationEnabled'' then
        acknowledge emulation_failure rq (set_focus_emulation s p (unwrap_or (bool_field params ''enabled'') False))
      else if method = ''Page.getLayoutMetrics'' then
        (if find_page s p = None then (refuse rq (-32000) ''target is not known'', s)
         else (answer rq (layout_metrics (unwrap_or (display_state s p) display_default)), s))
      else (refuse rq (-32601) ''method is not implemented by portable Emulation dispatch'', s))"

section \<open>Page\<close>

definition page_supports :: "string \<Rightarrow> bool" where
  "page_supports method \<longleftrightarrow> method \<in> set
     [''Page.enable'', ''Page.disable'', ''Page.getFrameTree'', ''Page.getNavigationHistory'', ''Page.resetNavigationHistory'']"

definition frame_tree :: "page_state \<Rightarrow> json" where
  "frame_tree pg = json_obj [(''frameTree'', json_obj [(''frame'', json_obj
     [(''id'', JStr (pg_frame_id pg)), (''loaderId'', JStr (pg_loader_id pg)), (''url'', JStr (pg_url pg)),
      (''domainAndRegistry'', JStr []), (''securityOrigin'', JStr (pg_url pg)), (''mimeType'', JStr ''text/html''),
      (''name'', JStr [])])])]"

definition navigation_history :: "page_state \<Rightarrow> page_history option \<Rightarrow> json" where
  "navigation_history pg history =
     (case history of
        None \<Rightarrow> json_obj [(''currentIndex'', json_nat 0), (''entries'', JArr [json_obj
           [(''id'', json_nat 1), (''url'', JStr (pg_url pg)), (''userTypedURL'', JStr (pg_url pg)),
            (''title'', JStr (pg_title pg)), (''transitionType'', JStr ''typed'')]])]
      | Some h \<Rightarrow> json_obj [(''currentIndex'', json_nat (hi_current_index h)),
           (''entries'', JArr (map history_entry_json (hi_entries h)))])"

definition page_dispatch_state :: "page_id \<Rightarrow> cdp_request \<Rightarrow> browser \<Rightarrow> cdp_response \<times> browser" where
  "page_dispatch_state p rq s =
     (case find_page s p of
        None \<Rightarrow> (refuse rq (-32000) (''unknown page '' @ show_nat (page_num p)), s)
      | Some pg \<Rightarrow>
         (let method = rq_method rq in
          if method = ''Page.enable'' \<or> method = ''Page.disable'' then (answer rq (JObj []), s)
          else if method = ''Page.resetNavigationHistory'' then
            acknowledge (\<lambda>rq e. refuse rq (-32000) (show_failure e)) rq (reset_navigation_history s p)
          else if method = ''Page.getFrameTree'' then (answer rq (frame_tree pg), s)
          else if method = ''Page.getNavigationHistory'' then (answer rq (navigation_history pg (find_history s p)), s)
          else (refuse rq (-32601) ''method is not implemented by portable Page dispatch'', s)))"

section \<open>Runtime\<close>

definition runtime_supports :: "string \<Rightarrow> bool" where
  "runtime_supports method \<longleftrightarrow> method \<in> set [''Runtime.enable'', ''Runtime.disable'']"

definition context_created :: "page_id \<Rightarrow> page_state \<Rightarrow> json" where
  "context_created p pg = json_obj [(''context'', json_obj
     [(''id'', json_nat 1), (''origin'', JStr (pg_url pg)), (''name'', JStr []),
      (''uniqueId'', JStr (''page-'' @ show_nat (page_num p) @ '':default'')),
      (''auxData'', json_obj [(''isDefault'', JBool True), (''type'', JStr ''default''), (''frameId'', JStr (pg_frame_id pg))])])]"

text \<open>An event for the session of the request, or for the connection when it has none.\<close>

definition session_event :: "cdp_request \<Rightarrow> string \<Rightarrow> json \<Rightarrow> cdp_event" where
  "session_event rq method params =
     (case rq_session_id rq of Some i \<Rightarrow> event_with_session method params i | None \<Rightarrow> event_new method params)"

definition runtime_dispatch :: "cdp_request \<Rightarrow> browser \<Rightarrow> page_id \<Rightarrow> page_dispatch option" where
  "runtime_dispatch rq s p =
     (if \<not> runtime_supports (rq_method rq) then None
      else case find_page s p of
        None \<Rightarrow> None
      | Some pg \<Rightarrow>
         Some \<lparr>pd_response = answer rq (JObj []),
               pd_events = (if rq_method rq = ''Runtime.enable''
                            then [session_event rq ''Runtime.executionContextCreated'' (context_created p pg)] else [])\<rparr>)"

section \<open>The contracts\<close>

lemma page_failure_answers [simp]: "answers rq (network_failure rq e)" "answers rq (emulation_failure rq e)"
  by (cases e; simp add: network_failure_def emulation_failure_def)+

lemma network_handled: "handled cd host_of clean rq s (network_dispatch p session rq s)"
  unfolding network_dispatch_def Let_def by (intro handling state_ops attempt_ok) simp_all

lemma emulation_handled: "handled cd host_of clean rq s (emulation_dispatch rnd p rq s)"
  unfolding emulation_dispatch_def device_metrics_def Let_def by (intro handling state_ops) simp_all

lemma page_state_handled: "handled cd host_of clean rq s (page_dispatch_state p rq s)"
  unfolding page_dispatch_state_def Let_def by (intro handling state_ops) simp_all

lemma page_domains_unowned:
  "\<not> network_supports (rq_method rq) \<Longrightarrow> snd (network_dispatch p session rq s) = s"
  "\<not> emulation_supports (rq_method rq) \<Longrightarrow> snd (emulation_dispatch rnd p rq s) = s"
  "\<not> page_supports (rq_method rq) \<Longrightarrow> snd (page_dispatch_state p rq s) = s"
  by (simp_all add: network_dispatch_def network_supports_def emulation_dispatch_def emulation_supports_def
      page_dispatch_state_def page_supports_def Let_def split: option.split)

interpretation network: cdp_handler cd host_of network_supports "\<lambda>_. False" "network_dispatch p session"
  by unfold_locales (simp_all add: network_handled page_domains_unowned)

interpretation emulation: cdp_handler cd host_of emulation_supports "\<lambda>_. False" "emulation_dispatch rnd p"
  by unfold_locales (simp_all add: emulation_handled page_domains_unowned)

interpretation page: cdp_handler cd host_of page_supports "\<lambda>_. False" "page_dispatch_state p"
  by unfold_locales (simp_all add: page_state_handled page_domains_unowned)

end
