(* ===== verification/PortableDom.thy ===== *)
theory PortableDom
  imports PortablePage
begin

text \<open>
  The portable domains that read the document: \<open>portable_dom.rs\<close>, \<open>portable_domsnapshot.rs\<close> and
  \<open>portable_accessibility.rs\<close> in \<open>crates/obscura-cdp/src\<close>. The tree belongs to the host's page engine, which
  they reach through the trait \<open>DomBackend\<close>: a record of functions on the backend's state \<open>'b\<close>.
\<close>

record 'b dom_backend =
  db_document_handle :: "'b \<Rightarrow> nat"
  db_query_selector :: "nat \<Rightarrow> string \<Rightarrow> 'b \<Rightarrow> (string + nat) \<times> 'b"
  db_query_selector_all :: "nat \<Rightarrow> string \<Rightarrow> 'b \<Rightarrow> (string + nat list) \<times> 'b"
  db_outer_html :: "nat \<Rightarrow> 'b \<Rightarrow> (string + string) \<times> 'b"
  db_attributes :: "nat \<Rightarrow> 'b \<Rightarrow> (string + (string \<times> string) list) \<times> 'b"
  db_describe_node :: "nat \<Rightarrow> nat \<Rightarrow> 'b \<Rightarrow> (string + json) \<times> 'b"
  db_describe_children :: "nat \<Rightarrow> nat \<Rightarrow> 'b \<Rightarrow> (string + json list) \<times> 'b"
  db_capture_snapshot :: "string \<Rightarrow> string \<Rightarrow> json \<Rightarrow> 'b \<Rightarrow> (string + json) \<times> 'b"
  db_accessibility_tree :: "json \<Rightarrow> 'b \<Rightarrow> (string + json list) \<times> 'b"

text \<open>The answers of the two default methods of the trait.\<close>

definition no_snapshot :: "string \<Rightarrow> string \<Rightarrow> json \<Rightarrow> 'b \<Rightarrow> (string + json) \<times> 'b" where
  "no_snapshot url title params b = (Inl ''DOMSnapshot is not available for this backend'', b)"

definition no_accessibility :: "json \<Rightarrow> 'b \<Rightarrow> (string + json list) \<times> 'b" where
  "no_accessibility params b = (Inl ''Accessibility is not available for this backend'', b)"

definition MAX_DOM_DEPTH :: nat where "MAX_DOM_DEPTH = 64"

definition dom_depth :: "json \<Rightarrow> nat" where
  "dom_depth params =
     (let v = unwrap_or (Option.bind (json_get params ''depth'') as_i64) 1 in
      if v < 0 then MAX_DOM_DEPTH else min (if nat v \<le> usize_max then nat v else 1) MAX_DOM_DEPTH)"

definition dom_supports :: "string \<Rightarrow> bool" where
  "dom_supports method \<longleftrightarrow> method \<in> set
     [''DOM.enable'', ''DOM.disable'', ''DOM.getDocument'', ''DOM.querySelector'', ''DOM.querySelectorAll'',
      ''DOM.getOuterHTML'', ''DOM.getAttributes'', ''DOM.describeNode'', ''DOM.requestChildNodes'']"

text \<open>The match on the result of a backend call.\<close>

definition backed :: "cdp_request \<Rightarrow> ('a \<Rightarrow> json) \<Rightarrow> (string \<Rightarrow> string) \<Rightarrow> (string + 'a) \<times> 'b \<Rightarrow> cdp_response \<times> 'b" where
  "backed rq shape message r =
     (case r of (Inr v, b) \<Rightarrow> (answer rq (shape v), b) | (Inl e, b) \<Rightarrow> (refuse rq (-32000) (message e), b))"

definition with_urls :: "string \<Rightarrow> json \<Rightarrow> json" where
  "with_urls url node0 =
     (case node0 of
        JObj m \<Rightarrow> JObj (bm_insert ''baseURL'' (JStr url) (bm_insert ''documentURL'' (JStr url) m))
      | _ \<Rightarrow> node0)"

text \<open>The two checks of the selector commands.\<close>

definition selector_params :: "cdp_request \<Rightarrow> cdp_response + nat \<times> string" where
  "selector_params rq =
     (case str_field (rq_params rq) ''selector'' of
        None \<Rightarrow> Inl (refuse rq (-32602) ''selector must be a string'')
      | Some selector \<Rightarrow>
         (case u32_field (rq_params rq) ''nodeId'' of
            None \<Rightarrow> Inl (refuse rq (-32602) ''nodeId must be a positive u32'')
          | Some node0 \<Rightarrow>
             (if node0 = 0 then Inl (refuse rq (-32602) ''nodeId must be a positive u32'') else Inr (node0, selector))))"

definition attribute_values :: "(string \<times> string) list \<Rightarrow> json list" where
  "attribute_values vs = concat (map (\<lambda>(name, v). [JStr name, JStr v]) vs)"

definition dom_respond ::
    "'b dom_backend \<Rightarrow> cdp_request \<Rightarrow> page_state \<Rightarrow> 'b \<Rightarrow> (cdp_response \<times> 'b) \<times> cdp_event list" where
  "dom_respond db rq pg b =
     (let method = rq_method rq; params = rq_params rq; node_id = unwrap_or (u32_field params ''nodeId'') 0 in
      if method = ''DOM.enable'' \<or> method = ''DOM.disable'' then ((answer rq (JObj []), b), [])
      else if method = ''DOM.getDocument'' then
        (backed rq (\<lambda>node0. json_obj [(''root'', with_urls (pg_url pg) node0)]) (\<lambda>e. e)
          (db_describe_node db (db_document_handle db b) (dom_depth params) b), [])
      else if method = ''DOM.querySelector'' then
        (case selector_params rq of
           Inl r \<Rightarrow> ((r, b), [])
         | Inr (node0, selector) \<Rightarrow>
             (backed rq (\<lambda>n. json_obj [(''nodeId'', json_nat n)]) (\<lambda>_. ''DOM selector failed'')
               (db_query_selector db node0 selector b), []))
      else if method = ''DOM.querySelectorAll'' then
        (case selector_params rq of
           Inl r \<Rightarrow> ((r, b), [])
         | Inr (node0, selector) \<Rightarrow>
             (backed rq (\<lambda>ns. json_obj [(''nodeIds'', JArr (map json_nat ns))]) (\<lambda>_. ''DOM selector failed'')
               (db_query_selector_all db node0 selector b), []))
      else if method = ''DOM.getOuterHTML'' then
        (backed rq (\<lambda>html. json_obj [(''outerHTML'', JStr html)]) (\<lambda>_. ''DOM node is not known'') (db_outer_html db node_id b), [])
      else if method = ''DOM.getAttributes'' then
        (backed rq (\<lambda>vs. json_obj [(''attributes'', JArr (attribute_values vs))]) (\<lambda>_. ''DOM node is not known'')
          (db_attributes db node_id b), [])
      else if method = ''DOM.describeNode'' then
        (backed rq (\<lambda>node. json_obj [(''node'', node)]) (\<lambda>e. e)
          (db_describe_node db (unwrap_or (u32_field params ''nodeId'') (db_document_handle db b)) (dom_depth params) b), [])
      else if method = ''DOM.requestChildNodes'' then
        (case db_describe_children db node_id (dom_depth params) b of
           (Inr nodes, b') \<Rightarrow>
             ((answer rq (JObj []), b'),
              [session_event rq ''DOM.setChildNodes'' (json_obj [(''parentId'', json_nat node_id), (''nodes'', JArr nodes)])])
         | (Inl e, b') \<Rightarrow> ((refuse rq (-32000) e, b'), []))
      else ((refuse rq (-32601) ''method is not implemented by portable DOM dispatch'', b), []))"

definition dom_dispatch ::
    "'b dom_backend \<Rightarrow> cdp_request \<Rightarrow> browser \<Rightarrow> page_id \<Rightarrow> 'b \<Rightarrow> page_dispatch option \<times> 'b" where
  "dom_dispatch db rq s p b =
     (if \<not> dom_supports (rq_method rq) then (None, b)
      else case find_page s p of
        None \<Rightarrow> (None, b)
      | Some pg \<Rightarrow>
         (case dom_respond db rq pg b of
            ((r, b'), events) \<Rightarrow> (Some \<lparr>pd_response = r, pd_events = events\<rparr>, b')))"

section \<open>Snapshots\<close>

definition domsnapshot_supports :: "string \<Rightarrow> bool" where
  "domsnapshot_supports method \<longleftrightarrow> method \<in> set [''DOMSnapshot.enable'', ''DOMSnapshot.disable'', ''DOMSnapshot.captureSnapshot'']"

definition domsnapshot_dispatch ::
    "'b dom_backend \<Rightarrow> cdp_request \<Rightarrow> browser \<Rightarrow> page_id \<Rightarrow> 'b \<Rightarrow> cdp_response option \<times> 'b" where
  "domsnapshot_dispatch db rq s p b =
     (if \<not> domsnapshot_supports (rq_method rq) then (None, b)
      else case find_page s p of
        None \<Rightarrow> (None, b)
      | Some pg \<Rightarrow>
         apfst Some
          (if rq_method rq = ''DOMSnapshot.enable'' \<or> rq_method rq = ''DOMSnapshot.disable'' then (answer rq (JObj []), b)
           else if rq_method rq = ''DOMSnapshot.captureSnapshot'' then
             backed rq (\<lambda>snapshot. snapshot) (\<lambda>e. e) (db_capture_snapshot db (pg_url pg) (pg_title pg) (rq_params rq) b)
           else (refuse rq (-32000) ''method is not implemented by portable DOMSnapshot dispatch'', b)))"

section \<open>Accessibility\<close>

definition accessibility_supports :: "string \<Rightarrow> bool" where
  "accessibility_supports method \<longleftrightarrow>
     method \<in> set [''Accessibility.enable'', ''Accessibility.disable'', ''Accessibility.getFullAXTree'']"

definition accessibility_dispatch ::
    "'b dom_backend \<Rightarrow> cdp_request \<Rightarrow> browser \<Rightarrow> page_id \<Rightarrow> 'b \<Rightarrow> cdp_response option \<times> 'b" where
  "accessibility_dispatch db rq s p b =
     (if \<not> accessibility_supports (rq_method rq) then (None, b)
      else case find_page s p of
        None \<Rightarrow> (None, b)
      | Some pg \<Rightarrow>
         apfst Some
          (if rq_method rq = ''Accessibility.enable'' \<or> rq_method rq = ''Accessibility.disable'' then (answer rq (JObj []), b)
           else if rq_method rq = ''Accessibility.getFullAXTree'' then
             backed rq (\<lambda>nodes. json_obj [(''nodes'', JArr nodes)]) (\<lambda>e. e) (db_accessibility_tree db (rq_params rq) b)
           else (refuse rq (-32000) ''method is not implemented by portable Accessibility dispatch'', b)))"

section \<open>Answers\<close>

lemma backed_answers [simp]: "answers rq (fst (backed rq shape message r))"
  by (simp add: backed_def split: prod.split sum.split)

lemma selector_refused: "selector_params rq = Inl r \<Longrightarrow> answers rq r"
  by (auto simp: selector_params_def split: option.splits if_splits)

lemma dom_respond_answers: "answers rq (fst (fst (dom_respond db rq pg b)))"
  by (simp add: dom_respond_def Let_def case_prod_beta selector_refused split: sum.split)

text \<open>A command of these domains is answered for every known page, and only then.\<close>

lemma dom_answers:
  "fst (dom_dispatch db rq s p b) = Some d \<Longrightarrow> answers rq (pd_response d)"
  "fst (domsnapshot_dispatch db rq s p b) = Some r \<Longrightarrow> answers rq r"
  "fst (accessibility_dispatch db rq s p b) = Some r \<Longrightarrow> answers rq r"
  using dom_respond_answers [of rq db "the (find_page s p)" b]
  by (auto simp: dom_dispatch_def domsnapshot_dispatch_def accessibility_dispatch_def case_prod_beta
      split: if_splits option.splits)

lemma dom_returns:
  "fst (dom_dispatch db rq s p b) \<noteq> None \<longleftrightarrow> dom_supports (rq_method rq) \<and> find_page s p \<noteq> None"
  "fst (domsnapshot_dispatch db rq s p b) \<noteq> None \<longleftrightarrow> domsnapshot_supports (rq_method rq) \<and> find_page s p \<noteq> None"
  "fst (accessibility_dispatch db rq s p b) \<noteq> None \<longleftrightarrow> accessibility_supports (rq_method rq) \<and> find_page s p \<noteq> None"
  by (auto simp: dom_dispatch_def domsnapshot_dispatch_def accessibility_dispatch_def case_prod_beta split: option.split)

lemma dom_depth_bound: "dom_depth params \<le> 64"
  by (simp add: dom_depth_def Let_def MAX_DOM_DEPTH_def)

end
