(* ===== verification/PortableDispatch.thy ===== *)
theory PortableDispatch
  imports PortableStorage PortableFetch PortableDom CdpProps
begin

text \<open>
  \<open>crates/obscura-cdp/src/portable_dispatch.rs\<close>: the router over the portable domains. The libraries the
  handlers use are the environment: serde_json, the rounding to doubles, the crates \<open>url\<close> and \<open>base64\<close>.
  What it promises a client: every command of a portable domain is answered, with the identity and the session
  of the request, and whatever clients send, the browser state is one its own methods reach.
\<close>

record cdp_env =
  en_codec :: codec
  en_round :: "int \<Rightarrow> f64"
  en_host_of :: "string \<Rightarrow> string option option"
  en_base64 :: "string \<Rightarrow> string option"

definition page_response :: "cdp_response \<Rightarrow> page_dispatch" where
  "page_response r = \<lparr>pd_response = r, pd_events = []\<rparr>"

section \<open>The browser endpoint\<close>

definition supports_browser :: "string \<Rightarrow> bool" where
  "supports_browser method \<longleftrightarrow> target_supports method \<or> supports_browser_storage method"

definition dispatch_browser :: "cdp_env \<Rightarrow> nat \<Rightarrow> cdp_request \<Rightarrow> browser \<Rightarrow> cdp_response option \<times> browser" where
  "dispatch_browser env now_secs rq s =
     (if supports_browser_storage (rq_method rq)
      then apfst Some (storage_dispatch_browser (en_codec env) (en_round env) (en_host_of env) now_secs rq s)
      else if target_supports (rq_method rq) then apfst Some (target_dispatch rq s)
      else (None, s))"

section \<open>The page endpoint\<close>

definition supports_page :: "string \<Rightarrow> bool" where
  "supports_page method \<longleftrightarrow>
     storage_supports method \<or> fetch_supports method \<or> emulation_supports method \<or> network_supports method
     \<or> page_supports method \<or> dom_supports method \<or> domsnapshot_supports method \<or> accessibility_supports method
     \<or> runtime_supports method"

definition dispatch_page_impl ::
    "cdp_env \<Rightarrow> 'b dom_backend option \<Rightarrow> page_id \<Rightarrow> session_id option \<Rightarrow> nat \<Rightarrow> cdp_request \<Rightarrow> browser \<Rightarrow> 'b
      \<Rightarrow> page_dispatch option \<times> browser \<times> 'b" where
  "dispatch_page_impl env backend p session now_secs rq s b =
     (let method = rq_method rq in
      if storage_supports method then
        (case storage_dispatch (en_codec env) (en_round env) (en_host_of env) p now_secs rq s of
           (r, s') \<Rightarrow> (Some (page_response r), s', b))
      else if fetch_supports method then
        (case fetch_dispatch (en_base64 env) p session rq s of (r, s') \<Rightarrow> (Some (page_response r), s', b))
      else if emulation_supports method then
        (case emulation_dispatch (en_round env) p rq s of (r, s') \<Rightarrow> (Some (page_response r), s', b))
      else if network_supports method then
        (case network_dispatch p session rq s of (r, s') \<Rightarrow> (Some (page_response r), s', b))
      else if page_supports method then
        (case page_dispatch_state p rq s of (r, s') \<Rightarrow> (Some (page_response r), s', b))
      else if dom_supports method then
        (case backend of None \<Rightarrow> (None, s, b) | Some db \<Rightarrow> (case dom_dispatch db rq s p b of (r, b') \<Rightarrow> (r, s, b')))
      else if domsnapshot_supports method then
        (case backend of None \<Rightarrow> (None, s, b)
         | Some db \<Rightarrow> (case domsnapshot_dispatch db rq s p b of (r, b') \<Rightarrow> (map_option page_response r, s, b')))
      else if accessibility_supports method then
        (case backend of None \<Rightarrow> (None, s, b)
         | Some db \<Rightarrow> (case accessibility_dispatch db rq s p b of (r, b') \<Rightarrow> (map_option page_response r, s, b')))
      else if runtime_supports method then (runtime_dispatch rq s p, s, b)
      else (None, s, b))"

definition dispatch_page ::
    "cdp_env \<Rightarrow> page_id \<Rightarrow> session_id option \<Rightarrow> nat \<Rightarrow> cdp_request \<Rightarrow> browser \<Rightarrow> cdp_response option \<times> browser" where
  "dispatch_page env p session now_secs rq s =
     (case dispatch_page_impl env (None :: unit dom_backend option) p session now_secs rq s () of
        (r, s', _) \<Rightarrow> (map_option pd_response r, s'))"

definition dispatch_page_with_dom ::
    "cdp_env \<Rightarrow> 'b dom_backend \<Rightarrow> page_id \<Rightarrow> session_id option \<Rightarrow> nat \<Rightarrow> cdp_request \<Rightarrow> browser \<Rightarrow> 'b
      \<Rightarrow> page_dispatch option \<times> browser \<times> 'b" where
  "dispatch_page_with_dom env db p session now_secs rq s b = dispatch_page_impl env (Some db) p session now_secs rq s b"

section \<open>One owner per method\<close>

lemmas page_domains = storage_supports_def fetch_supports_def emulation_supports_def network_supports_def
  page_supports_def dom_supports_def domsnapshot_supports_def accessibility_supports_def runtime_supports_def

text \<open>No method belongs to two page domains, so the order in which they are asked does not matter.\<close>

definition page_domain_owners :: "string \<Rightarrow> bool list" where
  "page_domain_owners m = [storage_supports m, fetch_supports m, emulation_supports m, network_supports m, page_supports m,
     dom_supports m, domsnapshot_supports m, accessibility_supports m, runtime_supports m]"

lemma supports_page_owner: "supports_page m \<longleftrightarrow> True \<in> set (page_domain_owners m)"
  by (simp add: supports_page_def page_domain_owners_def)

definition page_methods :: "string list" where
  "page_methods =
     [''Network.getAllCookies'', ''Storage.getCookies'', ''Network.setCookies'', ''Storage.setCookies'',
      ''Network.deleteCookies'', ''Network.clearBrowserCookies'', ''Storage.clearDataForOrigin'',
      ''Fetch.enable'', ''Fetch.disable'', ''Fetch.continueRequest'', ''Fetch.fulfillRequest'', ''Fetch.failRequest'',
      ''Fetch.getResponseBody'', ''Emulation.setDeviceMetricsOverride'', ''Emulation.clearDeviceMetricsOverride'',
      ''Emulation.setEmulatedMedia'', ''Emulation.setFocusEmulationEnabled'', ''Page.getLayoutMetrics'',
      ''Network.enable'', ''Network.disable'', ''Network.setCacheDisabled'', ''Network.setExtraHTTPHeaders'',
      ''Network.clearBrowserCache'', ''Network.getResponseBody'', ''Page.enable'', ''Page.disable'', ''Page.getFrameTree'',
      ''Page.getNavigationHistory'', ''Page.resetNavigationHistory'', ''DOM.enable'', ''DOM.disable'', ''DOM.getDocument'',
      ''DOM.querySelector'', ''DOM.querySelectorAll'', ''DOM.getOuterHTML'', ''DOM.getAttributes'', ''DOM.describeNode'',
      ''DOM.requestChildNodes'', ''DOMSnapshot.enable'', ''DOMSnapshot.disable'', ''DOMSnapshot.captureSnapshot'',
      ''Accessibility.enable'', ''Accessibility.disable'', ''Accessibility.getFullAXTree'', ''Runtime.enable'', ''Runtime.disable'']"

lemma owned_methods: "\<forall>m \<in> set page_methods. length (filter (\<lambda>x. x) (page_domain_owners m)) = 1"
  by code_simp

lemma unowned_methods: "m \<notin> set page_methods \<Longrightarrow> filter (\<lambda>x. x) (page_domain_owners m) = []"
  by (simp add: page_methods_def page_domain_owners_def page_domains)

lemma one_owner: "length (filter (\<lambda>x. x) (page_domain_owners m)) \<le> 1"
  using owned_methods unowned_methods [of m] by (cases "m \<in> set page_methods") auto

section \<open>Answers and reachable states\<close>

text \<open>The domains that need the page to answer at all.\<close>

definition reads_page :: "string \<Rightarrow> bool" where
  "reads_page m \<longleftrightarrow> dom_supports m \<or> domsnapshot_supports m \<or> accessibility_supports m \<or> runtime_supports m"

lemma handled_pair:
  "handled cd host_of clean rq s (r, s') \<Longrightarrow> reachable cd host_of s \<Longrightarrow>
    answers rq r \<and> reachable cd host_of s' \<and> (clean \<and> rs_error r \<noteq> None \<longrightarrow> s' = s)"
  using one_call_reachable reachable_inv by (fastforce simp: handled_def)

lemma state_domains_only:
  "storage_supports m \<Longrightarrow> \<not> reads_page m" "fetch_supports m \<Longrightarrow> \<not> reads_page m" "emulation_supports m \<Longrightarrow> \<not> reads_page m"
  "network_supports m \<Longrightarrow> \<not> reads_page m" "page_supports m \<Longrightarrow> \<not> reads_page m"
  using one_owner [of m] by (auto simp: reads_page_def page_domain_owners_def split: if_splits)

lemma session_event_session [simp]: "ev_session_id (session_event rq method params) = rq_session_id rq"
  by (simp add: session_event_def event_with_session_def event_new_def split: option.split)

lemma dom_event_sessions:
  "fst (dom_dispatch db rq s p b) = Some d \<Longrightarrow> ev \<in> set (pd_events d) \<Longrightarrow> ev_session_id ev = rq_session_id rq"
  by (auto simp: dom_dispatch_def dom_respond_def Let_def split: if_splits option.splits sum.splits prod.splits)

lemma runtime_answers:
  "runtime_dispatch rq s p \<noteq> None \<longleftrightarrow> runtime_supports (rq_method rq) \<and> find_page s p \<noteq> None"
  "runtime_dispatch rq s p = Some d \<Longrightarrow> answers rq (pd_response d) \<and> (\<forall>ev \<in> set (pd_events d). ev_session_id ev = rq_session_id rq)"
  by (auto simp: runtime_dispatch_def split: option.splits if_splits)

lemma page_response_simps [simp]: "pd_response (page_response r) = r" "pd_events (page_response r) = []"
  by (simp_all add: page_response_def)

text \<open>What the page endpoint returns for one command.\<close>

definition served ::
    "cdp_env \<Rightarrow> cdp_request \<Rightarrow> browser \<Rightarrow> 'b \<Rightarrow> bool \<Rightarrow> page_dispatch option \<times> browser \<times> 'b \<Rightarrow> bool" where
  "served env rq s b answered out \<longleftrightarrow>
     (case out of (r, s', b') \<Rightarrow>
        reachable (en_codec env) (en_host_of env) s' \<and> (r \<noteq> None \<longleftrightarrow> answered) \<and> (r = None \<longrightarrow> s' = s \<and> b' = b)
        \<and> (\<forall>d. r = Some d \<longrightarrow> answers rq (pd_response d) \<and> (\<forall>ev \<in> set (pd_events d). ev_session_id ev = rq_session_id rq)
             \<and> (rs_error (pd_response d) \<noteq> None \<and> rq_method rq \<noteq> ''Fetch.disable'' \<longrightarrow> s' = s)))"

lemma served_state:
  assumes "handled (en_codec env) (en_host_of env) (rq_method rq \<noteq> ''Fetch.disable'') rq s out"
    and "reachable (en_codec env) (en_host_of env) s"
  shows "served env rq s b True (case out of (r, s') \<Rightarrow> (Some (page_response r), s', b))"
  using assms handled_pair [of "en_codec env" "en_host_of env" _ rq s "fst out" "snd out"]
  by (auto simp: served_def split: prod.split)

lemma served_read:
  assumes "reachable (en_codec env) (en_host_of env) s" and "r = None \<longleftrightarrow> \<not> answered" and "r = None \<Longrightarrow> b' = b"
    and "\<And>d. r = Some d \<Longrightarrow> answers rq (pd_response d) \<and> (\<forall>ev \<in> set (pd_events d). ev_session_id ev = rq_session_id rq)"
  shows "served env rq s b answered (r, s, b')"
  using assms by (auto simp: served_def)

lemma dom_silent:
  "fst (dom_dispatch db rq s p b) = None \<Longrightarrow> snd (dom_dispatch db rq s p b) = b"
  "fst (domsnapshot_dispatch db rq s p b) = None \<Longrightarrow> snd (domsnapshot_dispatch db rq s p b) = b"
  "fst (accessibility_dispatch db rq s p b) = None \<Longrightarrow> snd (accessibility_dispatch db rq s p b) = b"
  by (auto simp: dom_dispatch_def domsnapshot_dispatch_def accessibility_dispatch_def case_prod_beta
      split: if_splits option.splits)

lemma served_dom:
  "reachable (en_codec env) (en_host_of env) s \<Longrightarrow> dom_supports (rq_method rq) \<Longrightarrow>
    served env rq s b (find_page s p \<noteq> None) (case dom_dispatch db rq s p b of (r, b') \<Rightarrow> (r, s, b'))"
  unfolding case_prod_beta
  by (erule served_read) (use dom_returns(1) [of db rq s p b] dom_silent(1) dom_answers(1) dom_event_sessions in \<open>auto\<close>)

lemma served_snapshot:
  "reachable (en_codec env) (en_host_of env) s \<Longrightarrow> domsnapshot_supports (rq_method rq) \<Longrightarrow>
    served env rq s b (find_page s p \<noteq> None)
      (case domsnapshot_dispatch db rq s p b of (r, b') \<Rightarrow> (map_option page_response r, s, b'))"
  unfolding case_prod_beta
  by (erule served_read) (use dom_returns(2) [of db rq s p b] dom_silent(2) dom_answers(2) in \<open>auto\<close>)

lemma served_accessibility:
  "reachable (en_codec env) (en_host_of env) s \<Longrightarrow> accessibility_supports (rq_method rq) \<Longrightarrow>
    served env rq s b (find_page s p \<noteq> None)
      (case accessibility_dispatch db rq s p b of (r, b') \<Rightarrow> (map_option page_response r, s, b'))"
  unfolding case_prod_beta
  by (erule served_read) (use dom_returns(3) [of db rq s p b] dom_silent(3) dom_answers(3) in \<open>auto\<close>)

lemma served_runtime:
  "reachable (en_codec env) (en_host_of env) s \<Longrightarrow> runtime_supports (rq_method rq) \<Longrightarrow>
    served env rq s b (find_page s p \<noteq> None) (runtime_dispatch rq s p, s, b)"
  by (erule served_read) (use runtime_answers [of rq s p] in \<open>auto\<close>)

lemma served_none: "reachable (en_codec env) (en_host_of env) s \<Longrightarrow> served env rq s b False (None, s, b)"
  by (simp add: served_def)

lemma read_domains_apart:
  "dom_supports m \<Longrightarrow> \<not> runtime_supports m" "domsnapshot_supports m \<Longrightarrow> \<not> runtime_supports m"
  "accessibility_supports m \<Longrightarrow> \<not> runtime_supports m"
  using one_owner [of m] by (auto simp: page_domain_owners_def split: if_splits)

lemma served_page:
  assumes r: "reachable (en_codec env) (en_host_of env) s"
  shows "served env rq s b
      (supports_page (rq_method rq) \<and> (reads_page (rq_method rq) \<longrightarrow> find_page s p \<noteq> None \<and> (backend \<noteq> None \<or> runtime_supports (rq_method rq))))
      (dispatch_page_impl env backend p session now_secs rq s b)"
proof -
  let ?m = "rq_method rq"
  note state = served_state [OF storage_handled r] served_state [OF fetch_handled r] served_state [OF emulation_handled r]
    served_state [OF network_handled r] served_state [OF page_state_handled r]
  note reads = served_dom [OF r] served_snapshot [OF r] served_accessibility [OF r] served_runtime [OF r] served_none [OF r]
  consider (own) "storage_supports ?m \<or> fetch_supports ?m \<or> emulation_supports ?m \<or> network_supports ?m \<or> page_supports ?m"
    | (dom) "reads_page ?m" "\<not> (storage_supports ?m \<or> fetch_supports ?m \<or> emulation_supports ?m \<or> network_supports ?m \<or> page_supports ?m)"
    | (none) "\<not> supports_page ?m"
    by (auto simp: supports_page_def reads_page_def)
  then show ?thesis
  proof cases
    case own
    then have "supports_page ?m" "\<not> reads_page ?m" using state_domains_only by (auto simp: supports_page_def)
    then show ?thesis using own by (elim disjE; simp add: dispatch_page_impl_def Let_def state)
  next
    case dom
    then have "supports_page ?m" by (auto simp: supports_page_def reads_page_def)
    with dom show ?thesis
      using read_domains_apart [of ?m]
      by (cases backend) (auto simp: dispatch_page_impl_def Let_def reads_page_def reads simp del: not_None_eq)
  next
    case none
    then show ?thesis by (simp add: dispatch_page_impl_def Let_def supports_page_def reads)
  qed
qed

section \<open>Clients and host\<close>

lemma browser_served:
  assumes "reachable (en_codec env) (en_host_of env) s" and "dispatch_browser env now_secs rq s = (r, s')"
  shows "reachable (en_codec env) (en_host_of env) s' \<and> (r \<noteq> None \<longleftrightarrow> supports_browser (rq_method rq))
    \<and> (\<forall>x. r = Some x \<longrightarrow> answers rq x) \<and> (s' \<noteq> s \<longrightarrow> (\<exists>x. r = Some x \<and> rs_error x = None))"
proof -
  let ?h = "handled (en_codec env) (en_host_of env) True rq s"
  have good: "answers rq (fst x) \<and> reachable (en_codec env) (en_host_of env) (snd x) \<and> (rs_error (fst x) \<noteq> None \<longrightarrow> snd x = s)"
    if "?h x" for x using handled_pair [of "en_codec env" "en_host_of env" True rq s "fst x" "snd x"] that assms(1) by simp
  have "?h (storage_dispatch_browser (en_codec env) (en_round env) (en_host_of env) now_secs rq s)" "?h (target_dispatch rq s)"
    by (rule storage_browser_handled, rule target_handled)
  note good [OF this(1)] good [OF this(2)]
  with assms show ?thesis
    by (auto simp: dispatch_browser_def supports_browser_def apfst_def map_prod_def case_prod_beta split: if_splits)
qed

text \<open>What the browser goes through between commands of clients and calls of the host.\<close>

inductive client_reach :: "cdp_env \<Rightarrow> 'b dom_backend option \<Rightarrow> browser \<Rightarrow> 'b \<Rightarrow> bool" for env backend where
  Fresh: "client_reach env backend browser_new b"
| Browser_Command: "client_reach env backend s b \<Longrightarrow> dispatch_browser env now_secs rq s = (r, s') \<Longrightarrow> client_reach env backend s' b"
| Page_Command: "client_reach env backend s b \<Longrightarrow> dispatch_page_impl env backend p session now_secs rq s b = (r, s', b') \<Longrightarrow>
    client_reach env backend s' b'"
| Host_Call: "client_reach env backend s b \<Longrightarrow> bs_exec (en_codec env) (en_host_of env) s e = Some s' \<Longrightarrow> client_reach env backend s' b'"

lemma client_reachable: "client_reach env backend s b \<Longrightarrow> reachable (en_codec env) (en_host_of env) s"
proof (induction rule: client_reach.induct)
  case (Page_Command s b p session now_secs rq r s' b')
  then show ?case using served_page [of env s rq b p backend session now_secs] by (simp add: served_def)
qed (auto intro: reachable.intros dest: browser_served)

text \<open>
  C16. Whatever commands clients send, malformed ones included, and whatever the host calls in between: every
  command of a portable domain is answered. A page command gets an answer
  exactly when its domain is portable and, for the domains that read the document, the page is known. The answer
  carries the identity and the session of the request and either a result or an error with one of four codes,
  events go to the session that asked, the new state is one the browser's own methods reach, and a command that is
  refused has changed nothing; \<open>Fetch.disable\<close> is the one exception.
\<close>

theorem page_commands_served:
  assumes "client_reach env backend s b"
    and "dispatch_page_impl env backend p session now_secs rq s b = (r, s', b')"
  shows "reachable (en_codec env) (en_host_of env) s'
    \<and> (r \<noteq> None \<longleftrightarrow> supports_page (rq_method rq)
         \<and> (reads_page (rq_method rq) \<longrightarrow> find_page s p \<noteq> None \<and> (backend \<noteq> None \<or> runtime_supports (rq_method rq))))
    \<and> (\<forall>d. r = Some d \<longrightarrow> answers rq (pd_response d) \<and> (\<forall>ev \<in> set (pd_events d). ev_session_id ev = rq_session_id rq))
    \<and> (s' \<noteq> s \<longrightarrow> (\<exists>d. r = Some d \<and> (rs_error (pd_response d) = None \<or> rq_method rq = ''Fetch.disable'')))"
  using served_page [OF client_reachable [OF assms(1)], of rq b p backend session now_secs] assms(2) unfolding served_def by auto

lemma reachable_client: "reachable (en_codec env) (en_host_of env) s \<Longrightarrow> client_reach env backend s b"
  by (induction rule: reachable.induct) (auto intro: Fresh Host_Call)

definition demo_env :: cdp_env where
  "demo_env = \<lparr>en_codec = null_codec, en_round = (\<lambda>i. Finite (of_int i)), en_host_of = no_hosts, en_base64 = Some\<rparr>"

definition print_media :: cdp_request where
  "print_media = \<lparr>rq_id = 7, rq_method = ''Emulation.setEmulatedMedia'',
     rq_params = JObj [(''media'', JStr ''print'')], rq_session_id = Some ''s''\<rparr>"

theorem page_commands_served_witness:
  "case dispatch_page_impl demo_env (None :: unit dom_backend option) (PageId 1) None 0 print_media demo () of
     (r, s', _) \<Rightarrow> reachable null_codec no_hosts s' \<and> s' \<noteq> demo
       \<and> (\<exists>d. r = Some d \<and> answers print_media (pd_response d) \<and> rs_error (pd_response d) = None)"
proof -
  obtain r s' b' where d: "dispatch_page_impl demo_env (None :: unit dom_backend option) (PageId 1) None 0 print_media demo () = (r, s', b')"
    by (metis prod.exhaust)
  have "client_reach demo_env (None :: unit dom_backend option) demo ()"
    by (rule reachable_client) (simp add: demo_env_def demo_reachable)
  note c = page_commands_served [OF this d]
  have "bm_has (bs_pages demo) (PageId 1)" "bs_display demo = []"
    by (simp_all add: bm_has_keys demo_tables) (simp add: demo_def run_ops_def demo_ops_def bs_eval)
  moreover from this have "bs_display s' = [(PageId 1, display_default\<lparr>dp_emulated_media := ''print''\<rparr>)]"
    using d by (auto simp: dispatch_page_impl_def print_media_def page_domains emulation_dispatch_def set_emulated_media_def
        str_field_def json_get_def unwrap_or_def acknowledge_def put_display_def set_display_def display_of_def
        display_is_default_def display_default_def MAX_METHOD_BYTES_def bm_get_def split: if_splits)
  ultimately have "s' \<noteq> demo" by auto
  with c show ?thesis unfolding d by (auto simp: demo_env_def print_media_def)
qed

end
