(* ===== verification/PortableIo.thy ===== *)
theory PortableIo
  imports Portable IoStream
begin

text \<open>
  \<open>crates/obscura-cdp/src/portable_io.rs\<close>: the streams of the IO domain with the connections that own them, on
  the store of \<open>io.rs\<close>. What it promises: a connection reads, closes and loses its own streams only, whatever
  the others send.
\<close>

definition MAX_IO_STREAM_BYTES :: nat where "MAX_IO_STREAM_BYTES = 12 * 1024 * 1024"
definition MAX_IO_STREAM_ENTRIES :: nat where "MAX_IO_STREAM_ENTRIES = 128"
definition MAX_IO_READ_CHUNK :: nat where "MAX_IO_READ_CHUNK = 1024 * 1024"

record io_state =
  is_streams :: io_store
  is_owners :: "(string, connection_id) bmap"

definition ios_with_limits :: "nat \<Rightarrow> nat \<Rightarrow> io_state" where
  "ios_with_limits entries n = \<lparr>is_streams = with_limits entries n, is_owners = []\<rparr>"

definition ios_default :: io_state where
  "ios_default = ios_with_limits MAX_IO_STREAM_ENTRIES MAX_IO_STREAM_BYTES"

definition ios_insert :: "connection_id \<Rightarrow> bytes \<Rightarrow> io_state \<Rightarrow> (string + string) \<times> io_state" where
  "ios_insert owner bs s =
     (case io_insert (is_streams s) bs of
        (Inl e, streams) \<Rightarrow> (Inl e, s\<lparr>is_streams := streams\<rparr>)
      | (Inr h, streams) \<Rightarrow>
          (Inr h, s\<lparr>is_streams := streams,
                    is_owners := bm_insert h owner (bm_retain (\<lambda>c _. io_contains streams c) (is_owners s))\<rparr>))"

definition ios_drop :: "string \<Rightarrow> io_state \<Rightarrow> io_state" where
  "ios_drop h s = s\<lparr>is_owners := bm_remove h (is_owners s), is_streams := io_remove (is_streams s) h\<rparr>"

definition ios_close_connection :: "connection_id \<Rightarrow> io_state \<Rightarrow> io_state" where
  "ios_close_connection owner s = fold ios_drop (map fst (filter (\<lambda>(h, c). c = owner) (is_owners s))) s"

definition ios_len :: "io_state \<Rightarrow> nat" where
  "ios_len s = io_len (is_streams s)"

definition ios_read :: "(bytes \<Rightarrow> string) \<Rightarrow> cdp_request \<Rightarrow> string \<Rightarrow> io_state \<Rightarrow> cdp_response \<times> io_state" where
  "ios_read b64 rq h s =
     (let requested = unwrap_or (u64_field (rq_params rq) ''size'') MAX_IO_READ_CHUNK in
      if requested = 0 then (refuse rq (-32602) ''size must be greater than zero'', s)
      else
        (let size = min (if requested \<le> usize_max then requested else MAX_IO_READ_CHUNK) MAX_IO_READ_CHUNK;
             offset = Option.bind (u64_field (rq_params rq) ''offset'') (\<lambda>v. if v \<le> usize_max then Some v else None)
         in if (case offset of None \<Rightarrow> False
                | Some off \<Rightarrow> (case byte_len (is_streams s) h of None \<Rightarrow> True | Some n \<Rightarrow> n < off))
            then (refuse rq (-32602) ''stream offset is out of range'', s)
            else case io_read b64 (is_streams s) h offset size of
              (None, streams) \<Rightarrow> (refuse rq (-32000) ''Invalid stream handle'', s\<lparr>is_streams := streams\<rparr>)
            | (Some (data, eof), streams) \<Rightarrow>
               (answer rq (json_obj [(''base64Encoded'', JBool True), (''data'', JStr data), (''eof'', JBool eof)]),
                if eof then ios_drop h (s\<lparr>is_streams := streams\<rparr>) else s\<lparr>is_streams := streams\<rparr>)))"

definition ios_dispatch :: "(bytes \<Rightarrow> string) \<Rightarrow> cdp_request \<Rightarrow> connection_id \<Rightarrow> io_state \<Rightarrow> cdp_response option \<times> io_state" where
  "ios_dispatch b64 rq owner s =
     (if \<not> (rq_method rq = ''IO.read'' \<or> rq_method rq = ''IO.close'') then (None, s)
      else case str_field (rq_params rq) ''handle'' of
        None \<Rightarrow> (Some (refuse rq (-32602) ''handle is required''), s)
      | Some h \<Rightarrow>
         (if rq_method rq = ''IO.close''
          then (Some (answer rq (JObj [])), if bm_get (is_owners s) h = Some owner then ios_drop h s else s)
          else if bm_get (is_owners s) h \<noteq> Some owner then (Some (refuse rq (-32000) ''Invalid stream handle''), s)
          else apfst Some (ios_read b64 rq h s)))"

section \<open>The streams and their owners\<close>

definition stream_of :: "io_state \<Rightarrow> string \<Rightarrow> (bytes \<times> nat) option" where
  "stream_of s h = Mapping.lookup (io_streams (is_streams s)) h"

definition owner_of :: "io_state \<Rightarrow> string \<Rightarrow> connection_id option" where
  "owner_of s h = bm_get (is_owners s) h"

text \<open>Every stream has an owner, and the numbers of handles ever given out are below the counter.\<close>

definition ios_ok :: "io_state \<Rightarrow> bool" where
  "ios_ok s \<longleftrightarrow> io_ok (is_streams s) \<and> bm_ok (is_owners s)
     \<and> (\<forall>h. stream_of s h \<noteq> None \<longrightarrow> owner_of s h \<noteq> None)
     \<and> (\<forall>h. owner_of s h \<noteq> None \<longrightarrow> (\<exists>n < io_counter (is_streams s). h = handle_name n))"

datatype io_event =
    Put connection_id bytes
  | Command connection_id cdp_request
  | Hangup connection_id

definition ios_step :: "(bytes \<Rightarrow> string) \<Rightarrow> io_event \<Rightarrow> io_state \<Rightarrow> io_state" where
  "ios_step b64 e s =
     (case e of
        Put c bs \<Rightarrow> snd (ios_insert c bs s)
      | Command c rq \<Rightarrow> snd (ios_dispatch b64 rq c s)
      | Hangup c \<Rightarrow> ios_close_connection c s)"

definition event_owner :: "io_event \<Rightarrow> connection_id" where
  "event_owner e = (case e of Put c bs \<Rightarrow> c | Command c rq \<Rightarrow> c | Hangup c \<Rightarrow> c)"

lemma evict_subset:
  "Mapping.lookup (io_streams (io_evict st n)) h = Mapping.lookup (io_streams st) h \<or> Mapping.lookup (io_streams (io_evict st n)) h = None"
proof (induction st n rule: io_evict.induct)
  case (1 st n)
  have one: "Mapping.lookup (io_streams (evict_one st)) h = Mapping.lookup (io_streams st) h \<or> Mapping.lookup (io_streams (evict_one st)) h = None"
    by (auto simp: evict_one_def lookup_delete_if split: list.split option.split)
  show ?case
  proof (cases "must_evict st n")
    case True
    from 1 [OF True] one have "Mapping.lookup (io_streams (io_evict (evict_one st) n)) h = Mapping.lookup (io_streams st) h
        \<or> Mapping.lookup (io_streams (io_evict (evict_one st) n)) h = None" by auto
    with True show ?thesis by (subst (1 2) io_evict.simps) simp
  qed (simp add: io_evict.simps)
qed

lemma insert_lookup:
  "fst (io_insert st bs) = Inr h' \<Longrightarrow> h \<noteq> h' \<Longrightarrow>
    Mapping.lookup (io_streams (snd (io_insert st bs))) h = Mapping.lookup (io_streams st) h \<or> Mapping.lookup (io_streams (snd (io_insert st bs))) h = None"
  "fst (io_insert st bs) = Inl e \<Longrightarrow>
    Mapping.lookup (io_streams (snd (io_insert st bs))) h = Mapping.lookup (io_streams st) h \<or> Mapping.lookup (io_streams (snd (io_insert st bs))) h = None"
  using evict_subset [of st "length bs" h]
  by (auto simp: io_insert_def Let_def lookup_update' split: if_splits)

lemma remove_lookup: "Mapping.lookup (io_streams (io_remove st h')) h = (if h = h' then None else Mapping.lookup (io_streams st) h)"
  by (simp add: io_remove_def lookup_delete_if split: option.split)

lemma read_lookup: "h \<noteq> h' \<Longrightarrow> Mapping.lookup (io_streams (snd (io_read b64 st h' offset n))) h = Mapping.lookup (io_streams st) h"
  by (simp add: io_read_def Let_def lookup_update' split: option.split)

lemma drop_simps [simp]:
  "stream_of (ios_drop h' s) h = (if h = h' then None else stream_of s h)"
  "owner_of (ios_drop h' s) h = (if h = h' then None else owner_of s h)"
  by (simp_all add: ios_drop_def stream_of_def owner_of_def remove_lookup bm_get_remove)

definition handed_out :: "io_state \<Rightarrow> string \<Rightarrow> bool" where
  "handed_out s h \<longleftrightarrow> (\<exists>n < io_counter (is_streams s). h = handle_name n)"

lemma ios_okD:
  assumes "ios_ok s"
  shows "io_ok (is_streams s)" "bm_ok (is_owners s)" "stream_of s h = Some x \<Longrightarrow> owner_of s h \<noteq> None"
    "owner_of s h \<noteq> None \<Longrightarrow> handed_out s h"
  using assms by (auto simp: ios_ok_def handed_out_def)

lemma ios_owned: "ios_ok s \<Longrightarrow> stream_of s h \<noteq> None \<Longrightarrow> owner_of s h \<noteq> None"
  by (simp add: ios_ok_def)

lemma ios_okI:
  "io_ok (is_streams s) \<Longrightarrow> bm_ok (is_owners s) \<Longrightarrow> (\<And>h. stream_of s h \<noteq> None \<Longrightarrow> owner_of s h \<noteq> None) \<Longrightarrow>
    (\<And>h. owner_of s h \<noteq> None \<Longrightarrow> handed_out s h) \<Longrightarrow> ios_ok s"
  by (auto simp: ios_ok_def handed_out_def)

lemma read_counter [simp]: "io_counter (snd (io_read b64 st h offset n)) = io_counter st"
  by (simp add: io_read_def Let_def split: option.split)

lemma remove_counter [simp]: "io_counter (io_remove st h) = io_counter st"
  by (simp add: io_remove_def split: option.split)

lemma read_some: "stream_of (s\<lparr>is_streams := snd (io_read b64 (is_streams s) h' offset n)\<rparr>) h \<noteq> None \<longleftrightarrow> stream_of s h \<noteq> None"
  by (auto simp: stream_of_def io_read_def Let_def lookup_update_if split: option.split)

lemma ios_ok_drop: "ios_ok s \<Longrightarrow> ios_ok (ios_drop h s)"
  by (rule ios_okI)
    (auto simp: ios_drop_def remove_ok ios_okD(1,2) stream_of_def owner_of_def remove_lookup bm_get_remove handed_out_def
      dest: ios_okD(3,4) [unfolded stream_of_def owner_of_def handed_out_def] split: if_splits)

lemma ios_ok_read: "ios_ok s \<Longrightarrow> ios_ok (s\<lparr>is_streams := snd (io_read b64 (is_streams s) h offset n)\<rparr>)"
proof (rule ios_okI)
  assume ok: "ios_ok s"
  show "stream_of (s\<lparr>is_streams := snd (io_read b64 (is_streams s) h offset n)\<rparr>) h' \<noteq> None \<Longrightarrow>
      owner_of (s\<lparr>is_streams := snd (io_read b64 (is_streams s) h offset n)\<rparr>) h' \<noteq> None" for h'
    using ios_okD(3) [OF ok, of h'] unfolding read_some by (auto simp: owner_of_def)
qed (use ios_okD in \<open>auto simp: read_ok owner_of_def handed_out_def\<close>)

text \<open>What \<open>insert\<close> does, whether it succeeds or not.\<close>

lemma insert_effect:
  assumes ok: "ios_ok s" and i: "ios_insert c bs s = (r, s')"
  shows "ios_ok s'" and "handed_out s h \<Longrightarrow> handed_out s' h"
    and "handed_out s h \<Longrightarrow> stream_of s' h = None \<or> stream_of s' h = stream_of s h \<and> owner_of s' h = owner_of s h"
proof -
  obtain x st where x: "io_insert (is_streams s) bs = (x, st)" by fastforce
  note ok' = insert_ok [OF ios_okD(1) [OF ok], of bs, unfolded x snd_conv]
  have mono: "io_counter (is_streams s) \<le> io_counter st" using insert_counter_mono [of "is_streams s" bs] by (simp add: x)
  have "ios_ok s' \<and> (handed_out s h \<longrightarrow> handed_out s' h)
      \<and> (handed_out s h \<longrightarrow> stream_of s' h = None \<or> stream_of s' h = stream_of s h \<and> owner_of s' h = owner_of s h)" for h
  proof (cases x)
    case (Inl e)
    have s': "s' = s\<lparr>is_streams := st\<rparr>" using i x Inl by (simp add: ios_insert_def)
    have look: "Mapping.lookup (io_streams st) h = Mapping.lookup (io_streams (is_streams s)) h \<or> Mapping.lookup (io_streams st) h = None" for h
      using insert_lookup(2) [of "is_streams s" bs e h] x Inl by simp
    have out: "handed_out s h \<Longrightarrow> handed_out s' h" for h using mono by (auto simp: handed_out_def s' handle_name_inject)
    have "ios_ok s'"
    proof (rule ios_okI)
      show "owner_of s' h \<noteq> None" if "stream_of s' h \<noteq> None" for h
        using ios_okD(3) [OF ok, of h] that look [of h] by (auto simp: s' stream_of_def owner_of_def)
    qed (use ok' ios_okD(2,4) [OF ok] out in \<open>auto simp: s' owner_of_def\<close>)
    with out look [of h] show ?thesis by (auto simp: s' stream_of_def owner_of_def)
  next
    case (Inr h')
    have s': "s' = s\<lparr>is_streams := st, is_owners := bm_insert h' c (bm_retain (\<lambda>c _. io_contains st c) (is_owners s))\<rparr>"
      using i x Inr by (simp add: ios_insert_def)
    have h': "h' = handle_name (io_counter (is_streams s))" "io_counter st = io_counter (is_streams s) + 1"
      using insert_handle [of "is_streams s" bs h'] insert_counter_ok [of "is_streams s" bs h'] x Inr by simp_all
    have look: "Mapping.lookup (io_streams st) h = Mapping.lookup (io_streams (is_streams s)) h \<or> Mapping.lookup (io_streams st) h = None"
      if "h \<noteq> h'" for h using insert_lookup(1) [of "is_streams s" bs h' h] x Inr that by simp
    have own: "owner_of s' h = (if h = h' then Some c else if io_contains st h then owner_of s h else None)" for h
      by (simp add: s' owner_of_def bm_get_insert bm_get_retain_key)
    have out: "handed_out s h \<Longrightarrow> handed_out s' h" for h using mono by (auto simp: handed_out_def s' handle_name_inject)
    have str: "stream_of s' h = Mapping.lookup (io_streams st) h" for h by (simp add: s' stream_of_def)
    have new: "handed_out s' h'" using h' by (auto simp: handed_out_def s')
    have "ios_ok s'"
    proof (rule ios_okI)
      show "owner_of s' h \<noteq> None" if "stream_of s' h \<noteq> None" for h
        using ios_owned [OF ok, of h] that look [of h] unfolding own str io_contains_def unfolding stream_of_def
        by (cases "h = h'") (simp, metis)
      show "handed_out s' h" if "owner_of s' h \<noteq> None" for h
        using that ios_okD(4) [OF ok, of h] out [of h] new by (auto simp: own split: if_splits)
    qed (use ok' ios_okD(2) [OF ok] in \<open>auto simp: s'\<close>)
    moreover have "h \<noteq> h'" if "handed_out s h" for h using that h'(1) by (auto simp: handed_out_def handle_name_inject)
    ultimately show ?thesis
      using out look [of h] unfolding own str io_contains_def by (auto simp: stream_of_def)
  qed
  then show "ios_ok s'" and "handed_out s h \<Longrightarrow> handed_out s' h"
    and "handed_out s h \<Longrightarrow> stream_of s' h = None \<or> stream_of s' h = stream_of s h \<and> owner_of s' h = owner_of s h"
    by blast+
qed

text \<open>What a command does: it leaves the streams alone, moves the cursor of one of its own, or drops it.\<close>

definition cursor_moved :: "(bytes \<Rightarrow> string) \<Rightarrow> string \<Rightarrow> nat option \<Rightarrow> nat \<Rightarrow> io_state \<Rightarrow> io_state" where
  "cursor_moved b64 h offset n s = s\<lparr>is_streams := snd (io_read b64 (is_streams s) h offset n)\<rparr>"

lemma ios_read_rule:
  assumes "P s" and "\<And>n offset. P (cursor_moved b64 h offset n s)" and "\<And>n offset. P (ios_drop h (cursor_moved b64 h offset n s))"
  shows "P (snd (ios_read b64 rq h s))"
proof -
  have "P (snd (case io_read b64 (is_streams s) h offset n of
      (None, streams) \<Rightarrow> (refuse rq (-32000) ''Invalid stream handle'', s\<lparr>is_streams := streams\<rparr>)
    | (Some (data, eof), streams) \<Rightarrow>
       (answer rq (json_obj [(''base64Encoded'', JBool True), (''data'', JStr data), (''eof'', JBool eof)]),
        if eof then ios_drop h (s\<lparr>is_streams := streams\<rparr>) else s\<lparr>is_streams := streams\<rparr>)))" for n offset
    using assms(2,3) [of offset n] by (cases "io_read b64 (is_streams s) h offset n") (simp add: cursor_moved_def split: option.split)
  with assms(1) show ?thesis unfolding ios_read_def Let_def by simp
qed

lemma ios_dispatch_rule:
  assumes "P s" and "\<And>h n offset. owner_of s h = Some c \<Longrightarrow> P (cursor_moved b64 h offset n s)"
    and "\<And>h. owner_of s h = Some c \<Longrightarrow> P (ios_drop h s)"
    and "\<And>h n offset. owner_of s h = Some c \<Longrightarrow> P (ios_drop h (cursor_moved b64 h offset n s))"
  shows "P (snd (ios_dispatch b64 rq c s))"
  using assms ios_read_rule [of P s b64] unfolding ios_dispatch_def owner_of_def by (simp split: option.split)

lemma drop_counter: "io_counter (is_streams (ios_drop h s)) = io_counter (is_streams s)"
  by (simp add: ios_drop_def)

lemma fold_drop:
  "stream_of (fold ios_drop hs s) h = (if h \<in> set hs then None else stream_of s h)"
  "owner_of (fold ios_drop hs s) h = (if h \<in> set hs then None else owner_of s h)"
  "io_counter (is_streams (fold ios_drop hs s)) = io_counter (is_streams s)"
  by (induction hs arbitrary: s) (simp_all add: drop_counter)

lemma fold_drop_ok: "ios_ok s \<Longrightarrow> ios_ok (fold ios_drop hs s)"
  by (induction hs arbitrary: s) (simp_all add: ios_ok_drop)

lemma hangup_handles: "bm_ok (is_owners s) \<Longrightarrow> h \<in> set (map fst (filter (\<lambda>(h, c'). c' = c) (is_owners s))) \<longleftrightarrow> owner_of s h = Some c"
  by (force simp: owner_of_def bm_get_iff)

lemma cursor_simps:
  "h \<noteq> h' \<Longrightarrow> stream_of (cursor_moved b64 h' offset n s) h = stream_of s h"
  "owner_of (cursor_moved b64 h' offset n s) h = owner_of s h"
  "stream_of (cursor_moved b64 h' offset n s) h = None \<longleftrightarrow> stream_of s h = None"
  "io_counter (is_streams (cursor_moved b64 h' offset n s)) = io_counter (is_streams s)"
  using read_some [of b64 s h' offset n h]
  by (auto simp: cursor_moved_def stream_of_def owner_of_def read_lookup)

lemma cursor_ok: "ios_ok s \<Longrightarrow> ios_ok (cursor_moved b64 h offset n s)"
  by (simp add: cursor_moved_def ios_ok_read)

section \<open>One event\<close>

lemma ios_step_ok:
  assumes ok: "ios_ok s"
  shows "ios_ok (ios_step b64 e s)"
proof (cases e)
  case (Put c bs)
  then show ?thesis using insert_effect(1) [OF ok] by (simp add: ios_step_def prod_eq_iff)
next
  case (Command c rq)
  have "ios_ok (snd (ios_dispatch b64 rq c s))" by (rule ios_dispatch_rule) (simp_all add: ok ios_ok_drop cursor_ok)
  with Command show ?thesis by (simp add: ios_step_def)
next
  case (Hangup c)
  then show ?thesis by (simp add: ios_step_def ios_close_connection_def fold_drop_ok ok)
qed

text \<open>A handle that has been given out is not given out again, so a stream that is gone stays gone.\<close>

lemma ios_step_gone:
  assumes ok: "ios_ok s" and out: "handed_out s h"
  shows "handed_out (ios_step b64 e s) h \<and> (stream_of s h = None \<longrightarrow> stream_of (ios_step b64 e s) h = None)"
proof (cases e)
  case (Put c bs)
  obtain r s' where i: "ios_insert c bs s = (r, s')" by fastforce
  show ?thesis using insert_effect(2,3) [OF ok i out] by (auto simp: ios_step_def Put i)
next
  case (Command c rq)
  have "handed_out (snd (ios_dispatch b64 rq c s)) h \<and> (stream_of s h = None \<longrightarrow> stream_of (snd (ios_dispatch b64 rq c s)) h = None)"
    using out by (intro ios_dispatch_rule [where P = "\<lambda>t. handed_out t h \<and> (stream_of s h = None \<longrightarrow> stream_of t h = None)"])
      (simp_all add: cursor_simps handed_out_def drop_counter)
  with Command show ?thesis by (simp add: ios_step_def)
next
  case (Hangup c)
  then show ?thesis using out by (simp add: ios_step_def ios_close_connection_def fold_drop handed_out_def)
qed

text \<open>A stream changes by the events of its owner only, unless the room for a new one is made by dropping it.\<close>

lemma ios_step_others:
  assumes ok: "ios_ok s" and own: "owner_of s h = Some c" and other: "event_owner e \<noteq> c"
  shows "stream_of (ios_step b64 e s) h = stream_of s h \<and> owner_of (ios_step b64 e s) h = Some c
    \<or> stream_of (ios_step b64 e s) h = None \<and> (\<exists>c' bs. e = Put c' bs)"
proof (cases e)
  case (Put c' bs)
  obtain r s' where i: "ios_insert c' bs s = (r, s')" by fastforce
  have "handed_out s h" using own ios_okD(4) [OF ok] by simp
  from insert_effect(3) [OF ok i this] show ?thesis by (auto simp: ios_step_def Put i own)
next
  case (Command c' rq)
  have ne: "h \<noteq> h'" if "owner_of s h' = Some c'" for h' using that own other Command by (auto simp: event_owner_def)
  have "stream_of (snd (ios_dispatch b64 rq c' s)) h = stream_of s h \<and> owner_of (snd (ios_dispatch b64 rq c' s)) h = owner_of s h"
    by (rule ios_dispatch_rule [where P = "\<lambda>t. stream_of t h = stream_of s h \<and> owner_of t h = owner_of s h"])
      (auto simp: cursor_simps dest: ne)
  with Command own show ?thesis by (simp add: ios_step_def)
next
  case (Hangup c')
  have "h \<notin> set (map fst (filter (\<lambda>(h, c). c = c') (is_owners s)))"
    unfolding hangup_handles [OF ios_okD(2) [OF ok]] using own other Hangup by (simp add: event_owner_def)
  with own Hangup show ?thesis by (simp add: ios_step_def ios_close_connection_def fold_drop)
qed

section \<open>A run\<close>

lemma ios_start_ok: "n \<le> usize_max \<Longrightarrow> ios_ok (ios_with_limits entries n)"
  using with_limits_ok [of n entries]
  by (intro ios_okI) (simp_all add: ios_with_limits_def stream_of_def owner_of_def, simp add: with_limits_def)

lemma ios_run_ok: "ios_ok s \<Longrightarrow> ios_ok (fold (ios_step b64) es s)"
  by (induction es arbitrary: s) (simp_all add: ios_step_ok)

lemma ios_run_gone:
  "ios_ok s \<Longrightarrow> handed_out s h \<Longrightarrow>
    handed_out (fold (ios_step b64) es s) h \<and> (stream_of s h = None \<longrightarrow> stream_of (fold (ios_step b64) es s) h = None)"
proof (induction es arbitrary: s)
  case (Cons e es)
  then show ?case using ios_step_gone [of s h b64 e] Cons.IH [of "ios_step b64 e s"] by (simp add: ios_step_ok)
qed simp

lemma ios_run_others:
  assumes "ios_ok s" and "owner_of s h = Some c" and "\<forall>e \<in> set es. event_owner e \<noteq> c"
  shows "stream_of (fold (ios_step b64) es s) h = stream_of s h \<and> owner_of (fold (ios_step b64) es s) h = Some c
    \<or> stream_of (fold (ios_step b64) es s) h = None \<and> (\<exists>c' bs. Put c' bs \<in> set es)"
  using assms
proof (induction es arbitrary: s)
  case (Cons e es)
  let ?s = "ios_step b64 e s"
  from ios_step_others [OF Cons.prems(1,2), of e b64] Cons.prems(3)
  consider "stream_of ?s h = stream_of s h" "owner_of ?s h = Some c"
    | "stream_of ?s h = None" "\<exists>c' bs. e = Put c' bs" by auto
  then show ?case
  proof cases
    case 1
    then show ?thesis using Cons.IH [of ?s] Cons.prems by (auto simp: ios_step_ok)
  next
    case 2
    have "handed_out ?s h"
      using ios_step_gone [OF Cons.prems(1)] ios_okD(4) [OF Cons.prems(1), of h] Cons.prems(2) by simp
    then show ?thesis using 2 ios_run_gone [OF ios_step_ok [OF Cons.prems(1)], of b64 e h b64 es] by auto
  qed
qed simp

lemma stranger_refused:
  assumes "owner_of s h = Some c" and "c' \<noteq> c" and "str_field (rq_params rq) ''handle'' = Some h"
  shows "rq_method rq = ''IO.read'' \<Longrightarrow> ios_dispatch b64 rq c' s = (Some (refuse rq (-32000) ''Invalid stream handle''), s)"
    and "rq_method rq = ''IO.close'' \<Longrightarrow> ios_dispatch b64 rq c' s = (Some (answer rq (JObj [])), s)"
  using assms by (simp_all add: ios_dispatch_def owner_of_def)

lemma gone_refused:
  assumes "stream_of s h = None" and "str_field (rq_params rq) ''handle'' = Some h" and "rq_method rq = ''IO.read''"
  shows "\<exists>r. fst (ios_dispatch b64 rq c s) = Some r \<and> rs_error r \<noteq> None"
  using assms by (simp add: ios_dispatch_def ios_read_def Let_def io_read_def stream_of_def split: option.split)

section \<open>Isolation\<close>

text \<open>
  C17. The streams of a connection are its own. Whatever the other connections insert, ask and close, a stream of a
  connection keeps its bytes, its cursor and its owner, unless one of them inserted a stream and the store dropped
  this one to make room; another connection that names its handle is refused by IO.read and answered without effect
  by IO.close; and once the stream is gone, nothing that any connection does brings the handle back: IO.read of it is
  an error ever after.
\<close>

theorem io_isolated:
  fixes s es others later
  assumes "s = fold (ios_step b64) es (ios_with_limits entries n)" and "n \<le> usize_max"
    and "owner_of s h = Some c" and "stream_of s h = Some (bs, cursor)"
    and "\<forall>e \<in> set others. event_owner e \<noteq> c"
    and "str_field (rq_params rq) ''handle'' = Some h" and "c' \<noteq> c"
    and "after = fold (ios_step b64) others s" and "at_last = fold (ios_step b64) later after"
  shows "(stream_of after h = Some (bs, cursor) \<and> owner_of after h = Some c
      \<or> stream_of after h = None \<and> (\<exists>x y. Put x y \<in> set others))
    \<and> (rq_method rq = ''IO.read'' \<longrightarrow> ios_dispatch b64 rq c' s = (Some (refuse rq (-32000) ''Invalid stream handle''), s))
    \<and> (rq_method rq = ''IO.close'' \<longrightarrow> ios_dispatch b64 rq c' s = (Some (answer rq (JObj [])), s))
    \<and> (stream_of after h = None \<longrightarrow> stream_of at_last h = None
      \<and> (rq_method rq = ''IO.read'' \<longrightarrow> (\<exists>r. fst (ios_dispatch b64 rq x at_last) = Some r \<and> rs_error r \<noteq> None)))"
proof -
  have ok: "ios_ok s" unfolding assms(1) by (rule ios_run_ok [OF ios_start_ok [OF assms(2)]])
  have ok': "ios_ok after" unfolding assms(8) by (rule ios_run_ok [OF ok])
  have out: "handed_out after h"
    using ios_run_gone [OF ok, of h b64 others] ios_okD(4) [OF ok, of h] assms(3,8) by simp
  have "stream_of after h = Some (bs, cursor) \<and> owner_of after h = Some c
      \<or> stream_of after h = None \<and> (\<exists>x y. Put x y \<in> set others)"
    using ios_run_others [OF ok assms(3,5), of b64] assms(4,8) by simp
  moreover note stranger_refused [OF assms(3,7,6), of b64]
  moreover have "stream_of after h = None \<longrightarrow> stream_of at_last h = None
      \<and> (rq_method rq = ''IO.read'' \<longrightarrow> (\<exists>r. fst (ios_dispatch b64 rq x at_last) = Some r \<and> rs_error r \<noteq> None))"
    using ios_run_gone [OF ok' out, of b64 later] gone_refused [OF _ assms(6), of at_last] unfolding assms(9) by blast
  ultimately show ?thesis by blast
qed

definition read_request :: cdp_request where
  "read_request = \<lparr>rq_id = 1, rq_method = ''IO.read'', rq_params = JObj [(''handle'', JStr ''stream-0'')], rq_session_id = None\<rparr>"

lemma io_evict_cases:
  "\<not> must_evict st n \<Longrightarrow> io_evict st n = st" "must_evict st n \<Longrightarrow> io_evict st n = io_evict (evict_one st) n"
  by (simp_all add: io_evict.simps [of st n])

lemma zero_char: "CHR ''0'' = char_of (48 :: nat)"
  by code_simp

lemmas witness_simps = zero_char io_evict_cases must_evict_def evict_one_def handle_name_def show_nat_small stream_of_def owner_of_def
  lookup_update_if lookup_delete_if io_contains_def bm_retain_def bm_get_def usize_max_def Let_def json_get_def
  ios_step_def ios_with_limits_def with_limits_def ios_insert_def io_insert_def ios_dispatch_def
  read_request_def str_field_def

definition plain :: "bytes \<Rightarrow> string" where
  "plain = map (\<lambda>b. char_of (unat b))"

definition owned_stream :: io_state where
  "owned_stream = fold (ios_step plain) [Put (ConnectionId 1) [1, 2]] (ios_with_limits 1 10)"

definition evicted_stream :: io_state where
  "evicted_stream = fold (ios_step plain) [Command (ConnectionId 2) read_request, Put (ConnectionId 2) [3]] owned_stream"

theorem io_isolated_witness:
  "ios_dispatch plain read_request (ConnectionId 2) owned_stream
      = (Some (refuse read_request (-32000) ''Invalid stream handle''), owned_stream)
    \<and> stream_of evicted_stream ''stream-0'' = None
    \<and> stream_of (fold (ios_step plain) [Put (ConnectionId 1) [4]] evicted_stream) ''stream-0'' = None"
proof -
  have s: "owner_of owned_stream ''stream-0'' = Some (ConnectionId 1)" "stream_of owned_stream ''stream-0'' = Some ([1, 2], 0)"
    by (simp_all add: owned_stream_def witness_simps)
  have gone: "stream_of evicted_stream ''stream-0'' = None" by (simp add: evicted_stream_def owned_stream_def witness_simps)
  have field: "str_field (rq_params read_request) ''handle'' = Some ''stream-0''"
    by (simp add: witness_simps)
  have other: "\<forall>e \<in> set [Command (ConnectionId 2) read_request, Put (ConnectionId 2) [3]]. event_owner e \<noteq> ConnectionId 1"
    by (simp add: event_owner_def)
  note p = io_isolated [OF owned_stream_def _ s other field _ evicted_stream_def refl, of "ConnectionId 2"]
  have "ios_dispatch plain read_request (ConnectionId 2) owned_stream = (Some (refuse read_request (-32000) ''Invalid stream handle''), owned_stream)"
    using p by (simp add: usize_max_def read_request_def)
  moreover have "stream_of (fold (ios_step plain) later evicted_stream) ''stream-0'' = None" for later
    using p gone by (simp add: usize_max_def)
  ultimately show ?thesis using gone by blast
qed

end
