(* ===== verification/PortableRender.thy ===== *)
theory PortableRender
  imports PortableIo
begin

text \<open>
  \<open>crates/obscura-cdp/src/portable_render.rs\<close>: screenshots and PDFs over a renderer. The renderer, the encoders
  of serde_json and base64, the rounding to doubles and the Debug form of a string are the environment. What it
  promises the renderer: the options it is called with have been checked; what it promises the client: the answer fits
  a message, or the bytes are a stream of its own.
\<close>

definition MAX_RENDER_RESULT_BYTES :: nat where "MAX_RENDER_RESULT_BYTES = 16 * 1024 * 1024"
definition MAX_PAGE_RANGES_BYTES :: nat where "MAX_PAGE_RANGES_BYTES = 16 * 1024"
definition MAX_PAGE_RANGE_PARTS :: nat where "MAX_PAGE_RANGE_PARTS = 512"

record screenshot_clip =
  sc_x :: f64
  sc_y :: f64
  sc_width :: f64
  sc_height :: f64
  sc_scale :: f64

record screenshot_options =
  so_format :: string
  so_clip :: "screenshot_clip option"
  so_from_surface :: bool
  so_capture_beyond_viewport :: bool

record 'b render_backend =
  re_capture_screenshot :: "screenshot_options \<Rightarrow> 'b \<Rightarrow> (string + bytes) \<times> 'b"
  re_print_to_pdf :: "json \<Rightarrow> 'b \<Rightarrow> (string + bytes) \<times> 'b"

record render_env =
  rn_round :: "int \<Rightarrow> f64"
  rn_debug :: "string \<Rightarrow> string"
  rn_base64 :: "bytes \<Rightarrow> string"
  rn_response :: "cdp_response \<Rightarrow> string option"

section \<open>Options of a screenshot\<close>

definition inline_base64_fits :: "render_env \<Rightarrow> cdp_request \<Rightarrow> json \<Rightarrow> nat \<Rightarrow> bool" where
  "inline_base64_fits env rq empty_result raw_bytes =
     (let response = answer rq empty_result in
      case Option.bind (checked_add usize_max raw_bytes 2) (\<lambda>n. if n div 3 * 4 \<le> usize_max then Some (n div 3 * 4) else None) of
        None \<Rightarrow> False
      | Some encoded_bytes \<Rightarrow>
         (case rn_response env response of
            None \<Rightarrow> False
          | Some envelope \<Rightarrow>
             (case checked_add usize_max (length envelope) encoded_bytes of
                None \<Rightarrow> False | Some n \<Rightarrow> n \<le> MAX_OUTPUT_BYTES)))"

definition boolean :: "json \<Rightarrow> string \<Rightarrow> bool \<Rightarrow> string + bool" where
  "boolean params name dflt =
     (case json_get params name of
        None \<Rightarrow> Inr dflt
      | Some (JBool v) \<Rightarrow> Inr v
      | Some _ \<Rightarrow> Inl (''Invalid parameters: '' @ name @ '' must be a boolean''))"

definition finite_number :: "(int \<Rightarrow> f64) \<Rightarrow> json \<Rightarrow> f64 option" where
  "finite_number rnd v = Option.bind (as_f64 rnd v) (\<lambda>x. if f64_is_finite x then Some x else None)"

definition number_param :: "(int \<Rightarrow> f64) \<Rightarrow> json \<Rightarrow> string \<Rightarrow> f64 \<Rightarrow> string + f64" where
  "number_param rnd params name dflt =
     (case json_get params name of
        None \<Rightarrow> Inr dflt
      | Some v \<Rightarrow>
         (case finite_number rnd v of
            Some x \<Rightarrow> Inr x
          | None \<Rightarrow> Inl (''Invalid parameters: '' @ name @ '' must be a finite number'')))"

definition screenshot_clip_of :: "(int \<Rightarrow> f64) \<Rightarrow> json \<Rightarrow> string + screenshot_clip" where
  "screenshot_clip_of rnd v =
     try_then (number_param rnd v ''x'' NaN) (\<lambda>x.
     try_then (number_param rnd v ''y'' NaN) (\<lambda>y.
     try_then (number_param rnd v ''width'' NaN) (\<lambda>width.
     try_then (number_param rnd v ''height'' NaN) (\<lambda>height.
     try_then (number_param rnd v ''scale'' NaN) (\<lambda>scale.
       if \<not> f64_is_finite x \<or> \<not> f64_is_finite y \<or> \<not> f64_is_finite width \<or> \<not> f64_is_finite height \<or> \<not> f64_is_finite scale
          \<or> f64_le width (Finite 0) \<or> f64_le height (Finite 0) \<or> f64_le scale (Finite 0)
       then Inl ''Invalid parameters: screenshot clip dimensions and scale must be positive''
       else Inr \<lparr>sc_x = x, sc_y = y, sc_width = width, sc_height = height, sc_scale = scale\<rparr>)))))"

definition screenshot_options_of :: "(int \<Rightarrow> f64) \<Rightarrow> json \<Rightarrow> string + screenshot_options" where
  "screenshot_options_of rnd params =
     (let format = unwrap_or (str_field params ''format'') ''png'' in
      if format \<noteq> ''png'' then Inl ''portable WASM screenshots currently support only PNG''
      else
        try_then
          (case json_get params ''clip'' of
             None \<Rightarrow> Inr None
           | Some v \<Rightarrow>
              (if as_object v = None then Inl ''Invalid parameters: clip must be an object''
               else try_then (screenshot_clip_of rnd v) (\<lambda>c. Inr (Some c))))
          (\<lambda>clip. try_then (boolean params ''fromSurface'' True) (\<lambda>from_surface.
            if \<not> from_surface then Inl ''Page.captureScreenshot fromSurface=false is not supported''
            else try_then (boolean params ''captureBeyondViewport'' False) (\<lambda>beyond.
              Inr \<lparr>so_format = format, so_clip = clip, so_from_surface = from_surface, so_capture_beyond_viewport = beyond\<rparr>))))"

section \<open>Options of a PDF\<close>

definition range_page :: "(string \<Rightarrow> string) \<Rightarrow> string \<Rightarrow> string + nat option" where
  "range_page dbg raw =
     (let txt = trim raw in
      if txt = [] then Inr None
      else case parse_unsigned u32_max txt of
        Some n \<Rightarrow> (if 0 < n then Inr (Some n) else Inl (''Invalid parameters: pageRanges has invalid page '' @ dbg txt))
      | None \<Rightarrow> Inl (''Invalid parameters: pageRanges has invalid page '' @ dbg txt))"

definition page_range :: "(string \<Rightarrow> string) \<Rightarrow> string \<Rightarrow> string + json" where
  "page_range dbg raw =
     (let part = trim raw in
      if part = [] then Inl ''Invalid parameters: pageRanges contains an empty range''
      else
        try_then
          (case split_once (CHR ''-'') part of
             Some (a, b) \<Rightarrow>
               (if CHR ''-'' \<notin> set b
                then try_then (range_page dbg a) (\<lambda>first. try_then (range_page dbg b) (\<lambda>last. Inr (first, last)))
                else Inl (''Invalid parameters: pageRanges has invalid range '' @ dbg part))
           | None \<Rightarrow>
               try_then (range_page dbg part) (\<lambda>n.
                 case n of None \<Rightarrow> Inl ''Invalid parameters: pageRanges contains an empty page''
                 | Some n \<Rightarrow> Inr (Some n, Some n)))
          (\<lambda>(first, last).
            if first = None \<and> last = None then Inl (''Invalid parameters: pageRanges range '' @ [CHR 0x27] @ ''-'' @ [CHR 0x27] @ '' is empty'')
            else if (case (first, last) of (Some a, Some b) \<Rightarrow> b < a | _ \<Rightarrow> False)
            then Inl (''Invalid parameters: pageRanges range '' @ dbg part @ '' is descending'')
            else Inr (json_obj [(''start'', json_opt json_nat first), (''end'', json_opt json_nat last)])))"

fun page_range_list :: "(string \<Rightarrow> string) \<Rightarrow> nat \<Rightarrow> string list \<Rightarrow> string + json list" where
  "page_range_list dbg index [] = Inr []"
| "page_range_list dbg index (part # parts) =
     (if MAX_PAGE_RANGE_PARTS \<le> index
      then Inl (''Invalid parameters: pageRanges exceeds the '' @ show_nat MAX_PAGE_RANGE_PARTS @ ''-range limit'')
      else try_then (page_range dbg part) (\<lambda>r.
        try_then (page_range_list dbg (Suc index) parts) (\<lambda>rs. Inr (r # rs))))"

definition parse_page_ranges :: "(string \<Rightarrow> string) \<Rightarrow> string \<Rightarrow> string + json list" where
  "parse_page_ranges dbg raw =
     (let v = trim raw in
      if v = [] then Inr []
      else if MAX_PAGE_RANGES_BYTES < length v
      then Inl (''Invalid parameters: pageRanges exceeds the '' @ show_nat MAX_PAGE_RANGES_BYTES @ ''-byte limit'')
      else page_range_list dbg 0 (split_char (CHR '','') v))"

definition pdf_unsupported :: "json \<Rightarrow> string + unit" where
  "pdf_unsupported params =
     try_each (\<lambda>(name, capability). try_then (boolean params name False) (\<lambda>enabled.
         if enabled then Inl (''Page.printToPDF does not yet support '' @ capability @ '' ('' @ name @ ''=true)'') else Inr ()))
       [(''displayHeaderFooter'', ''headers and footers''), (''preferCSSPageSize'', ''CSS @page sizing''),
        (''generateDocumentOutline'', ''document outlines'')]"

definition pdf_template :: "json \<Rightarrow> string \<Rightarrow> string + unit" where
  "pdf_template params name =
     (case json_get params name of
        None \<Rightarrow> Inr ()
      | Some v \<Rightarrow>
         (case as_str v of
            None \<Rightarrow> Inl (''Invalid parameters: '' @ name @ '' must be a string'')
          | Some template \<Rightarrow>
             (if template \<noteq> [] then Inl (''Page.printToPDF '' @ name @ '' is not yet supported'') else Inr ())))"

definition pdf_tagged :: "json \<Rightarrow> string + unit" where
  "pdf_tagged params =
     (case json_get params ''generateTaggedPDF'' of
        None \<Rightarrow> Inr ()
      | Some v \<Rightarrow>
         (case as_bool v of
            None \<Rightarrow> Inl ''Invalid parameters: generateTaggedPDF must be a boolean''
          | Some enabled \<Rightarrow>
             (if enabled then Inl ''Page.printToPDF does not yet support tagged PDFs (generateTaggedPDF=true)'' else Inr ())))"

definition pdf_transfer :: "json \<Rightarrow> string + unit" where
  "pdf_transfer params =
     (case json_get params ''transferMode'' of
        None \<Rightarrow> Inr ()
      | Some v \<Rightarrow>
         (if as_str v = Some ''ReturnAsBase64'' \<or> as_str v = Some ''ReturnAsStream'' then Inr ()
          else Inl ''Invalid parameters: transferMode must be ReturnAsBase64 or ReturnAsStream''))"

definition pdf_ranges :: "(string \<Rightarrow> string) \<Rightarrow> json \<Rightarrow> string + json list" where
  "pdf_ranges dbg params =
     (case json_get params ''pageRanges'' of
        None \<Rightarrow> Inr []
      | Some v \<Rightarrow>
         (case as_str v of
            None \<Rightarrow> Inl ''Invalid parameters: pageRanges must be a string''
          | Some txt \<Rightarrow> parse_page_ranges dbg txt))"

definition pdf_allowed :: "string list" where
  "pdf_allowed =
     [''landscape'', ''displayHeaderFooter'', ''printBackground'', ''scale'', ''paperWidth'', ''paperHeight'', ''marginTop'',
      ''marginBottom'', ''marginLeft'', ''marginRight'', ''pageRanges'', ''headerTemplate'', ''footerTemplate'',
      ''preferCSSPageSize'', ''transferMode'', ''generateTaggedPDF'', ''generateDocumentOutline'', ''viewportWidth'',
      ''viewportHeight'']"

definition pdf_flags :: "string list" where
  "pdf_flags = [''landscape'', ''printBackground'']"

definition pdf_numbers :: "string list" where
  "pdf_numbers = [''scale'', ''paperWidth'', ''paperHeight'', ''marginTop'', ''marginBottom'', ''marginLeft'', ''marginRight'',
     ''viewportWidth'', ''viewportHeight'']"

fun copy_flags :: "json \<Rightarrow> string list \<Rightarrow> (string, json) bmap \<Rightarrow> string + (string, json) bmap" where
  "copy_flags params [] out = Inr out"
| "copy_flags params (name # names) out =
     (if json_get params name \<noteq> None
      then try_then (boolean params name False) (\<lambda>v. copy_flags params names (bm_insert name (JBool v) out))
      else copy_flags params names out)"

text \<open>The literals 0.1 and 2.0; the first is the nearest double.\<close>

definition scale_allowed :: "f64 \<Rightarrow> bool" where
  "scale_allowed x \<longleftrightarrow> f64_le (Finite (3602879701896397 / 36028797018963968)) x \<and> f64_le x (Finite 2)"

fun copy_numbers :: "(int \<Rightarrow> f64) \<Rightarrow> json \<Rightarrow> string list \<Rightarrow> (string, json) bmap \<Rightarrow> string + (string, json) bmap" where
  "copy_numbers rnd params [] out = Inr out"
| "copy_numbers rnd params (name # names) out =
     (case json_get params name of
        None \<Rightarrow> copy_numbers rnd params names out
      | Some v \<Rightarrow>
         (case finite_number rnd v of
            None \<Rightarrow> Inl (''Invalid parameters: '' @ name @ '' must be a finite number'')
          | Some x \<Rightarrow>
             (if name = ''scale'' \<and> \<not> scale_allowed x then Inl ''Invalid parameters: scale must be between 0.1 and 2''
              else if name \<in> set [''paperWidth'', ''paperHeight'', ''viewportWidth'', ''viewportHeight''] \<and> f64_le x (Finite 0)
              then Inl (''Invalid parameters: '' @ name @ '' must be positive'')
              else if starts_with name ''margin'' \<and> f64_lt x (Finite 0)
              then Inl (''Invalid parameters: '' @ name @ '' must be non-negative'')
              else copy_numbers rnd params names (bm_insert name v out))))"

definition normalize_pdf_options :: "(int \<Rightarrow> f64) \<Rightarrow> (string \<Rightarrow> string) \<Rightarrow> json \<Rightarrow> string + json" where
  "normalize_pdf_options rnd dbg params =
     (case as_object params of
        None \<Rightarrow> Inl ''Invalid parameters: expected an object''
      | Some input \<Rightarrow>
          try_then (pdf_unsupported params) (\<lambda>_.
          try_then (try_each (pdf_template params) [''headerTemplate'', ''footerTemplate'']) (\<lambda>_.
          try_then (pdf_tagged params) (\<lambda>_.
          try_then (pdf_transfer params) (\<lambda>_.
          try_then (pdf_ranges dbg params) (\<lambda>ranges.
          case find (\<lambda>name. name \<notin> set pdf_allowed) (bm_keys input) of
            Some name \<Rightarrow> Inl (''Invalid parameters: unsupported PDF option '' @ name)
          | None \<Rightarrow>
             try_then (copy_flags params pdf_flags []) (\<lambda>out.
             try_then (copy_numbers rnd params pdf_numbers out) (\<lambda>out.
               Inr (JObj (bm_insert ''pageRanges'' (JArr ranges) out))))))))))"

section \<open>The commands\<close>

definition render_supports :: "string \<Rightarrow> bool" where
  "render_supports method \<longleftrightarrow> method = ''Page.captureScreenshot'' \<or> method = ''Page.printToPDF''"

definition screenshot_dispatch :: "render_env \<Rightarrow> 'b render_backend \<Rightarrow> cdp_request \<Rightarrow> 'b \<Rightarrow> cdp_response \<times> 'b" where
  "screenshot_dispatch env rb rq b =
     (case screenshot_options_of (rn_round env) (rq_params rq) of
        Inl message \<Rightarrow> (refuse rq (-32602) message, b)
      | Inr options \<Rightarrow>
         (case re_capture_screenshot rb options b of
            (Inl message, b') \<Rightarrow> (refuse rq (-32000) message, b')
          | (Inr bs, b') \<Rightarrow>
             (if MAX_RENDER_RESULT_BYTES < length bs
              then (refuse rq (-32000) ''portable screenshot exceeds the response limit'', b')
              else if \<not> inline_base64_fits env rq (json_obj [(''data'', JStr []), (''fromSurface'', JBool True)]) (length bs)
              then (refuse rq (-32000) ''portable screenshot exceeds the response limit'', b')
              else (answer rq (json_obj [(''data'', JStr (rn_base64 env bs)), (''fromSurface'', JBool True)]), b'))))"

definition pdf_dispatch ::
    "render_env \<Rightarrow> 'b render_backend \<Rightarrow> cdp_request \<Rightarrow> connection_id \<Rightarrow> 'b \<Rightarrow> io_state \<Rightarrow> cdp_response \<times> 'b \<times> io_state" where
  "pdf_dispatch env rb rq owner b s =
     (case normalize_pdf_options (rn_round env) (rn_debug env) (rq_params rq) of
        Inl message \<Rightarrow> (refuse rq (-32602) message, b, s)
      | Inr options \<Rightarrow>
         (case re_print_to_pdf rb options b of
            (Inl message, b') \<Rightarrow> (refuse rq (-32000) message, b', s)
          | (Inr bs, b') \<Rightarrow>
             (if MAX_RENDER_RESULT_BYTES < length bs
              then (refuse rq (-32000) ''portable PDF exceeds the response limit'', b', s)
              else if str_field (rq_params rq) ''transferMode'' = Some ''ReturnAsStream''
              then (case ios_insert owner bs s of
                 (Inr h, s') \<Rightarrow> (answer rq (json_obj [(''data'', JStr []), (''stream'', JStr h)]), b', s')
               | (Inl message, s') \<Rightarrow> (refuse rq (-32000) message, b', s'))
              else if \<not> inline_base64_fits env rq (json_obj [(''data'', JStr [])]) (length bs)
              then (refuse rq (-32000) ''portable PDF exceeds the response limit'', b', s)
              else (answer rq (json_obj [(''data'', JStr (rn_base64 env bs))]), b', s))))"

definition render_dispatch ::
    "render_env \<Rightarrow> 'b render_backend \<Rightarrow> cdp_request \<Rightarrow> connection_id \<Rightarrow> 'b \<Rightarrow> io_state
      \<Rightarrow> cdp_response option \<times> 'b \<times> io_state" where
  "render_dispatch env rb rq owner b s =
     (if rq_method rq = ''Page.captureScreenshot''
      then (case screenshot_dispatch env rb rq b of (r, b') \<Rightarrow> (Some r, b', s))
      else if rq_method rq = ''Page.printToPDF''
      then (case pdf_dispatch env rb rq owner b s of (r, b', s') \<Rightarrow> (Some r, b', s'))
      else (None, b, s))"

text \<open>The two endpoints of \<open>portable_dispatch.rs\<close> over the streams.\<close>

definition dispatch_io :: "(bytes \<Rightarrow> string) \<Rightarrow> cdp_request \<Rightarrow> connection_id \<Rightarrow> io_state \<Rightarrow> cdp_response option \<times> io_state" where
  "dispatch_io b64 rq owner s = ios_dispatch b64 rq owner s"

definition dispatch_render ::
    "render_env \<Rightarrow> 'b render_backend \<Rightarrow> cdp_request \<Rightarrow> connection_id \<Rightarrow> 'b \<Rightarrow> io_state
      \<Rightarrow> cdp_response option \<times> 'b \<times> io_state" where
  "dispatch_render env rb rq owner b s = render_dispatch env rb rq owner b s"

section \<open>Checked options\<close>

definition clip_ok :: "screenshot_clip \<Rightarrow> bool" where
  "clip_ok c \<longleftrightarrow> list_all f64_is_finite [sc_x c, sc_y c, sc_width c, sc_height c, sc_scale c]
     \<and> list_all (f64_lt (Finite 0)) [sc_width c, sc_height c, sc_scale c]"

definition screenshot_typed :: "screenshot_options \<Rightarrow> bool" where
  "screenshot_typed opts \<longleftrightarrow> so_format opts = ''png'' \<and> so_from_surface opts \<and> pred_option clip_ok (so_clip opts)"

definition range_ok :: "json \<Rightarrow> bool" where
  "range_ok r \<longleftrightarrow>
     (\<exists>first last. r = json_obj [(''start'', json_opt json_nat first), (''end'', json_opt json_nat last)]
        \<and> (first \<noteq> None \<or> last \<noteq> None) \<and> pred_option (\<lambda>n. 1 \<le> n \<and> n \<le> u32_max) first
        \<and> pred_option (\<lambda>n. 1 \<le> n \<and> n \<le> u32_max) last
        \<and> (\<forall>a b. first = Some a \<and> last = Some b \<longrightarrow> a \<le> b))"

definition pdf_number :: "(int \<Rightarrow> f64) \<Rightarrow> string \<Rightarrow> json \<Rightarrow> bool" where
  "pdf_number rnd name v \<longleftrightarrow>
     (case finite_number rnd v of None \<Rightarrow> False
      | Some x \<Rightarrow> (name = ''scale'' \<longrightarrow> scale_allowed x)
          \<and> (name \<in> set [''paperWidth'', ''paperHeight'', ''viewportWidth'', ''viewportHeight''] \<longrightarrow> f64_lt (Finite 0) x)
          \<and> (starts_with name ''margin'' \<longrightarrow> f64_le (Finite 0) x))"

text \<open>The options of a PDF: flags, numbers in their range as the client gave them, and page ranges, nothing else.\<close>

definition pdf_typed :: "(int \<Rightarrow> f64) \<Rightarrow> json \<Rightarrow> json \<Rightarrow> bool" where
  "pdf_typed rnd params opts \<longleftrightarrow>
     (\<exists>m rs. opts = JObj m \<and> bm_ok m
        \<and> bm_get m ''pageRanges'' = Some (JArr rs) \<and> length rs \<le> MAX_PAGE_RANGE_PARTS \<and> list_all range_ok rs
        \<and> (\<forall>k. k \<noteq> ''pageRanges'' \<longrightarrow> bm_get m k = (if k \<in> set (pdf_flags @ pdf_numbers) then json_get params k else None))
        \<and> (\<forall>k \<in> set pdf_flags. pred_option (\<lambda>v. \<exists>x. v = JBool x) (json_get params k))
        \<and> (\<forall>k \<in> set pdf_numbers. pred_option (pdf_number rnd k) (json_get params k)))"

lemma f64_positive: "f64_is_finite x \<Longrightarrow> \<not> f64_le x (Finite 0) \<longleftrightarrow> f64_lt (Finite 0) x"
  "f64_is_finite x \<Longrightarrow> \<not> f64_lt x (Finite 0) \<longleftrightarrow> f64_le (Finite 0) x"
  by (cases x; auto simp: f64_le_def f64_eq_def)+

lemma clip_checked: "screenshot_clip_of rnd v = Inr c \<Longrightarrow> clip_ok c"
  by (auto simp: screenshot_clip_of_def clip_ok_def f64_positive split: if_splits)

lemma screenshot_checked: "screenshot_options_of rnd params = Inr opts \<Longrightarrow> screenshot_typed opts"
  by (auto simp: screenshot_options_of_def screenshot_typed_def Let_def clip_checked split: if_splits option.splits)

lemma range_page_checked: "range_page dbg raw = Inr n \<Longrightarrow> pred_option (\<lambda>n. 1 \<le> n \<and> n \<le> u32_max) n"
  by (auto simp: range_page_def parse_unsigned_def Let_def split: if_splits option.splits)

lemma page_range_checked: "page_range dbg raw = Inr r \<Longrightarrow> range_ok r"
  unfolding page_range_def range_ok_def Let_def
  by (fastforce split: if_splits option.splits prod.splits dest: range_page_checked)

lemma page_range_list_checked:
  "page_range_list dbg index parts = Inr rs \<Longrightarrow> index \<le> MAX_PAGE_RANGE_PARTS \<Longrightarrow>
    list_all range_ok rs \<and> index + length rs \<le> MAX_PAGE_RANGE_PARTS"
  by (induction parts arbitrary: index rs) (auto split: if_splits dest!: page_range_checked, fastforce+)

lemma parse_page_ranges_checked: "parse_page_ranges dbg raw = Inr rs \<Longrightarrow> list_all range_ok rs \<and> length rs \<le> MAX_PAGE_RANGE_PARTS"
  using page_range_list_checked [of dbg 0] by (auto simp: parse_page_ranges_def Let_def split: if_splits)

lemma boolean_given: "json_get params name = Some v \<Longrightarrow> boolean params name d = Inr x \<longleftrightarrow> v = JBool x"
  by (cases v) (auto simp: boolean_def)

lemma copy_flags_effect:
  assumes "copy_flags params names out = Inr out'" and "bm_ok out"
  shows "bm_ok out' \<and> (\<forall>k. bm_get out' k = (if k \<in> set names \<and> json_get params k \<noteq> None then json_get params k else bm_get out k))
    \<and> (\<forall>k \<in> set names. pred_option (\<lambda>v. \<exists>x. v = JBool x) (json_get params k))"
  using assms
proof (induction params names out arbitrary: out' rule: copy_flags.induct)
  case (2 params name names out)
  show ?case
  proof (cases "json_get params name")
    case (Some v)
    with 2(3) obtain x where x: "boolean params name False = Inr x" "copy_flags params names (bm_insert name (JBool x) out) = Inr out'"
      by auto
    with Some have "v = JBool x" by (simp add: boolean_given)
    with 2(1) [of x out'] x Some 2(4) show ?thesis by (auto simp: bm_ok_insert bm_get_insert)
  qed (use 2 in auto)
qed auto

lemma copy_numbers_effect:
  assumes "copy_numbers rnd params names out = Inr out'" and "bm_ok out"
  shows "bm_ok out' \<and> (\<forall>k. bm_get out' k = (if k \<in> set names \<and> json_get params k \<noteq> None then json_get params k else bm_get out k))
    \<and> (\<forall>k \<in> set names. pred_option (pdf_number rnd k) (json_get params k))"
  using assms
proof (induction rnd params names out arbitrary: out' rule: copy_numbers.induct)
  case (2 rnd params name names out)
  show ?case
  proof (cases "json_get params name")
    case (Some v)
    with 2(3) obtain x where x: "finite_number rnd v = Some x" by (auto split: option.splits)
    then have "f64_is_finite x" by (auto simp: finite_number_def split: bind_splits if_splits)
    with 2(3) Some x have n: "pdf_number rnd name v" and rest: "copy_numbers rnd params names (bm_insert name v out) = Inr out'"
      by (auto simp: pdf_number_def f64_positive split: if_splits)
    with 2(2) [OF Some x _ _ _ rest] 2(3,4) Some x show ?thesis by (auto simp: bm_ok_insert bm_get_insert split: if_splits)
  qed (use 2 in auto)
qed auto

lemma pdf_checked:
  assumes "normalize_pdf_options rnd dbg params = Inr opts"
  shows "pdf_typed rnd params opts"
proof -
  from assms obtain rs flags out where rs: "pdf_ranges dbg params = Inr rs"
    and flags: "copy_flags params pdf_flags [] = Inr flags" and out: "copy_numbers rnd params pdf_numbers flags = Inr out"
    and opts: "opts = JObj (bm_insert ''pageRanges'' (JArr rs) out)"
    by (auto simp: normalize_pdf_options_def split: option.splits)
  note f = copy_flags_effect [OF flags bm_ok_Nil]
  note n = copy_numbers_effect [OF out conjunct1 [OF f]]
  have "list_all range_ok rs \<and> length rs \<le> MAX_PAGE_RANGE_PARTS"
    using rs by (auto simp: pdf_ranges_def split: option.splits dest: parse_page_ranges_checked)
  moreover have "bm_get (bm_insert ''pageRanges'' (JArr rs) out) k = (if k \<in> set (pdf_flags @ pdf_numbers) then json_get params k else None)"
    if "k \<noteq> ''pageRanges''" for k using f n that by (auto simp: bm_get_insert)
  ultimately show ?thesis
    unfolding pdf_typed_def opts using f n by (intro exI [of _ "bm_insert ''pageRanges'' (JArr rs) out"] exI [of _ rs]) (simp add: bm_get_insert)
qed

text \<open>The refusals of features that the renderer does not have.\<close>

lemma pdf_supported:
  assumes "normalize_pdf_options rnd dbg params = Inr opts"
  shows "\<forall>k \<in> set (bm_keys (the (as_object params))). k \<in> set pdf_allowed"
    and "k \<in> set [''displayHeaderFooter'', ''preferCSSPageSize'', ''generateDocumentOutline''] \<Longrightarrow> bool_field params k \<noteq> Some True"
  using assms
  by (auto simp: normalize_pdf_options_def pdf_unsupported_def boolean_def bool_field_def find_None_iff split: option.splits json.splits)

section \<open>What the renderer and the client are promised\<close>

lemma inline_fits: "inline_base64_fits env rq v (length bs) \<Longrightarrow>
    \<exists>envelope. rn_response env (answer rq v) = Some envelope \<and> length envelope + (length bs + 2) div 3 * 4 \<le> MAX_OUTPUT_BYTES"
  by (auto simp: inline_base64_fits_def checked_add_def Let_def split: option.splits if_splits)

lemma screenshot_effect:
  assumes "screenshot_dispatch env rb rq b = (r, b')"
  shows "answers rq r \<and> (b' \<noteq> b \<longrightarrow> (\<exists>opts. screenshot_typed opts \<and> b' = snd (re_capture_screenshot rb opts b)))"
  using assms by (auto simp: screenshot_dispatch_def split: sum.splits prod.splits if_splits dest: screenshot_checked intro: exI)

lemma pdf_effect:
  assumes "pdf_dispatch env rb rq owner b s = (r, b', s')"
  shows "answers rq r
    \<and> (b' \<noteq> b \<or> s' \<noteq> s \<longrightarrow> (\<exists>opts. pdf_typed (rn_round env) (rq_params rq) opts \<and> b' = snd (re_print_to_pdf rb opts b)
        \<and> (s' \<noteq> s \<longrightarrow> str_field (rq_params rq) ''transferMode'' = Some ''ReturnAsStream''
             \<and> (\<exists>bs. fst (re_print_to_pdf rb opts b) = Inr bs \<and> length bs \<le> MAX_RENDER_RESULT_BYTES \<and> s' = snd (ios_insert owner bs s)))))"
proof (cases "normalize_pdf_options (rn_round env) (rn_debug env) (rq_params rq)")
  case (Inl message)
  with assms show ?thesis by (auto simp: pdf_dispatch_def)
next
  case (Inr opts)
  obtain x c where c: "re_print_to_pdf rb opts b = (x, c)" by fastforce
  have "answers rq r \<and> b' = c \<and> (s' \<noteq> s \<longrightarrow> str_field (rq_params rq) ''transferMode'' = Some ''ReturnAsStream''
      \<and> (\<exists>bs. x = Inr bs \<and> length bs \<le> MAX_RENDER_RESULT_BYTES \<and> s' = snd (ios_insert owner bs s)))"
    using assms Inr c by (cases x) (auto simp: pdf_dispatch_def split: sum.splits prod.splits if_splits)
  with pdf_checked [OF Inr] c show ?thesis by (auto intro!: exI [of _ opts])
qed

text \<open>
  C18. Whatever state the renderer keeps, it changes only by calls with options of the right types and ranges: a screenshot is a PNG taken from
  the surface, of a clip with finite position and positive finite size and scale if any; the options of a PDF are an
  object that holds, as the client gave them, the flags as booleans and the scale, the paper and viewport sizes and the
  margins as finite numbers in their range, with at most 512 ascending page ranges, and nothing else. A command whose
  options do not check reaches neither the renderer nor the streams. The streams change only when the client asked
  for a stream: then the bytes of the PDF, at most 16 MiB, are inserted for its connection. Both commands, and no
  other, are answered with the identity and the session of the request.
\<close>

theorem render_options_typed:
  assumes "render_dispatch env rb rq owner b s = (r, b', s')"
  shows "(r \<noteq> None \<longleftrightarrow> render_supports (rq_method rq)) \<and> pred_option (answers rq) r
    \<and> (b' \<noteq> b \<or> s' \<noteq> s \<longrightarrow>
      rq_method rq = ''Page.captureScreenshot'' \<and> s' = s
        \<and> (\<exists>opts. screenshot_typed opts \<and> b' = snd (re_capture_screenshot rb opts b))
      \<or> rq_method rq = ''Page.printToPDF''
        \<and> (\<exists>opts. pdf_typed (rn_round env) (rq_params rq) opts \<and> b' = snd (re_print_to_pdf rb opts b)
            \<and> (s' \<noteq> s \<longrightarrow> str_field (rq_params rq) ''transferMode'' = Some ''ReturnAsStream''
                \<and> (\<exists>bs. fst (re_print_to_pdf rb opts b) = Inr bs \<and> length bs \<le> MAX_RENDER_RESULT_BYTES
                     \<and> s' = snd (ios_insert owner bs s)))))"
proof -
  obtain x c where sc: "screenshot_dispatch env rb rq b = (x, c)" by fastforce
  obtain y d t where pdf: "pdf_dispatch env rb rq owner b s = (y, d, t)" by (metis prod.exhaust)
  note e = screenshot_effect [OF sc] pdf_effect [OF pdf]
  have "(r \<noteq> None \<longleftrightarrow> render_supports (rq_method rq)) \<and> pred_option (answers rq) r"
    using assms e sc pdf by (auto simp: render_dispatch_def render_supports_def split: if_splits)
  moreover have "b' \<noteq> b \<or> s' \<noteq> s \<longrightarrow>
      rq_method rq = ''Page.captureScreenshot'' \<and> s' = s
        \<and> (\<exists>opts. screenshot_typed opts \<and> b' = snd (re_capture_screenshot rb opts b))
      \<or> rq_method rq = ''Page.printToPDF''
        \<and> (\<exists>opts. pdf_typed (rn_round env) (rq_params rq) opts \<and> b' = snd (re_print_to_pdf rb opts b)
            \<and> (s' \<noteq> s \<longrightarrow> str_field (rq_params rq) ''transferMode'' = Some ''ReturnAsStream''
                \<and> (\<exists>bs. fst (re_print_to_pdf rb opts b) = Inr bs \<and> length bs \<le> MAX_RENDER_RESULT_BYTES
                     \<and> s' = snd (ios_insert owner bs s))))"
    using assms e sc pdf by (cases "rq_method rq = ''Page.captureScreenshot''"; cases "rq_method rq = ''Page.printToPDF''")
      (simp_all add: render_dispatch_def)
  ultimately show ?thesis by blast
qed

text \<open>A renderer that keeps the options it was called with.\<close>

definition recorder :: "json list render_backend" where
  "recorder = \<lparr>re_capture_screenshot = (\<lambda>_ b. (Inl ''no page'', b)), re_print_to_pdf = (\<lambda>opts b. (Inr [37, 80, 68, 70], b @ [opts]))\<rparr>"

definition demo_render :: render_env where
  "demo_render = \<lparr>rn_round = (\<lambda>i. Finite (of_int i)), rn_debug = (\<lambda>s. s), rn_base64 = map (\<lambda>b. char_of (unat b)),
     rn_response = (\<lambda>_. Some [])\<rparr>"

definition print_request :: cdp_request where
  "print_request = \<lparr>rq_id = 3, rq_method = ''Page.printToPDF'',
     rq_params = JObj [(''landscape'', JBool True), (''scale'', JInt 1)], rq_session_id = Some ''s''\<rparr>"

definition expected_options :: json where
  "expected_options = JObj [(''landscape'', JBool True), (''pageRanges'', JArr []), (''scale'', JInt 1)]"

theorem render_options_typed_witness:
  "case render_dispatch demo_render recorder print_request (ConnectionId 1) [] ios_default of
     (r, b', s') \<Rightarrow> b' = [expected_options] \<and> pdf_typed (rn_round demo_render) (rq_params print_request) expected_options
       \<and> pred_option (answers print_request) r"
proof -
  obtain r b' s' where d: "render_dispatch demo_render recorder print_request (ConnectionId 1) [] ios_default = (r, b', s')"
    by (metis prod.exhaust)
  have "normalize_pdf_options (rn_round demo_render) (rn_debug demo_render) (rq_params print_request) = Inr expected_options"
    by code_simp
  then have b': "b' = [expected_options]" and m: "rq_method print_request = ''Page.printToPDF''"
    using d by (auto simp: render_dispatch_def pdf_dispatch_def recorder_def print_request_def split: if_splits prod.splits sum.splits)
  with render_options_typed [OF d] obtain opts where "pdf_typed (rn_round demo_render) (rq_params print_request) opts"
    "b' = snd (re_print_to_pdf recorder opts [])" "pred_option (answers print_request) r" by auto
  with b' show ?thesis unfolding d by (auto simp: recorder_def)
qed

end
