(* ===== verification/PortableAction.thy ===== *)
theory PortableAction
  imports PortableDispatch PortableRender
begin

text \<open>
  \<open>crates/obscura-cdp/src/portable_action.rs\<close>: the commands whose work the host does, as the kind and the payload
  of a queued action and as the action of the engine contract. The two matches of \<open>from_request\<close> and the one of
  \<open>from_kind\<close> agree: every command that is queued has a kind, and every kind an action of the page of the command.
\<close>

record host_action_request =
  har_kind :: string
  har_payload :: json

definition headers_json :: "browser \<Rightarrow> page_id \<Rightarrow> json" where
  "headers_json s p =
     JObj (map (\<lambda>(name, v). (name, JStr v)) (case extra_headers s p of Inr headers \<Rightarrow> headers | Inl _ \<Rightarrow> []))"

definition request_payload :: "cdp_request \<Rightarrow> browser \<Rightarrow> page_id \<Rightarrow> page_state \<Rightarrow> json option" where
  "request_payload rq s p pg =
     (let method = rq_method rq; params = rq_params rq in
      if method = ''Page.setDocumentContent'' then
        Some (json_obj [(''html'', JStr (unwrap_or (str_field params ''html'') []))])
      else if method = ''Page.navigate'' then
        Some (json_obj [(''url'', JStr (unwrap_or (str_field params ''url'') ''about:blank'')), (''method'', JStr ''GET''),
          (''referrer'', JStr (unwrap_or (str_field params ''referrer'') [])), (''extraHTTPHeaders'', headers_json s p)])
      else if method = ''Page.reload'' then
        Some (json_obj [(''url'', JStr (pg_url pg)), (''extraHTTPHeaders'', headers_json s p)])
      else if method = ''Runtime.evaluate'' then Some params
      else if method = ''Runtime.callFunctionOn'' then Some params
      else if method = ''Runtime.releaseObject'' \<or> method = ''Runtime.releaseObjectGroup'' then Some params
      else if method = ''Runtime.getProperties'' then Some params
      else if method = ''Runtime.getIsolateId'' then Some (JObj [])
      else if method = ''Input.dispatchMouseEvent'' \<or> method = ''Input.dispatchKeyEvent'' \<or> method = ''Input.insertText''
      then Some params
      else if method = ''Page.captureScreenshot'' then
        Some (json_obj [(''format'', JStr (unwrap_or (str_field params ''format'') ''png''))])
      else if method = ''Page.printToPDF'' then
        Some (json_obj [(''landscape'', JBool (unwrap_or (bool_field params ''landscape'') False))])
      else None)"

text \<open>The second match; its last arm is \<open>unreachable!\<close>.\<close>

definition request_kind :: "string \<Rightarrow> string option" where
  "request_kind = map_of
     [(''Page.setDocumentContent'', ''setDocumentContent''), (''Page.navigate'', ''navigate''), (''Page.reload'', ''reload''),
      (''Runtime.evaluate'', ''evaluate''), (''Runtime.callFunctionOn'', ''callFunctionOn''),
      (''Runtime.releaseObject'', ''releaseObject''), (''Runtime.releaseObjectGroup'', ''releaseObjectGroup''),
      (''Runtime.getProperties'', ''getProperties''), (''Runtime.getIsolateId'', ''getIsolateId''),
      (''Input.dispatchMouseEvent'', ''dispatchMouseEvent''), (''Input.dispatchKeyEvent'', ''dispatchKeyEvent''),
      (''Input.insertText'', ''insertText''), (''Page.captureScreenshot'', ''screenshot''), (''Page.printToPDF'', ''pdf'')]"

datatype 'a outcome = Panics | Declines | Returns 'a

definition from_request :: "cdp_request \<Rightarrow> browser \<Rightarrow> page_id \<Rightarrow> host_action_request cdp_result outcome" where
  "from_request rq s p =
     (case find_page s p of
        None \<Rightarrow> Returns (Inl (UnknownPage p))
      | Some pg \<Rightarrow>
         (case request_payload rq s p pg of
            None \<Rightarrow> Declines
          | Some payload \<Rightarrow>
             (case request_kind (rq_method rq) of
                None \<Rightarrow> Panics
              | Some kind \<Rightarrow> Returns (Inr \<lparr>har_kind = kind, har_payload = payload\<rparr>))))"

definition from_kind :: "page_id \<Rightarrow> string \<Rightarrow> json \<Rightarrow> engine_action cdp_result" where
  "from_kind p kind payload =
     (let string_field = (\<lambda>name dflt. unwrap_or (str_field payload name) dflt) in
      if kind \<in> set [''navigate'', ''reload'', ''setDocumentContent''] then Inr (Navigate p (string_field ''url'' ''about:blank''))
      else if kind = ''evaluate'' then Inr (Evaluate p (string_field ''expression'' []))
      else if kind = ''callFunctionOn'' then Inr (CallFunctionOn p (string_field ''functionDeclaration'' []))
      else if kind = ''getProperties'' then Inr (GetProperties p (string_field ''objectId'' []))
      else if kind \<in> set [''releaseObject'', ''releaseObjectGroup''] then Inr (ReleaseObject p (string_field ''objectId'' []))
      else if kind \<in> set [''dispatchMouseEvent'', ''dispatchKeyEvent'', ''insertText''] then Inr (DeliverInput p payload)
      else if kind = ''screenshot'' then Inr (CaptureScreenshot p (string_field ''format'' ''png''))
      else if kind = ''pdf'' then Inr (PrintToPdf p payload)
      else if kind = ''getIsolateId'' then Inr (Wake 0)
      else Inl (Unsupported (''unknown host action kind '' @ kind)))"

section \<open>The matches agree\<close>

definition host_methods :: "string list" where
  "host_methods = [''Page.setDocumentContent'', ''Page.navigate'', ''Page.reload'', ''Runtime.evaluate'', ''Runtime.callFunctionOn'',
     ''Runtime.releaseObject'', ''Runtime.releaseObjectGroup'', ''Runtime.getProperties'', ''Runtime.getIsolateId'',
     ''Input.dispatchMouseEvent'', ''Input.dispatchKeyEvent'', ''Input.insertText'', ''Page.captureScreenshot'', ''Page.printToPDF'']"

lemma payload_methods: "request_payload rq s p pg \<noteq> None \<longleftrightarrow> rq_method rq \<in> set host_methods"
  by (simp add: request_payload_def host_methods_def Let_def)

lemma kind_methods: "m \<in> set host_methods \<Longrightarrow> \<exists>kind. request_kind m = Some kind
    \<and> (\<forall>p payload. \<exists>a. from_kind p kind payload = Inr a \<and> action_context a = None
         \<and> (action_page a = Some p \<or> m = ''Runtime.getIsolateId'') \<and> (is_navigation a \<longleftrightarrow> m \<in> set [''Page.setDocumentContent'', ''Page.navigate'', ''Page.reload'']))"
  by (auto simp: host_methods_def request_kind_def from_kind_def Let_def)

text \<open>The panic is unreachable, and a queued command is an action of its page; only the wake-up is bound to none.\<close>

lemma from_request_total:
  "from_request rq s p \<noteq> Panics"
  "from_request rq s p = Returns (Inr h) \<Longrightarrow> \<exists>a. from_kind p (har_kind h) (har_payload h) = Inr a
     \<and> (action_page a = Some p \<or> rq_method rq = ''Runtime.getIsolateId'')"
  using kind_methods [of "rq_method rq"] payload_methods [of rq s p "the (find_page s p)"]
  by (auto simp: from_request_def split: option.splits) (metis+)?

text \<open>No command is queued for the host that a portable page domain answers; the two renderings are the renderer's.\<close>

lemma host_methods_apart: "\<forall>m \<in> set host_methods. \<not> supports_page m \<and> m \<noteq> ''IO.read'' \<and> m \<noteq> ''IO.close''
    \<and> (render_supports m \<longleftrightarrow> m = ''Page.captureScreenshot'' \<or> m = ''Page.printToPDF'')"
  by code_simp

end
