(* ===== verification/Navigation.thy ===== *)
theory Navigation
  imports Portable IoStream IdSource
begin

text \<open>
  \<open>crates/obscura-wasm/src/navigation.rs\<close>: the navigation transactions of a portable page, with the host doing the
  fetches. A URL of the crate \<open>url\<close> is its serialization; parsing, joining and the scheme are parameters, as are
  the readers and the writer of serde_json and the Debug form of a string. What it promises: only the transaction
  begun last can go on, its identity never comes back, redirects and the body are bounded, and what is committed is
  what was approved and received.
\<close>

type_synonym url = string

definition MAX_NAVIGATION_URL_BYTES :: nat where "MAX_NAVIGATION_URL_BYTES = 64 * 1024"
definition MAX_NAVIGATION_OPTIONS_BYTES :: nat where "MAX_NAVIGATION_OPTIONS_BYTES = 64 * 1024"
definition MAX_NAVIGATION_HEADERS_BYTES :: nat where "MAX_NAVIGATION_HEADERS_BYTES = 128 * 1024"
definition MAX_NAVIGATION_RESPONSE_BYTES :: nat where "MAX_NAVIGATION_RESPONSE_BYTES = 32 * 1024 * 1024"
definition MAX_NAVIGATION_REDIRECTS :: nat where "MAX_NAVIGATION_REDIRECTS = 10"
definition NAVIGATION_ABI_VERSION :: nat where "NAVIGATION_ABI_VERSION = 1"

record begin_options =
  bo_method :: string
  bo_body :: string
  bo_referrer :: string
  bo_replace_history :: bool
  bo_max_redirects :: nat

record pending_navigation =
  pn_id :: nat
  pn_loader_id :: nat
  pn_url :: url
  pn_method :: string
  pn_body :: string
  pn_referrer :: string
  pn_replace_history :: bool
  pn_max_redirects :: nat
  pn_redirect_count :: nat
  pn_status :: "nat option"
  pn_headers :: "(string, string) bmap"
  pn_response_body :: bytes

record navigation_entry =
  ne_id :: nat
  ne_url :: string
  ne_loader_id :: nat
  ne_document_generation :: nat

record navigation_commit =
  nc_navigation_id :: nat
  nc_loader_id :: nat
  nc_url :: url
  nc_referrer :: string
  nc_encoding :: string
  nc_body :: bytes
  nc_status :: nat
  nc_replace_history :: bool

record navigation_state =
  ns_next_navigation_id :: nat
  ns_next_loader_id :: nat
  ns_next_history_id :: nat
  ns_document_generation :: nat
  ns_current_url :: url
  ns_current_referrer :: string
  ns_pending :: "pending_navigation option"
  ns_history :: "navigation_entry list"
  ns_history_index :: nat

record nav_env =
  nv_parse :: "string \<Rightarrow> string + url"
  nv_join :: "url \<Rightarrow> string \<Rightarrow> string + url"
  nv_scheme :: "url \<Rightarrow> string"
  nv_options :: "string \<Rightarrow> string + begin_options"
  nv_value :: "string \<Rightarrow> string + json"
  nv_encode :: "json \<Rightarrow> string + string"
  nv_debug :: "string \<Rightarrow> string"

definition about_blank :: url where "about_blank = ''about:blank''"

definition nav_new :: navigation_state where
  "nav_new = \<lparr>ns_next_navigation_id = 1, ns_next_loader_id = 1, ns_next_history_id = 1, ns_document_generation = 0,
     ns_current_url = about_blank, ns_current_referrer = [], ns_pending = None,
     ns_history = [\<lparr>ne_id = 1, ne_url = about_blank, ne_loader_id = 0, ne_document_generation = 0\<rparr>],
     ns_history_index = 0\<rparr>"

section \<open>Checks\<close>

definition require_bytes :: "string \<Rightarrow> nat \<Rightarrow> string \<Rightarrow> string + unit" where
  "require_bytes v maximum label =
     (if maximum < length v then Inl (label @ '' exceeds the '' @ show_nat maximum @ ''-byte navigation limit'') else Inr ())"

definition is_http_token_byte :: "char \<Rightarrow> bool" where
  "is_http_token_byte c \<longleftrightarrow>
     (let n = of_char c :: nat in 97 \<le> n \<and> n \<le> 122 \<or> 65 \<le> n \<and> n \<le> 90 \<or> 48 \<le> n \<and> n \<le> 57
        \<or> n \<in> set [33, 35, 36, 37, 38, 39, 42, 43, 45, 46, 94, 95, 96, 124, 126])"

definition validate_method :: "string \<Rightarrow> string + unit" where
  "validate_method method =
     (if method = [] \<or> 16 < length method \<or> \<not> list_all is_http_token_byte method
      then Inl ''navigation method must be a short HTTP token''
      else if method \<in> set [''CONNECT'', ''TRACE'', ''TRACK'']
      then Inl (''navigation method '' @ method @ '' is not allowed'')
      else Inr ())"

definition parse_navigation_url :: "nav_env \<Rightarrow> string \<Rightarrow> string + url" where
  "parse_navigation_url env v =
     (case nv_parse env v of
        Inl e \<Rightarrow> Inl (''invalid navigation URL: '' @ e)
      | Inr url \<Rightarrow>
         (let scheme = nv_scheme env url in
          if scheme = ''about'' then
            (if url \<noteq> ''about:blank'' then Inl ''only about:blank is supported by portable navigation'' else Inr url)
          else if scheme = ''data'' \<or> scheme = ''http'' \<or> scheme = ''https'' then Inr url
          else Inl (''navigation scheme '' @ nv_debug env scheme @ '' is not supported'')))"

definition is_redirect :: "nat \<Rightarrow> bool" where
  "is_redirect status \<longleftrightarrow> status \<in> set [301, 302, 303, 307, 308]"

definition nav_json :: "nav_env \<Rightarrow> json \<Rightarrow> string + string" where
  "nav_json env v = (case nv_encode env v of Inl e \<Rightarrow> Inl (''navigation response encoding failed: '' @ e) | Inr s \<Rightarrow> Inr s)"

section \<open>Identities and the pending transaction\<close>

definition take_navigation_id :: "navigation_state \<Rightarrow> (string + nat) \<times> navigation_state" where
  "take_navigation_id s =
     (let i = ns_next_navigation_id s in
      if u32_max < i then (Inl ''navigation id space exceeds the 32-bit ABI'', s)
      else case checked_add u64_max i 1 of
        None \<Rightarrow> (Inl ''navigation id space is exhausted'', s)
      | Some n \<Rightarrow> (Inr i, s\<lparr>ns_next_navigation_id := n\<rparr>))"

definition take_loader_id :: "navigation_state \<Rightarrow> (string + nat) \<times> navigation_state" where
  "take_loader_id s =
     (let i = ns_next_loader_id s in
      case checked_add u64_max i 1 of
        None \<Rightarrow> (Inl ''loader id space is exhausted'', s)
      | Some n \<Rightarrow> (Inr i, s\<lparr>ns_next_loader_id := n\<rparr>))"

definition take_history_id :: "navigation_state \<Rightarrow> (string + nat) \<times> navigation_state" where
  "take_history_id s =
     (let i = ns_next_history_id s in
      case checked_add u64_max i 1 of
        None \<Rightarrow> (Inl ''history id space is exhausted'', s)
      | Some n \<Rightarrow> (Inr i, s\<lparr>ns_next_history_id := n\<rparr>))"

definition cancel_pending :: "navigation_state \<Rightarrow> nat option \<times> navigation_state" where
  "cancel_pending s = (map_option pn_id (ns_pending s), s\<lparr>ns_pending := None\<rparr>)"

definition nav_cancel :: "nat \<Rightarrow> navigation_state \<Rightarrow> (string + bool) \<times> navigation_state" where
  "nav_cancel i s =
     (case map_option pn_id (ns_pending s) of
        None \<Rightarrow> (Inr False, s)
      | Some j \<Rightarrow>
         (if j = i then (Inr True, s\<lparr>ns_pending := None\<rparr>)
          else (Inl (''stale navigation id '' @ show_nat i @ '' (current '' @ show_nat j @ '')''), s)))"

definition pending_mut :: "nat \<Rightarrow> navigation_state \<Rightarrow> string + pending_navigation" where
  "pending_mut i s =
     (case ns_pending s of
        None \<Rightarrow> Inl ''no navigation is pending''
      | Some p \<Rightarrow> (if pn_id p \<noteq> i then Inl (''stale navigation id '' @ show_nat i) else Inr p))"

section \<open>Beginning\<close>

definition begin_checks :: "nav_env \<Rightarrow> string \<Rightarrow> string \<Rightarrow> string + url \<times> begin_options" where
  "begin_checks env url options_json =
     try_then (require_bytes url MAX_NAVIGATION_URL_BYTES ''navigation URL'') (\<lambda>_.
     try_then (require_bytes options_json MAX_NAVIGATION_OPTIONS_BYTES ''navigation options'') (\<lambda>_.
     try_then (parse_navigation_url env url) (\<lambda>target.
     try_then (case nv_options env options_json of Inl e \<Rightarrow> Inl (''invalid navigation options: '' @ e) | Inr opts \<Rightarrow> Inr opts) (\<lambda>opts.
     try_then (validate_method (bo_method opts)) (\<lambda>_.
     try_then (require_bytes (bo_body opts) MAX_NAVIGATION_RESPONSE_BYTES ''navigation request body'') (\<lambda>_.
     try_then (require_bytes (bo_referrer opts) MAX_NAVIGATION_URL_BYTES ''navigation referrer'') (\<lambda>_.
       if MAX_NAVIGATION_REDIRECTS < bo_max_redirects opts
       then Inl (''navigation redirect limit exceeds '' @ show_nat MAX_NAVIGATION_REDIRECTS)
       else Inr (target, opts))))))))"

definition ascii_upper_char :: "char \<Rightarrow> char" where
  "ascii_upper_char c = (let n = of_char c :: nat in if 97 \<le> n \<and> n \<le> 122 then char_of (n - 32) else c)"

definition to_ascii_uppercase :: "string \<Rightarrow> string" where
  "to_ascii_uppercase = map ascii_upper_char"

definition new_pending :: "nat \<Rightarrow> nat \<Rightarrow> url \<Rightarrow> begin_options \<Rightarrow> pending_navigation" where
  "new_pending i l target opts =
     \<lparr>pn_id = i, pn_loader_id = l, pn_url = target, pn_method = to_ascii_uppercase (bo_method opts), pn_body = bo_body opts,
      pn_referrer = bo_referrer opts, pn_replace_history = bo_replace_history opts, pn_max_redirects = bo_max_redirects opts,
      pn_redirect_count = 0, pn_status = None, pn_headers = [], pn_response_body = []\<rparr>"

definition nav_begin :: "nav_env \<Rightarrow> string \<Rightarrow> string \<Rightarrow> navigation_state \<Rightarrow> (string + string) \<times> navigation_state" where
  "nav_begin env url options_json s =
     (case begin_checks env url options_json of
        Inl e \<Rightarrow> (Inl e, s)
      | Inr (target, opts) \<Rightarrow>
         (case cancel_pending s of (cancelled, s1) \<Rightarrow>
          (case take_navigation_id s1 of
             (Inl e, s2) \<Rightarrow> (Inl e, s2)
           | (Inr i, s2) \<Rightarrow>
              (case take_loader_id s2 of
                 (Inl e, s3) \<Rightarrow> (Inl e, s3)
               | (Inr l, s3) \<Rightarrow>
                  (let p = new_pending i l target opts;
                       kind = (if nv_scheme env target = ''about'' \<or> nv_scheme env target = ''data'' then ''inline'' else ''fetch'')
                   in (nav_json env (json_obj
                         [(''abiVersion'', json_nat NAVIGATION_ABI_VERSION), (''kind'', JStr kind), (''navigationId'', json_nat i),
                          (''loaderId'', json_nat l), (''url'', JStr target), (''method'', JStr (pn_method p)),
                          (''body'', JStr (pn_body p)), (''referrer'', JStr (pn_referrer p)), (''redirectCount'', json_nat 0),
                          (''maxRedirects'', json_nat (pn_max_redirects p)),
                          (''cancelledNavigationId'', json_opt json_nat cancelled)]),
                       s3\<lparr>ns_pending := Some p\<rparr>))))))"

section \<open>The response\<close>

fun nav_headers :: "nav_env \<Rightarrow> (string \<times> json) list \<Rightarrow> (string, string) bmap \<Rightarrow> string + (string, string) bmap" where
  "nav_headers env [] headers = Inr headers"
| "nav_headers env ((name, v) # rest) headers =
     (case as_str v of
        None \<Rightarrow> Inl (''navigation response header '' @ nv_debug env name @ '' must be a string'')
      | Some val \<Rightarrow>
          try_then (require_bytes name MAX_NAVIGATION_URL_BYTES ''navigation response header name'') (\<lambda>_.
          try_then (require_bytes val MAX_NAVIGATION_HEADERS_BYTES ''navigation response header value'') (\<lambda>_.
            nav_headers env rest (bm_insert (to_ascii_lowercase name) val headers))))"

definition put_pending :: "pending_navigation \<Rightarrow> navigation_state \<Rightarrow> navigation_state" where
  "put_pending p s = s\<lparr>ns_pending := Some p\<rparr>"

text \<open>The branch of a redirect; \<open>p\<close> already has the status and the headers.\<close>

definition nav_redirect :: "nav_env \<Rightarrow> pending_navigation \<Rightarrow> nat \<Rightarrow> (string + string) \<times> pending_navigation" where
  "nav_redirect env p status =
     (case bm_get (pn_headers p) ''location'' of
        None \<Rightarrow> (Inl (''redirect response '' @ show_nat status @ '' is missing Location''), p)
      | Some location \<Rightarrow>
         (if pn_max_redirects p \<le> pn_redirect_count p
          then (Inl (''navigation exceeded '' @ show_nat (pn_max_redirects p) @ '' redirects''), p)
          else case nv_join env (pn_url p) location of
            Inl e \<Rightarrow> (Inl (''invalid redirect Location: '' @ e), p)
          | Inr next_url \<Rightarrow>
             (case parse_navigation_url env next_url of
                Inl e \<Rightarrow> (Inl e, p)
              | Inr _ \<Rightarrow>
                 (let p1 = p\<lparr>pn_redirect_count := pn_redirect_count p + 1, pn_url := next_url, pn_headers := [],
                        pn_status := None, pn_response_body := []\<rparr>;
                      p2 = (if status \<in> set [301, 302, 303] \<and> pn_method p1 \<noteq> ''GET'' \<and> pn_method p1 \<noteq> ''HEAD''
                        then p1\<lparr>pn_method := ''GET'', pn_body := []\<rparr> else p1)
                  in (nav_json env (json_obj
                        [(''abiVersion'', json_nat NAVIGATION_ABI_VERSION), (''kind'', JStr ''redirect''),
                         (''navigationId'', json_nat (pn_id p2)), (''loaderId'', json_nat (pn_loader_id p2)),
                         (''url'', JStr next_url), (''method'', JStr (pn_method p2)), (''body'', JStr (pn_body p2)),
                         (''referrer'', JStr (pn_referrer p2)), (''redirectCount'', json_nat (pn_redirect_count p2)),
                         (''maxRedirects'', json_nat (pn_max_redirects p2))]), p2)))))"

definition headers_checks :: "nav_env \<Rightarrow> nat \<Rightarrow> string \<Rightarrow> navigation_state \<Rightarrow> string + pending_navigation \<times> (string, string) bmap" where
  "headers_checks env i headers_json s =
     try_then (require_bytes headers_json MAX_NAVIGATION_HEADERS_BYTES ''navigation response headers'') (\<lambda>_.
     try_then (pending_mut i s) (\<lambda>p.
     try_then (case nv_value env headers_json of
         Inl e \<Rightarrow> Inl (''invalid navigation response headers: '' @ e) | Inr raw \<Rightarrow> Inr raw) (\<lambda>raw.
     try_then (case as_object raw of
         None \<Rightarrow> Inl ''navigation response headers must be a JSON object'' | Some object \<Rightarrow> Inr object) (\<lambda>object.
     try_then (nav_headers env object []) (\<lambda>headers. Inr (p, headers))))))"

definition nav_response_headers ::
    "nav_env \<Rightarrow> nat \<Rightarrow> nat \<Rightarrow> string \<Rightarrow> navigation_state \<Rightarrow> (string + string) \<times> navigation_state" where
  "nav_response_headers env i status headers_json s =
     (case headers_checks env i headers_json s of
        Inl e \<Rightarrow> (Inl e, s)
      | Inr (p0, headers) \<Rightarrow>
         (let p = p0\<lparr>pn_status := Some status, pn_headers := headers\<rparr> in
          if is_redirect status
          then (case nav_redirect env p status of (r, p') \<Rightarrow> (r, put_pending p' s))
          else if status < 200 \<or> 600 \<le> status
          then (nav_json env (json_obj
                  [(''abiVersion'', json_nat NAVIGATION_ABI_VERSION), (''kind'', JStr ''responseError''),
                   (''navigationId'', json_nat (pn_id p)), (''loaderId'', json_nat (pn_loader_id p)),
                   (''status'', json_nat status)]), put_pending p s)
          else (nav_json env (json_obj
                  [(''abiVersion'', json_nat NAVIGATION_ABI_VERSION), (''kind'', JStr ''acceptBody''),
                   (''navigationId'', json_nat (pn_id p)), (''loaderId'', json_nat (pn_loader_id p)),
                   (''status'', json_nat status), (''url'', JStr (pn_url p))]), put_pending p s)))"

definition nav_response_chunk :: "nat \<Rightarrow> bytes \<Rightarrow> navigation_state \<Rightarrow> (string + unit) \<times> navigation_state" where
  "nav_response_chunk i bs s =
     (case pending_mut i s of
        Inl e \<Rightarrow> (Inl e, s)
      | Inr p \<Rightarrow>
         (case checked_add usize_max (length (pn_response_body p)) (length bs) of
            None \<Rightarrow> (Inl ''navigation response size overflow'', s)
          | Some n \<Rightarrow>
             (if MAX_NAVIGATION_RESPONSE_BYTES < n
              then (Inl (''navigation response exceeds the '' @ show_nat MAX_NAVIGATION_RESPONSE_BYTES @ ''-byte limit''), s)
              else (Inr (), put_pending (p\<lparr>pn_response_body := pn_response_body p @ bs\<rparr>) s))))"

definition finish_checks :: "nav_env \<Rightarrow> nat \<Rightarrow> string \<Rightarrow> string \<Rightarrow> navigation_state \<Rightarrow> string + navigation_commit" where
  "finish_checks env i final_url encoding s =
     try_then (require_bytes final_url MAX_NAVIGATION_URL_BYTES ''navigation final URL'') (\<lambda>_.
     try_then (require_bytes encoding 256 ''navigation encoding'') (\<lambda>_.
     try_then (pending_mut i s) (\<lambda>p.
     try_then (parse_navigation_url env final_url) (\<lambda>url.
       if url \<noteq> pn_url p then Inl ''navigation final URL does not match the approved response URL''
       else
         (let status = unwrap_or (pn_status p) 200 in
          if status < 200 \<or> 600 \<le> status
          then Inl (''navigation cannot commit response status '' @ show_nat status)
          else Inr \<lparr>nc_navigation_id = pn_id p, nc_loader_id = pn_loader_id p, nc_url = url, nc_referrer = pn_referrer p,
                 nc_encoding = encoding, nc_body = pn_response_body p, nc_status = status,
                 nc_replace_history = pn_replace_history p\<rparr>)))))"

definition nav_finish_response ::
    "nav_env \<Rightarrow> nat \<Rightarrow> string \<Rightarrow> string \<Rightarrow> navigation_state \<Rightarrow> (string + navigation_commit) \<times> navigation_state" where
  "nav_finish_response env i final_url encoding s =
     (case finish_checks env i final_url encoding s of
        Inl e \<Rightarrow> (Inl e, s)
      | Inr c \<Rightarrow> (Inr c, s\<lparr>ns_pending := None\<rparr>))"

section \<open>The commit\<close>

text \<open>None is the panic of the assignment to an entry out of range.\<close>

definition nav_record_commit :: "navigation_commit \<Rightarrow> navigation_state \<Rightarrow> ((string + unit) \<times> navigation_state) option" where
  "nav_record_commit c s =
     (case checked_add u32_max (ns_document_generation s) 1 of
        None \<Rightarrow> Some (Inl ''document generation space is exhausted'', s)
      | Some g \<Rightarrow>
         (case take_history_id (s\<lparr>ns_document_generation := g, ns_current_url := nc_url c, ns_current_referrer := nc_referrer c\<rparr>) of
            (Inl e, s1) \<Rightarrow> Some (Inl e, s1)
          | (Inr h, s1) \<Rightarrow>
             (let entry = \<lparr>ne_id = h, ne_url = nc_url c, ne_loader_id = nc_loader_id c, ne_document_generation = g\<rparr> in
              if nc_replace_history c \<and> ns_history s1 \<noteq> []
              then (if ns_history_index s1 < length (ns_history s1)
                    then Some (Inr (), s1\<lparr>ns_history := (ns_history s1)[ns_history_index s1 := entry]\<rparr>) else None)
              else (let hs = take (min (ns_history_index s1 + 1) usize_max) (ns_history s1) @ [entry]
                    in Some (Inr (), s1\<lparr>ns_history := hs, ns_history_index := length hs - 1\<rparr>)))))"

text \<open>
  What \<open>navigation_response_end\<close> of \<open>lib.rs\<close> does to the state: the response is finished, the document is parsed
  and its metadata set, which may fail, and the commit is recorded.
\<close>

definition nav_response_end ::
    "nav_env \<Rightarrow> nat \<Rightarrow> string \<Rightarrow> string \<Rightarrow> (navigation_commit \<Rightarrow> string option) \<Rightarrow> navigation_state
      \<Rightarrow> ((string + navigation_commit) \<times> navigation_state) option" where
  "nav_response_end env i final_url encoding load s =
     (case nav_finish_response env i final_url encoding s of
        (Inl e, s1) \<Rightarrow> Some (Inl e, s1)
      | (Inr c, s1) \<Rightarrow>
         (case load c of
            Some e \<Rightarrow> Some (Inl e, s1)
          | None \<Rightarrow>
             (case nav_record_commit c s1 of
                None \<Rightarrow> None
              | Some (Inl e, s2) \<Rightarrow> Some (Inl e, s2)
              | Some (Inr _, s2) \<Rightarrow> Some (Inr c, s2))))"

definition entry_json :: "navigation_entry \<Rightarrow> json" where
  "entry_json e = json_obj [(''id'', json_nat (ne_id e)), (''url'', JStr (ne_url e)), (''loaderId'', json_nat (ne_loader_id e)),
     (''documentGeneration'', json_nat (ne_document_generation e))]"

definition nav_status_json :: "nav_env \<Rightarrow> navigation_state \<Rightarrow> string + string" where
  "nav_status_json env s = nav_json env (json_obj
     [(''abiVersion'', json_nat NAVIGATION_ABI_VERSION), (''currentUrl'', JStr (ns_current_url s)),
      (''currentReferrer'', JStr (ns_current_referrer s)), (''documentGeneration'', json_nat (ns_document_generation s)),
      (''historyIndex'', json_nat (ns_history_index s)), (''history'', JArr (map entry_json (ns_history s))),
      (''pending'', json_opt (\<lambda>p. json_obj
         [(''navigationId'', json_nat (pn_id p)), (''loaderId'', json_nat (pn_loader_id p)), (''url'', JStr (pn_url p)),
          (''method'', JStr (pn_method p)), (''redirectCount'', json_nat (pn_redirect_count p)),
          (''maxRedirects'', json_nat (pn_max_redirects p))]) (ns_pending s))])"

section \<open>The invariant\<close>

text \<open>A transaction that can go on: its identity was issued, its redirects and its body are within their bounds.\<close>

definition pending_ok :: "navigation_state \<Rightarrow> pending_navigation \<Rightarrow> bool" where
  "pending_ok s p \<longleftrightarrow>
     0 < pn_id p \<and> pn_id p < ns_next_navigation_id s \<and> pn_loader_id p < ns_next_loader_id s
     \<and> pn_redirect_count p \<le> pn_max_redirects p \<and> pn_max_redirects p \<le> MAX_NAVIGATION_REDIRECTS
     \<and> length (pn_response_body p) \<le> MAX_NAVIGATION_RESPONSE_BYTES"

definition nav_ok :: "navigation_state \<Rightarrow> bool" where
  "nav_ok s \<longleftrightarrow>
     pred_option (pending_ok s) (ns_pending s)
     \<and> 0 < ns_next_navigation_id s \<and> ns_next_navigation_id s \<le> u32_max + 1
     \<and> length (ns_history s) = ns_history_index s + 1 \<and> ns_history_index s \<le> ns_document_generation s
     \<and> sorted (map ne_document_generation (ns_history s))
     \<and> (\<forall>e \<in> set (ns_history s). ne_document_generation e \<le> ns_document_generation s)
     \<and> ns_document_generation s \<le> u32_max"

datatype nav_event =
    Begin string string
  | Headers nat nat string
  | Chunk nat bytes
  | End nat string string "navigation_commit \<Rightarrow> string option"
  | Cancel nat
  | Cancel_Pending

text \<open>The effect of one call of the host, and whether it was accepted; None is a panic.\<close>

definition nav_call :: "nav_env \<Rightarrow> nav_event \<Rightarrow> navigation_state \<Rightarrow> (bool \<times> navigation_state) option" where
  "nav_call env e s =
     (case e of
        Begin url opts \<Rightarrow> Some (apfst (\<lambda>r. \<not> isl r) (nav_begin env url opts s))
      | Headers i status hs \<Rightarrow> Some (apfst (\<lambda>r. \<not> isl r) (nav_response_headers env i status hs s))
      | Chunk i bs \<Rightarrow> Some (apfst (\<lambda>r. \<not> isl r) (nav_response_chunk i bs s))
      | End i url enc load \<Rightarrow> map_option (apfst (\<lambda>r. \<not> isl r)) (nav_response_end env i url enc load s)
      | Cancel i \<Rightarrow> Some (apfst (\<lambda>r. r = Inr True) (nav_cancel i s))
      | Cancel_Pending \<Rightarrow> Some (True, snd (cancel_pending s)))"

definition nav_step :: "nav_env \<Rightarrow> nav_event \<Rightarrow> navigation_state \<Rightarrow> navigation_state" where
  "nav_step env e s = (case nav_call env e s of None \<Rightarrow> s | Some (_, s') \<Rightarrow> s')"

inductive nav_reach :: "nav_env \<Rightarrow> navigation_state \<Rightarrow> bool" for env where
  Start: "nav_reach env nav_new"
| Call: "nav_reach env s \<Longrightarrow> nav_call env e s = Some (accepted, s') \<Longrightarrow> nav_reach env s'"

definition current :: "navigation_state \<Rightarrow> nat option" where
  "current s = map_option pn_id (ns_pending s)"

lemma pending_mut_iff: "pending_mut i s = Inr p \<longleftrightarrow> ns_pending s = Some p \<and> pn_id p = i"
  by (auto simp: pending_mut_def split: option.split)

lemma pending_mut_stale: "current s \<noteq> Some i \<Longrightarrow> isl (pending_mut i s)"
  by (auto simp: pending_mut_def current_def split: option.split)

lemma take_navigation_id_cases:
  obtains "u32_max < ns_next_navigation_id s" "\<exists>e. take_navigation_id s = (Inl e, s)"
    | "ns_next_navigation_id s \<le> u32_max"
      "take_navigation_id s = (Inr (ns_next_navigation_id s), s\<lparr>ns_next_navigation_id := ns_next_navigation_id s + 1\<rparr>)"
proof (cases "u32_max < ns_next_navigation_id s")
  case False
  then have "checked_add u64_max (ns_next_navigation_id s) 1 = Some (ns_next_navigation_id s + 1)"
    by (simp add: checked_add_def u32_max_def u64_max_def)
  with False that show ?thesis by (simp add: take_navigation_id_def Let_def)
qed (use that in \<open>simp add: take_navigation_id_def Let_def\<close>)

lemma take_loader_id_cases:
  obtains e where "take_loader_id s = (Inl e, s)"
    | "take_loader_id s = (Inr (ns_next_loader_id s), s\<lparr>ns_next_loader_id := ns_next_loader_id s + 1\<rparr>)"
  using that by (cases "Suc (ns_next_loader_id s) \<le> u64_max") (simp_all add: take_loader_id_def checked_add_def Let_def)

text \<open>What \<open>begin\<close> does.\<close>

lemma nav_begin_cases:
  assumes "nav_begin env url opts s = (r, s')"
  obtains (Refused) e where "begin_checks env url opts = Inl e" "r = Inl e" "s' = s"
    | (Exhausted) e where "r = Inl e" "s' = s\<lparr>ns_pending := None\<rparr>
        \<or> ns_next_navigation_id s \<le> u32_max \<and> s' = s\<lparr>ns_pending := None, ns_next_navigation_id := ns_next_navigation_id s + 1\<rparr>"
    | (Begun) target o' where "begin_checks env url opts = Inr (target, o')" "ns_next_navigation_id s \<le> u32_max"
        "s' = s\<lparr>ns_next_navigation_id := ns_next_navigation_id s + 1, ns_next_loader_id := ns_next_loader_id s + 1,
           ns_pending := Some (new_pending (ns_next_navigation_id s) (ns_next_loader_id s) target o')\<rparr>"
proof (cases "begin_checks env url opts")
  case (Inl e)
  with assms that(1) show ?thesis by (simp add: nav_begin_def)
next
  case (Inr x)
  obtain target o' where x: "x = (target, o')" by fastforce
  let ?s = "s\<lparr>ns_pending := None\<rparr>"
  show ?thesis
  proof (cases rule: take_navigation_id_cases [of ?s])
    case 1
    then obtain e where "take_navigation_id ?s = (Inl e, ?s)" by blast
    with assms Inr x have "r = Inl e" "s' = ?s" by (simp_all add: nav_begin_def cancel_pending_def)
    then show ?thesis by (intro that(2)) simp_all
  next
    case 2
    let ?t = "?s\<lparr>ns_next_navigation_id := ns_next_navigation_id s + 1\<rparr>"
    show ?thesis
    proof (cases rule: take_loader_id_cases [of ?t])
      case (1 e)
      with 2 assms Inr x have "r = Inl e" "s' = ?t" by (simp_all add: nav_begin_def cancel_pending_def)
      with 2(1) show ?thesis by (intro that(2) [of e]) simp_all
    next
      case two: 2
      show ?thesis using 2 two assms Inr x by (intro that(3)) (simp_all add: nav_begin_def cancel_pending_def Let_def, cases s, simp)
    qed
  qed
qed

text \<open>What the response of the host does to the transaction.\<close>

definition moves :: "pending_navigation \<Rightarrow> pending_navigation \<Rightarrow> bool" where
  "moves p p' \<longleftrightarrow>
     pn_id p' = pn_id p \<and> pn_loader_id p' = pn_loader_id p \<and> pn_max_redirects p' = pn_max_redirects p
     \<and> (pn_url p' = pn_url p \<and> pn_redirect_count p' = pn_redirect_count p \<and> pn_response_body p' = pn_response_body p
        \<or> pn_redirect_count p < pn_max_redirects p \<and> pn_redirect_count p' = pn_redirect_count p + 1 \<and> pn_response_body p' = [])"

lemma nav_redirect_moves: "nav_redirect env p status = (r, p') \<Longrightarrow> moves p p'"
  by (auto simp: nav_redirect_def moves_def Let_def split: option.splits if_splits sum.splits)

lemma moves_put: "moves (p\<lparr>pn_status := st, pn_headers := hs\<rparr>) p' \<longleftrightarrow> moves p p'"
  by (simp add: moves_def)

lemma nav_response_headers_cases:
  assumes "nav_response_headers env i status hs s = (r, s')"
  obtains (Refused) "isl r" "s' = s"
    | (Moved) p p' where "ns_pending s = Some p" "pn_id p = i" "s' = put_pending p' s" "moves p p'"
proof -
  show ?thesis
  proof (cases "headers_checks env i hs s")
    case (Inl e)
    with assms that(1) show ?thesis by (auto simp: nav_response_headers_def)
  next
    case (Inr x)
    obtain p headers where x: "x = (p, headers)" by fastforce
    with Inr have p: "ns_pending s = Some p" "pn_id p = i" by (auto simp: headers_checks_def pending_mut_iff)
    let ?p = "p\<lparr>pn_status := Some status, pn_headers := headers\<rparr>"
    obtain r1 p1 where red: "nav_redirect env ?p status = (r1, p1)" by fastforce
    have "s' = put_pending p1 s \<or> s' = put_pending ?p s"
      using assms Inr x red unfolding nav_response_headers_def by (auto simp: Let_def split: if_splits)
    moreover have "moves p p1" "moves p ?p" using nav_redirect_moves [OF red] by (simp add: moves_put, simp add: moves_def)
    ultimately show ?thesis using that(2) [OF p] by auto
  qed
qed

lemma nav_response_chunk_cases:
  assumes "nav_response_chunk i bs s = (r, s')"
  obtains (Refused) "isl r" "s' = s"
    | (Stored) p where "r = Inr ()" "ns_pending s = Some p" "pn_id p = i" "s' = put_pending (p\<lparr>pn_response_body := pn_response_body p @ bs\<rparr>) s"
        "length (pn_response_body p) + length bs \<le> MAX_NAVIGATION_RESPONSE_BYTES"
proof (cases "pending_mut i s")
  case (Inr p)
  then have p: "ns_pending s = Some p" "pn_id p = i" by (simp_all add: pending_mut_iff)
  let ?n = "length (pn_response_body p) + length bs"
  have "checked_add usize_max (length (pn_response_body p)) (length bs) = (if ?n \<le> usize_max then Some ?n else None)"
    by (simp add: checked_add_def)
  moreover have "?n \<le> MAX_NAVIGATION_RESPONSE_BYTES \<Longrightarrow> ?n \<le> usize_max" by (simp add: MAX_NAVIGATION_RESPONSE_BYTES_def usize_max_def)
  ultimately show ?thesis
    using assms Inr that(1) that(2) [OF _ p] unfolding nav_response_chunk_def
    by (cases "?n \<le> MAX_NAVIGATION_RESPONSE_BYTES"; cases "?n \<le> usize_max") auto
next
  case (Inl e)
  with assms have "r = Inl e" "s' = s" by (simp_all add: nav_response_chunk_def)
  then show ?thesis by (intro that(1)) simp_all
qed

lemma nav_finish_response_cases:
  assumes "nav_finish_response env i url enc s = (r, s')"
  obtains (Refused) e where "r = Inl e" "s' = s"
    | (Finished) p c where "r = Inr c" "ns_pending s = Some p" "pn_id p = i" "s' = s\<lparr>ns_pending := None\<rparr>"
        "parse_navigation_url env url = Inr (nc_url c)" "nc_url c = pn_url p" "nc_body c = pn_response_body p"
        "nc_navigation_id c = i" "nc_loader_id c = pn_loader_id p" "nc_replace_history c = pn_replace_history p"
        "nc_status c = unwrap_or (pn_status p) 200" "200 \<le> nc_status c" "nc_status c < 600"
proof (cases "finish_checks env i url enc s")
  case (Inl e)
  with assms have "r = Inl e" "s' = s" by (simp_all add: nav_finish_response_def)
  then show ?thesis by (rule that(1))
next
  case (Inr c)
  then obtain p where p: "ns_pending s = Some p" "pn_id p = i" "parse_navigation_url env url = Inr (nc_url c)" "nc_url c = pn_url p"
    "nc_body c = pn_response_body p" "nc_navigation_id c = i" "nc_loader_id c = pn_loader_id p"
    "nc_replace_history c = pn_replace_history p" "nc_status c = unwrap_or (pn_status p) 200" "200 \<le> nc_status c" "nc_status c < 600"
    by (auto simp: finish_checks_def pending_mut_iff Let_def split: if_splits)
  have "r = Inr c" "s' = s\<lparr>ns_pending := None\<rparr>" using assms Inr by (simp_all add: nav_finish_response_def)
  from that(2) [OF this(1) p(1,2) this(2) p(3-)] show ?thesis .
qed

text \<open>A commit adds an entry at the end of the history or replaces the last one.\<close>

lemma record_commit_cases:
  assumes "nav_ok s"
  obtains (Exhausted) e s' where "nav_record_commit c s = Some (Inl e, s')" "ns_history s' = ns_history s"
        "ns_history_index s' = ns_history_index s" "ns_document_generation s \<le> ns_document_generation s'"
        "ns_document_generation s' \<le> u32_max"
        "ns_pending s' = ns_pending s" "ns_next_navigation_id s' = ns_next_navigation_id s" "ns_next_loader_id s' = ns_next_loader_id s"
        "ns_next_history_id s' = ns_next_history_id s"
    | (Recorded) s' entry where "nav_record_commit c s = Some (Inr (), s')"
        "ns_history s' = (if nc_replace_history c then butlast (ns_history s) else ns_history s) @ [entry]"
        "ns_history_index s' = length (ns_history s') - 1"
        "entry = \<lparr>ne_id = ns_next_history_id s, ne_url = nc_url c, ne_loader_id = nc_loader_id c,
           ne_document_generation = ns_document_generation s'\<rparr>"
        "ns_document_generation s' = ns_document_generation s + 1" "ns_document_generation s' \<le> u32_max"
        "ns_current_url s' = nc_url c" "ns_next_history_id s' = ns_next_history_id s + 1"
        "ns_pending s' = ns_pending s" "ns_next_navigation_id s' = ns_next_navigation_id s" "ns_next_loader_id s' = ns_next_loader_id s"
proof -
  have len: "length (ns_history s) = ns_history_index s + 1" using assms by (simp add: nav_ok_def)
  then have ne: "ns_history s \<noteq> []" by auto
  let ?g = "ns_document_generation s + 1" and ?h = "ns_next_history_id s"
  let ?s = "s\<lparr>ns_document_generation := ?g, ns_current_url := nc_url c, ns_current_referrer := nc_referrer c\<rparr>"
  let ?e = "\<lparr>ne_id = ?h, ne_url = nc_url c, ne_loader_id = nc_loader_id c, ne_document_generation = ?g\<rparr>"
  consider "u32_max < ?g" | "?g \<le> u32_max" "u64_max < ?h + 1" | "?g \<le> u32_max" "?h + 1 \<le> u64_max" by linarith
  then show ?thesis
  proof cases
    case 1
    then have "nav_record_commit c s = Some (Inl ''document generation space is exhausted'', s)"
      by (simp add: nav_record_commit_def checked_add_def)
    from Exhausted [OF this] assms show ?thesis by (simp add: nav_ok_def)
  next
    case 2
    then have "nav_record_commit c s = Some (Inl ''history id space is exhausted'', ?s)"
      by (simp add: nav_record_commit_def take_history_id_def checked_add_def)
    from Exhausted [OF this] 2 show ?thesis by simp
  next
    case 3
    have upd: "(ns_history s)[ns_history_index s := ?e] = butlast (ns_history s) @ [?e]"
      using len ne by (simp add: list_eq_iff_nth_eq nth_append nth_butlast nth_list_update less_Suc_eq_le)
    have cut: "take (min (ns_history_index s + 1) usize_max) (ns_history s) = ns_history s"
      using len assms by (simp add: nav_ok_def usize_max_def u32_max_def)
    let ?hs = "(if nc_replace_history c then butlast (ns_history s) else ns_history s) @ [?e]"
    have "nav_record_commit c s = Some (Inr (), ?s\<lparr>ns_next_history_id := ?h + 1, ns_history := ?hs, ns_history_index := length ?hs - 1\<rparr>)"
      using 3 len ne upd cut by (simp add: nav_record_commit_def take_history_id_def checked_add_def Let_def)
    from Recorded [OF this] 3 show ?thesis by simp
  qed
qed

section \<open>Every call keeps the invariant\<close>

lemma begin_checks_bound: "begin_checks env url opts = Inr (target, o') \<Longrightarrow> bo_max_redirects o' \<le> MAX_NAVIGATION_REDIRECTS"
  by (auto simp: begin_checks_def split: if_splits)

lemma pending_ok_cong:
  "pending_ok s p \<Longrightarrow> ns_next_navigation_id s \<le> ns_next_navigation_id s' \<Longrightarrow> ns_next_loader_id s \<le> ns_next_loader_id s' \<Longrightarrow> pending_ok s' p"
  by (simp add: pending_ok_def)

lemma moves_ok: "pending_ok s p \<Longrightarrow> moves p p' \<Longrightarrow> pending_ok s p'"
  by (auto simp: pending_ok_def moves_def)

lemma put_pending_ok: "nav_ok s \<Longrightarrow> pending_ok s p \<Longrightarrow> nav_ok (put_pending p s)"
  by (auto simp: nav_ok_def put_pending_def pending_ok_def)

lemma pending_okD: "nav_ok s \<Longrightarrow> ns_pending s = Some p \<Longrightarrow> pending_ok s p"
  by (simp add: nav_ok_def)

lemma drop_pending_ok: "nav_ok s \<Longrightarrow> nav_ok (s\<lparr>ns_pending := None\<rparr>)"
  by (simp add: nav_ok_def)

lemma nav_begin_ok: "nav_ok s \<Longrightarrow> nav_begin env url opts s = (r, s') \<Longrightarrow> nav_ok s'"
proof (erule nav_begin_cases)
  fix target o'
  assume "nav_ok s" "begin_checks env url opts = Inr (target, o')" "ns_next_navigation_id s \<le> u32_max"
    "s' = s\<lparr>ns_next_navigation_id := ns_next_navigation_id s + 1, ns_next_loader_id := ns_next_loader_id s + 1,
       ns_pending := Some (new_pending (ns_next_navigation_id s) (ns_next_loader_id s) target o')\<rparr>"
  with begin_checks_bound show "nav_ok s'" by (simp add: nav_ok_def pending_ok_def new_pending_def)
qed (auto simp: nav_ok_def)

lemma nav_response_headers_ok:
  assumes ok: "nav_ok s" and r: "nav_response_headers env i status hs s = (r, s')"
  shows "nav_ok s'"
  using r
proof (cases rule: nav_response_headers_cases)
  case (Moved p p')
  then show ?thesis using put_pending_ok [OF ok moves_ok [OF pending_okD [OF ok]]] by simp
qed (use ok in simp)

lemma nav_response_chunk_ok:
  assumes ok: "nav_ok s" and r: "nav_response_chunk i bs s = (r, s')"
  shows "nav_ok s'"
  using r
proof (cases rule: nav_response_chunk_cases)
  case (Stored p)
  have "pending_ok s (p\<lparr>pn_response_body := pn_response_body p @ bs\<rparr>)"
    using pending_okD [OF ok Stored(2)] Stored(5) by (simp add: pending_ok_def)
  from put_pending_ok [OF ok this] Stored(4) show ?thesis by simp
qed (use ok in simp)

lemma pending_ok_same:
  "ns_next_navigation_id t = ns_next_navigation_id s \<Longrightarrow> ns_next_loader_id t = ns_next_loader_id s \<Longrightarrow> pending_ok t = pending_ok s"
  by (rule ext) (simp add: pending_ok_def)

lemma record_commit_ok:
  assumes ok: "nav_ok s" and r: "nav_record_commit c s = Some (r, s')"
  shows "nav_ok s'"
  using ok
proof (cases rule: record_commit_cases [of s c])
  case (Exhausted e t)
  with ok r pending_ok_same [of t s] show ?thesis by (auto simp: nav_ok_def)
next
  case (Recorded t entry)
  note t = Recorded(2-6,9-)
  have ge: "ne_document_generation e \<le> ns_document_generation s" if "e \<in> set (butlast (ns_history s)) \<union> set (ns_history s)" for e
    using ok that in_set_butlastD [of e "ns_history s"] by (auto simp: nav_ok_def)
  have "sorted (map ne_document_generation (butlast (ns_history s)))"
    using ok by (simp add: nav_ok_def butlast_conv_take take_map [symmetric] sorted_wrt_take)
  moreover have "pending_ok t = pending_ok s" by (rule pending_ok_same) (simp_all add: t)
  ultimately have "nav_ok t"
    using ge ok unfolding nav_ok_def t using t(5) by (auto simp: sorted_append t le_Suc_eq)
  then show ?thesis using r Recorded(1) by simp
qed

lemma nav_response_end_ok:
  assumes ok: "nav_ok s" and r: "nav_response_end env i url enc load s = Some (r, s')"
  shows "nav_ok s'"
proof -
  obtain x s1 where f: "nav_finish_response env i url enc s = (x, s1)" by fastforce
  have ok1: "nav_ok s1" using f by (cases rule: nav_finish_response_cases) (simp_all add: ok drop_pending_ok)
  with r f show ?thesis
    by (auto simp: nav_response_end_def split: sum.splits option.splits dest: record_commit_ok)
qed

lemma no_panic: "nav_ok s \<Longrightarrow> nav_call env e s \<noteq> None"
proof (cases e)
  case (End i url enc load)
  assume ok: "nav_ok s"
  obtain x s1 where f: "nav_finish_response env i url enc s = (x, s1)" by fastforce
  have ok1: "nav_ok s1" using f by (cases rule: nav_finish_response_cases) (simp_all add: ok drop_pending_ok)
  have "nav_record_commit c s1 \<noteq> None" for c using ok1 by (cases rule: record_commit_cases [of s1 c]) simp_all
  then have "nav_response_end env i url enc load s \<noteq> None"
    using f by (cases x) (simp_all add: nav_response_end_def del: not_None_eq split: option.split, simp split: option.split sum.split)
  then show ?thesis using End by (simp add: nav_call_def)
qed (simp_all add: nav_call_def)

lemma nav_call_ok: "nav_ok s \<Longrightarrow> nav_call env e s = Some (accepted, s') \<Longrightarrow> nav_ok s'"
proof (cases e)
  case (Begin url opts)
  then show "nav_ok s \<Longrightarrow> nav_call env e s = Some (accepted, s') \<Longrightarrow> nav_ok s'"
    by (cases "nav_begin env url opts s") (auto simp: nav_call_def dest: nav_begin_ok)
next
  case (Headers i st hs)
  then show "nav_ok s \<Longrightarrow> nav_call env e s = Some (accepted, s') \<Longrightarrow> nav_ok s'"
    by (cases "nav_response_headers env i st hs s") (auto simp: nav_call_def dest: nav_response_headers_ok)
next
  case (Chunk i bs)
  then show "nav_ok s \<Longrightarrow> nav_call env e s = Some (accepted, s') \<Longrightarrow> nav_ok s'"
    by (cases "nav_response_chunk i bs s") (auto simp: nav_call_def dest: nav_response_chunk_ok)
next
  case (End i url enc load)
  then show "nav_ok s \<Longrightarrow> nav_call env e s = Some (accepted, s') \<Longrightarrow> nav_ok s'"
    by (auto simp: nav_call_def dest: nav_response_end_ok)
qed (auto simp: nav_call_def nav_cancel_def cancel_pending_def drop_pending_ok split: option.splits if_splits)

lemma nav_new_ok: "nav_ok nav_new"
  by (simp add: nav_ok_def nav_new_def u32_max_def)

lemma nav_reach_ok: "nav_reach env s \<Longrightarrow> nav_ok s"
  by (induction rule: nav_reach.induct) (auto simp: nav_new_ok dest: nav_call_ok)

lemma nav_step_ok: "nav_ok s \<Longrightarrow> nav_ok (nav_step env e s)"
  by (auto simp: nav_step_def split: option.split dest: nav_call_ok)

lemma nav_run_ok: "nav_ok s \<Longrightarrow> nav_ok (fold (nav_step env) es s)"
  by (induction es arbitrary: s) (simp_all add: nav_step_ok)

section \<open>Stale identities\<close>

text \<open>A call for a transaction that is not the pending one is refused and changes nothing.\<close>

lemma stale_refused:
  assumes "current s \<noteq> Some i"
  shows "nav_call env (Headers i st hs) s = Some (False, s)" "nav_call env (Chunk i bs) s = Some (False, s)"
    "nav_call env (End i url enc load) s = Some (False, s)" "nav_call env (Cancel i) s = Some (False, s)"
proof -
  obtain e where e: "pending_mut i s = Inl e" using pending_mut_stale [OF assms] by (cases "pending_mut i s") simp_all
  have "\<exists>e. headers_checks env i hs s = Inl e" "\<exists>e. finish_checks env i url enc s = Inl e"
    by (simp_all add: headers_checks_def finish_checks_def require_bytes_def e)
  then show "nav_call env (Headers i st hs) s = Some (False, s)" "nav_call env (Chunk i bs) s = Some (False, s)"
    "nav_call env (End i url enc load) s = Some (False, s)"
    by (auto simp: nav_call_def nav_response_headers_def nav_response_chunk_def nav_response_end_def nav_finish_response_def e)
  show "nav_call env (Cancel i) s = Some (False, s)"
    using assms by (auto simp: nav_call_def nav_cancel_def current_def split: option.split)
qed

text \<open>Only \<open>begin\<close> starts a transaction, and with a new identity.\<close>

lemma nav_begin_current:
  assumes "nav_begin env url opts s = (r, s')"
  shows "ns_next_navigation_id s \<le> ns_next_navigation_id s'"
    and "current s' = None \<or> current s' = current s
      \<or> current s' = Some (ns_next_navigation_id s) \<and> ns_next_navigation_id s' = ns_next_navigation_id s + 1"
    and "\<not> isl r \<Longrightarrow> \<exists>target o'. begin_checks env url opts = Inr (target, o')
        \<and> ns_pending s' = Some (new_pending (ns_next_navigation_id s) (ns_next_loader_id s) target o')"
  using assms by (cases rule: nav_begin_cases; force simp: current_def new_pending_def)+

lemma nav_call_current:
  assumes "nav_ok s" and "nav_call env e s = Some (accepted, s')"
  shows "ns_next_navigation_id s \<le> ns_next_navigation_id s'
    \<and> (current s' = None \<or> current s' = current s
      \<or> (\<exists>url opts. e = Begin url opts) \<and> current s' = Some (ns_next_navigation_id s) \<and> ns_next_navigation_id s' = ns_next_navigation_id s + 1)"
proof (cases e)
  case (Begin url opts)
  obtain r t where "nav_begin env url opts s = (r, t)" by fastforce
  with nav_begin_current(1,2) [OF this] assms(2) Begin show ?thesis by (auto simp: nav_call_def)
next
  case (Headers i st hs)
  obtain r t where h: "nav_response_headers env i st hs s = (r, t)" by fastforce
  then have "current t = current s \<and> ns_next_navigation_id t = ns_next_navigation_id s"
    by (cases rule: nav_response_headers_cases) (auto simp: current_def put_pending_def moves_def)
  with h assms(2) Headers show ?thesis by (auto simp: nav_call_def)
next
  case (Chunk i bs)
  obtain r t where h: "nav_response_chunk i bs s = (r, t)" by fastforce
  then have "current t = current s \<and> ns_next_navigation_id t = ns_next_navigation_id s"
    by (cases rule: nav_response_chunk_cases) (auto simp: current_def put_pending_def)
  with h assms(2) Chunk show ?thesis by (auto simp: nav_call_def)
next
  case (End i url enc load)
  obtain x s1 where f: "nav_finish_response env i url enc s = (x, s1)" by fastforce
  have ok1: "nav_ok s1" and c1: "(current s1 = None \<or> current s1 = current s) \<and> ns_next_navigation_id s1 = ns_next_navigation_id s"
    using f by (cases rule: nav_finish_response_cases; simp add: assms(1) drop_pending_ok current_def)+
  have "current s2 = current s1 \<and> ns_next_navigation_id s2 = ns_next_navigation_id s1" if "nav_record_commit c s1 = Some (y, s2)" for c y s2
    using ok1 that by (cases rule: record_commit_cases [of s1 c]) (auto simp: current_def)
  with f c1 assms(2) End show ?thesis
    by (fastforce simp: nav_call_def nav_response_end_def split: sum.splits option.splits)
qed (use assms(2) in \<open>auto simp: nav_call_def nav_cancel_def cancel_pending_def current_def split: option.splits if_splits\<close>)

lemma nav_step_current:
  assumes "nav_ok s"
  shows "ns_next_navigation_id s \<le> ns_next_navigation_id (nav_step env e s)
    \<and> (current (nav_step env e s) = None \<or> current (nav_step env e s) = current s
      \<or> current (nav_step env e s) = Some (ns_next_navigation_id s) \<and> ns_next_navigation_id (nav_step env e s) = ns_next_navigation_id s + 1)"
proof -
  obtain a s' where "nav_call env e s = Some (a, s')" using no_panic [OF assms, of env e] by fastforce
  with nav_call_current [OF assms this] show ?thesis by (auto simp: nav_step_def)
qed

text \<open>
  The identities that a call gives out: \<open>begin\<close>, once its checks have passed, those of the transaction that it leaves
  pending and names in its answer; a committed response that of the history entry.
\<close>

datatype nav_id_kind = TransactionIds | LoaderIds | HistoryIds

definition nav_counter :: "nav_id_kind \<Rightarrow> navigation_state \<Rightarrow> nat" where
  "nav_counter k s =
     (case k of TransactionIds \<Rightarrow> ns_next_navigation_id s | LoaderIds \<Rightarrow> ns_next_loader_id s | HistoryIds \<Rightarrow> ns_next_history_id s)"

definition nav_given :: "nav_env \<Rightarrow> nav_id_kind \<Rightarrow> navigation_state \<Rightarrow> nav_event \<Rightarrow> nat option" where
  "nav_given env k s e =
     (case e of
        Begin url opts \<Rightarrow>
          (if isl (begin_checks env url opts) then None
           else (let pending = ns_pending (snd (nav_begin env url opts s)) in
             case k of TransactionIds \<Rightarrow> map_option pn_id pending | LoaderIds \<Rightarrow> map_option pn_loader_id pending
             | HistoryIds \<Rightarrow> None))
      | End i url enc load \<Rightarrow>
          (case nav_response_end env i url enc load s of
             Some (Inr c, s') \<Rightarrow> (if k = HistoryIds then Some (ne_id (last (ns_history s'))) else None)
           | _ \<Rightarrow> None)
      | _ \<Rightarrow> None)"

definition nav_issue :: "nav_env \<Rightarrow> nav_id_kind \<Rightarrow> navigation_state \<Rightarrow> nav_event \<Rightarrow> navigation_state \<times> nat option" where
  "nav_issue env k s e = (nav_step env e s, nav_given env k s e)"

definition gives :: "nav_id_kind \<Rightarrow> navigation_state \<Rightarrow> navigation_state \<Rightarrow> nat option \<Rightarrow> bool" where
  "gives k s s' r \<longleftrightarrow> nav_counter k s \<le> nav_counter k s'
     \<and> (\<forall>i. r = Some i \<longrightarrow> i = nav_counter k s \<and> nav_counter k s < nav_counter k s')"

lemma gives_begin:
  assumes "nav_begin env url opts s = (r, s')"
  shows "gives k s s' (nav_given env k s (Begin url opts))"
  using assms
  by (cases rule: nav_begin_cases)
    (use assms in \<open>auto simp: gives_def nav_given_def nav_counter_def new_pending_def Let_def split: nav_id_kind.split\<close>)

lemma gives_end:
  assumes ok: "nav_ok s" and e: "nav_response_end env i url enc load s = Some (r, s')"
  shows "gives k s s' (nav_given env k s (End i url enc load))"
proof -
  obtain x s1 where f: "nav_finish_response env i url enc s = (x, s1)" by fastforce
  have ok1: "nav_ok s1" and same: "nav_counter k s1 = nav_counter k s"
    using f by (cases rule: nav_finish_response_cases; simp add: ok drop_pending_ok nav_counter_def split: nav_id_kind.split)+
  have rec: "gives k s1 t (case y of Inr _ \<Rightarrow> if k = HistoryIds then Some (ne_id (last (ns_history t))) else None | Inl _ \<Rightarrow> None)"
    if "nav_record_commit c s1 = Some (y, t)" for c y t
    using ok1 that
    by (cases rule: record_commit_cases [of s1 c]) (auto simp: gives_def nav_counter_def split: nav_id_kind.split)
  have none: "gives k s s1 None" by (simp add: gives_def same)
  show ?thesis
  proof (cases x)
    case (Inl a)
    with e f none show ?thesis by (auto simp: nav_given_def nav_response_end_def)
  next
    case (Inr c)
    show ?thesis
    proof (cases "load c")
      case (Some a)
      with Inr e f none show ?thesis by (auto simp: nav_given_def nav_response_end_def)
    next
      case None
      then obtain y t where y: "nav_record_commit c s1 = Some (y, t)"
        using e f Inr by (cases "nav_record_commit c s1") (auto simp: nav_response_end_def)
      from rec [OF y] have "gives k s t (case y of Inr _ \<Rightarrow> if k = HistoryIds then Some (ne_id (last (ns_history t))) else None | Inl _ \<Rightarrow> None)"
        unfolding gives_def same .
      moreover have "t = s'" using e f Inr None y by (cases y) (simp_all add: nav_response_end_def)
      ultimately show ?thesis using f Inr None y by (cases y) (auto simp: nav_given_def nav_response_end_def)
    qed
  qed
qed

lemma gives_call:
  assumes ok: "nav_ok s" and c: "nav_call env e s = Some (a, s')"
  shows "gives k s s' (nav_given env k s e)"
proof (cases e)
  case (Begin url opts)
  with c gives_begin [of env url opts s _ s' k] show ?thesis
    by (cases "nav_begin env url opts s") (auto simp: nav_call_def)
next
  case (Headers i st hs)
  obtain r t where h: "nav_response_headers env i st hs s = (r, t)" by fastforce
  then have "nav_counter k t = nav_counter k s"
    by (cases rule: nav_response_headers_cases) (auto simp: nav_counter_def put_pending_def split: nav_id_kind.split)
  with h c Headers show ?thesis by (auto simp: nav_call_def gives_def nav_given_def)
next
  case (Chunk i bs)
  obtain r t where h: "nav_response_chunk i bs s = (r, t)" by fastforce
  then have "nav_counter k t = nav_counter k s"
    by (cases rule: nav_response_chunk_cases) (auto simp: nav_counter_def put_pending_def split: nav_id_kind.split)
  with h c Chunk show ?thesis by (auto simp: nav_call_def gives_def nav_given_def)
next
  case (End i url enc load)
  with c gives_end [OF ok, of env i url enc load _ s' k] show ?thesis by (auto simp: nav_call_def)
qed (use c in \<open>auto simp: nav_call_def nav_cancel_def cancel_pending_def gives_def nav_given_def nav_counter_def
    split: option.splits if_splits nav_id_kind.split\<close>)

lemma gives_step: "nav_ok s \<Longrightarrow> gives k s (nav_step env e s) (nav_given env k s e)"
proof -
  assume ok: "nav_ok s"
  obtain a s' where "nav_call env e s = Some (a, s')" using no_panic [OF ok, of env e] by fastforce
  with gives_call [OF ok this] show ?thesis by (simp add: nav_step_def)
qed

interpretation nav_ids: id_source "nav_issue env k" "nav_counter k" nav_ok
  by unfold_locales (use gives_step [of _ k env] nav_step_ok in \<open>fastforce simp: nav_issue_def gives_def\<close>)+

text \<open>A transaction that is over stays over.\<close>

lemma over_forever:
  assumes "nav_ok s" and "i < ns_next_navigation_id s" and "current s \<noteq> Some i"
  shows "current (fold (nav_step env) es s) \<noteq> Some i"
  using assms
proof (induction es arbitrary: s)
  case (Cons e es)
  from nav_step_current [OF Cons.prems(1), of env e] Cons.prems(2,3)
  have "current (nav_step env e s) \<noteq> Some i" "i < ns_next_navigation_id (nav_step env e s)" by auto
  with Cons.IH [OF nav_step_ok [OF Cons.prems(1)]] show ?case by simp
qed simp

section \<open>What is committed\<close>

text \<open>The URL a redirect leads to.\<close>

definition redirect_target :: "nav_env \<Rightarrow> string \<Rightarrow> url \<Rightarrow> url" where
  "redirect_target env headers_json u =
     (let object = the (as_object (projr (nv_value env headers_json)));
          headers = projr (nav_headers env object [])
      in projr (nv_join env u (the (bm_get headers ''location''))))"

text \<open>
  The story of a transaction told by the calls of the host alone: the URL approved last, the number of redirects
  followed and the bytes received since the last one.
\<close>

definition heard :: "nav_env \<Rightarrow> nat \<Rightarrow> nav_event \<Rightarrow> url \<times> nat \<times> bytes \<Rightarrow> url \<times> nat \<times> bytes" where
  "heard env i e x =
     (case x of (u, n, body) \<Rightarrow>
       (case e of
          Chunk j bs \<Rightarrow> (if j = i then (u, n, body @ bs) else x)
        | Headers j st hs \<Rightarrow> (if j = i \<and> is_redirect st then (redirect_target env hs u, n + 1, []) else x)
        | _ \<Rightarrow> x))"

fun trail :: "nav_env \<Rightarrow> nat \<Rightarrow> navigation_state \<Rightarrow> nav_event list \<Rightarrow> url \<times> nat \<times> bytes \<Rightarrow> url \<times> nat \<times> bytes" where
  "trail env i s [] x = x"
| "trail env i s (e # es) x =
     (case nav_call env e s of
        None \<Rightarrow> x
      | Some (accepted, s') \<Rightarrow> trail env i s' es (if accepted then heard env i e x else x))"

definition told :: "pending_navigation \<Rightarrow> url \<times> nat \<times> bytes" where
  "told p = (pn_url p, pn_redirect_count p, pn_response_body p)"

definition encodes :: "nav_env \<Rightarrow> bool" where
  "encodes env \<longleftrightarrow> (\<forall>v. \<not> isl (nv_encode env v))"

lemma nav_json_total: "encodes env \<Longrightarrow> \<not> isl (nav_json env v)"
  by (cases "nv_encode env v") (auto simp: encodes_def nav_json_def, metis sum.disc(1))

lemma nav_redirect_exact:
  assumes "encodes env" and "nav_redirect env p st = (r, p')"
  shows "isl r \<and> p' = p
    \<or> \<not> isl r \<and> pn_id p' = pn_id p \<and> (\<exists>loc. bm_get (pn_headers p) ''location'' = Some loc
        \<and> nv_join env (pn_url p) loc = Inr (pn_url p')) \<and> pn_redirect_count p' = pn_redirect_count p + 1 \<and> pn_response_body p' = []"
  using assms(2) nav_json_total [OF assms(1)]
  by (auto simp: nav_redirect_def Let_def split: option.splits if_splits sum.splits) (metis sum.disc(1))+

lemma headers_told:
  assumes enc: "encodes env" and r: "nav_response_headers env i st hs s = (r, s')" and p: "ns_pending s = Some p" "pn_id p = i"
  shows "\<exists>p'. ns_pending s' = Some p' \<and> pn_id p' = i
    \<and> told p' = (if \<not> isl r then heard env i (Headers i st hs) (told p) else told p)"
proof (cases "headers_checks env i hs s")
  case (Inl e)
  with r p show ?thesis by (auto simp: nav_response_headers_def)
next
  case (Inr x)
  obtain q headers where x: "x = (q, headers)" by fastforce
  obtain object raw where q: "q = p" "nv_value env hs = Inr raw" "as_object raw = Some object" "nav_headers env object [] = Inr headers"
    using Inr x p by (auto simp: headers_checks_def pending_mut_iff split: sum.splits option.splits)
  let ?p = "p\<lparr>pn_status := Some st, pn_headers := headers\<rparr>"
  obtain r1 p1 where red: "nav_redirect env ?p st = (r1, p1)" by fastforce
  show ?thesis
  proof (cases "is_redirect st")
    case True
    have "s' = put_pending p1 s" "r = r1" using r Inr x q(1) red True by (simp_all add: nav_response_headers_def)
    with nav_redirect_exact [OF enc red] p q True show ?thesis
      by (auto simp: put_pending_def told_def heard_def redirect_target_def)
  next
    case False
    then have "s' = put_pending ?p s" using r Inr x q(1) by (auto simp: nav_response_headers_def Let_def split: if_splits)
    with p False show ?thesis by (simp add: put_pending_def told_def heard_def)
  qed
qed

text \<open>As long as the transaction is the pending one, the state agrees with the story.\<close>

lemma call_told:
  assumes enc: "encodes env" and ok: "nav_ok s" and c: "nav_call env e s = Some (accepted, s')"
    and p: "ns_pending s = Some p" "pn_id p = i" and still: "current s' = Some i"
  shows "\<exists>p'. ns_pending s' = Some p' \<and> pn_id p' = i \<and> told p' = (if accepted then heard env i e (told p) else told p)"
proof -
  have cur: "current s = Some i" using p by (simp add: current_def)
  have less: "i < ns_next_navigation_id s" using pending_okD [OF ok p(1)] p(2) by (simp add: pending_ok_def)
  have stale: "s' = s \<and> \<not> accepted" if "nav_call env e s = Some (False, s)" using c that by auto
  show ?thesis
  proof (cases e)
    case (Begin url opts)
    obtain r t where b: "nav_begin env url opts s = (r, t)" by fastforce
    have t: "t = s'" "accepted = (\<not> isl r)" using c b Begin by (simp_all add: nav_call_def)
    from b show ?thesis
      by (cases rule: nav_begin_cases) (use still less t p Begin in \<open>auto simp: current_def new_pending_def heard_def\<close>)
  next
    case (Headers j st hs)
    obtain r t where h: "nav_response_headers env j st hs s = (r, t)" by fastforce
    have t: "t = s'" "accepted = (\<not> isl r)" using c h Headers by (simp_all add: nav_call_def)
    show ?thesis
    proof (cases "j = i")
      case True
      with headers_told [OF enc h p(1)] p(2) t Headers show ?thesis by (cases "isl r") simp_all
    next
      case False
      then have "s' = s \<and> \<not> accepted" using stale stale_refused(1) [of s j env st hs] cur Headers by simp
      with p show ?thesis by simp
    qed
  next
    case (Chunk j bs)
    obtain r t where h: "nav_response_chunk j bs s = (r, t)" by fastforce
    have t: "t = s'" "accepted = (\<not> isl r)" using c h Chunk by (simp_all add: nav_call_def)
    from h show ?thesis
      by (cases rule: nav_response_chunk_cases) (use t p Chunk in \<open>auto simp: put_pending_def told_def heard_def\<close>)
  next
    case (End j url enc load)
    have "s' = s \<and> \<not> accepted \<or> current s' \<noteq> Some i"
    proof (cases "j = i")
      case False
      then show ?thesis using stale stale_refused(3) [of s j env url enc load] cur End by simp
    next
      case True
      obtain x s1 where f: "nav_finish_response env j url enc s = (x, s1)" by fastforce
      have "ns_pending s1 = None \<or> isl x \<and> s1 = s" using f by (cases rule: nav_finish_response_cases) simp_all
      moreover have "nav_ok s1" using f ok by (cases rule: nav_finish_response_cases) (simp_all add: drop_pending_ok)
      then have "current s2 = current s1" if "nav_record_commit a s1 = Some (y, s2)" for a y s2
        using that by (cases rule: record_commit_cases [of s1 a]) (auto simp: current_def)
      ultimately show ?thesis using c f End
        by (auto simp: nav_call_def nav_response_end_def current_def split: sum.splits option.splits)
    qed
    with still p show ?thesis by auto
  next
    case (Cancel j)
    then show ?thesis using c p still by (auto simp: nav_call_def nav_cancel_def current_def heard_def split: option.splits if_splits)
  next
    case Cancel_Pending
    then show ?thesis using c still by (auto simp: nav_call_def cancel_pending_def current_def)
  qed
qed

lemma run_told:
  assumes "encodes env" and "nav_ok s" and "ns_pending s = Some p" and "pn_id p = i" and "current (fold (nav_step env) es s) = Some i"
  shows "\<exists>p'. ns_pending (fold (nav_step env) es s) = Some p' \<and> told p' = trail env i s es (told p)"
  using assms
proof (induction es arbitrary: s p)
  case (Cons e es)
  obtain a s' where c: "nav_call env e s = Some (a, s')" using no_panic [OF Cons.prems(2), of env e] by fastforce
  have s': "nav_step env e s = s'" by (simp add: nav_step_def c)
  have ok': "nav_ok s'" using nav_step_ok [OF Cons.prems(2), of env e] by (simp add: s')
  have "i < ns_next_navigation_id s'"
    using nav_call_current [OF Cons.prems(2) c] pending_okD [OF Cons.prems(2,3)] Cons.prems(4) by (simp add: pending_ok_def)
  with over_forever [OF ok', of i env es] Cons.prems(5) have still: "current s' = Some i" by (auto simp: s')
  from call_told [OF Cons.prems(1,2) c Cons.prems(3,4) still] obtain p' where
    p': "ns_pending s' = Some p'" "pn_id p' = i" "told p' = (if a then heard env i e (told p) else told p)" by blast
  from Cons.IH [OF Cons.prems(1) ok' p'(1,2)] Cons.prems(5) show ?case by (simp add: s' c p'(3))
qed simp

text \<open>
  C14. In every reachable state of a page: no call of the host panics; the pending transaction has followed at most as
  many redirects as it was allowed, at most 10, and holds at most 32 MiB; a call that names any other transaction is
  refused and changes nothing; a transaction that was superseded, canceled or finished never becomes pending again;
  and in any later run no two calls of \<open>begin\<close> give out the same transaction identity or the same loader identity, and
  no two commits the same history identity. (The entry of \<open>about:blank\<close>, which no call gave out, shares its identity
  with the first commit, see \<open>history_id_repeated\<close>.)
\<close>

theorem navigation_transactions:
  assumes "nav_reach env s"
  shows "nav_call env e s \<noteq> None
    \<and> pred_option (\<lambda>p. pn_redirect_count p \<le> pn_max_redirects p \<and> pn_max_redirects p \<le> 10
         \<and> length (pn_response_body p) \<le> MAX_NAVIGATION_RESPONSE_BYTES) (ns_pending s)
    \<and> (current s \<noteq> Some i \<longrightarrow> nav_call env (Headers i st hs) s = Some (False, s) \<and> nav_call env (Chunk i bs) s = Some (False, s)
         \<and> nav_call env (End i url enc load) s = Some (False, s) \<and> nav_call env (Cancel i) s = Some (False, s))
    \<and> (i < ns_next_navigation_id s \<and> current s \<noteq> Some i \<longrightarrow> current (fold (nav_step env) es s) \<noteq> Some i)
    \<and> distinct (issued (nav_issue env k) s es)"
proof -
  note ok = nav_reach_ok [OF assms]
  have "pred_option (\<lambda>p. pn_redirect_count p \<le> pn_max_redirects p \<and> pn_max_redirects p \<le> 10
      \<and> length (pn_response_body p) \<le> MAX_NAVIGATION_RESPONSE_BYTES) (ns_pending s)"
    using pending_okD [OF ok] by (cases "ns_pending s") (simp_all add: pending_ok_def MAX_NAVIGATION_REDIRECTS_def)
  then show ?thesis using no_panic [OF ok] stale_refused [of s i] over_forever [OF ok, of i env es] nav_ids.issued_distinct [OF ok] by blast
qed

lemma end_returns:
  assumes "nav_response_end env i url enc load s = Some (Inr c, s')"
  obtains t where "nav_finish_response env i url enc s = (Inr c, t)" "nav_record_commit c t = Some (Inr (), s')"
proof -
  obtain x t where f: "nav_finish_response env i url enc s = (x, t)" by fastforce
  with assms have "x = Inr c \<and> nav_record_commit c t = Some (Inr (), s')"
    by (auto simp: nav_response_end_def split: sum.splits option.splits)
  with f that show ?thesis by blast
qed

text \<open>
  C13. What is committed is what was approved and received: when a transaction that was begun is finished, whatever the
  host called in between, for this transaction or for others, the committed URL is the one asked for, or the target of
  the last of at most 10 redirects that were followed; the body is the chunks that were accepted since then, in order
  and nothing else; and the history gets exactly one entry for it, at the end or in the place of the last, with the next
  document generation.
\<close>

theorem navigation_committed:
  assumes "encodes env" and "nav_reach env s" and "nav_call env (Begin url opts) s = Some (True, s1)"
    and "i = ns_next_navigation_id s" and "s2 = fold (nav_step env) es s1"
    and "nav_response_end env i final_url enc load s2 = Some (Inr c, s3)"
  shows "\<exists>target n entry. parse_navigation_url env url = Inr target \<and> n \<le> 10
    \<and> (nc_url c, n, nc_body c) = trail env i s1 es (target, 0, []) \<and> parse_navigation_url env final_url = Inr (nc_url c)
    \<and> nc_navigation_id c = i \<and> 200 \<le> nc_status c \<and> nc_status c < 600
    \<and> ns_pending s3 = None \<and> ns_current_url s3 = nc_url c \<and> ns_document_generation s3 = ns_document_generation s2 + 1
    \<and> ns_history s3 = (if nc_replace_history c then butlast (ns_history s2) else ns_history s2) @ [entry]
    \<and> ne_url entry = nc_url c \<and> ne_document_generation entry = ns_document_generation s3"
proof -
  note ok = nav_reach_ok [OF assms(2)]
  obtain r where b: "nav_begin env url opts s = (r, s1)" and "\<not> isl r" using assms(3) by (auto simp: nav_call_def prod_eq_iff)
  with nav_begin_current(3) [OF b] obtain target o' where t: "begin_checks env url opts = Inr (target, o')"
    and p: "ns_pending s1 = Some (new_pending i (ns_next_loader_id s) target o')" using assms(4) by blast
  have ok1: "nav_ok s1" by (rule nav_begin_ok [OF ok b])
  have ok2: "nav_ok s2" unfolding assms(5) by (rule nav_run_ok [OF ok1])
  obtain s' where f: "nav_finish_response env i final_url enc s2 = (Inr c, s')" and rec: "nav_record_commit c s' = Some (Inr (), s3)"
    using assms(6) by (rule end_returns)
  from f obtain q where q: "ns_pending s2 = Some q" "pn_id q = i" "s' = s2\<lparr>ns_pending := None\<rparr>"
      "parse_navigation_url env final_url = Inr (nc_url c)" "nc_url c = pn_url q" "nc_body c = pn_response_body q"
      "nc_navigation_id c = i" "200 \<le> nc_status c" "nc_status c < 600"
    by (cases rule: nav_finish_response_cases) auto
  have cur: "current (fold (nav_step env) es s1) = Some i" using q(1,2) by (simp add: current_def flip: assms(5))
  from run_told [OF assms(1) ok1 p _ cur] obtain p' where p': "ns_pending s2 = Some p'"
      "told p' = trail env i s1 es (told (new_pending i (ns_next_loader_id s) target o'))"
    by (auto simp: new_pending_def assms(5))
  have story: "(pn_url q, pn_redirect_count q, pn_response_body q) = trail env i s1 es (target, 0, [])"
    using p' q(1,5,6) by (simp add: told_def new_pending_def)
  have n: "pn_redirect_count q \<le> 10" using pending_okD [OF ok2 q(1)] by (simp add: pending_ok_def MAX_NAVIGATION_REDIRECTS_def)
  have target: "parse_navigation_url env url = Inr target" using t by (auto simp: begin_checks_def split: if_splits)
  have ok': "nav_ok s'" using drop_pending_ok [OF ok2] q(3) by simp
  from ok' show ?thesis
  proof (cases rule: record_commit_cases [of s' c])
    case (Recorded t entry)
    with rec q(3) show ?thesis
      by (intro exI [of _ target] exI [of _ "pn_redirect_count q"] exI [of _ entry]) (simp add: story target n q)
  qed (use rec in simp)
qed

section \<open>A host at work\<close>

text \<open>A host for which every URL is its own serialization and every response redirects to \<open>b\<close>.\<close>

definition demo_nav :: nav_env where
  "demo_nav = \<lparr>nv_parse = Inr, nv_join = (\<lambda>_ loc. Inr loc), nv_scheme = (\<lambda>_. ''http''),
     nv_options = (\<lambda>_. Inr \<lparr>bo_method = ''connect'', bo_body = [], bo_referrer = [], bo_replace_history = False, bo_max_redirects = 10\<rparr>),
     nv_value = (\<lambda>_. Inr (JObj [(''Location'', JStr ''b'')])), nv_encode = (\<lambda>_. Inr []), nv_debug = (\<lambda>s. s)\<rparr>"

lemmas nav_limits = MAX_NAVIGATION_URL_BYTES_def MAX_NAVIGATION_OPTIONS_BYTES_def MAX_NAVIGATION_HEADERS_BYTES_def
  MAX_NAVIGATION_RESPONSE_BYTES_def MAX_NAVIGATION_REDIRECTS_def u32_max_def u64_max_def usize_max_def

lemma connect_passes: "validate_method ''connect'' = Inr ()" "to_ascii_uppercase ''connect'' = ''CONNECT''"
  by code_simp+

lemma demo_begin:
  "length u \<le> 65536 \<Longrightarrow> ns_next_navigation_id s \<le> u32_max \<Longrightarrow> ns_next_loader_id s < u64_max \<Longrightarrow>
    \<exists>p. nav_begin demo_nav u [] s = (Inr [], s\<lparr>ns_next_navigation_id := ns_next_navigation_id s + 1,
          ns_next_loader_id := ns_next_loader_id s + 1, ns_pending := Some p\<rparr>)
      \<and> pn_id p = ns_next_navigation_id s \<and> pn_method p = ''CONNECT'' \<and> told p = (u, 0, []) \<and> pn_status p = None"
  by (cases s) (simp add: nav_begin_def begin_checks_def require_bytes_def parse_navigation_url_def demo_nav_def connect_passes
      cancel_pending_def take_navigation_id_def take_loader_id_def checked_add_def nav_json_def new_pending_def told_def
      Let_def nav_limits)

definition begun :: navigation_state where "begun = nav_step demo_nav (Begin ''a'' []) nav_new"
definition superseded :: navigation_state where "superseded = nav_step demo_nav (Begin ''c'' []) begun"

text \<open>The check of the method is made before the upper case is: \<open>connect\<close> passes it and is sent as \<open>CONNECT\<close>.\<close>

lemma forbidden_method_begun:
  "nav_call demo_nav (Begin ''a'' []) nav_new = Some (True, begun)" "map_option pn_method (ns_pending begun) = Some ''CONNECT''"
  "current begun = Some 1" "ns_next_navigation_id begun = 2" "map_option told (ns_pending begun) = Some (''a'', 0, [])"
  using demo_begin [of "''a''" nav_new]
  by (auto simp: begun_def nav_step_def nav_call_def nav_new_def current_def nav_limits)

lemma superseded_state:
  "nav_reach demo_nav superseded" "current superseded = Some 2" "ns_next_navigation_id superseded = 3"
proof -
  have r: "nav_reach demo_nav begun" by (rule Call [OF Start forbidden_method_begun(1)])
  have l: "ns_next_loader_id begun = 2"
    using demo_begin [of "''a''" nav_new] by (auto simp: begun_def nav_step_def nav_call_def nav_new_def nav_limits)
  from demo_begin [of "''c''" begun] obtain t where t: "nav_call demo_nav (Begin ''c'' []) begun = Some (True, t)"
    "current t = Some 2" "ns_next_navigation_id t = 3"
    by (auto simp: nav_call_def current_def forbidden_method_begun(4) l nav_limits)
  then have "superseded = t" by (simp add: superseded_def nav_step_def)
  with t Call [OF r t(1)] show "nav_reach demo_nav superseded" "current superseded = Some 2" "ns_next_navigation_id superseded = 3"
    by simp_all
qed

theorem navigation_transactions_witness:
  "nav_call demo_nav (Chunk 1 [7]) superseded = Some (False, superseded)
    \<and> current (fold (nav_step demo_nav) [Begin ''d'' [], Cancel 3, Chunk 1 [7]] superseded) \<noteq> Some 1"
  using navigation_transactions [OF superseded_state(1), of "Cancel_Pending" 1 0 "[]" "[7]" "[]" "[]" "\<lambda>_. None"
      "[Begin ''d'' [], Cancel 3, Chunk 1 [7]]"] superseded_state(2,3) by simp

definition demo_calls :: "nav_event list" where
  "demo_calls = [Headers 1 302 [], Chunk 1 [7], Chunk 9 [1], Headers 1 200 []]"

text \<open>
  The two identities of the history are the same: \<open>take_history_id\<close> hands out 1, which the entry of
  \<open>about:blank\<close> has already.
\<close>

lemma location_lower: "to_ascii_lowercase ''Location'' = ''location''"
  by code_simp

lemma history_id_repeated:
  "\<exists>c s3. nav_response_end demo_nav 1 ''b'' [] (\<lambda>_. None) (fold (nav_step demo_nav) demo_calls begun) = Some (Inr c, s3)
    \<and> nc_body c = [7] \<and> nc_url c = ''b'' \<and> map ne_id (ns_history s3) = [1, 1]"
  by (simp add: demo_calls_def begun_def nav_step_def nav_call_def nav_begin_def begin_checks_def require_bytes_def
      parse_navigation_url_def demo_nav_def connect_passes cancel_pending_def take_navigation_id_def take_loader_id_def
      take_history_id_def checked_add_def nav_json_def new_pending_def Let_def nav_limits nav_new_def
      nav_response_headers_def headers_checks_def pending_mut_def nav_redirect_def is_redirect_def put_pending_def
      nav_response_chunk_def nav_response_end_def nav_finish_response_def finish_checks_def nav_record_commit_def
      location_lower unwrap_or_def bm_get_def)

theorem navigation_committed_witness:
  "\<exists>c s3 n. nav_response_end demo_nav 1 ''b'' [] (\<lambda>_. None) (fold (nav_step demo_nav) demo_calls begun) = Some (Inr c, s3)
    \<and> (''b'', n, [7]) = trail demo_nav 1 begun demo_calls (''a'', 0, []) \<and> ns_pending s3 = None"
proof -
  obtain c s3 where c: "nav_response_end demo_nav 1 ''b'' [] (\<lambda>_. None) (fold (nav_step demo_nav) demo_calls begun) = Some (Inr c, s3)"
    "nc_body c = [7]" "nc_url c = ''b''" using history_id_repeated by blast
  have e: "encodes demo_nav" by (simp add: encodes_def demo_nav_def)
  have n: "1 = ns_next_navigation_id nav_new" by (simp add: nav_new_def)
  from navigation_committed [OF e Start forbidden_method_begun(1) n refl c(1)] obtain target m where
    "parse_navigation_url demo_nav ''a'' = Inr target" "(nc_url c, m, nc_body c) = trail demo_nav 1 begun demo_calls (target, 0, [])"
    "ns_pending s3 = None" by blast
  moreover from this(1) have "target = ''a''" by (simp add: parse_navigation_url_def demo_nav_def)
  ultimately show ?thesis using c by metis
qed

end
