(* ===== verification/WasmCookies.thy ===== *)
theory WasmCookies
  imports CookieProps CdpCookies
begin

text \<open>
  \<open>crates/obscura-wasm/src/cookies.rs\<close>: the cookie jar of the portable build. Entries are keyed
  by domain, name and path and numbered by insertion; the HashMap is a map in key order, and
  wherever the code depends on an order it uses the numbers, which are distinct, or the keys.
  \<open>Url::parse\<close> is the parameter \<open>parse\<close> (its error as text, or host, path and scheme), \<open>serde_json\<close>
  the parameters \<open>enc\<close> and \<open>dec\<close>. Shown: the jar is bounded and its keys and numbers agree, what a
  request and a script see of it, that a script reaches no HttpOnly cookie except by filling the
  jar, and that its date arithmetic is that of the native jar.
\<close>

section \<open>Data\<close>

record wasm_cookie =
  wi_name :: string
  wi_value :: string
  wi_domain :: string
  wi_path :: string
  wi_secure :: bool
  wi_http_only :: bool
  wi_same_site :: string
  wi_expires :: "int option"
  wi_host_only :: bool

record wasm_entry =
  we_info :: wasm_cookie
  we_created :: nat

type_synonym jar_key = "string \<times> string \<times> string"
type_synonym wasm_entries = "(jar_key, wasm_entry) bmap"

record wasm_jar =
  wj_entries :: wasm_entries
  wj_next :: nat

type_synonym jar_url_parser = "string \<Rightarrow> string + req_url"

definition MAX_JAR_LINE_BYTES :: nat where "MAX_JAR_LINE_BYTES = 64 * 1024"
definition MAX_JAR_COOKIES :: nat where "MAX_JAR_COOKIES = 4096"

definition wj_new :: wasm_jar where "wj_new = \<lparr>wj_entries = [], wj_next = 0\<rparr>"

section \<open>Matching\<close>

definition wc_same_site :: "string \<Rightarrow> string" where
  "wc_same_site v =
     (let s = to_ascii_lowercase (trim v) in
      if s = ''strict'' then ''Strict'' else if s = ''none'' then ''None'' else ''Lax'')"

definition wc_expired :: "nat option \<Rightarrow> nat \<Rightarrow> bool" where
  "wc_expired expires now = (case expires of Some x \<Rightarrow> x \<le> now | None \<Rightarrow> False)"

text \<open>\<open>expires.and_then(|value| u64::try_from(value).ok())\<close>.\<close>

definition wi_deadline :: "wasm_cookie \<Rightarrow> nat option" where
  "wi_deadline i = Option.bind (wi_expires i) (\<lambda>e. if 0 \<le> e then Some (nat e) else None)"

definition wc_domain_matches :: "string \<Rightarrow> string \<Rightarrow> bool" where
  "wc_domain_matches host domain \<longleftrightarrow>
     eq_ignore_ascii_case host domain
     \<or> (case strip_suffix host domain of Some pre \<Rightarrow> ends_with pre ''.'' | None \<Rightarrow> False)"

definition wc_path_matches :: "string \<Rightarrow> string \<Rightarrow> bool" where
  "wc_path_matches request cookie \<longleftrightarrow>
     request = cookie
     \<or> (starts_with request cookie
        \<and> (ends_with cookie ''/''
           \<or> (length cookie < length request \<and> request ! length cookie = CHR ''/'')))"

definition wc_matches :: "wasm_cookie \<Rightarrow> string \<Rightarrow> string \<Rightarrow> bool \<Rightarrow> nat \<Rightarrow> bool" where
  "wc_matches i host path secure now \<longleftrightarrow>
     (\<not> wi_host_only i \<and> wc_domain_matches host (wi_domain i)
      \<or> wi_host_only i \<and> eq_ignore_ascii_case host (wi_domain i))
     \<and> (\<not> wi_secure i \<or> secure)
     \<and> wc_path_matches path (wi_path i)
     \<and> \<not> wc_expired (wi_deadline i) now"

definition wc_resolve_domain :: "string \<Rightarrow> string option \<Rightarrow> string \<times> bool" where
  "wc_resolve_domain origin requested =
     (case map_option trim requested of
        None \<Rightarrow> (origin, True)
      | Some r \<Rightarrow>
         (if r = [] then (origin, True)
          else
            (let domain = to_ascii_lowercase (trim_start_matches (CHR ''.'') r) in
             if domain = origin \<or> (str_contains domain ''.'' \<and> ends_with origin (''.'' @ domain))
             then (domain, False) else (origin, True))))"

definition wc_default_path :: "string \<Rightarrow> string" where
  "wc_default_path path =
     (if \<not> starts_with path ''/'' then ''/''
      else case str_rfind (CHR ''/'') path of
        None \<Rightarrow> ''/''
      | Some i \<Rightarrow> if i = 0 then ''/'' else take i path)"

section \<open>Dates\<close>

definition wc_month_days :: "nat \<Rightarrow> nat list" where
  "wc_month_days year =
     [31, 28 + (if leap_year year then 1 else 0), 31, 30, 31, 30, 31, 31, 30, 31, 30, 31]"

definition wc_days_before_year :: "nat \<Rightarrow> nat" where
  "wc_days_before_year year =
     (let previous = year - 1 in 365 * year + previous div 4 - previous div 100 + previous div 400)"

definition wc_full_year :: "nat \<Rightarrow> nat" where
  "wc_full_year raw = (if raw \<le> 69 then 2000 + raw else if raw \<le> 99 then 1900 + raw else raw)"

fun collect_opt :: "'a option list \<Rightarrow> 'a list option" where
  "collect_opt [] = Some []"
| "collect_opt (None # xs) = None"
| "collect_opt (Some x # xs) = map_option ((#) x) (collect_opt xs)"

definition wc_parse_http_date :: "string \<Rightarrow> nat option" where
  "wc_parse_http_date s =
     (let parts = split_whitespace (map (\<lambda>c. if c = CHR ''-'' then CHR '' '' else c) s) in
      if length parts < 5 then None
      else case parse_u64 (parts ! 1) of
        None \<Rightarrow> None
      | Some day \<Rightarrow>
         (case position (\<lambda>m. starts_with (to_ascii_lowercase (parts ! 2)) m) months of
            None \<Rightarrow> None
          | Some mi \<Rightarrow>
             (case parse_u64 (parts ! 3) of
                None \<Rightarrow> None
              | Some raw \<Rightarrow>
                 (let year = wc_full_year raw in
                  if \<not> (1601 \<le> year \<and> year \<le> 9999) then None
                  else case collect_opt (map parse_u64 (split_char (CHR '':'') (parts ! 4))) of
                    None \<Rightarrow> None
                  | Some time \<Rightarrow>
                     (if length time \<noteq> 3 \<or> time ! 0 > 23 \<or> time ! 1 > 59 \<or> time ! 2 > 59 then None
                      else if day = 0 \<or> day > wc_month_days year ! mi then None
                      else if year < 1970 then Some 0
                      else
                        (let days = wc_days_before_year year - wc_days_before_year 1970
                               + sum_list (take mi (wc_month_days year)) + day - 1
                         in Some (days * 86400 + time ! 0 * 3600 + time ! 1 * 60 + time ! 2)))))))"

section \<open>Storing\<close>

text \<open>\<open>min_by_key\<close>: the first entry with the least number.\<close>

fun oldest_entry :: "wasm_entries \<Rightarrow> (jar_key \<times> wasm_entry) option" where
  "oldest_entry [] = None"
| "oldest_entry (x # m) =
     (case oldest_entry m of
        None \<Rightarrow> Some x
      | Some y \<Rightarrow> if we_created (snd y) < we_created (snd x) then Some y else Some x)"

definition wc_key :: "wasm_cookie \<Rightarrow> jar_key" where
  "wc_key i = (wi_domain i, wi_name i, wi_path i)"

definition wj_evict :: "wasm_entries \<Rightarrow> wasm_entries" where
  "wj_evict m =
     (if MAX_JAR_COOKIES \<le> length m
      then (case oldest_entry m of Some (k, _) \<Rightarrow> bm_remove k m | None \<Rightarrow> m) else m)"

definition wj_insert :: "wasm_cookie \<Rightarrow> wasm_jar \<Rightarrow> wasm_jar" where
  "wj_insert i j =
     \<lparr>wj_entries = bm_insert (wc_key i) \<lparr>we_info = i, we_created = wj_next j\<rparr> (wj_evict (wj_entries j)),
      wj_next = (wj_next j + 1) mod 2 ^ 64\<rparr>"

text \<open>One attribute of a \<open>Set-Cookie\<close> line.\<close>

definition wc_attr :: "nat \<Rightarrow> bool \<Rightarrow> cookie_attrs \<Rightarrow> string \<Rightarrow> cookie_attrs" where
  "wc_attr now js a raw =
     (let attr = trim raw in
      case split_once (CHR ''='') attr of
        Some (key, val) \<Rightarrow>
         (let k = to_ascii_lowercase (trim key) in
          if k = ''domain'' then
            a\<lparr>at_domain := Some (to_ascii_lowercase (trim_start_matches (CHR ''.'') (trim val)))\<rparr>
          else if k = ''path'' \<and> starts_with (trim val) ''/'' then a\<lparr>at_path := trim val\<rparr>
          else if k = ''max-age'' then
            (case parse_i64 (trim val) of
               Some secs \<Rightarrow> a\<lparr>at_expires := Some (if secs \<le> 0 then 0 else saturating_add u64_max now (nat secs))\<rparr>
             | None \<Rightarrow> a)
          else if k = ''expires'' then a\<lparr>at_expires := wc_parse_http_date (trim val)\<rparr>
          else if k = ''samesite'' then a\<lparr>at_same_site := wc_same_site val\<rparr>
          else a)
      | None \<Rightarrow>
         (let k = to_ascii_lowercase attr in
          if k = ''secure'' then a\<lparr>at_secure := True\<rparr>
          else if k = ''httponly'' \<and> \<not> js then a\<lparr>at_http_only := True\<rparr>
          else a))"

definition wc_attrs_start :: "string \<Rightarrow> cookie_attrs" where
  "wc_attrs_start url_path =
     \<lparr>at_domain = None, at_path = wc_default_path url_path, at_secure = False,
      at_http_only = False, at_expires = None, at_same_site = ''Lax''\<rparr>"

definition bad_cookie_name :: "string \<Rightarrow> bool" where
  "bad_cookie_name name \<longleftrightarrow>
     name = [] \<or> list_ex (\<lambda>c. (of_char c :: nat) \<le> 32 \<or> c = CHR '';'' \<or> c = CHR '','') name"

text \<open>\<open>get(&key).is_some_and(|entry| entry.info.http_only)\<close>.\<close>

definition hidden_at :: "wasm_entries \<Rightarrow> jar_key \<Rightarrow> bool" where
  "hidden_at m k = (case bm_get m k of Some e \<Rightarrow> wi_http_only (we_info e) | None \<Rightarrow> False)"

text \<open>The end of \<open>set_cookie\<close>, from the resolved domain on.\<close>

definition wj_store :: "nat \<Rightarrow> bool \<Rightarrow> string \<Rightarrow> string \<Rightarrow> string \<Rightarrow> cookie_attrs \<Rightarrow> wasm_jar \<Rightarrow> bool \<times> wasm_jar" where
  "wj_store now js origin name val a j =
     (let (domain, host_only) = wc_resolve_domain origin (at_domain a);
          key = (domain, name, at_path a);
          gone = (case at_expires a of Some x \<Rightarrow> x = 0 \<or> x \<le> now | None \<Rightarrow> False)
      in if js \<and> hidden_at (wj_entries j) key then (False, j)
         else if gone then (True, j\<lparr>wj_entries := bm_remove key (wj_entries j)\<rparr>)
         else (True, wj_insert
                \<lparr>wi_name = name, wi_value = trim val, wi_domain = domain, wi_path = at_path a,
                 wi_secure = at_secure a, wi_http_only = at_http_only a, wi_same_site = at_same_site a,
                 wi_expires = map_option u64_as_i64 (at_expires a), wi_host_only = host_only\<rparr> j))"

definition wj_set_cookie :: "jar_url_parser \<Rightarrow> string \<Rightarrow> string \<Rightarrow> nat \<Rightarrow> bool \<Rightarrow> wasm_jar \<Rightarrow> (string + bool) \<times> wasm_jar" where
  "wj_set_cookie parse line url now js j =
     (if MAX_JAR_LINE_BYTES < length line then (Inl ''cookie value exceeds the 64KiB limit'', j)
      else case parse url of
        Inl e \<Rightarrow> (Inl (''invalid cookie URL: '' @ e), j)
      | Inr u \<Rightarrow>
         (case ur_host u of
            None \<Rightarrow> (Inr False, j)
          | Some h \<Rightarrow>
             (let parts = split_char (CHR '';'') line in
              case split_once (CHR ''='') (trim (parts ! 0)) of
                None \<Rightarrow> (Inr False, j)
              | Some (n, val) \<Rightarrow>
                 (let name = trim n;
                      a = foldl (wc_attr now js) (wc_attrs_start (ur_path u)) (drop 1 parts)
                  in if bad_cookie_name name then (Inr False, j)
                     else if js \<and> at_http_only a then (Inr False, j)
                     else apfst Inr (wj_store now js (to_ascii_lowercase h) name val a j)))))"

definition wj_set_from_response :: "jar_url_parser \<Rightarrow> string \<Rightarrow> string \<Rightarrow> nat \<Rightarrow> wasm_jar \<Rightarrow> (string + bool) \<times> wasm_jar" where
  "wj_set_from_response parse line url now j = wj_set_cookie parse line url now False j"

definition wj_set_from_script :: "jar_url_parser \<Rightarrow> string \<Rightarrow> string \<Rightarrow> nat \<Rightarrow> wasm_jar \<Rightarrow> (string + bool) \<times> wasm_jar" where
  "wj_set_from_script parse line url now j = wj_set_cookie parse line url now True j"

section \<open>Reading\<close>

text \<open>The start of \<open>request_header\<close> and \<open>visible_cookie_string\<close>: no host gives the empty text, else
  the filter gets host, path and whether the scheme is \<open>https\<close>.\<close>

definition with_cookie_url :: "jar_url_parser \<Rightarrow> string \<Rightarrow> (string \<Rightarrow> string \<Rightarrow> bool \<Rightarrow> string) \<Rightarrow> string + string" where
  "with_cookie_url parse url f =
     (case parse url of
        Inl e \<Rightarrow> Inl (''invalid cookie URL: '' @ e)
      | Inr u \<Rightarrow>
         (case ur_host u of
            None \<Rightarrow> Inr []
          | Some h \<Rightarrow> Inr (f (to_ascii_lowercase h) (if ur_path u = [] then ''/'' else ur_path u)
                            (ur_scheme u = ''https''))))"

definition show_pair :: "wasm_entry \<Rightarrow> string" where
  "show_pair e = wi_name (we_info e) @ ''='' @ wi_value (we_info e)"

definition wj_request_header :: "jar_url_parser \<Rightarrow> string \<Rightarrow> nat \<Rightarrow> wasm_jar \<Rightarrow> string + string" where
  "wj_request_header parse url now j =
     with_cookie_url parse url (\<lambda>host path secure.
       join ''; '' (map show_pair
         (sort_key (\<lambda>e. (- int (length (wi_path (we_info e))), we_created e))
           (filter (\<lambda>e. wc_matches (we_info e) host path secure now) (bm_values (wj_entries j))))))"

definition wj_visible_cookie_string :: "jar_url_parser \<Rightarrow> string \<Rightarrow> nat \<Rightarrow> wasm_jar \<Rightarrow> string + string" where
  "wj_visible_cookie_string parse url now j =
     with_cookie_url parse url (\<lambda>host path secure.
       join ''; '' (map show_pair
         (sort_key we_created
           (filter (\<lambda>e. \<not> wi_http_only (we_info e) \<and> wc_matches (we_info e) host path secure now)
             (bm_values (wj_entries j))))))"

section \<open>Export, import, deletion\<close>

definition wj_all_json :: "(wasm_cookie list \<Rightarrow> string + string) \<Rightarrow> nat \<Rightarrow> wasm_jar \<Rightarrow> string + string" where
  "wj_all_json enc now j =
     enc (sort_key (\<lambda>i. (wi_domain i, wi_path i, wi_name i))
       (map we_info (filter (\<lambda>e. \<not> wc_expired (wi_deadline (we_info e)) now) (bm_values (wj_entries j)))))"

fun wj_import_all :: "nat \<Rightarrow> wasm_cookie list \<Rightarrow> wasm_jar \<Rightarrow> (string + unit) \<times> wasm_jar" where
  "wj_import_all now [] j = (Inr (), j)"
| "wj_import_all now (i # cs) j =
     (if wi_name i = [] \<or> wi_domain i = [] \<or> wi_path i = []
      then (Inl ''cookie import contains an invalid cookie'', j)
      else if wc_expired (wi_deadline i) now then wj_import_all now cs j
      else wj_import_all now cs (wj_insert i j))"

definition wj_import_json :: "(string \<Rightarrow> string + wasm_cookie list) \<Rightarrow> string \<Rightarrow> nat \<Rightarrow> wasm_jar \<Rightarrow> (string + unit) \<times> wasm_jar" where
  "wj_import_json dec json now j =
     (if MAX_JAR_LINE_BYTES < length json then (Inl ''cookie import exceeds the 64KiB limit'', j)
      else case dec json of
        Inl e \<Rightarrow> (Inl (''invalid cookie import: '' @ e), j)
      | Inr cs \<Rightarrow>
         (if MAX_JAR_COOKIES < length cs then (Inl ''cookie import exceeds the 4096-cookie limit'', j)
          else wj_import_all now cs j))"

definition wj_delete :: "string \<Rightarrow> string \<Rightarrow> string option \<Rightarrow> wasm_jar \<Rightarrow> wasm_jar" where
  "wj_delete name domain path j =
     (let dom = to_ascii_lowercase (trim_start_matches (CHR ''.'') domain) in
      j\<lparr>wj_entries := bm_retain
         (\<lambda>(d, n, p) _. \<not> (n = name \<and> (dom = [] \<or> d = dom) \<and> (case path of None \<Rightarrow> True | Some x \<Rightarrow> x = p)))
         (wj_entries j)\<rparr>)"

definition wj_clear :: "wasm_jar \<Rightarrow> wasm_jar" where
  "wj_clear j = j\<lparr>wj_entries := []\<rparr>"

section \<open>The jar stays in order\<close>

lemma oldest_entry_None: "oldest_entry m = None \<longleftrightarrow> m = []"
  by (cases m) (auto split: option.splits)

lemma oldest_entry_Some:
  "oldest_entry m = Some x \<Longrightarrow> x \<in> set m \<and> (\<forall>y \<in> set m. we_created (snd x) \<le> we_created (snd y))"
proof (induction m arbitrary: x)
  case (Cons a m)
  show ?case
  proof (cases "oldest_entry m")
    case None
    with Cons.prems show ?thesis by (simp add: oldest_entry_None)
  next
    case (Some y)
    with Cons.IH [OF Some] Cons.prems show ?thesis by (auto split: if_splits)
  qed
qed simp

text \<open>Bounded, in key order, and every entry filed under its own domain, name and path.\<close>

definition wj_ok :: "wasm_jar \<Rightarrow> bool" where
  "wj_ok j \<longleftrightarrow> bm_ok (wj_entries j) \<and> length (wj_entries j) \<le> MAX_JAR_COOKIES
     \<and> (\<forall>k e. bm_get (wj_entries j) k = Some e \<longrightarrow> k = wc_key (we_info e) \<and> wi_name (we_info e) \<noteq> [] \<and> wi_path (we_info e) \<noteq> [])"

text \<open>The numbers are distinct and below the counter.\<close>

definition wj_fresh :: "wasm_jar \<Rightarrow> bool" where
  "wj_fresh j \<longleftrightarrow>
     (\<forall>k e. bm_get (wj_entries j) k = Some e \<longrightarrow> we_created e < wj_next j)
     \<and> (\<forall>k k' e e'. bm_get (wj_entries j) k = Some e \<longrightarrow> bm_get (wj_entries j) k' = Some e'
          \<longrightarrow> we_created e = we_created e' \<longrightarrow> k = k')"

lemma wj_okD:
  assumes "wj_ok j"
  shows "bm_ok (wj_entries j)" and "length (wj_entries j) \<le> MAX_JAR_COOKIES"
    and "\<And>k e. bm_get (wj_entries j) k = Some e \<Longrightarrow> k = wc_key (we_info e)"
    and "\<And>k e. bm_get (wj_entries j) k = Some e \<Longrightarrow> wi_name (we_info e) \<noteq> [] \<and> wi_path (we_info e) \<noteq> []"
  using assms unfolding wj_ok_def by blast+

text \<open>A jar with fewer entries, the counter kept.\<close>

lemma wj_shrink:
  assumes "\<And>k e. bm_get m k = Some e \<Longrightarrow> bm_get (wj_entries j) k = Some e"
  shows "wj_ok j \<Longrightarrow> bm_ok m \<Longrightarrow> length m \<le> length (wj_entries j) \<Longrightarrow> wj_ok (j\<lparr>wj_entries := m\<rparr>)"
    and "wj_fresh j \<Longrightarrow> wj_fresh (j\<lparr>wj_entries := m\<rparr>)"
  using assms unfolding wj_ok_def wj_fresh_def by simp_all (meson le_trans)+

lemma wj_evict_cases:
  obtains "length m < MAX_JAR_COOKIES" and "wj_evict m = m"
  | k e where "MAX_JAR_COOKIES \<le> length m" and "oldest_entry m = Some (k, e)" and "wj_evict m = bm_remove k m"
proof (cases "length m < MAX_JAR_COOKIES")
  case True
  then show thesis by (intro that(1)) (simp_all add: wj_evict_def)
next
  case False
  then have "m \<noteq> []" by (auto simp: MAX_JAR_COOKIES_def)
  then obtain k e where "oldest_entry m = Some (k, e)" using oldest_entry_None [of m] by (cases "oldest_entry m") auto
  with False show thesis by (intro that(2)) (simp_all add: wj_evict_def)
qed

lemma wj_evict_get: "bm_get (wj_evict m) k = Some e \<Longrightarrow> bm_get m k = Some e"
  by (cases rule: wj_evict_cases [of m]) (auto simp: bm_get_remove split: if_splits)

lemma wj_evict_ok:
  assumes "bm_ok m" and "length m \<le> MAX_JAR_COOKIES"
  shows "bm_ok (wj_evict m) \<and> length (wj_evict m) < MAX_JAR_COOKIES"
proof (cases rule: wj_evict_cases [of m])
  case 1
  with assms show ?thesis by simp
next
  case (2 k e)
  then have "bm_has m k"
    using oldest_entry_Some [of m] bm_get_iff [OF assms(1)] by (auto simp: bm_has_Some)
  with bm_length_remove_Suc [OF assms(1), of k] assms 2 show ?thesis by simp
qed

lemma wj_insert_ok:
  assumes "wj_ok j" and "wi_name i \<noteq> []" and "wi_path i \<noteq> []"
  shows "wj_ok (wj_insert i j)"
proof -
  note ev = wj_evict_ok [OF wj_okD(1,2) [OF assms(1)]]
  have "length (wj_entries (wj_insert i j)) \<le> MAX_JAR_COOKIES"
    using ev by (simp add: wj_insert_def bm_length_insert)
  moreover have "k = wc_key (we_info e) \<and> wi_name (we_info e) \<noteq> [] \<and> wi_path (we_info e) \<noteq> []"
    if "bm_get (wj_entries (wj_insert i j)) k = Some e" for k e
    using that assms(2,3) wj_evict_get [of "wj_entries j" k e] wj_okD(3,4) [OF assms(1), of k e]
    by (auto simp: wj_insert_def bm_get_insert split: if_splits)
  ultimately show ?thesis using ev by (simp add: wj_ok_def wj_insert_def)
qed

lemma wj_insert_fresh:
  assumes "wj_fresh j" and "wj_next j + 1 < 2 ^ 64"
  shows "wj_fresh (wj_insert i j) \<and> wj_next (wj_insert i j) = wj_next j + 1"
proof -
  let ?e = "\<lparr>we_info = i, we_created = wj_next j\<rparr>"
  have nx: "wj_next (wj_insert i j) = wj_next j + 1" using assms(2) by (simp add: wj_insert_def)
  have old: "k = wc_key i \<and> e = ?e \<or> bm_get (wj_entries j) k = Some e"
    if "bm_get (wj_entries (wj_insert i j)) k = Some e" for k e
    using that wj_evict_get [of "wj_entries j" k e] by (auto simp: wj_insert_def bm_get_insert split: if_splits)
  have lt: "we_created e < wj_next j" if "bm_get (wj_entries j) k = Some e" for k e
    using assms(1) that unfolding wj_fresh_def by blast
  have "we_created e < wj_next j + 1" if "bm_get (wj_entries (wj_insert i j)) k = Some e" for k e
    using old [OF that] lt [of k e] by auto
  moreover have "k = k'" if "bm_get (wj_entries (wj_insert i j)) k = Some e"
    and "bm_get (wj_entries (wj_insert i j)) k' = Some e'" and "we_created e = we_created e'" for k k' e e'
    using old [OF that(1)] old [OF that(2)] lt [of k e] lt [of k' e'] that(3)
      conjunct2 [OF assms(1) [unfolded wj_fresh_def], rule_format, of k e k' e'] by force
  ultimately show ?thesis unfolding wj_fresh_def nx by blast
qed

lemma wc_default_path_not_Nil: "wc_default_path p \<noteq> []"
  by (auto simp: wc_default_path_def starts_with_def split: option.splits)

lemma wc_attrs_path: "at_path (foldl (wc_attr now js) (wc_attrs_start p) raws) \<noteq> []"
proof -
  have "at_path (wc_attr now js a raw) \<noteq> []" if "at_path a \<noteq> []" for a raw
    using that by (auto simp: wc_attr_def Let_def starts_with_def split: option.splits prod.splits)
  then have "at_path a \<noteq> [] \<Longrightarrow> at_path (foldl (wc_attr now js) a raws) \<noteq> []" for a
    by (induction raws arbitrary: a) auto
  then show ?thesis by (simp add: wc_attrs_start_def wc_default_path_not_Nil)
qed

text \<open>What one call of \<open>set_cookie\<close> can do to the jar.\<close>

lemma wj_set_cookie_effect:
  assumes "wj_set_cookie parse line url now js j = (r, j')"
  obtains (same) "j' = j"
  | (remove) k where "j' = j\<lparr>wj_entries := bm_remove k (wj_entries j)\<rparr>" and "js \<Longrightarrow> \<not> hidden_at (wj_entries j) k"
  | (insert) i where "j' = wj_insert i j" and "wi_name i \<noteq> []" and "wi_path i \<noteq> []" and "js \<Longrightarrow> \<not> wi_http_only i"
      and "js \<Longrightarrow> \<not> hidden_at (wj_entries j) (wc_key i)"
proof -
  have store: "j' = j \<or> (\<exists>origin name val a b. at_path a \<noteq> [] \<and> \<not> bad_cookie_name name \<and> (js \<longrightarrow> \<not> at_http_only a)
      \<and> wj_store now js origin name val a j = (b, j'))"
    using assms wc_attrs_path [of now js] unfolding wj_set_cookie_def Let_def
    by (cases js) (auto simp: apfst_def map_prod_def split: if_splits sum.splits option.splits prod.splits, blast+)
  then show thesis
  proof (elim disjE exE conjE)
    assume "j' = j"
    then show thesis by (rule same)
  next
    fix origin name val a b
    assume path: "at_path a \<noteq> []" and name: "\<not> bad_cookie_name name" and vis: "js \<longrightarrow> \<not> at_http_only a"
      and st: "wj_store now js origin name val a j = (b, j')"
    obtain domain host_only where dom: "wc_resolve_domain origin (at_domain a) = (domain, host_only)" by fastforce
    let ?k = "(domain, name, at_path a)"
    show thesis
    proof (cases "js \<and> hidden_at (wj_entries j) ?k")
      case True
      with st dom have "j' = j" by (simp add: wj_store_def)
      then show thesis by (rule same)
    next
      case False
      show thesis
      proof (cases "case at_expires a of Some x \<Rightarrow> x = 0 \<or> x \<le> now | None \<Rightarrow> False")
        case True
        with st dom False have "j' = j\<lparr>wj_entries := bm_remove ?k (wj_entries j)\<rparr>" by (simp add: wj_store_def)
        then show thesis by (rule remove) (use False in simp)
      next
        case False': False
        let ?i = "\<lparr>wi_name = name, wi_value = trim val, wi_domain = domain, wi_path = at_path a,
            wi_secure = at_secure a, wi_http_only = at_http_only a, wi_same_site = at_same_site a,
            wi_expires = map_option u64_as_i64 (at_expires a), wi_host_only = host_only\<rparr>"
        from st dom False False' have "j' = wj_insert ?i j" by (simp add: wj_store_def)
        then show thesis
          by (rule insert) (use path name vis False in \<open>auto simp: bad_cookie_name_def wc_key_def\<close>)
      qed
    qed
  qed
qed

lemma wj_remove_inv:
  shows "wj_ok j \<Longrightarrow> wj_ok (j\<lparr>wj_entries := bm_remove k (wj_entries j)\<rparr>)"
    and "wj_fresh j \<Longrightarrow> wj_fresh (j\<lparr>wj_entries := bm_remove k (wj_entries j)\<rparr>)"
proof -
  have sub: "bm_get (wj_entries j) k' = Some e" if "bm_get (bm_remove k (wj_entries j)) k' = Some e" for k' e
    using that by (simp add: bm_get_remove split: if_splits)
  show "wj_ok j \<Longrightarrow> wj_ok (j\<lparr>wj_entries := bm_remove k (wj_entries j)\<rparr>)"
    by (rule wj_shrink(1)) (use sub in \<open>auto simp: wj_okD bm_length_remove\<close>)
  show "wj_fresh j \<Longrightarrow> wj_fresh (j\<lparr>wj_entries := bm_remove k (wj_entries j)\<rparr>)"
    by (rule wj_shrink(2)) (use sub in auto)
qed

text \<open>At most \<open>n\<close> insertions: the invariants are kept and the counter grows by at most \<open>n\<close>.\<close>

definition wj_grows :: "nat \<Rightarrow> wasm_jar \<Rightarrow> wasm_jar \<Rightarrow> bool" where
  "wj_grows n j j' \<longleftrightarrow> (wj_ok j \<longrightarrow> wj_ok j')
     \<and> (wj_fresh j \<and> wj_next j + n < 2 ^ 64 \<longrightarrow> wj_fresh j' \<and> wj_next j' \<le> wj_next j + n)"

lemma wj_grows_refl: "wj_grows n j j"
  by (simp add: wj_grows_def)

lemma wj_grows_trans: "wj_grows m j j' \<Longrightarrow> wj_grows n j' j'' \<Longrightarrow> wj_grows (m + n) j j''"
  unfolding wj_grows_def by fastforce

lemma wj_grows_mono: "wj_grows m j j' \<Longrightarrow> m \<le> n \<Longrightarrow> wj_grows n j j'"
  unfolding wj_grows_def by fastforce

lemma wj_grows_insert: "wi_name i \<noteq> [] \<Longrightarrow> wi_path i \<noteq> [] \<Longrightarrow> wj_grows 1 j (wj_insert i j)"
  unfolding wj_grows_def using wj_insert_ok wj_insert_fresh by fastforce

lemma wj_grows_set_cookie:
  assumes "wj_set_cookie parse line url now js j = (r, j')"
  shows "wj_grows 1 j j'"
proof (cases rule: wj_set_cookie_effect [OF assms, case_names same remove insert])
  case same
  then show ?thesis by (simp add: wj_grows_refl)
next
  case (remove k)
  then show ?thesis using wj_remove_inv [of j k] by (simp add: wj_grows_def)
next
  case (insert i)
  with wj_grows_insert show ?thesis by blast
qed

lemma wj_grows_import_all: "wj_import_all now cs j = (r, j') \<Longrightarrow> wj_grows (length cs) j j'"
proof (induction now cs j rule: wj_import_all.induct)
  case (2 now i cs j)
  show ?case
  proof (cases "wi_name i = [] \<or> wi_domain i = [] \<or> wi_path i = []")
    case True
    with 2(3) show ?thesis by (auto simp: wj_grows_refl)
  next
    case named: False
    show ?thesis
    proof (cases "wc_expired (wi_deadline i) now")
      case True
      with named 2(3) have "wj_import_all now cs j = (r, j')" by simp
      from wj_grows_mono [OF 2(1) [OF named True this]] show ?thesis by simp
    next
      case False
      with named 2(3) have "wj_import_all now cs (wj_insert i j) = (r, j')" by simp
      from wj_grows_trans [OF wj_grows_insert [of i j] 2(2) [OF named False this]] named show ?thesis by simp
    qed
  qed
qed (auto simp: wj_grows_refl)

text \<open>
  At the limit an insertion evicts before it looks at its key: replacing a cookie of a full jar
  loses another one, and the jar ends up below the limit.
\<close>

lemma replacement_evicts:
  assumes "wj_ok j" and "length (wj_entries j) = MAX_JAR_COOKIES" and "bm_has (wj_entries j) (wc_key i)"
    and "oldest_entry (wj_entries j) = Some (k, e)" and "k \<noteq> wc_key i"
  shows "bm_get (wj_entries (wj_insert i j)) k = None
    \<and> Suc (length (wj_entries (wj_insert i j))) = MAX_JAR_COOKIES"
proof -
  let ?m = "wj_entries j"
  note m = wj_okD(1) [OF assms(1)]
  have ev: "wj_evict ?m = bm_remove k ?m" using assms(2,4) by (simp add: wj_evict_def)
  have "bm_has ?m k" using oldest_entry_Some [OF assms(4)] bm_get_iff [OF m] by (auto simp: bm_has_Some)
  then have "Suc (length (bm_remove k ?m)) = MAX_JAR_COOKIES" using bm_length_remove_Suc [OF m] assms(2) by metis
  with assms(3,5) m show ?thesis
    by (simp add: wj_insert_def ev bm_get_insert bm_get_remove bm_length_insert bm_has_remove)
qed

section \<open>Reachable jars\<close>

datatype jar_op =
    SetFromResponse string string nat
  | SetFromScript string string nat
  | ImportCookies string nat
  | DeleteCookies string string "string option"
  | ClearCookies

fun wj_step :: "jar_url_parser \<Rightarrow> (string \<Rightarrow> string + wasm_cookie list) \<Rightarrow> jar_op \<Rightarrow> wasm_jar \<Rightarrow> wasm_jar" where
  "wj_step parse dec (SetFromResponse line url now) j = snd (wj_set_from_response parse line url now j)"
| "wj_step parse dec (SetFromScript line url now) j = snd (wj_set_from_script parse line url now j)"
| "wj_step parse dec (ImportCookies json now) j = snd (wj_import_json dec json now j)"
| "wj_step parse dec (DeleteCookies name domain path) j = wj_delete name domain path j"
| "wj_step parse dec ClearCookies j = wj_clear j"

lemma wj_grows_step: "wj_grows MAX_JAR_COOKIES j (wj_step parse dec op j)"
proof (cases op)
  case (ImportCookies json now)
  show ?thesis
  proof (cases "dec json")
    case (Inr cs)
    from wj_grows_import_all [of now cs j] have "wj_grows (length cs) j (snd (wj_import_all now cs j))"
      by (cases "wj_import_all now cs j") simp
    with Inr ImportCookies show ?thesis
      by (auto simp: wj_import_json_def wj_grows_refl intro: wj_grows_mono)
  qed (use ImportCookies in \<open>simp add: wj_import_json_def wj_grows_refl\<close>)
next
  case (DeleteCookies name domain path)
  let ?m = "wj_entries (wj_delete name domain path j)"
  have eq: "wj_delete name domain path j = j\<lparr>wj_entries := ?m\<rparr>" by (simp add: wj_delete_def Let_def)
  have "wj_ok (j\<lparr>wj_entries := ?m\<rparr>)" if ok: "wj_ok j"
  proof (rule wj_shrink(1) [OF _ ok])
    show "bm_ok ?m" "length ?m \<le> length (wj_entries j)"
      using wj_okD(1) [OF ok] by (simp_all add: wj_delete_def Let_def bm_length_retain)
    show "bm_get (wj_entries j) k = Some e" if "bm_get ?m k = Some e" for k e
      using that by (simp add: wj_delete_def Let_def case_prod_beta' bm_get_retain_key split: if_splits)
  qed
  moreover have "wj_fresh (j\<lparr>wj_entries := ?m\<rparr>)" if "wj_fresh j"
    by (rule wj_shrink(2) [OF _ that])
      (simp add: wj_delete_def Let_def case_prod_beta' bm_get_retain_key split: if_splits)
  moreover have "wj_next (wj_delete name domain path j) = wj_next j" by (simp add: wj_delete_def Let_def)
  ultimately show ?thesis unfolding DeleteCookies wj_step.simps wj_grows_def using eq by simp
next
  case ClearCookies
  then show ?thesis by (simp add: wj_clear_def wj_grows_def wj_ok_def wj_fresh_def)
qed (auto simp: wj_set_from_response_def wj_set_from_script_def MAX_JAR_COOKIES_def
      intro!: wj_grows_mono [OF wj_grows_set_cookie, OF prod.collapse [symmetric]])

definition wj_run :: "jar_url_parser \<Rightarrow> (string \<Rightarrow> string + wasm_cookie list) \<Rightarrow> jar_op list \<Rightarrow> wasm_jar" where
  "wj_run parse dec ops = fold (wj_step parse dec) ops wj_new"

lemma wj_grows_run: "wj_grows (MAX_JAR_COOKIES * length ops) wj_new (wj_run parse dec ops)"
proof (induction ops rule: rev_induct)
  case (snoc op ops)
  from wj_grows_trans [OF snoc wj_grows_step [of _ parse dec op]] show ?case
    by (simp add: wj_run_def algebra_simps)
qed (simp add: wj_run_def wj_grows_refl)

text \<open>
  C32. Every jar reached from the empty one holds at most 4096 cookies, each filed under its own
  domain, name and path, none with an empty name or path; and unless 2^52 calls were made, the insertion
  numbers are distinct, so that eviction and the orders by age are determined.
\<close>

theorem wasm_jar_invariant:
  "wj_ok (wj_run parse dec ops) \<and> (length ops < 2 ^ 52 \<longrightarrow> wj_fresh (wj_run parse dec ops))"
proof -
  have "wj_ok wj_new" "wj_fresh wj_new" by (simp_all add: wj_ok_def wj_fresh_def wj_new_def)
  moreover have "wj_next wj_new + MAX_JAR_COOKIES * length ops < 2 ^ 64" if "length ops < 2 ^ 52"
    using that by (simp add: wj_new_def MAX_JAR_COOKIES_def)
  ultimately show ?thesis using wj_grows_run [of ops parse dec] by (auto simp: wj_grows_def)
qed

definition demo_urls :: jar_url_parser where
  "demo_urls url = (if url = ''https://example.com/''
     then Inr \<lparr>ur_host = Some ''example.com'', ur_path = ''/'', ur_scheme = ''https''\<rparr> else Inl ''relative URL'')"

lemma wasm_jar_invariant_witness: "wj_fresh (wj_run demo_urls (\<lambda>_. Inr []) [ImportCookies [] 0, ClearCookies])"
  using wasm_jar_invariant [of demo_urls "\<lambda>_. Inr []" "[ImportCookies [] 0, ClearCookies]"] by simp

definition demo_secret :: wasm_cookie where
  "demo_secret = \<lparr>wi_name = ''sid'', wi_value = ''secret'', wi_domain = ''example.com'', wi_path = ''/'',
     wi_secure = True, wi_http_only = True, wi_same_site = ''Lax'', wi_expires = None, wi_host_only = True\<rparr>"

definition demo_jar :: wasm_jar where
  "demo_jar = \<lparr>wj_entries = [(wc_key demo_secret, \<lparr>we_info = demo_secret, we_created = 0\<rparr>)], wj_next = 1\<rparr>"

lemma demo_jar_get:
  "bm_get (wj_entries demo_jar) k = (if k = wc_key demo_secret then Some \<lparr>we_info = demo_secret, we_created = 0\<rparr> else None)"
  by (simp add: demo_jar_def bm_get_def)

lemma demo_jar_ok: "wj_ok demo_jar" and demo_jar_fresh: "wj_fresh demo_jar"
  by (simp_all add: wj_ok_def wj_fresh_def demo_jar_get del: split_paired_All)
    (simp_all add: demo_jar_def MAX_JAR_COOKIES_def bm_ok_def demo_secret_def)

section \<open>Scripts and HttpOnly cookies\<close>

definition wj_hidden :: "wasm_entries \<Rightarrow> wasm_entries" where
  "wj_hidden m = bm_retain (\<lambda>_ e. wi_http_only (we_info e)) m"

lemma wj_hidden_get:
  "bm_ok m \<Longrightarrow> bm_get (wj_hidden m) k =
     (case bm_get m k of Some e \<Rightarrow> if wi_http_only (we_info e) then Some e else None | None \<Rightarrow> None)"
  by (simp add: wj_hidden_def bm_get_retain)

lemma wj_hidden_remove: "wj_hidden (bm_remove k m) = bm_remove k (wj_hidden m)"
  unfolding wj_hidden_def bm_remove_def bm_retain_def filter_filter by (rule filter_cong) auto

lemma wj_hidden_remove_other: "bm_ok m \<Longrightarrow> \<not> hidden_at m k \<Longrightarrow> wj_hidden (bm_remove k m) = wj_hidden m"
  unfolding wj_hidden_remove by (rule bm_remove_absent) (auto simp: wj_hidden_get hidden_at_def split: option.splits)

lemma wj_hidden_insert_other:
  assumes "bm_ok m" and "\<not> hidden_at m k" and "\<not> wi_http_only (we_info e)"
  shows "wj_hidden (bm_insert k e m) = wj_hidden m"
proof (rule bm_ok_ext)
  show "bm_ok (wj_hidden (bm_insert k e m))" "bm_ok (wj_hidden m)"
    using assms(1) by (simp_all add: wj_hidden_def)
  show "bm_get (wj_hidden (bm_insert k e m)) k' = bm_get (wj_hidden m) k'" for k'
    using assms by (auto simp: wj_hidden_get bm_get_insert hidden_at_def split: option.splits)
qed

text \<open>
  C30. A line from a script neither adds, changes nor removes an HttpOnly cookie, except that a jar
  already holding 4096 cookies may lose its oldest one; and the text a script reads is that of the
  jar without its HttpOnly cookies.
\<close>

theorem script_keeps_http_only:
  assumes ok: "wj_ok j" and call: "wj_set_from_script parse line url now j = (r, j')"
  shows "(wj_hidden (wj_entries j') = wj_hidden (wj_entries j)
      \<or> (length (wj_entries j) = MAX_JAR_COOKIES
         \<and> (\<exists>k e. oldest_entry (wj_entries j) = Some (k, e)
             \<and> wj_hidden (wj_entries j') = bm_remove k (wj_hidden (wj_entries j)))))
    \<and> wj_visible_cookie_string parse read_url now' j
        = wj_visible_cookie_string parse read_url now'
            (j\<lparr>wj_entries := bm_retain (\<lambda>_ e. \<not> wi_http_only (we_info e)) (wj_entries j)\<rparr>)"
proof (rule conjI)
  let ?m = "wj_entries j"
  note m = wj_okD(1,2) [OF ok]
  from call have "wj_set_cookie parse line url now True j = (r, j')" by (simp add: wj_set_from_script_def)
  then show "wj_hidden (wj_entries j') = wj_hidden ?m
      \<or> (length ?m = MAX_JAR_COOKIES \<and> (\<exists>k e. oldest_entry ?m = Some (k, e)
           \<and> wj_hidden (wj_entries j') = bm_remove k (wj_hidden ?m)))"
  proof (cases rule: wj_set_cookie_effect [case_names same remove insert])
    case (remove k)
    with m show ?thesis by (simp add: wj_hidden_remove_other)
  next
    case (insert i)
    let ?ev = "wj_evict ?m"
    have "\<not> hidden_at ?ev (wc_key i)"
      using insert(5) wj_evict_get [of ?m "wc_key i"] by (auto simp: hidden_at_def split: option.splits)
    then have "wj_hidden (wj_entries j') = wj_hidden ?ev"
      using insert(1,4) wj_evict_ok [OF m] by (simp add: wj_insert_def wj_hidden_insert_other)
    then show ?thesis
      using m(2) by (cases rule: wj_evict_cases [of ?m]) (auto simp: wj_hidden_remove)
  qed simp
  have "filter (\<lambda>e. \<not> wi_http_only (we_info e) \<and> P e)
       (bm_values (bm_retain (\<lambda>_ e. \<not> wi_http_only (we_info e)) m))
     = filter (\<lambda>e. \<not> wi_http_only (we_info e) \<and> P e) (bm_values m)" for P and m :: wasm_entries
    unfolding bm_values_def bm_retain_def by (induction m) auto
  then show "wj_visible_cookie_string parse read_url now' j
     = wj_visible_cookie_string parse read_url now'
         (j\<lparr>wj_entries := bm_retain (\<lambda>_ e. \<not> wi_http_only (we_info e)) ?m\<rparr>)"
    by (simp add: wj_visible_cookie_string_def)
qed

lemma script_keeps_http_only_witness:
  "wj_hidden (wj_entries (snd (wj_set_from_script demo_urls ''sid=evil'' ''https://example.com/'' 100 demo_jar)))
     = wj_hidden (wj_entries demo_jar)"
proof -
  let ?r = "wj_set_from_script demo_urls ''sid=evil'' ''https://example.com/'' 100 demo_jar"
  have "length (wj_entries demo_jar) \<noteq> MAX_JAR_COOKIES" by (simp add: demo_jar_def MAX_JAR_COOKIES_def)
  moreover have r: "?r = (fst ?r, snd ?r)" by simp
  moreover note script_keeps_http_only [OF demo_jar_ok r, THEN conjunct1]
  ultimately show ?thesis by blast
qed

section \<open>The request header\<close>

text \<open>The cookies of a request, by their scope, flags and expiry.\<close>

definition cookie_in_scope :: "wasm_cookie \<Rightarrow> string \<Rightarrow> string \<Rightarrow> bool \<Rightarrow> nat \<Rightarrow> bool" where
  "cookie_in_scope i host path secure now \<longleftrightarrow>
     (eq_ignore_ascii_case host (wi_domain i)
      \<or> (\<not> wi_host_only i \<and> (\<exists>sub. host = sub @ ''.'' @ wi_domain i)))
     \<and> (wi_path i = path \<or> (\<exists>rest. path = wi_path i @ rest \<and> (suffix ''/'' (wi_path i) \<or> prefix ''/'' rest)))
     \<and> (wi_secure i \<longrightarrow> secure)
     \<and> (\<forall>x. wi_expires i = Some x \<longrightarrow> x < 0 \<or> int now < x)"

lemma wc_domain_matches_iff:
  "wc_domain_matches host domain \<longleftrightarrow>
     eq_ignore_ascii_case host domain \<or> (\<exists>sub. host = sub @ ''.'' @ domain)"
proof -
  have "(case strip_suffix host domain of Some pre \<Rightarrow> ends_with pre ''.'' | None \<Rightarrow> False)
     \<longleftrightarrow> (\<exists>sub. host = sub @ ''.'' @ domain)"
    by (auto simp: strip_suffix_def ends_with_def suffix_def)
  then show ?thesis by (simp add: wc_domain_matches_def)
qed

lemma wc_path_matches_iff:
  "wc_path_matches request cookie \<longleftrightarrow>
     cookie = request \<or> (\<exists>rest. request = cookie @ rest \<and> (suffix ''/'' cookie \<or> prefix ''/'' rest))"
proof (cases "prefix cookie request")
  case True
  then obtain rest where rest: "request = cookie @ rest" by (rule prefixE)
  then have "length cookie < length request \<and> request ! length cookie = CHR ''/'' \<longleftrightarrow> prefix ''/'' rest"
    by (cases rest) auto
  then show ?thesis
    using True rest unfolding wc_path_matches_def starts_with_def ends_with_def by auto
next
  case False
  then show ?thesis unfolding wc_path_matches_def starts_with_def by auto
qed

lemma wc_matches_iff: "wc_matches i host path secure now \<longleftrightarrow> cookie_in_scope i host path secure now"
proof -
  have "\<not> wc_expired (wi_deadline i) now \<longleftrightarrow> (\<forall>x. wi_expires i = Some x \<longrightarrow> x < 0 \<or> int now < x)"
    by (cases "wi_expires i") (auto simp: wc_expired_def wi_deadline_def not_le)
  then show ?thesis
    unfolding wc_matches_def cookie_in_scope_def wc_domain_matches_iff wc_path_matches_iff by auto
qed

lemma wj_created_distinct:
  assumes "wj_ok j" and "wj_fresh j"
  shows "distinct (map we_created (bm_values (wj_entries j)))"
proof -
  let ?m = "wj_entries j"
  note m = wj_okD(1) [OF assms(1)]
  have "inj_on (we_created \<circ> snd) (set ?m)"
  proof (rule inj_onI)
    fix x y assume "x \<in> set ?m" "y \<in> set ?m" "(we_created \<circ> snd) x = (we_created \<circ> snd) y"
    moreover obtain k e k' e' where "x = (k, e)" "y = (k', e')" by (cases x, cases y)
    ultimately have "bm_get ?m k = Some e" "bm_get ?m k' = Some e'" "we_created e = we_created e'"
      and xy: "x = (k, e)" "y = (k', e')" using m by (auto simp: bm_get_iff)
    then have "k = k'" using conjunct2 [OF assms(2) [unfolded wj_fresh_def], rule_format, of k e k' e'] by blast
    with xy \<open>bm_get ?m k = Some e\<close> \<open>bm_get ?m k' = Some e'\<close> show "x = y" by simp
  qed
  moreover have "distinct ?m" using bm_ok_distinct [OF m] by (simp add: distinct_map)
  ultimately have "distinct (map (we_created \<circ> snd) ?m)" by (simp only: distinct_map)
  then show ?thesis by (simp add: bm_values_def)
qed

text \<open>
  C31. The Cookie header of a request is made of exactly the stored cookies in scope, each once,
  longer paths first and among equal lengths the older ones first.
\<close>

theorem wasm_header_exact:
  assumes ok: "wj_ok j" and fresh: "wj_fresh j" and url: "parse url = Inr u" "ur_host u = Some h"
  shows "\<exists>es. wj_request_header parse url now j = Inr (join ''; '' (map show_pair es)) \<and> distinct es
    \<and> set es = {e. bm_get (wj_entries j) (wc_key (we_info e)) = Some e
          \<and> cookie_in_scope (we_info e) (to_ascii_lowercase h) (if ur_path u = [] then ''/'' else ur_path u)
              (ur_scheme u = ''https'') now}
    \<and> sorted_wrt (\<lambda>a b. length (wi_path (we_info b)) < length (wi_path (we_info a))
          \<or> (length (wi_path (we_info a)) = length (wi_path (we_info b)) \<and> we_created a < we_created b)) es"
proof -
  let ?path = "if ur_path u = [] then ''/'' else ur_path u"
  let ?P = "\<lambda>e. wc_matches (we_info e) (to_ascii_lowercase h) ?path (ur_scheme u = ''https'') now"
  let ?f = "\<lambda>e. (- int (length (wi_path (we_info e))), we_created e)"
  let ?vs = "bm_values (wj_entries j)"
  define es where "es = sort_key ?f (filter ?P ?vs)"
  have "distinct (map we_created (filter ?P ?vs))"
    using wj_created_distinct [OF ok fresh] by (rule distinct_map_filter)
  then have created: "distinct (map we_created es)"
    unfolding es_def distinct_map by (simp add: distinct_sort)
  then have "distinct (map ?f es)" by (auto simp: distinct_map inj_on_def)
  moreover have "sorted (map ?f es)" by (simp add: es_def)
  ultimately have "sorted_wrt (<) (map ?f es)" by (simp add: strict_sorted_iff)
  then have "sorted_wrt (\<lambda>a b. ?f a < ?f b) es" by (simp only: sorted_wrt_map)
  then have order: "sorted_wrt (\<lambda>a b. length (wi_path (we_info b)) < length (wi_path (we_info a))
          \<or> (length (wi_path (we_info a)) = length (wi_path (we_info b)) \<and> we_created a < we_created b)) es"
    by (rule sorted_wrt_mono_rel [rotated]) auto
  have "e \<in> set ?vs \<longleftrightarrow> bm_get (wj_entries j) (wc_key (we_info e)) = Some e" for e
    using bm_values_iff [OF wj_okD(1) [OF ok], of e] wj_okD(3) [OF ok, of _ e] by metis
  then have "set es = {e. bm_get (wj_entries j) (wc_key (we_info e)) = Some e
          \<and> cookie_in_scope (we_info e) (to_ascii_lowercase h) ?path (ur_scheme u = ''https'') now}"
    by (auto simp: es_def wc_matches_iff)
  moreover have "wj_request_header parse url now j = Inr (join ''; '' (map show_pair es))"
    by (simp add: wj_request_header_def with_cookie_url_def url es_def)
  moreover have "distinct es" using created by (simp add: distinct_map)
  ultimately show ?thesis using order by blast
qed

lemma wasm_header_exact_witness: "wj_request_header demo_urls ''https://example.com/'' 100 demo_jar = Inr ''sid=secret''"
proof -
  let ?e = "\<lparr>we_info = demo_secret, we_created = 0\<rparr>"
  let ?u = "\<lparr>ur_host = Some ''example.com'', ur_path = ''/'', ur_scheme = ''https''\<rparr>"
  have url: "demo_urls ''https://example.com/'' = Inr ?u" by (simp add: demo_urls_def)
  have host: "ur_host ?u = Some ''example.com''" by simp
  have "to_ascii_lowercase ''example.com'' = ''example.com''" by code_simp
  then have scope: "cookie_in_scope demo_secret (to_ascii_lowercase ''example.com'') ''/'' True 100"
    by (simp add: cookie_in_scope_def demo_secret_def)
  obtain es where es: "wj_request_header demo_urls ''https://example.com/'' 100 demo_jar = Inr (join ''; '' (map show_pair es))"
    "distinct es" "set es = {e. bm_get (wj_entries demo_jar) (wc_key (we_info e)) = Some e
        \<and> cookie_in_scope (we_info e) (to_ascii_lowercase ''example.com'')
            (if ur_path ?u = [] then ''/'' else ur_path ?u) (ur_scheme ?u = ''https'') 100}"
    using wasm_header_exact [where parse = demo_urls and url = "''https://example.com/''" and now = 100,
        OF demo_jar_ok demo_jar_fresh url host] by blast
  have "cookie_in_scope demo_secret (to_ascii_lowercase ''example.com'')
      (if ur_path ?u = [] then ''/'' else ur_path ?u) (ur_scheme ?u = ''https'') 100" using scope by simp
  note scope = this
  have "set es = {?e}" unfolding es(3) demo_jar_get using scope by (auto split: if_splits)
  with es(2) have "es = [?e]" by (cases es) (auto simp: subset_singleton_iff)
  with es(1) show ?thesis by (simp add: show_pair_def demo_secret_def)
qed

section \<open>Export and import\<close>

lemma wj_import_all_lookup:
  assumes "\<And>i. i \<in> set cs \<Longrightarrow> wi_name i \<noteq> [] \<and> wi_domain i \<noteq> [] \<and> wi_path i \<noteq> [] \<and> \<not> wc_expired (wi_deadline i) now"
    and "distinct (map wc_key cs)" and "bm_ok (wj_entries j)" and "length (wj_entries j) + length cs \<le> MAX_JAR_COOKIES"
  shows "\<exists>j'. wj_import_all now cs j = (Inr (), j') \<and>
    (\<forall>k. map_option we_info (bm_get (wj_entries j') k) =
       (case map_of (map (\<lambda>i. (wc_key i, i)) cs) k of Some i \<Rightarrow> Some i | None \<Rightarrow> map_option we_info (bm_get (wj_entries j) k)))"
  using assms
proof (induction cs arbitrary: j)
  case (Cons i cs)
  let ?j = "wj_insert i j"
  have ev: "wj_evict (wj_entries j) = wj_entries j" using Cons.prems(4) by (simp add: wj_evict_def)
  have "bm_ok (wj_entries ?j)" using Cons.prems(3) by (simp add: wj_insert_def ev)
  moreover have "length (wj_entries ?j) + length cs \<le> MAX_JAR_COOKIES"
    using Cons.prems(3,4) by (simp add: wj_insert_def ev bm_length_insert)
  ultimately obtain j' where j': "wj_import_all now cs ?j = (Inr (), j')"
    and get: "\<And>k. map_option we_info (bm_get (wj_entries j') k) =
       (case map_of (map (\<lambda>i. (wc_key i, i)) cs) k of Some i \<Rightarrow> Some i | None \<Rightarrow> map_option we_info (bm_get (wj_entries ?j) k))"
    using Cons.IH [of ?j] Cons.prems(1,2) by auto
  have "map_of (map (\<lambda>i. (wc_key i, i)) cs) (wc_key i) = None"
    using Cons.prems(2) by (auto simp: map_of_eq_None_iff)
  then have "map_option we_info (bm_get (wj_entries j') k) =
     (case map_of (map (\<lambda>i. (wc_key i, i)) (i # cs)) k of Some i \<Rightarrow> Some i | None \<Rightarrow> map_option we_info (bm_get (wj_entries j) k))" for k
    unfolding get by (auto simp: wj_insert_def ev bm_get_insert split: option.splits)
  moreover have "wj_import_all now (i # cs) j = (Inr (), j')" using j' Cons.prems(1) [of i] by simp
  ultimately show ?case by blast
qed simp

lemma case_option_None: "(case x of Some y \<Rightarrow> Some y | None \<Rightarrow> None) = x"
  by (cases x) simp_all

lemma option_ext: "(\<And>i. x = Some i \<longleftrightarrow> y = Some i) \<Longrightarrow> x = y"
  by (cases x; cases y) auto

text \<open>The cookie stored at a key and not expired.\<close>

definition live_cookie :: "nat \<Rightarrow> wasm_jar \<Rightarrow> jar_key \<Rightarrow> wasm_cookie option" where
  "live_cookie now j k =
     (case bm_get (wj_entries j) k of
        Some e \<Rightarrow> if wc_expired (wi_deadline (we_info e)) now then None else Some (we_info e)
      | None \<Rightarrow> None)"

text \<open>The list that \<open>all_json\<close> writes: no key twice, and just the live cookies.\<close>

definition live_list :: "nat \<Rightarrow> wasm_jar \<Rightarrow> wasm_cookie list" where
  "live_list now j = sort_key (\<lambda>i. (wi_domain i, wi_path i, wi_name i))
     (map we_info (filter (\<lambda>e. \<not> wc_expired (wi_deadline (we_info e)) now) (bm_values (wj_entries j))))"

lemma wj_all_json_live: "wj_all_json enc now j = enc (live_list now j)"
  by (simp add: wj_all_json_def live_list_def)

lemma live_list_distinct:
  assumes ok: "wj_ok j"
  shows "distinct (map wc_key (live_list now j)) \<and> length (live_list now j) \<le> MAX_JAR_COOKIES"
proof -
  let ?m = "wj_entries j"
  let ?live = "filter (\<lambda>e. \<not> wc_expired (wi_deadline (we_info e)) now) (bm_values ?m)"
  have "map (\<lambda>e. wc_key (we_info e)) (bm_values ?m) = map fst ?m"
    using wj_okD(3) [OF ok] wj_okD(1) [OF ok] by (auto simp: bm_values_def bm_get_iff)
  then have "distinct (map (\<lambda>e. wc_key (we_info e)) (bm_values ?m))"
    using bm_ok_distinct [OF wj_okD(1) [OF ok]] by simp
  then have "distinct (map (\<lambda>e. wc_key (we_info e)) ?live)" by (rule distinct_map_filter)
  then have "distinct (map wc_key (map we_info ?live))" by (simp add: comp_def)
  then have "distinct (map wc_key (live_list now j))"
    unfolding live_list_def by (simp only: distinct_map [of wc_key] distinct_sort set_sort)
  moreover have "length (live_list now j) \<le> MAX_JAR_COOKIES"
    using wj_okD(2) [OF ok] le_trans [OF length_filter_le] by (simp add: live_list_def bm_values_def)
  ultimately show ?thesis ..
qed

lemma live_list_mem:
  assumes ok: "wj_ok j"
  shows "i \<in> set (live_list now j) \<and> k = wc_key i \<longleftrightarrow> live_cookie now j k = Some i"
proof
  let ?m = "wj_entries j"
  have val: "e \<in> set (bm_values ?m) \<longleftrightarrow> bm_get ?m (wc_key (we_info e)) = Some e" for e
    using bm_values_iff [OF wj_okD(1) [OF ok], of e] wj_okD(3) [OF ok, of _ e] by metis
  have mem: "i \<in> set (live_list now j) \<longleftrightarrow>
     (\<exists>e. e \<in> set (bm_values ?m) \<and> \<not> wc_expired (wi_deadline (we_info e)) now \<and> i = we_info e)"
    by (auto simp: live_list_def)
  {
    assume "i \<in> set (live_list now j) \<and> k = wc_key i"
    then obtain e where "bm_get ?m k = Some e" "\<not> wc_expired (wi_deadline (we_info e)) now" "i = we_info e"
      by (auto simp: mem val)
    then show "live_cookie now j k = Some i" by (simp add: live_cookie_def)
  }
  {
    assume "live_cookie now j k = Some i"
    then obtain e where e: "bm_get ?m k = Some e" "\<not> wc_expired (wi_deadline (we_info e)) now" "i = we_info e"
      by (auto simp: live_cookie_def split: option.splits if_splits)
    from wj_okD(3) [OF ok e(1)] e(1) have "bm_get ?m (wc_key (we_info e)) = Some e" by simp
    then have "i \<in> set (live_list now j)" using mem val [of e] e(2,3) by blast
    moreover have "k = wc_key i" unfolding e(3) by (rule wj_okD(3) [OF ok e(1)])
    ultimately show "i \<in> set (live_list now j) \<and> k = wc_key i" ..
  }
qed

text \<open>
  C33. The text that \<open>all_json\<close> writes, when it is within 64 KiB, is imported into an empty jar
  without an error and gives exactly the cookies that had not expired, host-only ones included.
\<close>

theorem wasm_export_import:
  assumes ok: "wj_ok j" and hosts: "\<And>k e. bm_get (wj_entries j) k = Some e \<Longrightarrow> wi_domain (we_info e) \<noteq> []"
    and out: "wj_all_json enc now j = Inr exported" "length exported \<le> MAX_JAR_LINE_BYTES"
    and json: "\<And>cs t. enc cs = Inr t \<Longrightarrow> dec t = Inr cs"
  shows "\<exists>j'. wj_import_json dec exported now wj_new = (Inr (), j')
    \<and> (\<forall>k. map_option we_info (bm_get (wj_entries j') k) = live_cookie now j k)"
proof -
  let ?cs = "live_list now j"
  have dist: "distinct (map wc_key ?cs)" and len: "length ?cs \<le> MAX_JAR_COOKIES"
    using live_list_distinct [OF ok] by blast+
  have dec: "dec exported = Inr ?cs" using json out(1) by (simp add: wj_all_json_live)
  have good: "wi_name i \<noteq> [] \<and> wi_domain i \<noteq> [] \<and> wi_path i \<noteq> [] \<and> \<not> wc_expired (wi_deadline i) now"
    if "i \<in> set ?cs" for i
  proof -
    from that live_list_mem [OF ok, of i now "wc_key i"] obtain e where e: "bm_get (wj_entries j) (wc_key i) = Some e"
      "\<not> wc_expired (wi_deadline (we_info e)) now" "i = we_info e"
      by (auto simp: live_cookie_def split: option.splits if_splits)
    with hosts [OF e(1)] wj_okD(4) [OF ok e(1)] show ?thesis by simp
  qed
  have new: "bm_ok (wj_entries wj_new)" "length (wj_entries wj_new) + length ?cs \<le> MAX_JAR_COOKIES"
    using len by (simp_all add: wj_new_def)
  have none: "bm_get (wj_entries wj_new) k = None" for k by (simp add: wj_new_def)
  have "\<exists>j'. wj_import_all now ?cs wj_new = (Inr (), j')
      \<and> (\<forall>k. map_option we_info (bm_get (wj_entries j') k) = map_of (map (\<lambda>i. (wc_key i, i)) ?cs) k)"
    using wj_import_all_lookup [OF good dist new] unfolding none option.map case_option_None by simp
  moreover have "map_of (map (\<lambda>i. (wc_key i, i)) ?cs) k = live_cookie now j k" for k
  proof (rule option_ext)
    show "map_of (map (\<lambda>i. (wc_key i, i)) ?cs) k = Some i \<longleftrightarrow> live_cookie now j k = Some i" for i
      unfolding live_list_mem [OF ok, symmetric] using dist by (subst map_of_eq_Some_iff) (auto simp: comp_def)
  qed
  ultimately show ?thesis using dec len out(2) by (simp add: wj_import_json_def)
qed

lemma wasm_export_import_witness:
  "\<exists>j'. wj_import_json (\<lambda>_. Inr [demo_secret]) ''x'' 100 wj_new = (Inr (), j')
     \<and> (\<forall>k. map_option we_info (bm_get (wj_entries j') k) = live_cookie 100 demo_jar k)"
proof -
  let ?enc = "\<lambda>cs. if cs = [demo_secret] then Inr ''x'' else Inl ''no''"
  have "wj_all_json ?enc 100 demo_jar = Inr ''x''"
    by (simp add: wj_all_json_def demo_jar_def bm_values_def wc_expired_def wi_deadline_def demo_secret_def)
  then show ?thesis
    by (rule wasm_export_import [where enc = ?enc and exported = "''x''" and now = 100, OF demo_jar_ok, rotated])
      (auto simp: demo_jar_get demo_secret_def MAX_JAR_LINE_BYTES_def split: if_splits)
qed

section \<open>Dates\<close>

definition date_parts :: "string \<Rightarrow> string list" where
  "date_parts s = split_whitespace (map (\<lambda>c. if c = CHR ''-'' then CHR '' '' else c) s)"

lemma collect_opt_Some:
  "collect_opt xs = Some ys \<Longrightarrow> xs = map Some ys"
  by (induction xs arbitrary: ys rule: collect_opt.induct) auto

lemma position_less: "position P xs = Some i \<Longrightarrow> i < length xs"
  by (induction xs arbitrary: i) (auto split: if_splits)

lemma wc_month_days_sum:
  assumes "m \<in> {1..12}"
  shows "sum_list (take (m - 1) (wc_month_days y)) = month_offset m + (if 2 < m \<and> leap_year y then 1 else 0)
    \<and> wc_month_days y ! (m - 1) \<le> 31"
proof -
  have "m \<in> {1, 2, 3, 4, 5, 6, 7, 8, 9, 10, 11, 12}" by (rule month_range [OF assms])
  then show ?thesis by (elim insertE emptyE) (simp_all add: wc_month_days_def month_offset_def)
qed

text \<open>The closed form counts the days that the year-by-year sum of the native jar counts.\<close>

lemma wc_days_before_year_eq:
  assumes "1970 \<le> y"
  shows "wc_days_before_year y = wc_days_before_year 1970 + days_before_year y"
proof -
  have div: "(y - 1) div 100 \<le> (y - 1) div 4" by (rule div_le_mono2) simp_all
  have "wc_days_before_year y + (y - 1) div 100 = 365 * y + (y - 1) div 4 + (y - 1) div 400"
    using div by (simp add: wc_days_before_year_def Let_def)
  moreover have "wc_days_before_year 1970 = 719527" by (simp add: wc_days_before_year_def Let_def)
  moreover have "365 * y = 365 * (y - 1) + 365" using assms by simp
  ultimately show ?thesis using days_before_year_formula [OF assms] by linarith
qed

lemma date_arith:
  fixes r :: nat
  assumes "r + 86400 * (719162 + c) = 86400 * (n + a + b + mo + l + d) + 3600 * h + 60 * mi + sec"
    and "x = dby + (mo + l) + d" and "dby + 719162 + c = n + a + b"
  shows "r = x * 86400 + h * 3600 + mi * 60 + sec"
  using assms(1) unfolding assms(2) assms(3) [symmetric] by simp

lemma date_seconds_eq:
  assumes "1970 \<le> year" and "year \<le> 9999" and "mi < 12" and "1 \<le> day" and "day \<le> 31"
    and "hour < 24" and "minute < 60" and "second < 60"
  shows "date_seconds year (mi + 1) day hour minute second =
    (wc_days_before_year year - wc_days_before_year 1970 + sum_list (take mi (wc_month_days year)) + day - 1) * 86400
      + hour * 3600 + minute * 60 + second"
proof -
  have mi: "mi + 1 \<in> {1..12}" using assms(3) by simp
  have "date_seconds year (mi + 1) day hour minute second + 86400 * (719162 + (year - 1) div 100)
     = 86400 * (365 * (year - 1) + (year - 1) div 4 + (year - 1) div 400
         + month_offset (mi + 1) + (if 2 < mi + 1 \<and> leap_year year then 1 else 0) + (day - 1))
       + 3600 * hour + 60 * minute + second"
    by (rule http_date_civil [OF assms(1,2) mi assms(4-7)]) (use assms(8) in simp)
  moreover have "wc_days_before_year year - wc_days_before_year 1970 + sum_list (take mi (wc_month_days year)) + day - 1
     = days_before_year year + (month_offset (mi + 1) + (if 2 < mi + 1 \<and> leap_year year then 1 else 0)) + (day - 1)"
    using wc_days_before_year_eq [OF assms(1)] wc_month_days_sum [OF mi, of year] assms(4) by simp
  ultimately show ?thesis by (rule date_arith [OF _ _ days_before_year_formula [OF assms(1)]])
qed

text \<open>
  C34. On every date that the validating, constant-time parser of this jar accepts, with a full
  year from 1970 on and an ASCII month name, the parser of the native jar, which sums over the
  years and months, gives the same number of seconds.
\<close>

theorem date_parsers_agree:
  assumes parsed: "wc_parse_http_date s = Some t"
    and year: "parse_u64 (date_parts s ! 3) = Some y" "1970 \<le> y" and ascii: "is_ascii (date_parts s ! 2)"
  shows "parse_http_date lc s = Some t"
proof -
  let ?ps = "date_parts s"
  have full: "wc_full_year y = y" using year(2) by (simp add: wc_full_year_def)
  obtain day mi time where len: "\<not> length ?ps < 5" and day: "parse_u64 (?ps ! 1) = Some day"
    and mi: "position (\<lambda>m. starts_with (to_ascii_lowercase (?ps ! 2)) m) months = Some mi"
    and time: "collect_opt (map parse_u64 (split_char (CHR '':'') (?ps ! 4))) = Some time"
    and y: "y \<le> 9999" and tm: "length time = 3" "time ! 0 \<le> 23" "time ! 1 \<le> 59" "time ! 2 \<le> 59"
    and d: "day \<noteq> 0" "day \<le> wc_month_days y ! mi"
    and t: "t = (wc_days_before_year y - wc_days_before_year 1970 + sum_list (take mi (wc_month_days y)) + day - 1) * 86400
          + time ! 0 * 3600 + time ! 1 * 60 + time ! 2"
    using parsed year full unfolding wc_parse_http_date_def Let_def date_parts_def
    by (simp split: if_splits option.splits add: not_less not_le)
  have mi12: "mi < 12" using position_less [OF mi] by (simp add: months_def)
  have "split_char (CHR '':'') (?ps ! 4) \<noteq> []" by simp
  from collect_opt_Some [OF time] have pf: "map parse_u64 (split_char (CHR '':'') (?ps ! 4)) = map Some time" .
  then have tl: "length (split_char (CHR '':'') (?ps ! 4)) = 3" using tm(1) by (metis length_map)
  have fld: "time_field (split_char (CHR '':'') (?ps ! 4)) i = time ! i" if "i < 3" for i
    using pf that tl tm(1) by (metis (no_types, lifting) nth_map option.simps(5) time_field_def)
  have "parse_http_date lc s = Some (date_seconds y (mi + 1) day (time ! 0) (time ! 1) (time ! 2))"
    using len day mi year(1) ascii fld
    by (simp add: parse_http_date_def Let_def date_parts_def to_lowercase_def)
  also have "\<dots> = Some t"
    using date_seconds_eq [OF year(2) y mi12, of day "time ! 0" "time ! 1" "time ! 2"]
      wc_month_days_sum [of "mi + 1" y] mi12 d tm t by simp
  finally show ?thesis .
qed

lemma date_parsers_agree_witness:
  "parse_http_date lower_only ''Wed, 09 Jun 2021 10:18:14 GMT'' = Some 1623233894"
proof -
  let ?s = "''Wed, 09 Jun 2021 10:18:14 GMT''"
  have parts: "date_parts ?s = [''Wed,'', ''09'', ''Jun'', ''2021'', ''10:18:14'', ''GMT'']" by code_simp
  have nums: "parse_u64 ''09'' = Some 9" "parse_u64 ''2021'' = Some 2021" "parse_u64 ''10'' = Some 10"
    "parse_u64 ''18'' = Some 18" "parse_u64 ''14'' = Some 14"
    by (simp_all add: parse_u64_def parse_unsigned_def digits_val_def digit_val_def ascii_digit_def)
  have month: "position (\<lambda>m. starts_with (to_ascii_lowercase ''Jun'') m) months = Some 5" by code_simp
  have "wc_parse_http_date ?s = Some 1623233894"
    unfolding wc_parse_http_date_def date_parts_def [symmetric] parts
    by (simp add: Let_def nums month wc_full_year_def wc_month_days_def wc_days_before_year_def leap_year_def)
  then show ?thesis by (rule date_parsers_agree [where y = 2021]) (simp_all add: parts nums is_ascii_def)
qed

end
