(* ===== verification/Spec2Isabelle.thy ===== *)
theory Spec2Isabelle
  imports Ssrf IoStream CdpStale ActionQueue CookieProps CookieParams Robots Blocklist DomCycle Serialize ImportMap Watchdog PortableAction Navigation WasmCookies
begin

text \<open>
  A verification development for the portable core of the Domjet (Obscura) headless browser.

  \<^bold>\<open>The program.\<close> A client speaks the Chrome DevTools Protocol (CDP) to the browser. The crate
  \<open>obscura-cdp\<close> holds the state of the browser as data, with no transport and no executor: contexts, pages,
  sessions, cookies, event queues and the actions that a host (V8, the network, the renderer) has been asked to do.
  Domain handlers act on that state and answer the client. \<open>obscura-dom\<close> is the document: an arena of nodes that
  the HTML parser html5ever fills and that scripts change. \<open>obscura-net\<close> and \<open>obscura-ssrf\<close> decide what may be
  fetched and with which cookies; \<open>obscura-js\<close> has the import maps and the watchdog of the script engine;
  \<open>obscura-wasm\<close> runs navigations as transactions with a host that fetches, and keeps its own cookie jar. These parts decide, the libraries around
  them (V8, sockets, layout) execute, so these are the parts modelled.

  \<^bold>\<open>Conventions.\<close> A struct is a record, an enum a datatype, a method a function that returns its result
  with the new state, \<open>Result\<close> a sum (\<open>Inl\<close> the error) and a panic or a loop that does not return \<open>None\<close>. A
  \<open>BTreeMap\<close> is an association list sorted by its keys (BTree); a \<open>HashMap\<close> that is read by key only is the
  same or a \<open>Mapping\<close>. A Rust \<open>String\<close> is the list of its UTF-8 bytes, so lengths are byte lengths. Counters,
  lengths and sums are natural numbers with the check or the saturation of the code written out against \<open>u32_max\<close>,
  \<open>u64_max\<close> and \<open>usize_max\<close>; addresses and bytes are words. An \<open>f64\<close> is a rational, an infinity or NaN.
  Code of other crates is a parameter: the parsers and encoders of serde_json, the crate \<open>url\<close>, base64, html5ever's
  calls, the renderer, the rounding of an integer to a double, the clock.

  \<^bold>\<open>The theories, and the files under \<open>crates/\<close> they model.\<close>

  \<^item> Prelude, RustStr, BTree, Ancestry, Forest: shared vocabulary. Machine bounds, bounded pointer walks, the operations
    of \<open>str\<close>, sorted maps, paths and ordered forests.
  \<^item> IdSource: the interface \<open>id_source\<close> of a counter that hands out identities, with the facts that none is handed
    out twice and that later ones are greater.
  \<^item> Ssrf (\<open>obscura-ssrf/src/lib.rs\<close>), Robots, Blocklist, CookieJar and CookieProps (\<open>obscura-net/src/robots.rs\<close>,
    \<open>blocklist.rs\<close>, \<open>cookies.rs\<close>): what may be fetched, and the cookie jar with its parsing of dates.
  \<^item> Engine (\<open>obscura-cdp/src/engine.rs\<close>, \<open>protocol.rs\<close>), IoStream (\<open>io.rs\<close>), ActionQueue (\<open>action.rs\<close>), CookieParams
    (\<open>cookie_params.rs\<close>): the identities, actions and wire records, the stream store, the queue of host actions.
  \<^item> CdpState, CdpPages, CdpCookies, CdpActions (\<open>obscura-cdp/src/state.rs\<close>): the browser state, a group of operations
    each. CdpInv and CdpLife: the invariant and that every operation keeps it. CdpSteps: the state as a transition
    system, one label for each method that changes it. CdpProps, CdpSafety, CdpSnap, CdpStale: what it promises.
  \<^item> Portable, PortableTarget, PortableStorage, PortableFetch, PortablePage, PortableDom, PortableIo, PortableRender,
    PortableAction, PortableDispatch (the files \<open>obscura-cdp/src/portable_*.rs\<close> and \<open>domains/browser.rs\<close>): the
    domain handlers and the router over them.
  \<^item> DomNode, Dom, DomRead, DomOps (\<open>obscura-dom/src/tree.rs\<close>): nodes, the arena, reading and changing it. DomSink
    (\<open>tree_sink.rs\<close>): the calls of the parser. DomLinks, DomShape, DomInv, DomSteps, DomFree, DomGrow, DomWalk: the
    invariant and its proof, operation by operation. DomProps and DomCycle: the properties. Serialize
    (\<open>serialize.rs\<close>): the markup of a tree.
  \<^item> ImportMap, Watchdog (\<open>obscura-js/src/import_map.rs\<close>, \<open>cdp_watchdog.rs\<close>), and Navigation
    and WasmCookies (\<open>obscura-wasm/src/navigation.rs\<close>, \<open>cookies.rs\<close>).
\<close>

text \<open>
  \<^bold>\<open>How the parts interact.\<close> The handlers of the portable domains call the methods of the browser state of
  CdpState to CdpActions and nothing else: the locale \<open>cdp_handler\<close> of Portable states that contract (an answer with
  the identity of the request, at most one call of the state, none when refused) and is interpreted for the handler of
  every domain, so that the router and its clients only reach states of the transition system of CdpSteps. The stream
  store of IoStream is wrapped by PortableIo with owners, and filled by PortableRender. Host actions that
  PortableAction builds are those that \<open>start_action\<close> of CdpActions takes. The tree of Dom is changed by \<open>DomTree\<close>
  itself and by the parser through DomSink, and read by Serialize.

  \<^bold>\<open>Interfaces.\<close> \<open>entry_store\<close> (BTree): a map from keys to entries, of which clients use what a lookup returns
  after writes; interpreted for the sorted maps of the browser state (\<open>bm\<close>) and for the nested maps of the cookie jar
  (\<open>jar\<close>). \<open>id_source\<close> (IdSource): interpreted for the stream store, the action queue, the counters of the browser
  state, the watchdog and the navigation state. \<open>cdp_handler\<close> (Portable): interpreted for the Browser and Target,
  storage, Fetch, Network, Emulation and Page handlers.

  \<^bold>\<open>What is shown.\<close>
  \<^item> The browser state: in every reachable state references between tables are valid, all tables and queues are within
    their limits, identities are fresh and every method returns; navigation, completion, closing and disposal, event
    delivery, stored bodies, cookies and snapshots do what they say.
  \<^item> The portable dispatcher: every command of its domains is answered, with its own identity and session, by a result or
    one of four errors, and a refused command has changed nothing; streams belong to their connection; the renderer sees
    checked options only; no command is handed to the host that a page domain answers.
  \<^item> The document: in every reachable arena the link fields represent ordered child lists, the shadow registry is a
    bijection and no node contains its host; moves put nodes where they say; traversals are the preorder of the child
    lists and the steps in document order follow it; serialization equals a structural definition.
  \<^item> Policy: the deny set of addresses equals its description by ranges, the cookie rules equal those of RFC 6265, the
    rules of robots.txt and the calendar equal reference definitions. The jar of the portable build is bounded, sends
    exactly the cookies in scope in the order of RFC 6265, hides HttpOnly cookies from scripts and restores its exports.
  \<^item> Modules, watchdog and navigation: resolved specifiers keep their meaning; overrunning commands are terminated exactly
    once; a navigation commits what was approved and received, and a superseded one never comes back.

  \<^bold>\<open>Bounds and fuel.\<close> Loops that the code caps carry the cap of the code: the scope and climb loops of the tree and
  the turns of the serializer stop at the number of nodes or steps that the code allows, and on reachable trees the caps
  are shown to be unreachable. Loops without a cap: the climb of \<open>is_hovered\<close>, the clone and the
  import of a subtree are \<open>partial_function\<close>s; the climb is shown to return, while a clone of a template inside itself
  is shown not to (DomCycle). The eviction of response bodies has the length of its queue as fuel, which is shown to
  be enough; the eviction of streams is a total recursion on its queue. The loop of the
  watchdog's worker takes a list of scheduling delays, one for each turn, and as many turns as there are armed commands and one
  more are shown to be enough; its waits on the condition variable, timed or not, and the notifications of \<open>arm\<close> and
  \<open>disarm\<close> that end them are part of the state. A reachable document is
  one whose arena stays within the \<open>2 ^ 32\<close> slots a node identity can name (\<open>fits\<close>).

  \<^bold>\<open>What the model excludes.\<close> The client of a document does not move the document node itself and does not put a
  template into its own contents: the code accepts both, with the consequences shown in \<open>document_can_be_moved\<close> and
  \<open>selfish_never_cloned\<close>; \<open>permitted\<close> in DomProps says what is assumed of the calls.

  \<^bold>\<open>Not modelled.\<close> The rendering engine \<open>obscura-render\<close> (cascade, layout and painting over floating-point
  geometry, fonts and images), the bindings to V8 in \<open>obscura-js\<close>, the asynchronous page of \<open>obscura-browser\<close>, the HTTP
  clients, the WebSocket server with the native domain handlers and the adapter \<open>obscura-wasm/src/cdp.rs\<close>: there the
  behaviour is that of the library or of the executor. CSS selectors are the traits of the crate \<open>selectors\<close>. Locks are
  not modelled; every method of a locked structure is one step.
\<close>

end
